(* ===== verification/Diagnostics.thy ===== *)
theory Diagnostics
  imports Rust_Text
begin

text \<open>
  Positions and messages of \<open>libs/spans/src/lib.rs\<close> and \<open>libs/diagnostics/src/lib.rs\<close>. A path is the text
  that \<open>Path::display\<close> gives.
\<close>

section \<open>Spans\<close>

record span =
  sp_line :: nat
  sp_column :: nat
  sp_length :: nat
  sp_text :: string

section \<open>Diagnostics\<close>

record suggestion =
  sg_line :: nat
  sg_column :: nat
  sg_length :: nat
  sg_text :: string
  sg_description :: string

record diagnostic =
  dg_code :: string
  dg_severity :: string
  dg_message :: string
  dg_file :: string
  dg_line :: nat
  dg_column :: nat
  dg_length :: nat
  dg_text :: string
  dg_expected :: "string option"
  dg_found :: "string option"
  dg_suggestions :: "suggestion list"

definition diagnostic_new ::
  "string \<Rightarrow> string \<Rightarrow> string \<Rightarrow> nat \<Rightarrow> nat \<Rightarrow> nat \<Rightarrow> string \<Rightarrow> diagnostic" where
  "diagnostic_new code message path line column len t =
     \<lparr>dg_code = code, dg_severity = ''error'', dg_message = message, dg_file = path, dg_line = line,
      dg_column = column, dg_length = len, dg_text = t, dg_expected = None, dg_found = None,
      dg_suggestions = []\<rparr>"

lemma diagnostic_new_simps [simp]:
  "dg_code (diagnostic_new code message path line column len t) = code"
  "dg_message (diagnostic_new code message path line column len t) = message"
  "dg_file (diagnostic_new code message path line column len t) = path"
  "dg_line (diagnostic_new code message path line column len t) = line"
  "dg_column (diagnostic_new code message path line column len t) = column"
  "dg_length (diagnostic_new code message path line column len t) = len"
  "dg_text (diagnostic_new code message path line column len t) = t"
  by (simp_all add: diagnostic_new_def)

end
