(* ===== verification/Lexer.thy ===== *)
theory Lexer
  imports Diagnostics
begin

text \<open>
  The lexer of \<open>crates/nomo_syntax/src/lexer.rs\<close>. \<open>str::char_indices\<close> is the list of the characters that
  remain, each with its byte index; a character is the list of its UTF-8 bytes. The variants of
  \<open>TokenKind\<close> without a payload are grouped into keyword_table and punctuation.
\<close>

section \<open>Tokens\<close>

datatype keyword =
    KwPackage | KwImport | KwPub | KwImpl | KwInterface | KwUnsafe
  | KwExtern | KwSuspend | KwFn | KwStruct | KwEnum | KwIf
  | KwElse | KwMatch | KwPanic | KwAs | KwLet | KwMut
  | KwReturn | KwVoid | KwTrue | KwFalse | KwFor | KwIn
  | KwBreak | KwContinue | KwDefer | KwConst

datatype punctuation =
    PDot | PComma | PSemicolon | PColon | PEqual | PEqualEqual
  | PPlusEqual | PMinusEqual | PStarEqual | PSlashEqual | PPercentEqual | PBang
  | PBangEqual | PAmp | PAmpEqual | PAmpAmp | PAmpCaret | PAmpCaretEqual
  | PPipe | PPipeEqual | PPipePipe | PCaret | PCaretEqual | PPlus
  | PPlusPlus | PMinus | PMinusMinus | PStar | PSlash | PPercent
  | PQuestion | PHash | PLess | PLessEqual | PLessLess | PLessLessEqual
  | PGreater | PGreaterEqual | PGreaterGreater | PGreaterGreaterEqual | PLParen | PRParen
  | PLBracket | PRBracket | PLBrace | PRBrace | PArrow | PFatArrow

datatype token_kind =
    Keyword keyword
  | Ident string
  | StringLit string
  | IntLit i64
  | FloatLit string
  | CharLit string
  | Punct punctuation
  | Newline
  | Eof

record token =
  tok_kind :: token_kind
  tok_line :: nat
  tok_column :: nat
  tok_text :: string

text \<open>The function \<open>token\<close> of the lexer.\<close>

definition make_token :: "token_kind \<Rightarrow> nat \<Rightarrow> nat \<Rightarrow> string \<Rightarrow> token" where
  "make_token k line column t = \<lparr>tok_kind = k, tok_line = line, tok_column = column, tok_text = t\<rparr>"

section \<open>Characters\<close>

type_synonym chars = "(nat \<times> string) list"

fun indices_from :: "nat \<Rightarrow> string list \<Rightarrow> chars" where
  "indices_from i [] = []"
| "indices_from i (ch # chs) = (i, ch) # indices_from (i + length ch) chs"

definition char_indices :: "string \<Rightarrow> chars" where
  "char_indices s = indices_from 0 (chars_of s)"

text \<open>\<open>matches!(chars.peek(), Some((_, c)))\<close>.\<close>

definition next_is :: "char \<Rightarrow> chars \<Rightarrow> bool" where
  "next_is c cs \<longleftrightarrow> (case cs of [] \<Rightarrow> False | (_, ch) # _ \<Rightarrow> ch = [c])"

text \<open>A test of a character that only ASCII characters pass.\<close>

definition ascii_char :: "(char \<Rightarrow> bool) \<Rightarrow> string \<Rightarrow> bool" where
  "ascii_char P ch \<longleftrightarrow> (case ch of [c] \<Rightarrow> P c | _ \<Rightarrow> False)"

definition is_ascii_alphabetic :: "char \<Rightarrow> bool" where
  "is_ascii_alphabetic c \<longleftrightarrow> (97 \<le> byte_of c \<and> byte_of c \<le> 122) \<or> (65 \<le> byte_of c \<and> byte_of c \<le> 90)"

definition is_ident_start :: "char \<Rightarrow> bool" where
  "is_ident_start c \<longleftrightarrow> c = CHR ''_'' \<or> is_ascii_alphabetic c"

definition is_ident_continue :: "char \<Rightarrow> bool" where
  "is_ident_continue c \<longleftrightarrow> c = CHR ''_'' \<or> is_ascii_alphabetic c \<or> is_ascii_digit c"

text \<open>The loops that push the characters with a property: their text and what remains.\<close>

fun take_chars :: "(char \<Rightarrow> bool) \<Rightarrow> chars \<Rightarrow> string \<times> chars" where
  "take_chars P [] = ([], [])"
| "take_chars P ((i, ch) # cs) =
     (if ascii_char P ch then case take_chars P cs of (t, rest) \<Rightarrow> (ch @ t, rest) else ([], (i, ch) # cs))"

lemma take_chars_length: "take_chars P cs = (t, rest) \<Longrightarrow> length rest \<le> length cs"
  by (induction P cs arbitrary: t rest rule: take_chars.induct) (auto split: if_splits prod.splits)

section \<open>Punctuation\<close>

text \<open>A token of one character, or of more when the next ones continue it.\<close>

definition one_or :: "punctuation \<Rightarrow> (char \<times> punctuation) list \<Rightarrow> chars \<Rightarrow> token_kind \<times> chars" where
  "one_or short longer cs =
     (case find (\<lambda>(c, _). next_is c cs) longer of
        None \<Rightarrow> (Punct short, cs)
      | Some (_, k) \<Rightarrow> (Punct k, tl cs))"

text \<open>The arms of \<open>lex\<close> for the characters that begin punctuation, except the slash.\<close>

definition lex_punctuation :: "char \<Rightarrow> chars \<Rightarrow> (token_kind \<times> chars) option" where
  "lex_punctuation c cs =
     (if c = CHR ''.'' then Some (Punct PDot, cs)
      else if c = CHR '','' then Some (Punct PComma, cs)
      else if c = CHR '';'' then Some (Punct PSemicolon, cs)
      else if c = CHR '':'' then Some (Punct PColon, cs)
      else if c = CHR ''='' then Some (one_or PEqual [(CHR ''>'', PFatArrow), (CHR ''='', PEqualEqual)] cs)
      else if c = CHR ''!'' then Some (one_or PBang [(CHR ''='', PBangEqual)] cs)
      else if c = CHR ''&'' then
        Some (if next_is (CHR ''&'') cs then (Punct PAmpAmp, tl cs)
              else if next_is (CHR ''^'') cs then one_or PAmpCaret [(CHR ''='', PAmpCaretEqual)] (tl cs)
              else if next_is (CHR ''='') cs then (Punct PAmpEqual, tl cs)
              else (Punct PAmp, cs))
      else if c = CHR ''|'' then Some (one_or PPipe [(CHR ''|'', PPipePipe), (CHR ''='', PPipeEqual)] cs)
      else if c = CHR ''^'' then Some (one_or PCaret [(CHR ''='', PCaretEqual)] cs)
      else if c = CHR ''+'' then Some (one_or PPlus [(CHR ''+'', PPlusPlus), (CHR ''='', PPlusEqual)] cs)
      else if c = CHR ''-'' then
        Some (one_or PMinus [(CHR ''>'', PArrow), (CHR ''-'', PMinusMinus), (CHR ''='', PMinusEqual)] cs)
      else if c = CHR ''*'' then Some (one_or PStar [(CHR ''='', PStarEqual)] cs)
      else if c = CHR ''%'' then Some (one_or PPercent [(CHR ''='', PPercentEqual)] cs)
      else if c = CHR ''?'' then Some (Punct PQuestion, cs)
      else if c = CHR ''#'' then Some (Punct PHash, cs)
      else if c = CHR ''<'' then
        Some (if next_is (CHR ''<'') cs then one_or PLessLess [(CHR ''='', PLessLessEqual)] (tl cs)
              else one_or PLess [(CHR ''='', PLessEqual)] cs)
      else if c = CHR ''>'' then
        Some (if next_is (CHR ''>'') cs then one_or PGreaterGreater [(CHR ''='', PGreaterGreaterEqual)] (tl cs)
              else one_or PGreater [(CHR ''='', PGreaterEqual)] cs)
      else if c = CHR ''('' then Some (Punct PLParen, cs)
      else if c = CHR '')'' then Some (Punct PRParen, cs)
      else if c = CHR ''['' then Some (Punct PLBracket, cs)
      else if c = CHR '']'' then Some (Punct PRBracket, cs)
      else if c = CHR ''{'' then Some (Punct PLBrace, cs)
      else if c = CHR ''}'' then Some (Punct PRBrace, cs)
      else None)"

lemma one_or_length: "one_or short longer cs = (k, rest) \<Longrightarrow> length rest \<le> length cs"
  by (auto simp: one_or_def split: option.splits)

lemma lex_punctuation_length:
  assumes "lex_punctuation c cs = Some (k, rest)"
  shows "length rest \<le> length cs"
proof -
  have tl: "one_or short longer (tl cs) = (k, rest) \<Longrightarrow> length rest \<le> length cs" for short longer
    using one_or_length [of short longer "tl cs" k rest] by auto
  show ?thesis
    using assms unfolding lex_punctuation_def
    by (auto split: if_split_asm dest!: one_or_length tl)
qed

section \<open>Literals\<close>

definition backslash :: char where "backslash = CHR 0x5C"

definition literal_escape :: "string \<Rightarrow> string" where
  "literal_escape ch =
     (if ch = ''n'' then [CHR 0x0A]
      else if ch = ''r'' then [CHR 0x0D]
      else if ch = ''t'' then [CHR 0x09]
      else if ch = [CHR 0x22] then [CHR 0x22]
      else if ch = [backslash] then [backslash]
      else backslash # ch)"

text \<open>The loop over the characters of a string literal: \<open>None\<close> when it is not terminated.\<close>

fun string_literal :: "string \<Rightarrow> chars \<Rightarrow> (string \<times> chars) option" where
  "string_literal literal [] = None"
| "string_literal literal ((_, ch) # cs) =
     (if ch = [CHR 0x22] then Some (literal, cs)
      else if ch = [backslash] then
        (case cs of
           [] \<Rightarrow> None
         | (_, e) # cs' \<Rightarrow> string_literal (literal @ literal_escape e) cs')
      else string_literal (literal @ ch) cs)"

lemma string_literal_length: "string_literal literal cs = Some (t, rest) \<Longrightarrow> length rest \<le> length cs"
  by (induction literal cs arbitrary: t rest rule: string_literal.induct)
    (fastforce split: if_splits list.splits)+

definition char_escape :: "string \<Rightarrow> string option" where
  "char_escape ch =
     (if ch = ''n'' then Some [CHR 0x0A]
      else if ch = ''r'' then Some [CHR 0x0D]
      else if ch = ''t'' then Some [CHR 0x09]
      else if ch = [CHR 0x27] then Some [CHR 0x27]
      else if ch = [backslash] then Some [backslash]
      else None)"

text \<open>The character after the opening quote: an error code with its message, or the character and what
  remains before the closing quote.\<close>

definition char_body :: "chars \<Rightarrow> (string \<times> string) + (string \<times> chars)" where
  "char_body cs = (case cs of
       [] \<Rightarrow> Err (''E0104'', ''unterminated char literal'')
     | (_, v) # cs \<Rightarrow>
         if v = [backslash] then
           (case cs of
              [] \<Rightarrow> Err (''E0104'', ''unterminated char literal'')
            | (_, e) # cs \<Rightarrow>
                (case char_escape e of
                   Some c \<Rightarrow> Ok (c, cs)
                 | None \<Rightarrow> Err (''E0105'', ''unknown char escape '' @ [CHR 0x60, backslash] @ e @ [CHR 0x60])))
         else if v = [CHR 0x27] then Err (''E0106'', ''empty char literal'')
         else Ok (v, cs))"

definition char_literal :: "chars \<Rightarrow> (string \<times> string) + (string \<times> chars)" where
  "char_literal cs = try_bind (char_body cs) (\<lambda>(c, cs).
     if next_is (CHR 0x27) cs then Ok (c, tl cs)
     else Err (''E0107'', ''char literal must contain exactly one character''))"

lemma char_literal_length: "char_literal cs = Ok (t, rest) \<Longrightarrow> length rest \<le> length cs"
  by (auto simp: char_literal_def char_body_def split: list.splits if_splits option.splits)

text \<open>The digits after the first one: a float when a dot and a digit follow, else an integer, if it fits.\<close>

definition number_literal :: "string \<Rightarrow> chars \<Rightarrow> (string \<times> string) + (token_kind \<times> chars)" where
  "number_literal first cs =
     (case take_chars is_ascii_digit cs of (digits, cs) \<Rightarrow>
        let v = first @ digits in
        if next_is (CHR ''.'') cs \<and> tl cs \<noteq> [] \<and> ascii_char is_ascii_digit (snd (hd (tl cs))) then
          (case take_chars is_ascii_digit (tl cs) of (decimals, cs) \<Rightarrow>
             Ok (FloatLit (v @ ''.'' @ decimals), cs))
        else (case parse_i64 v of
            Some n \<Rightarrow> Ok (IntLit (word_of_int n), cs)
          | None \<Rightarrow> Err (v, ''integer literal is too large for '' @ [CHR 0x60] @ ''i64'' @ [CHR 0x60])))"

lemma number_literal_length: "number_literal first cs = Ok (k, rest) \<Longrightarrow> length rest \<le> length cs"
  by (auto simp: number_literal_def Let_def split: prod.splits if_splits option.splits
      dest!: take_chars_length)

section \<open>Words\<close>

definition is_reserved_word :: "string \<Rightarrow> bool" where
  "is_reserved_word v \<longleftrightarrow> v \<in> {''export'', ''go'', ''chan'', ''null''}"

definition keyword_table :: "(string \<times> keyword) list" where
  "keyword_table =
     [(''package'', KwPackage), (''import'', KwImport), (''pub'', KwPub), (''impl'', KwImpl),
      (''interface'', KwInterface), (''unsafe'', KwUnsafe), (''extern'', KwExtern), (''suspend'', KwSuspend),
      (''fn'', KwFn), (''struct'', KwStruct), (''enum'', KwEnum), (''if'', KwIf), (''else'', KwElse),
      (''match'', KwMatch), (''panic'', KwPanic), (''as'', KwAs), (''let'', KwLet), (''mut'', KwMut),
      (''return'', KwReturn), (''void'', KwVoid), (''true'', KwTrue), (''false'', KwFalse), (''for'', KwFor),
      (''in'', KwIn), (''break'', KwBreak), (''continue'', KwContinue), (''defer'', KwDefer),
      (''const'', KwConst)]"

definition word_kind :: "string \<Rightarrow> token_kind" where
  "word_kind v = (case map_of keyword_table v of Some k \<Rightarrow> Keyword k | None \<Rightarrow> Ident v)"

section \<open>The loop over a line\<close>

record lex_state =
  lx_tokens :: "token list"
  lx_depth :: nat
  lx_start :: "(nat \<times> nat \<times> string) option"

definition push_token :: "token_kind \<Rightarrow> nat \<Rightarrow> nat \<Rightarrow> string \<Rightarrow> lex_state \<Rightarrow> lex_state" where
  "push_token k line column t s = s\<lparr>lx_tokens := lx_tokens s @ [make_token k line column t]\<rparr>"

text \<open>A character inside a block comment.\<close>

definition comment_step :: "string \<Rightarrow> chars \<Rightarrow> lex_state \<Rightarrow> lex_state \<times> chars" where
  "comment_step ch cs s =
     (if ch = ''/'' \<and> next_is (CHR ''*'') cs then (s\<lparr>lx_depth := lx_depth s + 1\<rparr>, tl cs)
      else if ch = ''*'' \<and> next_is (CHR ''/'') cs then
        (s\<lparr>lx_depth := lx_depth s - 1, lx_start := if lx_depth s = 1 then None else lx_start s\<rparr>, tl cs)
      else (s, cs))"

text \<open>A slash: a comment to the end of the line, a block comment, or punctuation.\<close>

definition slash_step :: "nat \<Rightarrow> string \<Rightarrow> nat \<Rightarrow> chars \<Rightarrow> lex_state \<Rightarrow> lex_state \<times> chars" where
  "slash_step line t column cs s =
     (if next_is (CHR ''/'') cs then (s, [])
      else if next_is (CHR ''*'') cs then
        (s\<lparr>lx_depth := 1, lx_start := Some (line, column, t)\<rparr>, tl cs)
      else case one_or PSlash [(CHR ''='', PSlashEqual)] cs of
        (k, cs) \<Rightarrow> (push_token k line column t s, cs))"

text \<open>One iteration outside of comments, at the character \<open>ch\<close>.\<close>

definition lex_char ::
  "string \<Rightarrow> nat \<Rightarrow> string \<Rightarrow> nat \<Rightarrow> string \<Rightarrow> chars \<Rightarrow> lex_state \<Rightarrow> diagnostic + (lex_state \<times> chars)" where
  "lex_char path line t column ch cs s =
     (let fail = (\<lambda>code message len. Err (diagnostic_new code message path line column len t));
          push = (\<lambda>(k, cs). (push_token k line column t s, cs))
      in if ch \<in> {'' '', [CHR 0x09], [CHR 0x0D]} then Ok (s, cs)
         else if ch = ''/'' then Ok (slash_step line t column cs s)
         else case (case ch of [c] \<Rightarrow> lex_punctuation c cs | _ \<Rightarrow> None) of
           Some token \<Rightarrow> Ok (push token)
         | None \<Rightarrow>
             if ch = [CHR 0x22] then
               (case string_literal [] cs of
                  None \<Rightarrow> fail ''E0101'' ''unterminated string literal'' 1
                | Some (v, cs) \<Rightarrow> Ok (push (StringLit v, cs)))
             else if ch = [CHR 0x27] then
               (case char_literal cs of
                  Inl (code, message) \<Rightarrow> fail code message 1
                | Inr (v, cs) \<Rightarrow> Ok (push (CharLit v, cs)))
             else if ascii_char is_ascii_digit ch then
               (case number_literal ch cs of
                  Inl (v, message) \<Rightarrow> fail ''E0103'' message (length v)
                | Inr token \<Rightarrow> Ok (push token))
             else if ascii_char is_ident_start ch then
               (case take_chars is_ident_continue cs of (rest, cs) \<Rightarrow>
                  let v = ch @ rest in
                  if is_reserved_word v then
                    fail ''E0104'' ([CHR 0x60] @ v @ [CHR 0x60] @ '' is reserved for future Nomo versions'') (length v)
                  else Ok (push (word_kind v, cs)))
             else fail ''E0102'' (''unexpected character '' @ [CHR 0x60] @ ch @ [CHR 0x60]) (length ch))"

definition lex_step ::
  "string \<Rightarrow> nat \<Rightarrow> string \<Rightarrow> nat \<Rightarrow> string \<Rightarrow> chars \<Rightarrow> lex_state \<Rightarrow> diagnostic + (lex_state \<times> chars)" where
  "lex_step path line t i ch cs s =
     (if 0 < lx_depth s then Ok (comment_step ch cs s) else lex_char path line t (i + 1) ch cs s)"

lemma lex_step_length:
  assumes "lex_step path line t i ch cs s = Ok (s', rest)"
  shows "length rest \<le> length cs"
proof -
  have comment: "comment_step ch cs s = (s', rest) \<Longrightarrow> length rest \<le> length cs" for s s'
    by (auto simp: comment_step_def split: if_splits)
  have slash: "slash_step line t column cs s = (s', rest) \<Longrightarrow> length rest \<le> length cs" for column
    by (auto simp: slash_step_def split: if_splits prod.splits dest!: one_or_length)
  show ?thesis
    using assms unfolding lex_step_def lex_char_def Let_def
    by (auto split: if_splits option.splits sum.splits prod.splits list.splits
        dest: comment slash lex_punctuation_length string_literal_length char_literal_length
          number_literal_length take_chars_length)
qed

function lex_line ::
  "string \<Rightarrow> nat \<Rightarrow> string \<Rightarrow> chars \<Rightarrow> lex_state \<Rightarrow> diagnostic + lex_state" where
  "lex_line path line t [] s = Ok s"
| "lex_line path line t ((i, ch) # cs) s = (case lex_step path line t i ch cs s of
       Inl e \<Rightarrow> Err e
     | Inr (s', rest) \<Rightarrow> lex_line path line t rest s')"
  by pat_completeness auto
termination
  by (relation "measure (\<lambda>(path, line, t, cs, s). length cs)") (auto dest: lex_step_length)

section \<open>The loop over the lines\<close>

definition strip_carriage_return :: "string \<Rightarrow> string" where
  "strip_carriage_return t = (if t \<noteq> [] \<and> last t = CHR 0x0D then butlast t else t)"

text \<open>\<open>str::lines\<close>.\<close>

definition str_lines :: "string \<Rightarrow> string list" where
  "str_lines s =
     (let parts = split_by (\<lambda>c. c = CHR 0x0A) s
      in map strip_carriage_return (butlast parts) @ (if last parts = [] then [] else [last parts]))"

fun lex_lines :: "string \<Rightarrow> nat \<Rightarrow> string list \<Rightarrow> lex_state \<Rightarrow> diagnostic + lex_state" where
  "lex_lines path line [] s = Ok s"
| "lex_lines path line (t # ts) s =
     try_bind (lex_line path line t (char_indices t) s) (\<lambda>s.
       lex_lines path (line + 1) ts (push_token Newline line (length t + 1) t s))"

definition lex :: "string \<Rightarrow> string \<Rightarrow> diagnostic + token list" where
  "lex path source =
     try_bind (lex_lines path 1 (str_lines source) \<lparr>lx_tokens = [], lx_depth = 0, lx_start = None\<rparr>) (\<lambda>s.
       case lx_start s of
         Some (line, column, t) \<Rightarrow>
           Err (diagnostic_new ''E0108'' ''unterminated block comment'' path line column 2 t)
       | None \<Rightarrow>
           Ok (lx_tokens s
             @ [\<lparr>tok_kind = Eof, tok_line = max 1 (length (str_lines source)), tok_column = 1, tok_text = []\<rparr>]))"

end
