(* ===== verification/Lexer_Places.thy ===== *)
theory Lexer_Places
  imports Lexer
begin

text \<open>
  Where the tokens are. The characters that remain on a line are those from a byte index on, and every step
  of the lexer goes on at a later index; so the tokens come in the order of the source, each one on a line of
  it and at its own spelling, and the errors of the lexer are at a place of the source.
\<close>

section \<open>The characters from an index on\<close>

definition rest_at :: "string \<Rightarrow> nat \<Rightarrow> chars" where
  "rest_at t i = indices_from i (chars_of (drop i t))"

lemma rest_at_0: "rest_at t 0 = char_indices t"
  by (simp add: rest_at_def char_indices_def)

lemma rest_at_end: "length t \<le> i \<Longrightarrow> rest_at t i = []"
  by (simp add: rest_at_def)

lemma rest_at_step:
  assumes "i < length t"
  defines "ch \<equiv> take (utf8_width (t ! i)) (drop i t)"
  shows "rest_at t i = (i, ch) # rest_at t (i + length ch)" "0 < length ch"
proof -
  have t: "drop i t = t ! i # drop (Suc i) t" using assms(1) by (simp add: Cons_nth_drop_Suc)
  have "drop (utf8_width (t ! i)) (drop i t) = drop (i + length ch) t"
    by (cases "i + utf8_width (t ! i) \<le> length t") (simp_all add: ch_def add.commute)
  then show "rest_at t i = (i, ch) # rest_at t (i + length ch)"
    unfolding rest_at_def by (subst t, subst chars_of.simps) (simp add: t [symmetric] ch_def)
  show "0 < length ch" using assms utf8_width_pos [of "t ! i"] by (simp add: ch_def)
qed

lemma rest_at_Cons:
  assumes "rest_at t i = (k, ch) # cs"
  shows "i < length t" "k = i" "ch = take (length ch) (drop i t)" "0 < length ch"
    "hd ch = t ! i" "cs = rest_at t (i + length ch)"
proof -
  show i: "i < length t" using assms rest_at_end [of t i] by (auto simp: not_less [symmetric])
  from rest_at_step [OF this] assms
  have ch: "k = i" "ch = take (utf8_width (t ! i)) (drop i t)" "cs = rest_at t (i + length ch)" "0 < length ch"
    by auto
  then show "k = i" "cs = rest_at t (i + length ch)" "0 < length ch" by simp_all
  show "ch = take (length ch) (drop i t)"
    unfolding ch(2) by (metis append_eq_conv_conj append_take_drop_id)
  have "0 < utf8_width (t ! i)" by (rule utf8_width_pos)
  with i ch(2) show "hd ch = t ! i" by (simp add: hd_drop_conv_nth)
qed

lemma suffix_rest_at: "suffix cs (rest_at t i) \<Longrightarrow> \<exists>j\<ge>i. cs = rest_at t j"
proof (induction "length t - i" arbitrary: i rule: less_induct)
  case less
  show ?case
  proof (cases "i < length t")
    case True
    note step = rest_at_step [OF True]
    from less.prems step(1) show ?thesis
    proof (cases "cs = rest_at t i")
      case False
      with less.prems step(1)
      have "suffix cs (rest_at t (i + length (take (utf8_width (t ! i)) (drop i t))))"
        by (simp add: suffix_Cons)
      moreover have "length t - (i + length (take (utf8_width (t ! i)) (drop i t))) < length t - i"
        using True step(2) by simp
      ultimately show ?thesis using less.hyps by (meson le_add1 order_trans)
    qed auto
  next
    case False
    with less.prems show ?thesis by (auto simp: rest_at_end)
  qed
qed

section \<open>The steps go on at a suffix\<close>

lemma suffix_tl: "suffix (tl cs) cs"
  by (cases cs) (simp_all add: suffix_Cons)

lemma suffix_tl_trans: "suffix rest (tl cs) \<Longrightarrow> suffix rest cs"
  by (rule suffix_order.trans [OF _ suffix_tl])

lemma take_chars_suffix: "take_chars P cs = (t, rest) \<Longrightarrow> suffix rest cs"
  by (induction P cs arbitrary: t rest rule: take_chars.induct) (auto simp: suffix_Cons split: if_splits prod.splits)

lemma one_or_suffix: "one_or short longer cs = (k, rest) \<Longrightarrow> suffix rest cs"
  by (auto simp: one_or_def suffix_tl split: option.splits)

lemma lex_punctuation_suffix:
  "lex_punctuation c cs = Some (k, rest) \<Longrightarrow> suffix rest cs"
  unfolding lex_punctuation_def
  by (auto simp: suffix_tl split: if_split_asm dest!: one_or_suffix intro: suffix_tl_trans)

lemma string_literal_suffix: "string_literal literal cs = Some (t, rest) \<Longrightarrow> suffix rest cs"
  by (induction literal cs arbitrary: t rest rule: string_literal.induct)
    (fastforce simp: suffix_Cons split: if_splits list.splits)+

lemma char_literal_suffix: "char_literal cs = Ok (t, rest) \<Longrightarrow> suffix rest cs"
  by (auto simp: char_literal_def char_body_def suffix_Cons split: list.splits if_splits option.splits
      intro: suffix_tl_trans suffix_tl)

lemma number_literal_suffix: "number_literal first cs = Ok (k, rest) \<Longrightarrow> suffix rest cs"
  by (auto simp: number_literal_def Let_def split: prod.splits if_splits option.splits
      dest!: take_chars_suffix intro: suffix_tl_trans suffix_order.trans)

section \<open>Spellings\<close>

primrec punct_text :: "punctuation \<Rightarrow> string" where
  "punct_text PDot = ''.''" | "punct_text PComma = '',''" | "punct_text PSemicolon = '';''"
| "punct_text PColon = '':''" | "punct_text PEqual = ''=''" | "punct_text PEqualEqual = ''==''"
| "punct_text PPlusEqual = ''+=''" | "punct_text PMinusEqual = ''-=''" | "punct_text PStarEqual = ''*=''"
| "punct_text PSlashEqual = ''/=''" | "punct_text PPercentEqual = ''%=''" | "punct_text PBang = ''!''"
| "punct_text PBangEqual = ''!=''" | "punct_text PAmp = ''&''" | "punct_text PAmpEqual = ''&=''"
| "punct_text PAmpAmp = ''&&''" | "punct_text PAmpCaret = ''&^''" | "punct_text PAmpCaretEqual = ''&^=''"
| "punct_text PPipe = ''|''" | "punct_text PPipeEqual = ''|=''" | "punct_text PPipePipe = ''||''"
| "punct_text PCaret = ''^''" | "punct_text PCaretEqual = ''^=''" | "punct_text PPlus = ''+''"
| "punct_text PPlusPlus = ''++''" | "punct_text PMinus = ''-''" | "punct_text PMinusMinus = ''--''"
| "punct_text PStar = ''*''" | "punct_text PSlash = ''/''" | "punct_text PPercent = ''%''"
| "punct_text PQuestion = ''?''" | "punct_text PHash = ''#''" | "punct_text PLess = ''<''"
| "punct_text PLessEqual = ''<=''" | "punct_text PLessLess = ''<<''" | "punct_text PLessLessEqual = ''<<=''"
| "punct_text PGreater = ''>''" | "punct_text PGreaterEqual = ''>=''" | "punct_text PGreaterGreater = ''>>''"
| "punct_text PGreaterGreaterEqual = ''>>=''" | "punct_text PLParen = ''(''" | "punct_text PRParen = '')''"
| "punct_text PLBracket = ''[''" | "punct_text PRBracket = '']''" | "punct_text PLBrace = ''{''"
| "punct_text PRBrace = ''}''" | "punct_text PArrow = ''->''" | "punct_text PFatArrow = ''=>''"

text \<open>The characters between the quotes of a string literal and the text they stand for; a backslash before
  any other character stands for itself.\<close>

definition string_escapes :: "(string \<times> string) list" where
  "string_escapes = [(''n'', [CHR 0x0A]), (''r'', [CHR 0x0D]), (''t'', [CHR 0x09]),
     ([CHR 0x22], [CHR 0x22]), ([backslash], [backslash])]"

inductive string_spelling :: "string list \<Rightarrow> string \<Rightarrow> bool" where
  empty: "string_spelling [] []"
| plain: "ch \<notin> {[CHR 0x22], [backslash]} \<Longrightarrow> string_spelling chs v \<Longrightarrow> string_spelling (ch # chs) (ch @ v)"
| escape: "map_of string_escapes e = Some x \<Longrightarrow> string_spelling chs v
    \<Longrightarrow> string_spelling ([backslash] # e # chs) (x @ v)"
| unknown: "map_of string_escapes e = None \<Longrightarrow> string_spelling chs v
    \<Longrightarrow> string_spelling ([backslash] # e # chs) (backslash # e @ v)"

definition char_escapes :: "(string \<times> string) list" where
  "char_escapes = [(''n'', [CHR 0x0A]), (''r'', [CHR 0x0D]), (''t'', [CHR 0x09]),
     ([CHR 0x27], [CHR 0x27]), ([backslash], [backslash])]"

definition char_spelling :: "string list \<Rightarrow> string \<Rightarrow> bool" where
  "char_spelling chs v \<longleftrightarrow> chs = [v] \<and> v \<notin> {[CHR 0x27], [backslash]}
     \<or> (\<exists>e. chs = [[backslash], e] \<and> map_of char_escapes e = Some v)"

definition quoted_at :: "char \<Rightarrow> string list \<Rightarrow> string \<Rightarrow> bool" where
  "quoted_at quote chs u \<longleftrightarrow> (\<exists>rest. chars_of u = [quote] # chs @ [quote] # rest)"

text \<open>The digits after the dot that follows the first digits.\<close>

definition decimals_at :: "string \<Rightarrow> string" where
  "decimals_at u = (case dropWhile is_ascii_digit u of
       [] \<Rightarrow> []
     | c # r \<Rightarrow> if c = CHR ''.'' then takeWhile is_ascii_digit r else [])"

text \<open>That a source text begins with the spelling of a token, the whole of it: words and numbers go on as long
  as they can, a literal up to its closing quote, and no longer punctuation begins at the place.\<close>

definition spelled_at :: "token_kind \<Rightarrow> string \<Rightarrow> bool" where
  "spelled_at k u = (case k of
       Keyword w \<Rightarrow> map_of keyword_table (takeWhile is_ident_continue u) = Some w
     | Ident v \<Rightarrow> takeWhile is_ident_continue u = v \<and> map_of keyword_table v = None
         \<and> v \<noteq> [] \<and> is_ident_start (hd v) \<and> \<not> is_reserved_word v
     | IntLit w \<Rightarrow> map_option word_of_int (parse_i64 (takeWhile is_ascii_digit u)) = Some w \<and> decimals_at u = []
     | FloatLit v \<Rightarrow> v = takeWhile is_ascii_digit u @ ''.'' @ decimals_at u
         \<and> takeWhile is_ascii_digit u \<noteq> [] \<and> decimals_at u \<noteq> []
     | StringLit v \<Rightarrow> (\<exists>chs. quoted_at (CHR 0x22) chs u \<and> string_spelling chs v)
     | CharLit v \<Rightarrow> (\<exists>chs. quoted_at (CHR 0x27) chs u \<and> char_spelling chs v)
     | Punct p \<Rightarrow> prefix (punct_text p) u
         \<and> (\<forall>q. prefix (punct_text q) u \<longrightarrow> length (punct_text q) \<le> length (punct_text p))
     | Newline \<Rightarrow> u = []
     | Eof \<Rightarrow> u = [])"

lemma next_is_rest_at:
  "next_is c (rest_at t j) \<Longrightarrow> drop j t = c # drop (Suc j) t \<and> tl (rest_at t j) = rest_at t (Suc j)"
proof -
  assume "next_is c (rest_at t j)"
  then obtain k cs where "rest_at t j = (k, [c]) # cs"
    by (auto simp: next_is_def split: list.splits)
  note first = rest_at_Cons [OF this]
  from first(1,5) have "drop j t = c # drop (Suc j) t" by (simp add: Cons_nth_drop_Suc [symmetric])
  moreover from first(6) \<open>rest_at t j = (k, [c]) # cs\<close> have "tl (rest_at t j) = rest_at t (Suc j)" by simp
  ultimately show ?thesis ..
qed

lemma next_is_at:
  assumes "byte_of c < 128"
  shows "next_is c (rest_at t j) \<longleftrightarrow> (\<exists>r. drop j t = c # r)"
proof
  show "next_is c (rest_at t j) \<Longrightarrow> \<exists>r. drop j t = c # r" using next_is_rest_at by blast
next
  assume "\<exists>r. drop j t = c # r"
  then obtain r where r: "drop j t = c # r" ..
  then have j: "j < length t" by (cases "j < length t") simp_all
  then have "t ! j = c" using r by (metis hd_drop_conv_nth list.sel(1))
  with rest_at_step(1) [OF j] r assms show "next_is c (rest_at t j)" by (simp add: next_is_def utf8_width_def)
qed

text \<open>The characters that a text of punctuation goes on with.\<close>

lemma next_is_ascii:
  "c \<in> set ''=><&^|+-*/'' \<Longrightarrow> next_is c (rest_at t j) \<longleftrightarrow> (\<exists>r. drop j t = c # r)"
  by (rule next_is_at) (auto simp: byte_of_def)

lemma tl_rest_at_ascii: "drop j t = c # r \<Longrightarrow> byte_of c < 128 \<Longrightarrow> tl (rest_at t j) = rest_at t (Suc j)"
  using next_is_at next_is_rest_at by blast

lemma drop_Suc_Cons: "drop j t = c # r \<Longrightarrow> drop (Suc j) t = r"
  by (metis drop_Suc list.sel(3) tl_drop)

lemma punct_text_pos: "0 < length (punct_text p)"
  by (cases p) simp_all

lemma one_or_spelled:
  assumes "one_or short longer (rest_at t j) = (k, rest)"
  shows "k = Punct short \<or> (\<exists>c p. (c, p) \<in> set longer \<and> k = Punct p \<and> drop j t = c # drop (Suc j) t)"
  using assms unfolding one_or_def
  by (auto split: option.splits simp: find_Some_iff dest!: next_is_rest_at) (metis nth_mem)

lemma lex_punctuation_prefix:
  assumes "lex_punctuation c (rest_at t (Suc i)) = Some (k, rest)" "drop i t = c # drop (Suc i) t"
  shows "\<exists>p. k = Punct p \<and> prefix (punct_text p) (drop i t)"
proof -
  have two: "\<exists>p. k = Punct p \<and> prefix (punct_text p) (drop i t)" if "one_or short longer (rest_at t (Suc i)) = (k, rest)"
    "punct_text short = [c]" "list_all (\<lambda>(c', p). punct_text p = [c, c']) longer" for short longer
    using one_or_spelled [OF that(1)] that(2,3) assms(2)
    by (auto simp: list_all_iff)
  have three: "\<exists>p. k = Punct p \<and> prefix (punct_text p) (drop i t)" if "one_or short longer (tl (rest_at t (Suc i))) = (k, rest)"
    "next_is c' (rest_at t (Suc i))"
    "punct_text short = [c, c']" "list_all (\<lambda>(c'', p). punct_text p = [c, c', c'']) longer" for c' short longer
  proof -
    from next_is_rest_at [OF that(2)]
    have t: "drop (Suc i) t = c' # drop (Suc (Suc i)) t" "tl (rest_at t (Suc i)) = rest_at t (Suc (Suc i))"
      by auto
    from that(1) t(2) have "one_or short longer (rest_at t (Suc (Suc i))) = (k, rest)" by simp
    from one_or_spelled [OF this] that(3,4) assms(2) t(1) show ?thesis by (auto simp: list_all_iff)
  qed
  show ?thesis
    using assms unfolding lex_punctuation_def
    by (auto split: if_split_asm dest: two three next_is_rest_at)
qed

lemma prefix_one: "prefix [c] u \<longleftrightarrow> (\<exists>r. u = c # r)" "prefix (c # v) u \<longleftrightarrow> (\<exists>r. u = c # r \<and> prefix v r)"
  by (cases u; auto)+

lemma longest_of_first:
  assumes "lex_punctuation (hd (punct_text q)) (rest_at t (Suc i)) = Some (Punct p, rest)"
    "prefix (tl (punct_text q)) (drop (Suc i) t)"
  shows "length (punct_text q) \<le> length (punct_text p)"
proof (cases "tl (punct_text q) = []")
  case True
  then have "length (punct_text q) \<le> 1" by (cases q) simp_all
  with punct_text_pos [of p] show ?thesis by linarith
next
  case False
  have tl: "tl (rest_at t (Suc i)) = rest_at t (Suc (Suc i))" if "drop (Suc i) t = c' # r" "c' \<in> set ''<>^''" for c' r
    using tl_rest_at_ascii [OF that(1)] that(2) by (auto simp: byte_of_def)
  from False assms show ?thesis
    by (cases q; simp add: lex_punctuation_def one_or_def next_is_ascii prefix_one)
      (auto simp: tl drop_Suc_Cons next_is_ascii one_or_def split: if_split_asm)
qed

lemma lex_punctuation_longest:
  assumes "lex_punctuation c (rest_at t (Suc i)) = Some (Punct p, rest)" "prefix (punct_text q) (c # drop (Suc i) t)"
  shows "length (punct_text q) \<le> length (punct_text p)"
proof -
  obtain d v where q: "punct_text q = d # v" using punct_text_pos [of q] by (cases "punct_text q") simp_all
  with assms longest_of_first [of q t i p rest] show ?thesis by simp
qed

lemma lex_punctuation_spelled:
  assumes "lex_punctuation c (rest_at t (Suc i)) = Some (k, rest)" "drop i t = c # drop (Suc i) t"
  shows "spelled_at k (drop i t)"
proof -
  from lex_punctuation_prefix [OF assms] obtain p where p: "k = Punct p" "prefix (punct_text p) (drop i t)" by blast
  with lex_punctuation_longest [OF assms(1) [unfolded p(1)]] assms(2) show ?thesis by (simp add: spelled_at_def)
qed

lemma slash_spelled:
  assumes "one_or PSlash [(CHR ''='', PSlashEqual)] (rest_at t (Suc i)) = (k, rest)" "drop i t = CHR ''/'' # drop (Suc i) t"
  shows "spelled_at k (drop i t)"
proof -
  have longest: "length (punct_text q) \<le> 2 \<and> (length (punct_text q) = 2 \<longrightarrow> (\<exists>r. drop (Suc i) t = CHR ''='' # r))"
    if "prefix (punct_text q) (CHR ''/'' # drop (Suc i) t)" for q
    using that by (cases q) (auto simp: prefix_one)
  from one_or_spelled [OF assms(1)]
  have k: "k = Punct (if next_is (CHR ''='') (rest_at t (Suc i)) then PSlashEqual else PSlash)"
    using assms(1) by (auto simp: one_or_def split: option.split_asm if_split_asm)
  show ?thesis unfolding k using assms(2) longest
    by (cases "next_is (CHR ''='') (rest_at t (Suc i))") (fastforce simp: spelled_at_def next_is_ascii prefix_one)+
qed

text \<open>The characters of a literal.\<close>

lemma chars_rest_at: "chars_of (drop i t) = map snd (rest_at t i)"
proof -
  have "map snd (indices_from i chs) = chs" for chs by (induction chs arbitrary: i) simp_all
  then show ?thesis by (simp add: rest_at_def)
qed

lemma literal_escape_table:
  "literal_escape e = (case map_of string_escapes e of Some x \<Rightarrow> x | None \<Rightarrow> backslash # e)"
  by (simp add: literal_escape_def string_escapes_def)

lemma string_literal_spelled:
  "string_literal literal cs = Some (v, rest)
    \<Longrightarrow> \<exists>chs x. v = literal @ x \<and> string_spelling chs x \<and> map snd cs = chs @ [CHR 0x22] # map snd rest"
proof (induction literal cs rule: string_literal.induct)
  case (2 literal k ch cs)
  show ?case
  proof (cases "ch = [CHR 0x22]")
    case True
    with "2.prems" string_spelling.empty show ?thesis by auto
  next
    case quote: False
    show ?thesis
    proof (cases "ch = [backslash]")
      case True
      with quote "2.prems" obtain l e cs' where cs: "cs = (l, e) # cs'" by (cases cs) (auto simp: backslash_def)
      with "2.IH"(1) [OF quote True cs refl] "2.prems" quote True obtain chs x where
        x: "v = (literal @ literal_escape e) @ x" "string_spelling chs x" "map snd cs' = chs @ [CHR 0x22] # map snd rest"
        by auto
      have "string_spelling ([backslash] # e # chs) (literal_escape e @ x)"
        using string_spelling.escape [OF _ x(2)] string_spelling.unknown [OF _ x(2)]
        by (auto simp: literal_escape_table split: option.split)
      with x cs True show ?thesis by (intro exI [of _ "[backslash] # e # chs"] exI [of _ "literal_escape e @ x"]) simp
    next
      case False
      with "2.IH"(2) [OF quote False] "2.prems" quote obtain chs x where
        x: "v = (literal @ ch) @ x" "string_spelling chs x" "map snd cs = chs @ [CHR 0x22] # map snd rest"
        by auto
      from string_spelling.plain [OF _ x(2), of ch] quote False x show ?thesis
        by (intro exI [of _ "ch # chs"] exI [of _ "ch @ x"]) simp
    qed
  qed
qed simp

lemma char_escape_table: "char_escape e = map_of char_escapes e"
  by (simp add: char_escape_def char_escapes_def)

lemma char_literal_spelled:
  assumes "char_literal cs = Ok (v, rest)"
  shows "\<exists>chs. char_spelling chs v \<and> map snd cs = chs @ [CHR 0x27] # map snd rest"
proof -
  from assms obtain cs' where body: "char_body cs = Ok (v, cs')" and at_end: "next_is (CHR 0x27) cs'" "rest = tl cs'"
    by (auto simp: char_literal_def split: if_splits)
  from at_end have "map snd cs' = [CHR 0x27] # map snd rest" by (auto simp: next_is_def split: list.splits)
  with body show ?thesis
    by (auto simp: char_body_def char_spelling_def char_escape_table split: list.splits if_splits option.splits)
qed

lemma quoted_spelled:
  assumes "drop i t = quote # drop (Suc i) t" "utf8_width quote = 1"
    "map snd (rest_at t (Suc i)) = chs @ [quote] # map snd rest"
  shows "quoted_at quote chs (drop i t)"
proof -
  have "chars_of (drop i t) = [quote] # chars_of (drop (Suc i) t)"
    by (subst assms(1), subst chars_of.simps) (simp add: assms(2))
  with assms(3) show ?thesis by (auto simp: quoted_at_def chars_rest_at)
qed

lemma quote_widths: "utf8_width (CHR 0x22) = 1" "utf8_width (CHR 0x27) = 1"
  by (simp_all add: utf8_width_def byte_of_def)

lemma string_spelled:
  assumes "string_literal [] (rest_at t (Suc i)) = Some (v, rest)" "drop i t = CHR 0x22 # drop (Suc i) t"
  shows "spelled_at (StringLit v) (drop i t)"
  using string_literal_spelled [OF assms(1)] quoted_spelled [OF assms(2) quote_widths(1)]
  by (auto simp: spelled_at_def)

lemma char_spelled:
  assumes "char_literal (rest_at t (Suc i)) = Ok (v, rest)" "drop i t = CHR 0x27 # drop (Suc i) t"
  shows "spelled_at (CharLit v) (drop i t)"
  using char_literal_spelled [OF assms(1)] quoted_spelled [OF assms(2) quote_widths(2)]
  by (auto simp: spelled_at_def)

text \<open>The loops over ASCII characters take the bytes with the property.\<close>

lemma take_chars_rest_at:
  assumes "take_chars P (rest_at t j) = (v, rest)" "\<And>c. P c \<Longrightarrow> byte_of c < 128"
  shows "v = takeWhile P (drop j t) \<and> rest = rest_at t (j + length v)"
  using assms(1)
proof (induction "length t - j" arbitrary: j v rest rule: less_induct)
  case less
  show ?case
  proof (cases "j < length t")
    case False
    with less.prems show ?thesis by (auto simp: rest_at_end)
  next
    case True
    then have t: "drop j t = t ! j # drop (Suc j) t" by (simp add: Cons_nth_drop_Suc)
    note step = rest_at_step [OF True]
    show ?thesis
    proof (cases "P (t ! j)")
      case P: True
      with assms(2) have "utf8_width (t ! j) = 1" by (force simp: utf8_width_def)
      with step(1) t have rest: "rest_at t j = (j, [t ! j]) # rest_at t (Suc j)" by simp
      obtain v' rest' where v': "take_chars P (rest_at t (Suc j)) = (v', rest')" by fastforce
      with less.prems P rest have "v = t ! j # v'" "rest = rest'" by (simp_all add: ascii_char_def)
      with less.hyps [OF _ v'] True P t show ?thesis by simp
    next
      case False
      with t utf8_width_pos [of "t ! j"] have "\<not> ascii_char P (take (utf8_width (t ! j)) (drop j t))"
        by (cases "utf8_width (t ! j)") (auto simp: ascii_char_def split: list.splits)
      with step(1) t False less.prems show ?thesis by simp
    qed
  qed
qed

lemma ascii_classes:
  "is_ascii_digit c \<Longrightarrow> byte_of c < 128" "is_ident_continue c \<Longrightarrow> byte_of c < 128"
  by (auto simp: is_ascii_digit_def is_ident_continue_def is_ascii_alphabetic_def byte_of_def)

lemma number_literal_spelled:
  assumes "number_literal [c] (rest_at t (Suc i)) = Ok (k, rest)" "drop i t = c # drop (Suc i) t"
    "is_ascii_digit c"
  shows "spelled_at k (drop i t)"
proof -
  obtain digits cs where digits: "take_chars is_ascii_digit (rest_at t (Suc i)) = (digits, cs)" by fastforce
  from take_chars_rest_at [OF this ascii_classes(1)]
  have d: "digits = takeWhile is_ascii_digit (drop (Suc i) t)" and cs: "cs = rest_at t (Suc i + length digits)"
    by auto
  have v: "takeWhile is_ascii_digit (drop i t) = c # digits" using assms(2,3) d by simp
  have after: "dropWhile is_ascii_digit (drop i t) = drop (Suc i + length digits) t"
    unfolding assms(2) d using assms(3) by (simp add: dropWhile_eq_drop add.commute)
  let ?dot = "next_is (CHR ''.'') cs" and ?r = "drop (Suc (Suc i + length digits)) t"
  have dot: "?dot \<longleftrightarrow> (\<exists>r. drop (Suc i + length digits) t = CHR ''.'' # r)"
    unfolding cs by (rule next_is_at) (simp add: byte_of_def)
  have no_dot: "decimals_at (drop i t) = []" if "\<not> ?dot"
    using that unfolding dot by (auto simp: decimals_at_def after split: list.split)
  have decimals: "decimals_at (drop i t) = takeWhile is_ascii_digit ?r" "tl cs = rest_at t (Suc (Suc i + length digits))" if ?dot
    using next_is_rest_at [of "CHR ''.''" t "Suc i + length digits"] that
    by (auto simp: decimals_at_def after cs)
  have first: "tl cs \<noteq> [] \<and> ascii_char is_ascii_digit (snd (hd (tl cs))) \<longleftrightarrow> takeWhile is_ascii_digit ?r \<noteq> []" if ?dot
  proof (cases "Suc (Suc i + length digits) < length t")
    case True
    note step = rest_at_step [OF True]
    have r: "?r = t ! Suc (Suc i + length digits) # drop (Suc (Suc (Suc i + length digits))) t"
      using True by (simp add: Cons_nth_drop_Suc)
    show ?thesis
    proof (cases "is_ascii_digit (t ! Suc (Suc i + length digits))")
      case digit: True
      then have "utf8_width (t ! Suc (Suc i + length digits)) = 1" using ascii_classes(1) by (force simp: utf8_width_def)
      with step(1) r digit decimals(2) [OF that] show ?thesis by (simp add: ascii_char_def)
    next
      case False
      then have "\<not> ascii_char is_ascii_digit (take (utf8_width (t ! Suc (Suc i + length digits))) ?r)"
        using r utf8_width_pos [of "t ! Suc (Suc i + length digits)"]
        by (cases "utf8_width (t ! Suc (Suc i + length digits))") (auto simp: ascii_char_def split: list.splits)
      with step(1) r False decimals(2) [OF that] show ?thesis by simp
    qed
  next
    case False
    with decimals(2) [OF that] show ?thesis by (simp add: rest_at_end)
  qed
  show ?thesis
  proof (cases "?dot \<and> tl cs \<noteq> [] \<and> ascii_char is_ascii_digit (snd (hd (tl cs)))")
    case True
    obtain decs cs' where dec: "take_chars is_ascii_digit (tl cs) = (decs, cs')" by fastforce
    from True have ?dot by simp
    from take_chars_rest_at [OF dec [unfolded decimals(2) [OF this]] ascii_classes(1)]
    have "decs = takeWhile is_ascii_digit ?r" by simp
    with True first decimals(1) [OF \<open>?dot\<close>] assms(1) digits dec v show ?thesis
      by (auto simp: number_literal_def spelled_at_def Let_def)
  next
    case False
    then have "decimals_at (drop i t) = []" using no_dot decimals(1) first by (cases ?dot) simp_all
    with False assms(1) digits v show ?thesis
      by (auto simp: number_literal_def spelled_at_def Let_def split: option.splits)
  qed
qed

section \<open>Places of the source\<close>

text \<open>A line of the source and a column of it, or the place of the end of the file.\<close>

definition place_in :: "string \<Rightarrow> nat \<Rightarrow> nat \<Rightarrow> string \<Rightarrow> bool" where
  "place_in source line column t \<longleftrightarrow>
     (let ls = str_lines source
      in 1 \<le> line \<and> line \<le> length ls \<and> t = ls ! (line - 1) \<and> 1 \<le> column \<and> column \<le> length t + 1
         \<or> line = max 1 (length ls) \<and> column = 1 \<and> t = [])"

definition token_in :: "string \<Rightarrow> token \<Rightarrow> bool" where
  "token_in source t \<longleftrightarrow> place_in source (tok_line t) (tok_column t) (tok_text t)
     \<and> spelled_at (tok_kind t) (drop (tok_column t - 1) (tok_text t))"

definition reported_in :: "string \<Rightarrow> string \<Rightarrow> diagnostic \<Rightarrow> bool" where
  "reported_in path source e \<longleftrightarrow> dg_file e = path \<and> place_in source (dg_line e) (dg_column e) (dg_text e)"

definition comes_before :: "token \<Rightarrow> token \<Rightarrow> bool" where
  "comes_before a b \<longleftrightarrow> tok_line a < tok_line b \<or> tok_line a = tok_line b \<and> tok_column a < tok_column b"

text \<open>What the lexer has read up to the byte index \<open>i\<close> of a line.\<close>

definition read_to :: "string \<Rightarrow> nat \<Rightarrow> nat \<Rightarrow> lex_state \<Rightarrow> bool" where
  "read_to source line i s \<longleftrightarrow>
     list_all (token_in source) (lx_tokens s) \<and> sorted_wrt comes_before (lx_tokens s)
     \<and> list_all (\<lambda>a. tok_line a < line \<or> tok_line a = line \<and> tok_column a \<le> i) (lx_tokens s)
     \<and> (case lx_start s of None \<Rightarrow> True | Some (l, c, t) \<Rightarrow> place_in source l c t)"

definition line_in :: "string \<Rightarrow> nat \<Rightarrow> string \<Rightarrow> bool" where
  "line_in source line t \<longleftrightarrow> 1 \<le> line \<and> line \<le> length (str_lines source) \<and> t = str_lines source ! (line - 1)"

lemma line_place: "line_in source line t \<Longrightarrow> i \<le> length t \<Longrightarrow> place_in source line (Suc i) t"
  by (simp add: line_in_def place_in_def Let_def)

lemma read_to_mono: "read_to source line i s \<Longrightarrow> i \<le> j \<Longrightarrow> read_to source line j s"
  by (fastforce simp: read_to_def list_all_iff)

lemma read_to_next_line: "read_to source line i s \<Longrightarrow> read_to source (line + 1) 0 s"
  by (fastforce simp: read_to_def list_all_iff)

lemma read_to_push:
  assumes "read_to source line i s" "line_in source line t" "i \<le> length t" "spelled_at k (drop i t)" "i < j"
  shows "read_to source line j (push_token k line (Suc i) t s)"
  using assms line_place [OF assms(2,3)]
  by (fastforce simp: read_to_def push_token_def make_token_def token_in_def sorted_wrt_append comes_before_def
      list_all_iff)

lemma read_to_comment:
  "read_to source line i s \<Longrightarrow> read_to source line i (s\<lparr>lx_depth := d\<rparr>)"
  "read_to source line i s \<Longrightarrow> read_to source line i (s\<lparr>lx_depth := d, lx_start := None\<rparr>)"
  "read_to source line i s \<Longrightarrow> place_in source l c t \<Longrightarrow> read_to source line i (s\<lparr>lx_depth := d, lx_start := Some (l, c, t)\<rparr>)"
  by (simp_all add: read_to_def)

lemma comment_step_read:
  "comment_step ch cs s = (s', rest) \<Longrightarrow> read_to source line i s \<Longrightarrow> suffix rest cs \<and> read_to source line i s'"
  by (auto simp: comment_step_def suffix_tl read_to_def split: if_splits)

lemma slash_step_read:
  assumes "slash_step line t (Suc i) (rest_at t (Suc i)) s = (s', rest)" "read_to source line i s"
    "line_in source line t" "drop i t = CHR ''/'' # drop (Suc i) t"
  shows "suffix rest (rest_at t (Suc i)) \<and> read_to source line (Suc i) s'"
proof -
  from assms(4) have i: "i \<le> length t" by (cases "i \<le> length t") auto
  have push: "one_or PSlash [(CHR ''='', PSlashEqual)] (rest_at t (Suc i)) = (k, rest')
      \<Longrightarrow> suffix rest' (rest_at t (Suc i)) \<and> read_to source line (Suc i) (push_token k line (Suc i) t s)" for k rest'
    using slash_spelled [OF _ assms(4)] by (auto dest: one_or_suffix intro!: read_to_push [OF assms(2,3) i])
  show ?thesis
    using assms(1,2) line_place [OF assms(3) i] read_to_mono [OF assms(2), of "Suc i"]
    by (auto simp: slash_step_def suffix_tl split: if_splits prod.splits dest!: push intro: read_to_comment)
qed

lemma lex_punctuation_quotes:
  "lex_punctuation (CHR 0x22) cs = None" "lex_punctuation (CHR 0x27) cs = None"
  by (simp_all add: lex_punctuation_def)

text \<open>A step outside of comments: an error at the character, or the state after the token.\<close>

lemma lex_char_read:
  assumes step: "lex_char path line t (Suc i) ch (rest_at t (i + length ch)) s = r"
    and at: "rest_at t i = (i, ch) # rest_at t (i + length ch)"
    and s: "read_to source line i s" and line: "line_in source line t"
  shows "case r of Inl e \<Rightarrow> reported_in path source e
    | Inr (s', rest) \<Rightarrow> suffix rest (rest_at t (i + length ch)) \<and> read_to source line (Suc i) s'"
proof -
  note first = rest_at_Cons [OF at]
  have i: "i \<le> length t" using first(1) by simp
  have fail: "reported_in path source (diagnostic_new code message path line (Suc i) len t)" for code message len
    using line_place [OF line i] by (simp add: reported_in_def)
  have push: "read_to source line (Suc i) (push_token k line (Suc i) t s)" if "spelled_at k (drop i t)" for k
    by (rule read_to_push [OF s line i that]) simp
  have one: "drop i t = c # drop (Suc i) t" if "ch = [c]" for c
    using first(1,5) that by (simp add: Cons_nth_drop_Suc)
  note mono = read_to_mono [OF s, of "Suc i"]
  show ?thesis
  proof (cases "\<exists>c. ch = [c]")
    case True
    then obtain c where c: "ch = [c]" ..
    note t = one [OF c]
    have slash: "suffix rest (rest_at t (Suc i)) \<and> read_to source line (Suc i) s'"
      if "c = CHR ''/''" "slash_step line t (Suc i) (rest_at t (Suc i)) s = (s', rest)" for s' rest
      by (rule slash_step_read [OF that(2) s line]) (use t that(1) in simp)
    have punct: "suffix rest (rest_at t (Suc i)) \<and> read_to source line (Suc i) (push_token k line (Suc i) t s)"
      if "lex_punctuation c (rest_at t (Suc i)) = Some (k, rest)" for k rest
      using lex_punctuation_suffix [OF that] push [OF lex_punctuation_spelled [OF that t]] by simp
    have str: "suffix rest (rest_at t (Suc i)) \<and> read_to source line (Suc i) (push_token (StringLit v) line (Suc i) t s)"
      if "string_literal [] (rest_at t (Suc i)) = Some (v, rest)" "c = CHR 0x22" for v rest
      using string_literal_suffix [OF that(1)] push [OF string_spelled [OF that(1)]] that(2) t by simp
    have char: "suffix rest (rest_at t (Suc i)) \<and> read_to source line (Suc i) (push_token (CharLit v) line (Suc i) t s)"
      if "char_literal (rest_at t (Suc i)) = Inr (v, rest)" "c = CHR 0x27" for v rest
      using char_literal_suffix [OF that(1)] push [OF char_spelled [OF that(1)]] that(2) t by simp
    have number: "suffix rest (rest_at t (Suc i)) \<and> read_to source line (Suc i) (push_token k line (Suc i) t s)"
      if "number_literal [c] (rest_at t (Suc i)) = Inr (k, rest)" "is_ascii_digit c" for k rest
      using number_literal_suffix [OF that(1)] push [OF number_literal_spelled [OF that(1) t that(2)]] by simp
    have word: "suffix rest (rest_at t (Suc i)) \<and> read_to source line (Suc i) (push_token (word_kind (c # v)) line (Suc i) t s)"
      if "take_chars is_ident_continue (rest_at t (Suc i)) = (v, rest)" "is_ident_start c"
        "\<not> is_reserved_word (c # v)" for v rest
    proof -
      from take_chars_rest_at [OF that(1) ascii_classes(2)]
      have "takeWhile is_ident_continue (drop i t) = c # v"
        using that(2) unfolding t by (auto simp: is_ident_start_def is_ident_continue_def)
      then have "spelled_at (word_kind (c # v)) (drop i t)"
        using that(2,3) by (auto simp: word_kind_def spelled_at_def split: option.splits)
      from push [OF this] take_chars_suffix [OF that(1)] show ?thesis by simp
    qed
    show ?thesis
      using step mono fail unfolding c lex_char_def Let_def
      by (auto simp: ascii_char_def lex_punctuation_quotes
          split: if_split_asm option.split_asm sum.split_asm prod.split_asm
          dest: slash punct str char number word)
  next
    case False
    then have "ch \<noteq> [c]" for c by simp
    with step fail show ?thesis
      by (cases ch; cases "tl ch") (auto simp: lex_char_def ascii_char_def)
  qed
qed

section \<open>Lines and files\<close>

lemma lex_line_read:
  assumes "lex_line path line t cs s = r" "cs = rest_at t i" "read_to source line (min i (length t)) s"
    "line_in source line t"
  shows "case r of Inl e \<Rightarrow> reported_in path source e | Inr s' \<Rightarrow> read_to source line (length t) s'"
  using assms
proof (induction path line t cs s arbitrary: i r rule: lex_line.induct)
  case (1 path line t s)
  from 1(1) read_to_mono [OF 1(3), of "length t"] show ?case by auto
next
  case (2 path line t k ch cs s)
  note first = rest_at_Cons [OF 2(3) [symmetric]]
  then have at: "rest_at t i = (i, ch) # rest_at t (i + length ch)" and s: "read_to source line i s"
    using 2(3,4) by simp_all
  have step: "case lex_step path line t k ch cs s of Inl e \<Rightarrow> reported_in path source e
    | Inr (s', rest) \<Rightarrow> suffix rest cs \<and> read_to source line (Suc i) s'"
  proof (cases "0 < lx_depth s")
    case True
    then show ?thesis
      using comment_step_read [of ch cs s _ _ source line i] s
      by (auto simp: lex_step_def intro: read_to_mono split: prod.splits)
  next
    case False
    then have "lex_step path line t k ch cs s = lex_char path line t (Suc i) ch (rest_at t (i + length ch)) s"
      using first(2,6) by (simp add: lex_step_def)
    from lex_char_read [OF this [symmetric] at s 2(5)] show ?thesis by (simp only: first(6))
  qed
  show ?case
  proof (cases "lex_step path line t k ch cs s")
    case (Inl e)
    with step 2(2) show ?thesis by auto
  next
    case (Inr x)
    then obtain s' rest where x: "lex_step path line t k ch cs s = Inr (s', rest)" by (cases x) auto
    with step have s': "suffix rest (rest_at t (i + length ch))" "read_to source line (Suc i) s'"
      using first(6) by simp_all
    from suffix_rest_at [OF s'(1)] obtain j where j: "i + length ch \<le> j" "rest = rest_at t j" by auto
    from first(1,4) j(1) have "Suc i \<le> min j (length t)" by linarith
    from read_to_mono [OF s'(2) this] 2(1) [OF x refl, of r j] j(2) 2(2,5) x show ?thesis by simp
  qed
qed

lemma lex_lines_read:
  assumes "lex_lines path line ts s = r" "read_to source line 0 s" "0 < line"
    "ts = drop (line - 1) (str_lines source)"
  shows "case r of Inl e \<Rightarrow> reported_in path source e | Inr s' \<Rightarrow> \<exists>l. read_to source l 0 s'"
  using assms
proof (induction path line ts s arbitrary: r rule: lex_lines.induct)
  case (1 path line s)
  then show ?case by auto
next
  case (2 path line t ts s)
  from 2(5) have ts: "line - 1 < length (str_lines source)" "t = str_lines source ! (line - 1)"
    "ts = drop line (str_lines source)"
    using 2(4) by (cases "line - 1 < length (str_lines source)"; simp add: Cons_nth_drop_Suc [symmetric])+
  then have line: "line_in source line t" using 2(4) by (auto simp: line_in_def)
  have zero: "char_indices t = rest_at t 0" "read_to source line (min 0 (length t)) s"
    using 2(3) by (simp_all add: rest_at_0)
  note lexed = lex_line_read [OF refl zero line, of path]
  show ?case
  proof (cases "lex_line path line t (char_indices t) s")
    case (Inl e)
    with lexed 2(2) show ?thesis by auto
  next
    case (Inr s')
    with lexed have "read_to source line (length t) s'" by simp
    from read_to_push [OF this line, of Newline "Suc (length t)"]
    have "read_to source (line + 1) 0 (push_token Newline line (length t + 1) t s')"
      by (intro read_to_next_line) (simp add: spelled_at_def)
    with 2(1) [OF Inr] Inr 2(2) ts(3) show ?thesis by simp
  qed
qed

text \<open>The end of the file is after the other tokens, at a place of its own.\<close>

definition tokens_of :: "string \<Rightarrow> token list \<Rightarrow> bool" where
  "tokens_of source tokens \<longleftrightarrow> tokens \<noteq> [] \<and> tok_kind (last tokens) = Eof
     \<and> list_all (token_in source) tokens \<and> sorted_wrt comes_before (butlast tokens)"

lemma lex_read:
  "case lex path source of Inl e \<Rightarrow> reported_in path source e | Inr tokens \<Rightarrow> tokens_of source tokens"
proof -
  have "read_to source 1 0 \<lparr>lx_tokens = [], lx_depth = 0, lx_start = None\<rparr>"
    by (simp add: read_to_def)
  from lex_lines_read [OF refl this, of "str_lines source" path] show ?thesis
    by (auto simp: lex_def reported_in_def read_to_def tokens_of_def token_in_def spelled_at_def place_in_def Let_def
        split: sum.splits option.splits)
qed

end
