(* ===== verification/Syntax.thy ===== *)
theory Syntax
  imports Diagnostics
begin

text \<open>
  The syntax tree of \<open>crates/nomo_syntax/src/ast.rs\<close>. The constructors of expressions start with \<open>X\<close>, those
  of statements with \<open>St\<close>, so that they differ from those of the intermediate representation.
\<close>

section \<open>Types\<close>

datatype type_ref = TypeRef (tr_path: "string list") (tr_args: "type_ref list")

definition EXTERN_C_CALLBACK_TYPE_PATH :: string where
  "EXTERN_C_CALLBACK_TYPE_PATH = ''__nomo_extern_c_callback''"

definition TASK_CALLBACK_TYPE_PATH :: string where
  "TASK_CALLBACK_TYPE_PATH = ''__nomo_task_callback''"

definition type_is_void :: "type_ref \<Rightarrow> bool" where
  "type_is_void t \<longleftrightarrow> tr_path t = [''void''] \<and> tr_args t = []"

record type_param_bound =
  tb_parameter :: string
  tb_interface :: type_ref

section \<open>Expressions\<close>

datatype ast_unary_op =
    UnNot
  | UnNegate

datatype ast_binary_op =
    BinLogicalOr
  | BinLogicalAnd
  | BinAdd
  | BinSubtract
  | BinBitOr
  | BinBitXor
  | BinMultiply
  | BinDivide
  | BinRemainder
  | BinShiftLeft
  | BinShiftRight
  | BinBitAnd
  | BinBitAndNot
  | BinEqual
  | BinNotEqual
  | BinLess
  | BinLessEqual
  | BinGreater
  | BinGreaterEqual

datatype expr =
    XArrayLiteral "expr list"
  | XIndex expr expr
  | XCall "string list" "type_ref list" "expr list"
  | XStructLiteral "string list" "(string \<times> expr) list"
  | XMatch expr "match_arm list"
  | XIf expr expr expr
  | XPanic expr
  | XQuestion expr
  | XMutArg "string list"
  | XCast expr type_ref
  | XUnary ast_unary_op expr
  | XBinary expr ast_binary_op expr
  | XName "string list"
  | XString string
  | XInt i64
  | XFloat string
  | XChar string
  | XBool bool
  | XVoid
and match_arm = MatchArm (arm_pattern: "string list") (arm_binding: "string option") (arm_value: expr)

section \<open>Statements\<close>

datatype assign_op =
    AssignSet
  | AssignAdd
  | AssignSubtract
  | AssignMultiply
  | AssignDivide
  | AssignRemainder
  | AssignShiftLeft
  | AssignShiftRight
  | AssignBitAnd
  | AssignBitXor
  | AssignBitOr
  | AssignBitAndNot

datatype postfix_op =
    Increment
  | Decrement

datatype stmt =
    StLet string bool "type_ref option" expr span
  | StLetElse "string list" string expr "stmt list" span
  | StIfLet "string list" "string option" expr "stmt list" "stmt list option" span
  | StAssign "string list" assign_op expr span
  | StIndexAssign string "expr list" expr span
  | StPostfix "string list" postfix_op span
  | StReturn "expr option" span
  | StMatch expr "match_stmt_arm list" span
  | StExpr expr span
  | StFor for_variant span
  | StBreak span
  | StContinue span
  | StDefer stmt span
  | StTaskScope "stmt list" span
  | StTaskDeadline expr "stmt list" span
  | StTaskSelect "select_arm list" span
  | StUnsafe "stmt list" span
and for_variant =
    ForInfinite "stmt list"
  | ForWhile expr "stmt list"
  | ForCStyle string "type_ref option" expr expr stmt "stmt list"
  | ForIterate string expr "stmt list"
and match_stmt_arm = MatchStmtArm "string list" "string option" "stmt list"
and select_arm = SelectArm expr string "stmt list" span

section \<open>Declarations\<close>

record param =
  pa_name :: string
  pa_mutable :: bool
  pa_type :: type_ref

record field_def =
  fd_public :: bool
  fd_name :: string
  fd_type :: type_ref
  fd_span :: span

record struct_def =
  sd_public :: bool
  sd_repr_c :: bool
  sd_package :: "string list"
  sd_name :: string
  sd_type_params :: "string list"
  sd_fields :: "field_def list"
  sd_span :: span

record enum_variant =
  ev_name :: string
  ev_payload :: "type_ref option"
  ev_span :: span

record enum_def =
  ed_public :: bool
  ed_package :: "string list"
  ed_name :: string
  ed_type_params :: "string list"
  ed_variants :: "enum_variant list"
  ed_span :: span

record function_signature =
  fs_is_suspend :: bool
  fs_name :: string
  fs_type_params :: "string list"
  fs_type_param_bounds :: "type_param_bound list"
  fs_params :: "param list"
  fs_return_type :: type_ref
  fs_span :: span

record interface_def =
  id_public :: bool
  id_name :: string
  id_methods :: "function_signature list"
  id_span :: span

record extern_opaque_type =
  eo_name :: string
  eo_release_function :: "string option"
  eo_span :: span

record extern_block =
  eb_abi :: string
  eb_functions :: "function_signature list"
  eb_span :: span

record function_def =
  fn_public :: bool
  fn_is_test :: bool
  fn_is_suspend :: bool
  fn_package :: "string list"
  fn_name :: string
  fn_type_params :: "string list"
  fn_type_param_bounds :: "type_param_bound list"
  fn_params :: "param list"
  fn_return_type :: type_ref
  fn_body :: "stmt list"
  fn_span :: span

record impl_block =
  im_interface_name :: "type_ref option"
  im_type_name :: type_ref
  im_methods :: "function_def list"

record const_def =
  cd_public :: bool
  cd_name :: string
  cd_type :: type_ref
  cd_value :: expr
  cd_span :: span

record source_file =
  sf_package :: "string list"
  sf_imports :: "string list list"
  sf_structs :: "struct_def list"
  sf_enums :: "enum_def list"
  sf_interfaces :: "interface_def list"
  sf_extern_opaque_types :: "extern_opaque_type list"
  sf_extern_blocks :: "extern_block list"
  sf_impls :: "impl_block list"
  sf_consts :: "const_def list"
  sf_functions :: "function_def list"
  sf_script_body :: "stmt list"

end
