(* ===== verification/Parser.thy ===== *)
theory Parser
  imports Lexer Syntax
begin

text \<open>
  The parser of \<open>crates/nomo_syntax/src/parser.rs\<close>: its state, the methods that look at tokens and the
  methods for paths and types.

  A method is a \<open>'a parse\<close>, a function of the state. Its value is \<open>None\<close> for a panic (an empty list of tokens)
  and when the model's fuel is used up, an error, or a result with the next state; the theory
  \<open>Parser_Total\<close> shows that the first never happens on the tokens of the lexer. After an error no caller
  looks at the state again.
\<close>

section \<open>The state\<close>

record parser_state =
  prs_path :: string
  prs_tokens :: "token list"
  prs_index :: nat
  prs_struct_literals :: bool
  prs_self_type :: "type_ref option"
  prs_pending_gt :: nat

type_synonym 'a parse = "parser_state \<Rightarrow> (diagnostic + ('a \<times> parser_state)) option"

definition pret :: "'a \<Rightarrow> 'a parse" where
  "pret x = (\<lambda>s. Some (Ok (x, s)))"

text \<open>A call followed by the question mark operator and the rest of the method.\<close>

definition pbind :: "'a parse \<Rightarrow> ('a \<Rightarrow> 'b parse) \<Rightarrow> 'b parse" where
  "pbind p k = (\<lambda>s. case p s of
       None \<Rightarrow> None
     | Some (Inl e) \<Rightarrow> Some (Inl e)
     | Some (Inr (x, s')) \<Rightarrow> k x s')"

definition pthen :: "'a parse \<Rightarrow> 'b parse \<Rightarrow> 'b parse" where
  "pthen p q = pbind p (\<lambda>_. q)"

definition pfail :: "diagnostic \<Rightarrow> 'a parse" where
  "pfail e = (\<lambda>s. Some (Err e))"

definition parse_fuel_spent :: "'a parse" where
  "parse_fuel_spent = (\<lambda>s. None)"

definition pread :: "(parser_state \<Rightarrow> 'a) \<Rightarrow> 'a parse" where
  "pread f = (\<lambda>s. Some (Ok (f s, s)))"

definition pmodify :: "(parser_state \<Rightarrow> parser_state) \<Rightarrow> unit parse" where
  "pmodify f = (\<lambda>s. Some (Ok ((), f s)))"

definition pwhen :: "bool \<Rightarrow> unit parse \<Rightarrow> unit parse" where
  "pwhen b p = (if b then p else pret ())"

text \<open>A loop: its body returns the next value of the loop's variables, or the value to leave with. Every
  iteration consumes a token, so that the number of tokens bounds their number.\<close>

abbreviation again :: "'a \<Rightarrow> ('a + 'b) parse" where "again x \<equiv> pret (Inl x)"
abbreviation leave :: "'b \<Rightarrow> ('a + 'b) parse" where "leave x \<equiv> pret (Inr x)"

fun iterate :: "nat \<Rightarrow> ('a \<Rightarrow> ('a + 'b) parse) \<Rightarrow> 'a \<Rightarrow> 'b parse" where
  "iterate 0 body x = parse_fuel_spent"
| "iterate (Suc n) body x = pbind (body x) (\<lambda>r. case r of Inl y \<Rightarrow> iterate n body y | Inr z \<Rightarrow> pret z)"

definition ploop :: "('a \<Rightarrow> ('a + 'b) parse) \<Rightarrow> 'a \<Rightarrow> 'b parse" where
  "ploop body x = (\<lambda>s. iterate (Suc (length (prs_tokens s))) body x s)"

section \<open>Tokens\<close>

text \<open>\<open>Parser::peek\<close> and \<open>Parser::peek_n\<close>: past the end, the last token.\<close>

definition token_at :: "nat \<Rightarrow> parser_state \<Rightarrow> token option" where
  "token_at i s =
     (if i < length (prs_tokens s) then Some (prs_tokens s ! i)
      else if prs_tokens s = [] then None else Some (last (prs_tokens s)))"

definition peek_n :: "nat \<Rightarrow> token parse" where
  "peek_n offset = (\<lambda>s. case token_at (prs_index s + offset) s of
       None \<Rightarrow> None
     | Some t \<Rightarrow> Some (Ok (t, s)))"

definition peek :: "token parse" where
  "peek = (\<lambda>s. case token_at (prs_index s) s of None \<Rightarrow> None | Some t \<Rightarrow> Some (Ok (t, s)))"

definition peek_kind :: "token_kind parse" where
  "peek_kind = pbind peek (\<lambda>t. pret (tok_kind t))"

text \<open>\<open>Parser::advance\<close>.\<close>

definition advance_token :: "unit parse" where
  "advance_token = pbind peek_kind (\<lambda>k.
     if k \<noteq> Eof then pmodify (\<lambda>s. s\<lparr>prs_index := prs_index s + 1\<rparr>) else pret ())"

text \<open>\<open>Token::length\<close>.\<close>

definition two_wide :: "punctuation list" where
  "two_wide =
     [PArrow, PFatArrow, PEqualEqual, PBangEqual, PAmpAmp, PPipePipe, PAmpCaret, PPlusEqual, PMinusEqual,
      PStarEqual, PSlashEqual, PPercentEqual, PPlusPlus, PMinusMinus, PAmpEqual, PPipeEqual, PCaretEqual,
      PLessEqual, PLessLess, PGreaterEqual, PGreaterGreater]"

definition token_length :: "token \<Rightarrow> nat" where
  "token_length t = (case tok_kind t of
       Ident v \<Rightarrow> max 1 (length v)
     | StringLit v \<Rightarrow> max 1 (length v)
     | IntLit v \<Rightarrow> length (show_i64 v)
     | FloatLit v \<Rightarrow> length v
     | CharLit v \<Rightarrow> length v + 2
     | Punct k \<Rightarrow>
         if k \<in> set two_wide then 2
         else if k \<in> {PAmpCaretEqual, PLessLessEqual, PGreaterGreaterEqual} then 3 else 1
     | _ \<Rightarrow> 1)"

definition token_span :: "token \<Rightarrow> span" where
  "token_span t = \<lparr>sp_line = tok_line t, sp_column = tok_column t, sp_length = token_length t,
     sp_text = tok_text t\<rparr>"

text \<open>\<open>Diagnostic::new\<close> at a token.\<close>

definition token_error :: "token \<Rightarrow> string \<Rightarrow> string \<Rightarrow> nat \<Rightarrow> 'a parse" where
  "token_error t code message len = pbind (pread prs_path) (\<lambda>path.
     pfail (diagnostic_new code message path (tok_line t) (tok_column t) len (tok_text t)))"

text \<open>\<open>Parser::error\<close> with a length, and with the length of the current token.\<close>

definition error_here :: "string \<Rightarrow> string \<Rightarrow> nat \<Rightarrow> 'a parse" where
  "error_here code message len = pbind peek (\<lambda>t. token_error t code message len)"

definition unexpected :: "string \<Rightarrow> string \<Rightarrow> 'a parse" where
  "unexpected code message = pbind peek (\<lambda>t. token_error t code message (token_length t))"

text \<open>\<open>Parser::expect_kind\<close>. The code calls it with variants without a payload only, for which
  \<open>same_variant\<close> is equality.\<close>

definition expect_kind :: "token_kind \<Rightarrow> string \<Rightarrow> string \<Rightarrow> unit parse" where
  "expect_kind expected code message = pbind peek_kind (\<lambda>k.
     if k = expected then advance_token else unexpected code message)"

definition expect_ident :: "string \<Rightarrow> string parse" where
  "expect_ident message = pbind peek_kind (\<lambda>k. case k of
       Ident v \<Rightarrow> pthen advance_token (pret v)
     | _ \<Rightarrow> unexpected ''E0300'' message)"

definition consume_newline :: "unit parse" where
  "consume_newline = ploop (\<lambda>_. pbind peek_kind (\<lambda>k.
     if k = Newline then pthen advance_token (again ()) else leave ())) ()"

definition skip_newlines :: "unit parse" where
  "skip_newlines = consume_newline"

definition expect_newline :: "string \<Rightarrow> unit parse" where
  "expect_newline message = pbind peek_kind (\<lambda>k.
     if k = Newline then consume_newline
     else if k = Eof then pret ()
     else unexpected ''E0211'' message)"

section \<open>Paths\<close>

definition expect_path_segment_after_dot :: "string parse" where
  "expect_path_segment_after_dot = pbind peek_kind (\<lambda>k. case k of
       Ident v \<Rightarrow> pthen advance_token (pret v)
     | Keyword KwPanic \<Rightarrow> pthen advance_token (pret ''panic'')
     | _ \<Rightarrow> unexpected ''E0300'' ''expected identifier after `.`'')"

definition consume_dot_path_separator :: "bool parse" where
  "consume_dot_path_separator = pbind peek_kind (\<lambda>k.
     if k = Punct PDot then pret True
     else pbind (peek_n 1) (\<lambda>t.
       if k = Newline \<and> tok_kind t = Punct PDot then pthen consume_newline (pret True)
       else pret False))"

definition parse_path :: "string list parse" where
  "parse_path = pbind (expect_ident ''expected identifier'') (\<lambda>first.
     ploop (\<lambda>parts. pbind consume_dot_path_separator (\<lambda>dot.
       if dot then pthen advance_token (pbind expect_path_segment_after_dot (\<lambda>part. again (parts @ [part])))
       else leave parts)) [first])"

definition parse_import_path :: "string list parse" where
  "parse_import_path = pbind (expect_ident ''expected import path'') (\<lambda>first.
     ploop (\<lambda>parts. pbind consume_dot_path_separator (\<lambda>dot.
       if dot then
         pthen advance_token (pbind peek_kind (\<lambda>k.
           if k = Punct PStar then unexpected ''E0274'' ''wildcard imports are not supported in v0.1''
           else pbind expect_path_segment_after_dot (\<lambda>part. again (parts @ [part]))))
       else leave parts)) [first])"

section \<open>Types\<close>

text \<open>The loop over the parameter types of a callback, which leaves before the closing parenthesis.\<close>

definition callback_params :: "type_ref parse \<Rightarrow> string \<Rightarrow> string \<Rightarrow> type_ref list parse" where
  "callback_params pt code message = pbind peek_kind (\<lambda>k.
     if k = Punct PRParen then pret []
     else ploop (\<lambda>args. pbind pt (\<lambda>t. pbind peek_kind (\<lambda>k.
         if k = Punct PComma then pthen advance_token (again (args @ [t]))
         else if k = Punct PRParen then leave (args @ [t])
         else unexpected code message))) [])"

definition parse_extern_c_callback_type_ref :: "type_ref parse \<Rightarrow> type_ref parse" where
  "parse_extern_c_callback_type_ref pt =
     pthen (expect_kind (Keyword KwExtern) ''E1524'' ''expected `extern`'')
     (pbind peek_kind (\<lambda>k.
      pthen (if k = StringLit ''C'' then advance_token
             else error_here ''E1524'' (''expected callback ABI string `'' @ [CHR 0x22] @ ''C'' @ [CHR 0x22] @ ''`'') 1)
     (pthen (expect_kind (Keyword KwFn) ''E1524'' ''expected `fn` in callback type'')
     (pthen (expect_kind (Punct PLParen) ''E1524'' ''expected `(` before callback parameter types'')
     (pbind (callback_params pt ''E1524'' ''expected `,` or `)` after callback parameter type'') (\<lambda>args.
      pthen (expect_kind (Punct PRParen) ''E1524'' ''expected `)` after callback parameter types'')
     (pthen (expect_kind (Punct PArrow) ''E1524'' ''expected `->` in callback type'')
     (pbind pt (\<lambda>ret.
      pret (TypeRef [EXTERN_C_CALLBACK_TYPE_PATH] (args @ [ret])))))))))))"

definition parse_task_callback_type_ref :: "type_ref parse \<Rightarrow> type_ref parse" where
  "parse_task_callback_type_ref pt =
     pbind peek_kind (\<lambda>k.
     pthen (if k = Ident ''task'' then advance_token else error_here ''E0820'' ''expected `task`'' 1)
     (pthen (expect_kind (Keyword KwFn) ''E0820'' ''expected `fn` in task worker type'')
     (pthen (expect_kind (Punct PLParen) ''E0820'' ''expected `(` before task worker parameter types'')
     (pbind (callback_params pt ''E0820'' ''expected `,` or `)` after task worker parameter type'') (\<lambda>args.
      pthen (expect_kind (Punct PRParen) ''E0820'' ''expected `)` after task worker parameter types'')
     (pthen (expect_kind (Punct PArrow) ''E0820'' ''expected `->` in task worker type'')
     (pbind pt (\<lambda>ret.
      pret (TypeRef [TASK_CALLBACK_TYPE_PATH] (args @ [ret]))))))))))"

text \<open>\<open>parse_type_args\<close>: a closing \<open>>>\<close> ends two lists, the second one through \<open>pending_type_gt\<close>.\<close>

definition type_args_step :: "type_ref parse \<Rightarrow> type_ref list \<Rightarrow> (type_ref list + type_ref list) parse" where
  "type_args_step pt args =
     pbind pt (\<lambda>t. let args = args @ [t] in
     pbind (pread prs_pending_gt) (\<lambda>pending.
     if 0 < pending then
       pthen (pmodify (\<lambda>s. s\<lparr>prs_pending_gt := prs_pending_gt s - 1\<rparr>)) (leave args)
     else
       pthen skip_newlines (pbind peek_kind (\<lambda>k.
         if k = Punct PComma then pthen advance_token (pthen skip_newlines (again args))
         else if k = Punct PGreater then pthen advance_token (leave args)
         else if k = Punct PGreaterGreater then
           pthen advance_token
             (pthen (pmodify (\<lambda>s. s\<lparr>prs_pending_gt := prs_pending_gt s + 1\<rparr>)) (leave args))
         else unexpected ''E0236'' ''expected `,` or `>` after generic type argument''))))"

definition parse_type_args_with :: "type_ref parse \<Rightarrow> type_ref list parse" where
  "parse_type_args_with pt = pbind peek_kind (\<lambda>k.
     if k \<noteq> Punct PLess then pret []
     else pthen advance_token (pthen skip_newlines (ploop (type_args_step pt) [])))"

fun parse_type_ref_fuel :: "nat \<Rightarrow> type_ref parse" where
  "parse_type_ref_fuel 0 = parse_fuel_spent"
| "parse_type_ref_fuel (Suc n) = pbind peek_kind (\<lambda>k. pbind (peek_n 1) (\<lambda>t1.
     if k = Keyword KwExtern then parse_extern_c_callback_type_ref (parse_type_ref_fuel n)
     else if k = Ident ''task'' \<and> tok_kind t1 = Keyword KwFn then
       parse_task_callback_type_ref (parse_type_ref_fuel n)
     else if k = Keyword KwVoid then pthen advance_token (pret (TypeRef [''void''] []))
     else pbind parse_path (\<lambda>path. pbind (parse_type_args_with (parse_type_ref_fuel n)) (\<lambda>args.
       pret (TypeRef path args)))))"

text \<open>Every nested call comes after a token, so that the number of tokens bounds the depth.\<close>

definition parse_type_ref :: "type_ref parse" where
  "parse_type_ref = (\<lambda>s. parse_type_ref_fuel (Suc (length (prs_tokens s))) s)"

definition parse_type_args :: "type_ref list parse" where
  "parse_type_args = parse_type_args_with parse_type_ref"

end
