(* ===== verification/Parser_Expr.thy ===== *)
theory Parser_Expr
  imports Parser
begin

text \<open>
  The expressions of \<open>crates/nomo_syntax/src/parser_expr.rs\<close>. A method that calls \<open>parse_expr\<close> takes it as the
  argument \<open>pe\<close>; the recursion is tied in \<open>parse_expr_fuel\<close>, where each level of nesting takes three units:
  one for the expression, one for the operand, one for a name.
\<close>

section \<open>Binary operators\<close>

text \<open>The loop that all levels of precedence share: operands and left associative operators.\<close>

definition binary_level ::
  "(token_kind \<Rightarrow> ast_binary_op option) \<Rightarrow> bool \<Rightarrow> expr parse \<Rightarrow> expr parse" where
  "binary_level operator skips operand = pbind operand (ploop (\<lambda>e. pbind peek_kind (\<lambda>k. case operator k of
       None \<Rightarrow> leave e
     | Some op \<Rightarrow>
         pthen advance_token (pthen (pwhen skips skip_newlines)
           (pbind operand (\<lambda>right. again (XBinary e op right)))))))"

definition logical_or_op :: "token_kind \<Rightarrow> ast_binary_op option" where
  "logical_or_op k = (if k = Punct PPipePipe then Some BinLogicalOr else None)"

definition logical_and_op :: "token_kind \<Rightarrow> ast_binary_op option" where
  "logical_and_op k = (if k = Punct PAmpAmp then Some BinLogicalAnd else None)"

definition equality_op :: "token_kind \<Rightarrow> ast_binary_op option" where
  "equality_op k =
     (if k = Punct PEqualEqual then Some BinEqual
      else if k = Punct PBangEqual then Some BinNotEqual else None)"

definition comparison_op :: "token_kind \<Rightarrow> ast_binary_op option" where
  "comparison_op k =
     (if k = Punct PLess then Some BinLess
      else if k = Punct PLessEqual then Some BinLessEqual
      else if k = Punct PGreater then Some BinGreater
      else if k = Punct PGreaterEqual then Some BinGreaterEqual else None)"

definition additive_op :: "token_kind \<Rightarrow> ast_binary_op option" where
  "additive_op k =
     (if k = Punct PPlus then Some BinAdd
      else if k = Punct PMinus then Some BinSubtract
      else if k = Punct PPipe then Some BinBitOr
      else if k = Punct PCaret then Some BinBitXor else None)"

definition multiplicative_op :: "token_kind \<Rightarrow> ast_binary_op option" where
  "multiplicative_op k =
     (if k = Punct PStar then Some BinMultiply
      else if k = Punct PSlash then Some BinDivide
      else if k = Punct PPercent then Some BinRemainder
      else if k = Punct PLessLess then Some BinShiftLeft
      else if k = Punct PGreaterGreater then Some BinShiftRight
      else if k = Punct PAmp then Some BinBitAnd
      else if k = Punct PAmpCaret then Some BinBitAndNot else None)"

definition parse_cast_expr :: "expr parse \<Rightarrow> expr parse" where
  "parse_cast_expr unary = pbind unary (ploop (\<lambda>e. pbind peek_kind (\<lambda>k.
     if k = Keyword KwAs then
       pthen advance_token (pthen skip_newlines (pbind parse_type_ref (\<lambda>target. again (XCast e target))))
     else leave e)))"

definition parse_multiplicative_expr :: "expr parse \<Rightarrow> expr parse" where
  "parse_multiplicative_expr unary = binary_level multiplicative_op True (parse_cast_expr unary)"

definition parse_additive_expr :: "expr parse \<Rightarrow> expr parse" where
  "parse_additive_expr unary = binary_level additive_op True (parse_multiplicative_expr unary)"

definition parse_comparison_expr :: "expr parse \<Rightarrow> expr parse" where
  "parse_comparison_expr unary = binary_level comparison_op True (parse_additive_expr unary)"

definition parse_equality_expr :: "expr parse \<Rightarrow> expr parse" where
  "parse_equality_expr unary = binary_level equality_op False (parse_comparison_expr unary)"

definition parse_logical_and_expr :: "expr parse \<Rightarrow> expr parse" where
  "parse_logical_and_expr unary = binary_level logical_and_op True (parse_equality_expr unary)"

definition parse_logical_or_expr :: "expr parse \<Rightarrow> expr parse" where
  "parse_logical_or_expr unary = binary_level logical_or_op True (parse_logical_and_expr unary)"

section \<open>Nested expressions\<close>

text \<open>\<open>parse_expr_no_struct_literals\<close>, also written out in \<open>parse_if_expr\<close>.\<close>

definition without_struct_literals :: "'a parse \<Rightarrow> 'a parse" where
  "without_struct_literals p = pbind (pread prs_struct_literals) (\<lambda>previous.
     pthen (pmodify (\<lambda>s. s\<lparr>prs_struct_literals := False\<rparr>))
       (pbind p (\<lambda>x. pthen (pmodify (\<lambda>s. s\<lparr>prs_struct_literals := previous\<rparr>)) (pret x))))"

definition parse_array_literal :: "expr parse \<Rightarrow> expr parse" where
  "parse_array_literal pe =
     pthen (expect_kind (Punct PLBracket) ''E0860'' ''expected `[`'')
     (pthen skip_newlines
     (pbind peek_kind (\<lambda>k.
      pbind (if k = Punct PRBracket then pret []
             else ploop (\<lambda>elements. pbind pe (\<lambda>e. pthen skip_newlines (pbind peek_kind (\<lambda>k.
                 if k \<noteq> Punct PComma then leave (elements @ [e])
                 else pthen advance_token (pthen skip_newlines (pbind peek_kind (\<lambda>k.
                   if k = Punct PRBracket then leave (elements @ [e]) else again (elements @ [e])))))))) []) (\<lambda>elements.
      pthen (expect_kind (Punct PRBracket) ''E0860'' ''expected `]` after array literal'')
        (pret (XArrayLiteral elements))))))"

definition parse_panic_expr :: "expr parse \<Rightarrow> expr parse" where
  "parse_panic_expr pe =
     pthen (expect_kind (Keyword KwPanic) ''E0246'' ''expected `panic`'')
     (pthen (expect_kind (Punct PLParen) ''E0247'' ''expected `(` after `panic`'')
     (pbind pe (\<lambda>message.
      pthen (expect_kind (Punct PRParen) ''E0248'' ''expected `)` after panic message'')
        (pret (XPanic message)))))"

definition parse_expr_block :: "expr parse \<Rightarrow> string \<Rightarrow> string \<Rightarrow> expr parse" where
  "parse_expr_block pe open_code open_message =
     pthen (expect_kind (Punct PLBrace) open_code open_message)
     (pthen skip_newlines
     (pbind pe (\<lambda>v.
      pthen skip_newlines
     (pthen (expect_kind (Punct PRBrace) ''E0242'' ''expected `}` after expression block'')
        (pret v)))))"

definition parse_if_expr :: "expr parse \<Rightarrow> expr parse" where
  "parse_if_expr pe =
     pthen (expect_kind (Keyword KwIf) ''E0240'' ''expected `if`'')
     (pbind (without_struct_literals pe) (\<lambda>condition.
      pbind (parse_expr_block pe ''E0241'' ''expected `{` before if branch'') (\<lambda>then_branch.
      pthen skip_newlines
     (pthen (expect_kind (Keyword KwElse) ''E0244'' ''expected `else` after if branch'')
     (pbind (parse_expr_block pe ''E0245'' ''expected `{` before else branch'') (\<lambda>else_branch.
        pret (XIf condition then_branch else_branch)))))))"

definition parse_match_binding :: "string option parse" where
  "parse_match_binding = pbind peek_kind (\<lambda>k.
     if k \<noteq> Punct PLParen then pret None
     else pthen advance_token (pbind peek (\<lambda>t.
       pbind (expect_ident ''expected binding name in match pattern'') (\<lambda>binding.
       if binding = ''_'' then
         token_error t ''E0238'' ''`_` match bindings are not supported in v0.1'' (token_length t)
       else pthen (expect_kind (Punct PRParen) ''E0234'' ''expected `)` after match pattern binding'')
         (pret (Some binding))))))"

definition parse_match_pattern :: "string list parse" where
  "parse_match_pattern = pbind peek (\<lambda>t. pbind parse_path (\<lambda>pattern.
     if pattern = [''_''] then
       token_error t ''E0238'' ''`_` match patterns are not supported in v0.1'' (token_length t)
     else pret pattern))"

definition parse_match_expr_arm :: "expr parse \<Rightarrow> match_arm parse" where
  "parse_match_expr_arm pe =
     pbind parse_match_pattern (\<lambda>pattern.
     pbind parse_match_binding (\<lambda>binding.
     pthen (expect_kind (Punct PFatArrow) ''E0232'' ''expected `=>` after match pattern'')
     (pthen skip_newlines
     (pbind pe (\<lambda>v.
      pthen (expect_newline ''expected newline after match arm'')
        (pret (MatchArm pattern binding v)))))))"

definition parse_match_expr :: "expr parse \<Rightarrow> expr parse" where
  "parse_match_expr pe =
     pthen (expect_kind (Keyword KwMatch) ''E0229'' ''expected `match`'')
     (pbind (without_struct_literals pe) (\<lambda>v.
      pthen (expect_kind (Punct PLBrace) ''E0230'' ''expected `{` before match arms'')
     (pthen (expect_newline ''expected newline after `{`'')
     (pbind (ploop (\<lambda>arms. pthen skip_newlines (pbind peek_kind (\<lambda>k.
          if k = Punct PRBrace then pthen advance_token (leave arms)
          else if k = Eof then error_here ''E0231'' ''unterminated match body; expected `}`'' 1
          else pbind (parse_match_expr_arm pe) (\<lambda>arm. again (arms @ [arm]))))) []) (\<lambda>arms.
        pret (XMatch v arms))))))"

definition parse_struct_field :: "expr parse \<Rightarrow> (string \<times> expr) parse" where
  "parse_struct_field pe =
     pbind (expect_ident ''expected struct literal field name'') (\<lambda>name.
     pthen (expect_kind (Punct PColon) ''E0223'' ''expected `:` after struct literal field name'')
     (pbind pe (\<lambda>v. pret (name, v))))"

definition parse_struct_literal :: "expr parse \<Rightarrow> string list \<Rightarrow> expr parse" where
  "parse_struct_literal pe type_name =
     pthen (expect_kind (Punct PLBrace) ''E0222'' ''expected `{` before struct literal fields'')
     (pthen skip_newlines
     (pbind peek_kind (\<lambda>k.
      pbind (if k = Punct PRBrace then pret []
             else ploop (\<lambda>fs. pbind (parse_struct_field pe) (\<lambda>f. pthen skip_newlines (pbind peek_kind (\<lambda>k.
                 if k = Punct PComma then
                   pthen advance_token (pthen skip_newlines (pbind peek_kind (\<lambda>k.
                     if k = Punct PRBrace then leave (fs @ [f]) else again (fs @ [f]))))
                 else if k = Punct PRBrace then leave (fs @ [f])
                 else unexpected ''E0224'' ''expected `,` or `}` after struct literal field'')))) []) (\<lambda>fs.
      pthen skip_newlines
     (pthen (expect_kind (Punct PRBrace) ''E0225'' ''expected `}` after struct literal'')
        (pret (XStructLiteral type_name fs)))))))"

section \<open>Names and calls\<close>

definition starts_try_operand :: "token_kind \<Rightarrow> bool" where
  "starts_try_operand k \<longleftrightarrow> (case k of
       StringLit _ \<Rightarrow> True
     | IntLit _ \<Rightarrow> True
     | FloatLit _ \<Rightarrow> True
     | CharLit _ \<Rightarrow> True
     | Ident _ \<Rightarrow> True
     | Keyword w \<Rightarrow> w \<in> {KwTrue, KwFalse, KwVoid, KwIf, KwMatch, KwPanic}
     | _ \<Rightarrow> False)"

text \<open>\<open>next_tokens_are_call_type_args\<close>: the scan for the closing bracket and the parenthesis after it.\<close>

definition opens_call :: "token_kind list \<Rightarrow> bool" where
  "opens_call ks \<longleftrightarrow> (case dropWhile (\<lambda>k. k = Newline) ks of [] \<Rightarrow> False | k # _ \<Rightarrow> k = Punct PLParen)"

fun scan_type_args :: "nat \<Rightarrow> token_kind list \<Rightarrow> bool" where
  "scan_type_args depth [] = False"
| "scan_type_args depth (k # ks) =
     (if k = Punct PLess then scan_type_args (depth + 1) ks
      else if k = Punct PGreater then
        (if depth = 0 then False else if depth = 1 then opens_call ks else scan_type_args (depth - 1) ks)
      else if k = Punct PGreaterGreater then
        (if depth < 2 then False else if depth = 2 then opens_call ks else scan_type_args (depth - 2) ks)
      else if k = Eof then False
      else scan_type_args depth ks)"

definition next_tokens_are_call_type_args :: "bool parse" where
  "next_tokens_are_call_type_args = pbind peek_kind (\<lambda>k.
     if k \<noteq> Punct PLess then pret False
     else pread (\<lambda>s. scan_type_args 0 (map tok_kind (drop (prs_index s) (prs_tokens s)))))"

definition parse_call_arg :: "expr parse \<Rightarrow> expr parse" where
  "parse_call_arg pe = pbind peek_kind (\<lambda>k.
     if k = Keyword KwMut then pthen advance_token (pbind parse_path (\<lambda>name. pret (XMutArg name)))
     else pe)"

text \<open>The arguments after the opening parenthesis, with the closing one.\<close>

definition parse_call_args :: "expr parse \<Rightarrow> expr list parse" where
  "parse_call_args pe =
     pthen skip_newlines (pbind peek_kind (\<lambda>k.
     pbind (if k = Punct PRParen then pret []
            else pbind (parse_call_arg pe) (\<lambda>first.
              ploop (\<lambda>args. pthen skip_newlines (pbind peek_kind (\<lambda>k.
                if k \<noteq> Punct PComma then leave args
                else pthen advance_token (pthen skip_newlines
                  (pbind (parse_call_arg pe) (\<lambda>arg. again (args @ [arg]))))))) [first])) (\<lambda>args.
     pthen skip_newlines
    (pthen (expect_kind (Punct PRParen) ''E0210'' ''expected `)` after call arguments'') (pret args)))))"

definition structured_spawn :: "string list" where
  "structured_spawn = [''task'', CHR 0x00 # ''nomo_structured_spawn'']"

definition parse_call :: "expr parse \<Rightarrow> expr parse \<Rightarrow> string list \<Rightarrow> expr parse" where
  "parse_call pe pn path =
     pbind next_tokens_are_call_type_args (\<lambda>generic.
     pbind (if generic then parse_type_args else pret []) (\<lambda>type_args.
     pbind peek_kind (\<lambda>k.
     if path = [''task'', ''spawn''] \<and> k \<noteq> Punct PLParen then
       (if type_args \<noteq> [] then
          unexpected ''E0875'' ''structured task.spawn does not accept explicit type arguments''
        else pbind pn (\<lambda>target. pret (XCall structured_spawn [] [target])))
     else if k \<noteq> Punct PLParen then
       (if type_args \<noteq> [] then unexpected ''E0210'' ''expected `(` after generic call type arguments''
        else pret (XName path))
     else pthen advance_token (pbind (parse_call_args pe) (\<lambda>args. pret (XCall path type_args args))))))"

text \<open>\<open>parse_name_or_call\<close>, which calls itself as \<open>pn\<close>.\<close>

definition parse_name_or_call_with :: "expr parse \<Rightarrow> expr parse \<Rightarrow> expr parse" where
  "parse_name_or_call_with pe pn =
     pbind parse_path (\<lambda>path. pbind peek_kind (\<lambda>k. pbind (pread prs_struct_literals) (\<lambda>allowed.
     if path = [''try''] \<and> starts_try_operand k then
       unexpected ''E0211'' ''`try` propagation syntax is not supported; use postfix `?` instead''
     else if allowed \<and> k = Punct PLBrace then parse_struct_literal pe path
     else parse_call pe pn path)))"

section \<open>Operands\<close>

definition parse_parenthesized :: "expr parse \<Rightarrow> expr parse" where
  "parse_parenthesized pe =
     pthen advance_token (pthen skip_newlines (pbind pe (\<lambda>e.
     pthen skip_newlines
       (pthen (expect_kind (Punct PRParen) ''E0209'' ''expected `)` after parenthesized expression'')
         (pret e)))))"

definition parse_primary_expr :: "expr parse \<Rightarrow> expr parse \<Rightarrow> expr parse" where
  "parse_primary_expr pe pn = pbind peek_kind (\<lambda>k. case k of
       StringLit v \<Rightarrow> pthen advance_token (pret (XString v))
     | IntLit v \<Rightarrow> pthen advance_token (pret (XInt v))
     | FloatLit v \<Rightarrow> pthen advance_token (pret (XFloat v))
     | CharLit v \<Rightarrow> pthen advance_token (pret (XChar v))
     | Ident _ \<Rightarrow> pn
     | Keyword w \<Rightarrow>
         if w = KwTrue then pthen advance_token (pret (XBool True))
         else if w = KwFalse then pthen advance_token (pret (XBool False))
         else if w = KwVoid then pthen advance_token (pret XVoid)
         else if w = KwIf then parse_if_expr pe
         else if w = KwMatch then parse_match_expr pe
         else if w = KwPanic then parse_panic_expr pe
         else unexpected ''E0208'' ''expected expression''
     | Punct p \<Rightarrow>
         if p = PLParen then parse_parenthesized pe
         else if p = PLBracket then parse_array_literal pe
         else unexpected ''E0208'' ''expected expression''
     | _ \<Rightarrow> unexpected ''E0208'' ''expected expression'')"

definition parse_postfix_expr :: "expr parse \<Rightarrow> expr parse \<Rightarrow> expr parse" where
  "parse_postfix_expr pe pn = pbind (parse_primary_expr pe pn) (ploop (\<lambda>e. pbind peek_kind (\<lambda>k.
     if k = Punct PQuestion then pthen advance_token (again (XQuestion e))
     else if k = Punct PLBracket then
       pthen advance_token (pthen skip_newlines (pbind pe (\<lambda>i. pthen skip_newlines
         (pthen (expect_kind (Punct PRBracket) ''E0863'' ''expected `]` after array index'')
           (again (XIndex e i))))))
     else leave e)))"

section \<open>The recursion\<close>

fun parse_expr_fuel :: "nat \<Rightarrow> expr parse"
  and parse_unary_expr_fuel :: "nat \<Rightarrow> expr parse"
  and parse_name_or_call_fuel :: "nat \<Rightarrow> expr parse" where
  "parse_expr_fuel 0 = parse_fuel_spent"
| "parse_expr_fuel (Suc n) = parse_logical_or_expr (parse_unary_expr_fuel n)"
| "parse_unary_expr_fuel 0 = parse_fuel_spent"
| "parse_unary_expr_fuel (Suc n) = pbind peek_kind (\<lambda>k.
     if k = Punct PBang then
       pthen advance_token (pbind (parse_unary_expr_fuel n) (\<lambda>e. pret (XUnary UnNot e)))
     else if k = Punct PMinus then
       pthen advance_token (pbind (parse_unary_expr_fuel n) (\<lambda>e. pret (XUnary UnNegate e)))
     else parse_postfix_expr (parse_expr_fuel n) (parse_name_or_call_fuel n))"
| "parse_name_or_call_fuel 0 = parse_fuel_spent"
| "parse_name_or_call_fuel (Suc n) =
     parse_name_or_call_with (parse_expr_fuel n) (parse_name_or_call_fuel n)"

definition parse_expr :: "expr parse" where
  "parse_expr = (\<lambda>s. parse_expr_fuel (3 * length (prs_tokens s)) s)"

definition parse_expr_no_struct_literals :: "expr parse" where
  "parse_expr_no_struct_literals = without_struct_literals parse_expr"

end
