(* ===== verification/Parser_Stmt.thy ===== *)
theory Parser_Stmt
  imports Parser_Expr
begin

text \<open>
  The statements of \<open>crates/nomo_syntax/src/parser_stmt.rs\<close>. The method \<open>parse_stmt\<close> is the argument \<open>ps\<close> of
  those that call it; every nested statement comes after a token, so that the number of tokens bounds the
  depth in \<open>parse_stmt_fuel\<close>.
\<close>

section \<open>Assignments\<close>

definition assign_op_from_token :: "token_kind \<Rightarrow> assign_op option" where
  "assign_op_from_token k = (case k of
       Punct p \<Rightarrow>
         (if p = PEqual then Some AssignSet
          else if p = PPlusEqual then Some AssignAdd
          else if p = PMinusEqual then Some AssignSubtract
          else if p = PStarEqual then Some AssignMultiply
          else if p = PSlashEqual then Some AssignDivide
          else if p = PPercentEqual then Some AssignRemainder
          else if p = PLessLessEqual then Some AssignShiftLeft
          else if p = PGreaterGreaterEqual then Some AssignShiftRight
          else if p = PAmpEqual then Some AssignBitAnd
          else if p = PCaretEqual then Some AssignBitXor
          else if p = PPipeEqual then Some AssignBitOr
          else if p = PAmpCaretEqual then Some AssignBitAndNot
          else None)
     | _ \<Rightarrow> None)"

definition postfix_op_from_token :: "token_kind \<Rightarrow> postfix_op option" where
  "postfix_op_from_token k =
     (if k = Punct PPlusPlus then Some Increment
      else if k = Punct PMinusMinus then Some Decrement else None)"

text \<open>\<open>starts_index_assignment\<close>: the scan over the brackets after the name.\<close>

fun scan_index_assignment :: "nat \<Rightarrow> token_kind list \<Rightarrow> bool" where
  "scan_index_assignment depth [] = False"
| "scan_index_assignment depth (k # ks) =
     (if k = Punct PLBracket then scan_index_assignment (depth + 1) ks
      else if k = Punct PRBracket then
        (if depth = 0 then False else scan_index_assignment (depth - 1) ks)
      else if k = Punct PEqual \<and> depth = 0 then True
      else if k = Newline \<or> k = Punct PSemicolon \<or> k = Eof then False
      else scan_index_assignment depth ks)"

definition is_ident :: "token_kind \<Rightarrow> bool" where
  "is_ident k \<longleftrightarrow> (case k of Ident _ \<Rightarrow> True | _ \<Rightarrow> False)"

text \<open>The list ends with \<open>Eof\<close>, where the scan of the code stops too.\<close>

definition starts_index_assignment :: "bool parse" where
  "starts_index_assignment = pbind peek_kind (\<lambda>k. pbind (peek_n 1) (\<lambda>t1.
     if \<not> is_ident k \<or> tok_kind t1 \<noteq> Punct PLBracket then pret False
     else pread (\<lambda>s. scan_index_assignment 0 (map tok_kind (drop (prs_index s + 1) (prs_tokens s))))))"

definition parse_index_assign_stmt :: "token \<Rightarrow> stmt parse" where
  "parse_index_assign_stmt t = pbind parse_path (\<lambda>path. case path of
       [root] \<Rightarrow>
         pbind (ploop (\<lambda>indices. pbind peek_kind (\<lambda>k.
           if k = Punct PLBracket then
             pthen advance_token (pthen skip_newlines (pbind parse_expr (\<lambda>i. pthen skip_newlines
               (pthen (expect_kind (Punct PRBracket) ''E0863'' ''expected `]` after array index'')
                 (again (indices @ [i]))))))
           else leave indices)) []) (\<lambda>indices.
         pthen (expect_kind (Punct PEqual) ''E0864'' ''expected `=` after indexed assignment target'')
         (pbind parse_expr (\<lambda>v. pret (StIndexAssign root indices v (token_span t)))))
     | _ \<Rightarrow> error_here ''E0864'' ''indexed assignment root must be a variable'' (token_length t))"

definition parse_assign_stmt :: "token \<Rightarrow> stmt parse" where
  "parse_assign_stmt t = pbind parse_path (\<lambda>target.
     if 2 < length target then
       error_here ''E0217'' ''assignment target must be a variable or field'' (token_length t)
     else pbind peek_kind (\<lambda>k. case assign_op_from_token k of
         None \<Rightarrow> error_here ''E0217'' ''expected assignment operator in assignment'' (token_length t)
       | Some op \<Rightarrow> pthen advance_token (pbind parse_expr (\<lambda>v. pret (StAssign target op v (token_span t))))))"

definition parse_postfix_stmt :: "token \<Rightarrow> stmt parse" where
  "parse_postfix_stmt t = pbind parse_path (\<lambda>target.
     if 2 < length target then
       error_here ''E0217'' ''postfix update target must be a variable or field'' (token_length t)
     else pbind peek_kind (\<lambda>k. case postfix_op_from_token k of
         None \<Rightarrow> error_here ''E0217'' ''expected postfix update operator'' (token_length t)
       | Some op \<Rightarrow> pthen advance_token (pret (StPostfix target op (token_span t)))))"

definition parse_return_stmt :: "token \<Rightarrow> stmt parse" where
  "parse_return_stmt t =
     pthen (expect_kind (Keyword KwReturn) ''E0216'' ''expected `return`'')
     (pbind peek_kind (\<lambda>k.
      if k = Newline \<or> k = Punct PRBrace \<or> k = Punct PSemicolon then pret (StReturn None (token_span t))
      else pbind parse_expr (\<lambda>v. pret (StReturn (Some v) (token_span t)))))"

section \<open>Blocks\<close>

definition parse_stmt_block :: "stmt parse \<Rightarrow> string \<Rightarrow> string \<Rightarrow> stmt list parse" where
  "parse_stmt_block ps open_code open_message =
     pthen (expect_kind (Punct PLBrace) open_code open_message)
     (pthen skip_newlines
     (ploop (\<lambda>body. pthen skip_newlines (pbind peek_kind (\<lambda>k.
        if k = Punct PRBrace then pthen advance_token (leave body)
        else if k = Eof then error_here ''E0266'' ''unterminated block; expected `}`'' 1
        else pbind ps (\<lambda>st. pthen (expect_newline ''expected newline after statement'')
          (again (body @ [st])))))) []))"

text \<open>An optional type annotation, in \<open>parse_let_stmt\<close> and \<open>parse_for_stmt\<close>.\<close>

definition parse_type_annotation :: "type_ref option parse" where
  "parse_type_annotation = pbind peek_kind (\<lambda>k.
     if k = Punct PColon then pthen advance_token (pbind parse_type_ref (\<lambda>t. pret (Some t))) else pret None)"

definition parse_let_else :: "stmt parse \<Rightarrow> token \<Rightarrow> token \<Rightarrow> string list \<Rightarrow> stmt parse" where
  "parse_let_else ps t name_token path = pbind parse_match_binding (\<lambda>binding. case binding of
       None \<Rightarrow> token_error name_token ''E0234'' ''expected binding name in let-else pattern'' (token_length name_token)
     | Some binding \<Rightarrow>
         pthen (expect_kind (Punct PEqual) ''E0213'' ''expected `=` before initializer'')
         (pbind parse_expr (\<lambda>v.
          pthen (expect_kind (Keyword KwElse) ''E0267'' ''expected `else` after let-else initializer'')
         (pbind (parse_stmt_block ps ''E0268'' ''expected `{` before let-else body'') (\<lambda>else_body.
            pret (StLetElse path binding v else_body (token_span t)))))))"

definition parse_let_stmt :: "stmt parse \<Rightarrow> token \<Rightarrow> stmt parse" where
  "parse_let_stmt ps t =
     pthen (expect_kind (Keyword KwLet) ''E0212'' ''expected `let`'')
     (pbind peek_kind (\<lambda>k. let mutable = (k = Keyword KwMut) in
      pthen (pwhen mutable advance_token)
     (pbind peek (\<lambda>name_token.
      pbind parse_path (\<lambda>path.
      pbind peek_kind (\<lambda>k.
      if \<not> mutable \<and> k = Punct PLParen then parse_let_else ps t name_token path
      else case path of
          [name] \<Rightarrow>
            pbind parse_type_annotation (\<lambda>annotation.
            pthen (expect_kind (Punct PEqual) ''E0213'' ''expected `=` before initializer'')
            (pbind parse_expr (\<lambda>v. pret (StLet name mutable annotation v (token_span t)))))
        | _ \<Rightarrow> token_error name_token ''E0212'' ''expected variable name after `let`'' (token_length name_token)))))))"

definition parse_if_let_stmt :: "stmt parse \<Rightarrow> token \<Rightarrow> stmt parse" where
  "parse_if_let_stmt ps t =
     pthen (expect_kind (Keyword KwIf) ''E0269'' ''expected `if`'')
     (pthen (expect_kind (Keyword KwLet) ''E0270'' ''expected `let` after `if`'')
     (pbind parse_match_pattern (\<lambda>pattern.
      pbind parse_match_binding (\<lambda>binding.
      pthen (expect_kind (Punct PEqual) ''E0271'' ''expected `=` before if-let value'')
     (pbind parse_expr_no_struct_literals (\<lambda>v.
      pbind (parse_stmt_block ps ''E0272'' ''expected `{` before if-let body'') (\<lambda>body.
      pbind peek_kind (\<lambda>k.
      pbind (if k = Keyword KwElse then
               pthen advance_token (pbind (parse_stmt_block ps ''E0273'' ''expected `{` before if-let else body'')
                 (\<lambda>else_body. pret (Some else_body)))
             else pret None) (\<lambda>else_body.
        pret (StIfLet pattern binding v body else_body (token_span t)))))))))))"

section \<open>Loops\<close>

definition is_update :: "stmt \<Rightarrow> bool" where
  "is_update st \<longleftrightarrow> (case st of StAssign _ _ _ _ \<Rightarrow> True | StPostfix _ _ _ \<Rightarrow> True | _ \<Rightarrow> False)"

definition parse_for_iterate :: "stmt parse \<Rightarrow> for_variant parse" where
  "parse_for_iterate ps =
     pbind (expect_ident ''expected binding name after `for`'') (\<lambda>binding.
     pthen (expect_kind (Keyword KwIn) ''E0262'' ''expected `in` after `for` binding'')
     (pbind parse_expr_no_struct_literals (\<lambda>iterable.
      pbind (parse_stmt_block ps ''E0263'' ''expected `{` before `for` body'') (\<lambda>body.
        pret (ForIterate binding iterable body)))))"

definition parse_for_c_style :: "stmt parse \<Rightarrow> for_variant parse" where
  "parse_for_c_style ps =
     pthen advance_token
     (pbind peek_kind (\<lambda>k.
      pthen (pwhen (k = Keyword KwMut) advance_token)
     (pbind (expect_ident ''expected binding name after `for let`'') (\<lambda>binding.
      pbind parse_type_annotation (\<lambda>annotation.
      pthen (expect_kind (Punct PEqual) ''E0213'' ''expected `=` before for-loop initializer'')
     (pbind parse_expr (\<lambda>initializer.
      pthen (expect_kind (Punct PSemicolon) ''E0264'' ''expected `;` after for-loop initializer'')
     (pbind parse_expr_no_struct_literals (\<lambda>condition.
      pthen (expect_kind (Punct PSemicolon) ''E0264'' ''expected `;` after for-loop condition'')
     (pbind ps (\<lambda>st.
      if \<not> is_update st then
        unexpected ''E0217'' ''for-loop update must assign to or increment/decrement the loop binding''
      else pbind (parse_stmt_block ps ''E0264'' ''expected `{` before `for` body'') (\<lambda>body.
        pret (ForCStyle binding annotation initializer condition st body)))))))))))))"

definition parse_for_while :: "stmt parse \<Rightarrow> for_variant parse" where
  "parse_for_while ps =
     pbind parse_expr_no_struct_literals (\<lambda>condition.
     pbind (parse_stmt_block ps ''E0264'' ''expected `{` before `for` body'') (\<lambda>body.
       pret (ForWhile condition body)))"

definition parse_for_stmt :: "stmt parse \<Rightarrow> token \<Rightarrow> stmt parse" where
  "parse_for_stmt ps t =
     pthen (expect_kind (Keyword KwFor) ''E0260'' ''expected `for`'')
     (pbind peek_kind (\<lambda>k. pbind (peek_n 1) (\<lambda>t1.
      pbind (if k = Punct PLBrace then
               pbind (parse_stmt_block ps ''E0261'' ''expected `{` before `for` body'') (\<lambda>body.
                 pret (ForInfinite body))
             else if is_ident k \<and> tok_kind t1 = Keyword KwIn then parse_for_iterate ps
             else if k = Keyword KwLet then parse_for_c_style ps
             else parse_for_while ps) (\<lambda>variant.
        pret (StFor variant (token_span t))))))"

section \<open>Matches and selections\<close>

definition parse_match_stmt_arm :: "stmt parse \<Rightarrow> match_stmt_arm parse" where
  "parse_match_stmt_arm ps =
     pbind parse_match_pattern (\<lambda>pattern.
     pbind parse_match_binding (\<lambda>binding.
     pthen (expect_kind (Punct PFatArrow) ''E0232'' ''expected `=>` after match pattern'')
     (pthen skip_newlines
     (pbind (parse_stmt_block ps ''E0235'' ''expected `{` before match arm body'') (\<lambda>body.
      pthen (expect_newline ''expected newline after match arm'')
        (pret (MatchStmtArm pattern binding body)))))))"

definition parse_match_stmt :: "stmt parse \<Rightarrow> token \<Rightarrow> stmt parse" where
  "parse_match_stmt ps t =
     pthen (expect_kind (Keyword KwMatch) ''E0229'' ''expected `match`'')
     (pbind parse_expr_no_struct_literals (\<lambda>v.
      pthen (expect_kind (Punct PLBrace) ''E0230'' ''expected `{` before match arms'')
     (pthen (expect_newline ''expected newline after `{`'')
     (pbind (ploop (\<lambda>arms. pthen skip_newlines (pbind peek_kind (\<lambda>k.
          if k = Punct PRBrace then pthen advance_token (leave arms)
          else if k = Eof then error_here ''E0231'' ''unterminated match body; expected `}`'' 1
          else pbind (parse_match_stmt_arm ps) (\<lambda>arm. again (arms @ [arm]))))) []) (\<lambda>arms.
        pret (StMatch v arms (token_span t)))))))"

definition parse_select_arm :: "stmt parse \<Rightarrow> select_arm parse" where
  "parse_select_arm ps =
     pbind peek (\<lambda>arm_token.
     pbind parse_expr (\<lambda>operation.
     pthen (expect_kind (Punct PFatArrow) ''E0886'' ''expected `=>` after task.select operation'')
     (pbind (expect_ident ''expected immutable result binding after task.select `=>`'') (\<lambda>binding.
      pthen skip_newlines
     (pbind (parse_stmt_block ps ''E0886'' ''expected `{` before task.select arm body'') (\<lambda>body.
      pthen (expect_newline ''expected newline after task.select arm'')
        (pret (SelectArm operation binding body (token_span arm_token)))))))))"

section \<open>Tasks\<close>

text \<open>The span of the statements of \<open>task\<close> names the operation.\<close>

definition task_span :: "token \<Rightarrow> string \<Rightarrow> span" where
  "task_span t name = \<lparr>sp_line = tok_line t, sp_column = tok_column t, sp_length = length name, sp_text = name\<rparr>"

text \<open>\<open>task\<close>, the dot and the name of the operation. The assertions on the two names are those that
  \<open>parse_stmt\<close> has tested.\<close>

definition task_operation :: "string \<Rightarrow> string \<Rightarrow> unit parse" where
  "task_operation code message =
     pbind (expect_ident ''expected `task`'') (\<lambda>_.
     pthen (expect_kind (Punct PDot) code ''expected `.` after `task`'')
     (pbind (expect_ident message) (\<lambda>_. pret ())))"

definition parse_task_scope_stmt :: "stmt parse \<Rightarrow> token \<Rightarrow> stmt parse" where
  "parse_task_scope_stmt ps t =
     pthen (task_operation ''E0871'' ''expected `scope` after `task.`'')
     (pbind (parse_stmt_block ps ''E0871'' ''expected `{` before task scope body'') (\<lambda>body.
        pret (StTaskScope body (task_span t ''task.scope''))))"

definition parse_task_deadline_stmt :: "stmt parse \<Rightarrow> token \<Rightarrow> stmt parse" where
  "parse_task_deadline_stmt ps t =
     pthen (task_operation ''E0871'' ''expected `deadline` after `task.`'')
     (pthen (expect_kind (Punct PLParen) ''E0871'' ''expected `(` after `task.deadline`'')
     (pbind parse_expr (\<lambda>duration.
      pthen (expect_kind (Punct PRParen) ''E0871'' ''expected `)` after task deadline duration'')
     (pbind (parse_stmt_block ps ''E0871'' ''expected `{` before task deadline body'') (\<lambda>body.
        pret (StTaskDeadline duration body (task_span t ''task.deadline'')))))))"

definition parse_task_select_stmt :: "stmt parse \<Rightarrow> token \<Rightarrow> stmt parse" where
  "parse_task_select_stmt ps t =
     pthen (task_operation ''E0886'' ''expected `select` after `task.`'')
     (pthen (expect_kind (Punct PLBrace) ''E0886'' ''expected `{` before task.select arms'')
     (pbind (ploop (\<lambda>arms. pthen skip_newlines (pbind peek_kind (\<lambda>k.
          if k = Punct PRBrace then pthen advance_token (leave arms)
          else if k = Eof then error_here ''E0886'' ''unterminated task.select body; expected `}`'' 1
          else pbind (parse_select_arm ps) (\<lambda>arm. again (arms @ [arm]))))) []) (\<lambda>arms.
      if length arms < 2 \<or> 8 < length arms then
        token_error t ''E0886'' (''task.select expects 2 through 8 static arms, got '' @ show_nat (length arms))
          (length ''task.select'')
      else pret (StTaskSelect arms (task_span t ''task.select'')))))"

section \<open>Statements\<close>

definition parse_defer_stmt :: "stmt parse \<Rightarrow> token \<Rightarrow> stmt parse" where
  "parse_defer_stmt ps t =
     pthen (expect_kind (Keyword KwDefer) ''E0265'' ''expected `defer`'')
     (pbind ps (\<lambda>st. pret (StDefer st (token_span t))))"

definition parse_unsafe_stmt :: "stmt parse \<Rightarrow> token \<Rightarrow> stmt parse" where
  "parse_unsafe_stmt ps t =
     pthen (expect_kind (Keyword KwUnsafe) ''E1517'' ''expected `unsafe`'')
     (pbind (parse_stmt_block ps ''E1518'' ''expected `{` before unsafe block'') (\<lambda>body.
      if length body \<noteq> 1 then
        token_error t ''E1519'' ''v0.1 unsafe blocks must contain exactly one statement'' (token_length t)
      else pret (StUnsafe body (token_span t))))"

text \<open>\<open>parse_stmt\<close>. The kinds of the next three tokens decide.\<close>

definition parse_stmt_with :: "stmt parse \<Rightarrow> stmt parse" where
  "parse_stmt_with ps =
     pbind peek (\<lambda>t. pbind (peek_n 1) (\<lambda>t1. pbind (peek_n 2) (\<lambda>t2. pbind (peek_n 3) (\<lambda>t3.
     pbind starts_index_assignment (\<lambda>index_assignment.
     let k = tok_kind t; k1 = tok_kind t1; k2 = tok_kind t2; k3 = tok_kind t3;
         task = (\<lambda>name. k = Ident ''task'' \<and> k1 = Punct PDot \<and> k2 = Ident name)
     in if task ''select'' then parse_task_select_stmt ps t
        else if task ''scope'' then parse_task_scope_stmt ps t
        else if task ''deadline'' then parse_task_deadline_stmt ps t
        else if k = Keyword KwLet then parse_let_stmt ps t
        else if k = Keyword KwIf \<and> k1 = Keyword KwLet then parse_if_let_stmt ps t
        else if k = Keyword KwReturn then parse_return_stmt t
        else if k = Keyword KwFor then parse_for_stmt ps t
        else if k = Keyword KwMatch then parse_match_stmt ps t
        else if k = Keyword KwBreak then pthen advance_token (pret (StBreak (token_span t)))
        else if k = Keyword KwContinue then pthen advance_token (pret (StContinue (token_span t)))
        else if k = Keyword KwDefer then parse_defer_stmt ps t
        else if k = Keyword KwUnsafe then parse_unsafe_stmt ps t
        else if index_assignment then parse_index_assign_stmt t
        else if is_ident k \<and> (assign_op_from_token k1 \<noteq> None
            \<or> (k1 = Punct PDot \<and> assign_op_from_token k3 \<noteq> None)) then parse_assign_stmt t
        else if is_ident k \<and> (postfix_op_from_token k1 \<noteq> None
            \<or> (k1 = Punct PDot \<and> postfix_op_from_token k3 \<noteq> None)) then parse_postfix_stmt t
        else pbind parse_expr (\<lambda>e. pret (StExpr e (token_span t))))))))"

fun parse_stmt_fuel :: "nat \<Rightarrow> stmt parse" where
  "parse_stmt_fuel 0 = parse_fuel_spent"
| "parse_stmt_fuel (Suc n) = parse_stmt_with (parse_stmt_fuel n)"

definition parse_stmt :: "stmt parse" where
  "parse_stmt = (\<lambda>s. parse_stmt_fuel (length (prs_tokens s)) s)"

end
