(* ===== verification/Parser_Decl.thy ===== *)
theory Parser_Decl
  imports Parser_Stmt
begin

text \<open>
  The declarations of \<open>crates/nomo_syntax/src/parser_decl.rs\<close> and the source file of \<open>parser.rs\<close>.
\<close>

section \<open>Attributes\<close>

record declaration_attributes =
  at_is_test :: bool
  at_repr_c :: bool

definition parse_attribute :: "token \<Rightarrow> declaration_attributes \<Rightarrow> declaration_attributes parse" where
  "parse_attribute t attributes =
     pbind (expect_ident ''expected attribute name'') (\<lambda>name.
     if name = ''test'' then
       (if at_is_test attributes then error_here ''E1100'' ''duplicate `#[test]` attribute'' 1
        else pret (attributes\<lparr>at_is_test := True\<rparr>))
     else if name = ''repr'' then
       (if at_repr_c attributes then error_here ''E1100'' ''duplicate `#[repr(C)]` attribute'' 1
        else
          pthen (expect_kind (Punct PLParen) ''E1100'' ''expected `(` after `repr`'')
          (pbind (expect_ident ''expected `C` in `#[repr(C)]`'') (\<lambda>representation.
           if representation \<noteq> ''C'' then
             error_here ''E1100'' ''only `#[repr(C)]` is supported'' (length representation)
           else
             pthen (expect_kind (Punct PRParen) ''E1100'' ''expected `)` after `C`'')
               (pret (attributes\<lparr>at_repr_c := True\<rparr>)))))
     else token_error t ''E1100'' (''unsupported attribute `#['' @ name @ '']`'') (token_length t))"

definition parse_declaration_attributes :: "declaration_attributes parse" where
  "parse_declaration_attributes = ploop (\<lambda>attributes. pbind peek (\<lambda>t.
     if tok_kind t \<noteq> Punct PHash then leave attributes
     else
       pthen advance_token
       (pthen (expect_kind (Punct PLBracket) ''E1100'' ''expected `[` after `#`'')
       (pbind (parse_attribute t attributes) (\<lambda>attributes.
        pthen (expect_kind (Punct PRBracket) ''E1100'' ''expected `]` after attribute'')
       (pthen (expect_newline ''expected newline after attribute'')
       (pthen skip_newlines (again attributes)))))))) \<lparr>at_is_test = False, at_repr_c = False\<rparr>"

section \<open>Parameters\<close>

definition type_params_step ::
  "bool \<Rightarrow> string list \<times> type_param_bound list
    \<Rightarrow> ((string list \<times> type_param_bound list) + (string list \<times> type_param_bound list)) parse" where
  "type_params_step allow_bounds = (\<lambda>(names, bounds).
     pbind (expect_ident ''expected generic type parameter name'') (\<lambda>name.
     if name \<in> set names then
       unexpected ''E0237'' (''generic type parameter `'' @ name @ ''` is already defined'')
     else let names = names @ [name] in
     pbind peek_kind (\<lambda>k.
     pbind (if k = Punct PColon then
              (if \<not> allow_bounds then
                 unexpected ''E0235'' ''interface bounds are only supported on generic functions''
               else pthen advance_token (pbind parse_type_ref (\<lambda>t.
                 pret (bounds @ [\<lparr>tb_parameter = name, tb_interface = t\<rparr>]))))
            else pret bounds) (\<lambda>bounds.
     pbind peek_kind (\<lambda>k.
     if k = Punct PComma then pthen advance_token (again (names, bounds))
     else if k = Punct PGreater then pthen advance_token (leave (names, bounds))
     else unexpected ''E0235'' ''expected `,` or `>` after generic type parameter'')))))"

definition parse_type_params :: "bool \<Rightarrow> (string list \<times> type_param_bound list) parse" where
  "parse_type_params allow_bounds = pbind peek_kind (\<lambda>k.
     if k \<noteq> Punct PLess then pret ([], [])
     else pthen advance_token (ploop (type_params_step allow_bounds) ([], [])))"

definition param_type :: "bool \<Rightarrow> string \<Rightarrow> type_ref parse" where
  "param_type allow_bare_self name = pbind (pread prs_self_type) (\<lambda>self_type.
     if name = ''self'' \<and> (self_type \<noteq> None \<or> allow_bare_self) then
       pbind peek_kind (\<lambda>k.
         if k = Punct PColon then pthen advance_token parse_type_ref
         else case self_type of
             Some t \<Rightarrow> pret t
           | None \<Rightarrow> pret (TypeRef [''Self''] []))
     else
       pthen (expect_kind (Punct PColon) ''E0214'' ''expected `:` after parameter name'') parse_type_ref)"

definition params_step :: "bool \<Rightarrow> param list \<Rightarrow> (param list + param list) parse" where
  "params_step allow_bare_self params =
     pbind peek_kind (\<lambda>k. let mutable = (k = Keyword KwMut) in
     pthen (pwhen mutable advance_token)
     (pbind (expect_ident ''expected parameter name'') (\<lambda>name.
      pbind (param_type allow_bare_self name) (\<lambda>t.
      let params = params @ [\<lparr>pa_name = name, pa_mutable = mutable, pa_type = t\<rparr>] in
      pbind peek_kind (\<lambda>k.
      if k = Punct PComma then pthen advance_token (again params)
      else if k = Punct PRParen then pthen advance_token (leave params)
      else unexpected ''E0215'' ''expected `,` or `)` after parameter'')))))"

definition parse_params_with_bare_self :: "bool \<Rightarrow> param list parse" where
  "parse_params_with_bare_self allow_bare_self = pbind peek_kind (\<lambda>k.
     if k = Punct PRParen then pthen advance_token (pret [])
     else ploop (params_step allow_bare_self) [])"

definition parse_params :: "param list parse" where
  "parse_params = parse_params_with_bare_self False"

definition void_type_ref :: type_ref where
  "void_type_ref = TypeRef [''void''] []"

text \<open>The optional return type, in \<open>parse_function\<close> and \<open>parse_function_signature\<close>.\<close>

definition parse_return_type :: "type_ref parse" where
  "parse_return_type = pbind peek_kind (\<lambda>k.
     if k = Punct PArrow then pthen advance_token parse_type_ref else pret void_type_ref)"

text \<open>The optional \<open>suspend\<close> and \<open>pub\<close>.\<close>

definition consume_keyword :: "keyword \<Rightarrow> bool parse" where
  "consume_keyword w = pbind peek_kind (\<lambda>k.
     if k = Keyword w then pthen advance_token (pret True) else pret False)"

definition consume_pub :: "bool parse" where
  "consume_pub = consume_keyword KwPub"

section \<open>Functions\<close>

definition expect_function_name :: "string parse" where
  "expect_function_name = pbind peek_kind (\<lambda>k. case k of
       Ident v \<Rightarrow> pthen advance_token (pret v)
     | Keyword KwPanic \<Rightarrow> pthen advance_token (pret ''panic'')
     | _ \<Rightarrow> unexpected ''E0300'' ''expected function name'')"

text \<open>A body that is closed by a brace, which the loops of functions, enums, structs, interfaces, extern and
  impl blocks share: the members, the closing brace with the newlines after it, and an error at the end.\<close>

definition members_loop :: "string \<Rightarrow> string \<Rightarrow> 'a parse \<Rightarrow> 'a list parse" where
  "members_loop eof_code eof_message member = ploop (\<lambda>members. pthen skip_newlines (pbind peek_kind (\<lambda>k.
     if k = Punct PRBrace then pthen advance_token (pthen consume_newline (leave members))
     else if k = Eof then error_here eof_code eof_message 1
     else pbind member (\<lambda>x. again (members @ [x]))))) []"

definition parse_function :: "bool \<Rightarrow> bool \<Rightarrow> function_def parse" where
  "parse_function public is_test =
     pbind peek (\<lambda>t.
     pbind (consume_keyword KwSuspend) (\<lambda>is_suspend.
     pthen (expect_kind (Keyword KwFn) ''E0202'' ''expected `fn`'')
     (pbind expect_function_name (\<lambda>name.
      pbind (parse_type_params True) (\<lambda>(names, bounds).
      pthen (expect_kind (Punct PLParen) ''E0203'' ''expected `(` after function name'')
     (pbind parse_params (\<lambda>params.
      pbind parse_return_type (\<lambda>return_type.
      pthen (expect_kind (Punct PLBrace) ''E0206'' ''expected `{` before function body'')
     (pthen (expect_newline ''expected newline after `{`'')
     (pbind (members_loop ''E0207'' ''unterminated function body; expected `}`'' 
          (pbind parse_stmt (\<lambda>st. pthen (expect_newline ''expected newline after statement'') (pret st)))) (\<lambda>body.
      pret \<lparr>fn_public = public, fn_is_test = is_test, fn_is_suspend = is_suspend, fn_package = [],
        fn_name = name, fn_type_params = names, fn_type_param_bounds = bounds, fn_params = params,
        fn_return_type = return_type, fn_body = body, fn_span = token_span t\<rparr>)))))))))))"

definition parse_function_signature ::
  "string \<Rightarrow> string \<Rightarrow> string \<Rightarrow> string \<Rightarrow> string \<Rightarrow> bool \<Rightarrow> function_signature parse" where
  "parse_function_signature fn_code fn_message name_message paren_code paren_message allow_bare_self =
     pbind peek (\<lambda>t.
     pbind (consume_keyword KwSuspend) (\<lambda>is_suspend.
     pthen (expect_kind (Keyword KwFn) fn_code fn_message)
     (pbind (expect_ident name_message) (\<lambda>name.
      pbind (parse_type_params False) (\<lambda>(names, bounds).
      pthen (expect_kind (Punct PLParen) paren_code paren_message)
     (pbind (parse_params_with_bare_self allow_bare_self) (\<lambda>params.
      pbind parse_return_type (\<lambda>return_type.
      pret \<lparr>fs_is_suspend = is_suspend, fs_name = name, fs_type_params = names,
        fs_type_param_bounds = bounds, fs_params = params, fs_return_type = return_type,
        fs_span = token_span t\<rparr>))))))))"

definition parse_interface_method_signature :: "function_signature parse" where
  "parse_interface_method_signature =
     pbind (parse_function_signature ''E1504'' ''expected `fn`'' ''expected interface method name''
         ''E1505'' ''expected `(` after interface method name'' True) (\<lambda>signature.
       pthen (expect_newline ''expected newline after interface method signature'') (pret signature))"

definition parse_extern_function_signature :: "function_signature parse" where
  "parse_extern_function_signature =
     pbind (parse_function_signature ''E1515'' ''expected `fn`'' ''expected extern function name''
         ''E1516'' ''expected `(` after extern function name'' False) (\<lambda>signature.
       pthen (expect_newline ''expected newline after extern function declaration'') (pret signature))"

section \<open>Types and constants\<close>

definition parse_enum_variant :: "enum_variant parse" where
  "parse_enum_variant =
     pbind peek (\<lambda>t.
     pbind (expect_ident ''expected enum variant name'') (\<lambda>name.
     pbind peek_kind (\<lambda>k.
     pbind (if k = Punct PLParen then
              pthen advance_token (pbind parse_type_ref (\<lambda>payload.
                pthen (expect_kind (Punct PRParen) ''E0233'' ''expected `)` after enum variant payload type'')
                  (pret (Some payload))))
            else pret None) (\<lambda>payload.
     pbind peek_kind (\<lambda>k.
     pthen (pwhen (k = Punct PComma) advance_token)
     (pthen (expect_newline ''expected newline after enum variant'')
       (pret \<lparr>ev_name = name, ev_payload = payload, ev_span = token_span t\<rparr>)))))))"

definition parse_enum :: "bool \<Rightarrow> enum_def parse" where
  "parse_enum public =
     pbind peek (\<lambda>t.
     pthen (expect_kind (Keyword KwEnum) ''E0226'' ''expected `enum`'')
     (pbind (expect_ident ''expected enum name'') (\<lambda>name.
      pbind (parse_type_params False) (\<lambda>(type_params, _).
      pthen (expect_kind (Punct PLBrace) ''E0227'' ''expected `{` before enum variants'')
     (pthen (expect_newline ''expected newline after `{`'')
     (pbind (members_loop ''E0228'' ''unterminated enum body; expected `}`'' parse_enum_variant) (\<lambda>variants.
      pret \<lparr>ed_public = public, ed_package = [], ed_name = name, ed_type_params = type_params,
        ed_variants = variants, ed_span = token_span t\<rparr>)))))))"

definition parse_struct_def_field :: "field_def parse" where
  "parse_struct_def_field =
     pbind peek (\<lambda>t.
     pbind consume_pub (\<lambda>public.
     pbind (expect_ident ''expected field name'') (\<lambda>name.
     pthen (expect_kind (Punct PColon) ''E0221'' ''expected `:` after field name'')
     (pbind parse_type_ref (\<lambda>type_ref.
      pthen (expect_newline ''expected newline after struct field'')
       (pret \<lparr>fd_public = public, fd_name = name, fd_type = type_ref, fd_span = token_span t\<rparr>))))))"

definition parse_struct :: "bool \<Rightarrow> bool \<Rightarrow> struct_def parse" where
  "parse_struct public repr_c =
     pbind peek (\<lambda>t.
     pthen (expect_kind (Keyword KwStruct) ''E0218'' ''expected `struct`'')
     (pbind (expect_ident ''expected struct name'') (\<lambda>name.
      pbind (parse_type_params False) (\<lambda>(type_params, _).
      pthen (expect_kind (Punct PLBrace) ''E0219'' ''expected `{` before struct fields'')
     (pthen (expect_newline ''expected newline after `{`'')
     (pbind (members_loop ''E0220'' ''unterminated struct body; expected `}`'' parse_struct_def_field) (\<lambda>fs.
      pret \<lparr>sd_public = public, sd_repr_c = repr_c, sd_package = [], sd_name = name,
        sd_type_params = type_params, sd_fields = fs, sd_span = token_span t\<rparr>)))))))"

definition parse_const :: "bool \<Rightarrow> const_def parse" where
  "parse_const public =
     pbind peek (\<lambda>t.
     pthen (expect_kind (Keyword KwConst) ''E0267'' ''expected `const`'')
     (pbind (expect_ident ''expected constant name after `const`'') (\<lambda>name.
      pthen (expect_kind (Punct PColon) ''E0268'' ''expected `:` after constant name'')
     (pbind parse_type_ref (\<lambda>type_ref.
      pthen (expect_kind (Punct PEqual) ''E0269'' ''expected `=` before constant value'')
     (pbind parse_expr (\<lambda>v.
      pthen consume_newline
       (pret \<lparr>cd_public = public, cd_name = name, cd_type = type_ref, cd_value = v,
          cd_span = token_span t\<rparr>))))))))"

section \<open>Interfaces, extern and impl blocks\<close>

definition parse_interface :: "bool \<Rightarrow> interface_def parse" where
  "parse_interface public =
     pbind peek (\<lambda>t.
     pthen (expect_kind (Keyword KwInterface) ''E1500'' ''expected `interface`'')
     (pbind (expect_ident ''expected interface name'') (\<lambda>name.
      pthen (expect_kind (Punct PLBrace) ''E1501'' ''expected `{` before interface methods'')
     (pthen (expect_newline ''expected newline after `{`'')
     (pbind (members_loop ''E1502'' ''unterminated interface body; expected `}`'' (pbind peek_kind (\<lambda>k.
          if k = Keyword KwFn \<or> k = Keyword KwSuspend then parse_interface_method_signature
          else unexpected ''E1503'' ''expected interface method signature or `}`''))) (\<lambda>methods.
      pret \<lparr>id_public = public, id_name = name, id_methods = methods, id_span = token_span t\<rparr>))))))"

definition is_extern_opaque_type :: "bool parse" where
  "is_extern_opaque_type = pbind (peek_n 1) (\<lambda>t1. pbind (peek_n 2) (\<lambda>t2.
     pret (tok_kind t1 = Ident ''opaque'' \<and> tok_kind t2 = Ident ''type'')))"

definition parse_extern_opaque_type :: "extern_opaque_type parse" where
  "parse_extern_opaque_type =
     pbind peek (\<lambda>t.
     pthen (expect_kind (Keyword KwExtern) ''E1520'' ''expected `extern`'')
     (pbind (expect_ident ''expected `opaque` after `extern`'') (\<lambda>opaque.
      if opaque \<noteq> ''opaque'' then error_here ''E1520'' ''expected `opaque` after `extern`'' (length opaque)
      else pbind (expect_ident ''expected `type` after `extern opaque`'') (\<lambda>type_keyword.
      if type_keyword \<noteq> ''type'' then
        error_here ''E1520'' ''expected `type` after `extern opaque`'' (length type_keyword)
      else pbind (expect_ident ''expected opaque handle type name'') (\<lambda>name.
      pbind peek_kind (\<lambda>k.
      pbind (if k = Ident ''release'' then
               pthen advance_token (pbind (expect_ident ''expected release function name after `release`'')
                 (\<lambda>release. pret (Some release)))
             else pret None) (\<lambda>release.
      pthen (expect_newline ''expected newline after opaque handle declaration'')
       (pret \<lparr>eo_name = name, eo_release_function = release, eo_span = token_span t\<rparr>))))))))"

definition parse_extern_block :: "extern_block parse" where
  "parse_extern_block =
     pbind peek (\<lambda>t.
     pthen (expect_kind (Keyword KwExtern) ''E1510'' ''expected `extern`'')
     (pbind peek_kind (\<lambda>k.
      pthen (if k = StringLit ''C'' then advance_token
             else error_here ''E1511'' (''expected extern ABI string `'' @ [CHR 0x22] @ ''C'' @ [CHR 0x22] @ ''`'') 1)
     (pthen (expect_kind (Punct PLBrace) ''E1512'' ''expected `{` before extern declarations'')
     (pthen (expect_newline ''expected newline after `{`'')
     (pbind (members_loop ''E1513'' ''unterminated extern block; expected `}`'' (pbind peek_kind (\<lambda>k.
          if k = Keyword KwFn then parse_extern_function_signature
          else unexpected ''E1514'' ''expected extern function declaration or `}`''))) (\<lambda>functions.
      pret \<lparr>eb_abi = ''C'', eb_functions = functions, eb_span = token_span t\<rparr>)))))))"

text \<open>The methods of an impl block, each with an optional \<open>pub\<close>; the type of \<open>self\<close> is set around them.\<close>

definition impl_methods :: "function_def list parse" where
  "impl_methods = ploop (\<lambda>methods. pthen skip_newlines (pbind consume_pub (\<lambda>public. pbind peek_kind (\<lambda>k.
     if k = Keyword KwFn \<or> k = Keyword KwSuspend then
       pbind (parse_function public False) (\<lambda>method. again (methods @ [method]))
     else if k = Punct PRBrace \<and> \<not> public then pthen advance_token (pthen consume_newline (leave methods))
     else if k = Eof then error_here ''E0253'' ''unterminated impl body; expected `}`'' 1
     else unexpected ''E0254'' ''expected method declaration or `}` in impl body'')))) []"

definition parse_impl :: "impl_block parse" where
  "parse_impl =
     pthen (expect_kind (Keyword KwImpl) ''E0250'' ''expected `impl`'')
     (pbind parse_type_ref (\<lambda>first_type.
      pbind peek_kind (\<lambda>k.
      pbind (if k = Keyword KwFor then
               pthen advance_token (pbind parse_type_ref (\<lambda>t. pret (Some first_type, t)))
             else pret (None, first_type)) (\<lambda>(interface_name, type_name).
      if length (tr_path type_name) \<noteq> 1 \<or> tr_args type_name \<noteq> [] then
        unexpected ''E0251'' ''v0.1 impl blocks must target a local non-generic type''
      else
        pthen (expect_kind (Punct PLBrace) ''E0252'' ''expected `{` before impl methods'')
       (pthen (expect_newline ''expected newline after `{`'')
       (pbind (pread prs_self_type) (\<lambda>previous.
        pthen (pmodify (\<lambda>s. s\<lparr>prs_self_type := Some type_name\<rparr>))
       (pbind impl_methods (\<lambda>methods.
        pthen (pmodify (\<lambda>s. s\<lparr>prs_self_type := previous\<rparr>))
         (pret \<lparr>im_interface_name = interface_name, im_type_name = type_name,
            im_methods = methods\<rparr>))))))))))"

section \<open>Source files\<close>

definition is_declaration_start :: "token_kind \<Rightarrow> bool \<Rightarrow> bool" where
  "is_declaration_start k public \<longleftrightarrow>
     k \<in> Keyword ` {KwStruct, KwEnum, KwInterface, KwConst, KwSuspend, KwFn}
     \<or> (\<not> public \<and> k \<in> Keyword ` {KwImpl, KwExtern})"

definition parse_imports :: "string list list parse" where
  "parse_imports = ploop (\<lambda>imports. pthen skip_newlines (pbind peek_kind (\<lambda>k.
     if k \<noteq> Keyword KwImport then leave imports
     else pthen advance_token (pbind parse_import_path (\<lambda>path.
       pthen (expect_newline ''expected newline after import declaration'') (again (imports @ [path]))))))) []"

text \<open>The declarations outside of the script body, each added to its list.\<close>

definition parse_declaration ::
  "declaration_attributes \<Rightarrow> bool \<Rightarrow> token_kind \<Rightarrow> source_file \<Rightarrow> source_file parse option" where
  "parse_declaration attributes public k sf =
     (if k = Keyword KwStruct then
        Some (pbind (parse_struct public (at_repr_c attributes)) (\<lambda>d. pret (sf\<lparr>sf_structs := sf_structs sf @ [d]\<rparr>)))
      else if k = Keyword KwEnum then
        Some (pbind (parse_enum public) (\<lambda>d. pret (sf\<lparr>sf_enums := sf_enums sf @ [d]\<rparr>)))
      else if k = Keyword KwInterface then
        Some (pbind (parse_interface public) (\<lambda>d. pret (sf\<lparr>sf_interfaces := sf_interfaces sf @ [d]\<rparr>)))
      else if k = Keyword KwExtern \<and> \<not> public then
        Some (pbind is_extern_opaque_type (\<lambda>opaque.
          if opaque then pbind parse_extern_opaque_type (\<lambda>d.
            pret (sf\<lparr>sf_extern_opaque_types := sf_extern_opaque_types sf @ [d]\<rparr>))
          else pbind parse_extern_block (\<lambda>d. pret (sf\<lparr>sf_extern_blocks := sf_extern_blocks sf @ [d]\<rparr>))))
      else if k = Keyword KwImpl \<and> \<not> public then
        Some (pbind parse_impl (\<lambda>d. pret (sf\<lparr>sf_impls := sf_impls sf @ [d]\<rparr>)))
      else if k = Keyword KwConst then
        Some (pbind (parse_const public) (\<lambda>d. pret (sf\<lparr>sf_consts := sf_consts sf @ [d]\<rparr>)))
      else if k = Keyword KwFn \<or> k = Keyword KwSuspend then
        Some (pbind (parse_function public (at_is_test attributes)) (\<lambda>d.
          pret (sf\<lparr>sf_functions := sf_functions sf @ [d]\<rparr>)))
      else None)"

text \<open>One iteration of the loop over the items; the flag is \<open>parsing_script_body\<close>.\<close>

definition parse_item :: "bool \<times> source_file \<Rightarrow> ((bool \<times> source_file) + source_file) parse" where
  "parse_item = (\<lambda>(script, sf).
     pthen skip_newlines
     (pbind parse_declaration_attributes (\<lambda>attributes.
      pbind consume_pub (\<lambda>public.
      pbind peek_kind (\<lambda>k.
      if at_is_test attributes \<and> k \<noteq> Keyword KwFn \<and> k \<noteq> Keyword KwSuspend then
        unexpected ''E1100'' ''`#[test]` can only be applied to a function''
      else if at_repr_c attributes \<and> k \<noteq> Keyword KwStruct then
        unexpected ''E1100'' ''`#[repr(C)]` can only be applied to a struct''
      else if script \<and> is_declaration_start k public then
        unexpected ''E0201'' ''declarations must appear before top-level script statements''
      else case (if script then None else parse_declaration attributes public k sf) of
        Some declaration \<Rightarrow> pbind declaration (\<lambda>sf. again (script, sf))
      | None \<Rightarrow>
          if k = Eof \<and> \<not> public \<and> \<not> at_is_test attributes \<and> \<not> at_repr_c attributes then leave sf
          else if public then
            unexpected ''E0201'' ''expected struct, enum, impl, const, function declaration, or end of file''
          else if at_is_test attributes then
            unexpected ''E1100'' ''`#[test]` can only be applied to a function''
          else
            pbind parse_stmt (\<lambda>st.
            pthen (expect_newline ''expected newline after top-level script statement'')
              (again (True, sf\<lparr>sf_script_body := sf_script_body sf @ [st]\<rparr>))))))))"

text \<open>The package is copied into the items at the end.\<close>

definition with_package :: "source_file \<Rightarrow> source_file" where
  "with_package sf =
     (let function = (\<lambda>f. f\<lparr>fn_package := sf_package sf\<rparr>)
      in sf\<lparr>sf_structs := map (\<lambda>d. d\<lparr>sd_package := sf_package sf\<rparr>) (sf_structs sf),
           sf_enums := map (\<lambda>d. d\<lparr>ed_package := sf_package sf\<rparr>) (sf_enums sf),
           sf_functions := map function (sf_functions sf),
           sf_impls := map (\<lambda>d. d\<lparr>im_methods := map function (im_methods d)\<rparr>) (sf_impls sf)\<rparr>)"

definition parse_source_file :: "source_file parse" where
  "parse_source_file =
     pthen skip_newlines
     (pthen (expect_kind (Keyword KwPackage) ''E0200'' ''expected `package <name>`'')
     (pbind parse_path (\<lambda>package.
      pthen (expect_newline ''expected newline after package declaration'')
     (pbind parse_imports (\<lambda>imports.
      pbind (ploop parse_item (False, \<lparr>sf_package = package, sf_imports = imports, sf_structs = [],
          sf_enums = [], sf_interfaces = [], sf_extern_opaque_types = [], sf_extern_blocks = [],
          sf_impls = [], sf_consts = [], sf_functions = [], sf_script_body = []\<rparr>)) (\<lambda>sf.
        pret (with_package sf)))))))"

definition parser_new :: "string \<Rightarrow> token list \<Rightarrow> parser_state" where
  "parser_new path tokens = \<lparr>prs_path = path, prs_tokens = tokens, prs_index = 0,
     prs_struct_literals = True, prs_self_type = None, prs_pending_gt = 0\<rparr>"

definition parse_tokens :: "string \<Rightarrow> token list \<Rightarrow> (diagnostic + source_file) option" where
  "parse_tokens path tokens = map_option (map_ok fst) (parse_source_file (parser_new path tokens))"

end
