(* ===== verification/Parser_Moves.thy ===== *)
theory Parser_Moves
  imports Parser_Decl
begin

text \<open>
  How far the methods of the parser move over the tokens: each one returns, keeps the tokens, never goes
  back, and most of them consume a token when they succeed. The rules follow the combinators, so that a
  method advances when its parts do; from this the bounds on loops and on the fuel follow.
\<close>

section \<open>Moving over the tokens\<close>

definition ready :: "parser_state \<Rightarrow> bool" where
  "ready s \<longleftrightarrow> prs_index s < length (prs_tokens s) \<and> tok_kind (last (prs_tokens s)) = Eof"

definition tokens_left :: "parser_state \<Rightarrow> nat" where
  "tokens_left s = length (prs_tokens s) - Suc (prs_index s)"

definition cur_kind :: "parser_state \<Rightarrow> token_kind" where
  "cur_kind s = tok_kind (prs_tokens s ! prs_index s)"

definition follows :: "bool \<Rightarrow> parser_state \<Rightarrow> parser_state \<Rightarrow> bool" where
  "follows strict s s' \<longleftrightarrow> ready s' \<and> prs_tokens s' = prs_tokens s \<and> prs_path s' = prs_path s
     \<and> tokens_left s' \<le> tokens_left s \<and> (strict \<longrightarrow> tokens_left s' < tokens_left s)"

text \<open>The file and the tokens, which do not change, and a diagnostic at one of the tokens.\<close>

type_synonym input = "string \<times> token list"

definition reads :: "input \<Rightarrow> parser_state \<Rightarrow> bool" where
  "reads cx s \<longleftrightarrow> cx = (prs_path s, prs_tokens s)"

definition located :: "input \<Rightarrow> diagnostic \<Rightarrow> bool" where
  "located cx e \<longleftrightarrow> dg_file e = fst cx \<and> (\<exists>t \<in> set (snd cx).
     dg_line e = tok_line t \<and> dg_column e = tok_column t \<and> dg_text e = tok_text t)"

text \<open>From a state with less than \<open>m\<close> tokens left and a current token in \<open>P\<close>, the method returns; a result
  for which \<open>D\<close> holds has consumed a token, and an error is at a token.\<close>

definition advances :: "input \<Rightarrow> (token_kind \<Rightarrow> bool) \<Rightarrow> nat \<Rightarrow> ('a \<Rightarrow> bool) \<Rightarrow> 'a parse \<Rightarrow> bool" where
  "advances cx P m D p \<longleftrightarrow> (\<forall>s. ready s \<longrightarrow> reads cx s \<longrightarrow> tokens_left s < m \<longrightarrow> P (cur_kind s) \<longrightarrow>
     (case p s of
        None \<Rightarrow> False
      | Some (Inl e) \<Rightarrow> located cx e
      | Some (Inr (x, s')) \<Rightarrow> follows (D x) s s'))"

abbreviation any_kind :: "token_kind \<Rightarrow> bool" where "any_kind \<equiv> \<lambda>_. True"
abbreviation consuming :: "'a \<Rightarrow> bool" where "consuming \<equiv> \<lambda>_. True"
abbreviation keeping :: "'a \<Rightarrow> bool" where "keeping \<equiv> \<lambda>_. False"

named_theorems advances_intros \<open>rules for the methods of the parser\<close>

lemma follows_refl: "ready s \<Longrightarrow> follows False s s"
  by (simp add: follows_def)

lemma follows_trans: "follows c s s' \<Longrightarrow> follows d s' s'' \<Longrightarrow> (b \<longrightarrow> c \<or> d) \<Longrightarrow> follows b s s''"
  by (auto simp: follows_def)

lemma advancesI:
  assumes "\<And>s. ready s \<Longrightarrow> reads cx s \<Longrightarrow> tokens_left s < m \<Longrightarrow> P (cur_kind s) \<Longrightarrow>
    (case p s of None \<Rightarrow> False | Some (Inl e) \<Rightarrow> located cx e | Some (Inr (x, s')) \<Rightarrow> follows (D x) s s')"
  shows "advances cx P m D p"
  using assms by (simp add: advances_def)

lemma advancesE:
  assumes "advances cx P m D p" "ready s" "reads cx s" "tokens_left s < m" "P (cur_kind s)"
  obtains (error) e where "p s = Some (Inl e)" "located cx e"
    | (result) x s' where "p s = Some (Inr (x, s'))" "follows (D x) s s'"
proof (cases "p s")
  case None
  with assms show thesis by (auto simp: advances_def)
next
  case (Some r)
  with assms have "case r of Inl e \<Rightarrow> located cx e | Inr (x, s') \<Rightarrow> follows (D x) s s'"
    by (auto simp: advances_def)
  with Some show thesis by (cases r) (auto intro: error result)
qed

lemmas any_advancesE = advancesE [where P = any_kind, OF _ _ _ _ TrueI, consumes 4, case_names error result]

lemma advances_weaken:
  "advances cx P k D p \<Longrightarrow> m \<le> k \<Longrightarrow> (\<And>t. Q t \<Longrightarrow> P t) \<Longrightarrow> (\<And>x. E x \<Longrightarrow> D x) \<Longrightarrow> advances cx Q m E p"
proof (rule advancesI)
  fix s assume p: "advances cx P k D p" and le: "m \<le> k" "\<And>t. Q t \<Longrightarrow> P t" "\<And>x. E x \<Longrightarrow> D x"
    and s: "ready s" "reads cx s" "tokens_left s < m" "Q (cur_kind s)"
  from s le have "tokens_left s < k" "P (cur_kind s)" by auto
  from p s(1,2) this
  show "case p s of None \<Rightarrow> False | Some (Inl e) \<Rightarrow> located cx e | Some (Inr (x, s')) \<Rightarrow> follows (E x) s s'"
    by (cases rule: advancesE) (auto simp: follows_def le)
qed

section \<open>Combinators\<close>

lemma advances_pret [advances_intros]: "\<not> D x \<Longrightarrow> advances cx P m D (pret x)"
  by (rule advancesI) (simp add: pret_def follows_refl)

lemma follows_reads: "reads cx s \<Longrightarrow> follows c s s' \<Longrightarrow> reads cx s'"
  by (simp add: reads_def follows_def)

lemma advances_pbind:
  assumes p: "advances cx P m C p"
    and k: "\<And>x. C x \<Longrightarrow> advances cx any_kind (m - 1) keeping (k x)" "\<And>x. \<not> C x \<Longrightarrow> advances cx any_kind m D (k x)"
  shows "advances cx P m D (pbind p k)"
proof (rule advancesI)
  fix s assume s: "ready s" "reads cx s" "tokens_left s < m" "P (cur_kind s)"
  from p s show "case pbind p k s of None \<Rightarrow> False | Some (Inl e) \<Rightarrow> located cx e | Some (Inr (x, s')) \<Rightarrow> follows (D x) s s'"
  proof (cases rule: advancesE)
    case (error e)
    then show ?thesis by (simp add: pbind_def)
  next
    case (result x s')
    then have s': "ready s'" "reads cx s'" "tokens_left s' \<le> tokens_left s"
      using s(2) by (auto simp: follows_def intro: follows_reads)
    show ?thesis
    proof (cases "C x")
      case True
      with result s have "tokens_left s' < m - 1" by (auto simp: follows_def)
      from k(1) [OF True] s'(1,2) this show ?thesis
        by (cases rule: advancesE) (use result True in \<open>auto simp: pbind_def intro: follows_trans\<close>)
    next
      case False
      from s s' have "tokens_left s' < m" by simp
      from k(2) [OF False] s'(1,2) this show ?thesis
        by (cases rule: advancesE) (use result in \<open>auto simp: pbind_def intro: follows_trans\<close>)
    qed
  qed
qed

lemma advances_after:
  assumes "advances cx P m consuming p" "\<And>x. advances cx any_kind (m - 1) keeping (k x)"
  shows "advances cx P m D (pbind p k)"
  by (rule advances_pbind [OF assms(1)], rule assms(2)) simp

lemma advances_keep:
  assumes "advances cx P m keeping p" "\<And>x. advances cx any_kind m D (k x)"
  shows "advances cx P m D (pbind p k)"
  by (rule advances_pbind [OF assms(1)], simp) (rule assms(2))

lemma advances_then_after:
  "advances cx P m consuming p \<Longrightarrow> advances cx any_kind (m - 1) keeping q \<Longrightarrow> advances cx P m D (pthen p q)"
  unfolding pthen_def by (rule advances_after)

lemma advances_then_keep:
  "advances cx P m keeping p \<Longrightarrow> advances cx any_kind m D q \<Longrightarrow> advances cx P m D (pthen p q)"
  unfolding pthen_def by (rule advances_keep)

lemma advances_if [advances_intros]:
  "(b \<Longrightarrow> advances cx P m D p) \<Longrightarrow> (\<not> b \<Longrightarrow> advances cx P m D q) \<Longrightarrow> advances cx P m D (if b then p else q)"
  by simp

lemma advances_option [advances_intros]:
  "(a = None \<Longrightarrow> advances cx P m D p) \<Longrightarrow> (\<And>x. a = Some x \<Longrightarrow> advances cx P m D (q x))
    \<Longrightarrow> advances cx P m D (case a of None \<Rightarrow> p | Some x \<Rightarrow> q x)"
  by (cases a) simp_all

lemma advances_prod [advances_intros]:
  "(\<And>x y. a = (x, y) \<Longrightarrow> advances cx P m D (q x y)) \<Longrightarrow> advances cx P m D (case a of (x, y) \<Rightarrow> q x y)"
  by (cases a) simp_all

lemma advances_Let [advances_intros]: "advances cx P m D (f a) \<Longrightarrow> advances cx P m D (let x = a in f x)"
  by simp

text \<open>Reading does not change the current token.\<close>

lemma advances_read [advances_intros]:
  "(\<And>x. advances cx P m D (k x)) \<Longrightarrow> advances cx P m D (pbind (pread f) k)"
  by (auto simp: advances_def pbind_def pread_def split: option.splits sum.splits)

lemma token_at_index: "ready s \<Longrightarrow> token_at (prs_index s) s = Some (prs_tokens s ! prs_index s)"
  by (simp add: ready_def token_at_def)

lemma ready_nonempty: "ready s \<Longrightarrow> prs_tokens s \<noteq> []"
  by (auto simp: ready_def)

lemma peek_ready: "ready s \<Longrightarrow> peek s = Some (Ok (prs_tokens s ! prs_index s, s))"
  by (simp add: peek_def token_at_index)

lemma peek_kind_ready: "ready s \<Longrightarrow> peek_kind s = Some (Ok (cur_kind s, s))"
  by (simp add: peek_kind_def pbind_def peek_ready pret_def cur_kind_def)

lemma advances_peek [advances_intros]:
  "(\<And>t. t \<in> set (snd cx) \<Longrightarrow> P (tok_kind t) \<Longrightarrow> advances cx (\<lambda>k. k = tok_kind t) m D (f t))
    \<Longrightarrow> advances cx P m D (pbind peek f)"
  by (auto simp: advances_def pbind_def peek_ready cur_kind_def reads_def ready_def)

lemma advances_peek_kind [advances_intros]:
  "(\<And>k. P k \<Longrightarrow> advances cx (\<lambda>k'. k' = k) m D (f k)) \<Longrightarrow> advances cx P m D (pbind peek_kind f)"
  by (simp add: advances_def pbind_def peek_kind_ready)

lemma advances_peek_n [advances_intros]:
  "(\<And>t. advances cx P m D (f t)) \<Longrightarrow> advances cx P m D (pbind (peek_n i) f)"
  by (auto simp: advances_def pbind_def peek_n_def token_at_def dest: ready_nonempty split: option.splits)

text \<open>The fields that are not about tokens.\<close>

lemma advances_pmodify:
  assumes "\<And>s. prs_tokens (f s) = prs_tokens s \<and> prs_index (f s) = prs_index s \<and> prs_path (f s) = prs_path s"
  shows "advances cx P m keeping (pmodify f)"
  using assms by (auto simp: advances_def pmodify_def follows_def ready_def tokens_left_def)

lemma advances_pmodify_then [advances_intros]:
  "(\<And>s. prs_tokens (f s) = prs_tokens s \<and> prs_index (f s) = prs_index s \<and> prs_path (f s) = prs_path s)
    \<Longrightarrow> advances cx any_kind m D q \<Longrightarrow> advances cx P m D (pthen (pmodify f) q)"
  by (rule advances_then_keep [OF advances_pmodify])

section \<open>Tokens\<close>

lemma advances_advance: "(\<And>k. P k \<Longrightarrow> k \<noteq> Eof) \<Longrightarrow> advances cx P m consuming advance_token"
proof (rule advancesI)
  fix s assume P: "\<And>k. P k \<Longrightarrow> k \<noteq> Eof" and s: "ready s" "tokens_left s < m" "P (cur_kind s)"
  have "Suc (prs_index s) < length (prs_tokens s)"
  proof (rule ccontr)
    assume "\<not> Suc (prs_index s) < length (prs_tokens s)"
    with s(1) have "prs_index s = length (prs_tokens s) - 1" "prs_tokens s \<noteq> []" by (auto simp: ready_def)
    then have "cur_kind s = tok_kind (last (prs_tokens s))" by (simp add: cur_kind_def last_conv_nth)
    with s P show False by (auto simp: ready_def)
  qed
  with s P show "case advance_token s of None \<Rightarrow> False | Some (Inl e) \<Rightarrow> located cx e
      | Some (Inr (x, s')) \<Rightarrow> follows True s s'"
    by (auto simp: advance_token_def pbind_def peek_kind_ready pmodify_def follows_def ready_def
        tokens_left_def)
qed

lemma advances_advance_keep [advances_intros]: "advances cx P m keeping advance_token"
proof (rule advancesI)
  fix s assume s: "ready s" "reads cx s" "tokens_left s < m"
  show "case advance_token s of None \<Rightarrow> False | Some (Inl e) \<Rightarrow> located cx e
      | Some (Inr (x, s')) \<Rightarrow> follows False s s'"
  proof (cases "cur_kind s = Eof")
    case True
    with s show ?thesis by (simp add: advance_token_def pbind_def peek_kind_ready pret_def follows_refl)
  next
    case False
    have "advances cx (\<lambda>k. k \<noteq> Eof) m consuming advance_token" by (rule advances_advance) simp
    from this s False show ?thesis by (cases rule: advancesE) (auto simp: follows_def)
  qed
qed

lemma advances_advance_then [advances_intros]:
  "(\<And>k. P k \<Longrightarrow> k \<noteq> Eof) \<Longrightarrow> advances cx any_kind (m - 1) keeping q \<Longrightarrow> advances cx P m D (pthen advance_token q)"
  by (rule advances_then_after [OF advances_advance])

lemma advances_token_error [advances_intros]:
  "t \<in> set (snd cx) \<Longrightarrow> advances cx P m D (token_error t code message len)"
  by (auto simp: advances_def token_error_def pbind_def pread_def pfail_def located_def reads_def
      diagnostic_new_def)

lemma advances_error_here [advances_intros]: "advances cx P m D (error_here code message len)"
  unfolding error_here_def by (intro advances_intros)

lemma advances_unexpected [advances_intros]: "advances cx P m D (unexpected code message)"
  unfolding unexpected_def by (intro advances_intros)

lemma advances_expect_kind:
  assumes "k \<noteq> Eof"
  shows "advances cx P m consuming (expect_kind k code message)"
  unfolding expect_kind_def using assms by (intro advances_intros) (auto intro: advances_advance)

lemma advances_expect_ident: "advances cx P m consuming (expect_ident message)"
  unfolding expect_ident_def
  by (intro advances_intros) (auto intro: advances_intros split: token_kind.split)

lemma advances_expect_kind_then [advances_intros]:
  "k \<noteq> Eof \<Longrightarrow> advances cx any_kind (m - 1) keeping q \<Longrightarrow> advances cx P m D (pthen (expect_kind k code message) q)"
  by (rule advances_then_after [OF advances_expect_kind])

lemma advances_expect_ident_bind [advances_intros]:
  "(\<And>x. advances cx any_kind (m - 1) keeping (k x)) \<Longrightarrow> advances cx P m D (pbind (expect_ident message) k)"
  by (rule advances_after [OF advances_expect_ident])

section \<open>Loops\<close>

lemma advances_iterate:
  assumes body: "\<And>x. advances cx any_kind m isl (body x)"
    and s: "ready s" "reads cx s" "tokens_left s < m" "tokens_left s < n"
  shows "case iterate n body x s of None \<Rightarrow> False | Some (Inl e) \<Rightarrow> located cx e | Some (Inr (y, s')) \<Rightarrow> follows False s s'"
  using s
proof (induction n arbitrary: x s)
  case (Suc n)
  from body [of x] Suc.prems(1-3) show ?case
  proof (cases rule: any_advancesE)
    case (error e)
    then show ?thesis by (simp add: pbind_def)
  next
    case (result r s')
    show ?thesis
    proof (cases r)
      case (Inl y)
      with result have s': "follows True s s'" by simp
      with Suc.prems(2) have "reads cx s'" by (rule follows_reads)
      with s' Suc.prems Suc.IH [of s' y] show ?thesis
        by (auto simp: result Inl pbind_def follows_def split: option.splits sum.splits)
    next
      case (Inr z)
      with result show ?thesis by (simp add: pbind_def pret_def)
    qed
  qed
qed simp

lemma advances_ploop [advances_intros]:
  assumes "\<And>x. advances cx any_kind m isl (body x)"
  shows "advances cx P m keeping (ploop body x)"
proof (rule advancesI)
  fix s assume s: "ready s" "reads cx s" "tokens_left s < m"
  then have "tokens_left s < Suc (length (prs_tokens s))" by (simp add: tokens_left_def)
  from advances_iterate [where body = body and x = x, OF assms s this]
  show "case ploop body x s of None \<Rightarrow> False | Some (Inl e) \<Rightarrow> located cx e | Some (Inr (y, s')) \<Rightarrow> follows False s s'"
    by (simp add: ploop_def)
qed

lemma advances_ploop_bind [advances_intros]:
  assumes "\<And>x. advances cx any_kind m isl (body x)" "\<And>x. advances cx any_kind m D (k x)"
  shows "advances cx P m D (pbind (ploop body x) k)"
  by (rule advances_keep [OF advances_ploop]) (rule assms)+

lemma advances_consume_newline [advances_intros]: "advances cx P m keeping consume_newline"
  unfolding consume_newline_def by (intro advances_intros) auto

lemma advances_skip_newlines [advances_intros]: "advances cx P m keeping skip_newlines"
  unfolding skip_newlines_def by (intro advances_intros)

lemma advances_expect_newline: "advances cx P m keeping (expect_newline message)"
  unfolding expect_newline_def by (intro advances_intros) auto

lemma advances_newline_then [advances_intros]:
  "advances cx any_kind m D q \<Longrightarrow> advances cx P m D (pthen skip_newlines q)"
  "advances cx any_kind m D q \<Longrightarrow> advances cx P m D (pthen consume_newline q)"
  "advances cx any_kind m D q \<Longrightarrow> advances cx P m D (pthen (expect_newline message) q)"
  by (auto intro: advances_then_keep advances_intros advances_expect_newline)

lemma advances_pwhen_then [advances_intros]:
  "advances cx P m keeping p \<Longrightarrow> advances cx any_kind m D q \<Longrightarrow> advances cx P m D (pthen (pwhen b p) q)"
  by (rule advances_then_keep) (auto simp: pwhen_def intro: advances_intros)

section \<open>Paths and types\<close>

lemma advances_dot_separator_bind [advances_intros]:
  "(\<And>b. advances cx any_kind m D (k b)) \<Longrightarrow> advances cx P m D (pbind consume_dot_path_separator k)"
  by (rule advances_keep) (auto simp: consume_dot_path_separator_def intro!: advances_intros)

lemma advances_path_segment_bind [advances_intros]:
  assumes "\<And>x. advances cx any_kind (m - 1) keeping (k x)"
  shows "advances cx P m D (pbind expect_path_segment_after_dot k)"
proof (rule advances_after [OF _ assms])
  show "advances cx P m consuming expect_path_segment_after_dot"
    unfolding expect_path_segment_after_dot_def
    by (intro advances_intros) (auto intro!: advances_intros split: token_kind.split keyword.split)
qed

lemma advances_advance_then_keep:
  "advances cx any_kind m D q \<Longrightarrow> advances cx P m D (pthen advance_token q)"
  by (rule advances_then_keep [OF advances_advance_keep])

lemma advances_parse_path: "advances cx P m consuming parse_path"
  unfolding parse_path_def by (intro advances_intros advances_advance_then_keep) auto

lemma advances_parse_import_path: "advances cx P m consuming parse_import_path"
  unfolding parse_import_path_def by (intro advances_intros advances_advance_then_keep) auto

lemma advances_path_bind [advances_intros]:
  "(\<And>x. advances cx any_kind (m - 1) keeping (k x)) \<Longrightarrow> advances cx P m D (pbind parse_path k)"
  "(\<And>x. advances cx any_kind (m - 1) keeping (k x)) \<Longrightarrow> advances cx P m D (pbind parse_import_path k)"
  by (rule advances_after [OF advances_parse_path] advances_after [OF advances_parse_import_path], assumption)+

text \<open>A nested method that consumes a token, with enough fuel for \<open>k\<close> tokens.\<close>

lemma advances_nested:
  assumes "advances cx any_kind k consuming p"
  shows "m \<le> k \<Longrightarrow> advances cx P m D p"
    and "m \<le> k \<Longrightarrow> (\<And>x. advances cx any_kind (m - 1) keeping (q x)) \<Longrightarrow> advances cx P m E (pbind p q)"
proof -
  show p: "advances cx P m D p" if "m \<le> k" for D
    using assms that by (rule advances_weaken) simp_all
  show "advances cx P m E (pbind p q)" if "m \<le> k" "\<And>x. advances cx any_kind (m - 1) keeping (q x)"
    by (rule advances_after [OF p]) (rule that)+
qed

lemma advances_callback_params:
  assumes "advances cx any_kind k consuming pt" "m \<le> k"
  shows "advances cx P m keeping (callback_params pt code message)"
  unfolding callback_params_def using assms(2)
  by (intro advances_intros advances_nested [OF assms(1)]) auto

lemma advances_type_args_with:
  assumes "advances cx any_kind k consuming pt" "m \<le> Suc k"
  shows "advances cx P m keeping (parse_type_args_with pt)"
  unfolding parse_type_args_with_def type_args_step_def using assms(2)
  by (intro advances_intros advances_nested [OF assms(1)]) auto

lemma advances_callbacks:
  assumes "advances cx any_kind k consuming pt" "m \<le> Suc k"
  shows "advances cx P m D (parse_extern_c_callback_type_ref pt)"
    and "advances cx (\<lambda>k. k = Ident ''task'') m D (parse_task_callback_type_ref pt)"
  unfolding parse_extern_c_callback_type_ref_def parse_task_callback_type_ref_def using assms(2)
  by (intro advances_intros advances_nested [OF assms(1)] advances_keep [OF advances_callback_params [OF assms(1)]]
      advances_then_keep [OF advances_if]; force)+

lemma advances_parse_type_ref_fuel: "advances cx P n consuming (parse_type_ref_fuel n)"
proof (induction n arbitrary: P)
  case 0
  show ?case by (simp add: advances_def)
next
  case (Suc n)
  note nested = advances_callbacks [OF Suc.IH, of "Suc n"] advances_type_args_with [OF Suc.IH]
  show ?case
    by (simp, intro advances_intros)
      (auto intro!: advances_intros nested advances_keep [OF nested(3)] simp: all_conj_distrib)
qed

lemma advances_parse_type_ref: "advances cx P m consuming parse_type_ref"
proof (rule advancesI)
  fix s assume s: "ready s" "reads cx s" "P (cur_kind s)"
  have "tokens_left s < Suc (length (prs_tokens s))" by (simp add: tokens_left_def)
  with advances_parse_type_ref_fuel s
  show "case parse_type_ref s of None \<Rightarrow> False | Some (Inl e) \<Rightarrow> located cx e | Some (Inr (x, s')) \<Rightarrow> follows True s s'"
    unfolding parse_type_ref_def advances_def by blast
qed

lemma advances_parse_type_args: "advances cx P m keeping parse_type_args"
  unfolding parse_type_args_def by (rule advances_type_args_with [OF advances_parse_type_ref]) (rule le_SucI, rule le_refl)

lemma advances_type_bind [advances_intros]:
  "advances cx P m D parse_type_ref"
  "(\<And>x. advances cx any_kind (m - 1) keeping (k x)) \<Longrightarrow> advances cx P m E (pbind parse_type_ref k)"
  "(\<And>x. advances cx any_kind m F (l x)) \<Longrightarrow> advances cx P m F (pbind parse_type_args l)"
  by (rule advances_weaken [OF advances_parse_type_ref], rule le_refl, assumption, simp)
    (rule advances_after [OF advances_parse_type_ref] advances_keep [OF advances_parse_type_args], assumption)+

section \<open>Expressions\<close>

lemma advances_binary_level:
  assumes "\<And>P m. m \<le> k \<Longrightarrow> advances cx P m consuming operand"
    and "\<And>t op. operator t = Some op \<Longrightarrow> t \<noteq> Eof" "m \<le> k"
  shows "advances cx P m consuming (binary_level operator skips operand)"
  unfolding binary_level_def
  by (rule advances_after [OF assms(1) [OF assms(3)]], intro advances_intros)
    (use assms(2,3) in \<open>auto intro!: advances_intros advances_after assms(1)\<close>)

lemma operator_not_eof:
  "logical_or_op t = Some op \<Longrightarrow> t \<noteq> Eof" "logical_and_op t = Some op \<Longrightarrow> t \<noteq> Eof"
  "equality_op t = Some op \<Longrightarrow> t \<noteq> Eof" "comparison_op t = Some op \<Longrightarrow> t \<noteq> Eof"
  "additive_op t = Some op \<Longrightarrow> t \<noteq> Eof" "multiplicative_op t = Some op \<Longrightarrow> t \<noteq> Eof"
  by (auto simp: logical_or_op_def logical_and_op_def equality_op_def comparison_op_def additive_op_def
      multiplicative_op_def)

lemma advances_logical_or:
  assumes "\<And>P m. m \<le> k \<Longrightarrow> advances cx P m consuming unary" "m \<le> k"
  shows "advances cx P m consuming (parse_logical_or_expr unary)"
proof -
  have cast: "advances cx P m consuming (parse_cast_expr unary)" if "m \<le> k" for P m
    unfolding parse_cast_expr_def
    by (rule advances_after [OF assms(1) [OF that]], intro advances_intros) auto
  have "advances cx P m consuming (parse_multiplicative_expr unary)" if "m \<le> k" for P m
    unfolding parse_multiplicative_expr_def by (rule advances_binary_level [OF cast operator_not_eof(6) that])
  then have "advances cx P m consuming (parse_additive_expr unary)" if "m \<le> k" for P m
    unfolding parse_additive_expr_def by (rule advances_binary_level [OF _ operator_not_eof(5) that])
  then have "advances cx P m consuming (parse_comparison_expr unary)" if "m \<le> k" for P m
    unfolding parse_comparison_expr_def by (rule advances_binary_level [OF _ operator_not_eof(4) that])
  then have "advances cx P m consuming (parse_equality_expr unary)" if "m \<le> k" for P m
    unfolding parse_equality_expr_def by (rule advances_binary_level [OF _ operator_not_eof(3) that])
  then have "advances cx P m consuming (parse_logical_and_expr unary)" if "m \<le> k" for P m
    unfolding parse_logical_and_expr_def by (rule advances_binary_level [OF _ operator_not_eof(2) that])
  then show ?thesis
    unfolding parse_logical_or_expr_def by (rule advances_binary_level [OF _ operator_not_eof(1) assms(2)])
qed

lemma advances_without_struct_literals:
  assumes "advances cx any_kind k consuming p" "m \<le> k"
  shows "advances cx P m consuming (without_struct_literals p)"
  unfolding without_struct_literals_def using assms(2)
  by (intro advances_intros advances_nested [OF assms(1)]) auto

lemma advances_match_binding_bind [advances_intros]:
  "(\<And>x. advances cx any_kind m D (k x)) \<Longrightarrow> advances cx P m D (pbind parse_match_binding k)"
  by (rule advances_keep) (auto simp: parse_match_binding_def intro!: advances_intros)

lemma advances_match_pattern_bind [advances_intros]:
  "(\<And>x. advances cx any_kind (m - 1) keeping (k x)) \<Longrightarrow> advances cx P m D (pbind parse_match_pattern k)"
  by (rule advances_after) (auto simp: parse_match_pattern_def intro!: advances_intros)

lemma advances_loop_or_empty [advances_intros]:
  assumes "\<And>x. advances cx any_kind m isl (body x)" "\<And>x. advances cx any_kind m D (k x)"
  shows "advances cx P m D (pbind (if b then pret x else ploop body y) k)"
  using assms by (intro advances_keep advances_intros) auto

text \<open>The methods that call \<open>parse_expr\<close> after a token.\<close>

lemma advances_struct_field:
  assumes "advances cx any_kind k consuming pe" "m \<le> Suc k"
  shows "advances cx P m consuming (parse_struct_field pe)"
  unfolding parse_struct_field_def using assms(2)
  by (intro advances_intros advances_nested [OF assms(1)]) auto

lemma advances_nested_exprs:
  assumes pe: "advances cx any_kind k consuming pe" and m: "m \<le> Suc k"
  shows advances_array_literal: "advances cx P m consuming (parse_array_literal pe)"
    and advances_panic_expr: "advances cx P m consuming (parse_panic_expr pe)"
    and advances_struct_literal: "advances cx P m consuming (parse_struct_literal pe type_name)"
    and advances_expr_block: "advances cx P m consuming (parse_expr_block pe open_code open_message)"
    and advances_parenthesized: "advances cx (\<lambda>k. k = Punct PLParen) m consuming (parse_parenthesized pe)"
  unfolding parse_array_literal_def parse_panic_expr_def parse_struct_literal_def parse_expr_block_def
    parse_parenthesized_def
  using m by (intro advances_intros advances_nested [OF pe] advances_after [OF advances_struct_field [OF pe]]; force)+

lemma advances_if_expr:
  assumes "advances cx any_kind k consuming pe" "m \<le> Suc k"
  shows "advances cx P m consuming (parse_if_expr pe)"
  unfolding parse_if_expr_def using assms(2)
  by (intro advances_intros advances_after [OF advances_without_struct_literals [OF assms(1)]]
      advances_after [OF advances_expr_block [OF assms(1)]]) auto

lemma advances_match_expr:
  assumes "advances cx any_kind k consuming pe" "m \<le> Suc k"
  shows "advances cx P m consuming (parse_match_expr pe)"
proof -
  have arm: "advances cx P m consuming (parse_match_expr_arm pe)" if "m \<le> Suc k" for P m
    unfolding parse_match_expr_arm_def using that
    by (intro advances_intros advances_nested [OF assms(1)]) auto
  show ?thesis
    unfolding parse_match_expr_def using assms(2)
    by (intro advances_intros advances_after [OF advances_without_struct_literals [OF assms(1)]]
        advances_after [OF arm]) auto
qed

lemma advances_call_args:
  assumes "advances cx any_kind k consuming pe" "m \<le> k"
  shows "advances cx P m keeping (parse_call_args pe)"
proof -
  have arg: "advances cx P m consuming (parse_call_arg pe)" if "m \<le> k" for P m
    unfolding parse_call_arg_def using that
    by (intro advances_intros advances_nested(1) [OF assms(1)]) auto
  show ?thesis
    unfolding parse_call_args_def using assms(2)
    by (intro advances_intros advances_keep [OF advances_if] advances_after [OF arg]) auto
qed

lemma advances_call_type_args_bind [advances_intros]:
  "(\<And>b. advances cx any_kind m D (k b)) \<Longrightarrow> advances cx P m D (pbind next_tokens_are_call_type_args k)"
  by (rule advances_keep) (auto simp: next_tokens_are_call_type_args_def advances_def pbind_def peek_kind_ready
      pret_def pread_def follows_refl)

lemma advances_name_or_call:
  assumes pe: "advances cx any_kind k consuming pe" and pn: "advances cx any_kind k consuming pn" and m: "m \<le> Suc k"
  shows "advances cx P m consuming (parse_name_or_call_with pe pn)"
proof -
  have call: "advances cx P m keeping (parse_call pe pn path)" if "m \<le> k" for P m path
    unfolding parse_call_def using that
    by (intro advances_intros advances_keep [OF advances_if] advances_keep [OF advances_call_args [OF pe]]
        advances_nested [OF pn]) (auto intro!: advances_intros advances_parse_type_args)
  show ?thesis
    unfolding parse_name_or_call_with_def using m
    by (intro advances_intros call advances_nested(1) [OF advances_struct_literal [OF pe]]) auto
qed

lemma advances_primary:
  assumes pe: "advances cx any_kind k consuming pe" and pn: "advances cx any_kind j consuming pn" and m: "m \<le> Suc k" "m \<le> j"
  shows "advances cx P m consuming (parse_primary_expr pe pn)"
  unfolding parse_primary_expr_def
proof (rule advances_peek_kind)
  fix t assume "P t"
  note nested = advances_if_expr [OF pe m(1)] advances_match_expr [OF pe m(1)] advances_panic_expr [OF pe m(1)]
    advances_array_literal [OF pe m(1)]
  show "advances cx (\<lambda>k. k = t) m consuming (case t of
       StringLit v \<Rightarrow> pthen advance_token (pret (XString v))
     | IntLit v \<Rightarrow> pthen advance_token (pret (XInt v))
     | FloatLit v \<Rightarrow> pthen advance_token (pret (XFloat v))
     | CharLit v \<Rightarrow> pthen advance_token (pret (XChar v))
     | Ident _ \<Rightarrow> pn
     | Keyword w \<Rightarrow>
         if w = KwTrue then pthen advance_token (pret (XBool True))
         else if w = KwFalse then pthen advance_token (pret (XBool False))
         else if w = KwVoid then pthen advance_token (pret XVoid)
         else if w = KwIf then parse_if_expr pe
         else if w = KwMatch then parse_match_expr pe
         else if w = KwPanic then parse_panic_expr pe
         else unexpected ''E0208'' ''expected expression''
     | Punct p \<Rightarrow>
         if p = PLParen then parse_parenthesized pe
         else if p = PLBracket then parse_array_literal pe
         else unexpected ''E0208'' ''expected expression''
     | _ \<Rightarrow> unexpected ''E0208'' ''expected expression'')"
  proof (cases t)
    case (Ident v)
    then show ?thesis using m by (auto intro: advances_nested(1) [OF pn])
  next
    case (Punct p)
    then show ?thesis
      by (auto intro!: advances_intros nested advances_weaken [OF advances_parenthesized [OF pe m(1)]])
  qed (auto intro!: advances_intros nested)
qed

lemma advances_postfix:
  assumes pe: "advances cx any_kind k consuming pe" and pn: "advances cx any_kind j consuming pn" and m: "m \<le> Suc k" "m \<le> j"
  shows "advances cx P m consuming (parse_postfix_expr pe pn)"
  unfolding parse_postfix_expr_def
  by (rule advances_after [OF advances_primary [OF pe pn m]], intro advances_intros advances_nested [OF pe])
    (use m in auto)

text \<open>Three units of fuel for a token.\<close>

lemma advances_expr_fuel:
  "advances cx any_kind (n div 3) consuming (parse_expr_fuel n)"
  "advances cx any_kind ((n + 1) div 3) consuming (parse_unary_expr_fuel n)"
  "advances cx any_kind ((n + 2) div 3) consuming (parse_name_or_call_fuel n)"
proof (induction n)
  case 0
  {
    case 1 show ?case by (simp add: advances_def)
  next
    case 2 show ?case by (simp add: advances_def)
  next
    case 3 show ?case by (simp add: advances_def)
  }
next
  case (Suc n)
  note IH = Suc.IH
  {
    case 1
    have "advances cx P m consuming (parse_unary_expr_fuel n)" if "m \<le> (n + 1) div 3" for P m
      by (rule advances_nested(1) [OF IH(2) that])
    from advances_logical_or [OF this, of "(n + 1) div 3"] show ?case by simp
  next
    case 2
    have post: "advances cx P ((n + 2) div 3) consuming (parse_postfix_expr (parse_expr_fuel n) (parse_name_or_call_fuel n))"
      for P by (rule advances_postfix [OF IH(1,3)]) simp_all
    show ?case
      by (simp, intro advances_intros advances_nested [OF IH(2)]) (use post in auto)
  next
    case 3
    have "advances cx any_kind (n div 3) consuming (parse_name_or_call_fuel n)"
      by (rule advances_nested(1) [OF IH(3)]) simp
    moreover have "(Suc n + 2) div 3 = Suc (n div 3)" by simp
    ultimately show ?case
      unfolding parse_name_or_call_fuel.simps by (intro advances_name_or_call [OF IH(1)]) simp_all
  }
qed

lemma advances_parse_expr: "advances cx P m consuming parse_expr"
proof (rule advancesI)
  fix s assume s: "ready s" "reads cx s" "P (cur_kind s)"
  then have "prs_index s < length (prs_tokens s)" by (simp add: ready_def)
  then have "tokens_left s < 3 * length (prs_tokens s) div 3" by (simp add: tokens_left_def)
  with advances_expr_fuel(1) [where n = "3 * length (prs_tokens s)"] s(1,2)
  show "case parse_expr s of None \<Rightarrow> False | Some (Inl e) \<Rightarrow> located cx e | Some (Inr (x, s')) \<Rightarrow> follows True s s'"
    unfolding parse_expr_def advances_def by blast
qed

lemma advances_parse_expr_no_struct_literals: "advances cx P m consuming parse_expr_no_struct_literals"
  unfolding parse_expr_no_struct_literals_def
  by (rule advances_without_struct_literals [OF advances_parse_expr]) (rule le_refl)

lemma advances_expr_bind [advances_intros]:
  "(\<And>x. advances cx any_kind (m - 1) keeping (k x)) \<Longrightarrow> advances cx P m D (pbind parse_expr k)"
  "(\<And>x. advances cx any_kind (m - 1) keeping (k x)) \<Longrightarrow> advances cx P m D (pbind parse_expr_no_struct_literals k)"
  by (rule advances_after [OF advances_parse_expr] advances_after [OF advances_parse_expr_no_struct_literals], assumption)+

end
