(* ===== verification/Parser_Total.thy ===== *)
theory Parser_Total
  imports Parser_Moves
begin

text \<open>
  The parser returns on the tokens of the lexer, whatever they are: statements, declarations and source
  files move over the tokens like the methods of \<open>Parser_Moves\<close>, so that neither a loop nor the fuel of the
  model runs out.
\<close>

section \<open>Statements\<close>

lemma advances_type_annotation_bind [advances_intros]:
  "(\<And>x. advances cx any_kind m D (k x)) \<Longrightarrow> advances cx P m D (pbind parse_type_annotation k)"
  by (rule advances_keep) (auto simp: parse_type_annotation_def intro!: advances_intros)

lemma advances_starts_index_assignment_bind [advances_intros]:
  assumes "\<And>b. advances cx P m D (k b)"
  shows "advances cx P m D (pbind starts_index_assignment k)"
proof (rule advancesI)
  fix s assume s: "ready s" "reads cx s" "tokens_left s < m" "P (cur_kind s)"
  then have "\<exists>b. starts_index_assignment s = Some (Inr (b, s))"
    by (auto simp: starts_index_assignment_def pbind_def peek_kind_ready peek_n_def token_at_def pret_def
        pread_def dest: ready_nonempty)
  with assms s show "case pbind starts_index_assignment k s of None \<Rightarrow> False | Some (Inl e) \<Rightarrow> located cx e
      | Some (Inr (x, s')) \<Rightarrow> follows (D x) s s'"
    by (auto simp: pbind_def advances_def)
qed

lemma advances_assignments:
  shows advances_index_assign: "advances cx P m consuming (parse_index_assign_stmt t)"
    and advances_assign: "advances cx P m consuming (parse_assign_stmt t)"
    and advances_postfix_stmt: "advances cx P m consuming (parse_postfix_stmt t)"
    and advances_return: "advances cx P m consuming (parse_return_stmt t)"
  unfolding parse_index_assign_stmt_def parse_assign_stmt_def parse_postfix_stmt_def parse_return_stmt_def
  by (intro advances_intros; force split: list.split simp: assign_op_from_token_def postfix_op_from_token_def
      intro!: advances_intros)+

lemma advances_stmt_block:
  assumes "advances cx any_kind k consuming ps" "m \<le> Suc k"
  shows "advances cx P m consuming (parse_stmt_block ps open_code open_message)"
  unfolding parse_stmt_block_def using assms(2)
  by (intro advances_intros advances_nested [OF assms(1)]) auto

lemma advances_block_bind:
  assumes "advances cx any_kind k consuming ps" "m \<le> Suc k" "\<And>x. advances cx any_kind (m - 1) keeping (q x)"
  shows "advances cx P m D (pbind (parse_stmt_block ps open_code open_message) q)"
  by (rule advances_after [OF advances_stmt_block [OF assms(1,2)] assms(3)])

lemma advances_let_stmt:
  assumes ps: "advances cx any_kind k consuming ps" and m: "m \<le> Suc k"
  shows "advances cx P m consuming (parse_let_stmt ps t)"
proof -
  have let_else: "advances cx P i keeping (parse_let_else ps t name_token path)"
    if "i \<le> k" "name_token \<in> set (snd cx)" for P i name_token path
    unfolding parse_let_else_def using that
    by (intro advances_intros advances_block_bind [OF ps]) auto
  show ?thesis
    unfolding parse_let_stmt_def using m
    by (intro advances_intros let_else; (simp split: list.split)?; intro allI impI conjI advances_intros; simp?)
qed

lemma advances_if_let_stmt:
  assumes ps: "advances cx any_kind k consuming ps" and m: "m \<le> Suc k"
  shows "advances cx P m consuming (parse_if_let_stmt ps t)"
proof -
  have else_body: "advances cx P i keeping (if b then pthen advance_token (pbind (parse_stmt_block ps c d)
      (\<lambda>body. pret (Some body))) else pret None)" if "i \<le> k" "b \<Longrightarrow> (\<And>k. P k \<Longrightarrow> k \<noteq> Eof)" for P i b c d
    using that by (intro advances_intros advances_block_bind [OF ps]) auto
  show ?thesis
    unfolding parse_if_let_stmt_def using m
    by (intro advances_intros advances_block_bind [OF ps] advances_keep [OF else_body]) auto
qed

lemma advances_for_stmt:
  assumes ps: "advances cx any_kind k consuming ps" and m: "m \<le> Suc k"
  shows "advances cx P m consuming (parse_for_stmt ps t)"
proof -
  have iterate: "advances cx P i keeping (parse_for_iterate ps)"
    and while: "advances cx P i keeping (parse_for_while ps)" if "i \<le> k" for P i
    unfolding parse_for_iterate_def parse_for_while_def using that
    by (intro advances_intros advances_block_bind [OF ps]; simp)+
  have c_style: "advances cx (\<lambda>k. k = Keyword KwLet) i keeping (parse_for_c_style ps)" if "i \<le> k" for i
    unfolding parse_for_c_style_def using that
    by (intro advances_intros advances_nested(2) [OF ps] advances_block_bind [OF ps]) auto
  have variant: "advances cx (\<lambda>k'. k' = t) i keeping
     (if t = Punct PLBrace then pbind (parse_stmt_block ps c d) (\<lambda>body. pret (ForInfinite body))
      else if is_ident t \<and> tok_kind t1 = Keyword KwIn then parse_for_iterate ps
      else if t = Keyword KwLet then parse_for_c_style ps
      else parse_for_while ps)" if "i \<le> k" for i t t1 c d
    using that iterate while c_style
    by (intro advances_intros advances_block_bind [OF ps]) (auto intro: advances_weaken)
  show ?thesis
    unfolding parse_for_stmt_def using m
    by (intro advances_intros advances_keep [OF variant]) auto
qed

lemma advances_matches:
  assumes ps: "advances cx any_kind k consuming ps" and m: "m \<le> Suc k" and t: "t \<in> set (snd cx)"
  shows advances_match_stmt: "advances cx P m consuming (parse_match_stmt ps t)"
    and advances_task_select: "advances cx P m consuming (parse_task_select_stmt ps t)"
proof -
  have arm: "advances cx P i consuming (parse_match_stmt_arm ps)"
    and select: "advances cx P i consuming (parse_select_arm ps)" if "i \<le> Suc k" for P i
    unfolding parse_match_stmt_arm_def parse_select_arm_def using that
    by (intro advances_intros advances_block_bind [OF ps]; simp)+
  show "advances cx P m consuming (parse_match_stmt ps t)"
    unfolding parse_match_stmt_def using m
    by (intro advances_intros advances_after [OF arm]) auto
  show "advances cx P m consuming (parse_task_select_stmt ps t)"
    unfolding parse_task_select_stmt_def task_operation_def using m t
    by (intro advances_intros advances_then_after advances_after [OF select]) auto
qed

lemma advances_other_stmts:
  assumes ps: "advances cx any_kind k consuming ps" and m: "m \<le> Suc k" and t: "t \<in> set (snd cx)"
  shows advances_task_scope: "advances cx P m consuming (parse_task_scope_stmt ps t)"
    and advances_task_deadline: "advances cx P m consuming (parse_task_deadline_stmt ps t)"
    and advances_defer: "advances cx P m consuming (parse_defer_stmt ps t)"
    and advances_unsafe: "advances cx P m consuming (parse_unsafe_stmt ps t)"
proof -
  have operation: "advances cx P i consuming (task_operation code message)" for P i code message
    unfolding task_operation_def by (intro advances_intros) auto
  show "advances cx P m consuming (parse_task_scope_stmt ps t)"
    unfolding parse_task_scope_stmt_def using m
    by (intro advances_then_after [OF operation] advances_intros advances_block_bind [OF ps]) auto
  show "advances cx P m consuming (parse_task_deadline_stmt ps t)"
    unfolding parse_task_deadline_stmt_def using m
    by (intro advances_then_after [OF operation] advances_intros advances_block_bind [OF ps]) auto
  show "advances cx P m consuming (parse_defer_stmt ps t)" "advances cx P m consuming (parse_unsafe_stmt ps t)"
    unfolding parse_defer_stmt_def parse_unsafe_stmt_def using m t
    by (intro advances_intros advances_nested(2) [OF ps] advances_block_bind [OF ps]; simp)+
qed

lemma advances_parse_stmt_fuel: "advances cx P n consuming (parse_stmt_fuel n)"
proof (induction n arbitrary: P)
  case 0
  show ?case by (simp add: advances_def)
next
  case (Suc n)
  note advances_stmts = advances_let_stmt [OF Suc.IH] advances_if_let_stmt [OF Suc.IH] advances_for_stmt [OF Suc.IH]
    advances_matches [OF Suc.IH] advances_other_stmts [OF Suc.IH] advances_assignments
  show ?case
    by (simp add: parse_stmt_with_def, intro advances_intros advances_stmts) auto
qed

lemma advances_parse_stmt: "advances cx P m consuming parse_stmt"
proof (rule advancesI)
  fix s assume s: "ready s" "reads cx s" "P (cur_kind s)"
  then have "prs_index s < length (prs_tokens s)" by (simp add: ready_def)
  then have "tokens_left s < length (prs_tokens s)" by (simp add: tokens_left_def)
  with advances_parse_stmt_fuel s
  show "case parse_stmt s of None \<Rightarrow> False | Some (Inl e) \<Rightarrow> located cx e | Some (Inr (x, s')) \<Rightarrow> follows True s s'"
    unfolding parse_stmt_def advances_def by blast
qed

lemma advances_stmt_bind [advances_intros]:
  "(\<And>x. advances cx any_kind (m - 1) keeping (k x)) \<Longrightarrow> advances cx P m D (pbind parse_stmt k)"
  by (rule advances_after [OF advances_parse_stmt])

section \<open>Declarations\<close>

lemma advances_attributes_bind [advances_intros]:
  assumes "\<And>x. advances cx any_kind m D (k x)"
  shows "advances cx P m D (pbind parse_declaration_attributes k)"
proof -
  have attribute: "advances cx P i consuming (parse_attribute t attributes)" if "t \<in> set (snd cx)" for P i t attributes
    unfolding parse_attribute_def using that by (intro advances_intros) auto
  have "advances cx P m keeping parse_declaration_attributes"
    unfolding parse_declaration_attributes_def
    by (intro advances_intros advances_after [OF attribute]) auto
  then show ?thesis by (rule advances_keep) (rule assms)
qed

lemma advances_type_params_bind [advances_intros]:
  assumes "\<And>x. advances cx any_kind m D (k x)"
  shows "advances cx P m D (pbind (parse_type_params b) k)"
proof (rule advances_keep [OF _ assms])
  have bounds: "advances cx P i keeping (if c then (if \<not> b then unexpected code message
      else pthen advance_token (pbind parse_type_ref (\<lambda>t. pret (f t)))) else pret y)" for P i c f y code message
    by (intro advances_intros advances_then_keep [OF advances_advance_keep]) auto
  have "advances cx P i isl (type_params_step b x)" for P i x
    unfolding type_params_step_def by (intro advances_intros advances_keep [OF bounds]) auto
  then show "advances cx P m keeping (parse_type_params b)"
    unfolding parse_type_params_def by (intro advances_intros) auto
qed

lemma advances_params_bind [advances_intros]:
  assumes "\<And>x. advances cx any_kind m D (k x)"
  shows "advances cx P m D (pbind (parse_params_with_bare_self b) k)"
proof (rule advances_keep [OF _ assms])
  have type: "advances cx P i keeping (param_type b name)" for P i name
    unfolding param_type_def by (intro advances_intros) auto
  have "advances cx P i isl (params_step b x)" for P i x
    unfolding params_step_def by (intro advances_intros advances_keep [OF type]) auto
  then show "advances cx P m keeping (parse_params_with_bare_self b)"
    unfolding parse_params_with_bare_self_def by (intro advances_intros) auto
qed

lemma advances_return_type_bind [advances_intros]:
  "(\<And>x. advances cx any_kind m D (k x)) \<Longrightarrow> advances cx P m D (pbind parse_return_type k)"
  by (auto simp: parse_return_type_def intro!: advances_keep advances_intros)

lemma advances_consume_keyword_bind [advances_intros]:
  "(\<And>b. advances cx any_kind m D (k b)) \<Longrightarrow> advances cx P m D (pbind (consume_keyword w) k)"
  by (auto simp: consume_keyword_def intro!: advances_keep advances_intros)

lemma advances_consume_pub_bind [advances_intros]:
  "(\<And>b. advances cx any_kind m D (k b)) \<Longrightarrow> advances cx P m D (pbind consume_pub k)"
  unfolding consume_pub_def by (rule advances_consume_keyword_bind)

lemma advances_function_name_bind [advances_intros]:
  assumes "\<And>x. advances cx any_kind (m - 1) keeping (k x)"
  shows "advances cx P m D (pbind expect_function_name k)"
proof (rule advances_after [OF _ assms])
  show "advances cx P m consuming expect_function_name"
    unfolding expect_function_name_def
    by (intro advances_intros) (auto intro!: advances_intros split: token_kind.split keyword.split)
qed

lemma advances_members_bind:
  assumes "\<And>P i. advances cx P i consuming member" "\<And>x. advances cx any_kind m D (k x)"
  shows "advances cx P m D (pbind (members_loop code message member) k)"
  unfolding members_loop_def
  by (intro advances_intros advances_after [OF assms(1)] assms(2)) auto

lemma advances_function: "advances cx P m consuming (parse_function public is_test)"
proof -
  have member: "advances cx P i consuming
      (pbind parse_stmt (\<lambda>st. pthen (expect_newline message) (pret st)))" for P i message
    by (intro advances_intros) auto
  show ?thesis
    unfolding parse_function_def parse_params_def
    by (intro advances_intros advances_members_bind [OF member]) auto
qed

lemma advances_signatures:
  "advances cx P m consuming parse_interface_method_signature"
  "advances cx P m consuming parse_extern_function_signature"
proof -
  have signature: "advances cx P i consuming (parse_function_signature a b c d e f)" for P i a b c d e f
    unfolding parse_function_signature_def by (intro advances_intros) auto
  show "advances cx P m consuming parse_interface_method_signature"
    "advances cx P m consuming parse_extern_function_signature"
    unfolding parse_interface_method_signature_def parse_extern_function_signature_def
    by (intro advances_after [OF signature] advances_intros; simp)+
qed

lemma advances_enum: "advances cx P m consuming (parse_enum public)"
proof -
  have payload: "advances cx P i keeping (if b then pthen advance_token (pbind parse_type_ref (\<lambda>p.
      pthen (expect_kind (Punct PRParen) c d) (pret (Some p)))) else pret None)" for P i b c d
    by (intro advances_intros advances_then_keep [OF advances_advance_keep]) auto
  have member: "advances cx P i consuming parse_enum_variant" for P i
    unfolding parse_enum_variant_def by (intro advances_intros advances_keep [OF payload]) auto
  show ?thesis
    unfolding parse_enum_def by (intro advances_intros advances_members_bind [OF member]) auto
qed

lemma advances_struct: "advances cx P m consuming (parse_struct public repr_c)"
proof -
  have member: "advances cx P i consuming parse_struct_def_field" for P i
    unfolding parse_struct_def_field_def by (intro advances_intros) auto
  show ?thesis
    unfolding parse_struct_def by (intro advances_intros advances_members_bind [OF member]) auto
qed

lemma advances_const: "advances cx P m consuming (parse_const public)"
  unfolding parse_const_def by (intro advances_intros) auto

lemma advances_interface: "advances cx P m consuming (parse_interface public)"
proof -
  have member: "advances cx P i consuming (pbind peek_kind (\<lambda>k.
      if k = Keyword KwFn \<or> k = Keyword KwSuspend then parse_interface_method_signature
      else unexpected code message))" for P i code message
    by (intro advances_intros advances_signatures)
  show ?thesis
    unfolding parse_interface_def by (intro advances_intros advances_members_bind [OF member]) auto
qed

lemma advances_extern_opaque_type: "advances cx P m consuming parse_extern_opaque_type"
proof -
  have release: "advances cx P i keeping (if b then pthen advance_token (pbind (expect_ident message)
      (\<lambda>release. pret (Some release))) else pret None)" for P i b message
    by (intro advances_intros advances_then_keep [OF advances_advance_keep]) auto
  show ?thesis
    unfolding parse_extern_opaque_type_def by (intro advances_intros advances_keep [OF release]) auto
qed

lemma advances_extern_block: "advances cx P m consuming parse_extern_block"
proof -
  have member: "advances cx P i consuming (pbind peek_kind (\<lambda>k.
      if k = Keyword KwFn then parse_extern_function_signature else unexpected code message))" for P i code message
    by (intro advances_intros advances_signatures)
  have abi: "advances cx P i keeping (if b then advance_token else error_here c d 1)" for P i b c d
    by (intro advances_intros)
  show ?thesis
    unfolding parse_extern_block_def
    by (intro advances_intros advances_then_keep [OF abi] advances_members_bind [OF member]) auto
qed

lemma advances_impl: "advances cx P m consuming parse_impl"
proof -
  have methods: "advances cx P i keeping impl_methods" for P i
    unfolding impl_methods_def by (intro advances_intros advances_after [OF advances_function]) auto
  have target: "advances cx P i keeping (if b then pthen advance_token (pbind parse_type_ref (\<lambda>t. pret (Some u, t)))
      else pret (None, u))" for P i b u
    by (intro advances_intros advances_then_keep [OF advances_advance_keep]) auto
  show ?thesis
    unfolding parse_impl_def
    by (intro advances_intros advances_keep [OF target] advances_keep [OF methods]) auto
qed

section \<open>Source files\<close>

lemma advances_declaration:
  "parse_declaration attributes public k sf = Some p \<Longrightarrow> advances cx P m consuming p"
  unfolding parse_declaration_def is_extern_opaque_type_def
  by (auto split: if_splits intro!: advances_after [OF advances_struct] advances_after [OF advances_enum]
      advances_after [OF advances_interface] advances_after [OF advances_extern_opaque_type]
      advances_after [OF advances_extern_block] advances_after [OF advances_impl] advances_after [OF advances_const]
      advances_after [OF advances_function] advances_keep advances_intros)

lemma advances_parse_item: "advances cx P m isl (parse_item x)"
  unfolding parse_item_def
  by (intro advances_intros) (auto intro!: advances_intros advances_after advances_declaration split: if_splits)

lemma advances_source_file: "advances cx P m consuming parse_source_file"
proof -
  have import_list: "advances cx P i keeping parse_imports" for P i
    unfolding parse_imports_def by (intro advances_intros) auto
  show ?thesis
    unfolding parse_source_file_def
    by (intro advances_intros advances_keep [OF import_list] advances_parse_item) auto
qed

lemma parse_tokens_moves:
  assumes "tokens \<noteq> []" "tok_kind (last tokens) = Eof"
  obtains (error) e where "parse_tokens path tokens = Some (Inl e)" "located (path, tokens) e"
    | (result) f where "parse_tokens path tokens = Some (Inr f)"
proof -
  have "ready (parser_new path tokens)" "reads (path, tokens) (parser_new path tokens)"
    using assms by (simp_all add: ready_def reads_def parser_new_def)
  from advances_source_file [where P = any_kind and m = "Suc (tokens_left (parser_new path tokens))"] this
  show thesis
    by (cases rule: any_advancesE) (auto simp: parse_tokens_def intro: error result)
qed

end
