(* ===== verification/Front_End.thy ===== *)
theory Front_End
  imports Lexer_Places Parser_Total
begin

text \<open>
  The front end of the compiler on any source text: the lexer and then the parser, as
  \<open>parser::parse\<close> is called by \<open>nomo_compiler\<close> with the tokens of \<open>lexer::lex\<close>. Both return, and what they
  report is at a place of the source.
\<close>

section \<open>Results and reports\<close>

lemma parse_tokens_reports:
  assumes "tokens_of source tokens"
  shows "case parse_tokens path tokens of
     None \<Rightarrow> False | Some (Inl e) \<Rightarrow> reported_in path source e | Some (Inr f) \<Rightarrow> True"
proof -
  from assms have "tokens \<noteq> []" "tok_kind (last tokens) = Eof" by (simp_all add: tokens_of_def)
  then show ?thesis
  proof (cases rule: parse_tokens_moves [where path = path])
    case (error e)
    with assms show ?thesis
      by (auto simp: located_def reported_in_def tokens_of_def list_all_iff token_in_def)
  qed auto
qed

text \<open>C5. The front end returns on every source: the lexer gives tokens or a diagnostic, and on the tokens
  of the lexer the parser gives a source file or a diagnostic; it neither panics nor runs without end.\<close>

theorem front_end_returns:
  "case lex path source of Inl e \<Rightarrow> True | Inr tokens \<Rightarrow> parse_tokens path tokens \<noteq> None"
  using lex_read [of path source]
  by (auto dest: parse_tokens_reports [where path = path] split: sum.splits option.splits)

text \<open>C6. Every diagnostic of the lexer and of the parser names the file that was given and a place of it:
  an existing line, the text of this line, and a column of it or the one after its end; or the end of the
  file.\<close>

theorem front_end_reports_in_source:
  "case lex path source of
     Inl e \<Rightarrow> reported_in path source e
   | Inr tokens \<Rightarrow> (case parse_tokens path tokens of
       Some (Inl e) \<Rightarrow> reported_in path source e | _ \<Rightarrow> True)"
  using lex_read [of path source]
  by (auto dest: parse_tokens_reports [where path = path] split: sum.splits option.splits)

text \<open>C7. The tokens of a source are where they say they are: each is on a line of the source, with the text
  of the line, and at its column is its whole spelling: a word or a number as long as it goes on, a literal with the
  characters and escapes of its value up to the closing quote, the longest punctuation. The tokens come in
  the order of the source and end with one end of file.\<close>

theorem lex_tokens_in_source:
  "case lex path source of Inl e \<Rightarrow> True | Inr tokens \<Rightarrow> tokens_of source tokens"
  using lex_read [of path source] by (auto split: sum.splits)

end
