(* ===== verification/Format_Text.thy ===== *)
theory Format_Text
  imports Syntax Lexer
begin

text \<open>
  The printer of types and expressions, \<open>crates/nomo_fmt/src/expr.rs\<close>. A \<open>char\<close> is the list of its UTF-8 bytes.
\<close>

section \<open>Paths, types and escapes\<close>

definition path_text :: "string list \<Rightarrow> string" where
  "path_text parts = join_text ''.'' parts"

fun type_ref_text :: "type_ref \<Rightarrow> string" where
  "type_ref_text (TypeRef p args) =
     (if p = [TASK_CALLBACK_TYPE_PATH] then
        if args = [] then ''task fn() -> void''
        else (let ts = map type_ref_text args
              in ''task fn('' @ join_text '', '' (butlast ts) @ '') -> '' @ last ts)
      else if args = [] then path_text p
      else path_text p @ ''<'' @ join_text '', '' (map type_ref_text args) @ ''>'')"

definition escaped :: "char \<Rightarrow> string \<Rightarrow> string" where
  "escaped quote ch =
     (if ch = [CHR 0x0A] then [backslash, CHR ''n'']
      else if ch = [CHR 0x0D] then [backslash, CHR ''r'']
      else if ch = [CHR 0x09] then [backslash, CHR ''t'']
      else if ch = [quote] then [backslash, quote]
      else if ch = [backslash] then [backslash, backslash]
      else ch)"

definition escape_string :: "string \<Rightarrow> string" where
  "escape_string v = concat (map (escaped (CHR 0x22)) (chars_of v))"

definition escape_char_literal :: "string \<Rightarrow> string" where
  "escape_char_literal ch = escaped (CHR 0x27) ch"

definition pattern_with_binding :: "string list \<Rightarrow> string option \<Rightarrow> string" where
  "pattern_with_binding p binding = (case binding of
       Some b \<Rightarrow> path_text p @ ''('' @ b @ '')''
     | None \<Rightarrow> path_text p)"

section \<open>Operators\<close>

fun binary_precedence :: "ast_binary_op \<Rightarrow> nat" where
  "binary_precedence BinLogicalOr = 1"
| "binary_precedence BinLogicalAnd = 2"
| "binary_precedence BinEqual = 3"
| "binary_precedence BinNotEqual = 3"
| "binary_precedence BinLess = 4"
| "binary_precedence BinLessEqual = 4"
| "binary_precedence BinGreater = 4"
| "binary_precedence BinGreaterEqual = 4"
| "binary_precedence BinAdd = 5"
| "binary_precedence BinSubtract = 5"
| "binary_precedence BinBitOr = 5"
| "binary_precedence BinBitXor = 5"
| "binary_precedence BinMultiply = 6"
| "binary_precedence BinDivide = 6"
| "binary_precedence BinRemainder = 6"
| "binary_precedence BinShiftLeft = 6"
| "binary_precedence BinShiftRight = 6"
| "binary_precedence BinBitAnd = 6"
| "binary_precedence BinBitAndNot = 6"

fun binary_op_text :: "ast_binary_op \<Rightarrow> string" where
  "binary_op_text BinLogicalOr = ''||''"
| "binary_op_text BinLogicalAnd = ''&&''"
| "binary_op_text BinAdd = ''+''"
| "binary_op_text BinSubtract = ''-''"
| "binary_op_text BinBitOr = ''|''"
| "binary_op_text BinBitXor = ''^''"
| "binary_op_text BinMultiply = ''*''"
| "binary_op_text BinDivide = ''/''"
| "binary_op_text BinRemainder = ''%''"
| "binary_op_text BinShiftLeft = ''<<''"
| "binary_op_text BinShiftRight = ''>>''"
| "binary_op_text BinBitAnd = ''&''"
| "binary_op_text BinBitAndNot = ''&^''"
| "binary_op_text BinEqual = ''==''"
| "binary_op_text BinNotEqual = ''!=''"
| "binary_op_text BinLess = ''<''"
| "binary_op_text BinLessEqual = ''<=''"
| "binary_op_text BinGreater = ''>''"
| "binary_op_text BinGreaterEqual = ''>=''"

fun unary_op_text :: "ast_unary_op \<Rightarrow> string" where
  "unary_op_text UnNot = ''!''"
| "unary_op_text UnNegate = ''-''"

fun assign_op_text :: "assign_op \<Rightarrow> string" where
  "assign_op_text AssignSet = ''=''"
| "assign_op_text AssignAdd = ''+=''"
| "assign_op_text AssignSubtract = ''-=''"
| "assign_op_text AssignMultiply = ''*=''"
| "assign_op_text AssignDivide = ''/=''"
| "assign_op_text AssignRemainder = ''%=''"
| "assign_op_text AssignShiftLeft = ''<<=''"
| "assign_op_text AssignShiftRight = ''>>=''"
| "assign_op_text AssignBitAnd = ''&=''"
| "assign_op_text AssignBitXor = ''^=''"
| "assign_op_text AssignBitOr = ''|=''"
| "assign_op_text AssignBitAndNot = ''&^=''"

fun postfix_op_text :: "postfix_op \<Rightarrow> string" where
  "postfix_op_text Increment = ''++''"
| "postfix_op_text Decrement = ''--''"

section \<open>Expressions\<close>

definition indentation :: "nat \<Rightarrow> string" where
  "indentation n = concat (replicate n ''    '')"

fun expr_precedence :: "expr \<Rightarrow> nat" where
  "expr_precedence (XIf _ _ _) = 0"
| "expr_precedence (XMatch _ _) = 0"
| "expr_precedence (XBinary _ op _) = binary_precedence op"
| "expr_precedence (XCast _ _) = 7"
| "expr_precedence (XUnary _ _) = 8"
| "expr_precedence (XQuestion _) = 9"
| "expr_precedence _ = 10"

text \<open>The precedence the right operand is printed with.\<close>

definition right_precedence :: "ast_binary_op \<Rightarrow> expr \<Rightarrow> nat" where
  "right_precedence op right = (case right of
       XBinary _ right_op _ \<Rightarrow>
         if binary_precedence right_op = binary_precedence op then binary_precedence op + 1
         else binary_precedence op
     | _ \<Rightarrow> binary_precedence op)"

definition structured_spawn_path :: "string list" where
  "structured_spawn_path = [''task'', CHR 0x00 # ''nomo_structured_spawn'']"

text \<open>The last lines of \<open>expr\<close>.\<close>

definition parenthesized :: "nat \<Rightarrow> expr \<Rightarrow> string \<Rightarrow> string" where
  "parenthesized parent e rendered = (if expr_precedence e < parent then ''('' @ rendered @ '')'' else rendered)"

definition type_args_text :: "type_ref list \<Rightarrow> string" where
  "type_args_text type_args =
     (if type_args = [] then [] else ''<'' @ join_text '', '' (map type_ref_text type_args) @ ''>'')"

fun expr_text :: "expr \<Rightarrow> nat \<Rightarrow> nat \<Rightarrow> string" where
  "expr_text (XArrayLiteral es) n parent =
     parenthesized parent (XArrayLiteral es) (''['' @ join_text '', '' (map (\<lambda>e. expr_text e n 0) es) @ '']'')"
| "expr_text (XIndex base index) n parent =
     parenthesized parent (XIndex base index) (expr_text base n 10 @ ''['' @ expr_text index n 0 @ '']'')"
| "expr_text (XCall callee type_args args) n parent =
     (if callee = structured_spawn_path \<and> type_args = [] \<and> length args = 1
      then ''task.spawn '' @ concat (map (\<lambda>e. expr_text e n 0) args)
      else parenthesized parent (XCall callee type_args args)
        (path_text callee @ type_args_text type_args @ ''('' @ join_text '', '' (map (\<lambda>e. expr_text e n 0) args) @ '')''))"
| "expr_text (XStructLiteral type_name fs) n parent =
     parenthesized parent (XStructLiteral type_name fs)
       (if fs = [] then path_text type_name @ '' {}''
        else path_text type_name @ '' { '' @ join_text '', '' (map (\<lambda>(name, e). name @ '': '' @ expr_text e n 0) fs) @ '' }'')"
| "expr_text (XMatch v arms) n parent =
     parenthesized parent (XMatch v arms)
       (''match '' @ expr_text v n 0 @ '' {'' @ [CHR 0x0A]
         @ concat (map (\<lambda>arm. case arm of MatchArm p binding e \<Rightarrow>
             indentation (n + 1) @ pattern_with_binding p binding @ '' => '' @ expr_text e (n + 1) 0 @ [CHR 0x0A]) arms)
         @ indentation n @ ''}'')"
| "expr_text (XIf c t e) n parent =
     parenthesized parent (XIf c t e)
       (''if '' @ expr_text c n 0 @ '' {'' @ [CHR 0x0A]
         @ indentation (n + 1) @ expr_text t (n + 1) 0 @ [CHR 0x0A]
         @ indentation n @ ''} else {'' @ [CHR 0x0A]
         @ indentation (n + 1) @ expr_text e (n + 1) 0 @ [CHR 0x0A]
         @ indentation n @ ''}'')"
| "expr_text (XPanic e) n parent =
     parenthesized parent (XPanic e) (''panic('' @ expr_text e n 0 @ '')'')"
| "expr_text (XQuestion e) n parent = parenthesized parent (XQuestion e) (expr_text e n 9 @ ''?'')"
| "expr_text (XMutArg p) n parent = parenthesized parent (XMutArg p) (''mut '' @ path_text p)"
| "expr_text (XCast e t) n parent =
     parenthesized parent (XCast e t) (expr_text e n 7 @ '' as '' @ type_ref_text t)"
| "expr_text (XUnary op e) n parent = parenthesized parent (XUnary op e) (unary_op_text op @ expr_text e n 8)"
| "expr_text (XBinary l op r) n parent =
     parenthesized parent (XBinary l op r)
       (expr_text l n (binary_precedence op) @ '' '' @ binary_op_text op @ '' ''
         @ expr_text r n (right_precedence op r))"
| "expr_text (XName p) n parent = parenthesized parent (XName p) (path_text p)"
| "expr_text (XString v) n parent = parenthesized parent (XString v) (CHR 0x22 # escape_string v @ [CHR 0x22])"
| "expr_text (XInt v) n parent = parenthesized parent (XInt v) (show_i64 v)"
| "expr_text (XFloat v) n parent = parenthesized parent (XFloat v) v"
| "expr_text (XChar v) n parent = parenthesized parent (XChar v) (CHR 0x27 # escape_char_literal v @ [CHR 0x27])"
| "expr_text (XBool b) n parent = parenthesized parent (XBool b) (if b then ''true'' else ''false'')"
| "expr_text XVoid n parent = parenthesized parent XVoid ''void''"

end
