(* ===== verification/Parser_Reads.thy ===== *)
theory Parser_Reads
  imports Parser_Expr
begin

text \<open>
  What the methods of the parser read. The relation \<open>parses\<close> says that a method, at given kinds of tokens, gives a
  result and leaves the rest; its rules run a method symbolically.
\<close>

section \<open>Methods at given tokens\<close>

definition kinds_at :: "parser_state \<Rightarrow> token_kind list" where
  "kinds_at s = map tok_kind (drop (prs_index s) (prs_tokens s))"

text \<open>No less-than sign that could open type arguments of a call.\<close>

definition calm :: "token_kind list \<Rightarrow> bool" where
  "calm ks \<longleftrightarrow> Punct PLess \<notin> set ks \<or> Punct PGreater \<notin> set ks \<and> Punct PGreaterGreater \<notin> set ks"

definition settled :: "token list \<Rightarrow> parser_state \<Rightarrow> bool" where
  "settled ts s \<longleftrightarrow> prs_tokens s = ts \<and> prs_struct_literals s \<and> prs_pending_gt s = 0 \<and> calm (map tok_kind ts)"

definition parses :: "token list \<Rightarrow> 'a parse \<Rightarrow> token_kind list \<Rightarrow> 'a \<Rightarrow> token_kind list \<Rightarrow> bool" where
  "parses ts p ks x rest \<longleftrightarrow> (\<forall>s. settled ts s \<longrightarrow> kinds_at s = ks \<longrightarrow>
     (\<exists>s'. p s = Some (Ok (x, s')) \<and> settled ts s' \<and> kinds_at s' = rest))"

lemma parsesE:
  assumes "parses ts p ks x rest" "settled ts s" "kinds_at s = ks"
  obtains s' where "p s = Some (Ok (x, s'))" "settled ts s'" "kinds_at s' = rest"
  using assms by (auto simp: parses_def)

named_theorems parses_rules \<open>rules that run a method of the parser\<close>

lemma parses_pret [parses_rules]: "parses ts (pret x) ks x ks"
  by (simp add: parses_def pret_def)

lemma parses_pbind:
  assumes "parses ts p ks x mid" "parses ts (k x) mid y rest"
  shows "parses ts (pbind p k) ks y rest"
  unfolding parses_def
proof (intro allI impI)
  fix s assume "settled ts s" "kinds_at s = ks"
  with assms(1) obtain s' where "p s = Some (Ok (x, s'))" "settled ts s'" "kinds_at s' = mid"
    by (rule parsesE)
  with assms(2) show "\<exists>s'. pbind p k s = Some (Ok (y, s')) \<and> settled ts s' \<and> kinds_at s' = rest"
    by (auto simp: pbind_def elim: parsesE)
qed

lemma parses_pret_pbind [parses_rules]: "parses ts (k x) ks y rest \<Longrightarrow> parses ts (pbind (pret x) k) ks y rest"
  by (rule parses_pbind [OF parses_pret])

lemma parses_pthen: "parses ts p ks x mid \<Longrightarrow> parses ts q mid y rest \<Longrightarrow> parses ts (pthen p q) ks y rest"
  unfolding pthen_def by (rule parses_pbind)

lemma kinds_at_Cons:
  assumes "kinds_at s = k # ks"
  shows "prs_index s < length (prs_tokens s)" "tok_kind (prs_tokens s ! prs_index s) = k"
    "map tok_kind (drop (Suc (prs_index s)) (prs_tokens s)) = ks"
proof -
  show i: "prs_index s < length (prs_tokens s)"
    using assms by (cases "prs_index s < length (prs_tokens s)") (auto simp: kinds_at_def)
  from assms i show "tok_kind (prs_tokens s ! prs_index s) = k"
    "map tok_kind (drop (Suc (prs_index s)) (prs_tokens s)) = ks"
    by (simp_all add: kinds_at_def Cons_nth_drop_Suc [symmetric])
qed

lemma peek_at: "kinds_at s = k # ks \<Longrightarrow> peek_kind s = Some (Ok (k, s))"
  by (simp add: peek_kind_def peek_def token_at_def pbind_def pret_def kinds_at_Cons)

lemma parses_peek [parses_rules]:
  "parses ts (f k) (k # ks) y rest \<Longrightarrow> parses ts (pbind peek_kind f) (k # ks) y rest"
  by (auto simp: parses_def pbind_def peek_at)

lemma parses_peek_n [parses_rules]:
  assumes "\<And>t. (ks \<noteq> [] \<longrightarrow> tok_kind t = hd ks) \<Longrightarrow> parses ts (f t) (k # ks) y rest"
  shows "parses ts (pbind (peek_n 1) f) (k # ks) y rest"
  unfolding parses_def
proof (intro allI impI)
  fix s assume s: "settled ts s" "kinds_at s = k # ks"
  note at = kinds_at_Cons [OF s(2)]
  have "\<exists>t. peek_n 1 s = Some (Ok (t, s)) \<and> (ks \<noteq> [] \<longrightarrow> tok_kind t = hd ks)"
  proof (cases "Suc (prs_index s) < length (prs_tokens s)")
    case True
    then have "map tok_kind (drop (Suc (prs_index s)) (prs_tokens s)) \<noteq> []" by simp
    with at(3) True show ?thesis by (auto simp: peek_n_def token_at_def hd_map hd_drop_conv_nth)
  next
    case False
    then have "ks = []" using at(3) by simp
    moreover from at(1) have "prs_tokens s \<noteq> []" by auto
    ultimately show ?thesis using False by (simp add: peek_n_def token_at_def)
  qed
  with assms s show "\<exists>s'. pbind (peek_n 1) f s = Some (Ok (y, s')) \<and> settled ts s' \<and> kinds_at s' = rest"
    by (auto simp: pbind_def parses_def)
qed

lemma parses_advance_token: "k \<noteq> Eof \<Longrightarrow> parses ts advance_token (k # ks) () ks"
  unfolding parses_def
proof (intro allI impI)
  fix s assume k: "k \<noteq> Eof" and s: "settled ts s" "kinds_at s = k # ks"
  let ?s = "s\<lparr>prs_index := prs_index s + 1\<rparr>"
  from k s have "advance_token s = Some (Ok ((), ?s))"
    by (simp add: advance_token_def pbind_def peek_at pmodify_def)
  moreover from s have "settled ts ?s" by (simp add: settled_def)
  moreover from kinds_at_Cons(3) [OF s(2)] have "kinds_at ?s = ks" by (simp add: kinds_at_def)
  ultimately show "\<exists>s'. advance_token s = Some (Ok ((), s')) \<and> settled ts s' \<and> kinds_at s' = ks" by blast
qed

lemma parses_advance [parses_rules]:
  "k \<noteq> Eof \<Longrightarrow> parses ts q ks y rest \<Longrightarrow> parses ts (pthen advance_token q) (k # ks) y rest"
  by (rule parses_pthen [OF parses_advance_token])

lemma parses_read:
  "(\<And>s. settled ts s \<Longrightarrow> parses ts (k (f s)) ks y rest) \<Longrightarrow> parses ts (pbind (pread f) k) ks y rest"
  by (auto simp: parses_def pbind_def pread_def)

lemma parses_read_flags [parses_rules]:
  "parses ts (k True) ks y rest \<Longrightarrow> parses ts (pbind (pread prs_struct_literals) k) ks y rest"
  "parses ts (l 0) ks y rest \<Longrightarrow> parses ts (pbind (pread prs_pending_gt) l) ks y rest"
  by (rule parses_read; simp add: settled_def)+

lemma parses_expect_kind [parses_rules]:
  "k \<noteq> Eof \<Longrightarrow> parses ts q ks y rest \<Longrightarrow> parses ts (pthen (expect_kind k code message) q) (k # ks) y rest"
  unfolding expect_kind_def
  by (rule parses_pthen [where x = "()" and mid = ks], rule parses_peek) (simp_all add: parses_advance_token)

lemma parses_expect_ident [parses_rules]:
  "parses ts (f v) ks y rest \<Longrightarrow> parses ts (pbind (expect_ident message) f) (Ident v # ks) y rest"
  unfolding expect_ident_def
  by (rule parses_pbind, rule parses_peek) (auto intro: parses_rules)

section \<open>Loops\<close>

text \<open>The runs of a loop, with shorter and shorter lists of tokens.\<close>

inductive loops :: "token list \<Rightarrow> ('a \<Rightarrow> ('a + 'b) parse) \<Rightarrow> 'a \<Rightarrow> token_kind list \<Rightarrow> 'b \<Rightarrow> token_kind list \<Rightarrow> bool"
  for ts body where
  leave: "parses ts (body x) ks (Inr y) rest \<Longrightarrow> loops ts body x ks y rest"
| again: "parses ts (body x) ks (Inl x') mid \<Longrightarrow> length mid < length ks \<Longrightarrow> loops ts body x' mid y rest
    \<Longrightarrow> loops ts body x ks y rest"

lemma iterate_parses:
  "loops ts body x ks y rest \<Longrightarrow> length ks < n \<Longrightarrow> parses ts (iterate n body x) ks y rest"
proof (induction arbitrary: n rule: loops.induct)
  case (leave x ks y rest)
  then obtain m where "n = Suc m" by (cases n) auto
  with parses_pbind [OF leave(1), of "case_sum (iterate m body) pret"] show ?case
    by (simp add: parses_pret)
next
  case (again x ks x' mid y rest)
  then obtain m where "n = Suc m" by (cases n) auto
  with again show ?case by (auto intro!: parses_pbind [OF again.hyps(1)])
qed

lemma parses_ploop: "loops ts body x ks y rest \<Longrightarrow> parses ts (ploop body x) ks y rest"
proof -
  assume loop: "loops ts body x ks y rest"
  have "length (kinds_at s) < Suc (length (prs_tokens s))" for s by (simp add: kinds_at_def)
  with iterate_parses [OF loop] show ?thesis
    by (fastforce simp: parses_def ploop_def)
qed

lemma parses_ploop_bind [parses_rules]:
  "loops ts body x ks z mid \<Longrightarrow> parses ts (k z) mid y rest \<Longrightarrow> parses ts (pbind (ploop body x) k) ks y rest"
  by (rule parses_pbind [OF parses_ploop])

lemma parses_skip_newlines [parses_rules]:
  "k \<noteq> Newline \<Longrightarrow> parses ts q (k # ks) y rest \<Longrightarrow> parses ts (pthen skip_newlines q) (k # ks) y rest"
  unfolding skip_newlines_def consume_newline_def
  by (rule parses_pthen, rule parses_ploop, rule loops.leave, rule parses_peek) (auto intro: parses_rules)

end
