(* ===== verification/Format_Tokens.thy ===== *)
theory Format_Tokens
  imports Format_Text Parser_Reads
begin

text \<open>
  The parser undoes the printer, on tokens: the tokens that a printed expression stands for are parsed back to
  the expression. It has precedence and associativity, parentheses and the loops of the parser in it.
\<close>

section \<open>The tokens of an expression\<close>

fun path_kinds :: "string list \<Rightarrow> token_kind list" where
  "path_kinds [] = []"
| "path_kinds (v # vs) = Ident v # concat (map (\<lambda>w. [Punct PDot, Ident w]) vs)"

fun op_punct :: "ast_binary_op \<Rightarrow> punctuation" where
  "op_punct BinLogicalOr = PPipePipe"
| "op_punct BinLogicalAnd = PAmpAmp"
| "op_punct BinAdd = PPlus"
| "op_punct BinSubtract = PMinus"
| "op_punct BinBitOr = PPipe"
| "op_punct BinBitXor = PCaret"
| "op_punct BinMultiply = PStar"
| "op_punct BinDivide = PSlash"
| "op_punct BinRemainder = PPercent"
| "op_punct BinShiftLeft = PLessLess"
| "op_punct BinShiftRight = PGreaterGreater"
| "op_punct BinBitAnd = PAmp"
| "op_punct BinBitAndNot = PAmpCaret"
| "op_punct BinEqual = PEqualEqual"
| "op_punct BinNotEqual = PBangEqual"
| "op_punct BinLess = PLess"
| "op_punct BinLessEqual = PLessEqual"
| "op_punct BinGreater = PGreater"
| "op_punct BinGreaterEqual = PGreaterEqual"

fun unary_punct :: "ast_unary_op \<Rightarrow> punctuation" where
  "unary_punct UnNot = PBang"
| "unary_punct UnNegate = PMinus"

fun comma_kinds :: "token_kind list list \<Rightarrow> token_kind list" where
  "comma_kinds [] = []"
| "comma_kinds [ks] = ks"
| "comma_kinds (ks # ls # kss) = ks @ Punct PComma # comma_kinds (ls # kss)"

definition paren_kinds :: "nat \<Rightarrow> expr \<Rightarrow> token_kind list \<Rightarrow> token_kind list" where
  "paren_kinds parent e ks = (if expr_precedence e < parent then Punct PLParen # ks @ [Punct PRParen] else ks)"

fun expr_kinds :: "expr \<Rightarrow> nat \<Rightarrow> token_kind list" where
  "expr_kinds (XArrayLiteral es) p =
     Punct PLBracket # comma_kinds (map (\<lambda>e. expr_kinds e 0) es) @ [Punct PRBracket]"
| "expr_kinds (XIndex base index) p =
     expr_kinds base 10 @ Punct PLBracket # expr_kinds index 0 @ [Punct PRBracket]"
| "expr_kinds (XCall callee targs args) p =
     path_kinds callee @ Punct PLParen # comma_kinds (map (\<lambda>e. expr_kinds e 0) args) @ [Punct PRParen]"
| "expr_kinds (XStructLiteral name fs) p =
     path_kinds name @ Punct PLBrace
       # comma_kinds (map (\<lambda>(f, e). Ident f # Punct PColon # expr_kinds e 0) fs) @ [Punct PRBrace]"
| "expr_kinds (XPanic e) p = Keyword KwPanic # Punct PLParen # expr_kinds e 0 @ [Punct PRParen]"
| "expr_kinds (XQuestion e) p = paren_kinds p (XQuestion e) (expr_kinds e 9 @ [Punct PQuestion])"
| "expr_kinds (XMutArg q) p = Keyword KwMut # path_kinds q"
| "expr_kinds (XCast e t) p = paren_kinds p (XCast e t) (expr_kinds e 7 @ Keyword KwAs # path_kinds (tr_path t))"
| "expr_kinds (XUnary op e) p = paren_kinds p (XUnary op e) (Punct (unary_punct op) # expr_kinds e 8)"
| "expr_kinds (XBinary l op r) p =
     paren_kinds p (XBinary l op r)
       (expr_kinds l (binary_precedence op) @ Punct (op_punct op) # expr_kinds r (binary_precedence op + 1))"
| "expr_kinds (XName q) p = path_kinds q"
| "expr_kinds (XString v) p = [StringLit v]"
| "expr_kinds (XInt v) p = [IntLit v]"
| "expr_kinds (XFloat v) p = [FloatLit v]"
| "expr_kinds (XChar v) p = [CharLit v]"
| "expr_kinds (XBool b) p = [Keyword (if b then KwTrue else KwFalse)]"
| "expr_kinds XVoid p = [Keyword KwVoid]"
| "expr_kinds (XMatch v arms) p = []"
| "expr_kinds (XIf c t e) p = []"

section \<open>Expressions that are printed on a line and read back\<close>

definition valid_ident :: "string \<Rightarrow> bool" where
  "valid_ident v \<longleftrightarrow> v \<noteq> [] \<and> is_ident_start (hd v) \<and> list_all is_ident_continue v
     \<and> map_of keyword_table v = None \<and> \<not> is_reserved_word v"

definition valid_path :: "string list \<Rightarrow> bool" where
  "valid_path p \<longleftrightarrow> p \<noteq> [] \<and> list_all valid_ident p"

definition valid_float :: "string \<Rightarrow> bool" where
  "valid_float v \<longleftrightarrow> (let whole = takeWhile is_ascii_digit v; rest = dropWhile is_ascii_digit v
     in whole \<noteq> [] \<and> rest \<noteq> [] \<and> hd rest = CHR ''.'' \<and> tl rest \<noteq> [] \<and> list_all is_ascii_digit (tl rest))"

text \<open>UTF-8: every character is complete, and the bytes of a character of several bytes are not ASCII.\<close>

definition utf8_text :: "string \<Rightarrow> bool" where
  "utf8_text v \<longleftrightarrow> list_all (\<lambda>ch. length ch = utf8_width (hd ch)
     \<and> (length ch = 1 \<or> list_all (\<lambda>c. 128 \<le> byte_of c) ch)) (chars_of v)"

lemma utf8_text_complete: "utf8_text v \<Longrightarrow> utf8_complete v"
  by (simp add: utf8_text_def utf8_complete_def list_all_iff)

text \<open>Whether the text of an expression, printed with a precedence, ends with the type of a cast.\<close>

fun trailing_cast :: "expr \<Rightarrow> nat \<Rightarrow> bool" where
  "trailing_cast (XCast e t) p \<longleftrightarrow> p \<le> 7"
| "trailing_cast (XBinary l op r) p \<longleftrightarrow> p \<le> binary_precedence op \<and> trailing_cast r (binary_precedence op + 1)"
| "trailing_cast _ p \<longleftrightarrow> False"

fun is_mut_arg :: "expr \<Rightarrow> bool" where
  "is_mut_arg (XMutArg p) \<longleftrightarrow> valid_path p"
| "is_mut_arg _ \<longleftrightarrow> False"

fun is_negation :: "expr \<Rightarrow> bool" where
  "is_negation (XUnary UnNegate _) \<longleftrightarrow> True"
| "is_negation _ \<longleftrightarrow> False"

text \<open>Left out are blocks, which take several lines, explicit type arguments, whose angle brackets the parser
  tells from comparisons by looking ahead, and what the printer gets wrong: the negation of a negation, which
  it writes as a decrement, and a cast before a less-than sign, where it drops parentheses that the parser
  needs.\<close>

fun writable :: "expr \<Rightarrow> bool" where
  "writable (XArrayLiteral es) \<longleftrightarrow> list_all writable es"
| "writable (XIndex base index) \<longleftrightarrow> writable base \<and> writable index"
| "writable (XCall callee targs args) \<longleftrightarrow>
     valid_path callee \<and> targs = [] \<and> list_all (\<lambda>e. is_mut_arg e \<or> writable e) args"
| "writable (XStructLiteral name fs) \<longleftrightarrow>
     valid_path name \<and> list_all (\<lambda>(f, e). valid_ident f \<and> writable e) fs"
| "writable (XPanic e) \<longleftrightarrow> writable e"
| "writable (XQuestion e) \<longleftrightarrow> writable e"
| "writable (XMutArg q) \<longleftrightarrow> False"
| "writable (XCast e t) \<longleftrightarrow>
     writable e \<and> valid_path (tr_path t) \<and> tr_args t = [] \<and> tr_path t \<noteq> [TASK_CALLBACK_TYPE_PATH]"
| "writable (XUnary op e) \<longleftrightarrow> writable e \<and> \<not> (op = UnNegate \<and> is_negation e)"
| "writable (XBinary l op r) \<longleftrightarrow> writable l \<and> writable r \<and> (op = BinLess \<longrightarrow> \<not> trailing_cast l 4)"
| "writable (XName q) \<longleftrightarrow> valid_path q \<and> q \<noteq> [''task'', ''spawn'']"
| "writable (XString v) \<longleftrightarrow> utf8_text v"
| "writable (XInt v) \<longleftrightarrow> 0 \<le> sint v"
| "writable (XFloat v) \<longleftrightarrow> valid_float v"
| "writable (XChar v) \<longleftrightarrow> chars_of v = [v] \<and> utf8_text v"
| "writable (XBool b) \<longleftrightarrow> True"
| "writable XVoid \<longleftrightarrow> True"
| "writable (XMatch v arms) \<longleftrightarrow> False"
| "writable (XIf c t e) \<longleftrightarrow> False"

section \<open>What follows an expression\<close>

definition level_op :: "nat \<Rightarrow> token_kind \<Rightarrow> ast_binary_op option" where
  "level_op l k =
     (if l = 1 then logical_or_op k else if l = 2 then logical_and_op k else if l = 3 then equality_op k
      else if l = 4 then comparison_op k else if l = 5 then additive_op k
      else if l = 6 then multiplicative_op k else None)"

text \<open>Tokens that do not continue an expression which is printed above level \<open>l\<close>.\<close>

fun stops :: "nat \<Rightarrow> token_kind list \<Rightarrow> bool" where
  "stops l [] \<longleftrightarrow> False"
| "stops l (k # ks) \<longleftrightarrow> (\<forall>j > l. level_op j k = None) \<and> (l < 7 \<longrightarrow> k \<noteq> Keyword KwAs)
     \<and> (l < 9 \<longrightarrow> k \<noteq> Punct PQuestion \<and> k \<noteq> Punct PLBracket)
     \<and> k \<notin> {Punct PDot, Punct PLParen, Punct PLBrace, Keyword KwFn} \<and> \<not> starts_try_operand k
     \<and> (k = Newline \<longrightarrow> ks \<noteq> [] \<and> hd ks \<noteq> Punct PDot)"

lemma stops_mono: "stops l ks \<Longrightarrow> l \<le> m \<Longrightarrow> stops m ks"
  by (cases ks) auto

lemmas level_ops = level_op_def logical_or_op_def logical_and_op_def equality_op_def comparison_op_def
  additive_op_def multiplicative_op_def

lemma binary_precedence_bounds: "1 \<le> binary_precedence op \<and> binary_precedence op \<le> 6"
  by (cases op) simp_all

lemma level_op_punct: "level_op l (Punct (op_punct op)) = (if l = binary_precedence op then Some op else None)"
  by (cases op) (simp_all add: level_ops)

lemma stops_op: "stops (binary_precedence op) (Punct (op_punct op) # ks)"
  by (cases op) (simp_all add: level_ops starts_try_operand_def)

lemma stops_closers [simp]:
  "stops l (Punct PRParen # ks)" "stops l (Punct PRBracket # ks)" "stops l (Punct PRBrace # ks)"
  "stops l (Punct PComma # ks)" "7 \<le> l \<Longrightarrow> stops l (Keyword KwAs # ks)"
  "9 \<le> l \<Longrightarrow> stops l (Punct PQuestion # ks)" "9 \<le> l \<Longrightarrow> stops l (Punct PLBracket # ks)"
  by (simp_all add: level_ops starts_try_operand_def)

declare stops.simps(2) [simp del]

lemma stops_Cons:
  "stops l (k # ks) \<Longrightarrow> k \<noteq> Punct PDot \<and> k \<noteq> Punct PLParen \<and> k \<noteq> Punct PLBrace \<and> k \<noteq> Keyword KwFn
     \<and> \<not> starts_try_operand k \<and> (k = Newline \<longrightarrow> ks \<noteq> [] \<and> hd ks \<noteq> Punct PDot)"
  by (simp add: stops.simps(2))

text \<open>Tokens that do not continue a path.\<close>

fun ends_path :: "token_kind list \<Rightarrow> bool" where
  "ends_path [] \<longleftrightarrow> False"
| "ends_path (k # ks) \<longleftrightarrow> k \<noteq> Punct PDot \<and> (k = Newline \<longrightarrow> ks \<noteq> [] \<and> hd ks \<noteq> Punct PDot)"

lemma stops_ends_path: "stops l ks \<Longrightarrow> ends_path ks"
  by (cases ks) (auto dest: stops_Cons)

text \<open>The first token.\<close>

definition starter :: "token_kind \<Rightarrow> bool" where
  "starter k \<longleftrightarrow> k \<notin> {Newline, Eof, Punct PRParen, Punct PRBracket, Punct PRBrace, Keyword KwMut}"

lemma path_kinds_Cons: "p \<noteq> [] \<Longrightarrow> path_kinds p = Ident (hd p) # concat (map (\<lambda>w. [Punct PDot, Ident w]) (tl p))"
  by (cases p) simp_all

lemma expr_kinds_first:
  "writable e \<Longrightarrow> \<exists>k ks. expr_kinds e p = k # ks \<and> starter k"
proof (induction e arbitrary: p rule: writable.induct)
  case (2 base index)
  from "2.IH"(1) [of 10] "2.prems" show ?case by auto
next
  case (6 e)
  from "6.IH" [of 9] "6.prems" show ?case by (auto simp: paren_kinds_def starter_def)
next
  case (8 e t)
  from "8.IH" [of 7] "8.prems" show ?case by (auto simp: paren_kinds_def starter_def)
next
  case (10 l op r)
  from "10.IH"(1) [of "binary_precedence op"] "10.prems" show ?case by (auto simp: paren_kinds_def starter_def)
next
  case (9 op e)
  then show ?case by (cases op) (simp_all add: paren_kinds_def starter_def)
qed (simp_all add: paren_kinds_def starter_def valid_path_def path_kinds_Cons)

lemma postfix_first:
  "writable e \<Longrightarrow> 9 \<le> q \<Longrightarrow> \<exists>k ks. expr_kinds e q = k # ks \<and> k \<noteq> Punct PBang \<and> k \<noteq> Punct PMinus \<and> starter k"
proof (induction e arbitrary: q rule: writable.induct)
  case (2 base index)
  from "2.IH"(1) [of 10] "2.prems" show ?case by auto
next
  case (6 e)
  from "6.IH" [of 9] "6.prems" show ?case by (auto simp: paren_kinds_def starter_def)
next
  case (10 l op r)
  then have "binary_precedence op < q" using binary_precedence_bounds [of op] by simp
  then show ?case by (simp add: paren_kinds_def starter_def)
qed (auto simp: paren_kinds_def starter_def valid_path_def path_kinds_Cons)

lemma expr_kinds_hd: "writable e \<Longrightarrow> expr_kinds e p = k # ks \<Longrightarrow> starter k"
  using expr_kinds_first [of e p] by auto

section \<open>Paths and types\<close>

lemma parses_dot [parses_rules]:
  "parses ts (f True) (Punct PDot # ks) y rest \<Longrightarrow> parses ts (pbind consume_dot_path_separator f) (Punct PDot # ks) y rest"
  unfolding consume_dot_path_separator_def
  by (rule parses_pbind, rule parses_peek) (auto intro: parses_rules)

lemma parses_no_dot [parses_rules]:
  assumes "ends_path ks" "parses ts (f False) ks y rest"
  shows "parses ts (pbind consume_dot_path_separator f) ks y rest"
proof (cases ks)
  case (Cons k ls)
  have "parses ts consume_dot_path_separator ks False ks"
    unfolding consume_dot_path_separator_def Cons
    by (rule parses_peek) (use assms(1) Cons in \<open>auto intro!: parses_peek_n [unfolded One_nat_def] parses_pret split: if_splits\<close>)
  then show ?thesis by (rule parses_pbind) (rule assms(2))
qed (use assms in simp)

lemma path_segment: "parses ts (f v) ks y rest \<Longrightarrow> parses ts (pbind expect_path_segment_after_dot f) (Ident v # ks) y rest"
  unfolding expect_path_segment_after_dot_def
  by (rule parses_pbind, rule parses_peek) (auto intro: parses_rules)

lemma parses_path:
  assumes "p \<noteq> []" "ends_path rest"
  shows "parses ts parse_path (path_kinds p @ rest) p rest"
proof -
  let ?body = "\<lambda>parts. pbind consume_dot_path_separator (\<lambda>dot.
       if dot then pthen advance_token (pbind expect_path_segment_after_dot (\<lambda>part. again (parts @ [part])))
       else leave parts)"
  have loop: "loops ts ?body parts (concat (map (\<lambda>w. [Punct PDot, Ident w]) vs) @ rest) (parts @ vs) rest" for parts vs
  proof (induction vs arbitrary: parts)
    case Nil
    have "parses ts (?body parts) rest (Inr parts) rest"
      by (rule parses_no_dot [OF assms(2)]) (simp add: parses_pret)
    then show ?case by (simp add: loops.leave)
  next
    case (Cons v vs)
    let ?mid = "concat (map (\<lambda>w. [Punct PDot, Ident w]) vs) @ rest"
    have "parses ts (?body parts) (Punct PDot # Ident v # ?mid) (Inl (parts @ [v])) ?mid"
      by (rule parses_dot) (simp add: parses_advance path_segment parses_pret)
    from loops.again [OF this _ Cons [of "parts @ [v]"]] show ?case by simp
  qed
  from assms(1) obtain v vs where p: "p = v # vs" by (cases p) auto
  have "parses ts (ploop ?body [v]) (concat (map (\<lambda>w. [Punct PDot, Ident w]) vs) @ rest) p rest"
    using parses_ploop [OF loop [of "[v]" vs]] by (simp add: p)
  then show ?thesis unfolding parse_path_def p by (simp add: parses_expect_ident p)
qed

lemma parses_path_bind [parses_rules]:
  "p \<noteq> [] \<Longrightarrow> ends_path mid \<Longrightarrow> parses ts (f p) mid y rest \<Longrightarrow> parses ts (pbind parse_path f) (path_kinds p @ mid) y rest"
  by (rule parses_pbind [OF parses_path])

lemma parses_type_ref:
  assumes "p \<noteq> []" "stops 7 rest" "hd rest \<noteq> Punct PLess"
  shows "parses ts parse_type_ref (path_kinds p @ rest) (TypeRef p []) rest"
proof -
  from assms(2) obtain k ks where rest: "rest = k # ks" by (cases rest) auto
  have args: "parses ts (parse_type_args_with pt) rest [] rest" for pt
    unfolding parse_type_args_with_def rest using assms(3) rest by (auto intro!: parses_rules)
  have "parses ts (parse_type_ref_fuel (Suc n)) (path_kinds p @ rest) (TypeRef p []) rest" for n
  proof -
    have path: "parses ts (pbind parse_path (\<lambda>path. pbind (parse_type_args_with (parse_type_ref_fuel n)) (\<lambda>args.
        pret (TypeRef path args)))) (path_kinds p @ rest) (TypeRef p []) rest"
      by (rule parses_path_bind [OF assms(1) stops_ends_path [OF assms(2)]], rule parses_pbind [OF args], rule parses_pret)
    obtain v vs where p: "p = v # vs" using assms(1) by (cases p) auto
    have second: "hd (concat (map (\<lambda>w. [Punct PDot, Ident w]) vs) @ rest) \<noteq> Keyword KwFn"
      using assms(2) rest by (cases vs) (auto dest: stops_Cons)
    have nonempty: "concat (map (\<lambda>w. [Punct PDot, Ident w]) vs) @ rest \<noteq> []" using rest by simp
    show ?thesis
      unfolding parse_type_ref_fuel.simps path_kinds.simps p append_Cons
      by (rule parses_peek, rule parses_peek_n) (use path nonempty second p in auto)
  qed
  then show ?thesis unfolding parse_type_ref_def parses_def by blast
qed

section \<open>Lists with commas\<close>

lemma comma_kinds_Cons:
  "comma_kinds (ks # kss) = ks @ concat (map (\<lambda>ls. Punct PComma # ls) kss)"
  by (induction kss arbitrary: ks) simp_all

lemma comma_loop:
  assumes leave: "\<And>acc x. x \<in> set (x0 # xs) \<Longrightarrow>
      parses ts (body acc) (ik x @ closer # rest) (Inr (acc @ [x])) (closer # rest)"
    and again: "\<And>acc x k ks. x \<in> set (x0 # xs) \<Longrightarrow> k \<noteq> Newline \<Longrightarrow> k \<noteq> closer \<Longrightarrow>
      parses ts (body acc) (ik x @ Punct PComma # k # ks) (Inl (acc @ [x])) (k # ks)"
    and first: "\<And>x. x \<in> set (x0 # xs) \<Longrightarrow> \<exists>k ks. ik x = k # ks \<and> k \<noteq> Newline \<and> k \<noteq> closer"
  shows "loops ts body acc (comma_kinds (map ik (x0 # xs)) @ closer # rest) (acc @ x0 # xs) (closer # rest)"
  using assms
proof (induction xs arbitrary: acc x0)
  case Nil
  from Nil(1) [of x0 acc] show ?case by (simp add: loops.leave)
next
  case (Cons x xs)
  from Cons.prems(3) [of x] obtain k ks where x: "ik x = k # ks" "k \<noteq> Newline" "k \<noteq> closer" by auto
  let ?mid = "comma_kinds (map ik (x # xs)) @ closer # rest"
  have mid: "?mid = k # ks @ concat (map (\<lambda>ls. Punct PComma # ls) (map ik xs)) @ closer # rest"
    by (simp only: list.map comma_kinds_Cons x append_Cons append_assoc)
  from Cons.prems(2) [of x0 k acc "ks @ concat (map (\<lambda>ls. Punct PComma # ls) (map ik xs)) @ closer # rest"] x
  have "parses ts (body acc) (ik x0 @ Punct PComma # ?mid) (Inl (acc @ [x0])) ?mid"
    unfolding mid by simp
  moreover have "loops ts body (acc @ [x0]) ?mid ((acc @ [x0]) @ x # xs) (closer # rest)"
    by (rule Cons.IH) (use Cons.prems in auto)
  ultimately show ?case by (auto intro: loops.again)
qed

section \<open>Operands\<close>

definition reads_back :: "token list \<Rightarrow> expr parse \<Rightarrow> expr \<Rightarrow> bool" where
  "reads_back ts pe e \<longleftrightarrow> (\<forall>rest. stops 0 rest \<longrightarrow> parses ts pe (expr_kinds e 0 @ rest) e rest)"

lemma reads_back_bind:
  "reads_back ts pe e \<Longrightarrow> stops 0 mid \<Longrightarrow> parses ts (k e) mid y rest
    \<Longrightarrow> parses ts (pbind pe k) (expr_kinds e 0 @ mid) y rest"
  by (rule parses_pbind) (auto simp: reads_back_def)

lemma starter_hd:
  assumes "writable e" "\<And>k ks. expr_kinds e p @ rest = k # ks \<Longrightarrow> starter k \<Longrightarrow> thesis"
  shows thesis
  using assms expr_kinds_first [of e p] by auto

lemma parses_skip_expr:
  assumes "writable e" "parses ts q (expr_kinds e p @ ks) y rest"
  shows "parses ts (pthen skip_newlines q) (expr_kinds e p @ ks) y rest"
  using expr_kinds_first [OF assms(1), of p] assms(2) by (auto simp: starter_def intro!: parses_skip_newlines)

lemma parses_peek_expr:
  assumes "writable e" "\<And>k. starter k \<Longrightarrow> parses ts (f k) (expr_kinds e p @ ks) y rest"
  shows "parses ts (pbind peek_kind f) (expr_kinds e p @ ks) y rest"
  using expr_kinds_first [OF assms(1), of p] assms(2) by (auto intro!: parses_peek)

lemma parses_parenthesized:
  assumes "reads_back ts pe e" "writable e"
  shows "parses ts (parse_parenthesized pe) (Punct PLParen # expr_kinds e 0 @ Punct PRParen # rest) e rest"
  unfolding parse_parenthesized_def
  by (rule parses_advance, simp, rule parses_skip_expr [OF assms(2)], rule reads_back_bind [OF assms(1)], simp)
    (intro parses_rules; simp)

lemma parses_panic:
  assumes "reads_back ts pe e"
  shows "parses ts (parse_panic_expr pe)
    (Keyword KwPanic # Punct PLParen # expr_kinds e 0 @ Punct PRParen # rest) (XPanic e) rest"
  unfolding parse_panic_expr_def
  by (rule parses_expect_kind, simp, rule parses_expect_kind, simp, rule reads_back_bind [OF assms(1)], simp)
    (intro parses_rules; simp)

lemma parses_array:
  assumes "\<And>e. e \<in> set es \<Longrightarrow> reads_back ts pe e \<and> writable e"
  shows "parses ts (parse_array_literal pe)
    (Punct PLBracket # comma_kinds (map (\<lambda>e. expr_kinds e 0) es) @ Punct PRBracket # rest) (XArrayLiteral es) rest"
proof (cases es)
  case Nil
  then show ?thesis
    unfolding parse_array_literal_def
    by (auto intro!: parses_rules)
next
  case (Cons x xs)
  let ?body = "\<lambda>elements. pbind pe (\<lambda>e. pthen skip_newlines (pbind peek_kind (\<lambda>k.
     if k \<noteq> Punct PComma then leave (elements @ [e])
     else pthen advance_token (pthen skip_newlines (pbind peek_kind (\<lambda>k.
       if k = Punct PRBracket then leave (elements @ [e]) else again (elements @ [e])))))))"
  have loop: "loops ts ?body [] (comma_kinds (map (\<lambda>e. expr_kinds e 0) (x # xs)) @ Punct PRBracket # rest)
      ([] @ x # xs) (Punct PRBracket # rest)"
  proof (rule comma_loop)
    fix acc y assume y: "y \<in> set (x # xs)"
    show "parses ts (?body acc) (expr_kinds y 0 @ Punct PRBracket # rest) (Inr (acc @ [y])) (Punct PRBracket # rest)"
      by (rule reads_back_bind) (use assms y Cons in \<open>auto intro!: parses_rules\<close>)
  next
    fix acc y k ks assume y: "y \<in> set (x # xs)" "k \<noteq> Newline" "k \<noteq> Punct PRBracket"
    show "parses ts (?body acc) (expr_kinds y 0 @ Punct PComma # k # ks) (Inl (acc @ [y])) (k # ks)"
      by (rule reads_back_bind) (use assms y Cons in \<open>auto intro!: parses_rules\<close>)
  next
    fix y assume "y \<in> set (x # xs)"
    with assms Cons expr_kinds_first [of y 0]
    show "\<exists>k ks. expr_kinds y 0 = k # ks \<and> k \<noteq> Newline \<and> k \<noteq> Punct PRBracket" by (auto simp: starter_def)
  qed
  obtain k ks where first: "comma_kinds (map (\<lambda>e. expr_kinds e 0) (x # xs)) @ Punct PRBracket # rest = k # ks" "starter k"
    using expr_kinds_first [of x 0] assms Cons by (auto simp only: list.map comma_kinds_Cons) auto
  have "parses ts (parse_array_literal pe) (Punct PLBracket # k # ks) (XArrayLiteral (x # xs)) rest"
    unfolding parse_array_literal_def
    by (rule parses_expect_kind, simp, rule parses_skip_newlines, use first(2) in \<open>simp add: starter_def\<close>,
        rule parses_peek, use first(2) in \<open>simp add: starter_def\<close>)
      (rule parses_ploop_bind [OF loop [unfolded first(1)]], auto intro!: parses_rules)
  then show ?thesis using first(1) Cons by simp
qed

lemma parses_struct:
  assumes "\<And>f e. (f, e) \<in> set fs \<Longrightarrow> reads_back ts pe e"
  shows "parses ts (parse_struct_literal pe name)
    (Punct PLBrace # comma_kinds (map (\<lambda>(f, e). Ident f # Punct PColon # expr_kinds e 0) fs) @ Punct PRBrace # rest)
    (XStructLiteral name fs) rest"
proof (cases fs)
  case Nil
  then show ?thesis
    unfolding parse_struct_literal_def
    by (auto intro!: parses_rules)
next
  case (Cons x xs)
  let ?kinds = "\<lambda>(f, e). Ident f # Punct PColon # expr_kinds e 0"
  let ?body = "\<lambda>fs. pbind (parse_struct_field pe) (\<lambda>f. pthen skip_newlines (pbind peek_kind (\<lambda>k.
     if k = Punct PComma then
       pthen advance_token (pthen skip_newlines (pbind peek_kind (\<lambda>k.
         if k = Punct PRBrace then leave (fs @ [f]) else again (fs @ [f]))))
     else if k = Punct PRBrace then leave (fs @ [f])
     else unexpected ''E0224'' ''expected `,` or `}` after struct literal field'')))"
  have one: "parses ts (parse_struct_field pe) (?kinds (f, e) @ mid) (f, e) mid"
    if "(f, e) \<in> set fs" "stops 0 mid" for f e mid
    unfolding parse_struct_field_def using that(2)
    by (simp, intro parses_expect_ident parses_expect_kind reads_back_bind [OF assms [OF that(1)]] parses_pret) simp
  have field: "parses ts (pbind (parse_struct_field pe) q) (?kinds y @ mid) z r"
    if "y \<in> set fs" "stops 0 mid" "parses ts (q y) mid z r" for y mid q r and z :: "'z"
    using one [of "fst y" "snd y" mid] that by (auto intro: parses_pbind)
  have loop: "loops ts ?body [] (comma_kinds (map ?kinds (x # xs)) @ Punct PRBrace # rest)
      ([] @ x # xs) (Punct PRBrace # rest)"
  proof (rule comma_loop)
    fix acc y assume y: "y \<in> set (x # xs)"
    show "parses ts (?body acc) (?kinds y @ Punct PRBrace # rest) (Inr (acc @ [y])) (Punct PRBrace # rest)"
      by (rule field) (use y Cons in \<open>auto intro!: parses_rules\<close>)
  next
    fix acc y k ks assume y: "y \<in> set (x # xs)" "k \<noteq> Newline" "k \<noteq> Punct PRBrace"
    show "parses ts (?body acc) (?kinds y @ Punct PComma # k # ks) (Inl (acc @ [y])) (k # ks)"
      by (rule field) (use y Cons in \<open>auto intro!: parses_rules\<close>)
  qed (auto split: prod.splits)
  obtain f e where x: "x = (f, e)" by fastforce
  obtain ks where first: "comma_kinds (map ?kinds (x # xs)) @ Punct PRBrace # rest = Ident f # ks"
    unfolding list.map comma_kinds_Cons x by auto
  have "parses ts (parse_struct_literal pe name) (Punct PLBrace # Ident f # ks) (XStructLiteral name (x # xs)) rest"
    unfolding parse_struct_literal_def
    by (rule parses_expect_kind, simp, rule parses_skip_newlines, simp, rule parses_peek, simp)
      (rule parses_ploop_bind [OF loop [unfolded first]], auto intro!: parses_rules)
  then show ?thesis using first Cons by simp
qed

lemma parses_call_arg:
  assumes "reads_back ts pe e \<and> writable e \<or> is_mut_arg e" "stops 0 mid" "parses ts (k e) mid y rest"
  shows "parses ts (pbind (parse_call_arg pe) k) (expr_kinds e 0 @ mid) y rest"
proof (rule parses_pbind)
  show "parses ts (k e) mid y rest" by (rule assms(3))
  show "parses ts (parse_call_arg pe) (expr_kinds e 0 @ mid) e mid"
  proof (cases "is_mut_arg e")
    case True
    then obtain p where "e = XMutArg p" "p \<noteq> []" by (cases e) (auto simp: valid_path_def)
    with assms(2) show ?thesis
      unfolding parse_call_arg_def by (auto intro!: parses_rules dest: stops_ends_path)
  next
    case False
    with assms(1) have e: "reads_back ts pe e" "writable e" by simp_all
    show ?thesis
      unfolding parse_call_arg_def
      by (rule parses_peek_expr [OF e(2)]) (use e(1) assms(2) in \<open>auto simp: reads_back_def starter_def\<close>)
  qed
qed

lemma call_arg_first: "writable e \<or> is_mut_arg e \<Longrightarrow> \<exists>k ks. expr_kinds e 0 = k # ks \<and> k \<noteq> Newline \<and> k \<noteq> Punct PRParen"
  using expr_kinds_first [of e 0] by (cases e) (auto simp: starter_def valid_path_def path_kinds_Cons)

lemma parses_call_args:
  assumes "\<And>e. e \<in> set es \<Longrightarrow> reads_back ts pe e \<and> writable e \<or> is_mut_arg e"
  shows "parses ts (parse_call_args pe) (comma_kinds (map (\<lambda>e. expr_kinds e 0) es) @ Punct PRParen # rest) es rest"
proof (cases es)
  case Nil
  then show ?thesis unfolding parse_call_args_def by (auto intro!: parses_rules)
next
  case (Cons x xs)
  let ?body = "\<lambda>args. pthen skip_newlines (pbind peek_kind (\<lambda>k.
     if k \<noteq> Punct PComma then leave args
     else pthen advance_token (pthen skip_newlines
       (pbind (parse_call_arg pe) (\<lambda>arg. again (args @ [arg]))))))"
  let ?tail = "\<lambda>es. concat (map (\<lambda>e. Punct PComma # expr_kinds e 0) es) @ Punct PRParen # rest"
  have tail: "stops 0 (?tail es)" for es by (cases es) auto
  have loop: "loops ts ?body acc (?tail es') (acc @ es') (Punct PRParen # rest)" if "set es' \<subseteq> set es" for acc es'
    using that
  proof (induction es' arbitrary: acc)
    case Nil
    show ?case by (rule loops.leave) (auto intro!: parses_rules)
  next
    case (Cons e es')
    with assms [of e] call_arg_first [of e] obtain k ks where e: "expr_kinds e 0 = k # ks" "k \<noteq> Newline" by auto
    have "parses ts (pbind (parse_call_arg pe) (\<lambda>arg. again (acc @ [arg]))) (expr_kinds e 0 @ ?tail es')
        (Inl (acc @ [e])) (?tail es')"
      by (rule parses_call_arg) (use assms Cons.prems tail in \<open>auto intro: parses_pret\<close>)
    then have "parses ts (?body acc) (?tail (e # es')) (Inl (acc @ [e])) (?tail es')"
      using e by (auto intro!: parses_skip_newlines parses_peek parses_advance)
    from loops.again [OF this _ Cons.IH] Cons.prems show ?case by simp
  qed
  have args: "comma_kinds (map (\<lambda>e. expr_kinds e 0) es) @ Punct PRParen # rest = expr_kinds x 0 @ ?tail xs"
    unfolding Cons list.map comma_kinds_Cons by (simp add: comp_def)
  from assms [of x] call_arg_first [of x] Cons obtain k ks where x: "expr_kinds x 0 = k # ks" "k \<noteq> Newline" "k \<noteq> Punct PRParen" by auto
  have first: "parses ts (pbind (parse_call_arg pe) (\<lambda>first. ploop ?body [first])) (expr_kinds x 0 @ ?tail xs)
      es (Punct PRParen # rest)"
    by (rule parses_call_arg) (use assms [of x] Cons tail loop [of xs "[x]"] in \<open>auto intro: parses_ploop\<close>)
  have "parses ts (pbind (pbind (parse_call_arg pe) (\<lambda>first. ploop ?body [first])) q) (expr_kinds x 0 @ ?tail xs) z r"
    if "parses ts (q es) (Punct PRParen # rest) z r" for q r and z :: "'z"
    by (rule parses_pbind) (rule first, rule that)
  note all = this [unfolded x append_Cons]
  show ?thesis
    unfolding parse_call_args_def args x append_Cons
    by (rule parses_skip_newlines [OF x(2)], rule parses_peek, subst if_not_P [OF x(3)], rule all)
      (intro parses_rules; simp)
qed

text \<open>Names, with the lookahead for type arguments, which finds none.\<close>

lemma scan_calm: "Punct PGreater \<notin> set ks \<Longrightarrow> Punct PGreaterGreater \<notin> set ks \<Longrightarrow> \<not> scan_type_args depth ks"
  by (induction ks arbitrary: depth) auto

lemma parses_no_type_args:
  assumes "parses ts (f False) (k # ks) y rest"
  shows "parses ts (pbind next_tokens_are_call_type_args f) (k # ks) y rest"
proof (rule parses_pbind [where mid = "k # ks"], rule_tac [2] assms, unfold next_tokens_are_call_type_args_def, rule parses_peek)
  have scan: "\<not> scan_type_args 0 (kinds_at s)" if "settled ts s" "kinds_at s = Punct PLess # ks" for s
  proof (rule scan_calm)
    have sub: "set (kinds_at s) \<subseteq> set (map tok_kind ts)"
      using that(1) by (auto simp: settled_def kinds_at_def dest: in_set_dropD)
    with that have "Punct PLess \<in> set (map tok_kind ts)" by auto
    with that(1) sub show "Punct PGreater \<notin> set (kinds_at s)" "Punct PGreaterGreater \<notin> set (kinds_at s)"
      by (auto simp: settled_def calm_def)
  qed
  show "parses ts (if k \<noteq> Punct PLess then pret False
      else pread (\<lambda>s. scan_type_args 0 (map tok_kind (drop (prs_index s) (prs_tokens s))))) (k # ks) False (k # ks)"
    using scan by (auto simp: parses_pret) (auto simp: parses_def pread_def kinds_at_def [symmetric])
qed

lemma parses_name:
  assumes "p \<noteq> []" "p \<noteq> [''task'', ''spawn'']" "stops l rest"
  shows "parses ts (parse_name_or_call_with pe pn) (path_kinds p @ rest) (XName p) rest"
proof -
  obtain k ks where rest: "rest = k # ks" using assms(3) by (cases rest) auto
  from stops_Cons [OF assms(3) [unfolded rest]] assms(2) show ?thesis
    unfolding parse_name_or_call_with_def parse_call_def
    by (intro parses_path_bind [OF assms(1) stops_ends_path [OF assms(3)]])
      (auto simp: rest intro!: parses_peek parses_read_flags parses_no_type_args parses_pret_pbind parses_pret)
qed

lemma parses_call:
  assumes "p \<noteq> []" "\<And>e. e \<in> set es \<Longrightarrow> reads_back ts pe e \<and> writable e \<or> is_mut_arg e"
  shows "parses ts (parse_name_or_call_with pe pn)
    (path_kinds p @ Punct PLParen # comma_kinds (map (\<lambda>e. expr_kinds e 0) es) @ Punct PRParen # rest) (XCall p [] es) rest"
  unfolding parse_name_or_call_with_def parse_call_def
  by (intro parses_path_bind [OF assms(1)])
    (auto simp: starts_try_operand_def intro!: parses_peek parses_read_flags parses_no_type_args parses_pret_pbind
      parses_advance parses_pbind [OF parses_call_args [OF assms(2)]] parses_pret)

lemma parses_struct_name:
  assumes "p \<noteq> []" "\<And>f e. (f, e) \<in> set fs \<Longrightarrow> reads_back ts pe e"
  shows "parses ts (parse_name_or_call_with pe pn)
    (path_kinds p @ Punct PLBrace # comma_kinds (map (\<lambda>(f, e). Ident f # Punct PColon # expr_kinds e 0) fs)
      @ Punct PRBrace # rest) (XStructLiteral p fs) rest"
  unfolding parse_name_or_call_with_def
  by (intro parses_path_bind [OF assms(1)])
    (auto simp: starts_try_operand_def intro!: parses_peek parses_read_flags parses_struct [OF assms(2)])

section \<open>The levels\<close>

text \<open>\<open>K\<close> bounds the tokens of the expression at hand; with fewer tokens, the claim holds.\<close>

definition reads_below :: "token list \<Rightarrow> nat \<Rightarrow> bool" where
  "reads_below ts K \<longleftrightarrow> (\<forall>e m. writable e \<longrightarrow> length (expr_kinds e 0) < K \<longrightarrow> 3 * length (expr_kinds e 0) \<le> m
     \<longrightarrow> reads_back ts (parse_expr_fuel m) e)"

lemma length_comma_kinds: "ks \<in> set kss \<Longrightarrow> length ks \<le> length (comma_kinds kss)"
  by (induction kss rule: comma_kinds.induct) auto

lemma reads_nested:
  assumes "reads_below ts K" "3 * K \<le> m + 2" "writable e" "length (expr_kinds e 0) + 2 \<le> K" "m - 1 \<le> n"
  shows "reads_back ts (parse_expr_fuel n) e"
proof -
  from assms(2,4,5) have "3 * length (expr_kinds e 0) \<le> n" "length (expr_kinds e 0) < K" by linarith+
  with assms(1,3) show ?thesis by (simp add: reads_below_def)
qed

lemma reads_elements:
  assumes "reads_below ts K" "3 * K \<le> m + 2" "list_all (\<lambda>e. is_mut_arg e \<or> writable e) es"
    "length (comma_kinds (map (\<lambda>e. expr_kinds e 0) es)) + 2 \<le> K" "e \<in> set es" "m - 1 \<le> n"
  shows "reads_back ts (parse_expr_fuel n) e \<and> writable e \<or> is_mut_arg e"
proof (cases "is_mut_arg e")
  case False
  with assms(3,5) have e: "writable e" by (auto simp: list_all_iff)
  from length_comma_kinds [of "expr_kinds e 0" "map (\<lambda>e. expr_kinds e 0) es"] assms(4,5)
  have "length (expr_kinds e 0) + 2 \<le> K" by auto
  with reads_nested [OF assms(1,2) e _ assms(6)] e show ?thesis by simp
qed simp

text \<open>An operand without an operator at its end.\<close>

lemma primary_reads:
  assumes below: "reads_below ts K" and m: "3 * K \<le> m + 2"
    and e: "writable e" "length (expr_kinds e q) \<le> K" "expr_precedence e = 10" "\<And>b i. e \<noteq> XIndex b i"
    and rest: "stops 10 rest"
  shows "parses ts (parse_primary_expr (parse_expr_fuel m) (parse_name_or_call_fuel m)) (expr_kinds e q @ rest) e rest"
proof -
  from e have "0 < K" using expr_kinds_first [OF e(1), of q] by auto
  with m obtain n where n: "m = Suc n" by (cases m) auto
  have name: "parses ts (parse_primary_expr pe (parse_name_or_call_fuel m)) (path_kinds p @ ks) x r"
    if "p \<noteq> []" "parses ts (parse_name_or_call_with (parse_expr_fuel n) (parse_name_or_call_fuel n))
      (path_kinds p @ ks) x r" for pe p ks x r
    using that unfolding parse_primary_expr_def n by (auto simp: path_kinds_Cons intro!: parses_peek)
  note nested = reads_nested [OF below m] and elements = reads_elements [OF below m]
  show ?thesis
  proof (cases e)
    case (XArrayLiteral es)
    with e elements [of es _ m] have "reads_back ts (parse_expr_fuel m) x \<and> writable x" if "x \<in> set es" for x
      using that by (auto simp: list_all_iff) (metis is_mut_arg.elims(2) writable.simps(7))+
    from parses_array [OF this] show ?thesis
      unfolding XArrayLiteral parse_primary_expr_def by (auto intro!: parses_peek)
  next
    case (XCall callee targs args)
    with e have p: "callee \<noteq> []" and args: "list_all (\<lambda>e. is_mut_arg e \<or> writable e) args"
      and l: "length (comma_kinds (map (\<lambda>e. expr_kinds e 0) args)) + 2 \<le> K" "targs = []"
      by (auto simp: valid_path_def)
    from elements [OF args l(1), of _ n] n
    have "x \<in> set args \<Longrightarrow> reads_back ts (parse_expr_fuel n) x \<and> writable x \<or> is_mut_arg x" for x by auto
    from name [OF p parses_call [OF p this]] show ?thesis by (simp add: XCall l(2))
  next
    case (XStructLiteral sname fs)
    with e have p: "sname \<noteq> []" by (auto simp: valid_path_def)
    have "reads_back ts (parse_expr_fuel n) x" if f: "(f, x) \<in> set fs" for f x
    proof (rule nested)
      show "writable x" using e XStructLiteral f by (auto simp: list_all_iff)
      from f have "Ident f # Punct PColon # expr_kinds x 0
          \<in> set (map (\<lambda>(f, e). Ident f # Punct PColon # expr_kinds e 0) fs)" by force
      from length_comma_kinds [OF this] e(2) XStructLiteral show "length (expr_kinds x 0) + 2 \<le> K" by simp
    qed (simp add: n)
    from name [OF p parses_struct_name [OF p this]] show ?thesis by (simp add: XStructLiteral)
  next
    case (XPanic x)
    with e nested [of x m] have "reads_back ts (parse_expr_fuel m) x" by simp
    from parses_panic [OF this] show ?thesis
      unfolding XPanic parse_primary_expr_def by (auto intro!: parses_peek)
  next
    case (XName p)
    with e have p: "p \<noteq> []" "p \<noteq> [''task'', ''spawn'']" by (auto simp: valid_path_def)
    from name [OF p(1) parses_name [OF p rest]] show ?thesis by (simp add: XName)
  next
    case (XBinary l op r)
    with e(3) binary_precedence_bounds [of op] show ?thesis by simp
  qed (use e in \<open>auto simp: parse_primary_expr_def intro!: parses_peek parses_advance parses_pret\<close>)
qed

definition postfix_step :: "expr parse \<Rightarrow> expr \<Rightarrow> (expr + expr) parse" where
  "postfix_step pe e = pbind peek_kind (\<lambda>k.
     if k = Punct PQuestion then pthen advance_token (again (XQuestion e))
     else if k = Punct PLBracket then
       pthen advance_token (pthen skip_newlines (pbind pe (\<lambda>i. pthen skip_newlines
         (pthen (expect_kind (Punct PRBracket) ''E0863'' ''expected `]` after array index'')
           (again (XIndex e i))))))
     else leave e)"

lemma postfix_reads:
  assumes below: "reads_below ts K" and m: "3 * K \<le> m + 2"
    and e: "writable e" "length (expr_kinds e q) \<le> K" "9 \<le> q" "q \<le> 10"
    and rest: "stops 10 rest" "loops ts (postfix_step (parse_expr_fuel m)) e rest y rest'"
  shows "parses ts (parse_postfix_expr (parse_expr_fuel m) (parse_name_or_call_fuel m)) (expr_kinds e q @ rest) y rest'"
proof -
  have unfold: "parse_postfix_expr pe pn = pbind (parse_primary_expr pe pn) (ploop (postfix_step pe))" for pe pn
    unfolding parse_postfix_expr_def postfix_step_def ..
  have operand: "parses ts (parse_postfix_expr (parse_expr_fuel m) (parse_name_or_call_fuel m)) (ks @ rest) y rest'"
    if "parses ts (parse_primary_expr (parse_expr_fuel m) (parse_name_or_call_fuel m)) (ks @ rest) e rest"
      "loops ts (postfix_step (parse_expr_fuel m)) e rest y rest'" for e ks rest
    unfolding unfold by (rule parses_pbind) (rule that(1), rule parses_ploop, rule that(2))
  have paren: "parses ts (parse_postfix_expr (parse_expr_fuel m) (parse_name_or_call_fuel m)) (expr_kinds e q @ rest) y rest'"
    if "expr_kinds e q = Punct PLParen # expr_kinds e 0 @ [Punct PRParen]" "writable e" "length (expr_kinds e q) \<le> K"
      "loops ts (postfix_step (parse_expr_fuel m)) e rest y rest'" for e q rest
  proof (rule operand [OF _ that(4)])
    have "reads_back ts (parse_expr_fuel m) e" by (rule reads_nested [OF below m that(2)]) (use that in auto)
    from parses_parenthesized [OF this that(2)] show "parses ts (parse_primary_expr (parse_expr_fuel m)
      (parse_name_or_call_fuel m)) (expr_kinds e q @ rest) e rest"
      unfolding that(1) parse_primary_expr_def by (auto intro!: parses_peek)
  qed
  show ?thesis
    using e rest
  proof (induction e arbitrary: q rest rule: writable.induct)
    case (2 base index)
    have idx: "parses ts (postfix_step (parse_expr_fuel m) base)
        (Punct PLBracket # expr_kinds index 0 @ Punct PRBracket # rest) (Inl (XIndex base index)) rest"
    proof -
      have w: "writable index" "reads_back ts (parse_expr_fuel m) index"
        using reads_nested [OF below m, of index m] 2 by auto
      show ?thesis
        unfolding postfix_step_def
        by (rule parses_peek, simp, rule parses_advance, simp, rule parses_skip_expr [OF w(1)],
            rule reads_back_bind [OF w(2)], simp) (intro parses_rules; simp)
    qed
    have "loops ts (postfix_step (parse_expr_fuel m)) base (Punct PLBracket # expr_kinds index 0 @ Punct PRBracket # rest) y rest'"
      by (rule loops.again [OF idx _ "2.prems"(6)]) simp
    from "2.IH"(1) [OF _ _ _ _ _ this, of 10] "2.prems" show ?case by simp
  next
    case (6 e)
    show ?case
    proof (cases "q = 9")
      case True
      have quest: "parses ts (postfix_step (parse_expr_fuel m) e) (Punct PQuestion # rest) (Inl (XQuestion e)) rest"
        unfolding postfix_step_def by (auto intro!: parses_rules)
      have "loops ts (postfix_step (parse_expr_fuel m)) e (Punct PQuestion # rest) y rest'"
        by (rule loops.again [OF quest _ "6.prems"(6)]) simp
      from "6.IH" [OF _ _ _ _ _ this, of 9] "6.prems" True show ?thesis by (simp add: paren_kinds_def)
    next
      case False
      with "6.prems" show ?thesis by (intro paren) (auto simp: paren_kinds_def)
    qed
  next
    case (8 e t)
    then show ?case by (intro paren) (auto simp: paren_kinds_def)
  next
    case (9 op e)
    then show ?case by (intro paren) (auto simp: paren_kinds_def)
  next
    case (10 l op r)
    then have "binary_precedence op < q" using binary_precedence_bounds [of op] by simp
    with 10 show ?case by (intro paren) (auto simp: paren_kinds_def)
  qed (rule operand [OF primary_reads [OF below m]]; auto)+
qed

end
