(* ===== verification/Format_Levels.thy ===== *)
theory Format_Levels
  imports Format_Tokens
begin

text \<open>
  The levels of precedence of the parser, from operands up to whole expressions, on the tokens of printed
  expressions; the proofs follow the left operands, with the loop of the level still to run.
\<close>

section \<open>Prefix operators and casts\<close>

lemma same_level: "expr_precedence e \<noteq> l \<Longrightarrow> expr_kinds e l = expr_kinds e (Suc l)"
  by (cases e) (auto simp add: paren_kinds_def less_Suc_eq)

lemma reads_below_mono: "reads_below ts K \<Longrightarrow> L \<le> K \<Longrightarrow> reads_below ts L"
  by (simp add: reads_below_def)

lemma postfix_leaves: "stops l rest \<Longrightarrow> l < 9 \<Longrightarrow> loops ts (postfix_step pe) e rest e rest"
  by (cases rest) (auto simp: stops.simps postfix_step_def intro!: loops.leave parses_rules)

lemma unary_reads_postfix:
  assumes below: "reads_below ts K" and n: "3 * K \<le> n + 1" and e: "writable e" "length (expr_kinds e 8) \<le> K"
    and rest: "stops 8 rest" and prec: "expr_precedence e \<noteq> 8"
  shows "parses ts (parse_unary_expr_fuel n) (expr_kinds e 8 @ rest) e rest"
proof -
  from same_level [OF prec] have kinds: "expr_kinds e 8 = expr_kinds e 9" by simp
  obtain k ks where first: "expr_kinds e 9 = k # ks" "k \<noteq> Punct PBang" "k \<noteq> Punct PMinus"
    using postfix_first [OF e(1), of 9] by auto
  with e(2) kinds have "0 < K" by auto
  with n obtain m where m: "n = Suc m" "3 * K \<le> m + 2" by (cases n) auto
  have "parses ts (parse_postfix_expr (parse_expr_fuel m) (parse_name_or_call_fuel m)) (expr_kinds e 9 @ rest) e rest"
    by (rule postfix_reads [OF below m(2) e(1)])
      (use e(2) kinds stops_mono [OF rest] postfix_leaves [OF rest] in auto)
  then show ?thesis
    unfolding kinds m(1) parse_unary_expr_fuel.simps using first by (auto intro!: parses_peek)
qed

lemma unary_reads:
  assumes "reads_below ts K" "3 * K \<le> n + 1" "writable e" "length (expr_kinds e 8) \<le> K" "stops 8 rest"
  shows "parses ts (parse_unary_expr_fuel n) (expr_kinds e 8 @ rest) e rest"
  using assms
proof (induction e arbitrary: K n rule: writable.induct)
  case (9 op e)
  then have l: "length (expr_kinds e 8) \<le> K - 1" "0 < K" and e: "writable e" by (auto simp: paren_kinds_def)
  with "9.prems"(2) obtain m where m: "n = Suc m" "3 * (K - 1) \<le> m + 1" by (cases n) auto
  have "parses ts (parse_unary_expr_fuel m) (expr_kinds e 8 @ rest) e rest"
    by (rule "9.IH" [OF _ m(2) e l(1) "9.prems"(5)]) (rule reads_below_mono [OF "9.prems"(1)], simp)
  then show ?case
    unfolding m(1) parse_unary_expr_fuel.simps
    by (cases op) (auto simp: paren_kinds_def intro!: parses_peek parses_advance parses_pbind parses_pret)
next
  case (10 l op r)
  with binary_precedence_bounds [of op] show ?case by (intro unary_reads_postfix) auto
qed (rule unary_reads_postfix; simp)+

definition cast_step :: "expr \<Rightarrow> (expr + expr) parse" where
  "cast_step e = pbind peek_kind (\<lambda>k.
     if k = Keyword KwAs then
       pthen advance_token (pthen skip_newlines (pbind parse_type_ref (\<lambda>target. again (XCast e target))))
     else leave e)"

lemma parse_cast_step: "parse_cast_expr u = pbind u (ploop cast_step)"
  unfolding parse_cast_expr_def cast_step_def ..

lemma cast_reads_operand:
  assumes "reads_below ts K" "3 * K \<le> n + 1" "writable e" "length (expr_kinds e 7) \<le> K" "expr_precedence e \<noteq> 7"
    "stops 7 rest" "loops ts cast_step e rest y rest'"
  shows "parses ts (parse_cast_expr (parse_unary_expr_fuel n)) (expr_kinds e 7 @ rest) y rest'"
proof -
  from same_level [OF assms(5)] have kinds: "expr_kinds e 7 = expr_kinds e 8" by simp
  have "parses ts (parse_unary_expr_fuel n) (expr_kinds e 8 @ rest) e rest"
    by (rule unary_reads [OF assms(1-3)]) (use assms(4) kinds stops_mono [OF assms(6)] in auto)
  then show ?thesis
    unfolding parse_cast_step kinds by (rule parses_pbind) (rule parses_ploop, rule assms(7))
qed

lemma cast_reads:
  assumes "reads_below ts K" "3 * K \<le> n + 1" "writable e" "length (expr_kinds e 7) \<le> K" "stops 7 rest"
    "trailing_cast e 7 \<longrightarrow> hd rest \<noteq> Punct PLess" "loops ts cast_step e rest y rest'"
  shows "parses ts (parse_cast_expr (parse_unary_expr_fuel n)) (expr_kinds e 7 @ rest) y rest'"
  using assms(3-7)
proof (induction e arbitrary: rest rule: writable.induct)
  case (8 e t)
  obtain p where t: "t = TypeRef p []" "p \<noteq> []" using "8.prems"(1) by (cases t) (auto simp: valid_path_def)
  have type: "parses ts parse_type_ref (path_kinds p @ rest) t rest"
    using parses_type_ref [OF t(2) "8.prems"(3)] "8.prems"(4) t(1) by simp
  have "parses ts (pbind parse_type_ref (\<lambda>target. again (XCast e target))) (path_kinds p @ rest) (Inl (XCast e t)) rest"
    by (rule parses_pbind) (rule type, rule parses_pret)
  then have "parses ts (pthen skip_newlines (pbind parse_type_ref (\<lambda>target. again (XCast e target))))
      (path_kinds p @ rest) (Inl (XCast e t)) rest"
    unfolding path_kinds_Cons [OF t(2)] append_Cons by (intro parses_skip_newlines) simp
  then have "parses ts (cast_step e) (Keyword KwAs # path_kinds p @ rest) (Inl (XCast e t)) rest"
    unfolding cast_step_def by (intro parses_peek) (auto intro: parses_advance)
  from loops.again [OF this _ "8.prems"(5)]
  have "loops ts cast_step e (Keyword KwAs # path_kinds p @ rest) y rest'" by simp
  from "8.IH" [OF _ _ _ _ this] "8.prems"(1,2) t(1) show ?case by (simp add: paren_kinds_def)
next
  case (10 l op r)
  with binary_precedence_bounds [of op] show ?case by (intro cast_reads_operand [OF assms(1,2)]) auto
qed (rule cast_reads_operand [OF assms(1,2)]; simp)+

section \<open>Binary operators\<close>

definition level_parser :: "expr parse \<Rightarrow> nat \<Rightarrow> expr parse" where
  "level_parser u l =
     (if l = 1 then parse_logical_or_expr u else if l = 2 then parse_logical_and_expr u
      else if l = 3 then parse_equality_expr u else if l = 4 then parse_comparison_expr u
      else if l = 5 then parse_additive_expr u else if l = 6 then parse_multiplicative_expr u
      else parse_cast_expr u)"

definition level_step :: "nat \<Rightarrow> expr parse \<Rightarrow> expr \<Rightarrow> (expr + expr) parse" where
  "level_step l operand e = pbind peek_kind (\<lambda>k. case level_op l k of
       None \<Rightarrow> leave e
     | Some op \<Rightarrow>
         pthen advance_token (pthen (pwhen (l \<noteq> 3) skip_newlines)
           (pbind operand (\<lambda>right. again (XBinary e op right)))))"

lemma level_parser_step:
  assumes "1 \<le> l" "l \<le> 6"
  shows "level_parser u l = pbind (level_parser u (Suc l)) (ploop (level_step l (level_parser u (Suc l))))"
proof -
  have ops: "level_op (Suc 0) = logical_or_op" "level_op 2 = logical_and_op" "level_op 3 = equality_op"
    "level_op 4 = comparison_op" "level_op 5 = additive_op" "level_op 6 = multiplicative_op"
    by (simp_all add: level_op_def fun_eq_iff)
  from assms consider "l = 1" | "l = 2" | "l = 3" | "l = 4" | "l = 5" | "l = 6" by linarith
  then show ?thesis
    by cases (simp_all add: level_step_def [abs_def] level_parser_def ops binary_level_def parse_logical_or_expr_def
        parse_logical_and_expr_def parse_equality_expr_def parse_comparison_expr_def parse_additive_expr_def
        parse_multiplicative_expr_def cong del: option.case_cong_weak)
qed

text \<open>A level reads what is printed at it.\<close>

definition level_reads :: "token list \<Rightarrow> nat \<Rightarrow> expr parse \<Rightarrow> nat \<Rightarrow> bool" where
  "level_reads ts K u l \<longleftrightarrow> (\<forall>e rest. writable e \<longrightarrow> length (expr_kinds e l) \<le> K \<longrightarrow> stops (l - 1) rest
     \<longrightarrow> (trailing_cast e l \<longrightarrow> hd rest \<noteq> Punct PLess)
     \<longrightarrow> parses ts (level_parser u l) (expr_kinds e l @ rest) e rest)"

lemma trailing_cast_mono: "trailing_cast e (Suc l) \<Longrightarrow> trailing_cast e l"
  by (cases e) auto

lemma level_operand:
  assumes "level_reads ts K u (Suc l)" "writable e" "length (expr_kinds e (Suc l)) \<le> K" "stops l rest"
    "trailing_cast e (Suc l) \<longrightarrow> hd rest \<noteq> Punct PLess"
  shows "parses ts (level_parser u (Suc l)) (expr_kinds e (Suc l) @ rest) e rest"
  using assms by (simp add: level_reads_def)

lemma level_loop_reads:
  assumes l: "1 \<le> l" "l \<le> 6" and operand: "level_reads ts K u (Suc l)"
    and e: "writable e" "length (expr_kinds e l) \<le> K" "stops l rest" "trailing_cast e l \<longrightarrow> hd rest \<noteq> Punct PLess"
      "loops ts (level_step l (level_parser u (Suc l))) e rest y rest'"
  shows "parses ts (level_parser u l) (expr_kinds e l @ rest) y rest'"
proof -
  have other: "parses ts (level_parser u l) (expr_kinds e l @ rest) y rest'"
    if "expr_precedence e \<noteq> l" "writable e" "length (expr_kinds e l) \<le> K" "stops l rest"
      "trailing_cast e l \<longrightarrow> hd rest \<noteq> Punct PLess"
      "loops ts (level_step l (level_parser u (Suc l))) e rest y rest'" for e rest
  proof -
    note kinds = same_level [OF that(1)]
    have "parses ts (level_parser u (Suc l)) (expr_kinds e (Suc l) @ rest) e rest"
      by (rule level_operand [OF operand that(2)]) (use that kinds trailing_cast_mono in auto)
    then show ?thesis
      unfolding kinds level_parser_step [OF l] by (rule parses_pbind) (rule parses_ploop, rule that(6))
  qed
  show ?thesis
    using e
  proof (induction e arbitrary: rest rule: writable.induct)
  case (10 left op right)
  show ?case
  proof (cases "binary_precedence op = l")
    case False
    with 10 show ?thesis by (intro other) auto
  next
    case True
    let ?right = "expr_kinds right (Suc l) @ rest"
    have op: "level_op l (Punct (op_punct op)) = Some op" by (simp add: level_op_punct True)
    have right: "writable right" using "10.prems"(1) by simp
    have "parses ts (level_parser u (Suc l)) ?right right rest"
      by (rule level_operand [OF operand]) (use "10.prems" True in \<open>auto simp: paren_kinds_def\<close>)
    then have "parses ts (pbind (level_parser u (Suc l)) (\<lambda>right. again (XBinary left op right))) ?right
        (Inl (XBinary left op right)) rest"
      by (rule parses_pbind) (rule parses_pret)
    then have "parses ts (pthen (pwhen (l \<noteq> 3) skip_newlines)
        (pbind (level_parser u (Suc l)) (\<lambda>right. again (XBinary left op right)))) ?right (Inl (XBinary left op right)) rest"
      by (cases "l = 3") (auto simp: pwhen_def pthen_def [of "pret ()"] intro: parses_pret_pbind parses_skip_expr [OF right])
    then have "parses ts (level_step l (level_parser u (Suc l)) left) (Punct (op_punct op) # ?right)
        (Inl (XBinary left op right)) rest"
      unfolding level_step_def by (intro parses_peek) (auto simp: op intro: parses_advance)
    from loops.again [OF this _ "10.prems"(5)]
    have loop: "loops ts (level_step l (level_parser u (Suc l))) left (Punct (op_punct op) # ?right) y rest'" by simp
    have less: "op_punct op = PLess \<Longrightarrow> op = BinLess" by (cases op) simp_all
    have "parses ts (level_parser u l) (expr_kinds left l @ Punct (op_punct op) # ?right) y rest'"
      by (rule "10.IH"(1) [OF _ _ _ _ loop])
        (use "10.prems" True stops_op [of op] less in \<open>auto simp: paren_kinds_def\<close>)
    with True show ?thesis by (simp add: paren_kinds_def)
  qed
  qed (rule other; use l in simp)+
qed

lemma cast_leaves: "stops 6 rest \<Longrightarrow> loops ts cast_step e rest e rest"
  by (cases rest) (auto simp: stops.simps cast_step_def intro!: loops.leave parses_rules)

lemma level_leaves:
  assumes "stops (l - 1) rest" "1 \<le> l"
  shows "loops ts (level_step l operand) e rest e rest"
proof (cases rest)
  case (Cons k ks)
  with assms have "level_op l k = None" by (auto simp: stops.simps)
  with Cons show ?thesis by (auto simp: level_step_def intro!: loops.leave parses_rules)
qed (use assms in simp)

lemma level_reads_all:
  assumes "reads_below ts K" "3 * K \<le> n + 1" "1 \<le> l" "l \<le> 7"
  shows "level_reads ts K (parse_unary_expr_fuel n) l"
  using assms(4,3)
proof (induction rule: inc_induct)
  case base
  have "parses ts (parse_cast_expr (parse_unary_expr_fuel n)) (expr_kinds e 7 @ rest) e rest"
    if "writable e" "length (expr_kinds e 7) \<le> K" "stops 6 rest" "trailing_cast e 7 \<longrightarrow> hd rest \<noteq> Punct PLess" for e rest
    by (rule cast_reads [OF assms(1,2) that(1,2) _ that(4) cast_leaves [OF that(3)]]) (rule stops_mono [OF that(3)], simp)
  then show ?case by (simp add: level_reads_def level_parser_def)
next
  case (step l)
  show ?case
    unfolding level_reads_def
  proof (intro allI impI)
    fix e rest
    assume e: "writable e" "length (expr_kinds e l) \<le> K" "stops (l - 1) rest" "trailing_cast e l \<longrightarrow> hd rest \<noteq> Punct PLess"
    show "parses ts (level_parser (parse_unary_expr_fuel n) l) (expr_kinds e l @ rest) e rest"
      by (rule level_loop_reads [OF _ _ step.IH e(1,2) _ e(4) level_leaves [OF e(3)]])
        (use step e(3) in \<open>auto intro: stops_mono\<close>)
  qed
qed

section \<open>Expressions\<close>

lemma no_precedence_0: "writable e \<Longrightarrow> expr_precedence e \<noteq> 0"
proof (cases e)
  case (XBinary l op r)
  with binary_precedence_bounds [of op] show ?thesis by simp
qed simp_all

lemma reads_below_all: "reads_below ts K"
proof (induction K)
  case (Suc K)
  show ?case
    unfolding reads_below_def
  proof (intro allI impI)
    fix e m
    assume e: "writable e" "length (expr_kinds e 0) < Suc K" "3 * length (expr_kinds e 0) \<le> m"
    from same_level [OF no_precedence_0 [OF e(1)]] have kinds: "expr_kinds e 0 = expr_kinds e 1" by simp
    let ?K = "length (expr_kinds e 0)"
    have "0 < ?K" using expr_kinds_first [OF e(1), of 0] by auto
    with e(3) obtain n where n: "m = Suc n" "3 * ?K \<le> n + 1" by (cases m) auto
    have below: "reads_below ts ?K" by (rule reads_below_mono [OF Suc]) (use e(2) in simp)
    show "reads_back ts (parse_expr_fuel m) e"
      unfolding reads_back_def
    proof (intro allI impI)
      fix rest assume rest: "stops 0 rest"
      then have "hd rest \<noteq> Punct PLess"
        by (cases rest) (auto simp: stops.simps level_ops dest: spec [of _ 4])
      with level_reads_all [OF below n(2), of 1] e(1) kinds rest
      show "parses ts (parse_expr_fuel m) (expr_kinds e 0 @ rest) e rest"
        by (simp add: level_reads_def level_parser_def n(1))
    qed
  qed
qed (simp add: reads_below_def)

text \<open>The whole method, whose fuel is enough for any part of the tokens.\<close>

lemma parse_expr_reads:
  assumes "writable e" "stops 0 rest" "settled ts s" "kinds_at s = expr_kinds e 0 @ rest"
  obtains s' where "parse_expr s = Some (Ok (e, s'))" "kinds_at s' = rest"
proof -
  have "length (kinds_at s) \<le> length (prs_tokens s)" by (simp add: kinds_at_def)
  with assms(4) have "3 * length (expr_kinds e 0) \<le> 3 * length (prs_tokens s)" by simp
  with reads_below_all [of ts "Suc (length (expr_kinds e 0))"] assms(1)
  have "reads_back ts (parse_expr_fuel (3 * length (prs_tokens s))) e" by (simp add: reads_below_def)
  with assms(2) have "parses ts (parse_expr_fuel (3 * length (prs_tokens s))) (expr_kinds e 0 @ rest) e rest"
    by (simp add: reads_back_def)
  from parsesE [OF this assms(3,4)] that show thesis unfolding parse_expr_def by blast
qed

end
