(* ===== verification/Lexer_Spelling.thy ===== *)
theory Lexer_Spelling
  imports Lexer_Places Format_Text
begin

text \<open>
  What the lexer reads from a spelled text: the relation \<open>spells\<close> says that a text, followed by another one,
  gives tokens of the given kinds and that the lexer goes on after it. One rule for every kind of token says
  what may follow.
\<close>

section \<open>The relation\<close>

definition spells :: "string \<Rightarrow> token_kind list \<Rightarrow> string \<Rightarrow> bool" where
  "spells u ks t \<longleftrightarrow> (\<forall>path line whole i s. drop i whole = u @ t \<longrightarrow> lx_depth s = 0 \<longrightarrow>
     (\<exists>s'. lex_line path line whole (rest_at whole i) s = lex_line path line whole (rest_at whole (i + length u)) s'
       \<and> lx_depth s' = 0 \<and> lx_start s' = lx_start s
       \<and> map tok_kind (lx_tokens s') = map tok_kind (lx_tokens s) @ ks))"

lemma lexes_Nil: "spells [] [] t"
  by (auto simp: spells_def)

lemma lexes_append:
  assumes "spells u ks (v @ t)" "spells v ls t"
  shows "spells (u @ v) (ks @ ls) t"
  unfolding spells_def
proof (intro allI impI)
  fix path line whole i and s :: lex_state
  assume at: "drop i whole = (u @ v) @ t" and s: "lx_depth s = 0"
  from assms(1) at s obtain s1 where s1:
    "lex_line path line whole (rest_at whole i) s = lex_line path line whole (rest_at whole (i + length u)) s1"
    "lx_depth s1 = 0" "lx_start s1 = lx_start s" "map tok_kind (lx_tokens s1) = map tok_kind (lx_tokens s) @ ks"
    unfolding spells_def by (metis append_assoc)
  have "drop (i + length u) whole = v @ t" using at by (metis add.commute append_assoc append_eq_conv_conj drop_drop)
  with assms(2) s1(2) obtain s2 where
    "lex_line path line whole (rest_at whole (i + length u)) s1
       = lex_line path line whole (rest_at whole (i + length u + length v)) s2"
    "lx_depth s2 = 0" "lx_start s2 = lx_start s1" "map tok_kind (lx_tokens s2) = map tok_kind (lx_tokens s1) @ ls"
    unfolding spells_def by blast
  with s1 show "\<exists>s'. lex_line path line whole (rest_at whole i) s
       = lex_line path line whole (rest_at whole (i + length (u @ v))) s'
       \<and> lx_depth s' = 0 \<and> lx_start s' = lx_start s
       \<and> map tok_kind (lx_tokens s') = map tok_kind (lx_tokens s) @ ks @ ls"
    by (auto simp: add.assoc)
qed

text \<open>A step of the loop.\<close>

lemma lex_line_char:
  assumes "rest_at whole i = (i, ch) # cs" "lx_depth s = 0"
    "lex_char path line whole (Suc i) ch cs s = Ok (s', rest)"
  shows "lex_line path line whole (rest_at whole i) s = lex_line path line whole rest s'"
  using assms by (simp add: lex_step_def)

lemma rest_at_char:
  assumes "drop i whole = ch @ r" "ch \<noteq> []" "length ch = utf8_width (hd ch)"
  shows "rest_at whole i = (i, ch) # rest_at whole (i + length ch)"
proof -
  from assms(1,2) have i: "i < length whole" by (metis append_is_Nil_conv drop_all not_le)
  from assms(1,2) i have "whole ! i = hd ch" by (metis hd_append2 hd_drop_conv_nth)
  with rest_at_step(1) [OF i] assms show ?thesis by simp
qed

lemma rest_at_ascii:
  "drop i whole = c # r \<Longrightarrow> byte_of c < 192 \<Longrightarrow> rest_at whole i = (i, [c]) # rest_at whole (Suc i)"
  using rest_at_char [of i whole "[c]" r] by (simp add: utf8_width_def)

lemma next_is_iff: "byte_of c < 192 \<Longrightarrow> next_is c (rest_at whole j) \<longleftrightarrow> (\<exists>r. drop j whole = c # r)"
proof
  assume "byte_of c < 192" "\<exists>r. drop j whole = c # r"
  then obtain r where "rest_at whole j = (j, [c]) # rest_at whole (Suc j)" using rest_at_ascii by blast
  then show "next_is c (rest_at whole j)" by (simp add: next_is_def)
qed (auto dest: next_is_rest_at)

lemma lexesI:
  assumes "\<And>path line whole i s. drop i whole = u @ t \<Longrightarrow> lx_depth s = 0 \<Longrightarrow>
    \<exists>ch cs. rest_at whole i = (i, ch) # cs \<and> lex_char path line whole (Suc i) ch cs s
      = Ok (push_token k line (Suc i) whole s, rest_at whole (i + length u))"
  shows "spells u [k] t"
  unfolding spells_def
proof (intro allI impI)
  fix path line whole i and s :: lex_state
  assume at: "drop i whole = u @ t" and s: "lx_depth s = 0"
  from assms [OF this, of path line] obtain ch cs where "rest_at whole i = (i, ch) # cs"
    "lex_char path line whole (Suc i) ch cs s = Ok (push_token k line (Suc i) whole s, rest_at whole (i + length u))"
    by blast
  from lex_line_char [OF this(1) s this(2)] s
  show "\<exists>s'. lex_line path line whole (rest_at whole i) s = lex_line path line whole (rest_at whole (i + length u)) s'
       \<and> lx_depth s' = 0 \<and> lx_start s' = lx_start s
       \<and> map tok_kind (lx_tokens s') = map tok_kind (lx_tokens s) @ [k]"
    by (intro exI [of _ "push_token k line (Suc i) whole s"]) (auto simp: push_token_def make_token_def)
qed

lemma lexes_space: "spells '' '' [] t"
  unfolding spells_def
proof (intro allI impI)
  fix path line whole i and s :: lex_state
  assume at: "drop i whole = '' '' @ t" and s: "lx_depth s = 0"
  then have rest: "rest_at whole i = (i, '' '') # rest_at whole (Suc i)"
    by (intro rest_at_ascii [of i whole "CHR '' ''"]) (simp_all add: byte_of_def)
  have "lex_char path line whole (Suc i) '' '' (rest_at whole (Suc i)) s = Ok (s, rest_at whole (Suc i))"
    by (simp add: lex_char_def)
  from lex_line_char [OF rest s this] s
  show "\<exists>s'. lex_line path line whole (rest_at whole i) s = lex_line path line whole (rest_at whole (i + length '' '')) s'
       \<and> lx_depth s' = 0 \<and> lx_start s' = lx_start s
       \<and> map tok_kind (lx_tokens s') = map tok_kind (lx_tokens s) @ []"
    by (intro exI [of _ s]) simp
qed

section \<open>Punctuation\<close>

text \<open>The characters that would make a longer token, or a comment.\<close>

fun continues :: "punctuation \<Rightarrow> char list" where
  "continues PEqual = ''>=''"
| "continues PBang = ''=''"
| "continues PAmp = ''&^=''"
| "continues PAmpCaret = ''=''"
| "continues PPipe = ''|=''"
| "continues PCaret = ''=''"
| "continues PPlus = ''+=''"
| "continues PMinus = ''>-=''"
| "continues PStar = ''=''"
| "continues PPercent = ''=''"
| "continues PSlash = ''/*=''"
| "continues PLess = ''<=''"
| "continues PLessLess = ''=''"
| "continues PGreater = ''>=''"
| "continues PGreaterGreater = ''=''"
| "continues _ = []"

lemma tl_rest_at: "drop j whole = c # r \<Longrightarrow> byte_of c < 192 \<Longrightarrow> tl (rest_at whole j) = rest_at whole (Suc j)"
  by (simp add: rest_at_ascii)

lemma lex_punctuation_text:
  assumes "p \<noteq> PSlash" "p \<noteq> PSlashEqual" "drop i whole = punct_text p @ t" "t = [] \<or> hd t \<notin> set (continues p)"
  shows "lex_punctuation (hd (punct_text p)) (rest_at whole (Suc i))
    = Some (Punct p, rest_at whole (i + length (punct_text p)))"
proof -
  have d1: "drop (Suc i) whole = tl (punct_text p) @ t"
    using assms(3) by (cases p) (auto dest: drop_Suc_Cons)
  have d2: "1 < length (punct_text p) \<Longrightarrow> drop (Suc (Suc i)) whole = tl (tl (punct_text p)) @ t"
    using d1 by (cases p) (auto dest: drop_Suc_Cons)
  show ?thesis
    using assms(1,2,4) d1 d2
    by (cases p) (auto simp: lex_punctuation_def one_or_def next_is_iff byte_of_def tl_rest_at)
qed

lemma slash_step_text:
  assumes "p = PSlash \<or> p = PSlashEqual" "drop i whole = punct_text p @ t" "t = [] \<or> hd t \<notin> set (continues p)"
  shows "slash_step line whole column (rest_at whole (Suc i)) s
    = (push_token (Punct p) line column whole s, rest_at whole (i + length (punct_text p)))"
proof -
  have d1: "drop (Suc i) whole = tl (punct_text p) @ t"
    using assms(1,2) by (auto dest: drop_Suc_Cons)
  show ?thesis
    using assms(1,3) d1 by (auto simp: slash_step_def one_or_def next_is_iff byte_of_def tl_rest_at)
qed

lemma lexes_punct:
  assumes "t = [] \<or> hd t \<notin> set (continues p)"
  shows "spells (punct_text p) [Punct p] t"
proof (rule lexesI)
  fix path line whole i and s :: lex_state
  assume at: "drop i whole = punct_text p @ t"
  let ?c = "hd (punct_text p)"
  have c: "punct_text p = ?c # tl (punct_text p)" "byte_of ?c < 192" "?c \<notin> set '' '' \<union> {CHR 0x09, CHR 0x0D}"
    "p \<noteq> PSlash \<and> p \<noteq> PSlashEqual \<longleftrightarrow> ?c \<noteq> CHR ''/''"
    by (cases p; simp add: byte_of_def)+
  from at c(1) have "drop i whole = ?c # tl (punct_text p) @ t" by (metis append_Cons)
  from rest_at_ascii [OF this c(2)] have "rest_at whole i = (i, [?c]) # rest_at whole (Suc i)" .
  moreover have "lex_char path line whole (Suc i) [?c] (rest_at whole (Suc i)) s
      = Ok (push_token (Punct p) line (Suc i) whole s, rest_at whole (i + length (punct_text p)))"
  proof (cases "?c = CHR ''/''")
    case True
    with c(4) have "p = PSlash \<or> p = PSlashEqual" by blast
    from slash_step_text [OF this at assms] True show ?thesis by (simp add: lex_char_def)
  next
    case False
    with c(4) have p: "p \<noteq> PSlash" "p \<noteq> PSlashEqual" by blast+
    from lex_punctuation_text [OF p at assms] False c(3) show ?thesis by (simp add: lex_char_def)
  qed
  ultimately show "\<exists>ch cs. rest_at whole i = (i, ch) # cs \<and> lex_char path line whole (Suc i) ch cs s
      = Ok (push_token (Punct p) line (Suc i) whole s, rest_at whole (i + length (punct_text p)))" by blast
qed

section \<open>Words and numbers\<close>

lemma take_chars_text:
  assumes "drop j whole = v @ t" "list_all P v" "t = [] \<or> \<not> P (hd t)" "\<And>c. P c \<Longrightarrow> byte_of c < 128"
  shows "take_chars P (rest_at whole j) = (v, rest_at whole (j + length v))"
proof -
  obtain u rest where taken: "take_chars P (rest_at whole j) = (u, rest)" by fastforce
  from take_chars_rest_at [OF this assms(4)] have u: "u = takeWhile P (drop j whole)" "rest = rest_at whole (j + length u)"
    by auto
  have "takeWhile P t = []" using assms(3) by (cases t) auto
  with assms(1,2) u(1) have "u = v" by (simp add: takeWhile_append2 list_all_iff)
  with taken u(2) show ?thesis by simp
qed

lemma not_word:
  "c \<in> set ''.,;:=!&|^+-*%?#<>()[]{}/ '' \<union> {CHR 0x09, CHR 0x0D, CHR 0x22, CHR 0x27} \<Longrightarrow> \<not> is_ident_continue c"
  by (auto simp: is_ident_continue_def is_ascii_digit_def is_ascii_alphabetic_def byte_of_def)

lemma lex_punctuation_chars: "lex_punctuation c cs = Some x \<Longrightarrow> c \<in> set ''.,;:=!&|^+-*%?#<>()[]{}''"
  by (auto simp: lex_punctuation_def split: if_split_asm)

lemma lex_punctuation_other:
  assumes "is_ident_continue c"
  shows "lex_punctuation c cs = None"
proof (cases "lex_punctuation c cs")
  case (Some x)
  have "c \<in> set ''.,;:=!&|^+-*%?#<>()[]{}/ '' \<union> {CHR 0x09, CHR 0x0D, CHR 0x22, CHR 0x27}"
    using lex_punctuation_chars [OF Some] by auto
  with not_word assms show ?thesis by blast
qed

lemma word_char:
  assumes "is_ident_continue c"
  shows "c \<notin> {CHR '' '', CHR 0x09, CHR 0x0D, CHR ''/'', CHR 0x22, CHR 0x27}" "byte_of c < 192"
proof
  assume "c \<in> {CHR '' '', CHR 0x09, CHR 0x0D, CHR ''/'', CHR 0x22, CHR 0x27}"
  then have "c \<in> set ''.,;:=!&|^+-*%?#<>()[]{}/ '' \<union> {CHR 0x09, CHR 0x0D, CHR 0x22, CHR 0x27}" by auto
  with not_word assms show False by blast
next
  from ascii_classes(2) [OF assms] show "byte_of c < 192" by simp
qed

lemma ident_start_continue: "is_ident_start c \<Longrightarrow> is_ident_continue c \<and> \<not> is_ascii_digit c"
  by (auto simp: is_ident_start_def is_ident_continue_def is_ascii_digit_def is_ascii_alphabetic_def byte_of_def)

lemma digit_continue: "is_ascii_digit c \<Longrightarrow> is_ident_continue c"
  by (simp add: is_ident_continue_def)

lemma lexes_word:
  assumes "v \<noteq> []" "is_ident_start (hd v)" "list_all is_ident_continue v" "\<not> is_reserved_word v"
    and t: "t = [] \<or> \<not> is_ident_continue (hd t)"
  shows "spells v [word_kind v] t"
proof (rule lexesI)
  fix path line whole i and s :: lex_state
  assume at: "drop i whole = v @ t"
  obtain c w where v: "v = c # w" using assms(1) by (cases v) auto
  with assms(2) ident_start_continue have c: "is_ident_start c" "is_ident_continue c" "\<not> is_ascii_digit c" by auto
  note word = word_char [OF c(2)]
  have "rest_at whole i = (i, [c]) # rest_at whole (Suc i)"
    by (rule rest_at_ascii [OF _ word(2)]) (simp add: at v)
  moreover have "drop (Suc i) whole = w @ t" using at v by (intro drop_Suc_Cons) simp
  from take_chars_text [where P = is_ident_continue, OF this _ t ascii_classes(2)] assms(3) v
  have "take_chars is_ident_continue (rest_at whole (Suc i)) = (w, rest_at whole (Suc i + length w))" by simp
  ultimately show "\<exists>ch cs. rest_at whole i = (i, ch) # cs \<and> lex_char path line whole (Suc i) ch cs s
      = Ok (push_token (word_kind v) line (Suc i) whole s, rest_at whole (i + length v))"
    using word(1) c assms(4) by (auto simp: lex_char_def lex_punctuation_other ascii_char_def v)
qed

lemma lex_char_number:
  assumes "is_ascii_digit c" "number_literal [c] cs = Ok (k, rest)"
  shows "lex_char path line whole column [c] cs s = Ok (push_token k line column whole s, rest)"
  using assms word_char [OF digit_continue [OF assms(1)]]
  by (auto simp: lex_char_def lex_punctuation_other digit_continue ascii_char_def)

lemma lexes_number:
  assumes digits: "v \<noteq> []" "list_all is_ascii_digit v" "parse_i64 v = Some n"
    and t: "t = [] \<or> \<not> is_ascii_digit (hd t) \<and> hd t \<noteq> CHR ''.''"
  shows "spells v [IntLit (word_of_int n)] t"
proof (rule lexesI)
  fix path line whole i and s :: lex_state
  assume at: "drop i whole = v @ t"
  obtain c w where v: "v = c # w" using digits(1) by (cases v) auto
  then have c: "is_ascii_digit c" using digits(2) by simp
  have "rest_at whole i = (i, [c]) # rest_at whole (Suc i)"
    by (rule rest_at_ascii) (use at v word_char [OF digit_continue [OF c]] in auto)
  moreover have after: "drop (Suc i) whole = w @ t" using at v by (intro drop_Suc_Cons) simp
  from take_chars_text [where P = is_ascii_digit, OF this _ _ ascii_classes(1)] digits(2) v t
  have "take_chars is_ascii_digit (rest_at whole (Suc i)) = (w, rest_at whole (Suc i + length w))" by auto
  moreover have "\<not> next_is (CHR ''.'') (rest_at whole (Suc i + length w))"
  proof -
    have "drop (Suc i + length w) whole = t" using after
      by (metis add.commute append_eq_conv_conj drop_drop)
    with t show ?thesis by (auto simp: next_is_iff byte_of_def)
  qed
  ultimately show "\<exists>ch cs. rest_at whole i = (i, ch) # cs \<and> lex_char path line whole (Suc i) ch cs s
      = Ok (push_token (IntLit (word_of_int n)) line (Suc i) whole s, rest_at whole (i + length v))"
    using digits(3) v by (auto simp: number_literal_def Let_def intro!: lex_char_number [OF c])
qed

lemma lexes_float:
  assumes digits: "v \<noteq> []" "list_all is_ascii_digit v" "w \<noteq> []" "list_all is_ascii_digit w"
    and t: "t = [] \<or> \<not> is_ascii_digit (hd t)"
  shows "spells (v @ CHR ''.'' # w) [FloatLit (v @ CHR ''.'' # w)] t"
proof (rule lexesI)
  fix path line whole i and s :: lex_state
  assume at: "drop i whole = (v @ CHR ''.'' # w) @ t"
  obtain c v' where v: "v = c # v'" using digits(1) by (cases v) auto
  obtain d w' where w: "w = d # w'" using digits(3) by (cases w) auto
  have c: "is_ascii_digit c" and d: "is_ascii_digit d" using digits(2,4) v w by simp_all
  have "rest_at whole i = (i, [c]) # rest_at whole (Suc i)"
    by (rule rest_at_ascii) (use at v word_char [OF digit_continue [OF c]] in auto)
  moreover have first: "drop (Suc i) whole = v' @ CHR ''.'' # w @ t" using at v by (intro drop_Suc_Cons) simp
  from take_chars_text [where P = is_ascii_digit, OF this _ _ ascii_classes(1)] digits(2) v
  have "take_chars is_ascii_digit (rest_at whole (Suc i)) = (v', rest_at whole (Suc i + length v'))"
    by (simp add: is_ascii_digit_def byte_of_def)
  moreover have dot: "drop (Suc i + length v') whole = CHR ''.'' # w @ t"
    using first by (metis add.commute append_eq_conv_conj drop_drop)
  moreover have after: "drop (Suc (Suc i + length v')) whole = w @ t" using drop_Suc_Cons [OF dot] .
  moreover have "rest_at whole (Suc (Suc i + length v')) = (Suc (Suc i + length v'), [d]) # rest_at whole (Suc (Suc (Suc i + length v')))"
    by (rule rest_at_ascii) (use after w word_char [OF digit_continue [OF d]] in auto)
  moreover have "take_chars is_ascii_digit (rest_at whole (Suc (Suc i + length v')))
      = (w, rest_at whole (Suc (Suc i + length v') + length w))"
    by (rule take_chars_text [where P = is_ascii_digit, OF after digits(4) t ascii_classes(1)])
  moreover have "tl (rest_at whole (Suc i + length v')) = rest_at whole (Suc (Suc i + length v'))"
    "next_is (CHR ''.'') (rest_at whole (Suc i + length v'))"
    using dot by (auto simp: tl_rest_at next_is_iff byte_of_def)
  ultimately show "\<exists>ch cs. rest_at whole i = (i, ch) # cs \<and> lex_char path line whole (Suc i) ch cs s
      = Ok (push_token (FloatLit (v @ CHR ''.'' # w)) line (Suc i) whole s, rest_at whole (i + length (v @ CHR ''.'' # w)))"
    using v d by (auto simp: number_literal_def Let_def ascii_char_def add.assoc intro!: lex_char_number [OF c])
qed

section \<open>Literals\<close>

definition whole_char :: "string \<Rightarrow> bool" where
  "whole_char ch \<longleftrightarrow> ch \<noteq> [] \<and> length ch = utf8_width (hd ch)"

text \<open>The printer escapes a character with a backslash and another one, or leaves it.\<close>

lemma escaped_cases:
  assumes "quote = CHR 0x22 \<or> quote = CHR 0x27"
  obtains (escape) c where "escaped quote ch = [backslash, c]" "byte_of c < 192"
      "ch = (if c = CHR ''n'' then [CHR 0x0A] else if c = CHR ''r'' then [CHR 0x0D] else if c = CHR ''t'' then [CHR 0x09] else [c])"
      "c \<in> {CHR ''n'', CHR ''r'', CHR ''t'', quote, backslash}"
    | (plain) "escaped quote ch = ch" "ch \<noteq> [quote]" "ch \<noteq> [backslash]"
proof -
  have bytes: "byte_of quote < 192" "byte_of backslash < 192" "quote \<notin> {CHR ''n'', CHR ''r'', CHR ''t''}"
    "byte_of (CHR ''n'') < 192" "byte_of (CHR ''r'') < 192" "byte_of (CHR ''t'') < 192"
    using assms by (auto simp: byte_of_def backslash_def)
  show thesis
  proof (cases "ch \<in> {[CHR 0x0A], [CHR 0x0D], [CHR 0x09], [quote], [backslash]}")
    case True
    then consider "ch = [CHR 0x0A]" | "ch = [CHR 0x0D]" | "ch = [CHR 0x09]" | "ch = [quote]" | "ch = [backslash]" by blast
    then show ?thesis
    proof cases
      case 1
      then show ?thesis using escape [of "CHR ''n''"] bytes by (simp add: escaped_def)
    next
      case 2
      then show ?thesis using escape [of "CHR ''r''"] bytes by (simp add: escaped_def)
    next
      case 3
      then show ?thesis using escape [of "CHR ''t''"] bytes by (simp add: escaped_def)
    next
      case 4
      with assms show ?thesis using escape [of quote] bytes by (auto simp: escaped_def)
    next
      case 5
      with assms show ?thesis using escape [of backslash] bytes by (auto simp: escaped_def backslash_def)
    qed
  next
    case False
    with plain show ?thesis by (simp add: escaped_def)
  qed
qed

lemma rest_at_escape:
  assumes "drop j whole = [backslash, c] @ r" "byte_of c < 192"
  shows "rest_at whole j = (j, [backslash]) # (Suc j, [c]) # rest_at whole (j + 2)" "drop (j + 2) whole = r"
proof -
  have d: "drop j whole = backslash # c # r" "byte_of backslash < 192" using assms(1) by (simp_all add: byte_of_def backslash_def)
  note d1 = drop_Suc_Cons [OF d(1)]
  from rest_at_ascii [OF d] rest_at_ascii [OF d1 assms(2)]
  show "rest_at whole j = (j, [backslash]) # (Suc j, [c]) # rest_at whole (j + 2)" by simp
  from drop_Suc_Cons [OF d1] show "drop (j + 2) whole = r" by simp
qed

lemma string_literal_text:
  assumes "list_all whole_char chs" "drop j whole = concat (map (escaped (CHR 0x22)) chs) @ CHR 0x22 # t"
  shows "string_literal lit (rest_at whole j)
    = Some (lit @ concat chs, rest_at whole (j + length (concat (map (escaped (CHR 0x22)) chs)) + 1))"
  using assms
proof (induction chs arbitrary: j lit)
  case Nil
  then show ?case by (simp add: rest_at_ascii [of j whole "CHR 0x22" t] byte_of_def)
next
  case (Cons ch chs)
  have "CHR 0x22 = CHR 0x22 \<or> CHR 0x22 = CHR 0x27" by simp
  then show ?case
  proof (cases rule: escaped_cases [where ch = ch])
    case (escape c)
    with Cons.prems(2) have at: "drop j whole = [backslash, c] @ concat (map (escaped (CHR 0x22)) chs) @ CHR 0x22 # t"
      by simp
    note rest = rest_at_escape [OF at escape(2)]
    have "literal_escape [c] = ch"
      using escape(3,4) by (auto simp: literal_escape_def backslash_def)
    with Cons.IH [OF _ rest(2)] Cons.prems(1) escape(1) rest(1) show ?thesis
      by (simp add: backslash_def)
  next
    case plain
    with Cons.prems(2) have at: "drop j whole = ch @ concat (map (escaped (CHR 0x22)) chs) @ CHR 0x22 # t" by simp
    from Cons.prems(1) have ch: "ch \<noteq> []" "length ch = utf8_width (hd ch)" by (simp_all add: whole_char_def)
    note rest = rest_at_char [OF at ch]
    have "drop (j + length ch) whole = concat (map (escaped (CHR 0x22)) chs) @ CHR 0x22 # t"
      using at by (metis add.commute append_eq_conv_conj drop_drop)
    from Cons.IH [OF _ this] Cons.prems(1) plain rest show ?thesis by (simp add: add.assoc)
  qed
qed

lemma lexes_string:
  assumes "utf8_complete v"
  shows "spells (CHR 0x22 # escape_string v @ [CHR 0x22]) [StringLit v] t"
proof (rule lexesI)
  fix path line whole i and s :: lex_state
  assume at: "drop i whole = (CHR 0x22 # escape_string v @ [CHR 0x22]) @ t"
  have chars: "list_all whole_char (chars_of v)"
    using assms chars_of_nonempty by (auto simp: utf8_complete_def whole_char_def list_all_iff)
  have d: "drop i whole = CHR 0x22 # escape_string v @ CHR 0x22 # t" using at by simp
  from rest_at_ascii [OF this] have "rest_at whole i = (i, [CHR 0x22]) # rest_at whole (Suc i)"
    by (simp add: byte_of_def)
  moreover from string_literal_text [OF chars, of "Suc i" whole t "[]"] drop_Suc_Cons [OF d]
  have "string_literal [] (rest_at whole (Suc i)) = Some (v, rest_at whole (i + length (CHR 0x22 # escape_string v @ [CHR 0x22])))"
    by (simp add: escape_string_def concat_chars_of)
  ultimately show "\<exists>ch cs. rest_at whole i = (i, ch) # cs \<and> lex_char path line whole (Suc i) ch cs s
      = Ok (push_token (StringLit v) line (Suc i) whole s, rest_at whole (i + length (CHR 0x22 # escape_string v @ [CHR 0x22])))"
    by (auto simp: lex_char_def lex_punctuation_quotes)
qed

lemma lexes_char:
  assumes "whole_char v"
  shows "spells (CHR 0x27 # escape_char_literal v @ [CHR 0x27]) [CharLit v] t"
proof (rule lexesI)
  fix path line whole i and s :: lex_state
  assume at: "drop i whole = (CHR 0x27 # escape_char_literal v @ [CHR 0x27]) @ t"
  have d: "drop i whole = CHR 0x27 # escape_char_literal v @ CHR 0x27 # t" using at by simp
  from rest_at_ascii [OF this] have rest: "rest_at whole i = (i, [CHR 0x27]) # rest_at whole (Suc i)"
    by (simp add: byte_of_def)
  note d1 = drop_Suc_Cons [OF d]
  have "char_literal (rest_at whole (Suc i)) = Ok (v, rest_at whole (i + length (CHR 0x27 # escape_char_literal v @ [CHR 0x27])))"
  proof -
    have body: "char_body (rest_at whole (Suc i)) = Ok (v, rest_at whole (Suc i + length (escape_char_literal v)))"
      and after: "drop (Suc i + length (escape_char_literal v)) whole = CHR 0x27 # t"
    proof -
      show "drop (Suc i + length (escape_char_literal v)) whole = CHR 0x27 # t"
        using d1 by (metis add.commute append_eq_conv_conj drop_drop)
      have "CHR 0x27 = CHR 0x22 \<or> CHR 0x27 = CHR 0x27" by simp
      then show "char_body (rest_at whole (Suc i)) = Ok (v, rest_at whole (Suc i + length (escape_char_literal v)))"
      proof (cases rule: escaped_cases [where ch = v])
        case (escape c)
        with d1 have at: "drop (Suc i) whole = [backslash, c] @ CHR 0x27 # t" by (simp add: escape_char_literal_def)
        have "char_escape [c] = Some v" using escape(3,4) by (auto simp: char_escape_def backslash_def)
        with rest_at_escape(1) [OF at escape(2)] escape(1) show ?thesis
          by (simp add: char_body_def escape_char_literal_def)
      next
        case plain
        with d1 have at: "drop (Suc i) whole = v @ CHR 0x27 # t" by (simp add: escape_char_literal_def)
        from assms have v: "v \<noteq> []" "length v = utf8_width (hd v)" by (simp_all add: whole_char_def)
        from rest_at_char [OF at v] plain show ?thesis by (simp add: char_body_def escape_char_literal_def)
      qed
    qed
    from after have "next_is (CHR 0x27) (rest_at whole (Suc i + length (escape_char_literal v)))"
      "tl (rest_at whole (Suc i + length (escape_char_literal v))) = rest_at whole (Suc (Suc i + length (escape_char_literal v)))"
      by (auto simp: next_is_iff byte_of_def tl_rest_at)
    with body show ?thesis by (simp add: char_literal_def)
  qed
  with rest show "\<exists>ch cs. rest_at whole i = (i, ch) # cs \<and> lex_char path line whole (Suc i) ch cs s
      = Ok (push_token (CharLit v) line (Suc i) whole s, rest_at whole (i + length (CHR 0x27 # escape_char_literal v @ [CHR 0x27])))"
    by (auto simp: lex_char_def lex_punctuation_quotes)
qed

end
