(* ===== verification/Format_Roundtrip.thy ===== *)
theory Format_Roundtrip
  imports Format_Levels Lexer_Spelling Parser_Decl
begin

text \<open>
  The front end undoes the printer: an expression that the formatter writes on a line is read back by the
  lexer and the parser as the same expression.
\<close>

section \<open>The text of an expression gives its tokens\<close>

definition closed :: "string \<Rightarrow> bool" where
  "closed t \<longleftrightarrow> t = [] \<or> \<not> is_ident_continue (hd t) \<and> hd t \<noteq> CHR ''.''"

lemma closed_simps [simp]:
  "closed []" "closed (CHR '' '' # t)" "closed (CHR '','' # t)" "closed (CHR '')'' # t)" "closed (CHR '']'' # t)"
  "closed (CHR ''['' # t)" "closed (CHR ''?'' # t)" "closed (CHR '':'' # t)" "closed (CHR ''('' # t)"
  by (simp_all add: closed_def not_word)

lemma lexes_ident: "valid_ident v \<Longrightarrow> t = [] \<or> \<not> is_ident_continue (hd t) \<Longrightarrow> spells v [Ident v] t"
  using lexes_word [of v t] by (simp add: valid_ident_def word_kind_def)

lemma lexes_keyword:
  "map_of keyword_table v = Some w \<Longrightarrow> t = [] \<or> \<not> is_ident_continue (hd t) \<Longrightarrow> spells v [Keyword w] t"
proof -
  assume w: "map_of keyword_table v = Some w" and t: "t = [] \<or> \<not> is_ident_continue (hd t)"
  have table: "list_all (\<lambda>(v, _). v \<noteq> [] \<and> is_ident_start (hd v) \<and> list_all is_ident_continue v \<and> \<not> is_reserved_word v) keyword_table"
    by (simp add: keyword_table_def is_ident_start_def is_ident_continue_def is_ascii_alphabetic_def is_ascii_digit_def
        byte_of_def is_reserved_word_def)
  from map_of_SomeD [OF w] table have "v \<noteq> []" "is_ident_start (hd v)" "list_all is_ident_continue v" "\<not> is_reserved_word v"
    by (auto simp: list_all_iff)
  from lexes_word [OF this t] w show "spells v [Keyword w] t" by (simp add: word_kind_def)
qed

text \<open>A text followed by a token of punctuation.\<close>

lemma lexes_punct_after:
  "spells u ks (punct_text p @ t) \<Longrightarrow> t = [] \<or> hd t \<notin> set (continues p) \<Longrightarrow> spells (u @ punct_text p) (ks @ [Punct p]) t"
  by (rule lexes_append [OF _ lexes_punct])

lemma lexes_space_after: "spells u ks (CHR '' '' # t) \<Longrightarrow> spells (u @ '' '') ks t"
  using lexes_append [of u ks "'' ''" t "[]"] lexes_space by simp

lemma lexes_punct_before:
  "t' = u @ t \<Longrightarrow> t' = [] \<or> hd t' \<notin> set (continues p) \<Longrightarrow> spells u ks t \<Longrightarrow> spells (punct_text p @ u) (Punct p # ks) t"
  using lexes_append [OF lexes_punct, of u t p ks] by simp

lemma lexes_space_before: "spells u ks t \<Longrightarrow> spells (CHR '' '' # u) ks t"
  using lexes_append [OF lexes_space, of u ks t] by simp

lemma lexes_path:
  assumes "valid_path p" "t = [] \<or> \<not> is_ident_continue (hd t)"
  shows "spells (path_text p) (path_kinds p) t"
proof -
  have dots: "join_text ''.'' (v # vs) = v @ concat (map (\<lambda>w. CHR ''.'' # w) vs)" for v vs
    by (induction vs arbitrary: v) simp_all
  have tail: "spells (concat (map (\<lambda>w. CHR ''.'' # w) vs)) (concat (map (\<lambda>w. [Punct PDot, Ident w]) vs)) t"
    if "list_all valid_ident vs" for vs
    using that
  proof (induction vs)
    case Nil
    show ?case by (simp add: lexes_Nil)
  next
    case (Cons v vs)
    have "concat (map (\<lambda>w. CHR ''.'' # w) vs) @ t = [] \<or> \<not> is_ident_continue (hd (concat (map (\<lambda>w. CHR ''.'' # w) vs) @ t))"
      using assms(2) by (cases vs) (auto simp: not_word)
    with Cons have "spells v [Ident v] (concat (map (\<lambda>w. CHR ''.'' # w) vs) @ t)" by (intro lexes_ident) simp_all
    from lexes_append [OF this Cons.IH] Cons.prems
    have "spells (v @ concat (map (\<lambda>w. CHR ''.'' # w) vs)) (Ident v # concat (map (\<lambda>w. [Punct PDot, Ident w]) vs)) t" by simp
    from lexes_punct_before [OF refl _ this, of PDot] show ?case by simp
  qed
  from assms(1) obtain v vs where p: "p = v # vs" "valid_ident v" "list_all valid_ident vs"
    by (cases p) (auto simp: valid_path_def)
  have "concat (map (\<lambda>w. CHR ''.'' # w) vs) @ t = [] \<or> \<not> is_ident_continue (hd (concat (map (\<lambda>w. CHR ''.'' # w) vs) @ t))"
    using assms(2) by (cases vs) (auto simp: not_word)
  from lexes_append [OF lexes_ident [OF p(2) this] tail [OF p(3)]] show ?thesis
    by (simp add: p(1) path_text_def dots)
qed

lemma lexes_commas:
  assumes "\<And>x t. x \<in> set xs \<Longrightarrow> closed t \<Longrightarrow> spells (f x) (k x) t" "closed t"
  shows "spells (join_text '', '' (map f xs)) (comma_kinds (map k xs)) t"
  using assms(1)
proof (induction xs)
  case Nil
  show ?case by (simp add: lexes_Nil)
next
  case (Cons x xs)
  show ?case
  proof (cases xs)
    case Nil
    with Cons.prems assms(2) show ?thesis by simp
  next
    case (Cons y ys)
    let ?rest = "join_text '', '' (map f (y # ys))"
    from Cons.IH Cons.prems Cons have "spells ?rest (comma_kinds (map k (y # ys))) t" by simp
    from lexes_punct_before [OF refl _ lexes_space_before [OF this], of PComma]
    have "spells ('', '' @ ?rest) (Punct PComma # comma_kinds (map k (y # ys))) t" by simp
    from lexes_append [OF _ this, of "f x" "k x"] Cons.prems Cons show ?thesis by simp
  qed
qed

text \<open>The first character.\<close>

lemma show_i64_digits:
  assumes "0 \<le> sint w"
  shows "show_i64 w \<noteq> []" "list_all is_ascii_digit (show_i64 w)" "parse_i64 (show_i64 w) = Some (sint w)"
proof -
  have shown: "show_i64 w = show_nat (nat (sint w))" using assms by (simp add: show_i64_def Let_def)
  have digits: "list_all is_ascii_digit (show_nat n)" for n using show_nat_digits by (simp add: list_all_iff)
  show "show_i64 w \<noteq> []" "list_all is_ascii_digit (show_i64 w)" using digits by (simp_all add: shown)
  have "hd (show_nat n) \<notin> {CHR ''+'', CHR ''-''}" for n
  proof -
    have "is_ascii_digit (hd (show_nat n))" using show_nat_digits hd_in_set [OF show_nat_nonempty] by blast
    then show ?thesis by (auto simp: is_ascii_digit_def byte_of_def)
  qed
  moreover have "sint w < 2 ^ 63" using sint_lt [of w] by simp
  ultimately show "parse_i64 (show_i64 w) = Some (sint w)"
    using assms digits by (simp add: parse_i64_def shown)
qed

lemma path_text_first: "valid_path p \<Longrightarrow> \<exists>c r. path_text p = c # r \<and> is_ident_start c"
proof -
  assume "valid_path p"
  then obtain v vs where p: "p = v # vs" "valid_ident v" by (cases p) (auto simp: valid_path_def)
  then obtain c w where "v = c # w" "is_ident_start c" by (cases v) (auto simp: valid_ident_def)
  with p(1) show ?thesis by (cases vs) (auto simp: path_text_def)
qed

lemma ident_start_chars: "is_ident_start c \<Longrightarrow> c \<notin> {CHR ''='', CHR ''>'', CHR ''-''}"
  by (auto simp: is_ident_start_def is_ascii_alphabetic_def byte_of_def)

lemma digit_first: "is_ascii_digit c \<Longrightarrow> c \<notin> {CHR ''='', CHR ''>'', CHR ''-''}"
  by (auto simp: is_ascii_digit_def byte_of_def)

definition starts_well :: "bool \<Rightarrow> string \<Rightarrow> bool" where
  "starts_well negated t \<longleftrightarrow> t \<noteq> [] \<and> hd t \<notin> {CHR ''='', CHR ''>''} \<and> (hd t = CHR ''-'' \<longrightarrow> negated)"

lemma starts_well_append: "starts_well negated t \<Longrightarrow> starts_well negated (t @ u)"
  by (simp add: starts_well_def)

lemma starts_well_path: "valid_path p \<Longrightarrow> starts_well negated (path_text p)"
  using path_text_first [of p] ident_start_chars by (auto simp: starts_well_def)

lemma spawn_invalid: "\<not> valid_path structured_spawn_path"
  by (simp add: valid_path_def structured_spawn_path_def valid_ident_def is_ident_start_def is_ascii_alphabetic_def
      byte_of_def)

lemma call_text:
  assumes "valid_path callee" "p \<le> 10"
  shows "expr_text (XCall callee [] args) n p
     = path_text callee @ ''('' @ join_text '', '' (map (\<lambda>e. expr_text e n 0) args) @ '')''"
  using assms spawn_invalid by (auto simp: parenthesized_def type_args_text_def)

lemma expr_text_first:
  "writable e \<Longrightarrow> 8 \<le> p \<Longrightarrow> p \<le> 10 \<Longrightarrow> starts_well (p = 8 \<and> is_negation e) (expr_text e n p)"
proof (induction e arbitrary: p rule: writable.induct)
  case (2 base index)
  from "2.IH"(1) [of 10] "2.prems" show ?case by (simp add: starts_well_append parenthesized_def)
next
  case (3 callee targs args)
  then show ?case by (simp add: call_text starts_well_append starts_well_path del: expr_text.simps)
next
  case (4 sname fs)
  then show ?case by (simp add: parenthesized_def starts_well_append starts_well_path)
next
  case (6 e)
  from "6.IH" [of 9] "6.prems" show ?case
    by (cases "p \<le> 9") (simp_all add: parenthesized_def starts_well_def)
next
  case (8 e t)
  then show ?case by (simp add: parenthesized_def starts_well_def)
next
  case (9 op e)
  then show ?case by (cases op; cases "p = 8") (simp_all add: parenthesized_def starts_well_def)
next
  case (10 l op r)
  with binary_precedence_bounds [of op] show ?case by (simp add: parenthesized_def starts_well_def)
next
  case (11 q)
  then show ?case by (simp add: parenthesized_def starts_well_path)
next
  case (13 v)
  then have "is_ascii_digit (hd (show_i64 v))" "show_i64 v \<noteq> []"
    using show_i64_digits [of v] by (cases "show_i64 v"; simp)+
  with digit_first "13.prems" show ?case by (auto simp: parenthesized_def starts_well_def)
next
  case (14 v)
  then have "v \<noteq> []" "is_ascii_digit (hd v)" by (cases v; auto simp: valid_float_def Let_def split: if_splits)+
  with digit_first "14.prems" show ?case by (auto simp: parenthesized_def starts_well_def)
qed (auto simp: starts_well_def parenthesized_def)

section \<open>Levels\<close>

lemma same_text: "writable e \<Longrightarrow> expr_precedence e \<noteq> l \<Longrightarrow> l \<le> 10 \<Longrightarrow> expr_text e n l = expr_text e n (Suc l)"
proof (cases e)
  case (XCall callee targs args)
  assume "writable e" "expr_precedence e \<noteq> l" "l \<le> 10"
  with XCall spawn_invalid show ?thesis by (auto simp: parenthesized_def)
qed (auto simp: parenthesized_def less_Suc_eq)

lemma right_text: "writable r \<Longrightarrow> expr_text r n (right_precedence op r) = expr_text r n (binary_precedence op + 1)"
proof (cases "expr_precedence r = binary_precedence op")
  case True
  assume "writable r"
  with True binary_precedence_bounds [of op] show ?thesis
    by (cases r) (auto simp: right_precedence_def)
next
  case False
  assume r: "writable r"
  have "right_precedence op r = binary_precedence op"
    using False by (cases r) (auto simp: right_precedence_def)
  with same_text [OF r False] binary_precedence_bounds [of op] show ?thesis by simp
qed

section \<open>Expressions\<close>

text \<open>A text between two tokens of punctuation.\<close>

lemma lexes_between:
  assumes "spells u ks (punct_text q @ t)" "continues p = []" "continues q = []"
  shows "spells (punct_text p @ u @ punct_text q) (Punct p # ks @ [Punct q]) t"
  by (rule lexes_punct_before [OF refl]) (use assms in \<open>auto intro!: lexes_punct_after\<close>)

lemma lexes_parens:
  assumes "\<And>t. closed t \<Longrightarrow> spells u ks t" "closed t"
  shows "spells (parenthesized p e u) (paren_kinds p e ks) t"
  using lexes_between [of u ks PRParen t PLParen] assms by (simp add: parenthesized_def paren_kinds_def)

lemma closed_word: "closed t \<Longrightarrow> t = [] \<or> \<not> is_ident_continue (hd t)"
  by (auto simp: closed_def)

lemma op_continues: "CHR '' '' \<notin> set (continues (op_punct op))" "punct_text (op_punct op) = binary_op_text op"
  by (cases op; simp)+

lemma lexes_expr:
  "is_mut_arg e \<or> writable e \<Longrightarrow> closed t \<Longrightarrow> p \<le> 10 \<Longrightarrow> spells (expr_text e n p) (expr_kinds e p) t"
proof (induction e arbitrary: p t rule: writable.induct)
  case (1 es)
  have "spells (join_text '', '' (map (\<lambda>e. expr_text e n 0) es)) (comma_kinds (map (\<lambda>e. expr_kinds e 0) es))
      (punct_text PRBracket @ t)"
    by (rule lexes_commas) (use 1 in \<open>auto simp: list_all_iff\<close>)
  from lexes_between [OF this, of PLBracket] 1 show ?case by (simp add: parenthesized_def)
next
  case (2 base index)
  have "spells (expr_text index n 0) (expr_kinds index 0) (punct_text PRBracket @ t)"
    using 2 by simp
  from lexes_between [OF this, of PLBracket]
  have "spells (''['' @ expr_text index n 0 @ '']'') (Punct PLBracket # expr_kinds index 0 @ [Punct PRBracket]) t" by simp
  from lexes_append [OF _ this, of "expr_text base n 10" "expr_kinds base 10"] 2 show ?case
    by (simp add: parenthesized_def)
next
  case (3 callee targs args)
  have "spells (join_text '', '' (map (\<lambda>e. expr_text e n 0) args)) (comma_kinds (map (\<lambda>e. expr_kinds e 0) args))
      (punct_text PRParen @ t)"
    by (rule lexes_commas) (use 3 in \<open>auto simp: list_all_iff\<close>)
  from lexes_between [OF this, of PLParen]
  have "spells (''('' @ join_text '', '' (map (\<lambda>e. expr_text e n 0) args) @ '')'')
      (Punct PLParen # comma_kinds (map (\<lambda>e. expr_kinds e 0) args) @ [Punct PRParen]) t" by simp
  from lexes_append [OF lexes_path this, of callee] 3 call_text [of callee p args n] show ?case
    by (simp add: not_word del: expr_text.simps)
next
  case (4 sname fs)
  show ?case
  proof (cases "fs = []")
    case True
    have "spells (punct_text PLBrace @ [] @ punct_text PRBrace) (Punct PLBrace # [] @ [Punct PRBrace]) t"
      by (rule lexes_between) (simp_all add: lexes_Nil)
    from lexes_append [OF lexes_path lexes_space_before [OF this], of sname] 4 True show ?thesis
      by (simp add: parenthesized_def not_word)
  next
    case False
    let ?text = "\<lambda>(name, e). name @ '': '' @ expr_text e n 0"
    let ?kinds = "\<lambda>(f, e). Ident f # Punct PColon # expr_kinds e 0"
    have field: "spells (?text x) (?kinds x) t'" if x: "x \<in> set fs" "closed t'" for x t'
    proof -
      obtain f e where f: "x = (f, e)" "valid_ident f" "writable e" using 4(2) x(1) by (cases x) (auto simp: list_all_iff)
      from 4(1) x f have "spells (expr_text e n 0) (expr_kinds e 0) t'" by auto
      from lexes_punct_before [OF refl _ lexes_space_before [OF this], of PColon]
      have "spells ('': '' @ expr_text e n 0) (Punct PColon # expr_kinds e 0) t'" by simp
      from lexes_append [OF lexes_ident [OF f(2)] this] show ?thesis by (simp add: f(1) not_word)
    qed
    have "spells (join_text '', '' (map ?text fs)) (comma_kinds (map ?kinds fs)) (CHR '' '' # punct_text PRBrace @ t)"
      by (rule lexes_commas) (use field in auto)
    from lexes_space_before [OF lexes_space_after [OF this]]
    have "spells (CHR '' '' # join_text '', '' (map ?text fs) @ '' '') (comma_kinds (map ?kinds fs)) (punct_text PRBrace @ t)"
      by simp
    from lexes_space_before [OF lexes_between [OF this, of PLBrace]]
    have "spells ('' { '' @ join_text '', '' (map ?text fs) @ '' }'') (Punct PLBrace # comma_kinds (map ?kinds fs) @ [Punct PRBrace]) t"
      by simp
    from lexes_append [OF lexes_path this, of sname] 4 False show ?thesis
      by (simp add: parenthesized_def not_word)
  qed
next
  case (5 e)
  have "spells (expr_text e n 0) (expr_kinds e 0) (punct_text PRParen @ t)" using 5 by simp
  from lexes_between [OF this, of PLParen]
  have "spells (''('' @ expr_text e n 0 @ '')'') (Punct PLParen # expr_kinds e 0 @ [Punct PRParen]) t" by simp
  from lexes_append [OF lexes_keyword this, of "''panic''" KwPanic] 5 show ?case
    by (simp add: parenthesized_def not_word keyword_table_def)
next
  case (6 e)
  have "spells (expr_text e n 9 @ punct_text PQuestion) (expr_kinds e 9 @ [Punct PQuestion]) t'" if "closed t'" for t'
    by (rule lexes_punct_after) (use 6 in auto)
  from lexes_parens [OF this 6(3), of p "XQuestion e"] show ?case by simp
next
  case (7 q)
  from 7 lexes_path [of q t] have "spells (path_text q) (path_kinds q) t" by (simp add: closed_word)
  from lexes_append [OF lexes_keyword lexes_space_before [OF this], of "''mut''" KwMut] 7 show ?case
    by (simp add: parenthesized_def not_word keyword_table_def)
next
  case (8 e ty)
  obtain q where ty: "ty = TypeRef q []" "valid_path q" "q \<noteq> [TASK_CALLBACK_TYPE_PATH]" using 8(2) by (cases ty) auto
  have "spells (expr_text e n 7 @ '' as '' @ path_text q) (expr_kinds e 7 @ Keyword KwAs # path_kinds q) t'"
    if t': "closed t'" for t'
  proof -
    from lexes_path [OF ty(2) closed_word [OF t']] have "spells (path_text q) (path_kinds q) t'" .
    from lexes_append [OF lexes_keyword lexes_space_before [OF this], of "''as''" KwAs]
    have "spells (''as '' @ path_text q) (Keyword KwAs # path_kinds q) t'" by (simp add: not_word keyword_table_def)
    from lexes_append [OF _ lexes_space_before [OF this], of "expr_text e n 7" "expr_kinds e 7"] 8 show ?thesis by simp
  qed
  from lexes_parens [OF this 8(3), of p "XCast e ty"] ty show ?case by simp
next
  case (9 op e)
  then have e: "writable e" "\<not> (op = UnNegate \<and> is_negation e)" by auto
  have "spells (unary_op_text op @ expr_text e n 8) (Punct (unary_punct op) # expr_kinds e 8) t'" if "closed t'" for t'
  proof -
    have "spells (expr_text e n 8) (expr_kinds e 8) t'" using 9 e that by simp
    from lexes_punct_before [OF refl _ this, of "unary_punct op"] expr_text_first [OF e(1), of 8 n] e(2)
    show ?thesis by (cases op) (auto simp: starts_well_def)
  qed
  from lexes_parens [OF this 9(3), of p "XUnary op e"] show ?case by simp
next
  case (10 l op r)
  then have w: "writable l" "writable r" by auto
  let ?l = "binary_precedence op" let ?r = "expr_text r n (?l + 1)"
  have "spells (expr_text l n ?l @ '' '' @ binary_op_text op @ '' '' @ ?r)
      (expr_kinds l ?l @ Punct (op_punct op) # expr_kinds r (?l + 1)) t'" if t': "closed t'" for t'
  proof -
    have "spells ?r (expr_kinds r (?l + 1)) t'" using 10 w t' binary_precedence_bounds [of op] by simp
    from lexes_punct_before [OF refl _ lexes_space_before [OF this], of "op_punct op"] op_continues [of op]
    have "spells (binary_op_text op @ '' '' @ ?r) (Punct (op_punct op) # expr_kinds r (?l + 1)) t'" by simp
    from lexes_append [OF _ lexes_space_before [OF this], of "expr_text l n ?l" "expr_kinds l ?l"] 10 w
      binary_precedence_bounds [of op] show ?thesis by simp
  qed
  from lexes_parens [OF this 10(4), of p "XBinary l op r"] right_text [OF w(2), of n op] show ?case by simp
next
  case (11 q)
  with lexes_path [of q t] show ?case by (simp add: parenthesized_def closed_word)
next
  case (12 v)
  with lexes_string [of v t] show ?case by (simp add: parenthesized_def utf8_text_complete)
next
  case (13 v)
  then have "0 \<le> sint v" by simp
  from show_i64_digits [OF this] lexes_number [of "show_i64 v" "sint v" t] 13 show ?case
    by (auto simp: parenthesized_def closed_def digit_continue dest: digit_continue)
next
  case (14 v)
  let ?w = "takeWhile is_ascii_digit v" let ?rest = "dropWhile is_ascii_digit v"
  from 14 have float: "?w \<noteq> []" "?rest \<noteq> []" "hd ?rest = CHR ''.''" "tl ?rest \<noteq> []" "list_all is_ascii_digit (tl ?rest)"
    unfolding writable.simps is_mut_arg.simps valid_float_def Let_def by blast+
  then have v: "?w \<noteq> []" "?rest = CHR ''.'' # tl ?rest" "tl ?rest \<noteq> []" "list_all is_ascii_digit (tl ?rest)"
    by (metis list.collapse)+
  have eq: "?w @ CHR ''.'' # tl ?rest = v" using v(2) by (metis takeWhile_dropWhile_id)
  have "list_all is_ascii_digit ?w" by (auto simp: list_all_iff dest: set_takeWhileD)
  from lexes_float [OF v(1) this v(3,4), of t] 14 show ?case
    unfolding eq by (auto simp: parenthesized_def closed_def dest: digit_continue)
next
  case (15 v)
  then have "whole_char v" using chars_of_nonempty [of v v] by (auto simp: whole_char_def utf8_text_def)
  with lexes_char [of v t] 15 show ?case by (simp add: parenthesized_def)
next
  case (16 b)
  with lexes_keyword [of "''true''" KwTrue t] lexes_keyword [of "''false''" KwFalse t] show ?case
    by (simp add: parenthesized_def closed_word keyword_table_def)
next
  case 17
  with lexes_keyword [of "''void''" KwVoid t] show ?case
    by (simp add: parenthesized_def closed_word keyword_table_def)
qed auto

section \<open>An expression is on one line\<close>

definition unbroken :: "string \<Rightarrow> bool" where
  "unbroken t \<longleftrightarrow> CHR 0x0A \<notin> set t \<and> CHR 0x0D \<notin> set t"

lemma unbroken_append [simp]: "unbroken (a @ b) \<longleftrightarrow> unbroken a \<and> unbroken b"
  by (auto simp: unbroken_def)

lemma unbroken_Cons: "unbroken (c # t) \<longleftrightarrow> c \<noteq> CHR 0x0A \<and> c \<noteq> CHR 0x0D \<and> unbroken t"
  by (auto simp: unbroken_def)

lemma unbroken_Nil: "unbroken []"
  by (simp add: unbroken_def)

lemmas unbroken_simps = unbroken_Cons unbroken_Nil

lemma unbroken_join: "unbroken sep \<Longrightarrow> list_all unbroken us \<Longrightarrow> unbroken (join_text sep us)"
  by (induction sep us rule: join_text.induct) (simp_all add: unbroken_Nil)

lemma breaks_end_words:
  "\<not> is_ident_continue (CHR 0x0A)" "\<not> is_ident_continue (CHR 0x0D)"
  "\<not> is_ascii_digit (CHR 0x0A)" "\<not> is_ascii_digit (CHR 0x0D)"
  by (simp_all add: is_ident_continue_def is_ascii_digit_def is_ascii_alphabetic_def byte_of_def)

lemma unbroken_classes: "list_all is_ident_continue v \<Longrightarrow> unbroken v" "list_all is_ascii_digit v \<Longrightarrow> unbroken v"
  using breaks_end_words by (auto simp: unbroken_def list_all_iff)

lemma unbroken_ident: "valid_ident v \<Longrightarrow> unbroken v"
  by (rule unbroken_classes(1)) (simp add: valid_ident_def)

lemma unbroken_path: "valid_path p \<Longrightarrow> unbroken (path_text p)"
  unfolding path_text_def valid_path_def
  by (rule unbroken_join) (auto simp: unbroken_simps elim: list.pred_mono_strong intro: unbroken_ident)

lemma unbroken_escaped:
  assumes "length ch = 1 \<or> list_all (\<lambda>c. 128 \<le> byte_of c) ch" "quote \<noteq> CHR 0x0A" "quote \<noteq> CHR 0x0D"
  shows "unbroken (escaped quote ch)"
proof (cases "length ch = 1")
  case True
  then obtain c where "ch = [c]" by (cases ch) auto
  with assms(2,3) show ?thesis by (auto simp: escaped_def unbroken_simps backslash_def)
next
  case False
  with assms(1) have "unbroken ch" by (auto simp: unbroken_def list_all_iff byte_of_def)
  with False show ?thesis by (auto simp: escaped_def)
qed

lemma unbroken_parens: "unbroken t \<Longrightarrow> unbroken (parenthesized p e t)"
  by (simp add: parenthesized_def unbroken_simps)

lemma unbroken_expr: "is_mut_arg e \<or> writable e \<Longrightarrow> unbroken (expr_text e n p)"
proof (induction e arbitrary: n p rule: writable.induct)
  case (1 es)
  then show ?case by (auto simp: list_all_iff unbroken_simps intro!: unbroken_parens unbroken_join)
next
  case (3 callee targs args)
  then show ?case
    by (auto simp: list_all_iff unbroken_simps unbroken_path type_args_text_def spawn_invalid
        intro!: unbroken_parens unbroken_join)
next
  case (4 sname fs)
  have "unbroken (expr_text e n 0)" if "(f, e) \<in> set fs" for f e
    using "4.IH" [OF that refl] "4.prems" that by (auto simp: list_all_iff)
  with 4 show ?case
    by (auto simp: list_all_iff unbroken_simps unbroken_path unbroken_ident split_beta
        intro!: unbroken_parens unbroken_join)
next
  case (8 e ty)
  then show ?case by (cases ty) (auto simp: unbroken_simps unbroken_path intro!: unbroken_parens)
next
  case (9 op e)
  then show ?case by (cases op) (auto simp: unbroken_simps intro!: unbroken_parens)
next
  case (10 l op r)
  have "unbroken (binary_op_text op)" by (cases op) (simp_all add: unbroken_simps)
  with 10 show ?case by (auto simp: unbroken_simps intro!: unbroken_parens)
next
  case (12 v)
  then have "unbroken (escape_string v)"
    by (auto simp: escape_string_def utf8_text_def list_all_iff unbroken_def [of "concat _"]
        dest!: unbroken_escaped [where quote = "CHR 0x22", unfolded unbroken_def, simplified])
  then show ?case by (auto simp: unbroken_simps intro!: unbroken_parens)
next
  case (13 v)
  then show ?case using show_i64_digits [of v] unbroken_classes(2) by (auto intro!: unbroken_parens)
next
  case (14 v)
  let ?w = "takeWhile is_ascii_digit v" let ?rest = "dropWhile is_ascii_digit v"
  from 14 have rest: "?rest = CHR ''.'' # tl ?rest" "list_all is_ascii_digit (tl ?rest)"
    by (cases ?rest; auto simp: valid_float_def Let_def)+
  have "list_all is_ascii_digit ?w" by (auto simp: list_all_iff dest: set_takeWhileD)
  then have "unbroken ?w" "unbroken (tl ?rest)" using rest(2) unbroken_classes(2) by blast+
  then have joined: "unbroken (?w @ CHR ''.'' # tl ?rest)" unfolding unbroken_append unbroken_Cons by simp
  have "?w @ CHR ''.'' # tl ?rest = v" using rest(1) by (metis takeWhile_dropWhile_id)
  with joined have "unbroken v" by (simp only:)
  then show ?case by (auto intro!: unbroken_parens)
next
  case (15 v)
  then have "unbroken (escaped (CHR 0x27) v)" by (auto simp: utf8_text_def intro!: unbroken_escaped)
  then show ?case by (auto simp: unbroken_simps escape_char_literal_def intro!: unbroken_parens)
qed (auto simp: unbroken_simps unbroken_path intro!: unbroken_parens)

lemma spells_nothing: "spells [] ks [] \<Longrightarrow> ks = []"
proof -
  let ?s = "\<lparr>lx_tokens = [], lx_depth = 0, lx_start = None\<rparr>"
  assume "spells [] ks []"
  then have "\<exists>s'. lex_line [] 1 [] (rest_at [] 0) ?s = lex_line [] 1 [] (rest_at [] (0 + length [])) s'
      \<and> lx_depth s' = 0 \<and> lx_start s' = lx_start ?s
      \<and> map tok_kind (lx_tokens s') = map tok_kind (lx_tokens ?s) @ ks"
    unfolding spells_def by (elim allE [where x = "[]"], elim allE [where x = 1], elim allE [where x = "[]"],
        elim allE [where x = 0], elim allE [where x = ?s]) simp
  then show ?thesis by (auto simp: rest_at_end)
qed

lemma expr_text_nonempty: "writable e \<Longrightarrow> expr_text e n 0 \<noteq> []"
  using spells_nothing [of "expr_kinds e 0"] lexes_expr [where e = e and p = 0 and t = "[]" and n = n] expr_kinds_first [of e 0] by auto

section \<open>Reading back\<close>

text \<open>The text of a source file of one line.\<close>

definition read_expr :: "string \<Rightarrow> string \<Rightarrow> (diagnostic + expr) option" where
  "read_expr path t = (case lex path t of
       Inl e \<Rightarrow> Some (Err e)
     | Inr tokens \<Rightarrow> map_option (map_ok fst) (parse_expr (parser_new path tokens)))"

definition one_line :: "string \<Rightarrow> bool" where
  "one_line t \<longleftrightarrow> t \<noteq> [] \<and> list_all (\<lambda>c. c \<noteq> CHR 0x0A) t \<and> last t \<noteq> CHR 0x0D"

lemma str_lines_one: "one_line t \<Longrightarrow> str_lines t = [t]"
proof -
  assume t: "one_line t"
  have "list_all (\<lambda>c. c \<noteq> CHR 0x0A) u \<Longrightarrow> split_by (\<lambda>c. c = CHR 0x0A) u = [u]" for u
    by (induction u) auto
  with t show ?thesis by (simp add: one_line_def str_lines_def strip_carriage_return_def)
qed

lemma lex_one_line:
  assumes "one_line t" "spells t ks []"
  obtains tokens where "lex path t = Ok tokens" "map tok_kind tokens = ks @ [Newline, Eof]"
proof -
  let ?s = "\<lparr>lx_tokens = [], lx_depth = 0, lx_start = None\<rparr>"
  from assms(2) have "\<exists>s'. lex_line path 1 t (rest_at t 0) ?s = lex_line path 1 t (rest_at t (0 + length t)) s'
      \<and> lx_depth s' = 0 \<and> lx_start s' = lx_start ?s
      \<and> map tok_kind (lx_tokens s') = map tok_kind (lx_tokens ?s) @ ks"
    unfolding spells_def by (elim allE [where x = path], elim allE [where x = 1], elim allE [where x = t],
        elim allE [where x = 0], elim allE [where x = ?s]) simp
  then obtain s' where s': "lex_line path 1 t (char_indices t) ?s = Ok s'" "lx_start s' = None"
    "map tok_kind (lx_tokens s') = ks"
    by (auto simp: rest_at_0 rest_at_end)
  show thesis
  proof (rule that)
    show "lex path t = Ok (lx_tokens s' @ [make_token Newline 1 (length t + 1) t,
        \<lparr>tok_kind = Eof, tok_line = 1, tok_column = 1, tok_text = []\<rparr>])"
      using s' by (simp add: lex_def str_lines_one [OF assms(1)] push_token_def)
    show "map tok_kind (lx_tokens s' @ [make_token Newline 1 (length t + 1) t,
        \<lparr>tok_kind = Eof, tok_line = 1, tok_column = 1, tok_text = []\<rparr>]) = ks @ [Newline, Eof]"
      using s'(3) by (simp add: make_token_def)
  qed
qed

lemma one_line_expr: "writable e \<Longrightarrow> one_line (expr_text e n 0)"
  using unbroken_expr [of e n 0] expr_text_nonempty [of e n]
  by (auto simp: one_line_def unbroken_def list_all_iff dest: last_in_set)

text \<open>The tokens of an expression are those of its text.\<close>

lemma expr_text_tokens:
  assumes "writable e"
  shows "\<exists>tokens. lex path (expr_text e n 0) = Ok tokens \<and> map tok_kind tokens = expr_kinds e 0 @ [Newline, Eof]"
proof -
  have "spells (expr_text e n 0) (expr_kinds e 0) []" by (rule lexes_expr) (use assms in simp_all)
  from lex_one_line [OF one_line_expr [OF assms] this, of path] show ?thesis by blast
qed

lemma read_expr_text:
  assumes "writable e" "calm (expr_kinds e 0)"
  shows "read_expr path (expr_text e n 0) = Some (Ok e)"
proof -
  from expr_text_tokens [OF assms(1)] obtain tokens where
    tokens: "lex path (expr_text e n 0) = Ok tokens" "map tok_kind tokens = expr_kinds e 0 @ [Newline, Eof]" by blast
  have rest: "stops 0 [Newline, Eof]" by (simp add: stops.simps level_ops starts_try_operand_def)
  have "settled tokens (parser_new path tokens)"
    using assms(2) tokens(2) by (simp add: settled_def parser_new_def calm_def)
  moreover have "kinds_at (parser_new path tokens) = expr_kinds e 0 @ [Newline, Eof]"
    by (simp add: kinds_at_def parser_new_def tokens(2))
  ultimately obtain s' where "parse_expr (parser_new path tokens) = Some (Ok (e, s'))"
    by (rule parse_expr_reads [OF assms(1) rest])
  then show ?thesis by (simp add: read_expr_def tokens(1))
qed

text \<open>Without calm the text need not be read back: the formatter takes the parentheses of \<open>(a) < b && c > (d)\<close>
  away, and the parser takes what is left for a call with type arguments.\<close>

lemma calm_needed:
  "let e = XBinary (XBinary (XName [''a'']) BinLess (XName [''b''])) BinLogicalAnd
       (XBinary (XName [''c'']) BinGreater
          (XBinary (XBinary (XName [''d'']) BinAdd (XName [''e''])) BinMultiply (XInt 2)))
   in writable e \<and> expr_text e 0 0 = ''a < b && c > (d + e) * 2''
     \<and> (case read_expr ''main.nomo'' (expr_text e 0 0) of Some (Inl d) \<Rightarrow> dg_code d = ''E0236'' | _ \<Rightarrow> False)"
  by code_simp

text \<open>C8. What the formatter prints for an expression is read back by the lexer and the parser as the same
  expression, nothing of it lost and no operand regrouped: the parentheses, the spaces and the escapes it
  writes are enough. This holds for the writable expressions whose tokens are calm. Writable: names are
  identifiers and not the internal paths of tasks, literals are those of the language, there is no \<open>if\<close>, no \<open>match\<close> and no type argument in it, it
  does not negate a negation, and no operand before \<open><\<close> ends with a cast. Calm: the tokens do not hold both \<open><\<close>
  and one of \<open>>\<close> and \<open>>>\<close>, which the parser may take for type arguments (\<open>calm_needed\<close>).\<close>
theorem formatted_expr_reads_back:
  assumes "writable e" "calm (expr_kinds e 0)"
  shows "read_expr path (expr_text e indent 0) = Some (Ok e)"
  using assms by (rule read_expr_text)

definition example_expr :: expr where
  "example_expr = XBinary (XBinary (XName [''a'']) BinAdd (XName [''b'', ''c''])) BinMultiply
     (XUnary UnNegate (XCall [''f''] [] [XString [CHR 0x22, CHR 0x0A], XArrayLiteral [XInt 1, XCast (XName [''x'']) (TypeRef [''f64''] [])],
        XQuestion (XIndex (XName [''m'']) (XBinary (XInt 1) BinSubtract (XBinary (XInt 2) BinSubtract (XInt 3))))]))"

definition example_line :: string where
  "example_line = ''(a + b.c) * -f('' @ [CHR 0x22, backslash, CHR 0x22, backslash, CHR ''n'', CHR 0x22]
     @ '', [1, x as f64], m[1 - (2 - 3)]?)''"

theorem formatted_expr_reads_back_witness:
  "expr_text example_expr 0 0 = example_line \<and> read_expr ''main.nomo'' example_line = Some (Ok example_expr)"
proof -
  have line: "expr_text example_expr 0 0 = example_line" by code_simp
  moreover have "writable example_expr" by code_simp
  moreover have "calm (expr_kinds example_expr 0)" by code_simp
  ultimately show ?thesis using formatted_expr_reads_back [where e = example_expr and indent = 0 and path = "''main.nomo''"] by simp
qed

end
