(* ===== verification/Ordered_Map.thy ===== *)
theory Ordered_Map
  imports Prelude
begin

text \<open>
  The ordered collections of the Rust standard library that the program iterates over:
  \<open>BTreeMap<K, V>\<close> is an association list with strictly increasing keys, \<open>BTreeSet<K>\<close> a strictly
  increasing list. Their iteration order is the list order, so every loop of the source over such a
  collection is a recursion over the list.

  The interface the components use is the locale \<open>ordered_map\<close>; the association lists are its
  interpretation, and the components call the operations and the laws through it.
\<close>

section \<open>The interface\<close>

locale ordered_map =
  fixes get :: "'m \<Rightarrow> 'k::linorder \<Rightarrow> 'v option"
    and put :: "'k \<Rightarrow> 'v \<Rightarrow> 'm \<Rightarrow> 'm"
    and keys :: "'m \<Rightarrow> 'k list"
    and empty_map :: "'m"
    and wf :: "'m \<Rightarrow> bool"
  assumes get_empty: "get empty_map k = None"
    and wf_empty: "wf empty_map"
    and get_put: "wf m \<Longrightarrow> get (put k v m) l = (if l = k then Some v else get m l)"
    and wf_put: "wf m \<Longrightarrow> wf (put k v m)"
    and keys_get: "wf m \<Longrightarrow> k \<in> set (keys m) \<longleftrightarrow> get m k \<noteq> None"
    and keys_sorted: "wf m \<Longrightarrow> sorted_wrt (<) (keys m)"
begin

lemma get_put_same: "wf m \<Longrightarrow> get (put k v m) k = Some v"
  by (simp add: get_put)

lemma get_put_other: "wf m \<Longrightarrow> l \<noteq> k \<Longrightarrow> get (put k v m) l = get m l"
  by (simp add: get_put)

lemma keys_distinct: "wf m \<Longrightarrow> distinct (keys m)"
  using keys_sorted strict_sorted_iff by blast

lemma set_keys_put: "wf m \<Longrightarrow> set (keys (put k v m)) = insert k (set (keys m))"
  by (auto simp: keys_get wf_put get_put split: if_splits)

lemma keys_empty: "keys empty_map = []"
  using keys_get [OF wf_empty] get_empty by (metis list.set_intros(1) neq_Nil_conv)

lemma get_None_keys: "wf m \<Longrightarrow> get m k = None \<longleftrightarrow> k \<notin> set (keys m)"
  by (simp add: keys_get)

text \<open>A map is grown by at most one key, and by none when the key is present.\<close>

lemma length_keys_put:
  assumes "wf m"
  shows "length (keys (put k v m)) = (if get m k = None then Suc (length (keys m)) else length (keys m))"
proof -
  have card: "length (keys n) = card (set (keys n))" if "wf n" for n
    using keys_distinct [OF that] by (simp add: distinct_card)
  show ?thesis
    using assms by (simp add: card wf_put set_keys_put keys_get card_insert_if)
qed

lemma put_commute_get:
  "wf m \<Longrightarrow> k \<noteq> l \<Longrightarrow> get (put k v (put l w m)) = get (put l w (put k v m))"
  by (rule ext) (simp add: get_put wf_put)

lemma keys_eqI:
  assumes "wf m" "wf n" "\<And>k. get m k = None \<longleftrightarrow> get n k = None"
  shows "keys m = keys n"
proof -
  have "set (keys m) = set (keys n)"
    using assms by (auto simp: keys_get)
  then show ?thesis
    using keys_sorted [OF assms(1)] keys_sorted [OF assms(2)] strict_sorted_equal by blast
qed

end

section \<open>Association lists with increasing keys\<close>

type_synonym ('k, 'v) btree_map = "('k \<times> 'v) list"

definition bt_get :: "('k, 'v) btree_map \<Rightarrow> 'k \<Rightarrow> 'v option" where
  "bt_get m k = map_of m k"

fun bt_insert :: "'k::linorder \<Rightarrow> 'v \<Rightarrow> ('k, 'v) btree_map \<Rightarrow> ('k, 'v) btree_map" where
  "bt_insert k v [] = [(k, v)]"
| "bt_insert k v (e # m) =
     (if fst e < k then e # bt_insert k v m
      else if k < fst e then (k, v) # e # m
      else (k, v) # m)"

definition bt_keys :: "('k, 'v) btree_map \<Rightarrow> 'k list" where
  "bt_keys m = map fst m"

definition bt_wf :: "('k::linorder, 'v) btree_map \<Rightarrow> bool" where
  "bt_wf m \<longleftrightarrow> sorted_wrt (<) (map fst m)"

lemma bt_get_simps [simp]:
  "bt_get [] k = None"
  "bt_get (e # m) k = (if k = fst e then Some (snd e) else bt_get m k)"
  by (cases e; simp add: bt_get_def)+

lemma set_keys_bt_insert: "fst ` set (bt_insert k v m) = insert k (fst ` set m)"
  by (induction m) auto

lemma bt_wf_insert: "bt_wf m \<Longrightarrow> bt_wf (bt_insert k v m)"
proof (induction m)
  case (Cons e m)
  then show ?case
    by (auto simp: bt_wf_def set_keys_bt_insert)
qed (simp add: bt_wf_def)

lemma bt_get_smaller: "bt_wf (e # m) \<Longrightarrow> k < fst e \<Longrightarrow> bt_get m k = None"
  by (auto simp: bt_wf_def bt_get_def map_of_eq_None_iff)

lemma bt_get_insert: "bt_wf m \<Longrightarrow> bt_get (bt_insert k v m) l = (if l = k then Some v else bt_get m l)"
proof (induction m)
  case (Cons e m)
  then have "bt_wf m" by (simp add: bt_wf_def)
  with Cons show ?case by (auto simp: not_less_iff_gr_or_eq)
qed simp

interpretation bt: ordered_map bt_get bt_insert bt_keys "[]" bt_wf
proof unfold_locales
  show "bt_get (bt_insert k v m) l = (if l = k then Some v else bt_get m l)" if "bt_wf m"
    for m :: "('a, 'b) btree_map" and k v l
    using that by (rule bt_get_insert)
  show "bt_wf (bt_insert k v m)" if "bt_wf m" for m :: "('a, 'b) btree_map" and k v
    using that by (rule bt_wf_insert)
qed (auto simp: bt_wf_def bt_keys_def bt_get_def map_of_eq_None_iff)

lemmas bt_laws = bt.get_put bt.wf_put bt.wf_empty bt.get_empty

text \<open>\<open>BTreeMap::contains_key\<close>, \<open>len\<close>, \<open>remove\<close> and the values in key order.\<close>

definition bt_contains_key :: "('k, 'v) btree_map \<Rightarrow> 'k \<Rightarrow> bool" where
  "bt_contains_key m k \<longleftrightarrow> bt_get m k \<noteq> None"

definition bt_remove :: "'k \<Rightarrow> ('k, 'v) btree_map \<Rightarrow> ('k, 'v) btree_map" where
  "bt_remove k m = filter (\<lambda>e. fst e \<noteq> k) m"

lemma bt_get_remove: "bt_get (bt_remove k m) l = (if l = k then None else bt_get m l)"
  by (induction m) (auto simp: bt_remove_def)

lemma bt_wf_remove: "bt_wf m \<Longrightarrow> bt_wf (bt_remove k m)"
  by (induction m) (auto simp: bt_wf_def bt_remove_def)

text \<open>Applying a function to every value in place (\<open>values_mut\<close>).\<close>

definition bt_map_values :: "('v \<Rightarrow> 'w) \<Rightarrow> ('k, 'v) btree_map \<Rightarrow> ('k, 'w) btree_map" where
  "bt_map_values f m = map (\<lambda>(k, v). (k, f v)) m"

lemma bt_get_map_values [simp]: "bt_get (bt_map_values f m) k = map_option f (bt_get m k)"
  by (induction m) (auto simp: bt_map_values_def)

lemma bt_wf_map_values [simp]: "bt_wf (bt_map_values f m) \<longleftrightarrow> bt_wf m"
  by (simp add: bt_wf_def bt_map_values_def case_prod_unfold comp_def)

lemma bt_keys_map_values [simp]: "bt_keys (bt_map_values f m) = bt_keys m"
  by (simp add: bt_keys_def bt_map_values_def case_prod_unfold comp_def)

lemma bt_get_in_set: "bt_get m k = Some v \<Longrightarrow> (k, v) \<in> set m"
  by (simp add: bt_get_def map_of_SomeD)

lemma bt_get_iff_in_set: "bt_wf m \<Longrightarrow> bt_get m k = Some v \<longleftrightarrow> (k, v) \<in> set m"
  by (simp add: bt_get_def bt_wf_def strict_sorted_iff)

section \<open>Ordered sets\<close>

definition bs_insert :: "'a::linorder \<Rightarrow> 'a list \<Rightarrow> 'a list" where
  "bs_insert x xs = insort_insert x xs"

definition bs_remove :: "'a::linorder \<Rightarrow> 'a list \<Rightarrow> 'a list" where
  "bs_remove x xs = filter (\<lambda>y. y \<noteq> x) xs"

definition bs_wf :: "'a::linorder list \<Rightarrow> bool" where
  "bs_wf xs \<longleftrightarrow> sorted_wrt (<) xs"

lemma set_bs_insert [simp]: "set (bs_insert x xs) = insert x (set xs)"
  by (simp add: bs_insert_def set_insort_insert)

lemma bs_wf_insert [wf_intros]: "bs_wf xs \<Longrightarrow> bs_wf (bs_insert x xs)"
  by (simp add: bs_wf_def bs_insert_def strict_sorted_iff distinct_insort_insert sorted_insort_insert)

lemma set_bs_remove [simp]: "set (bs_remove x xs) = set xs - {x}"
  by (auto simp: bs_remove_def)

lemma bs_wf_remove [wf_intros]: "bs_wf xs \<Longrightarrow> bs_wf (bs_remove x xs)"
  by (simp add: bs_wf_def bs_remove_def sorted_wrt_filter)

lemma bs_wf_Nil [simp]: "bs_wf []"
  by (simp add: bs_wf_def)

lemma bs_eqI: "bs_wf xs \<Longrightarrow> bs_wf ys \<Longrightarrow> set xs = set ys \<Longrightarrow> xs = ys"
  unfolding bs_wf_def by (rule strict_sorted_equal)

lemma bs_wf_distinct: "bs_wf xs \<Longrightarrow> distinct xs"
  by (simp add: bs_wf_def strict_sorted_iff)

definition bs_of_list :: "'a::linorder list \<Rightarrow> 'a list" where
  "bs_of_list xs = fold bs_insert xs []"

lemma fold_bs_insert: "bs_wf acc \<Longrightarrow> bs_wf (fold bs_insert xs acc) \<and> set (fold bs_insert xs acc) = set xs \<union> set acc"
  by (induction xs arbitrary: acc) (auto simp: bs_wf_insert)

lemma set_bs_of_list [simp]: "set (bs_of_list xs) = set xs"
  using fold_bs_insert [of "[]" xs] by (simp add: bs_of_list_def)

lemma bs_wf_of_list [simp]: "bs_wf (bs_of_list xs)"
  using fold_bs_insert [of "[]" xs] by (simp add: bs_of_list_def)

end
