(* ===== verification/Format_Layout.thy ===== *)
theory Format_Layout
  imports Lexer Ordered_Map
begin

text \<open>
  What the formatter takes from the source beside the tree: the comments, \<open>crates/nomo_fmt/src/trivia.rs\<close>, and
  the order of the items and the lines of their members, \<open>crates/nomo_fmt/src/layout.rs\<close>. An index into the
  tokens becomes the list of the tokens from there on.
\<close>

section \<open>Comments\<close>

record format_trivia =
  ft_leading :: "(nat, string list) btree_map"
  ft_trailing :: "(nat, string) btree_map"

record raw_comment =
  rc_end_line :: nat
  rc_lines :: "string list"

datatype comment_kind = LineComment | BlockComment

fun skip_quoted :: "string \<Rightarrow> chars \<Rightarrow> chars" where
  "skip_quoted quote [] = []"
| "skip_quoted quote ((i, ch) # cs) =
     (if ch = [backslash] then (case cs of [] \<Rightarrow> [] | _ # cs' \<Rightarrow> skip_quoted quote cs')
      else if ch = quote then cs
      else skip_quoted quote cs)"

lemma skip_quoted_length: "length (skip_quoted quote cs) \<le> length cs"
proof (induction quote cs rule: skip_quoted.induct)
  case (2 quote i ch cs)
  then show ?case by (cases cs) (auto intro: le_SucI)
qed simp

function find_comment_start_in :: "chars \<Rightarrow> (nat \<times> comment_kind) option" where
  "find_comment_start_in [] = None"
| "find_comment_start_in ((i, ch) # cs) =
     (if ch = [CHR 0x22] \<or> ch = [CHR 0x27] then find_comment_start_in (skip_quoted ch cs)
      else if ch = ''/'' \<and> next_is (CHR ''/'') cs then Some (i, LineComment)
      else if ch = ''/'' \<and> next_is (CHR ''*'') cs then Some (i, BlockComment)
      else find_comment_start_in cs)"
  by pat_completeness auto
termination
  by (relation "measure length") (auto simp: less_Suc_eq_le skip_quoted_length)

definition find_comment_start :: "string \<Rightarrow> (nat \<times> comment_kind) option" where
  "find_comment_start line = find_comment_start_in (char_indices line)"

text \<open>The offset after the end of the block comment.\<close>

fun block_comment_end :: "nat \<Rightarrow> chars \<Rightarrow> nat option" where
  "block_comment_end depth [] = None"
| "block_comment_end depth ((offset, ch) # cs) =
     (if ch = ''/'' \<and> next_is (CHR ''*'') cs then
        (case cs of [] \<Rightarrow> None | _ # cs' \<Rightarrow> block_comment_end (depth + 1) cs')
      else if ch = ''*'' \<and> 0 < depth \<and> next_is (CHR ''/'') cs then
        (case cs of [] \<Rightarrow> None | (_, slash) # cs' \<Rightarrow>
           if depth = 1 then Some (offset + length ch + length slash) else block_comment_end (depth - 1) cs')
      else block_comment_end depth cs)"

definition find_block_comment_end_with_depth :: "string \<Rightarrow> nat \<Rightarrow> nat \<Rightarrow> nat option" where
  "find_block_comment_end_with_depth line start initial_depth =
     map_option (\<lambda>end_offset. start + end_offset) (block_comment_end initial_depth (char_indices (drop start line)))"

definition find_block_comment_end :: "string \<Rightarrow> nat \<Rightarrow> nat option" where
  "find_block_comment_end line start = find_block_comment_end_with_depth line start 0"

definition find_block_comment_end_in_comment :: "string \<Rightarrow> nat option" where
  "find_block_comment_end_in_comment line = find_block_comment_end_with_depth line 0 1"

text \<open>The variables of \<open>collect_trivia\<close>.\<close>

record trivia_state =
  tv_full_line :: "raw_comment list"
  tv_trailing :: "(nat, string) btree_map"
  tv_code_lines :: "nat list"

definition add_code_line :: "nat \<Rightarrow> trivia_state \<Rightarrow> trivia_state" where
  "add_code_line line_no s = s\<lparr>tv_code_lines := bs_insert line_no (tv_code_lines s)\<rparr>"

definition add_trailing :: "nat \<Rightarrow> string \<Rightarrow> trivia_state \<Rightarrow> trivia_state" where
  "add_trailing line_no comment s = s\<lparr>tv_trailing := bt_insert line_no comment (tv_trailing s)\<rparr>"

definition add_full_line :: "nat \<Rightarrow> string list \<Rightarrow> trivia_state \<Rightarrow> trivia_state" where
  "add_full_line end_line ls s = s\<lparr>tv_full_line := tv_full_line s @ [\<lparr>rc_end_line = end_line, rc_lines = ls\<rparr>]\<rparr>"

text \<open>The lines of a block comment after the first one, up to the line with its end: the lines of the
  comment, the number of the line it stops at and the lines that remain.\<close>

fun comment_lines :: "nat \<Rightarrow> string list \<Rightarrow> string list \<Rightarrow> trivia_state \<Rightarrow> string list \<times> nat \<times> string list \<times> trivia_state" where
  "comment_lines line_no [] acc s = (acc, line_no, [], s)"
| "comment_lines line_no (current # ls) acc s = (case find_block_comment_end_in_comment current of
       Some i \<Rightarrow> (acc @ [trim_end (take i current)], line_no, ls,
         if trim (drop i current) \<noteq> [] then add_code_line line_no s else s)
     | None \<Rightarrow> comment_lines (line_no + 1) ls (acc @ [trim_end current]) s)"

lemma comment_lines_length: "comment_lines line_no ls acc s = (comments, stop, rest, s') \<Longrightarrow> length rest \<le> length ls"
  by (induction line_no ls acc s rule: comment_lines.induct) (auto split: option.splits)

function collect_lines :: "nat \<Rightarrow> string list \<Rightarrow> trivia_state \<Rightarrow> trivia_state" where
  "collect_lines line_no [] s = s"
| "collect_lines line_no (line # ls) s = (case find_comment_start line of
       None \<Rightarrow> collect_lines (line_no + 1) ls (if trim line \<noteq> [] then add_code_line line_no s else s)
     | Some (i, LineComment) \<Rightarrow>
         collect_lines (line_no + 1) ls
           (if trim (take i line) = [] then add_full_line line_no [trim_end (drop i line)] s
            else add_trailing line_no (trim (drop i line)) (add_code_line line_no s))
     | Some (i, BlockComment) \<Rightarrow> (case find_block_comment_end line i of
           Some e \<Rightarrow>
             collect_lines (line_no + 1) ls
               (if trim (take i line) = [] \<and> trim (drop e line) = [] then
                  add_full_line line_no [trim_end (drop i (take e line))] s
                else add_trailing line_no (trim (drop i (take e line))) (add_code_line line_no s))
         | None \<Rightarrow>
             (case comment_lines (line_no + 1) ls [trim_end (drop i line)]
                 (if trim (take i line) = [] then s else add_code_line line_no s) of
               (comments, stop, rest, s) \<Rightarrow> collect_lines (stop + 1) rest (add_full_line stop comments s))))"
  by pat_completeness auto
termination
  by (relation "measure (\<lambda>(line_no, ls, s). length ls)") (auto dest!: comment_lines_length [OF sym])

definition usize_max :: nat where
  "usize_max = usize_limit - 1"

text \<open>A comment goes to the first line of code after it.\<close>

definition comment_target :: "nat list \<Rightarrow> nat \<Rightarrow> nat" where
  "comment_target code_lines end_line = (case find (\<lambda>n. end_line + 1 \<le> n) code_lines of
       Some n \<Rightarrow> n
     | None \<Rightarrow> usize_max)"

definition add_leading :: "nat list \<Rightarrow> raw_comment \<Rightarrow> (nat, string list) btree_map \<Rightarrow> (nat, string list) btree_map" where
  "add_leading code_lines c leading =
     (let target = comment_target code_lines (rc_end_line c)
      in bt_insert target ((case bt_get leading target of None \<Rightarrow> [] | Some ls \<Rightarrow> ls) @ rc_lines c) leading)"

definition scan_source :: "string \<Rightarrow> trivia_state" where
  "scan_source source = collect_lines 1 (str_lines source) \<lparr>tv_full_line = [], tv_trailing = [], tv_code_lines = []\<rparr>"

definition collect_trivia :: "string \<Rightarrow> format_trivia" where
  "collect_trivia source =
     (let s = scan_source source
      in \<lparr>ft_leading = fold (add_leading (tv_code_lines s)) (tv_full_line s) [], ft_trailing = tv_trailing s\<rparr>)"

section \<open>Items\<close>

datatype top_level_item =
    ItemStruct nat
  | ItemEnum nat
  | ItemInterface nat
  | ItemExternOpaque nat
  | ItemExternBlock nat
  | ItemImpl nat
  | ItemConst nat
  | ItemFunction nat

text \<open>The counters of \<open>top_level_items\<close>.\<close>

record item_counts =
  ic_structs :: nat
  ic_enums :: nat
  ic_interfaces :: nat
  ic_extern_opaque_types :: nat
  ic_extern_blocks :: nat
  ic_impls :: nat
  ic_consts :: nat
  ic_functions :: nat

definition count_struct :: "item_counts \<Rightarrow> top_level_item \<times> item_counts" where
  "count_struct c = (ItemStruct (ic_structs c), c\<lparr>ic_structs := ic_structs c + 1\<rparr>)"

definition count_enum :: "item_counts \<Rightarrow> top_level_item \<times> item_counts" where
  "count_enum c = (ItemEnum (ic_enums c), c\<lparr>ic_enums := ic_enums c + 1\<rparr>)"

definition count_interface :: "item_counts \<Rightarrow> top_level_item \<times> item_counts" where
  "count_interface c = (ItemInterface (ic_interfaces c), c\<lparr>ic_interfaces := ic_interfaces c + 1\<rparr>)"

definition count_const :: "item_counts \<Rightarrow> top_level_item \<times> item_counts" where
  "count_const c = (ItemConst (ic_consts c), c\<lparr>ic_consts := ic_consts c + 1\<rparr>)"

definition count_function :: "item_counts \<Rightarrow> top_level_item \<times> item_counts" where
  "count_function c = (ItemFunction (ic_functions c), c\<lparr>ic_functions := ic_functions c + 1\<rparr>)"

definition kind_at :: "nat \<Rightarrow> token list \<Rightarrow> token_kind option" where
  "kind_at i ts = (if i < length ts then Some (tok_kind (ts ! i)) else None)"

definition is_extern_opaque_start :: "token list \<Rightarrow> bool" where
  "is_extern_opaque_start ts \<longleftrightarrow> kind_at 0 ts = Some (Keyword KwExtern)
     \<and> kind_at 1 ts = Some (Ident ''opaque'') \<and> kind_at 2 ts = Some (Ident ''type'')"

definition public_top_level_item :: "token_kind option \<Rightarrow> item_counts \<Rightarrow> (top_level_item \<times> item_counts) option" where
  "public_top_level_item k c = (case k of
       Some (Keyword KwStruct) \<Rightarrow> Some (count_struct c)
     | Some (Keyword KwEnum) \<Rightarrow> Some (count_enum c)
     | Some (Keyword KwInterface) \<Rightarrow> Some (count_interface c)
     | Some (Keyword KwConst) \<Rightarrow> Some (count_const c)
     | Some (Keyword KwFn) \<Rightarrow> Some (count_function c)
     | _ \<Rightarrow> None)"

definition top_level_item_at :: "token_kind \<Rightarrow> item_counts \<Rightarrow> (top_level_item \<times> item_counts) option" where
  "top_level_item_at k c = (case k of
       Keyword KwStruct \<Rightarrow> Some (count_struct c)
     | Keyword KwEnum \<Rightarrow> Some (count_enum c)
     | Keyword KwInterface \<Rightarrow> Some (count_interface c)
     | Keyword KwExtern \<Rightarrow> Some (ItemExternBlock (ic_extern_blocks c), c\<lparr>ic_extern_blocks := ic_extern_blocks c + 1\<rparr>)
     | Keyword KwImpl \<Rightarrow> Some (ItemImpl (ic_impls c), c\<lparr>ic_impls := ic_impls c + 1\<rparr>)
     | Keyword KwConst \<Rightarrow> Some (count_const c)
     | Keyword KwFn \<Rightarrow> Some (count_function c)
     | _ \<Rightarrow> None)"

text \<open>The item that starts at the first token, and how many tokens to go on.\<close>

definition item_start :: "token list \<Rightarrow> item_counts \<Rightarrow> (top_level_item \<times> item_counts \<times> nat) option" where
  "item_start ts c =
     (let found = (\<lambda>n (item, c). (item, c, n)) in
      if kind_at 0 ts = Some (Keyword KwPub) \<and> kind_at 1 ts = Some (Keyword KwSuspend)
         \<and> kind_at 2 ts = Some (Keyword KwFn) then Some (found 3 (count_function c))
      else if kind_at 0 ts = Some (Keyword KwSuspend) \<and> kind_at 1 ts = Some (Keyword KwFn) then
        Some (found 2 (count_function c))
      else if is_extern_opaque_start ts then
        Some (ItemExternOpaque (ic_extern_opaque_types c), c\<lparr>ic_extern_opaque_types := ic_extern_opaque_types c + 1\<rparr>, 1)
      else if kind_at 0 ts = Some (Keyword KwPub) then
        map_option (found 2) (public_top_level_item (kind_at 1 ts) c)
      else (case kind_at 0 ts of None \<Rightarrow> None | Some k \<Rightarrow> map_option (found 1) (top_level_item_at k c)))"

lemma item_start_moves: "item_start ts c = Some (item, c', n) \<Longrightarrow> 0 < n"
  by (auto simp: item_start_def Let_def split: if_splits option.splits prod.splits)

definition depth_after :: "token_kind \<Rightarrow> nat \<Rightarrow> nat" where
  "depth_after k depth =
     (if k \<in> {Punct PLBrace, Punct PLParen, Punct PLBracket} then depth + 1
      else if k \<in> {Punct PRBrace, Punct PRParen, Punct PRBracket} then depth - 1 else depth)"

function items_from :: "token list \<Rightarrow> nat \<Rightarrow> item_counts \<Rightarrow> top_level_item list" where
  "items_from [] depth c = []"
| "items_from (t # ts) depth c =
     (if tok_kind t = Eof then []
      else case (if depth = 0 then item_start (t # ts) c else None) of
        Some (item, c, n) \<Rightarrow> item # items_from (drop n (t # ts)) depth c
      | None \<Rightarrow> items_from ts (depth_after (tok_kind t) depth) c)"
  by pat_completeness auto
termination
  by (relation "measure (\<lambda>(ts, depth, c). length ts)") (auto dest: item_start_moves split: if_splits)

definition top_level_items :: "token list \<Rightarrow> top_level_item list" where
  "top_level_items ts = items_from ts 0
     \<lparr>ic_structs = 0, ic_enums = 0, ic_interfaces = 0, ic_extern_opaque_types = 0, ic_extern_blocks = 0,
      ic_impls = 0, ic_consts = 0, ic_functions = 0\<rparr>"

section \<open>Lines of members\<close>

record token_layout =
  tl_package_line :: nat
  tl_import_lines :: "nat list"
  tl_impl_lines :: "nat list"
  tl_struct_field_lines :: "nat list list"
  tl_enum_variant_lines :: "nat list list"

text \<open>The tokens after the first one of the kind.\<close>

definition after_kind :: "token_kind \<Rightarrow> token list \<Rightarrow> token list option" where
  "after_kind k ts = (case dropWhile (\<lambda>t. tok_kind t \<noteq> k) ts of [] \<Rightarrow> None | _ # rest \<Rightarrow> Some rest)"

definition is_ident_kind :: "token_kind \<Rightarrow> bool" where
  "is_ident_kind k \<longleftrightarrow> (case k of Ident _ \<Rightarrow> True | _ \<Rightarrow> False)"

fun struct_field_lines :: "nat \<Rightarrow> nat list \<Rightarrow> token list \<Rightarrow> nat list \<times> token list" where
  "struct_field_lines depth acc [] = (acc, [])"
| "struct_field_lines depth acc (t # ts) =
     (if tok_kind t = Punct PLBrace then struct_field_lines (depth + 1) acc ts
      else if tok_kind t = Punct PRBrace then
        (if depth - 1 = 0 then (acc, ts) else struct_field_lines (depth - 1) acc ts)
      else if is_ident_kind (tok_kind t) \<and> depth = 1 \<and> kind_at 0 ts = Some (Punct PColon) then
        struct_field_lines depth (acc @ [tok_line t]) ts
      else struct_field_lines depth acc ts)"

definition collect_struct_field_lines :: "token list \<Rightarrow> nat list \<times> token list" where
  "collect_struct_field_lines ts = (case after_kind (Punct PLBrace) ts of
       None \<Rightarrow> ([], tl ts)
     | Some rest \<Rightarrow> struct_field_lines 1 [] rest)"

fun enum_variant_lines :: "nat \<Rightarrow> nat list \<Rightarrow> token list \<Rightarrow> nat list \<times> token list" where
  "enum_variant_lines depth acc [] = (acc, [])"
| "enum_variant_lines depth acc (t # ts) =
     (if tok_kind t \<in> {Punct PLBrace, Punct PLParen} then enum_variant_lines (depth + 1) acc ts
      else if tok_kind t \<in> {Punct PRBrace, Punct PRParen} then
        (if depth - 1 = 0 then (acc, ts) else enum_variant_lines (depth - 1) acc ts)
      else if is_ident_kind (tok_kind t) \<and> depth = 1 then enum_variant_lines depth (acc @ [tok_line t]) ts
      else enum_variant_lines depth acc ts)"

definition collect_enum_variant_lines :: "token list \<Rightarrow> nat list \<times> token list" where
  "collect_enum_variant_lines ts = (case after_kind (Punct PLBrace) ts of
       None \<Rightarrow> ([], tl ts)
     | Some rest \<Rightarrow> enum_variant_lines 1 [] rest)"

lemma struct_field_lines_length: "length (snd (struct_field_lines depth acc ts)) \<le> length ts"
  by (induction depth acc ts rule: struct_field_lines.induct) auto

lemma enum_variant_lines_length: "length (snd (enum_variant_lines depth acc ts)) \<le> length ts"
  by (induction depth acc ts rule: enum_variant_lines.induct) auto

lemma after_kind_length: "after_kind k ts = Some rest \<Longrightarrow> length rest < length ts"
  using length_dropWhile_le [of "\<lambda>t. tok_kind t \<noteq> k" ts] by (auto simp: after_kind_def split: list.splits)

lemma collect_lines_length:
  assumes "ts \<noteq> []"
  shows "length (snd (collect_struct_field_lines ts)) < length ts"
    "length (snd (collect_enum_variant_lines ts)) < length ts"
  using assms after_kind_length [of "Punct PLBrace" ts]
    le_less_trans [OF struct_field_lines_length] le_less_trans [OF enum_variant_lines_length]
  by (auto simp: collect_struct_field_lines_def collect_enum_variant_lines_def split: option.splits)

lemma member_lines_step:
  assumes "kind_at 0 ts = Some k" "length ts \<le> n"
  shows "length (snd (collect_struct_field_lines ts)) < n" "length (snd (collect_enum_variant_lines ts)) < n"
proof -
  from assms(1) have "ts \<noteq> []" by (auto simp: kind_at_def split: if_splits)
  from collect_lines_length [OF this] assms(2)
  show "length (snd (collect_struct_field_lines ts)) < n" "length (snd (collect_enum_variant_lines ts)) < n" by auto
qed

text \<open>The lines of the fields of all structs and of the variants of all enums.\<close>

function member_lines :: "token list \<Rightarrow> nat \<Rightarrow> nat list list \<Rightarrow> nat list list \<Rightarrow> nat list list \<times> nat list list" where
  "member_lines [] depth structs enums = (structs, enums)"
| "member_lines (t # ts) depth structs enums =
     (if tok_kind t = Eof then (structs, enums)
      else let start = (if tok_kind t = Keyword KwPub then ts else t # ts);
               k = (if depth = 0 then kind_at 0 start else None)
      in if k = Some (Keyword KwStruct) then
           (let found = collect_struct_field_lines start in member_lines (snd found) depth (structs @ [fst found]) enums)
         else if k = Some (Keyword KwEnum) then
           (let found = collect_enum_variant_lines start in member_lines (snd found) depth structs (enums @ [fst found]))
         else member_lines ts
           (if tok_kind t = Punct PLBrace then depth + 1 else if tok_kind t = Punct PRBrace then depth - 1 else depth)
           structs enums)"
  by pat_completeness auto
termination
  by (relation "measure (\<lambda>(ts, depth, structs, enums). length ts)")
    (auto intro: member_lines_step [OF sym] split: if_splits)

definition lines_of_kind :: "token_kind \<Rightarrow> token list \<Rightarrow> nat list" where
  "lines_of_kind k ts = map tok_line (filter (\<lambda>t. tok_kind t = k) ts)"

definition layout_from_tokens :: "token list \<Rightarrow> token_layout" where
  "layout_from_tokens ts =
     (let package_lines = lines_of_kind (Keyword KwPackage) ts; members = member_lines ts 0 [] []
      in \<lparr>tl_package_line = (if package_lines = [] then 1 else hd package_lines),
          tl_import_lines = lines_of_kind (Keyword KwImport) ts,
          tl_impl_lines = lines_of_kind (Keyword KwImpl) ts,
          tl_struct_field_lines = fst members, tl_enum_variant_lines = snd members\<rparr>)"

end
