(* ===== verification/Format_Source.thy ===== *)
theory Format_Source
  imports Format_Text Format_Layout Parser_Decl
begin

text \<open>
  The formatter: the checks of \<open>crates/nomo_fmt/src/validate.rs\<close> and the printer of source files of
  \<open>crates/nomo_fmt/src/lib.rs\<close>. Its methods are functions on the state of the formatter that end in None where
  the source panics: at an index of an item that the tree does not have, and at \<open>unreachable!\<close>.
\<close>

section \<open>Checks\<close>

fun stmt_span :: "stmt \<Rightarrow> span" where
  "stmt_span (StLet _ _ _ _ sp) = sp"
| "stmt_span (StLetElse _ _ _ _ sp) = sp"
| "stmt_span (StIfLet _ _ _ _ _ sp) = sp"
| "stmt_span (StAssign _ _ _ sp) = sp"
| "stmt_span (StIndexAssign _ _ _ sp) = sp"
| "stmt_span (StPostfix _ _ sp) = sp"
| "stmt_span (StReturn _ sp) = sp"
| "stmt_span (StMatch _ _ sp) = sp"
| "stmt_span (StExpr _ sp) = sp"
| "stmt_span (StFor _ sp) = sp"
| "stmt_span (StBreak sp) = sp"
| "stmt_span (StContinue sp) = sp"
| "stmt_span (StDefer _ sp) = sp"
| "stmt_span (StTaskScope _ sp) = sp"
| "stmt_span (StTaskDeadline _ _ sp) = sp"
| "stmt_span (StTaskSelect _ sp) = sp"
| "stmt_span (StUnsafe _ sp) = sp"

definition stmt_line :: "stmt \<Rightarrow> nat" where
  "stmt_line s = sp_line (stmt_span s)"

text \<open>A loop with a question mark: the first error.\<close>

fun validate_all :: "('e + unit) list \<Rightarrow> 'e + unit" where
  "validate_all [] = Ok ()"
| "validate_all (r # rs) = try_bind r (\<lambda>_. validate_all rs)"

definition defer_error :: "string \<Rightarrow> span \<Rightarrow> diagnostic" where
  "defer_error path sp = diagnostic_new ''E0902''
     (CHR 0x60 # ''nomo fmt'' @ [CHR 0x60] @ '' cannot safely format non-expression '' @ [CHR 0x60] @ ''defer'' @ [CHR 0x60]
       @ '' statements'') path (sp_line sp) (sp_column sp) (sp_length sp) (sp_text sp)"

fun validate_stmt :: "string \<Rightarrow> stmt \<Rightarrow> diagnostic + unit"
  and validate_for :: "string \<Rightarrow> for_variant \<Rightarrow> diagnostic + unit"
  and validate_match_arm :: "string \<Rightarrow> match_stmt_arm \<Rightarrow> diagnostic + unit"
  and validate_select_arm :: "string \<Rightarrow> select_arm \<Rightarrow> diagnostic + unit" where
  "validate_stmt path (StLetElse _ _ _ else_body _) = validate_all (map (validate_stmt path) else_body)"
| "validate_stmt path (StIfLet _ _ _ body else_body _) =
     try_bind (validate_all (map (validate_stmt path) body)) (\<lambda>_.
       case else_body of None \<Rightarrow> Ok () | Some ss \<Rightarrow> validate_all (map (validate_stmt path) ss))"
| "validate_stmt path (StMatch _ arms _) = validate_all (map (validate_match_arm path) arms)"
| "validate_stmt path (StFor v _) = validate_for path v"
| "validate_stmt path (StDefer s _) =
     (case s of StExpr _ _ \<Rightarrow> Ok () | _ \<Rightarrow> Err (defer_error path (stmt_span s)))"
| "validate_stmt path (StTaskScope body _) = validate_all (map (validate_stmt path) body)"
| "validate_stmt path (StTaskDeadline _ body _) = validate_all (map (validate_stmt path) body)"
| "validate_stmt path (StUnsafe body _) = validate_all (map (validate_stmt path) body)"
| "validate_stmt path (StTaskSelect arms _) = validate_all (map (validate_select_arm path) arms)"
| "validate_stmt path _ = Ok ()"
| "validate_for path (ForInfinite body) = validate_all (map (validate_stmt path) body)"
| "validate_for path (ForWhile _ body) = validate_all (map (validate_stmt path) body)"
| "validate_for path (ForCStyle _ _ _ _ _ body) = validate_all (map (validate_stmt path) body)"
| "validate_for path (ForIterate _ _ body) = validate_all (map (validate_stmt path) body)"
| "validate_match_arm path (MatchStmtArm _ _ body) = validate_all (map (validate_stmt path) body)"
| "validate_select_arm path (SelectArm _ _ body _) = validate_all (map (validate_stmt path) body)"

definition validate_stmts :: "string \<Rightarrow> stmt list \<Rightarrow> diagnostic + unit" where
  "validate_stmts path ss = validate_all (map (validate_stmt path) ss)"

definition validate_format_ast :: "string \<Rightarrow> source_file \<Rightarrow> diagnostic + unit" where
  "validate_format_ast path ast =
     try_bind (validate_all (map (\<lambda>f. validate_stmts path (fn_body f)) (sf_functions ast))) (\<lambda>_.
       try_bind (validate_stmts path (sf_script_body ast)) (\<lambda>_.
         validate_all (map (\<lambda>block. validate_all (map (\<lambda>m. validate_stmts path (fn_body m)) (im_methods block))) (sf_impls ast))))"

section \<open>Lines and comments\<close>

text \<open>The state of the formatter; the tree, the tokens and the lines of members stay the same and are
  parameters.\<close>

record formatter =
  fm_trivia :: format_trivia
  fm_emitted :: "nat list"
  fm_out :: string

type_synonym emit = "formatter \<Rightarrow> formatter option"

fun emit_all :: "emit list \<Rightarrow> emit" where
  "emit_all [] f = Some f"
| "emit_all (a # as) f = Option.bind (a f) (emit_all as)"

definition emit_text :: "string \<Rightarrow> formatter \<Rightarrow> formatter" where
  "emit_text t f = f\<lparr>fm_out := fm_out f @ t\<rparr>"

definition blank_line :: emit where
  "blank_line f = Some (emit_text [CHR 0x0A] f)"

definition blank_if :: "bool \<Rightarrow> emit" where
  "blank_if b = (if b then blank_line else emit_all [])"

definition emit_line :: "nat \<Rightarrow> string \<Rightarrow> emit" where
  "emit_line indent t f = Some (emit_text (indentation indent @ t @ [CHR 0x0A]) f)"

text \<open>One turn of the loops of \<open>emit_leading_comments\<close> and \<open>emit_remaining_comments\<close>.\<close>

definition emit_comments_of :: "nat \<Rightarrow> nat \<Rightarrow> formatter \<Rightarrow> formatter" where
  "emit_comments_of indent key f =
     (if key \<in> set (fm_emitted f) then f
      else let f = f\<lparr>fm_emitted := bs_insert key (fm_emitted f)\<rparr>
        in case bt_get (ft_leading (fm_trivia f)) key of
          None \<Rightarrow> f
        | Some ls \<Rightarrow> fold (\<lambda>comment. emit_text (indentation indent @ trim_start comment @ [CHR 0x0A])) ls f)"

definition emit_leading_comments :: "nat \<Rightarrow> nat \<Rightarrow> formatter \<Rightarrow> formatter" where
  "emit_leading_comments source_line indent f =
     fold (emit_comments_of indent) (filter (\<lambda>key. key \<le> source_line) (bt_keys (ft_leading (fm_trivia f)))) f"

definition emit_remaining_comments :: "nat \<Rightarrow> formatter \<Rightarrow> formatter" where
  "emit_remaining_comments indent f = fold (emit_comments_of indent) (bt_keys (ft_leading (fm_trivia f))) f"

definition emit_line_at :: "nat \<Rightarrow> string \<Rightarrow> nat \<Rightarrow> emit" where
  "emit_line_at indent t source_line f =
     (let f = emit_leading_comments source_line indent f
      in Some (emit_text (indentation indent @ t
          @ (case bt_get (ft_trailing (fm_trivia f)) source_line of None \<Rightarrow> [] | Some comment \<Rightarrow> '' '' @ comment)
          @ [CHR 0x0A]) f))"

section \<open>Statements\<close>

definition annotation_text :: "type_ref option \<Rightarrow> string" where
  "annotation_text t = (case t of None \<Rightarrow> [] | Some ty \<Rightarrow> '': '' @ type_ref_text ty)"

definition assign_text :: "string list \<Rightarrow> assign_op \<Rightarrow> expr \<Rightarrow> nat \<Rightarrow> string" where
  "assign_text target op v indent = path_text target @ '' '' @ assign_op_text op @ '' '' @ expr_text v indent 0"

text \<open>The update of a loop with three clauses.\<close>

definition update_text :: "stmt \<Rightarrow> nat \<Rightarrow> string option" where
  "update_text s indent = (case s of
       StAssign target op v _ \<Rightarrow> Some (assign_text target op v indent)
     | StPostfix target op _ \<Rightarrow> Some (path_text target @ postfix_op_text op)
     | _ \<Rightarrow> None)"

definition panics :: emit where
  "panics f = None"

fun format_stmt :: "stmt \<Rightarrow> nat \<Rightarrow> emit"
  and format_for :: "for_variant \<Rightarrow> nat \<Rightarrow> nat \<Rightarrow> emit"
  and format_match_arm :: "match_stmt_arm \<Rightarrow> nat \<Rightarrow> emit"
  and format_select_arm :: "select_arm \<Rightarrow> nat \<Rightarrow> emit" where
  "format_stmt (StLet name is_mut annotation v sp) n =
     emit_line_at n (''let '' @ (if is_mut then ''mut '' else []) @ name @ annotation_text annotation
       @ '' = '' @ expr_text v n 0) (sp_line sp)"
| "format_stmt (StIndexAssign root indices v sp) n =
     emit_line_at n (root @ concat (map (\<lambda>i. ''['' @ expr_text i n 0 @ '']'') indices)
       @ '' = '' @ expr_text v n 0) (sp_line sp)"
| "format_stmt (StLetElse pattern binding v else_body sp) n = emit_all
     [emit_line_at n (''let '' @ path_text pattern @ ''('' @ binding @ '') = '' @ expr_text v n 0 @ '' else {'') (sp_line sp),
      emit_all (map (\<lambda>s. format_stmt s (n + 1)) else_body),
      emit_line n ''}'']"
| "format_stmt (StIfLet pattern binding v body else_body sp) n = emit_all
     [emit_line_at n (''if let '' @ pattern_with_binding pattern binding @ '' = '' @ expr_text v n 0 @ '' {'') (sp_line sp),
      emit_all (map (\<lambda>s. format_stmt s (n + 1)) body),
      (case else_body of
        Some ss \<Rightarrow> emit_all [emit_line n ''} else {'', emit_all (map (\<lambda>s. format_stmt s (n + 1)) ss), emit_line n ''}'']
      | None \<Rightarrow> emit_line n ''}'')]"
| "format_stmt (StAssign target op v sp) n = emit_line_at n (assign_text target op v n) (sp_line sp)"
| "format_stmt (StPostfix target op sp) n = emit_line_at n (path_text target @ postfix_op_text op) (sp_line sp)"
| "format_stmt (StReturn v sp) n = (case v of
       Some v \<Rightarrow> emit_line_at n (''return '' @ expr_text v n 0) (sp_line sp)
     | None \<Rightarrow> emit_line_at n ''return'' (sp_line sp))"
| "format_stmt (StMatch v arms sp) n = emit_all
     [emit_line_at n (''match '' @ expr_text v n 0 @ '' {'') (sp_line sp),
      emit_all (map (\<lambda>arm. format_match_arm arm (n + 1)) arms),
      emit_line n ''}'']"
| "format_stmt (StExpr v sp) n = emit_line_at n (expr_text v n 0) (sp_line sp)"
| "format_stmt (StFor variant sp) n = format_for variant n (sp_line sp)"
| "format_stmt (StBreak sp) n = emit_line_at n ''break'' (sp_line sp)"
| "format_stmt (StContinue sp) n = emit_line_at n ''continue'' (sp_line sp)"
| "format_stmt (StDefer s sp) n = (case s of
       StExpr v inner \<Rightarrow> emit_line_at n (''defer '' @ expr_text v n 0) (sp_line inner)
     | _ \<Rightarrow> panics)"
| "format_stmt (StTaskScope body sp) n = emit_all
     [emit_line_at n ''task.scope {'' (sp_line sp), emit_all (map (\<lambda>s. format_stmt s (n + 1)) body), emit_line n ''}'']"
| "format_stmt (StTaskDeadline duration body sp) n = emit_all
     [emit_line_at n (''task.deadline('' @ expr_text duration n 0 @ '') {'') (sp_line sp),
      emit_all (map (\<lambda>s. format_stmt s (n + 1)) body),
      emit_line n ''}'']"
| "format_stmt (StTaskSelect arms sp) n = emit_all
     [emit_line_at n ''task.select {'' (sp_line sp),
      emit_all (map (\<lambda>arm. format_select_arm arm (n + 1)) arms),
      emit_line n ''}'']"
| "format_stmt (StUnsafe body sp) n = emit_all
     [emit_line_at n ''unsafe {'' (sp_line sp), emit_all (map (\<lambda>s. format_stmt s (n + 1)) body), emit_line n ''}'']"
| "format_for (ForInfinite body) n source_line = emit_all
     [emit_line_at n ''for {'' source_line, emit_all (map (\<lambda>s. format_stmt s (n + 1)) body), emit_line n ''}'']"
| "format_for (ForWhile condition body) n source_line = emit_all
     [emit_line_at n (''for '' @ expr_text condition n 0 @ '' {'') source_line,
      emit_all (map (\<lambda>s. format_stmt s (n + 1)) body),
      emit_line n ''}'']"
| "format_for (ForCStyle binding annotation initializer condition update body) n source_line =
     (case update_text update n of
       None \<Rightarrow> panics
     | Some update \<Rightarrow> emit_all
         [emit_line_at n (''for let '' @ binding @ annotation_text annotation @ '' = '' @ expr_text initializer n 0
            @ ''; '' @ expr_text condition n 0 @ ''; '' @ update @ '' {'') source_line,
          emit_all (map (\<lambda>s. format_stmt s (n + 1)) body),
          emit_line n ''}''])"
| "format_for (ForIterate binding iterable body) n source_line = emit_all
     [emit_line_at n (''for '' @ binding @ '' in '' @ expr_text iterable n 0 @ '' {'') source_line,
      emit_all (map (\<lambda>s. format_stmt s (n + 1)) body),
      emit_line n ''}'']"
| "format_match_arm (MatchStmtArm pattern binding body) n = emit_all
     [emit_line n (pattern_with_binding pattern binding @ '' => {''),
      emit_all (map (\<lambda>s. format_stmt s (n + 1)) body),
      emit_line n ''}'']"
| "format_select_arm (SelectArm operation binding body sp) n = emit_all
     [emit_line_at n (expr_text operation n 0 @ '' => '' @ binding @ '' {'') (sp_line sp),
      emit_all (map (\<lambda>s. format_stmt s (n + 1)) body),
      emit_line n ''}'']"

definition format_block :: "stmt list \<Rightarrow> nat \<Rightarrow> emit" where
  "format_block body n = emit_all (map (\<lambda>s. format_stmt s n) body)"

section \<open>Declarations\<close>

definition declaration_return_suffix :: "type_ref \<Rightarrow> string" where
  "declaration_return_suffix return_type =
     (if type_is_void return_type then [] else '' -> '' @ type_ref_text return_type)"

definition param_text :: "bool \<Rightarrow> param \<Rightarrow> string" where
  "param_text in_impl p =
     (let mutable = (if pa_mutable p then ''mut '' else [])
      in if in_impl \<and> pa_name p = ''self'' then mutable @ ''self''
         else mutable @ pa_name p @ '': '' @ type_ref_text (pa_type p))"

definition params_text :: "param list \<Rightarrow> bool \<Rightarrow> string" where
  "params_text ps in_impl = join_text '', '' (map (param_text in_impl) ps)"

definition type_params_text :: "string list \<Rightarrow> string" where
  "type_params_text ps = (if ps = [] then [] else ''<'' @ join_text '', '' ps @ ''>'')"

definition type_params_with_bounds :: "string list \<Rightarrow> type_param_bound list \<Rightarrow> string" where
  "type_params_with_bounds ps bounds =
     (if ps = [] then []
      else ''<'' @ join_text '', '' (map (\<lambda>p. case find (\<lambda>b. tb_parameter b = p) bounds of
            Some b \<Rightarrow> p @ '': '' @ type_ref_text (tb_interface b)
          | None \<Rightarrow> p) ps) @ ''>'')"

definition pub_prefix :: "bool \<Rightarrow> string" where
  "pub_prefix is_public = (if is_public then ''pub '' else [])"

definition suspend_prefix :: "bool \<Rightarrow> string" where
  "suspend_prefix is_suspend = (if is_suspend then ''suspend '' else [])"

text \<open>\<open>get(index).copied().unwrap_or(line)\<close>.\<close>

definition line_or :: "nat list \<Rightarrow> nat \<Rightarrow> nat \<Rightarrow> nat" where
  "line_or ls i otherwise = (if i < length ls then ls ! i else otherwise)"

definition member_line :: "nat list list \<Rightarrow> nat \<Rightarrow> nat \<Rightarrow> nat \<Rightarrow> nat" where
  "member_line lss i j otherwise = (if i < length lss then line_or (lss ! i) j otherwise else otherwise)"

definition format_field :: "nat \<Rightarrow> nat \<Rightarrow> field_def \<Rightarrow> emit" where
  "format_field indent source_line fd =
     emit_line_at indent (pub_prefix (fd_public fd) @ fd_name fd @ '': '' @ type_ref_text (fd_type fd)) source_line"

definition format_struct :: "token_layout \<Rightarrow> nat \<Rightarrow> struct_def \<Rightarrow> emit" where
  "format_struct layout index sd = emit_all
     [emit_line_at 0 (pub_prefix (sd_public sd) @ ''struct '' @ sd_name sd @ type_params_text (sd_type_params sd) @ '' {'')
        (sp_line (sd_span sd)),
      emit_all (map (\<lambda>(i, fd). format_field 1 (member_line (tl_struct_field_lines layout) index i (sp_line (sd_span sd))) fd)
        (enumerate 0 (sd_fields sd))),
      emit_line 0 ''}'']"

definition variant_text :: "enum_variant \<Rightarrow> string" where
  "variant_text ev = (case ev_payload ev of
       Some payload \<Rightarrow> ev_name ev @ ''('' @ type_ref_text payload @ '')''
     | None \<Rightarrow> ev_name ev)"

definition format_enum :: "token_layout \<Rightarrow> nat \<Rightarrow> enum_def \<Rightarrow> emit" where
  "format_enum layout index ed = emit_all
     [emit_line_at 0 (pub_prefix (ed_public ed) @ ''enum '' @ ed_name ed @ type_params_text (ed_type_params ed) @ '' {'')
        (sp_line (ed_span ed)),
      emit_all (map (\<lambda>(i, ev). emit_line_at 1 (variant_text ev)
          (member_line (tl_enum_variant_lines layout) index i (sp_line (ed_span ed))))
        (enumerate 0 (ed_variants ed))),
      emit_line 0 ''}'']"

definition format_signature :: "nat \<Rightarrow> bool \<Rightarrow> function_signature \<Rightarrow> emit" where
  "format_signature indent in_interface fs =
     emit_line_at indent (suspend_prefix (fs_is_suspend fs) @ ''fn '' @ fs_name fs
       @ type_params_with_bounds (fs_type_params fs) (fs_type_param_bounds fs)
       @ ''('' @ params_text (fs_params fs) in_interface @ '')'' @ declaration_return_suffix (fs_return_type fs))
       (sp_line (fs_span fs))"

definition format_interface :: "interface_def \<Rightarrow> emit" where
  "format_interface d = emit_all
     [emit_line_at 0 (pub_prefix (id_public d) @ ''interface '' @ id_name d @ '' {'') (sp_line (id_span d)),
      emit_all (map (format_signature 1 True) (id_methods d)),
      emit_line 0 ''}'']"

definition format_extern_block :: "extern_block \<Rightarrow> emit" where
  "format_extern_block b = emit_all
     [emit_line_at 0 (''extern '' @ [CHR 0x22] @ escape_string (eb_abi b) @ [CHR 0x22] @ '' {'') (sp_line (eb_span b)),
      emit_all (map (format_signature 1 False) (eb_functions b)),
      emit_line 0 ''}'']"

definition format_extern_opaque_type :: "extern_opaque_type \<Rightarrow> emit" where
  "format_extern_opaque_type t = emit_line_at 0
     (''extern opaque type '' @ eo_name t
       @ (case eo_release_function t of None \<Rightarrow> [] | Some f \<Rightarrow> '' release '' @ f)) (sp_line (eo_span t))"

definition format_function :: "nat \<Rightarrow> bool \<Rightarrow> function_def \<Rightarrow> emit" where
  "format_function indent in_impl d = emit_all
     [(if fn_is_test d then emit_all
         [\<lambda>f. Some (emit_leading_comments (sp_line (fn_span d)) indent f), emit_line indent ''#[test]'']
       else emit_all []),
      emit_line_at indent (pub_prefix (fn_public d) @ suspend_prefix (fn_is_suspend d) @ ''fn '' @ fn_name d
        @ type_params_with_bounds (fn_type_params d) (fn_type_param_bounds d)
        @ ''('' @ params_text (fn_params d) in_impl @ '')'' @ declaration_return_suffix (fn_return_type d) @ '' {'')
        (sp_line (fn_span d)),
      format_block (fn_body d) (indent + 1),
      emit_line indent ''}'']"

definition impl_target :: "impl_block \<Rightarrow> string" where
  "impl_target b = (case im_interface_name b of
       Some i \<Rightarrow> type_ref_text i @ '' for '' @ type_ref_text (im_type_name b)
     | None \<Rightarrow> type_ref_text (im_type_name b))"

definition format_impl :: "token_layout \<Rightarrow> nat \<Rightarrow> impl_block \<Rightarrow> emit" where
  "format_impl layout index b = emit_all
     [emit_line_at 0 (''impl '' @ impl_target b @ '' {'') (line_or (tl_impl_lines layout) index (tl_package_line layout)),
      emit_all (map (\<lambda>(i, m). emit_all [blank_if (0 < i), format_function 1 True m])
        (enumerate 0 (im_methods b))),
      emit_line 0 ''}'']"

definition format_const :: "const_def \<Rightarrow> emit" where
  "format_const d = emit_line_at 0
     (pub_prefix (cd_public d) @ ''const '' @ cd_name d @ '': '' @ type_ref_text (cd_type d) @ '' = ''
       @ expr_text (cd_value d) 0 0) (sp_line (cd_span d))"

text \<open>An index out of range panics.\<close>

definition indexed :: "'a list \<Rightarrow> nat \<Rightarrow> ('a \<Rightarrow> emit) \<Rightarrow> emit" where
  "indexed xs i k = (if i < length xs then k (xs ! i) else panics)"

definition format_item :: "source_file \<Rightarrow> token_layout \<Rightarrow> top_level_item \<Rightarrow> emit" where
  "format_item ast layout item = (case item of
       ItemStruct i \<Rightarrow> indexed (sf_structs ast) i (format_struct layout i)
     | ItemEnum i \<Rightarrow> indexed (sf_enums ast) i (format_enum layout i)
     | ItemInterface i \<Rightarrow> indexed (sf_interfaces ast) i format_interface
     | ItemExternOpaque i \<Rightarrow> indexed (sf_extern_opaque_types ast) i format_extern_opaque_type
     | ItemExternBlock i \<Rightarrow> indexed (sf_extern_blocks ast) i format_extern_block
     | ItemImpl i \<Rightarrow> indexed (sf_impls ast) i (format_impl layout i)
     | ItemConst i \<Rightarrow> indexed (sf_consts ast) i format_const
     | ItemFunction i \<Rightarrow> indexed (sf_functions ast) i (format_function 0 False))"

section \<open>Source files\<close>

definition has_top_level_items :: "source_file \<Rightarrow> bool" where
  "has_top_level_items ast \<longleftrightarrow>
     \<not> (sf_structs ast = [] \<and> sf_enums ast = [] \<and> sf_interfaces ast = [] \<and> sf_extern_opaque_types ast = []
       \<and> sf_extern_blocks ast = [] \<and> sf_impls ast = [] \<and> sf_consts ast = [] \<and> sf_functions ast = []
       \<and> sf_script_body ast = [])"

definition ends_line :: "string \<Rightarrow> bool" where
  "ends_line t \<longleftrightarrow> t \<noteq> [] \<and> last t = CHR 0x0A"

definition format_file :: "source_file \<Rightarrow> token list \<Rightarrow> emit" where
  "format_file ast tokens =
     (let layout = layout_from_tokens tokens; items = top_level_items tokens in emit_all
       [emit_line_at 0 (''package '' @ path_text (sf_package ast)) (tl_package_line layout),
        blank_if (sf_imports ast \<noteq> [] \<or> has_top_level_items ast),
        emit_all (map (\<lambda>(i, import). emit_line_at 0 (''import '' @ path_text import)
            (line_or (tl_import_lines layout) i (tl_package_line layout))) (enumerate 0 (sf_imports ast))),
        blank_if (sf_imports ast \<noteq> [] \<and> has_top_level_items ast),
        emit_all (map (\<lambda>(i, item). emit_all [blank_if (0 < i), format_item ast layout item]) (enumerate 0 items)),
        blank_if (items \<noteq> [] \<and> sf_script_body ast \<noteq> []),
        format_block (sf_script_body ast) 0,
        (\<lambda>f. Some (emit_remaining_comments 0 f)),
        (\<lambda>f. Some (if ends_line (fm_out f) then f else emit_text [CHR 0x0A] f))])"

definition format_source :: "string \<Rightarrow> string \<Rightarrow> (diagnostic + string) option" where
  "format_source path source = (case lex path source of
       Inl e \<Rightarrow> Some (Err e)
     | Inr tokens \<Rightarrow> (case parse_tokens path tokens of
         None \<Rightarrow> None
       | Some (Inl e) \<Rightarrow> Some (Err e)
       | Some (Inr ast) \<Rightarrow> (case validate_format_ast path ast of
           Inl e \<Rightarrow> Some (Err e)
         | Inr _ \<Rightarrow> map_option (\<lambda>f. Ok (fm_out f))
             (format_file ast tokens \<lparr>fm_trivia = collect_trivia source, fm_emitted = [], fm_out = []\<rparr>))))"

end
