(* ===== verification/Format_Grammar.thy ===== *)
theory Format_Grammar
  imports Format_Layout
begin

text \<open>
  Where the comments of a source are, said without the scanner of \<open>crates/nomo_fmt/src/trivia.rs\<close>: a grammar
  of the lines of a source, which has code, literals and comments. The scanner finds what the grammar says.
\<close>

section \<open>The grammar\<close>

text \<open>The characters between the quotes of a literal.\<close>

inductive literal_body :: "char \<Rightarrow> string list \<Rightarrow> bool" for quote where
  end_of_literal: "literal_body quote []"
| literal_char: "ch \<notin> {[quote], [backslash]} \<Longrightarrow> literal_body quote chs \<Longrightarrow> literal_body quote (ch # chs)"
| literal_pair: "literal_body quote chs \<Longrightarrow> literal_body quote ([backslash] # ch # chs)"

definition opens_comment :: "string \<Rightarrow> string list \<Rightarrow> bool" where
  "opens_comment ch chs \<longleftrightarrow> ch = ''/'' \<and> chs \<noteq> [] \<and> hd chs \<in> {''/'', ''*''}"

text \<open>Characters without a comment, followed by others.\<close>

inductive code_before :: "string list \<Rightarrow> string list \<Rightarrow> bool" where
  end_of_code: "code_before [] rest"
| literal: "quote \<in> {CHR 0x22, CHR 0x27} \<Longrightarrow> literal_body quote body \<Longrightarrow> code_before chs rest
    \<Longrightarrow> code_before ([quote] # body @ [quote] # chs) rest"
| code_char: "ch \<notin> {[CHR 0x22], [CHR 0x27]} \<Longrightarrow> \<not> opens_comment ch (chs @ rest) \<Longrightarrow> code_before chs rest
    \<Longrightarrow> code_before (ch # chs) rest"

text \<open>Characters inside a block comment at depth \<open>d\<close>, followed by others: they do not close the comment and
  are at depth \<open>e\<close> at their end.\<close>

inductive nests :: "nat \<Rightarrow> string list \<Rightarrow> string list \<Rightarrow> nat \<Rightarrow> bool" where
  end_of_text: "nests d [] rest d"
| inner_open: "nests (Suc d) chs rest e \<Longrightarrow> nests d (''/'' # ''*'' # chs) rest e"
| inner_close: "1 < d \<Longrightarrow> nests (d - 1) chs rest e \<Longrightarrow> nests d (''*'' # ''/'' # chs) rest e"
| comment_char: "\<not> (ch = ''/'' \<and> chs @ rest \<noteq> [] \<and> hd (chs @ rest) = ''*'')
    \<Longrightarrow> \<not> (ch = ''*'' \<and> chs @ rest \<noteq> [] \<and> hd (chs @ rest) = ''/'')
    \<Longrightarrow> nests d chs rest e \<Longrightarrow> nests d (ch # chs) rest e"

definition blank :: "string list \<Rightarrow> bool" where
  "blank chs \<longleftrightarrow> trim (concat chs) = []"

definition comment_line :: "string list \<Rightarrow> string" where
  "comment_line chs = trim_end (concat chs)"

text \<open>The lines of a source with at most one comment on a line, where the comments inside a block comment
  close on the line they open on, and the lines of the comments that have their lines for themselves or go
  over several lines.\<close>

inductive laid_out :: "string list \<Rightarrow> string list \<Rightarrow> bool" where
  no_lines: "laid_out [] []"
| code_line: "code_before (chars_of l) [] \<Longrightarrow> laid_out ls comments \<Longrightarrow> laid_out (l # ls) comments"
| own_line: "chars_of l = p @ t \<Longrightarrow> t = ''/'' # ''/'' # u \<Longrightarrow> code_before p t \<Longrightarrow> blank p
    \<Longrightarrow> laid_out ls comments \<Longrightarrow> laid_out (l # ls) (comment_line t # comments)"
| after_code: "chars_of l = p @ t \<Longrightarrow> t = ''/'' # ''/'' # u \<Longrightarrow> code_before p t \<Longrightarrow> \<not> blank p
    \<Longrightarrow> laid_out ls comments \<Longrightarrow> laid_out (l # ls) comments"
| own_block: "chars_of l = p @ t @ r \<Longrightarrow> t = ''/'' # ''*'' # b @ [''*'', ''/''] \<Longrightarrow> code_before p (t @ r)
    \<Longrightarrow> nests 1 b (''*'' # ''/'' # r) 1 \<Longrightarrow> code_before r [] \<Longrightarrow> blank p \<Longrightarrow> blank r
    \<Longrightarrow> laid_out ls comments \<Longrightarrow> laid_out (l # ls) (comment_line t # comments)"
| block_in_code: "chars_of l = p @ t @ r \<Longrightarrow> t = ''/'' # ''*'' # b @ [''*'', ''/''] \<Longrightarrow> code_before p (t @ r)
    \<Longrightarrow> nests 1 b (''*'' # ''/'' # r) 1 \<Longrightarrow> code_before r [] \<Longrightarrow> \<not> (blank p \<and> blank r)
    \<Longrightarrow> laid_out ls comments \<Longrightarrow> laid_out (l # ls) comments"
| long_block: "chars_of l = p @ t \<Longrightarrow> t = ''/'' # ''*'' # b \<Longrightarrow> code_before p t \<Longrightarrow> nests 1 b [] 1
    \<Longrightarrow> list_all (\<lambda>m. nests 1 (chars_of m) [] 1) ms
    \<Longrightarrow> chars_of z = y @ ''*'' # ''/'' # r \<Longrightarrow> nests 1 y (''*'' # ''/'' # r) 1 \<Longrightarrow> code_before r []
    \<Longrightarrow> laid_out ls comments
    \<Longrightarrow> laid_out (l # ms @ z # ls)
          (comment_line t # map trim_end ms @ comment_line (y @ [''*'', ''/'']) # comments)"

section \<open>The scanner on a line\<close>

lemma chars_of_split:
  assumes "chars_of l = p @ q"
  shows "take (length (concat p)) l = concat p" "drop (length (concat p)) l = concat q"
    "chars_of (drop (length (concat p)) l) = q"
proof -
  have l: "l = concat p @ concat q" using concat_chars_of [of l] assms by simp
  then show "take (length (concat p)) l = concat p" "drop (length (concat p)) l = concat q" by simp_all
  show "chars_of (drop (length (concat p)) l) = q"
    using assms
  proof (induction p arbitrary: l)
    case (Cons ch p)
    then obtain c cs where l: "l = c # cs" by (cases l) auto
    let ?w = "utf8_width c"
    from Cons.prems l have ch: "ch = take ?w l" and rest: "chars_of (drop ?w l) = p @ q" by simp_all
    have "drop (length (concat p)) (drop (length ch) l) = drop (length (concat p)) (drop ?w l)"
      using ch by (cases "?w \<le> length l") simp_all
    with Cons.IH [OF rest] show ?case by (simp add: add.commute)
  qed simp
qed

lemma indices_next_is:
  "next_is c (indices_from i chs) \<longleftrightarrow> chs \<noteq> [] \<and> hd chs = [c]" "next_is c ((i, ch) # cs) \<longleftrightarrow> ch = [c]"
  by (cases chs) (simp_all add: next_is_def)

lemma skip_literal_body:
  "literal_body quote body \<Longrightarrow> quote \<noteq> backslash \<Longrightarrow> skip_quoted [quote] (indices_from i (body @ [quote] # rest))
     = indices_from (i + length (concat body) + 1) rest"
  by (induction arbitrary: i rule: literal_body.induct) (simp_all add: add.assoc)

lemma find_comment_start_code:
  "code_before p rest \<Longrightarrow>
     find_comment_start_in (indices_from i (p @ rest)) = find_comment_start_in (indices_from (i + length (concat p)) rest)"
proof (induction arbitrary: i rule: code_before.induct)
  case (literal quote body chs rest)
  then have "quote \<noteq> backslash" by (auto simp: backslash_def)
  from skip_literal_body [OF literal(2) this, of "Suc i" "chs @ rest"] literal show ?case
    by (auto simp: add.assoc)
next
  case (code_char ch chs rest)
  then show ?case by (auto simp: opens_comment_def indices_next_is add.assoc)
qed simp

lemma block_comment_end_nests:
  "nests d chs rest e \<Longrightarrow> 0 < d \<Longrightarrow>
     block_comment_end d (indices_from i (chs @ rest)) = block_comment_end e (indices_from (i + length (concat chs)) rest)"
proof (induction arbitrary: i rule: nests.induct)
  case (comment_char ch chs rest d e)
  then show ?case by (auto simp: indices_next_is add.assoc)
qed (simp_all add: indices_next_is add.assoc)

lemma nests_positive: "nests d chs rest e \<Longrightarrow> 0 < d \<Longrightarrow> 0 < e"
  by (induction rule: nests.induct) auto

lemma find_start_code: "code_before (chars_of l) [] \<Longrightarrow> find_comment_start l = None"
  using find_comment_start_code [of "chars_of l" "[]" 0] by (simp add: find_comment_start_def char_indices_def)

lemma find_start_line:
  "chars_of l = p @ t \<Longrightarrow> t = ''/'' # ''/'' # u \<Longrightarrow> code_before p t
    \<Longrightarrow> find_comment_start l = Some (length (concat p), LineComment)"
  using find_comment_start_code [of p t 0] by (simp add: find_comment_start_def char_indices_def indices_next_is)

lemma find_start_block:
  "chars_of l = p @ t \<Longrightarrow> t = ''/'' # ''*'' # u \<Longrightarrow> code_before p t
    \<Longrightarrow> find_comment_start l = Some (length (concat p), BlockComment)"
  using find_comment_start_code [of p t 0] by (simp add: find_comment_start_def char_indices_def indices_next_is)

lemma find_end_closed:
  assumes "chars_of l = p @ t @ r" "t = ''/'' # ''*'' # b @ [''*'', ''/'']" "nests 1 b (''*'' # ''/'' # r) 1"
  shows "find_block_comment_end l (length (concat p)) = Some (length (concat p) + length (concat t))"
  using block_comment_end_nests [OF assms(3), of "Suc (Suc 0)"] chars_of_split(3) [OF assms(1)] assms(2)
  by (simp add: find_block_comment_end_def find_block_comment_end_with_depth_def char_indices_def indices_next_is)

lemma find_end_open:
  assumes "chars_of l = p @ t" "t = ''/'' # ''*'' # b" "nests 1 b [] 1"
  shows "find_block_comment_end l (length (concat p)) = None"
  using block_comment_end_nests [OF assms(3), of "Suc (Suc 0)"] chars_of_split(3) [OF assms(1)] assms(2)
  by (simp add: find_block_comment_end_def find_block_comment_end_with_depth_def char_indices_def indices_next_is)

lemma find_end_inside:
  "nests 1 (chars_of m) [] 1 \<Longrightarrow> find_block_comment_end_in_comment m = None"
  "chars_of z = y @ ''*'' # ''/'' # r \<Longrightarrow> nests 1 y (''*'' # ''/'' # r) 1
    \<Longrightarrow> find_block_comment_end_in_comment z = Some (length (concat (y @ [''*'', ''/''])))"
  using block_comment_end_nests [of 1 "chars_of m" "[]" 1 0] block_comment_end_nests [of 1 y "''*'' # ''/'' # r" 1 0]
  by (simp_all add: find_block_comment_end_in_comment_def find_block_comment_end_with_depth_def char_indices_def
      indices_next_is)

section \<open>The scanner on the lines\<close>

definition found :: "trivia_state \<Rightarrow> string list" where
  "found s = concat (map rc_lines (tv_full_line s))"

lemma found_updates [simp]:
  "found (add_code_line n s) = found s" "found (add_trailing n t s) = found s"
  "found (add_full_line n ls s) = found s @ ls"
  by (simp_all add: found_def add_code_line_def add_trailing_def add_full_line_def)

lemma comment_lines_block:
  assumes "list_all (\<lambda>m. nests 1 (chars_of m) [] 1) ms"
    "chars_of z = y @ ''*'' # ''/'' # r" "nests 1 y (''*'' # ''/'' # r) 1"
  shows "\<exists>s'. comment_lines n (ms @ z # ls) acc s
     = (acc @ map trim_end ms @ [comment_line (y @ [''*'', ''/''])], n + length ms, ls, s') \<and> found s' = found s"
  using assms(1)
proof (induction ms arbitrary: n acc)
  case Nil
  have "chars_of z = (y @ [''*'', ''/'']) @ r" using assms(2) by simp
  from chars_of_split(1) [OF this] find_end_inside(2) [OF assms(2,3)] show ?case
    by (simp add: comment_line_def)
next
  case (Cons m ms)
  then show ?case using find_end_inside(1) [of m] Cons.IH [of "n + 1" "acc @ [trim_end m]"] by simp
qed

lemma collect_lines_found: "laid_out ls comments \<Longrightarrow> found (collect_lines n ls s) = found s @ comments"
proof (induction arbitrary: n s rule: laid_out.induct)
  case (code_line l ls comments)
  then show ?case by (simp add: find_start_code)
next
  case (own_line l p t u ls comments)
  with chars_of_split [OF own_line(1)] find_start_line [OF own_line(1-3)] show ?case
    by (simp add: blank_def comment_line_def)
next
  case (after_code l p t u ls comments)
  with chars_of_split [OF after_code(1)] find_start_line [OF after_code(1-3)] show ?case
    by (simp add: blank_def)
next
  case (own_block l p t r b ls comments)
  have "chars_of l = (p @ t) @ r" using own_block(1) by simp
  note parts = chars_of_split [OF own_block(1)] chars_of_split [OF this]
  have "t @ r = ''/'' # ''*'' # b @ ''*'' # ''/'' # r" using own_block(2) by simp
  from find_start_block [OF own_block(1) this own_block(3)] find_end_closed [OF own_block(1,2,4)] parts
    own_block(6,7,9)
  show ?case by (simp add: blank_def comment_line_def drop_take)
next
  case (block_in_code l p t r b ls comments)
  have "chars_of l = (p @ t) @ r" using block_in_code(1) by simp
  note parts = chars_of_split [OF block_in_code(1)] chars_of_split [OF this]
  have "t @ r = ''/'' # ''*'' # b @ ''*'' # ''/'' # r" using block_in_code(2) by simp
  from find_start_block [OF block_in_code(1) this block_in_code(3)] find_end_closed [OF block_in_code(1,2,4)] parts
    block_in_code(6,8)
  show ?case by (auto simp: blank_def)
next
  case (long_block l p t b ms z y r ls comments)
  let ?s = "if trim (concat p) = [] then s else add_code_line n s"
  from comment_lines_block [OF long_block(5-7), of "n + 1" ls "[comment_line t]" ?s] obtain s' where
    "comment_lines (n + 1) (ms @ z # ls) [comment_line t] ?s
      = (comment_line t # map trim_end ms @ [comment_line (y @ [''*'', ''/''])], n + 1 + length ms, ls, s')"
    "found s' = found s" by auto
  with chars_of_split [OF long_block(1)] find_start_block [OF long_block(1-3)] find_end_open [OF long_block(1,2,4)]
    long_block(10)
  show ?case by (simp add: comment_line_def)
qed simp

lemma scan_source_found: "laid_out (str_lines source) comments \<Longrightarrow> found (scan_source source) = comments"
  using collect_lines_found [of "str_lines source" comments 1] by (simp add: scan_source_def found_def)

text \<open>What the grammar excludes, and the scanner loses: a second comment on a line, and the rest of a comment
  with an inner comment that goes over lines, as every line but the first is taken to start at depth 1.\<close>

lemma second_comment_lost: "found (scan_source ''/* a */ // b'') = []"
  by code_simp

lemma inner_comment_cut:
  "found (scan_source (''/* a /* b'' @ [CHR 0x0A] @ '' c */ d */'')) = [''/* a /* b'', '' c */'']"
  by code_simp

end
