(* ===== verification/Parser_Evaluation.thy ===== *)
theory Parser_Evaluation
  imports Parser_Decl
begin

text \<open>
  Equations to evaluate the parser with: a method is unfolded when its state is there, so that the
  evaluation follows the tokens and not the bound on the depth.
\<close>

lemma pbind_code [code]:
  "pbind p k s = (case p s of
       None \<Rightarrow> None
     | Some (Inl e) \<Rightarrow> Some (Inl e)
     | Some (Inr (x, s')) \<Rightarrow> k x s')"
  "pthen p q s = pbind p (\<lambda>_. q) s"
  by (simp_all add: pbind_def pthen_def)

lemma iterate_code [code]:
  "iterate 0 body x s = None"
  "iterate (Suc n) body x s =
     pbind (body x) (\<lambda>r. case r of Inl y \<Rightarrow> iterate n body y | Inr z \<Rightarrow> pret z) s"
  by (simp_all add: parse_fuel_spent_def)

lemma parse_type_ref_fuel_code [code]:
  "parse_type_ref_fuel 0 s = None"
  "parse_type_ref_fuel (Suc n) s = pbind peek_kind (\<lambda>k. pbind (peek_n 1) (\<lambda>t1.
     if k = Keyword KwExtern then parse_extern_c_callback_type_ref (parse_type_ref_fuel n)
     else if k = Ident ''task'' \<and> tok_kind t1 = Keyword KwFn then
       parse_task_callback_type_ref (parse_type_ref_fuel n)
     else if k = Keyword KwVoid then pthen advance_token (pret (TypeRef [''void''] []))
     else pbind parse_path (\<lambda>path. pbind (parse_type_args_with (parse_type_ref_fuel n)) (\<lambda>args.
       pret (TypeRef path args))))) s"
  by (simp_all add: parse_fuel_spent_def)

lemma parse_expr_fuel_code [code]:
  "parse_expr_fuel 0 s = None"
  "parse_expr_fuel (Suc n) s = parse_logical_or_expr (parse_unary_expr_fuel n) s"
  "parse_unary_expr_fuel 0 s = None"
  "parse_unary_expr_fuel (Suc n) s = pbind peek_kind (\<lambda>k.
     if k = Punct PBang then
       pthen advance_token (pbind (parse_unary_expr_fuel n) (\<lambda>e. pret (XUnary UnNot e)))
     else if k = Punct PMinus then
       pthen advance_token (pbind (parse_unary_expr_fuel n) (\<lambda>e. pret (XUnary UnNegate e)))
     else parse_postfix_expr (parse_expr_fuel n) (parse_name_or_call_fuel n)) s"
  "parse_name_or_call_fuel 0 s = None"
  "parse_name_or_call_fuel (Suc n) s =
     parse_name_or_call_with (parse_expr_fuel n) (parse_name_or_call_fuel n) s"
  by (simp_all add: parse_fuel_spent_def)

lemma parse_stmt_fuel_code [code]:
  "parse_stmt_fuel 0 s = None"
  "parse_stmt_fuel (Suc n) s = parse_stmt_with (parse_stmt_fuel n) s"
  by (simp_all add: parse_fuel_spent_def)

end
