(* ===== verification/Format_Comments.thy ===== *)
theory Format_Comments
  imports Format_Source Format_Grammar Parser_Evaluation
begin

text \<open>
  The formatter keeps the comments: the lines of the comments that have their lines for themselves or go over
  several lines, as the grammar of \<open>Format_Grammar\<close> says, are lines of the formatted text in the same order.
\<close>

section \<open>Lines of a text\<close>

definition text_lines :: "string \<Rightarrow> string list" where
  "text_lines t = split_by (\<lambda>c. c = CHR 0x0A) t"

definition one_text_line :: "string \<Rightarrow> bool" where
  "one_text_line t \<longleftrightarrow> CHR 0x0A \<notin> set t"

lemma split_by_nonempty [simp]: "split_by P s \<noteq> []"
  by (cases s) (auto split: list.splits)

lemma split_by_at: "P x \<Longrightarrow> split_by P (a @ x # b) = split_by P a @ split_by P b"
proof (induction a)
  case (Cons c a)
  obtain part parts where "split_by P a = part # parts" using split_by_nonempty [of P a] by (cases "split_by P a") auto
  with Cons show ?case by simp
qed simp

lemma split_by_free: "t \<in> set (split_by P s) \<Longrightarrow> c \<in> set t \<Longrightarrow> \<not> P c"
proof (induction s arbitrary: t)
  case (Cons a s)
  obtain part parts where "split_by P s = part # parts" using split_by_nonempty [of P s] by (cases "split_by P s") auto
  with Cons show ?case by (auto split: if_splits) blast
qed simp

lemma split_by_one: "(\<And>c. c \<in> set s \<Longrightarrow> \<not> P c) \<Longrightarrow> split_by P s = [s]"
  by (induction s) auto

lemma length_split_by: "length (split_by P s) \<le> length s + 1"
  by (induction s) (auto split: list.splits)

lemma text_lines_one: "one_text_line t \<Longrightarrow> text_lines t = [t]"
  by (auto simp: text_lines_def one_text_line_def intro!: split_by_one)

lemma length_str_lines: "length (str_lines s) \<le> length s + 1"
  using length_split_by [of "\<lambda>c. c = CHR 0x0A" s] by (simp add: str_lines_def Let_def le_SucI diff_le_self [THEN le_trans])

lemma str_lines_one_line: "t \<in> set (str_lines s) \<Longrightarrow> one_text_line t"
proof -
  let ?parts = "split_by (\<lambda>c. c = CHR 0x0A) s"
  have strip: "set (strip_carriage_return u) \<subseteq> set u" for u
    by (auto simp: strip_carriage_return_def dest: in_set_butlastD)
  assume "t \<in> set (str_lines s)"
  then have "t = last ?parts \<or> (\<exists>u \<in> set ?parts. t = strip_carriage_return u)"
    by (auto simp: str_lines_def Let_def dest: in_set_butlastD split: if_splits)
  then obtain u where "u \<in> set ?parts" "set t \<subseteq> set u"
    using strip last_in_set [OF split_by_nonempty [of "\<lambda>c. c = CHR 0x0A" s]] by blast
  with split_by_free [of u "\<lambda>c. c = CHR 0x0A" s] show ?thesis by (auto simp: one_text_line_def)
qed

lemma set_trim_start_with: "set (trim_start_with ws s) \<subseteq> set s"
proof (induction ws s rule: trim_start_with.induct)
  case (1 ws s)
  then show ?case by (subst trim_start_with.simps) (auto split: option.splits dest: in_set_dropD)
qed

lemma set_trims: "set (trim_start s) \<subseteq> set s" "set (trim_end s) \<subseteq> set s" "set (trim s) \<subseteq> set s"
proof -
  show *: "set (trim_start s) \<subseteq> set s" "set (trim_end s) \<subseteq> set s" for s
    using set_trim_start_with [of "map rev white_space" "rev s"]
    by (simp_all add: trim_start_def trim_end_def set_trim_start_with)
  then show "set (trim s) \<subseteq> set s" unfolding trim_def by blast
qed

lemma one_text_line_parts:
  "one_text_line t \<Longrightarrow> one_text_line (trim_start t)" "one_text_line t \<Longrightarrow> one_text_line (trim_end t)"
  "one_text_line t \<Longrightarrow> one_text_line (take n t)" "one_text_line t \<Longrightarrow> one_text_line (drop n t)"
  using set_trims by (auto simp: one_text_line_def dest: in_set_takeD in_set_dropD)

lemma one_text_line_indented: "one_text_line t \<Longrightarrow> one_text_line (indentation n @ t)"
  by (auto simp: one_text_line_def indentation_def)

section \<open>The comments of a source\<close>

text \<open>The lines of the comments that the scanner finds, in the order of the source.\<close>

definition comment_lines_of :: "string \<Rightarrow> string list" where
  "comment_lines_of source = found (scan_source source)"

text \<open>What holds of the variables of \<open>collect_trivia\<close> before line \<open>n\<close> of \<open>total\<close> lines.\<close>

definition scanned :: "nat \<Rightarrow> nat \<Rightarrow> trivia_state \<Rightarrow> bool" where
  "scanned count n s \<longleftrightarrow> bs_wf (tv_code_lines s) \<and> (\<forall>k \<in> set (tv_code_lines s). k \<le> count)
     \<and> sorted (map rc_end_line (tv_full_line s)) \<and> (\<forall>c \<in> set (tv_full_line s). rc_end_line c < n)
     \<and> (\<forall>c \<in> set (tv_full_line s). list_all one_text_line (rc_lines c))"

lemma scanned_later: "scanned count n s \<Longrightarrow> n \<le> m \<Longrightarrow> scanned count m s"
  by (fastforce simp: scanned_def)

lemma scanned_updates:
  assumes "scanned count n s"
  shows "k \<le> count \<Longrightarrow> scanned count n (add_code_line k s)"
    "scanned count n (add_trailing k t s)"
    "n \<le> k \<Longrightarrow> list_all one_text_line ls \<Longrightarrow> scanned count (k + 1) (add_full_line k ls s)"
  using assms
  by (fastforce simp: scanned_def add_code_line_def add_trailing_def add_full_line_def bs_wf_insert sorted_append)+

lemma scanned_comment_lines:
  assumes "comment_lines n ls acc s = (comments, stop, rest, s')" "scanned count m s" "m \<le> n"
    "list_all one_text_line ls" "list_all one_text_line acc" "n + length ls \<le> count + 1"
  shows "scanned count m s' \<and> m \<le> stop \<and> list_all one_text_line comments \<and> list_all one_text_line rest
     \<and> (rest \<noteq> [] \<longrightarrow> stop + length rest \<le> count)"
  using assms
proof (induction n ls acc s rule: comment_lines.induct)
  case (2 n current ls acc s)
  then show ?case
    by (auto simp: one_text_line_parts intro: scanned_updates(1) split: option.splits if_splits)
qed auto

lemma scanned_collect_lines:
  assumes "scanned count n s" "list_all one_text_line ls" "ls \<noteq> [] \<Longrightarrow> n + length ls \<le> count + 1"
  shows "\<exists>m. scanned count m (collect_lines n ls s)"
  using assms
proof (induction n ls s rule: collect_lines.induct)
  case (1 n s)
  then show ?case by auto
next
  case (2 n line ls s)
  note updates = scanned_updates [OF "2.prems"(1)] scanned_updates(2) [OF scanned_updates(1) [OF "2.prems"(1)]]
  have n: "n \<le> count" and line: "one_text_line line" and ls: "list_all one_text_line ls"
    "ls \<noteq> [] \<Longrightarrow> n + 1 + length ls \<le> count + 1" using "2.prems" by simp_all
  have code: "scanned count (n + 1) (if b then add_code_line n s else s)" for b
    using scanned_later [OF updates(1) [OF n], of "n + 1"] scanned_later [OF "2.prems"(1), of "n + 1"] by simp
  have trailing: "scanned count (n + 1) (if b then add_full_line n [t] s else add_trailing n u (add_code_line n s))"
    if "one_text_line t" for b t u
    using scanned_later [OF updates(4) [OF n], of "n + 1"] updates(3) [of n "[t]"] that by simp
  show ?case
  proof (cases "find_comment_start line")
    case None
    with "2.IH"(1) [OF None code ls] show ?thesis by simp
  next
    case (Some start)
    then obtain i k where start: "find_comment_start line = Some (i, k)" by (cases start) auto
    show ?thesis
    proof (cases k)
      case LineComment
      from "2.IH"(2) [OF start refl LineComment trailing ls] line start LineComment
      show ?thesis by (simp add: one_text_line_parts)
    next
      case BlockComment
      show ?thesis
      proof (cases "find_block_comment_end line i")
        case (Some e)
        from "2.IH"(4) [OF start refl BlockComment Some trailing ls] line start BlockComment Some
        show ?thesis by (simp add: one_text_line_parts)
      next
        case None
        let ?s = "if trim (take i line) = [] then s else add_code_line n s"
        obtain comments stop rest s' where
          lines: "comment_lines (n + 1) ls [trim_end (drop i line)] ?s = (comments, stop, rest, s')"
          by (cases "comment_lines (n + 1) ls [trim_end (drop i line)] ?s") auto
        have "scanned count n ?s" using updates(1) "2.prems"(1) n by simp
        from scanned_comment_lines [OF lines this] line ls n "2.prems"(3)
        have after: "scanned count n s'" "n \<le> stop" "list_all one_text_line comments" "list_all one_text_line rest"
          "rest \<noteq> [] \<longrightarrow> stop + length rest \<le> count" by (simp_all add: one_text_line_parts)
        from "2.IH"(3) [OF start refl BlockComment None lines [symmetric] refl refl
            scanned_updates(3) [OF after(1-3)] after(4)] after(5)
          start BlockComment None lines show ?thesis by simp
      qed
    qed
  qed
qed

section \<open>Comments go to the lines after them in order\<close>

lemma comment_target_mono:
  assumes "bs_wf ks" "\<forall>k \<in> set ks. k \<le> usize_max" "a \<le> b"
  shows "comment_target ks a \<le> comment_target ks b"
  using assms
proof (induction ks)
  case (Cons k ks)
  have "comment_target ks n \<in> set ks \<union> {usize_max}" for n
    by (auto simp: comment_target_def find_Some_iff split: option.splits)
  moreover have "k \<le> u" if "u \<in> set ks \<union> {usize_max}" for u using Cons.prems that by (auto simp: bs_wf_def)
  ultimately have "k \<le> comment_target ks n" for n by blast
  with Cons show ?case by (auto simp: comment_target_def bs_wf_def)
qed (simp add: comment_target_def)

lemma concat_bt_insert:
  assumes "bt_wf m" "\<forall>k \<in> fst ` set m. k \<le> t"
  shows "concat (map snd (bt_insert t ((case bt_get m t of None \<Rightarrow> [] | Some ls \<Rightarrow> ls) @ new) m))
     = concat (map snd m) @ new"
  using assms
proof (induction m)
  case (Cons e m)
  show ?case
  proof (cases "fst e = t")
    case True
    with Cons.prems have "m = []" by (cases m) (auto simp: bt_wf_def)
    with True show ?thesis by simp
  next
    case False
    with Cons show ?thesis by (auto simp: bt_wf_def)
  qed
qed simp

lemma fold_add_leading:
  assumes "bs_wf ks" "\<forall>k \<in> set ks. k \<le> usize_max" "sorted (map rc_end_line cs)" "bt_wf m"
    "\<forall>k \<in> fst ` set m. \<forall>c \<in> set cs. k \<le> comment_target ks (rc_end_line c)"
  shows "bt_wf (fold (add_leading ks) cs m)
     \<and> concat (map snd (fold (add_leading ks) cs m)) = concat (map snd m) @ concat (map rc_lines cs)"
  using assms(3-5)
proof (induction cs arbitrary: m)
  case (Cons c cs)
  let ?m = "add_leading ks c m"
  have "bt_wf ?m" "fst ` set ?m = insert (comment_target ks (rc_end_line c)) (fst ` set m)"
    using Cons.prems by (simp_all add: add_leading_def Let_def bt_wf_insert set_keys_bt_insert)
  moreover have "concat (map snd ?m) = concat (map snd m) @ rc_lines c"
    using Cons.prems concat_bt_insert [of m] by (simp add: add_leading_def Let_def)
  ultimately show ?case
    using Cons.IH [of ?m] Cons.prems comment_target_mono [OF assms(1,2)] by (auto simp: ball_Un)
qed simp

text \<open>The map of the comments before the lines of code.\<close>

definition tidy :: "(nat, string list) btree_map \<Rightarrow> bool" where
  "tidy m \<longleftrightarrow> bt_wf m \<and> list_all one_text_line (concat (map snd m))"

lemma collect_trivia_leading:
  assumes "length source < usize_max"
  shows "tidy (ft_leading (collect_trivia source))"
    "concat (map snd (ft_leading (collect_trivia source))) = comment_lines_of source"
proof -
  let ?n = "length (str_lines source)" and ?s = "scan_source source"
  have start: "scanned ?n 1 \<lparr>tv_full_line = [], tv_trailing = [], tv_code_lines = []\<rparr>" by (simp add: scanned_def)
  have "list_all one_text_line (str_lines source)" by (auto simp: list_all_iff intro: str_lines_one_line)
  from scanned_collect_lines [OF start this] obtain m where s: "scanned ?n m ?s" by (auto simp: scan_source_def)
  have "\<forall>k \<in> set (tv_code_lines ?s). k \<le> usize_max"
    using s assms length_str_lines [of source] by (fastforce simp: scanned_def)
  with fold_add_leading [of "tv_code_lines ?s" "tv_full_line ?s" "[]"] s
  have "bt_wf (ft_leading (collect_trivia source))"
    and lines: "concat (map snd (ft_leading (collect_trivia source))) = comment_lines_of source"
    by (simp_all add: scanned_def collect_trivia_def Let_def comment_lines_of_def found_def bt_wf_def)
  moreover have "list_all one_text_line (comment_lines_of source)"
    using s by (auto simp: scanned_def comment_lines_of_def found_def list_all_iff)
  ultimately show "tidy (ft_leading (collect_trivia source))" by (simp add: tidy_def)
  show "concat (map snd (ft_leading (collect_trivia source))) = comment_lines_of source" by (rule lines)
qed

section \<open>What the formatter has written\<close>

definition at_line_start :: "string \<Rightarrow> bool" where
  "at_line_start t \<longleftrightarrow> t = [] \<or> last t = CHR 0x0A"

definition complete_lines :: "string \<Rightarrow> string list" where
  "complete_lines t = butlast (text_lines t)"

definition indented :: "string \<Rightarrow> string \<Rightarrow> bool" where
  "indented l comment \<longleftrightarrow> (\<exists>n. l = indentation n @ trim_start comment)"

text \<open>The lines of comments are lines of a text, in order.\<close>

definition carries :: "string list \<Rightarrow> string list \<Rightarrow> bool" where
  "carries ls comments \<longleftrightarrow> (\<exists>us. subseq us ls \<and> list_all2 indented us comments)"

lemma carries_append: "carries ls comments \<Longrightarrow> carries (ls @ ls') comments"
  unfolding carries_def by (meson list_emb_append2 list_emb_prefix)

lemma carries_snoc: "carries ls comments \<Longrightarrow> carries (ls @ [indentation n @ trim_start c]) (comments @ [c])"
proof -
  assume "carries ls comments"
  then obtain us where us: "subseq us ls" "list_all2 indented us comments" by (auto simp: carries_def)
  then have "subseq (us @ [indentation n @ trim_start c]) (ls @ [indentation n @ trim_start c])"
    by (simp add: list_emb_append_mono)
  moreover have "list_all2 indented (us @ [indentation n @ trim_start c]) (comments @ [c])"
    by (rule list_all2_appendI) (use us(2) in \<open>auto simp: indented_def\<close>)
  ultimately show ?thesis unfolding carries_def by blast
qed

lemma complete_lines_text:
  "at_line_start t \<Longrightarrow> complete_lines (t @ u @ [CHR 0x0A]) = complete_lines t @ text_lines u"
proof (cases "t = []")
  case True
  then show ?thesis by (simp add: complete_lines_def text_lines_def split_by_at)
next
  case False
  moreover assume "at_line_start t"
  ultimately have "t = butlast t @ [CHR 0x0A]" by (metis at_line_start_def append_butlast_last_id)
  then obtain v where v: "t = v @ [CHR 0x0A]" by blast
  show ?thesis by (simp add: v complete_lines_def text_lines_def split_by_at butlast_append)
qed

text \<open>The comments of the first \<open>k\<close> lines with comments are written.\<close>

definition written :: "(nat, string list) btree_map \<Rightarrow> nat \<Rightarrow> formatter \<Rightarrow> bool" where
  "written m k f \<longleftrightarrow> ft_leading (fm_trivia f) = m \<and> k \<le> length m \<and> set (fm_emitted f) = set (take k (bt_keys m))
     \<and> at_line_start (fm_out f) \<and> carries (complete_lines (fm_out f)) (concat (map snd (take k m)))"

lemma written_text: "written m k f \<Longrightarrow> written m k (emit_text (u @ [CHR 0x0A]) f)"
  by (simp add: written_def emit_text_def complete_lines_text carries_append) (simp add: at_line_start_def)

lemma fold_comments:
  assumes "at_line_start (fm_out f)" "carries (complete_lines (fm_out f)) cs" "list_all one_text_line ls"
  shows "let f' = fold (\<lambda>comment. emit_text (indentation n @ trim_start comment @ [CHR 0x0A])) ls f
     in at_line_start (fm_out f') \<and> carries (complete_lines (fm_out f')) (cs @ ls)
       \<and> fm_trivia f' = fm_trivia f \<and> fm_emitted f' = fm_emitted f"
  using assms
proof (induction ls arbitrary: f cs)
  case (Cons c ls)
  let ?u = "indentation n @ trim_start c"
  let ?f = "emit_text (?u @ [CHR 0x0A]) f"
  have "text_lines ?u = [?u]"
    using Cons.prems(3) by (simp add: text_lines_one one_text_line_indented one_text_line_parts)
  then have "complete_lines (fm_out ?f) = complete_lines (fm_out f) @ [?u]"
    using complete_lines_text [of "fm_out f" ?u] Cons.prems(1) by (simp add: emit_text_def)
  with carries_snoc [OF Cons.prems(2)] have "carries (complete_lines (fm_out ?f)) (cs @ [c])" by simp
  moreover have "at_line_start (fm_out ?f)" by (simp add: emit_text_def at_line_start_def)
  ultimately have "at_line_start (fm_out ?f)" "carries (complete_lines (fm_out ?f)) (cs @ [c])" by simp_all
  from Cons.IH [OF this] Cons.prems(3) show ?case by (simp add: Let_def emit_text_def)
qed simp

lemma written_comments_of:
  assumes "tidy m" "written m k f" "i < length m" "i \<le> k"
  shows "written m (max k (i + 1)) (emit_comments_of n (bt_keys m ! i) f)"
proof (cases "i < k")
  case True
  with assms have "bt_keys m ! i \<in> set (fm_emitted f)"
    by (auto simp: written_def bt_keys_def in_set_conv_nth intro!: exI [of _ i])
  with True assms(2) show ?thesis by (simp add: emit_comments_of_def max_absorb1)
next
  case False
  with assms(4) have k: "k = i" by simp
  have "distinct (bt_keys m)" using assms(1) by (simp add: tidy_def bt.keys_distinct)
  moreover have take: "take (i + 1) (bt_keys m) = take i (bt_keys m) @ [bt_keys m ! i]"
    using assms(3) by (simp add: take_Suc_conv_app_nth bt_keys_def)
  ultimately have fresh: "bt_keys m ! i \<notin> set (take i (bt_keys m))"
    by (metis distinct_append distinct_take disjoint_iff list.set_intros(1))
  let ?f = "f\<lparr>fm_emitted := bs_insert (bt_keys m ! i) (fm_emitted f)\<rparr>"
  have item: "m ! i \<in> set m" using assms(3) by simp
  then have get: "bt_get m (bt_keys m ! i) = Some (snd (m ! i))"
    using assms(1,3) by (simp add: bt_get_def bt_keys_def tidy_def bt_wf_def strict_sorted_iff)
  have lines: "list_all one_text_line (snd (m ! i))" using assms(1) item by (auto simp: tidy_def list_all_iff)
  have "at_line_start (fm_out ?f)" "carries (complete_lines (fm_out ?f)) (concat (map snd (take i m)))"
    using assms(2) k by (simp_all add: written_def)
  from fold_comments [OF this lines, of n] get fresh assms(2,3) k take take_Suc_conv_app_nth [OF assms(3)]
  show ?thesis by (auto simp: written_def emit_comments_of_def Let_def)
qed

lemma written_prefix:
  assumes "tidy m" "written m k f" "j \<le> length m"
  shows "written m (max k j) (fold (emit_comments_of n) (take j (bt_keys m)) f)"
  using assms(3)
proof (induction j)
  case (Suc j)
  then have "written m (max k j) (fold (emit_comments_of n) (take j (bt_keys m)) f)" by simp
  moreover have "max (max k j) (Suc j) = max k (Suc j)" by simp
  ultimately show ?case
    using written_comments_of [OF assms(1), of "max k j" _ j n] Suc.prems by (simp add: take_Suc_conv_app_nth bt_keys_def)
qed (simp add: assms(2))

lemma keys_up_to: "bt_wf m \<Longrightarrow> \<exists>j \<le> length m. filter (\<lambda>key. key \<le> n) (bt_keys m) = take j (bt_keys m)"
proof (induction m)
  case (Cons e m)
  then obtain j where "j \<le> length m" "filter (\<lambda>key. key \<le> n) (bt_keys m) = take j (bt_keys m)"
    by (auto simp: bt_wf_def)
  moreover have "fst e \<le> n \<or> filter (\<lambda>key. key \<le> n) (bt_keys m) = []"
    using Cons.prems by (fastforce simp: bt_wf_def bt_keys_def filter_empty_conv)
  ultimately show ?case
    by (cases "fst e \<le> n") (auto simp: bt_keys_def intro: exI [of _ "Suc j"] exI [of _ 0])
qed (simp add: bt_keys_def)

section \<open>Every method keeps what is written\<close>

definition keeps_written :: "(nat, string list) btree_map \<Rightarrow> emit \<Rightarrow> bool" where
  "keeps_written m a \<longleftrightarrow> (\<forall>f f' k. a f = Some f' \<longrightarrow> written m k f \<longrightarrow> (\<exists>k'. written m k' f'))"

lemma keeps_all: "list_all (keeps_written m) as \<Longrightarrow> keeps_written m (emit_all as)"
proof (induction as)
  case (Cons a as)
  then have a: "keeps_written m a" and as: "keeps_written m (emit_all as)" by simp_all
  show ?case unfolding keeps_written_def
  proof (intro allI impI)
    fix f f' k
    assume "emit_all (a # as) f = Some f'" "written m k f"
    then obtain g where "a f = Some g" "emit_all as g = Some f'" by (auto simp: bind_eq_Some_conv)
    with a as \<open>written m k f\<close> show "\<exists>k'. written m k' f'" unfolding keeps_written_def by blast
  qed
qed (auto simp: keeps_written_def)

lemma keeps_map: "(\<And>x. x \<in> set xs \<Longrightarrow> keeps_written m (g x)) \<Longrightarrow> keeps_written m (emit_all (map g xs))"
  by (rule keeps_all) (simp add: list_all_iff)

lemma keeps_line: "keeps_written m (emit_line n t)"
  unfolding keeps_written_def emit_line_def using written_text [of m _ _ "indentation n @ t"] by auto

lemma keeps_blank: "keeps_written m blank_line" "keeps_written m (blank_if b)"
proof -
  show "keeps_written m blank_line"
    unfolding keeps_written_def blank_line_def using written_text [of m _ _ "[]"] by auto
  then show "keeps_written m (blank_if b)" by (auto simp: blank_if_def keeps_all)
qed

lemma keeps_panic: "keeps_written m panics"
  by (simp add: keeps_written_def panics_def)

lemma keeps_indexed: "(\<And>x. keeps_written m (g x)) \<Longrightarrow> keeps_written m (indexed xs i g)"
  by (simp add: indexed_def keeps_panic)

lemma written_leading:
  assumes "tidy m" "written m k f"
  shows "\<exists>k'. written m k' (emit_leading_comments n indent f)"
proof -
  have "ft_leading (fm_trivia f) = m" using assms(2) by (simp add: written_def)
  moreover obtain j where "j \<le> length m" "filter (\<lambda>key. key \<le> n) (bt_keys m) = take j (bt_keys m)"
    using keys_up_to [of m n] assms(1) by (auto simp: tidy_def)
  ultimately show ?thesis
    using written_prefix [OF assms, of j indent] by (auto simp: emit_leading_comments_def)
qed

lemma keeps_leading: "tidy m \<Longrightarrow> keeps_written m (\<lambda>f. Some (emit_leading_comments n indent f))"
  by (auto simp: keeps_written_def dest: written_leading)

lemma keeps_line_at: "tidy m \<Longrightarrow> keeps_written m (emit_line_at indent t n)"
  unfolding keeps_written_def emit_line_at_def Let_def
proof (intro allI impI)
  fix f f' k
  let ?g = "emit_leading_comments n indent f"
  let ?t = "t @ (case bt_get (ft_trailing (fm_trivia ?g)) n of None \<Rightarrow> [] | Some comment \<Rightarrow> '' '' @ comment)"
  assume "tidy m" "written m k f"
    "Some (emit_text (indentation indent @ t
       @ (case bt_get (ft_trailing (fm_trivia ?g)) n of None \<Rightarrow> [] | Some comment \<Rightarrow> '' '' @ comment)
       @ [CHR 0x0A]) ?g) = Some f'"
  with written_leading [of m k f n indent] written_text [of m _ ?g "indentation indent @ ?t"]
  show "\<exists>k'. written m k' f'" by auto
qed

lemmas keeps_rules = keeps_line keeps_blank keeps_panic keeps_leading keeps_line_at

lemma keeps_stmt:
  assumes "tidy m"
  shows "keeps_written m (format_stmt s n)" "keeps_written m (format_for v n l)"
    "keeps_written m (format_match_arm a n)" "keeps_written m (format_select_arm b n)"
  by (induction s n and v n l and a n and b n rule: format_stmt_format_for_format_match_arm_format_select_arm.induct)
    (auto intro!: keeps_all keeps_map keeps_line keeps_panic keeps_line_at [OF assms] simp del: emit_all.simps split: option.split stmt.split)

lemma keeps_block: "tidy m \<Longrightarrow> keeps_written m (format_block body n)"
  by (simp add: format_block_def keeps_map keeps_stmt)

lemma keeps_function: "tidy m \<Longrightarrow> keeps_written m (format_function n b d)"
  by (auto simp: format_function_def intro!: keeps_all keeps_rules keeps_block)

lemma keeps_item: "tidy m \<Longrightarrow> keeps_written m (format_item ast layout item)"
  by (cases item)
    (auto simp: format_item_def format_struct_def format_field_def format_enum_def format_interface_def
      format_signature_def format_extern_block_def format_extern_opaque_type_def format_impl_def format_const_def
      intro!: keeps_indexed keeps_all keeps_map keeps_rules keeps_function)

lemma format_file_written:
  assumes "tidy m" "ft_leading t = m"
    "format_file ast tokens \<lparr>fm_trivia = t, fm_emitted = [], fm_out = []\<rparr> = Some f"
  shows "written m (length m) f"
proof -
  let ?start = "\<lparr>fm_trivia = t, fm_emitted = [], fm_out = []\<rparr>"
  let ?layout = "layout_from_tokens tokens" and ?items = "top_level_items tokens"
  let ?parts = "[emit_line_at 0 (''package '' @ path_text (sf_package ast)) (tl_package_line ?layout),
        blank_if (sf_imports ast \<noteq> [] \<or> has_top_level_items ast),
        emit_all (map (\<lambda>(i, import). emit_line_at 0 (''import '' @ path_text import)
            (line_or (tl_import_lines ?layout) i (tl_package_line ?layout))) (enumerate 0 (sf_imports ast))),
        blank_if (sf_imports ast \<noteq> [] \<and> has_top_level_items ast),
        emit_all (map (\<lambda>(i, item). emit_all [blank_if (0 < i), format_item ast ?layout item]) (enumerate 0 ?items)),
        blank_if (?items \<noteq> [] \<and> sf_script_body ast \<noteq> []),
        format_block (sf_script_body ast) 0]"
  have emit_append: "emit_all (as @ bs) f = Option.bind (emit_all as f) (emit_all bs)" for as bs f
    by (induction as arbitrary: f) (auto split: Option.bind_split)
  have "list_all (keeps_written m) ?parts"
    using assms(1) by (auto intro!: keeps_all keeps_map keeps_rules keeps_item keeps_block)
  then have parts: "keeps_written m (emit_all ?parts)" by (rule keeps_all)
  have start: "written m 0 ?start"
    by (auto simp: written_def assms(2) at_line_start_def carries_def complete_lines_def)
  from assms(3) obtain g where g: "emit_all ?parts ?start = Some g"
    and f: "f = (let h = emit_remaining_comments 0 g in if ends_line (fm_out h) then h else emit_text [CHR 0x0A] h)"
    unfolding format_file_def Let_def using emit_append [of ?parts]
    by (auto simp: bind_eq_Some_conv)
  from parts start g obtain k where k: "written m k g" unfolding keeps_written_def by blast
  then have "written m (max k (length m)) (emit_remaining_comments 0 g)"
    using written_prefix [OF assms(1) k order_refl, of 0] by (simp add: emit_remaining_comments_def written_def bt_keys_def)
  with k have "written m (length m) (emit_remaining_comments 0 g)" by (simp add: written_def max_absorb2)
  with written_text [of m "length m" "emit_remaining_comments 0 g" "[]"] f show ?thesis
    by (simp add: Let_def)
qed

lemma format_source_carries:
  assumes "format_source path source = Some (Ok out)" "length source < usize_max"
  shows "carries (text_lines out) (comment_lines_of source)"
proof -
  let ?m = "ft_leading (collect_trivia source)"
  note leading = collect_trivia_leading [OF assms(2)]
  from assms(1) obtain ast tokens f where
    f: "format_file ast tokens \<lparr>fm_trivia = collect_trivia source, fm_emitted = [], fm_out = []\<rparr> = Some f" "out = fm_out f"
    by (auto simp: format_source_def split: sum.splits option.splits)
  from format_file_written [OF leading(1) refl f(1)] leading(2) f(2)
  have "carries (complete_lines out) (comment_lines_of source)" by (simp add: written_def)
  from carries_append [OF this, of "[last (text_lines out)]"] show ?thesis
    by (simp add: complete_lines_def text_lines_def)
qed

text \<open>C9. The formatter loses no comment that has its lines for itself or goes over several lines: when it
  formats a source, every line of these comments, but for its indentation, is a line of the result, in the
  order of the source, and no line of the result stands for two of them. The comments are those of the
  grammar \<open>laid_out\<close>, which knows nothing of the formatter: it asks for at most one comment on a line, and
  that a comment inside a block comment closes on the line it opens on. A source is shorter than the largest
  \<open>usize\<close>, as every string of the program is.\<close>
theorem formatter_keeps_comments:
  assumes "format_source path source = Some (Ok out)" "laid_out (str_lines source) comments"
    "length source < usize_max"
  shows "\<exists>ls. subseq ls (text_lines out) \<and> list_all2 indented ls comments"
  using format_source_carries [OF assms(1,3)] scan_source_found [OF assms(2)]
  by (simp add: carries_def comment_lines_of_def)

definition example_source :: string where
  "example_source = concat (map (\<lambda>l. l @ [CHR 0x0A])
     [''package app'', ''// user'', ''struct U{'', ''/* a'', ''   b */'', ''id:i32 // c'', ''}'',
      ''fn f(){'', ''// d'', ''g( 1 )'', ''}''])"

definition example_result :: string where
  "example_result = concat (map (\<lambda>l. l @ [CHR 0x0A])
     [''package app'', [], ''// user'', ''struct U {'', ''    /* a'', ''    b */'', ''    id: i32 // c'', ''}'', [],
      ''fn f() {'', ''    // d'', ''    g(1)'', ''}''])"

lemma example_formatted: "format_source ''main.nomo'' example_source = Some (Ok example_result)"
  by code_simp

lemma plain_code: "list_all (\<lambda>ch. ch \<notin> {[CHR 0x22], [CHR 0x27], ''/''}) p \<Longrightarrow> code_before p rest"
  by (induction p) (auto intro: code_before.intros simp: opens_comment_def)

lemma plain_comment: "list_all (\<lambda>ch. ch \<notin> {''/'', ''*''}) b \<Longrightarrow> nests d b rest d"
  by (induction b) (auto intro: nests.intros)

lemma example_lines: "str_lines example_source = [''package app'', ''// user'', ''struct U{'', ''/* a'', ''   b */'',
    ''id:i32 // c'', ''}'', ''fn f(){'', ''// d'', ''g( 1 )'', ''}'']"
  by code_simp

lemma example_chars:
  "chars_of ''// user'' = [] @ ''/'' # ''/'' # ['' '', ''u'', ''s'', ''e'', ''r'']"
  "chars_of ''/* a'' = [] @ ''/'' # ''*'' # ['' '', ''a'']"
  "chars_of ''   b */'' = ['' '', '' '', '' '', ''b'', '' ''] @ ''*'' # ''/'' # []"
  "chars_of ''id:i32 // c'' = [''i'', ''d'', '':'', ''i'', ''3'', ''2'', '' ''] @ ''/'' # ''/'' # ['' '', ''c'']"
  "chars_of ''// d'' = [] @ ''/'' # ''/'' # ['' '', ''d'']"
  by code_simp+

lemma example_blank:
  "blank []" "\<not> blank [''i'', ''d'', '':'', ''i'', ''3'', ''2'', '' '']"
  by code_simp+

lemma example_code:
  "code_before (chars_of ''package app'') []" "code_before (chars_of ''struct U{'') []" "code_before (chars_of ''}'') []"
  "code_before (chars_of ''fn f(){'') []" "code_before (chars_of ''g( 1 )'') []"
  by (rule plain_code, code_simp)+

lemma example_laid_out: "laid_out (str_lines example_source) [''// user'', ''/* a'', ''   b */'', ''// d'']"
proof -
  have line: "comment_line (''/'' # ''/'' # ['' '', ''u'', ''s'', ''e'', ''r'']) = ''// user''"
    "comment_line (''/'' # ''/'' # ['' '', ''d'']) = ''// d''" "comment_line (''/'' # ''*'' # ['' '', ''a'']) = ''/* a''"
    "comment_line ['' '', '' '', '' '', ''b'', '' '', ''*'', ''/''] = ''   b */''" by code_simp+
  have none: "list_all P []" for P :: "string \<Rightarrow> bool" by simp
  note code_lines = example_code [THEN laid_out.code_line]
  from laid_out.own_line [OF example_chars(5) refl code_before.end_of_code example_blank(1)
      code_lines(5) [OF code_lines(3) [OF laid_out.no_lines]]]
  have "laid_out [''// d'', ''g( 1 )'', ''}''] [''// d'']" by (simp only: line)
  from laid_out.after_code [OF example_chars(4) refl _ example_blank(2) code_lines(3) [OF code_lines(4) [OF this]]]
  have "laid_out [''id:i32 // c'', ''}'', ''fn f(){'', ''// d'', ''g( 1 )'', ''}''] [''// d'']"
    by (simp add: plain_code)
  from laid_out.long_block [OF example_chars(2) refl code_before.end_of_code plain_comment none
      example_chars(3) plain_comment code_before.end_of_code this]
  have "laid_out [''/* a'', ''   b */'', ''id:i32 // c'', ''}'', ''fn f(){'', ''// d'', ''g( 1 )'', ''}'']
      [''/* a'', ''   b */'', ''// d'']" by (simp add: line)
  from laid_out.own_line [OF example_chars(1) refl code_before.end_of_code example_blank(1) code_lines(2) [OF this]]
  have "laid_out [''// user'', ''struct U{'', ''/* a'', ''   b */'', ''id:i32 // c'', ''}'', ''fn f(){'', ''// d'', ''g( 1 )'', ''}'']
      [''// user'', ''/* a'', ''   b */'', ''// d'']" by (simp only: line)
  from code_lines(1) [OF this] show ?thesis unfolding example_lines .
qed

theorem formatter_keeps_comments_witness:
  "\<exists>ls. subseq ls (text_lines example_result) \<and> list_all2 indented ls [''// user'', ''/* a'', ''   b */'', ''// d'']"
proof -
  have "length example_source < usize_max"
    by (simp add: example_source_def usize_max_def usize_limit_def)
  with formatter_keeps_comments [OF example_formatted example_laid_out] show ?thesis by blast
qed

end
