(* ===== verification/Digraph.thy ===== *)
theory Digraph
  imports Ordered_Map
begin

text \<open>
  The directed graph of \<open>libs/graph/src/lib.rs\<close>: nodes and successor sets in ordered collections, and
  the depth-first topological sort that returns dependencies before dependants or the cycle it met.

  The recursion of \<open>visit\<close> is given fuel, one unit per nested visit; \<open>None\<close> is running out of it.
  \<open>topological_sort\<close> supplies one unit per node, and \<open>visit_spec\<close> shows that this is enough: a
  visit that runs out of fuel had more unvisited nodes than fuel.
\<close>

section \<open>The graph\<close>

type_synonym 'n digraph = "('n, 'n list) btree_map"

datatype 'n cycle = Cycle (cycle_path: "'n list")

definition graph_new :: "'n digraph" where
  "graph_new = []"

definition add_node :: "'n::linorder \<Rightarrow> 'n digraph \<Rightarrow> bool \<times> 'n digraph" where
  "add_node n g =
     (if bt_contains_key g n then (False, g) else (True, bt_insert n [] g))"

text \<open>\<open>entry(k).or_default()\<close> leaves an existing entry alone.\<close>

definition entry_or_default :: "'n::linorder \<Rightarrow> 'n digraph \<Rightarrow> 'n digraph" where
  "entry_or_default n g = (case bt_get g n of None \<Rightarrow> bt_insert n [] g | Some _ \<Rightarrow> g)"

definition successors :: "'n digraph \<Rightarrow> 'n \<Rightarrow> 'n list" where
  "successors g n = (case bt_get g n of None \<Rightarrow> [] | Some ss \<Rightarrow> ss)"

definition add_edge :: "'n::linorder \<Rightarrow> 'n \<Rightarrow> 'n digraph \<Rightarrow> bool \<times> 'n digraph" where
  "add_edge from_node to_node g =
     (let g1 = entry_or_default to_node g;
          ss = successors g1 from_node
      in (to_node \<notin> set ss, bt_insert from_node (bs_insert to_node ss) g1))"

definition contains_node :: "'n digraph \<Rightarrow> 'n \<Rightarrow> bool" where
  "contains_node g n \<longleftrightarrow> bt_contains_key g n"

definition contains_edge :: "'n digraph \<Rightarrow> 'n \<Rightarrow> 'n \<Rightarrow> bool" where
  "contains_edge g u v \<longleftrightarrow> (case bt_get g u of None \<Rightarrow> False | Some ss \<Rightarrow> v \<in> set ss)"

definition nodes :: "'n digraph \<Rightarrow> 'n list" where
  "nodes g = bt_keys g"

definition node_count :: "'n digraph \<Rightarrow> nat" where
  "node_count g = length g"

definition edge_count :: "'n digraph \<Rightarrow> nat" where
  "edge_count g = sum_list (map (length \<circ> snd) g)"

section \<open>Depth-first search\<close>

datatype visit_state = Visiting | Visited

record 'n dfs =
  states :: "('n, visit_state) btree_map"
  stack :: "'n list"
  ordered :: "'n list"

text \<open>\<open>MissingStackNode\<close> is the panic of the \<open>expect\<close> on the stack position.\<close>

datatype 'n visit_error = CycleFound "'n cycle" | MissingStackNode

fun visit :: "nat \<Rightarrow> 'n::linorder digraph \<Rightarrow> 'n \<Rightarrow> 'n dfs \<Rightarrow> ('n visit_error + 'n dfs) option"
  and visit_successors :: "nat \<Rightarrow> 'n digraph \<Rightarrow> 'n list \<Rightarrow> 'n dfs \<Rightarrow> ('n visit_error + 'n dfs) option"
where
  "visit 0 g n s = None"
| "visit (Suc fuel) g n s =
     (let s1 = s\<lparr>states := bt_insert n Visiting (states s), stack := stack s @ [n]\<rparr>
      in case visit_successors fuel g (successors g n) s1 of
           None \<Rightarrow> None
         | Some (Inl e) \<Rightarrow> Some (Err e)
         | Some (Inr s2) \<Rightarrow>
             Some (Ok (s2\<lparr>stack := butlast (stack s2),
                          states := bt_insert n Visited (states s2),
                          ordered := ordered s2 @ [n]\<rparr>)))"
| "visit_successors fuel g [] s = Some (Ok s)"
| "visit_successors fuel g (m # ms) s =
     (case bt_get (states s) m of
        Some Visited \<Rightarrow> visit_successors fuel g ms s
      | Some Visiting \<Rightarrow>
          (case position (\<lambda>c. c = m) (stack s) of
             None \<Rightarrow> Some (Err MissingStackNode)
           | Some start \<Rightarrow> Some (Err (CycleFound (Cycle (drop start (stack s) @ [m])))))
      | None \<Rightarrow>
          (case visit fuel g m s of
             None \<Rightarrow> None
           | Some (Inl e) \<Rightarrow> Some (Err e)
           | Some (Inr s') \<Rightarrow> visit_successors fuel g ms s'))"

fun sort_nodes :: "nat \<Rightarrow> 'n::linorder digraph \<Rightarrow> 'n list \<Rightarrow> 'n dfs \<Rightarrow> ('n visit_error + 'n dfs) option" where
  "sort_nodes fuel g [] s = Some (Ok s)"
| "sort_nodes fuel g (n # ns) s =
     (if bt_contains_key (states s) n then sort_nodes fuel g ns s
      else case visit fuel g n s of
             None \<Rightarrow> None
           | Some (Inl e) \<Rightarrow> Some (Err e)
           | Some (Inr s') \<Rightarrow> sort_nodes fuel g ns s')"

definition dfs_start :: "'n dfs" where
  "dfs_start = \<lparr>states = [], stack = [], ordered = []\<rparr>"

definition topological_sort :: "'n::linorder digraph \<Rightarrow> ('n visit_error + 'n list) option" where
  "topological_sort g =
     map_option (map_ok ordered) (sort_nodes (node_count g) g (nodes g) dfs_start)"

definition find_cycle :: "'n::linorder digraph \<Rightarrow> 'n cycle option" where
  "find_cycle g =
     (case topological_sort g of Some (Inl (CycleFound c)) \<Rightarrow> Some c | _ \<Rightarrow> None)"

section \<open>The graph operations\<close>

text \<open>The representation invariant: ordered keys, ordered successor sets, every successor a node.\<close>

definition graph_wf :: "'n::linorder digraph \<Rightarrow> bool" where
  "graph_wf g \<longleftrightarrow> bt_wf g \<and>
     (\<forall>u ss. bt_get g u = Some ss \<longrightarrow> bs_wf ss \<and> (\<forall>v \<in> set ss. contains_node g v))"

lemma contains_edge_successors: "contains_edge g u v \<longleftrightarrow> v \<in> set (successors g u)"
  by (simp add: contains_edge_def successors_def split: option.split)

lemma contains_node_keys: "bt_wf g \<Longrightarrow> contains_node g n \<longleftrightarrow> n \<in> set (nodes g)"
  by (simp add: contains_node_def bt_contains_key_def nodes_def bt.keys_get)

lemma graph_wf_new [wf_intros]: "graph_wf graph_new"
  by (simp add: graph_wf_def graph_new_def bt.wf_empty)

lemma contains_node_insert:
  "bt_wf g \<Longrightarrow> contains_node (bt_insert u ss g) v \<longleftrightarrow> v = u \<or> contains_node g v"
  by (simp add: contains_node_def bt_contains_key_def bt.get_put)

lemma graph_wf_insert:
  assumes "graph_wf g" "bs_wf ss" "\<forall>v \<in> set ss. v = u \<or> contains_node g v"
  shows "graph_wf (bt_insert u ss g)"
  using assms by (auto simp: graph_wf_def bt.wf_put bt.get_put contains_node_insert split: if_splits)

lemma graph_wf_add_node [wf_intros]: "graph_wf g \<Longrightarrow> graph_wf (snd (add_node n g))"
  by (simp add: add_node_def graph_wf_insert)

lemma entry_or_default_spec:
  assumes "graph_wf g"
  shows "graph_wf (entry_or_default n g)"
    and "contains_node (entry_or_default n g) v \<longleftrightarrow> v = n \<or> contains_node g v"
    and "successors (entry_or_default n g) u = successors g u"
proof -
  have wf: "bt_wf g" using assms by (simp add: graph_wf_def)
  show "graph_wf (entry_or_default n g)"
    using assms by (simp add: entry_or_default_def graph_wf_insert split: option.split)
  show "contains_node (entry_or_default n g) v \<longleftrightarrow> v = n \<or> contains_node g v"
    using wf by (auto simp: entry_or_default_def contains_node_insert contains_node_def
        bt_contains_key_def bt.get_put split: option.split)
  show "successors (entry_or_default n g) u = successors g u"
    using wf by (simp add: entry_or_default_def successors_def bt.get_put split: option.split)
qed

lemma successors_wf:
  assumes "graph_wf g"
  shows "bs_wf (successors g u)" and "v \<in> set (successors g u) \<Longrightarrow> contains_node g v"
  using assms by (cases "bt_get g u"; force simp: graph_wf_def successors_def)+

lemma graph_wf_add_edge [wf_intros]: "graph_wf g \<Longrightarrow> graph_wf (snd (add_edge u v g))"
  using entry_or_default_spec [of g v] successors_wf [of g]
  by (auto simp: add_edge_def Let_def intro!: graph_wf_insert bs_wf_insert)

lemma add_edge_edges:
  assumes "graph_wf g"
  shows "contains_edge (snd (add_edge u v g)) a b \<longleftrightarrow> contains_edge g a b \<or> (a = u \<and> b = v)"
    and "contains_node (snd (add_edge u v g)) a \<longleftrightarrow> contains_node g a \<or> a = u \<or> a = v"
    and "fst (add_edge u v g) \<longleftrightarrow> \<not> contains_edge g u v"
proof -
  have wf: "bt_wf (entry_or_default v g)"
    using entry_or_default_spec(1) [OF assms] by (simp add: graph_wf_def)
  have succ: "successors (snd (add_edge u v g)) a
      = (if a = u then bs_insert v (successors g u) else successors g a)"
    using wf entry_or_default_spec(3) [OF assms, of v]
    by (simp add: add_edge_def Let_def successors_def bt.get_put)
  show "contains_edge (snd (add_edge u v g)) a b \<longleftrightarrow> contains_edge g a b \<or> (a = u \<and> b = v)"
    by (auto simp: contains_edge_successors succ)
  show "contains_node (snd (add_edge u v g)) a \<longleftrightarrow> contains_node g a \<or> a = u \<or> a = v"
    using wf entry_or_default_spec(2) [OF assms, of v a]
    by (auto simp: add_edge_def Let_def contains_node_insert)
  show "fst (add_edge u v g) \<longleftrightarrow> \<not> contains_edge g u v"
    using entry_or_default_spec(3) [OF assms] by (simp add: add_edge_def Let_def contains_edge_successors)
qed

section \<open>Correctness of the search\<close>

definition edge_rel :: "'n digraph \<Rightarrow> ('n \<times> 'n) set" where
  "edge_rel g = {(u, v). contains_edge g u v}"

text \<open>A reported cycle: a walk along edges of length at least one that returns to its first node.\<close>

definition is_cycle :: "'n digraph \<Rightarrow> 'n cycle \<Rightarrow> bool" where
  "is_cycle g c \<longleftrightarrow> 2 \<le> length (cycle_path c) \<and> hd (cycle_path c) = last (cycle_path c)
     \<and> successively (contains_edge g) (cycle_path c)"

text \<open>Every dependency of a listed node is listed before it.\<close>

definition dependencies_first :: "'n digraph \<Rightarrow> 'n list \<Rightarrow> bool" where
  "dependencies_first g xs \<longleftrightarrow>
     (\<forall>i < length xs. \<forall>v. contains_edge g (xs ! i) v \<longrightarrow> v \<in> set (take i xs))"

lemma dependencies_first_Nil [simp]: "dependencies_first g []"
  by (simp add: dependencies_first_def)

lemma dependencies_first_snoc [simp]:
  "dependencies_first g (xs @ [n]) \<longleftrightarrow>
     dependencies_first g xs \<and> (\<forall>v. contains_edge g n v \<longrightarrow> v \<in> set xs)"
  by (auto simp: dependencies_first_def nth_append less_Suc_eq)

definition dfs_inv :: "'n::linorder digraph \<Rightarrow> 'n dfs \<Rightarrow> bool" where
  "dfs_inv g s \<longleftrightarrow> bt_wf (states s)
     \<and> (\<forall>n. bt_get (states s) n = Some Visiting \<longleftrightarrow> n \<in> set (stack s))
     \<and> (\<forall>n. bt_get (states s) n = Some Visited \<longleftrightarrow> n \<in> set (ordered s))
     \<and> set (stack s) \<union> set (ordered s) \<subseteq> set (nodes g)
     \<and> distinct (stack s) \<and> distinct (ordered s)
     \<and> successively (contains_edge g) (stack s)
     \<and> dependencies_first g (ordered s)"

definition unvisited :: "'n digraph \<Rightarrow> 'n dfs \<Rightarrow> 'n set" where
  "unvisited g s = set (nodes g) - set (stack s) - set (ordered s)"

lemma unvisited_finite [simp]: "finite (unvisited g s)"
  by (simp add: unvisited_def)

lemma dfs_inv_cases:
  assumes "dfs_inv g s"
  shows "bt_get (states s) n = None \<longleftrightarrow> n \<notin> set (stack s) \<and> n \<notin> set (ordered s)"
proof -
  have "bt_get (states s) n = Some Visiting \<longleftrightarrow> n \<in> set (stack s)"
    and "bt_get (states s) n = Some Visited \<longleftrightarrow> n \<in> set (ordered s)"
    using assms by (simp_all add: dfs_inv_def)
  moreover have "v = Visiting \<or> v = Visited" for v
    by (cases v) auto
  ultimately show ?thesis
    by (cases "bt_get (states s) n") auto
qed

lemma dfs_inv_push:
  assumes "dfs_inv g s" "bt_get (states s) n = None" "n \<in> set (nodes g)"
    and "stack s = [] \<or> contains_edge g (last (stack s)) n"
  shows "dfs_inv g (s\<lparr>states := bt_insert n Visiting (states s), stack := stack s @ [n]\<rparr>)"
  using assms dfs_inv_cases [OF assms(1), of n]
  by (auto simp: dfs_inv_def bt_laws successively_snoc_iff)

lemma dfs_inv_pop:
  assumes "dfs_inv g s" "stack s = st @ [n]" "\<forall>v. contains_edge g n v \<longrightarrow> v \<in> set (ordered s)"
  shows "dfs_inv g (s\<lparr>stack := butlast (stack s), states := bt_insert n Visited (states s),
           ordered := ordered s @ [n]\<rparr>)"
proof -
  have n: "n \<in> set (stack s)" and d: "distinct (st @ [n])"
    using assms(1,2) by (simp_all add: dfs_inv_def)
  then have visiting: "bt_get (states s) n = Some Visiting"
    using assms(1) by (simp add: dfs_inv_def)
  then have "n \<notin> set (ordered s)"
    using assms(1) by (metis dfs_inv_def option.inject visit_state.distinct(1))
  moreover have "n \<notin> set st" using d by simp
  moreover have "successively (contains_edge g) st"
    using assms(1,2) by (simp add: dfs_inv_def successively_append_iff)
  ultimately show ?thesis
    using assms by (simp add: dfs_inv_def bt_laws)
qed

lemma visiting_successor_cycle:
  assumes inv: "dfs_inv g s" and m: "bt_get (states s) m = Some Visiting"
    and e: "contains_edge g (last (stack s)) m"
  shows "\<exists>i. position (\<lambda>c. c = m) (stack s) = Some i
           \<and> is_cycle g (Cycle (drop i (stack s) @ [m]))"
proof -
  have "m \<in> set (stack s)" using inv m by (simp add: dfs_inv_def)
  then obtain i where i: "position (\<lambda>c. c = m) (stack s) = Some i"
    by (cases "position (\<lambda>c. c = m) (stack s)") (auto simp: position_None_iff)
  then have len: "i < length (stack s)" and at: "stack s ! i = m"
    using position_SomeD [OF i] by auto
  have "successively (contains_edge g) (drop i (stack s) @ [m])"
    using inv e len by (simp add: dfs_inv_def successively_snoc_iff successively_drop)
  then show ?thesis
    using i len at by (auto simp: is_cycle_def hd_drop_conv_nth)
qed

text \<open>
  What a call of \<open>visit\<close> promises: with enough fuel it returns; a success extends the order and
  restores the stack; an error is a cycle of the graph.
\<close>

definition visit_post :: "'n::linorder digraph \<Rightarrow> nat \<Rightarrow> 'n set \<Rightarrow> 'n dfs
    \<Rightarrow> ('n visit_error + 'n dfs) option \<Rightarrow> bool" where
  "visit_post g fuel targets s r \<longleftrightarrow>
     (case r of
        None \<Rightarrow> fuel < card (unvisited g s)
      | Some (Inl e) \<Rightarrow> \<exists>c. e = CycleFound c \<and> is_cycle g c
      | Some (Inr s') \<Rightarrow> dfs_inv g s' \<and> stack s' = stack s
          \<and> set (ordered s) \<union> targets \<subseteq> set (ordered s'))"

lemma visit_post_trans:
  assumes "visit_post g fuel A s (Some (Inr s'))" "visit_post g fuel B s' r"
  shows "visit_post g fuel (A \<union> B) s r"
proof -
  have "unvisited g s' \<subseteq> unvisited g s"
    using assms(1) by (auto simp: visit_post_def unvisited_def)
  then have "card (unvisited g s') \<le> card (unvisited g s)"
    by (simp add: card_mono)
  with assms show ?thesis
    by (auto simp: visit_post_def split: option.splits sum.splits)
qed

lemma visit_post_error: "visit_post g fuel A s (Some (Inl e)) \<Longrightarrow> visit_post g fuel B s (Some (Inl e))"
  by (simp add: visit_post_def)

lemma visit_post_fuel: "visit_post g fuel A s None \<Longrightarrow> visit_post g fuel B s None"
  by (simp add: visit_post_def)

lemma visit_spec:
  assumes wf: "graph_wf g"
  shows "dfs_inv g s \<Longrightarrow> bt_get (states s) n = None \<Longrightarrow> n \<in> set (nodes g)
           \<Longrightarrow> stack s = [] \<or> contains_edge g (last (stack s)) n
           \<Longrightarrow> visit_post g fuel {n} s (visit fuel g n s)"
    and "dfs_inv g s \<Longrightarrow> stack s \<noteq> []
           \<Longrightarrow> \<forall>m \<in> set ms. contains_edge g (last (stack s)) m
           \<Longrightarrow> visit_post g fuel (set ms) s (visit_successors fuel g ms s)"
  using wf
proof (induction fuel g n s and fuel g ms s rule: visit_visit_successors.induct)
  case (1 g n s)
  then have "n \<in> unvisited g s"
    by (auto simp: unvisited_def dfs_inv_cases)
  then have "0 < card (unvisited g s)"
    by (auto simp: card_gt_0_iff)
  then show ?case by (simp add: visit_post_def)
next
  case (2 fuel g n s)
  define s1 where "s1 = s\<lparr>states := bt_insert n Visiting (states s), stack := stack s @ [n]\<rparr>"
  have inv1: "dfs_inv g s1"
    unfolding s1_def using "2.prems" by (intro dfs_inv_push)
  have "unvisited g s1 = unvisited g s - {n}" "n \<in> unvisited g s"
    using "2.prems"(1-3) by (auto simp: s1_def unvisited_def dfs_inv_cases)
  then have fewer: "Suc (card (unvisited g s1)) = card (unvisited g s)"
    by (metis card_Suc_Diff1 unvisited_finite)
  have succ: "visit_post g fuel (set (successors g n)) s1
                (visit_successors fuel g (successors g n) s1)"
    using "2.IH" [OF s1_def inv1] "2.prems" by (simp add: s1_def contains_edge_successors)
  show ?case
  proof (cases "visit_successors fuel g (successors g n) s1")
    case None
    with succ fewer show ?thesis by (simp add: visit_post_def s1_def Let_def)
  next
    case (Some r)
    show ?thesis
    proof (cases r)
      case (Inl e)
      with Some succ show ?thesis by (simp add: visit_post_def s1_def Let_def)
    next
      case (Inr s2)
      with Some succ have inv2: "dfs_inv g s2" and st2: "stack s2 = stack s @ [n]"
        and sub: "set (ordered s) \<union> set (successors g n) \<subseteq> set (ordered s2)"
        by (auto simp: visit_post_def s1_def)
      have "dfs_inv g (s2\<lparr>stack := butlast (stack s2), states := bt_insert n Visited (states s2),
              ordered := ordered s2 @ [n]\<rparr>)"
        using inv2 st2 sub by (intro dfs_inv_pop) (auto simp: contains_edge_successors)
      with Some Inr st2 sub show ?thesis by (auto simp: visit_post_def s1_def Let_def)
    qed
  qed
next
  case (3 fuel g s)
  then show ?case by (simp add: visit_post_def)
next
  case (4 fuel g m ms s)
  note edge = "4.prems"(3)
  show ?case
  proof (cases "bt_get (states s) m")
    case None
    have node: "m \<in> set (nodes g)"
      using edge "4.prems"(4) successors_wf(2) [OF "4.prems"(4), of m "last (stack s)"]
      by (auto simp: contains_edge_successors contains_node_keys graph_wf_def)
    have one: "visit_post g fuel {m} s (visit fuel g m s)"
      using "4.IH"(1) [OF None "4.prems"(1) None node] edge "4.prems"(4) by simp
    show ?thesis
    proof (cases "visit fuel g m s")
      case Nothing: None
      with None one show ?thesis by (simp add: visit_post_def)
    next
      case (Some r)
      show ?thesis
      proof (cases r)
        case (Inl e)
        with None Some one show ?thesis by (simp add: visit_post_def)
      next
        case (Inr s')
        with one Some have inv': "dfs_inv g s'" and st': "stack s' = stack s"
          by (auto simp: visit_post_def)
        have "visit_post g fuel (set ms) s' (visit_successors fuel g ms s')"
          using "4.IH"(2) [OF None Some Inr inv'] st' edge "4.prems" by simp
        with one Some Inr have "visit_post g fuel ({m} \<union> set ms) s (visit_successors fuel g ms s')"
          using visit_post_trans [of g fuel "{m}" s s' "set ms"] by simp
        with None Some Inr show ?thesis by simp
      qed
    qed
  next
    case (Some st)
    show ?thesis
    proof (cases st)
      case Visiting
      with Some visiting_successor_cycle [OF "4.prems"(1), of m] edge show ?thesis
        by (auto simp: visit_post_def)
    next
      case Visited
      with Some "4.prems"(1) have m: "m \<in> set (ordered s)" by (simp add: dfs_inv_def)
      have "visit_post g fuel (set ms) s (visit_successors fuel g ms s)"
        using "4.IH"(3) [OF Some Visited "4.prems"(1,2)] edge "4.prems"(4) by simp
      with m Some Visited show ?thesis
        by (auto simp: visit_post_def split: option.splits sum.splits)
    qed
  qed
qed

lemma sort_nodes_spec:
  assumes "graph_wf g" "dfs_inv g s" "stack s = []" "set ns \<subseteq> set (nodes g)"
  shows "visit_post g fuel (set ns) s (sort_nodes fuel g ns s)"
  using assms(2-4)
proof (induction ns arbitrary: s)
  case Nil
  then show ?case by (simp add: visit_post_def)
next
  case (Cons n ns)
  show ?case
  proof (cases "bt_get (states s) n")
    case None
    have one: "visit_post g fuel {n} s (visit fuel g n s)"
      using visit_spec(1) [OF assms(1) Cons.prems(1) None] Cons.prems by simp
    show ?thesis
    proof (cases "visit fuel g n s")
      case Nothing: None
      with None one show ?thesis by (simp add: visit_post_def bt_contains_key_def)
    next
      case (Some r)
      show ?thesis
      proof (cases r)
        case (Inl e)
        with None Some one show ?thesis by (simp add: visit_post_def bt_contains_key_def)
      next
        case (Inr s')
        with one Some Cons.prems have "visit_post g fuel (set ns) s' (sort_nodes fuel g ns s')"
          by (intro Cons.IH) (auto simp: visit_post_def)
        with one Some Inr have "visit_post g fuel ({n} \<union> set ns) s (sort_nodes fuel g ns s')"
          using visit_post_trans [of g fuel "{n}" s s' "set ns"] by simp
        with None Some Inr show ?thesis by (simp add: bt_contains_key_def)
      qed
    qed
  next
    case (Some st)
    then have "n \<in> set (ordered s)"
      using dfs_inv_cases [OF Cons.prems(1), of n] Cons.prems(2) by simp
    moreover have "visit_post g fuel (set ns) s (sort_nodes fuel g ns s)"
      using Cons by simp
    ultimately show ?thesis
      using Some by (auto simp: visit_post_def bt_contains_key_def split: option.splits sum.splits)
  qed
qed

section \<open>Properties of the sort\<close>

lemma dfs_inv_start: "dfs_inv g dfs_start"
  by (simp add: dfs_inv_def dfs_start_def bt.wf_empty)

lemma sort_nodes_result:
  assumes "graph_wf g"
  shows "(\<exists>s'. sort_nodes (node_count g) g (nodes g) dfs_start = Some (Ok s') \<and> dfs_inv g s'
             \<and> stack s' = [] \<and> set (ordered s') = set (nodes g))
       \<or> (\<exists>c. sort_nodes (node_count g) g (nodes g) dfs_start = Some (Err (CycleFound c)) \<and> is_cycle g c)"
proof -
  have "card (unvisited g dfs_start) \<le> node_count g"
    by (simp add: unvisited_def dfs_start_def node_count_def nodes_def bt_keys_def)
       (metis card_length length_map list.set_map)
  moreover have "visit_post g (node_count g) (set (nodes g)) dfs_start
          (sort_nodes (node_count g) g (nodes g) dfs_start)"
    using assms dfs_inv_start by (intro sort_nodes_spec) (simp_all add: dfs_start_def)
  ultimately show ?thesis
    by (auto simp: visit_post_def dfs_start_def dfs_inv_def split: option.splits sum.splits)
qed

lemma dependencies_first_acyclic:
  assumes "dependencies_first g xs" "graph_wf g" "set xs = set (nodes g)"
  shows "acyclic (edge_rel g)"
proof -
  have source: "u \<in> set xs" if "contains_edge g u v" for u v
    using that assms by (auto simp: contains_edge_def bt.keys_get nodes_def graph_wf_def split: option.splits)
  define rank where "rank v = the (position (\<lambda>w. w = v) xs)" for v
  have rank: "rank v < length xs \<and> xs ! rank v = v \<and> (\<forall>j < rank v. xs ! j \<noteq> v)"
    if v: "v \<in> set xs" for v
  proof (cases "position (\<lambda>w. w = v) xs")
    case None
    with v show ?thesis by (auto simp: position_None_iff)
  next
    case (Some i)
    then show ?thesis using position_SomeD [OF Some] by (simp add: rank_def)
  qed
  have "rank v < rank u" if e: "contains_edge g u v" for u v
  proof -
    have "v \<in> set (take (rank u) xs)"
      using assms(1) e rank [OF source [OF e]] by (auto simp: dependencies_first_def)
    then obtain j where "j < rank u" "xs ! j = v"
      by (auto simp: in_set_conv_nth)
    moreover have "v \<in> set xs"
      using \<open>v \<in> set (take (rank u) xs)\<close> by (rule in_set_takeD)
    ultimately show ?thesis
      using rank [of v] by (metis leI le_less_trans)
  qed
  then have "edge_rel g \<subseteq> (measure rank)\<inverse>"
    by (auto simp: edge_rel_def)
  moreover have "acyclic ((measure rank)\<inverse>)"
    using wf_measure wf_acyclic acyclic_converse by blast
  ultimately show ?thesis
    by (rule acyclic_subset [rotated])
qed

lemma walk_trancl:
  assumes "successively (contains_edge g) (u # xs)" "xs \<noteq> []"
  shows "(u, last xs) \<in> (edge_rel g)\<^sup>+"
  using assms
proof (induction xs arbitrary: u)
  case (Cons v xs)
  then have e: "(u, v) \<in> edge_rel g" by (simp add: edge_rel_def)
  show ?case
  proof (cases "xs = []")
    case False
    with Cons have "(v, last xs) \<in> (edge_rel g)\<^sup>+" by simp
    with e False show ?thesis by (simp add: trancl_into_trancl2)
  qed (use e in auto)
qed simp

lemma is_cycle_not_acyclic:
  assumes "is_cycle g c"
  shows "\<not> acyclic (edge_rel g)"
proof -
  obtain u xs where c: "cycle_path c = u # xs" and xs: "xs \<noteq> []"
    using assms by (cases "cycle_path c"; cases "tl (cycle_path c)") (auto simp: is_cycle_def)
  then have walk: "successively (contains_edge g) (u # xs)" and u: "u = last xs"
    using assms by (auto simp: is_cycle_def)
  from walk_trancl [OF walk xs] u show ?thesis by (auto simp: acyclic_def)
qed

text \<open>C18. \<open>topological_sort\<close> always returns on a well-formed graph and never reaches the panic of its
  \<open>expect\<close>: it returns every node once with each dependency before its dependants, or a walk of the
  graph that starts and ends at the same node.\<close>

theorem topological_sort_correct:
  assumes "graph_wf g"
  shows "(\<exists>xs. topological_sort g = Some (Ok xs) \<and> distinct xs \<and> set xs = set (nodes g)
             \<and> dependencies_first g xs)
       \<or> (\<exists>c. topological_sort g = Some (Err (CycleFound c)) \<and> is_cycle g c)"
  using sort_nodes_result [OF assms] by (auto simp: topological_sort_def dfs_inv_def)

theorem topological_sort_correct_witness:
  "topological_sort (snd (add_edge (1::nat) 2 (snd (add_edge 2 3 graph_new)))) = Some (Ok [3, 2, 1])
   \<and> ((\<exists>xs. topological_sort (snd (add_edge (1::nat) 2 (snd (add_edge 2 3 graph_new)))) = Some (Ok xs)
            \<and> distinct xs \<and> set xs = set (nodes (snd (add_edge (1::nat) 2 (snd (add_edge 2 3 graph_new)))))
            \<and> dependencies_first (snd (add_edge (1::nat) 2 (snd (add_edge 2 3 graph_new)))) xs)
      \<or> (\<exists>c. topological_sort (snd (add_edge (1::nat) 2 (snd (add_edge 2 3 graph_new))))
                = Some (Err (CycleFound c))
            \<and> is_cycle (snd (add_edge (1::nat) 2 (snd (add_edge 2 3 graph_new)))) c))"
proof (rule conjI)
  show "topological_sort (snd (add_edge (1::nat) 2 (snd (add_edge 2 3 graph_new)))) = Some (Ok [3, 2, 1])"
    by code_simp
qed (rule topological_sort_correct, intro wf_intros)

text \<open>The sort fails exactly on the cyclic graphs.\<close>

theorem topological_sort_Ok_iff_acyclic:
  assumes "graph_wf g"
  shows "(\<exists>xs. topological_sort g = Some (Ok xs)) \<longleftrightarrow> acyclic (edge_rel g)"
  using sort_nodes_result [OF assms]
proof
  assume "\<exists>s'. sort_nodes (node_count g) g (nodes g) dfs_start = Some (Ok s') \<and> dfs_inv g s'
             \<and> stack s' = [] \<and> set (ordered s') = set (nodes g)"
  then show ?thesis
    using dependencies_first_acyclic [OF _ assms]
    by (auto simp: topological_sort_def dfs_inv_def)
next
  assume "\<exists>c. sort_nodes (node_count g) g (nodes g) dfs_start = Some (Err (CycleFound c)) \<and> is_cycle g c"
  then show ?thesis
    using is_cycle_not_acyclic by (auto simp: topological_sort_def)
qed

theorem topological_sort_Ok_iff_acyclic_witness:
  "topological_sort (snd (add_edge (1::nat) 1 graph_new)) = Some (Err (CycleFound (Cycle [1, 1])))
   \<and> \<not> acyclic (edge_rel (snd (add_edge (1::nat) 1 graph_new)))"
proof -
  have run: "topological_sort (snd (add_edge (1::nat) 1 graph_new)) = Some (Err (CycleFound (Cycle [1, 1])))"
    by code_simp
  have "graph_wf (snd (add_edge (1::nat) 1 graph_new))"
    by (intro wf_intros)
  from topological_sort_Ok_iff_acyclic [OF this] run show ?thesis by simp
qed

end
