(* ===== verification/Ir.thy ===== *)
theory Ir
  imports Prelude
begin

text \<open>
  The typed intermediate representation of \<open>crates/nomo_ir/src/lib.rs\<close>, which the compiler produces,
  the release optimizer rewrites (\<open>crates/nomo_mir\<close>) and the back ends consume.

  Every enum keeps its variants and every struct its fields, in the source's order; constructors carry
  a prefix where their bare names would clash (\<open>Ty\<close> for \<open>ValueType\<close>, \<open>E\<close> for \<open>ValueExpr\<close>, \<open>S\<close> for
  \<open>Statement\<close>, \<open>Op\<close> for \<open>BinaryOp\<close>).

  \<open>ValueExpr\<close> has 149 variants, of which 110 are calls of a standard-library intrinsic with no, one or two
  operand expressions. They are grouped by the number of operands: the variant and its fields other
  than operands are a constructor of \<open>intrinsic0\<close>, \<open>intrinsic1\<close> or \<open>intrinsic2\<close>, and the expression
  applies it to the operands in the order of the source's fields. So \<open>ValueExpr::StringLen { value }\<close>
  is \<open>EIntrinsic1 StringLen value\<close>, and \<open>ValueExpr::NumToString { value, value_type }\<close> is
  \<open>EIntrinsic1 (NumToString value_type) value\<close>. The grouping is a bijection on the variants; it keeps the
  number of constructors of the recursive type small.
\<close>

section \<open>Enumerations\<close>

datatype question_carrier =
    CarrierResult
  | CarrierOption

datatype array_mutation_mode =
    CheckedCow
  | CheckedUnique

datatype math_unary_function =
    MathAbs
  | MathFloor
  | MathCeil
  | MathRound
  | MathSqrt
  | MathSin
  | MathCos

datatype math_binary_function =
    MathMin
  | MathMax
  | MathPow

datatype num_binary_function =
    NumChecked
  | NumWrapping

datatype json_operation =
    JsonKind
  | JsonIsNull
  | JsonAsBool
  | JsonNumberText
  | JsonAsString
  | JsonArrayItems
  | JsonObjectMembers
  | JsonGet
  | JsonFromNull
  | JsonFromBool
  | JsonFromNumberText
  | JsonFromI64
  | JsonFromU64
  | JsonFromString
  | JsonFromArray
  | JsonFromObject

datatype json_rpc_operation =
    JsonRpcDecoder
  | JsonRpcFeed
  | JsonRpcFinish
  | JsonRpcParse
  | JsonRpcEncode
  | JsonRpcValue
  | JsonRpcKind
  | JsonRpcRequest
  | JsonRpcNotification
  | JsonRpcSuccess
  | JsonRpcFailure

datatype cron_operation =
    CronParse
  | CronMatches
  | CronNextAfter

datatype binary_op =
    OpLogicalOr
  | OpLogicalAnd
  | OpAdd
  | OpSubtract
  | OpBitOr
  | OpBitXor
  | OpMultiply
  | OpDivide
  | OpRemainder
  | OpShiftLeft
  | OpShiftRight
  | OpBitAnd
  | OpBitAndNot
  | OpEqual
  | OpNotEqual
  | OpLess
  | OpLessEqual
  | OpGreater
  | OpGreaterEqual

datatype unary_op =
    OpNot
  | OpNegate

section \<open>Types\<close>

datatype value_type =
    TyString
  | TyCString
  | TyOpaque
  | TyOpaqueHandle string
  | TyOwnedHandle string
  | TyBorrowedHandle string
  | TyNullable value_type
  | TyExternCallback "value_type list" value_type
  | TyTaskCallback "value_type list" value_type
  | TyInt
  | TyI32
  | TyU32
  | TyU64
  | TyFloat
  | TyChar
  | TyBool
  | TyArray value_type
  | TyStruct string "value_type list"
  | TyEnum string "value_type list"
  | TyTypeParam string
  | TyVoid
  | TyNever

definition value_type_name :: "value_type \<Rightarrow> string" where
  "value_type_name t = (case t of
       TyString \<Rightarrow> ''string''
     | TyCString \<Rightarrow> ''CString''
     | TyOpaque \<Rightarrow> ''Opaque''
     | TyOpaqueHandle name \<Rightarrow> name
     | TyOwnedHandle name \<Rightarrow> name
     | TyBorrowedHandle name \<Rightarrow> name
     | TyNullable _ \<Rightarrow> ''Nullable''
     | TyExternCallback _ _ \<Rightarrow> ''extern C callback''
     | TyTaskCallback _ _ \<Rightarrow> ''task worker''
     | TyInt \<Rightarrow> ''i64''
     | TyI32 \<Rightarrow> ''i32''
     | TyU32 \<Rightarrow> ''u32''
     | TyU64 \<Rightarrow> ''u64''
     | TyFloat \<Rightarrow> ''f64''
     | TyChar \<Rightarrow> ''char''
     | TyBool \<Rightarrow> ''bool''
     | TyArray _ \<Rightarrow> ''Array''
     | TyStruct name args \<Rightarrow> (if args = [] then name else ''struct'')
     | TyEnum name _ \<Rightarrow> name
     | TyTypeParam name \<Rightarrow> name
     | TyVoid \<Rightarrow> ''void''
     | TyNever \<Rightarrow> ''never'')"

fun is_integer :: "value_type \<Rightarrow> bool" where
  "is_integer TyInt = True"
| "is_integer TyI32 = True"
| "is_integer TyU32 = True"
| "is_integer TyU64 = True"
| "is_integer _ = False"

definition is_numeric :: "value_type \<Rightarrow> bool" where
  "is_numeric t \<longleftrightarrow> is_integer t \<or> t = TyFloat"

section \<open>Expressions\<close>

datatype (plugins only: code size) intrinsic0 =
    OsPlatform
  | OsArch
  | OsPathSeparator
  | OsLineEnding
  | TimeNowMillis
  | TimeMonotonicMillis
  | HashNew
  | CollectionsStringMapNew
  | CollectionsStringSetNew
  | IoReadLine
  | EnvCwd
  | EnvHomeDir
  | EnvTempDir
  | EnvArgs

datatype (plugins only: code size) intrinsic1 =
    StringLen
  | StringIsEmpty
  | StringTrim
  | StringToLower
  | StringToUpper
  | CharIsDigit
  | CharIsAlpha
  | CharIsWhitespace
  | CharToString
  | TimeDurationMillis
  | TimeDurationSeconds
  | TimeDurationAsMillis
  | TimeFormatDuration
  | TimeSleep
  | TimeSleepMillis
  | LogEnabled
  | HashString
  | HashBytes
  | HashFinish
  | CryptoSha256
  | CryptoSha512
  | CryptoRandomBytes
  | JsonParse
  | JsonStringify
  | RegexCompile
  | CollectionsStringMapLen
  | CollectionsStringSetLen
  | ProcessExit
  | ProcessSpawn
  | ProcessStatus
  | ProcessExec
  | ProcessOutput
  | NumParseI64
  | NumParseU64
  | NumParseF64
  | NumToString value_type
  | PathBasename
  | PathDirname
  | PathExtension
  | PathNormalize
  | PathIsAbsolute
  | MathUnary math_unary_function value_type
  | FsReadToString
  | FsReadBytes
  | FsExists
  | FsMetadata
  | FsCreateDir
  | FsRemoveDir
  | FsReadDir
  | FsOpen
  | FileClose
  | FileReadToString
  | TcpListenerAccept
  | TcpListenerClose
  | TcpStreamClose
  | TcpStreamReadToString
  | UdpSocketClose
  | ResultMapErr value_type value_type value_type string
  | ResultIsOk value_type value_type
  | ResultIsErr value_type value_type
  | ResultMap value_type value_type value_type string
  | ResultAndThen value_type value_type value_type string
  | OptionIsSome value_type
  | OptionIsNone value_type
  | OptionMap value_type value_type string
  | OptionAndThen value_type value_type string
  | EnvGet

datatype (plugins only: code size) intrinsic2 =
    StringConcat
  | StringContains
  | StringStartsWith
  | StringEndsWith
  | StringSplit
  | HashWriteString
  | HashWriteBytes
  | RegexIsMatch
  | RegexCaptures
  | CollectionsStringMapGet
  | CollectionsStringMapContains
  | CollectionsStringMapRemove
  | CollectionsStringSetContains
  | CollectionsStringSetInsert
  | CollectionsStringSetRemove
  | NumBinary num_binary_function binary_op value_type
  | PathJoin
  | MathBinary math_binary_function value_type
  | FsWriteString
  | FsWriteBytes
  | FileWriteString
  | NetConnect
  | NetListen
  | NetUdpBind
  | TcpStreamWriteString
  | UdpSocketRecvFromString
  | ResultUnwrapOr value_type value_type
  | OptionUnwrapOr value_type
  | EnvSet

datatype (plugins only: code size) value_expr =
    EIntrinsic0 intrinsic0
  | EIntrinsic1 intrinsic1 value_expr
  | EIntrinsic2 intrinsic2 value_expr value_expr
  | EStringLiteral string
  | EIntLiteral i64
  | EFloatLiteral string
  | ECharLiteral uchar
  | EBoolLiteral bool
  | EVoidLiteral
  | EVariable string
  | EFunctionRef string
  | EBinary value_expr binary_op value_expr value_type
  | EUnary unary_op value_expr
  | EStringCompare value_expr binary_op value_expr
  | ECast value_expr value_type
  | ECall string "value_expr list"
  | EMutBorrow "string list"
  | EJsonStructured json_operation "value_expr list"
  | EJsonRpc json_rpc_operation "value_expr list"
  | ECron cron_operation "value_expr list"
  | ECollectionsStringMapSet value_expr value_expr value_expr
  | EUdpSocketSendToString value_expr value_expr value_expr value_expr
  | EArrayNew value_type
  | EArrayLiteral "value_expr list" value_type
  | EArrayIndex value_expr value_expr value_type
  | EArrayLen value_expr
  | EArrayIter value_expr value_type
  | EArrayGet value_expr value_expr value_type
  | EArrayPop string value_type
  | EArrayRemove string value_expr value_type
  | EArrayPush string value_expr value_type
  | EArraySet string value_expr value_expr value_type array_mutation_mode
  | EArrayInsert string value_expr value_expr value_type
  | EArrayClear string value_type
  | EStructLiteral string "value_type list" "(string \<times> value_expr) list"
  | EFieldAccess string string
  | EEnumPayloadFieldAccess value_expr string string
  | EEnumVariant string "value_type list" string "value_expr option"
  | EEnumPayload value_expr string
  | EMatch value_expr "match_value_arm list"
  | EIf value_expr value_expr value_expr
  | EPanic value_expr value_type
and match_value_arm =
    MatchValueArm (arm_enum_name: string) (arm_enum_args: "value_type list") (arm_variant: string)
      (arm_binding: "string option") (arm_value: value_expr)

text \<open>
  \<open>ValueExpr::child_expressions\<close>: the directly nested expressions, in source evaluation order.
\<close>

definition child_expressions :: "value_expr \<Rightarrow> value_expr list" where
  "child_expressions e = (case e of
       EIntrinsic0 _ \<Rightarrow> []
     | EIntrinsic1 _ x \<Rightarrow> [x]
     | EIntrinsic2 _ l r \<Rightarrow> [l, r]
     | EStringLiteral _ \<Rightarrow> []
     | EIntLiteral _ \<Rightarrow> []
     | EFloatLiteral _ \<Rightarrow> []
     | ECharLiteral _ \<Rightarrow> []
     | EBoolLiteral _ \<Rightarrow> []
     | EVoidLiteral \<Rightarrow> []
     | EVariable _ \<Rightarrow> []
     | EFunctionRef _ \<Rightarrow> []
     | EBinary l _ r _ \<Rightarrow> [l, r]
     | EUnary _ expr \<Rightarrow> [expr]
     | EStringCompare l _ r \<Rightarrow> [l, r]
     | ECast expr _ \<Rightarrow> [expr]
     | ECall _ args \<Rightarrow> args
     | EMutBorrow _ \<Rightarrow> []
     | EJsonStructured _ args \<Rightarrow> args
     | EJsonRpc _ args \<Rightarrow> args
     | ECron _ args \<Rightarrow> args
     | ECollectionsStringMapSet m key v \<Rightarrow> [m, key, v]
     | EUdpSocketSendToString socket content host port \<Rightarrow> [socket, content, host, port]
     | EArrayNew _ \<Rightarrow> []
     | EArrayLiteral elements _ \<Rightarrow> elements
     | EArrayIndex array index _ \<Rightarrow> [array, index]
     | EArrayLen array \<Rightarrow> [array]
     | EArrayIter array _ \<Rightarrow> [array]
     | EArrayGet array index _ \<Rightarrow> [array, index]
     | EArrayPop _ _ \<Rightarrow> []
     | EArrayRemove _ index _ \<Rightarrow> [index]
     | EArrayPush _ v _ \<Rightarrow> [v]
     | EArraySet _ index v _ _ \<Rightarrow> [index, v]
     | EArrayInsert _ index v _ \<Rightarrow> [index, v]
     | EArrayClear _ _ \<Rightarrow> []
     | EStructLiteral _ _ fields \<Rightarrow> map snd fields
     | EFieldAccess _ _ \<Rightarrow> []
     | EEnumPayloadFieldAccess v _ _ \<Rightarrow> [v]
     | EEnumVariant _ _ _ payload \<Rightarrow> (case payload of None \<Rightarrow> [] | Some p \<Rightarrow> [p])
     | EEnumPayload v _ \<Rightarrow> [v]
     | EMatch v arms \<Rightarrow> [v] @ map arm_value arms
     | EIf condition then_branch else_branch \<Rightarrow> [condition, then_branch, else_branch]
     | EPanic message _ \<Rightarrow> [message])"

section \<open>Statements\<close>

datatype task_select_operation =
    SelectReceive value_expr value_type
  | SelectSend value_expr value_expr value_type
  | SelectSleep value_expr
  | SelectJoin string

datatype loop_kind =
    LoopInfinite
  | LoopWhile value_expr
  | LoopCStyle string value_type value_expr value_expr value_expr
  | LoopIterate string value_type value_expr

datatype deferred_call =
    DeferredExpr value_expr
  | DeferredEprintln value_expr
  | DeferredEprint value_expr
  | DeferredPrintln value_expr
  | DeferredPrint value_expr

datatype (plugins only: code size) statement =
    SLet string value_type value_expr
  | SLetIf string value_type value_expr "statement list" "statement list"
  | SLetMatch string value_type value_expr string "value_type list" "match_statement_arm list"
  | SQuestionLet question_carrier string value_type value_type value_type value_expr "value_expr list"
  | SQuestionReturn question_carrier value_type value_type value_type value_expr "value_expr list"
  | SLetElse string value_type value_expr string "value_type list" string "statement list"
  | SIfLet "string option" "value_type option" value_expr string "value_type list" string "statement list" "statement list option"
  | SIf value_expr "statement list" "statement list"
  | SAssign string value_expr
  | SAssignField string string value_type value_expr
  | SArrayIndexAssign string "value_expr list" "value_type list" value_expr array_mutation_mode
  | SEprintln value_expr
  | SEprint value_expr
  | SPrintln value_expr
  | SPrint value_expr
  | SPanic value_expr
  | SReturn "value_expr option"
  | SExpr value_expr
  | SMatch value_expr string "value_type list" "match_statement_arm list"
  | STaskSelect "task_select_arm list"
  | SLoop loop_kind "statement list"
  | SBreak
  | SContinue
  | SDefer deferred_call
and match_statement_arm =
    MatchStatementArm (stmt_arm_variant: string) (stmt_arm_binding: "string option")
      (stmt_arm_body: "statement list")
and task_select_arm =
    TaskSelectArm (select_operation: task_select_operation) (select_binding: string)
      (select_binding_type: value_type) (select_body: "statement list")

section \<open>Programs\<close>

record struct_field =
  field_name :: string
  field_type :: value_type

record struct_type =
  struct_package :: string
  struct_name :: string
  struct_type_params :: "string list"
  struct_fields :: "struct_field list"

record enum_variant_type =
  variant_name :: string
  variant_payload :: "value_type option"

record enum_type =
  enum_package :: string
  enum_type_name :: string
  enum_type_params :: "string list"
  enum_variants :: "enum_variant_type list"

record extern_function =
  extern_symbol :: string
  extern_params :: "value_type list"
  extern_return_type :: value_type

record const_decl =
  const_name :: string
  const_type :: value_type
  const_initializer :: value_expr

record parameter =
  param_name :: string
  param_mutable :: bool
  param_type :: value_type

record function_decl =
  fun_package :: string
  fun_name :: string
  fun_is_suspend :: bool
  fun_params :: "parameter list"
  fun_return_type :: value_type
  fun_body :: "statement list"

record program =
  prog_package :: string
  prog_imports :: "string list"
  prog_extern_functions :: "extern_function list"
  prog_structs :: "struct_type list"
  prog_enums :: "enum_type list"
  prog_consts :: "const_decl list"
  prog_functions :: "function_decl list"

end
