(* ===== verification/Mir_Modes.thy ===== *)
theory Mir_Modes
  imports Ir
begin

text \<open>
  The parts of \<open>crates/nomo_mir/src/lib.rs\<close> that walk and rewrite the typed IR: the nested bodies of a
  statement (\<open>statement_bodies\<close>), resetting every mutation mode to the checked copy-on-write path
  (\<open>reset_*_mutation_modes\<close>) and marking the stores that were proven unique (\<open>annotate_*\<close>).

  The source mutates the IR in place; here each walk returns the rewritten IR. A statement is numbered
  by the number of statements before it in a preorder walk; \<open>StatementId\<close> is a \<open>u32\<close> and wraps.
\<close>

section \<open>Bodies of a statement\<close>

definition statement_bodies :: "statement \<Rightarrow> statement list list" where
  "statement_bodies s = (case s of
       SLetIf _ _ _ body else_body \<Rightarrow> [body, else_body]
     | SIf _ body else_body \<Rightarrow> [body, else_body]
     | SLetMatch _ _ _ _ _ arms \<Rightarrow> map stmt_arm_body arms
     | SMatch _ _ _ arms \<Rightarrow> map stmt_arm_body arms
     | SLetElse _ _ _ _ _ _ else_body \<Rightarrow> [else_body]
     | SIfLet _ _ _ _ _ _ body else_body \<Rightarrow>
         [body] @ (case else_body of None \<Rightarrow> [] | Some b \<Rightarrow> [b])
     | STaskSelect arms \<Rightarrow> map select_body arms
     | SLoop _ body \<Rightarrow> [body]
     | _ \<Rightarrow> [])"

definition body_size :: "statement list \<Rightarrow> nat" where
  "body_size body = size_list size body"

lemma body_size_simps [simp]:
  "body_size [] = 0"
  "body_size (s # body) = Suc (size s + body_size body)"
  by (simp_all add: body_size_def)

lemma size_list_body_member:
  "s \<in> set body \<Longrightarrow> size s < body_size body"
  by (induction body) auto

lemma body_size_match_arm:
  "arm \<in> set arms \<Longrightarrow> body_size (stmt_arm_body arm) < size_list size arms"
proof (induction arms)
  case (Cons a arms)
  then show ?case by (cases a) (auto simp: body_size_def)
qed simp

lemma body_size_select_arm:
  "arm \<in> set arms \<Longrightarrow> body_size (select_body arm) < size_list size arms"
proof (induction arms)
  case (Cons a arms)
  then show ?case by (cases a) (auto simp: body_size_def)
qed simp

lemma statement_bodies_size:
  "b \<in> set (statement_bodies s) \<Longrightarrow> body_size b < size s"
  by (cases s)
    (auto simp: statement_bodies_def body_size_def [symmetric] split: option.splits
      dest!: body_size_match_arm body_size_select_arm)

lemma statement_bodies_simps:
  "statement_bodies (SLet a0 a1 a2) = []"
  "statement_bodies (SQuestionLet b0 b1 b2 b3 b4 b5 b6) = []"
  "statement_bodies (SQuestionReturn c0 c1 c2 c3 c4 c5) = []"
  "statement_bodies (SAssign d0 d1) = []"
  "statement_bodies (SAssignField e0 e1 e2 e3) = []"
  "statement_bodies (SArrayIndexAssign f0 f1 f2 f3 f4) = []"
  "statement_bodies (SEprintln g0) = []"
  "statement_bodies (SEprint h0) = []"
  "statement_bodies (SPrintln i0) = []"
  "statement_bodies (SPrint j0) = []"
  "statement_bodies (SPanic k0) = []"
  "statement_bodies (SReturn l0) = []"
  "statement_bodies (SExpr m0) = []"
  "statement_bodies SBreak = []"
  "statement_bodies SContinue = []"
  "statement_bodies (SDefer p0) = []"
  "statement_bodies (SLetIf p1 p2 p3 body else_body) = [body, else_body]"
  "statement_bodies (SIf p4 body else_body) = [body, else_body]"
  "statement_bodies (SLetMatch q1 q2 q3 q4 q5 marms) = map stmt_arm_body marms"
  "statement_bodies (SMatch q6 q7 q8 marms) = map stmt_arm_body marms"
  "statement_bodies (SLetElse r1 r2 r3 r4 r5 r6 else_body) = [else_body]"
  "statement_bodies (SIfLet s1 s2 s3 s4 s5 s6 body None) = [body]"
  "statement_bodies (SIfLet s1 s2 s3 s4 s5 s6 body (Some else_body)) = [body, else_body]"
  "statement_bodies (STaskSelect sarms) = map select_body sarms"
  "statement_bodies (SLoop t1 body) = [body]"
  by (simp_all add: statement_bodies_def)

text \<open>Every nested statement is reached through \<open>statement_bodies\<close>.\<close>

lemma body_induct [case_names body]:
  assumes "\<And>body. (\<And>s b. s \<in> set body \<Longrightarrow> b \<in> set (statement_bodies s) \<Longrightarrow> P b) \<Longrightarrow> P body"
  shows "P body"
proof (induction body rule: measure_induct_rule [where f = body_size])
  case (less body)
  show ?case
  proof (rule assms)
    fix s b assume "s \<in> set body" "b \<in> set (statement_bodies s)"
    then show "P b"
      using size_list_body_member statement_bodies_size less.IH less_trans by blast
  qed
qed

section \<open>Resetting the mutation modes\<close>

primrec reset_expr_mutation_modes :: "value_expr \<Rightarrow> value_expr"
  and reset_arm_mutation_modes :: "match_value_arm \<Rightarrow> match_value_arm" where
  "reset_expr_mutation_modes (EIntrinsic0 op) = EIntrinsic0 op"
| "reset_expr_mutation_modes (EIntrinsic1 op x) = EIntrinsic1 op (reset_expr_mutation_modes x)"
| "reset_expr_mutation_modes (EIntrinsic2 op l r) =
     EIntrinsic2 op (reset_expr_mutation_modes l) (reset_expr_mutation_modes r)"
| "reset_expr_mutation_modes (EStringLiteral s) = EStringLiteral s"
| "reset_expr_mutation_modes (EIntLiteral i) = EIntLiteral i"
| "reset_expr_mutation_modes (EFloatLiteral s) = EFloatLiteral s"
| "reset_expr_mutation_modes (ECharLiteral c) = ECharLiteral c"
| "reset_expr_mutation_modes (EBoolLiteral b) = EBoolLiteral b"
| "reset_expr_mutation_modes EVoidLiteral = EVoidLiteral"
| "reset_expr_mutation_modes (EVariable n) = EVariable n"
| "reset_expr_mutation_modes (EFunctionRef n) = EFunctionRef n"
| "reset_expr_mutation_modes (EBinary l op r t) =
     EBinary (reset_expr_mutation_modes l) op (reset_expr_mutation_modes r) t"
| "reset_expr_mutation_modes (EUnary op x) = EUnary op (reset_expr_mutation_modes x)"
| "reset_expr_mutation_modes (EStringCompare l op r) =
     EStringCompare (reset_expr_mutation_modes l) op (reset_expr_mutation_modes r)"
| "reset_expr_mutation_modes (ECast x t) = ECast (reset_expr_mutation_modes x) t"
| "reset_expr_mutation_modes (ECall n args) = ECall n (map reset_expr_mutation_modes args)"
| "reset_expr_mutation_modes (EMutBorrow p) = EMutBorrow p"
| "reset_expr_mutation_modes (EJsonStructured op args) =
     EJsonStructured op (map reset_expr_mutation_modes args)"
| "reset_expr_mutation_modes (EJsonRpc op args) = EJsonRpc op (map reset_expr_mutation_modes args)"
| "reset_expr_mutation_modes (ECron op args) = ECron op (map reset_expr_mutation_modes args)"
| "reset_expr_mutation_modes (ECollectionsStringMapSet m k v) =
     ECollectionsStringMapSet (reset_expr_mutation_modes m) (reset_expr_mutation_modes k)
       (reset_expr_mutation_modes v)"
| "reset_expr_mutation_modes (EUdpSocketSendToString s c h p) =
     EUdpSocketSendToString (reset_expr_mutation_modes s) (reset_expr_mutation_modes c)
       (reset_expr_mutation_modes h) (reset_expr_mutation_modes p)"
| "reset_expr_mutation_modes (EArrayNew t) = EArrayNew t"
| "reset_expr_mutation_modes (EArrayLiteral es t) =
     EArrayLiteral (map reset_expr_mutation_modes es) t"
| "reset_expr_mutation_modes (EArrayIndex a i t) =
     EArrayIndex (reset_expr_mutation_modes a) (reset_expr_mutation_modes i) t"
| "reset_expr_mutation_modes (EArrayLen a) = EArrayLen (reset_expr_mutation_modes a)"
| "reset_expr_mutation_modes (EArrayIter a t) = EArrayIter (reset_expr_mutation_modes a) t"
| "reset_expr_mutation_modes (EArrayGet a i t) =
     EArrayGet (reset_expr_mutation_modes a) (reset_expr_mutation_modes i) t"
| "reset_expr_mutation_modes (EArrayPop a t) = EArrayPop a t"
| "reset_expr_mutation_modes (EArrayRemove a i t) = EArrayRemove a (reset_expr_mutation_modes i) t"
| "reset_expr_mutation_modes (EArrayPush a v t) = EArrayPush a (reset_expr_mutation_modes v) t"
| "reset_expr_mutation_modes (EArraySet a i v t m) =
     EArraySet a (reset_expr_mutation_modes i) (reset_expr_mutation_modes v) t CheckedCow"
| "reset_expr_mutation_modes (EArrayInsert a i v t) =
     EArrayInsert a (reset_expr_mutation_modes i) (reset_expr_mutation_modes v) t"
| "reset_expr_mutation_modes (EArrayClear a t) = EArrayClear a t"
| "reset_expr_mutation_modes (EStructLiteral n args fs) =
     EStructLiteral n args (map (map_prod id reset_expr_mutation_modes) fs)"
| "reset_expr_mutation_modes (EFieldAccess b f) = EFieldAccess b f"
| "reset_expr_mutation_modes (EEnumPayloadFieldAccess v n f) =
     EEnumPayloadFieldAccess (reset_expr_mutation_modes v) n f"
| "reset_expr_mutation_modes (EEnumVariant n args v payload) =
     EEnumVariant n args v (map_option reset_expr_mutation_modes payload)"
| "reset_expr_mutation_modes (EEnumPayload v n) = EEnumPayload (reset_expr_mutation_modes v) n"
| "reset_expr_mutation_modes (EMatch v arms) =
     EMatch (reset_expr_mutation_modes v) (map reset_arm_mutation_modes arms)"
| "reset_expr_mutation_modes (EIf c t e) =
     EIf (reset_expr_mutation_modes c) (reset_expr_mutation_modes t) (reset_expr_mutation_modes e)"
| "reset_expr_mutation_modes (EPanic m t) = EPanic (reset_expr_mutation_modes m) t"
| "reset_arm_mutation_modes (MatchValueArm n args v b e) =
     MatchValueArm n args v b (reset_expr_mutation_modes e)"


definition reset_select_operation :: "task_select_operation \<Rightarrow> task_select_operation" where
  "reset_select_operation operation = (case operation of
       SelectReceive channel t \<Rightarrow> SelectReceive (reset_expr_mutation_modes channel) t
     | SelectSend channel v t \<Rightarrow>
         SelectSend (reset_expr_mutation_modes channel) (reset_expr_mutation_modes v) t
     | SelectSleep duration \<Rightarrow> SelectSleep (reset_expr_mutation_modes duration)
     | SelectJoin name \<Rightarrow> SelectJoin name)"

definition reset_loop_kind :: "loop_kind \<Rightarrow> loop_kind" where
  "reset_loop_kind kind = (case kind of
       LoopInfinite \<Rightarrow> LoopInfinite
     | LoopWhile condition \<Rightarrow> LoopWhile (reset_expr_mutation_modes condition)
     | LoopCStyle binding t initializer condition update \<Rightarrow>
         LoopCStyle binding t (reset_expr_mutation_modes initializer)
           (reset_expr_mutation_modes condition) (reset_expr_mutation_modes update)
     | LoopIterate binding t iterable \<Rightarrow> LoopIterate binding t (reset_expr_mutation_modes iterable))"

definition reset_deferred_call :: "deferred_call \<Rightarrow> deferred_call" where
  "reset_deferred_call call = (case call of
       DeferredExpr e \<Rightarrow> DeferredExpr (reset_expr_mutation_modes e)
     | DeferredEprintln e \<Rightarrow> DeferredEprintln (reset_expr_mutation_modes e)
     | DeferredEprint e \<Rightarrow> DeferredEprint (reset_expr_mutation_modes e)
     | DeferredPrintln e \<Rightarrow> DeferredPrintln (reset_expr_mutation_modes e)
     | DeferredPrint e \<Rightarrow> DeferredPrint (reset_expr_mutation_modes e))"

text \<open>
  The statement walk. An \<open>ArrayIndexAssign\<close> has its own mode reset and its operands left as they are,
  as in the source.
\<close>

primrec reset_statement :: "statement \<Rightarrow> statement"
  and reset_match_statement_arm :: "match_statement_arm \<Rightarrow> match_statement_arm"
  and reset_task_select_arm :: "task_select_arm \<Rightarrow> task_select_arm" where
  "reset_statement (SLet n t e) = SLet n t (reset_expr_mutation_modes e)"
| "reset_statement (SLetIf n t c body else_body) =
     SLetIf n t (reset_expr_mutation_modes c) (map reset_statement body) (map reset_statement else_body)"
| "reset_statement (SLetMatch n t v en args arms) =
     SLetMatch n t (reset_expr_mutation_modes v) en args (map reset_match_statement_arm arms)"
| "reset_statement (SQuestionLet c n t ok err result actions) =
     SQuestionLet c n t ok err (reset_expr_mutation_modes result)
       (map reset_expr_mutation_modes actions)"
| "reset_statement (SQuestionReturn c t ok err result actions) =
     SQuestionReturn c t ok err (reset_expr_mutation_modes result)
       (map reset_expr_mutation_modes actions)"
| "reset_statement (SLetElse b t v en args variant else_body) =
     SLetElse b t (reset_expr_mutation_modes v) en args variant (map reset_statement else_body)"
| "reset_statement (SIfLet b t v en args variant body else_body) =
     SIfLet b t (reset_expr_mutation_modes v) en args variant (map reset_statement body)
       (map_option (map reset_statement) else_body)"
| "reset_statement (SIf c body else_body) =
     SIf (reset_expr_mutation_modes c) (map reset_statement body) (map reset_statement else_body)"
| "reset_statement (SAssign n v) = SAssign n (reset_expr_mutation_modes v)"
| "reset_statement (SAssignField b f t v) = SAssignField b f t (reset_expr_mutation_modes v)"
| "reset_statement (SArrayIndexAssign root indices ts v mode) =
     SArrayIndexAssign root indices ts v CheckedCow"
| "reset_statement (SEprintln v) = SEprintln (reset_expr_mutation_modes v)"
| "reset_statement (SEprint v) = SEprint (reset_expr_mutation_modes v)"
| "reset_statement (SPrintln v) = SPrintln (reset_expr_mutation_modes v)"
| "reset_statement (SPrint v) = SPrint (reset_expr_mutation_modes v)"
| "reset_statement (SPanic v) = SPanic (reset_expr_mutation_modes v)"
| "reset_statement (SReturn v) = SReturn (map_option reset_expr_mutation_modes v)"
| "reset_statement (SExpr v) = SExpr (reset_expr_mutation_modes v)"
| "reset_statement (SMatch v en args arms) =
     SMatch (reset_expr_mutation_modes v) en args (map reset_match_statement_arm arms)"
| "reset_statement (STaskSelect arms) = STaskSelect (map reset_task_select_arm arms)"
| "reset_statement (SLoop kind body) = SLoop (reset_loop_kind kind) (map reset_statement body)"
| "reset_statement SBreak = SBreak"
| "reset_statement SContinue = SContinue"
| "reset_statement (SDefer call) = SDefer (reset_deferred_call call)"
| "reset_match_statement_arm (MatchStatementArm v b body) =
     MatchStatementArm v b (map reset_statement body)"
| "reset_task_select_arm (TaskSelectArm operation b t body) =
     TaskSelectArm (reset_select_operation operation) b t (map reset_statement body)"

definition reset_body_mutation_modes :: "statement list \<Rightarrow> statement list" where
  "reset_body_mutation_modes body = map reset_statement body"

definition reset_mutation_modes :: "program \<Rightarrow> program" where
  "reset_mutation_modes p =
     p\<lparr>prog_functions := map (\<lambda>f. f\<lparr>fun_body := reset_body_mutation_modes (fun_body f)\<rparr>)
        (prog_functions p)\<rparr>"

section \<open>Annotating the proven stores\<close>

definition mark_unique :: "u32 list \<Rightarrow> u32 \<Rightarrow> statement \<Rightarrow> statement" where
  "mark_unique proven statement_id s =
     (if statement_id \<in> set proven then
        case s of
          SArrayIndexAssign root indices ts v mode \<Rightarrow> SArrayIndexAssign root indices ts v CheckedUnique
        | SAssign n v \<Rightarrow>
            (case v of
               EArraySet a i x t mode \<Rightarrow> SAssign n (EArraySet a i x t CheckedUnique)
             | _ \<Rightarrow> s)
        | _ \<Rightarrow> s
      else s)"

lemma size_stmt_arm_body: "body_size (stmt_arm_body arm) < size arm"
  by (cases arm) (simp add: body_size_def)

lemma size_select_body: "body_size (select_body arm) < size arm"
  by (cases arm) (simp add: body_size_def)

function (sequential) annotate_body :: "u32 list \<Rightarrow> statement list \<Rightarrow> u32 \<Rightarrow> statement list \<times> u32"
  and annotate_statement :: "u32 list \<Rightarrow> statement \<Rightarrow> u32 \<Rightarrow> statement \<times> u32"
  and annotate_match_arms ::
    "u32 list \<Rightarrow> match_statement_arm list \<Rightarrow> u32 \<Rightarrow> match_statement_arm list \<times> u32"
  and annotate_select_arms ::
    "u32 list \<Rightarrow> task_select_arm list \<Rightarrow> u32 \<Rightarrow> task_select_arm list \<times> u32" where
  "annotate_body proven [] next = ([], next)"
| "annotate_body proven (s # body) next =
     (let (s', next) = annotate_statement proven s next;
          (body', next) = annotate_body proven body next
      in (s' # body', next))"
| "annotate_statement proven (SLetIf n t c body else_body) next =
     (let (body', next) = annotate_body proven body (next + 1);
          (else_body', next) = annotate_body proven else_body next
      in (SLetIf n t c body' else_body', next))"
| "annotate_statement proven (SIf c body else_body) next =
     (let (body', next) = annotate_body proven body (next + 1);
          (else_body', next) = annotate_body proven else_body next
      in (SIf c body' else_body', next))"
| "annotate_statement proven (SLetMatch n t v en args arms) next =
     (let (arms', next) = annotate_match_arms proven arms (next + 1)
      in (SLetMatch n t v en args arms', next))"
| "annotate_statement proven (SMatch v en args arms) next =
     (let (arms', next) = annotate_match_arms proven arms (next + 1)
      in (SMatch v en args arms', next))"
| "annotate_statement proven (SLetElse b t v en args variant else_body) next =
     (let (else_body', next) = annotate_body proven else_body (next + 1)
      in (SLetElse b t v en args variant else_body', next))"
| "annotate_statement proven (SIfLet b t v en args variant body None) next =
     (let (body', next) = annotate_body proven body (next + 1)
      in (SIfLet b t v en args variant body' None, next))"
| "annotate_statement proven (SIfLet b t v en args variant body (Some else_body)) next =
     (let (body', next) = annotate_body proven body (next + 1);
          (else_body', next) = annotate_body proven else_body next
      in (SIfLet b t v en args variant body' (Some else_body'), next))"
| "annotate_statement proven (STaskSelect arms) next =
     (let (arms', next) = annotate_select_arms proven arms (next + 1)
      in (STaskSelect arms', next))"
| "annotate_statement proven (SLoop kind body) next =
     (let (body', next) = annotate_body proven body (next + 1)
      in (SLoop kind body', next))"
| "annotate_statement proven s next = (mark_unique proven next s, next + 1)"
| "annotate_match_arms proven [] next = ([], next)"
| "annotate_match_arms proven (arm # arms) next =
     (let (body', next) = annotate_body proven (stmt_arm_body arm) next;
          (arms', next) = annotate_match_arms proven arms next
      in (MatchStatementArm (stmt_arm_variant arm) (stmt_arm_binding arm) body' # arms', next))"
| "annotate_select_arms proven [] next = ([], next)"
| "annotate_select_arms proven (arm # arms) next =
     (let (body', next) = annotate_body proven (select_body arm) next;
          (arms', next) = annotate_select_arms proven arms next
      in (TaskSelectArm (select_operation arm) (select_binding arm) (select_binding_type arm) body'
            # arms', next))"
  by pat_completeness auto

termination
  by (relation "measure (\<lambda>x. case x of
       Inl (Inl (_, body, _)) \<Rightarrow> body_size body
     | Inl (Inr (_, s, _)) \<Rightarrow> size s
     | Inr (Inl (_, arms, _)) \<Rightarrow> size_list size arms
     | Inr (Inr (_, arms, _)) \<Rightarrow> size_list size arms)")
    (auto simp: body_size_def [symmetric] less_Suc_eq_le
      intro: le_less_trans [OF _ lessI] less_imp_le [OF size_stmt_arm_body] 
        le_trans [OF less_imp_le [OF size_stmt_arm_body]] le_trans [OF less_imp_le [OF size_select_body]])

definition annotate_function :: "function_decl \<Rightarrow> u32 list \<Rightarrow> function_decl" where
  "annotate_function f proven = f\<lparr>fun_body := fst (annotate_body proven (fun_body f) 0)\<rparr>"

section \<open>What the two walks leave unchanged\<close>

lemma reset_expr_idem:
  "reset_expr_mutation_modes (reset_expr_mutation_modes e) = reset_expr_mutation_modes e"
  "reset_arm_mutation_modes (reset_arm_mutation_modes arm) = reset_arm_mutation_modes arm"
proof (induction e and arm)
  case (EStructLiteral n args fs)
  then show ?case by (auto simp: map_prod_def split_beta)
next
  case (EEnumVariant n args v payload)
  then show ?case by (cases payload) auto
qed auto

lemma reset_parts_idem:
  "reset_select_operation (reset_select_operation operation) = reset_select_operation operation"
  "reset_loop_kind (reset_loop_kind kind) = reset_loop_kind kind"
  "reset_deferred_call (reset_deferred_call call) = reset_deferred_call call"
  by (simp_all add: reset_select_operation_def reset_loop_kind_def reset_deferred_call_def
      reset_expr_idem split: task_select_operation.split loop_kind.split deferred_call.split)

lemma reset_statement_idem:
  "reset_statement (reset_statement s) = reset_statement s"
  "reset_match_statement_arm (reset_match_statement_arm marm) = reset_match_statement_arm marm"
  "reset_task_select_arm (reset_task_select_arm sarm) = reset_task_select_arm sarm"
proof (induction s and marm and sarm)
  case (SIfLet b t v en args variant body else_body)
  then show ?case by (cases else_body) (auto simp: reset_expr_idem)
next
  case (SReturn v)
  then show ?case by (cases v) (auto simp: reset_expr_idem)
qed (auto simp: reset_expr_idem reset_parts_idem)

lemma reset_mark_unique: "reset_statement (mark_unique proven i s) = reset_statement s"
  by (auto simp: mark_unique_def split: statement.splits value_expr.splits)

lemma reset_annotate:
  "map reset_statement (fst (annotate_body proven body n)) = map reset_statement body"
  "reset_statement (fst (annotate_statement proven s n)) = reset_statement s"
  "map reset_match_statement_arm (fst (annotate_match_arms proven marms n))
     = map reset_match_statement_arm marms"
  "map reset_task_select_arm (fst (annotate_select_arms proven sarms n))
     = map reset_task_select_arm sarms"
proof (induction proven body n and proven s n and proven marms n and proven sarms n
    rule: annotate_body_annotate_statement_annotate_match_arms_annotate_select_arms.induct)
  case (14 proven arm arms k)
  then show ?case by (cases arm) (auto split: prod.splits)
next
  case (16 proven arm arms k)
  then show ?case by (cases arm) (auto split: prod.splits)
qed (auto simp: reset_mark_unique split: prod.splits)
end
