(* ===== verification/Mir_Effects.thy ===== *)
theory Mir_Effects
  imports Mir_Modes Ordered_Map
begin

text \<open>
  Which bindings the release optimizer may reason about, and what one statement does to their array
  buffers: \<open>eligible_flat_array_bindings\<close>, \<open>collect_expr_effects\<close> and \<open>statement_operations\<close> of
  \<open>crates/nomo_mir/src/lib.rs\<close>. A \<open>BTreeSet<String>\<close> is a strictly increasing list of strings, a mutable
  accumulator argument is passed in and returned.
\<close>

section \<open>Operations on array buffers\<close>

datatype ownership_state = Unique | Shared | Unknown | Moved

datatype panic_kind = PanicBounds | PanicOverflow | PanicDivisionByZero | PanicExplicit

text \<open>The derived \<open>Ord\<close> of \<open>PanicKind\<close> is the order of its variants.\<close>

definition panic_kind_rank :: "panic_kind \<Rightarrow> nat" where
  "panic_kind_rank k = (case k of
     PanicBounds \<Rightarrow> 0 | PanicOverflow \<Rightarrow> 1 | PanicDivisionByZero \<Rightarrow> 2 | PanicExplicit \<Rightarrow> 3)"

lemma panic_kind_rank_inject: "panic_kind_rank a = panic_kind_rank b \<longleftrightarrow> a = b"
  by (simp add: panic_kind_rank_def split: panic_kind.splits)

instantiation panic_kind :: linorder
begin

definition less_eq_panic_kind :: "panic_kind \<Rightarrow> panic_kind \<Rightarrow> bool" where
  "less_eq_panic_kind a b \<longleftrightarrow> panic_kind_rank a \<le> panic_kind_rank b"

definition less_panic_kind :: "panic_kind \<Rightarrow> panic_kind \<Rightarrow> bool" where
  "less_panic_kind a b \<longleftrightarrow> panic_kind_rank a < panic_kind_rank b"

instance
  by standard (auto simp: less_eq_panic_kind_def less_panic_kind_def panic_kind_rank_inject)

end

record call_effect_summary =
  may_escape_arguments :: bool
  may_suspend :: bool
  invalidates_ownership_proofs :: bool

definition SYNC_UNKNOWN :: call_effect_summary where
  "SYNC_UNKNOWN =
     \<lparr>may_escape_arguments = True, may_suspend = False, invalidates_ownership_proofs = True\<rparr>"

datatype operation =
    FreshArray string
  | Retain string
  | Release string
  | AliasArray string string
  | AssignUnknown string
  | Call call_effect_summary "string list"
  | Escape "string list"
  | ArrayMutation string
  | CheckedArrayBounds u32 string
  | CowDetach u32 string bool bool
  | ArrayStore u32 string
  | Move string
  | Read string

section \<open>Eligible bindings\<close>

definition is_primitive_pod :: "value_type \<Rightarrow> bool" where
  "is_primitive_pod t \<longleftrightarrow> (case t of
       TyBool \<Rightarrow> True
     | TyChar \<Rightarrow> True
     | TyInt \<Rightarrow> True
     | TyI32 \<Rightarrow> True
     | TyU32 \<Rightarrow> True
     | TyU64 \<Rightarrow> True
     | TyFloat \<Rightarrow> True
     | _ \<Rightarrow> False)"

definition is_flat_pod_array :: "value_type \<Rightarrow> bool" where
  "is_flat_pod_array t \<longleftrightarrow> (case t of TyArray element \<Rightarrow> is_primitive_pod element | _ \<Rightarrow> False)"

definition is_fallback_statement :: "statement \<Rightarrow> bool" where
  "is_fallback_statement s \<longleftrightarrow> (case s of SDefer _ \<Rightarrow> True | STaskSelect _ \<Rightarrow> True | _ \<Rightarrow> False)"

function body_requires_safe_fallback :: "statement list \<Rightarrow> bool" where
  "body_requires_safe_fallback body \<longleftrightarrow>
     (\<exists>s \<in> set body. is_fallback_statement s
        \<or> (\<exists>b \<in> set (statement_bodies s). body_requires_safe_fallback b))"
  by pat_completeness auto
termination
  by (relation "measure body_size")
    (auto dest!: statement_bodies_size size_list_body_member)

declare body_requires_safe_fallback.simps [simp del]

type_synonym name_counts = "(string, nat) btree_map"

definition count_binding :: "string \<Rightarrow> name_counts \<Rightarrow> name_counts" where
  "count_binding name counts =
     bt_insert name ((case bt_get counts name of None \<Rightarrow> 0 | Some n \<Rightarrow> n) + 1) counts"

definition record_binding ::
    "string \<Rightarrow> value_type option \<Rightarrow> name_counts \<times> string list \<Rightarrow> name_counts \<times> string list" where
  "record_binding name value_type st =
     (count_binding name (fst st),
      if (case value_type of None \<Rightarrow> False | Some t \<Rightarrow> is_flat_pod_array t)
      then bs_insert name (snd st) else snd st)"

definition record_arm_bindings ::
    "match_statement_arm list \<Rightarrow> name_counts \<times> string list \<Rightarrow> name_counts \<times> string list" where
  "record_arm_bindings arms st =
     fold (\<lambda>arm st. case stmt_arm_binding arm of
         None \<Rightarrow> st
       | Some binding \<Rightarrow> record_binding binding None st) arms st"

text \<open>The first \<open>match\<close> of \<open>collect_binding_names\<close>: the names the statement itself binds.\<close>

definition collect_statement_bindings ::
    "statement \<Rightarrow> name_counts \<times> string list \<Rightarrow> name_counts \<times> string list" where
  "collect_statement_bindings s st = (case s of
       SLet name t _ \<Rightarrow> record_binding name (Some t) st
     | SLetIf name t _ _ _ \<Rightarrow> record_binding name (Some t) st
     | SQuestionLet _ name t _ _ _ _ \<Rightarrow> record_binding name (Some t) st
     | SLetMatch name t _ _ _ arms \<Rightarrow> record_arm_bindings arms (record_binding name (Some t) st)
     | SLetElse binding t _ _ _ _ _ \<Rightarrow> record_binding binding (Some t) st
     | SIfLet (Some binding) t _ _ _ _ _ _ \<Rightarrow> record_binding binding t st
     | SLoop kind _ \<Rightarrow>
         (case kind of
            LoopCStyle binding t _ _ _ \<Rightarrow> record_binding binding (Some t) st
          | LoopIterate binding t _ \<Rightarrow> record_binding binding (Some t) st
          | LoopInfinite \<Rightarrow> st
          | LoopWhile _ \<Rightarrow> st)
     | SMatch _ _ _ arms \<Rightarrow> record_arm_bindings arms st
     | STaskSelect arms \<Rightarrow>
         fold (\<lambda>arm st. record_binding (select_binding arm) (Some (select_binding_type arm)) st) arms st
     | _ \<Rightarrow> st)"

text \<open>Its second \<open>match\<close> visits the bodies in the order of \<open>statement_bodies\<close>.\<close>

function collect_binding_names ::
    "statement list \<Rightarrow> name_counts \<times> string list \<Rightarrow> name_counts \<times> string list" where
  "collect_binding_names body st =
     fold (\<lambda>s st. fold (\<lambda>b st. collect_binding_names b st) (statement_bodies s)
       (collect_statement_bindings s st)) body st"
  by pat_completeness auto
termination
  by (relation "measure (body_size \<circ> fst)")
    (auto dest!: statement_bodies_size size_list_body_member)

declare collect_binding_names.simps [simp del]

definition eligible_flat_array_bindings :: "function_decl \<Rightarrow> string list" where
  "eligible_flat_array_bindings f =
     (if body_requires_safe_fallback (fun_body f) then []
      else
        let st = fold (\<lambda>p st. (count_binding (param_name p) (fst st),
                   if is_flat_pod_array (param_type p) then bs_insert (param_name p) (snd st)
                   else snd st)) (fun_params f) ([], []);
            (counts, flat) = collect_binding_names (fun_body f) st
        in filter (\<lambda>name. bt_get counts name = Some 1) flat)"

section \<open>Effects of an expression\<close>

datatype expr_context = CtxValue | CtxRead | CtxMove

record expr_effects =
  eff_operations :: "operation list"
  eff_escapes :: "string list"
  eff_moves :: "string list"
  eff_reads :: "string list"
  eff_panic_kinds :: "panic_kind list"

definition default_effects :: expr_effects where
  "default_effects = \<lparr>eff_operations = [], eff_escapes = [], eff_moves = [], eff_reads = [],
     eff_panic_kinds = []\<rparr>"

definition push_operation :: "operation \<Rightarrow> expr_effects \<Rightarrow> expr_effects" where
  "push_operation operation eff = eff\<lparr>eff_operations := eff_operations eff @ [operation]\<rparr>"

definition add_escape :: "string \<Rightarrow> expr_effects \<Rightarrow> expr_effects" where
  "add_escape name eff = eff\<lparr>eff_escapes := bs_insert name (eff_escapes eff)\<rparr>"

definition add_panic_kind :: "panic_kind \<Rightarrow> expr_effects \<Rightarrow> expr_effects" where
  "add_panic_kind kind eff = eff\<lparr>eff_panic_kinds := bs_insert kind (eff_panic_kinds eff)\<rparr>"

definition flush_uses :: "expr_effects \<Rightarrow> expr_effects" where
  "flush_uses eff = eff\<lparr>
     eff_operations := eff_operations eff
       @ (if eff_escapes eff \<noteq> [] then [Escape (eff_escapes eff)] else [])
       @ map Move (eff_moves eff) @ map Read (eff_reads eff),
     eff_escapes := [], eff_moves := [], eff_reads := []\<rparr>"

definition finish_effects :: "expr_effects \<Rightarrow> operation list \<times> panic_kind list" where
  "finish_effects eff =
     (let eff = flush_uses eff in (eff_operations eff, eff_panic_kinds eff))"

definition record_variable_use ::
    "string \<Rightarrow> string list \<Rightarrow> expr_context \<Rightarrow> expr_effects \<Rightarrow> expr_effects" where
  "record_variable_use name eligible ctx eff =
     (if name \<notin> set eligible then eff
      else case ctx of
          CtxValue \<Rightarrow> add_escape name eff
        | CtxRead \<Rightarrow> eff\<lparr>eff_reads := bs_insert name (eff_reads eff)\<rparr>
        | CtxMove \<Rightarrow> eff\<lparr>eff_moves := bs_insert name (eff_moves eff)\<rparr>)"

lemma child_expressions_size:
  "c \<in> set (child_expressions e) \<Longrightarrow> size c < size e"
proof -
  have arm: "size (arm_value arm) < size_list size arms" if "arm \<in> set arms" for arm arms
    using that
  proof (induction arms)
    case (Cons a arms)
    then show ?case by (cases a) auto
  qed simp
  have arg: "size x < size_list size xs" if "x \<in> set xs" for x :: value_expr and xs
    using that by (induction xs) auto
  have fld: "size x < size_list (size_prod (\<lambda>_. 0) size) fs"
    if "x \<in> snd ` set fs" for x :: value_expr and fs :: "(string \<times> value_expr) list"
    using that by (induction fs) force+
  show "c \<in> set (child_expressions e) \<Longrightarrow> size c < size e"
    by (cases e) (auto simp: child_expressions_def less_Suc_eq_le split: option.splits
        dest!: arg fld arm intro: less_imp_le)
qed

definition add_eligible :: "string \<Rightarrow> string list \<Rightarrow> string list \<Rightarrow> string list" where
  "add_eligible name eligible arrays =
     (if name \<in> set eligible then bs_insert name arrays else arrays)"

function collect_array_variables :: "value_expr \<Rightarrow> string list \<Rightarrow> string list \<Rightarrow> string list" where
  "collect_array_variables e eligible arrays = (case e of
       EVariable name \<Rightarrow> add_eligible name eligible arrays
     | EFieldAccess base _ \<Rightarrow> add_eligible base eligible arrays
     | EMutBorrow path \<Rightarrow> (case path of [] \<Rightarrow> arrays | root # _ \<Rightarrow> add_eligible root eligible arrays)
     | EArrayPop array _ \<Rightarrow>
         fold (\<lambda>c arrays. collect_array_variables c eligible arrays) (child_expressions e)
           (add_eligible array eligible arrays)
     | EArrayRemove array _ _ \<Rightarrow>
         fold (\<lambda>c arrays. collect_array_variables c eligible arrays) (child_expressions e)
           (add_eligible array eligible arrays)
     | EArrayPush array _ _ \<Rightarrow>
         fold (\<lambda>c arrays. collect_array_variables c eligible arrays) (child_expressions e)
           (add_eligible array eligible arrays)
     | EArraySet array _ _ _ _ \<Rightarrow>
         fold (\<lambda>c arrays. collect_array_variables c eligible arrays) (child_expressions e)
           (add_eligible array eligible arrays)
     | EArrayInsert array _ _ _ \<Rightarrow>
         fold (\<lambda>c arrays. collect_array_variables c eligible arrays) (child_expressions e)
           (add_eligible array eligible arrays)
     | EArrayClear array _ \<Rightarrow>
         fold (\<lambda>c arrays. collect_array_variables c eligible arrays) (child_expressions e)
           (add_eligible array eligible arrays)
     | _ \<Rightarrow>
         fold (\<lambda>c arrays. collect_array_variables c eligible arrays) (child_expressions e) arrays)"
  by pat_completeness auto
termination
  by (relation "measure (size \<circ> fst)")
    (simp, (simp only: in_measure comp_apply fst_conv, rule child_expressions_size, assumption)+)

declare collect_array_variables.simps [simp del]

definition mutation_of ::
    "string \<Rightarrow> string list \<Rightarrow> expr_effects \<Rightarrow> expr_effects" where
  "mutation_of array eligible eff =
     (if array \<in> set eligible then push_operation (ArrayMutation array) eff else eff)"

definition binary_panics :: "binary_op \<Rightarrow> value_type \<Rightarrow> expr_effects \<Rightarrow> expr_effects" where
  "binary_panics op t eff =
     (if is_integer t then
        if op \<in> {OpAdd, OpSubtract, OpMultiply, OpShiftLeft, OpShiftRight}
        then add_panic_kind PanicOverflow eff
        else if op \<in> {OpDivide, OpRemainder}
        then add_panic_kind PanicOverflow (add_panic_kind PanicDivisionByZero eff)
        else eff
      else eff)"

function collect_expr_effects ::
    "value_expr \<Rightarrow> string list \<Rightarrow> expr_context \<Rightarrow> expr_effects \<Rightarrow> expr_effects" where
  "collect_expr_effects e eligible ctx eff = (case e of
       EVariable name \<Rightarrow> record_variable_use name eligible ctx eff
     | EMutBorrow path \<Rightarrow>
         (case path of
            [] \<Rightarrow> eff
          | root # _ \<Rightarrow> if root \<in> set eligible then add_escape root eff else eff)
     | EFieldAccess base _ \<Rightarrow> record_variable_use base eligible CtxValue eff
     | EArrayLen array \<Rightarrow> collect_expr_effects array eligible CtxRead eff
     | EArrayIndex array index _ \<Rightarrow>
         add_panic_kind PanicBounds
           (collect_expr_effects index eligible CtxValue
             (collect_expr_effects array eligible CtxRead eff))
     | EArrayGet array index _ \<Rightarrow>
         collect_expr_effects index eligible CtxValue
           (collect_expr_effects array eligible CtxRead eff)
     | EArraySet array index x _ _ \<Rightarrow>
         add_panic_kind PanicBounds (mutation_of array eligible
           (collect_expr_effects x eligible CtxValue
             (collect_expr_effects index eligible CtxValue eff)))
     | EArrayPush array x _ \<Rightarrow>
         mutation_of array eligible (collect_expr_effects x eligible CtxValue eff)
     | EArrayInsert array index x _ \<Rightarrow>
         add_panic_kind PanicBounds (mutation_of array eligible
           (collect_expr_effects x eligible CtxValue
             (collect_expr_effects index eligible CtxValue eff)))
     | EArrayRemove array index _ \<Rightarrow>
         mutation_of array eligible (collect_expr_effects index eligible CtxValue eff)
     | EArrayPop array _ \<Rightarrow> mutation_of array eligible eff
     | EArrayClear array _ \<Rightarrow> mutation_of array eligible eff
     | ECall _ args \<Rightarrow>
         (let (call_arrays, eff) = fold (\<lambda>arg (arrays, eff).
                (collect_array_variables arg eligible arrays,
                 collect_expr_effects arg eligible CtxValue eff)) args ([], eff)
          in push_operation (Call SYNC_UNKNOWN call_arrays) eff)
     | EBinary _ op _ t \<Rightarrow>
         fold (\<lambda>c eff. collect_expr_effects c eligible CtxValue eff) (child_expressions e)
           (binary_panics op t eff)
     | EPanic message _ \<Rightarrow>
         add_panic_kind PanicExplicit (collect_expr_effects message eligible CtxValue eff)
     | _ \<Rightarrow> fold (\<lambda>c eff. collect_expr_effects c eligible CtxValue eff) (child_expressions e) eff)"
  by pat_completeness auto
termination
  by (relation "measure (size \<circ> fst)")
    (simp, (simp only: in_measure comp_apply fst_conv, rule child_expressions_size,
      (assumption | simp add: child_expressions_def))+)

declare collect_expr_effects.simps [simp del]

section \<open>Effects of a statement\<close>

definition assign_unknown :: "string \<Rightarrow> bool \<Rightarrow> string list \<Rightarrow> expr_effects \<Rightarrow> expr_effects" where
  "assign_unknown name overwrite eligible eff =
     (if name \<in> set eligible then
        push_operation (AssignUnknown name)
          (if overwrite then push_operation (Release name) eff else eff)
      else eff)"

definition collect_values :: "value_expr list \<Rightarrow> string list \<Rightarrow> expr_effects \<Rightarrow> expr_effects" where
  "collect_values es eligible eff =
     fold (\<lambda>e eff. collect_expr_effects e eligible CtxValue eff) es eff"

definition release_overwritten :: "string \<Rightarrow> bool \<Rightarrow> expr_effects \<Rightarrow> expr_effects" where
  "release_overwritten name overwrite eff =
     (if overwrite then push_operation (Release name) eff else eff)"

definition push_checked_store ::
    "u32 \<Rightarrow> string \<Rightarrow> bool \<Rightarrow> expr_effects \<Rightarrow> expr_effects" where
  "push_checked_store statement_id name flat_array eff =
     push_operation (ArrayStore statement_id name)
       (push_operation (CowDetach statement_id name flat_array False)
         (push_operation (CheckedArrayBounds statement_id name) eff))"

text \<open>The path of \<open>assign_operations\<close> after its special cases.\<close>

definition assign_general ::
    "string \<Rightarrow> value_expr \<Rightarrow> bool \<Rightarrow> string list \<Rightarrow> expr_effects \<Rightarrow> expr_effects" where
  "assign_general name v overwrite eligible eff =
     assign_unknown name overwrite eligible
       (flush_uses (collect_expr_effects v eligible CtxValue eff))"

definition assign_fresh ::
    "string \<Rightarrow> value_expr \<Rightarrow> bool \<Rightarrow> string list \<Rightarrow> expr_effects \<Rightarrow> expr_effects" where
  "assign_fresh name v overwrite eligible eff =
     push_operation (FreshArray name) (release_overwritten name overwrite
       (flush_uses (collect_values (child_expressions v) eligible eff)))"

definition assign_mutation ::
    "string \<Rightarrow> value_expr \<Rightarrow> string list \<Rightarrow> expr_effects \<Rightarrow> expr_effects" where
  "assign_mutation name v eligible eff =
     push_operation (ArrayMutation name)
       (flush_uses (collect_values (child_expressions v) eligible eff))"

definition assign_operations ::
    "string \<Rightarrow> value_expr \<Rightarrow> bool \<Rightarrow> u32 \<Rightarrow> string list \<Rightarrow> expr_effects \<Rightarrow> expr_effects" where
  "assign_operations name v overwrite statement_id eligible eff =
     (if name \<in> set eligible then
        case v of
          EArrayNew t \<Rightarrow>
            if is_primitive_pod t then assign_fresh name v overwrite eligible eff
            else assign_general name v overwrite eligible eff
        | EArrayLiteral _ t \<Rightarrow>
            if is_primitive_pod t then assign_fresh name v overwrite eligible eff
            else assign_general name v overwrite eligible eff
        | EVariable source \<Rightarrow>
            if source \<in> set eligible then
              push_operation (AliasArray name source) (push_operation (Retain source)
                (release_overwritten name overwrite eff))
            else assign_general name v overwrite eligible eff
        | EArraySet array index x t _ \<Rightarrow>
            if array = name \<and> is_primitive_pod t then
              add_panic_kind PanicBounds (push_checked_store statement_id name True
                (flush_uses (collect_expr_effects x eligible CtxValue
                  (collect_expr_effects index eligible CtxValue eff))))
            else assign_general name v overwrite eligible eff
        | EArrayPush array x _ \<Rightarrow>
            if array = name then
              push_operation (ArrayMutation name)
                (flush_uses (collect_expr_effects x eligible CtxValue eff))
            else assign_general name v overwrite eligible eff
        | EArrayInsert array index x _ \<Rightarrow>
            if array = name then
              add_panic_kind PanicBounds (push_operation (ArrayMutation name)
                (flush_uses (collect_expr_effects x eligible CtxValue
                  (collect_expr_effects index eligible CtxValue eff))))
            else assign_general name v overwrite eligible eff
        | EArrayClear array _ \<Rightarrow>
            if array = name then assign_mutation name v eligible eff
            else assign_general name v overwrite eligible eff
        | EArrayPop array _ \<Rightarrow>
            if array = name then assign_mutation name v eligible eff
            else assign_general name v overwrite eligible eff
        | EArrayRemove array _ _ \<Rightarrow>
            if array = name then assign_mutation name v eligible eff
            else assign_general name v overwrite eligible eff
        | _ \<Rightarrow> assign_general name v overwrite eligible eff
      else assign_general name v overwrite eligible eff)"

definition select_operation_values :: "task_select_operation \<Rightarrow> value_expr list" where
  "select_operation_values operation = (case operation of
       SelectReceive channel _ \<Rightarrow> [channel]
     | SelectSend channel v _ \<Rightarrow> [channel, v]
     | SelectSleep duration \<Rightarrow> [duration]
     | SelectJoin _ \<Rightarrow> [])"

definition loop_kind_values :: "loop_kind \<Rightarrow> value_expr list" where
  "loop_kind_values kind = (case kind of
       LoopInfinite \<Rightarrow> []
     | LoopWhile condition \<Rightarrow> [condition]
     | LoopCStyle _ _ initializer condition update \<Rightarrow> [initializer, condition, update]
     | LoopIterate _ _ iterable \<Rightarrow> [iterable])"

definition deferred_expr :: "deferred_call \<Rightarrow> value_expr" where
  "deferred_expr call = (case call of
       DeferredExpr e \<Rightarrow> e
     | DeferredPrintln e \<Rightarrow> e
     | DeferredPrint e \<Rightarrow> e
     | DeferredEprintln e \<Rightarrow> e
     | DeferredEprint e \<Rightarrow> e)"

definition index_assign_operations ::
    "string \<Rightarrow> value_expr list \<Rightarrow> value_type list \<Rightarrow> value_expr \<Rightarrow> u32 \<Rightarrow> string list
      \<Rightarrow> expr_effects \<Rightarrow> expr_effects" where
  "index_assign_operations root indices array_types v statement_id eligible eff =
     (let eff = flush_uses (collect_expr_effects v eligible CtxValue
                  (collect_values indices eligible eff));
          flat_array = (length indices = 1 \<and> length array_types = 1
                        \<and> is_primitive_pod (array_types ! 0));
          eff = (if root \<in> set eligible
                 then push_checked_store statement_id root flat_array eff else eff)
      in add_panic_kind PanicBounds eff)"

definition statement_operations ::
    "statement \<Rightarrow> u32 \<Rightarrow> string list \<Rightarrow> operation list \<times> panic_kind list" where
  "statement_operations s statement_id eligible =
     (let eff = default_effects;
          value = (\<lambda>e eff. collect_expr_effects e eligible CtxValue eff);
          moved = (\<lambda>e eff. collect_expr_effects e eligible CtxMove eff);
          bind_unknown = (\<lambda>name eff. assign_unknown name False eligible eff)
      in finish_effects (case s of
           SLet name _ initializer \<Rightarrow>
             assign_operations name initializer False statement_id eligible eff
         | SAssign name v \<Rightarrow> assign_operations name v True statement_id eligible eff
         | SArrayIndexAssign root indices array_types v _ \<Rightarrow>
             index_assign_operations root indices array_types v statement_id eligible eff
         | SLetIf name _ condition _ _ \<Rightarrow> bind_unknown name (value condition eff)
         | SLetMatch name _ v _ _ _ \<Rightarrow> bind_unknown name (value v eff)
         | SQuestionLet _ name _ _ _ result_expr _ \<Rightarrow> bind_unknown name (value result_expr eff)
         | SQuestionReturn _ _ _ _ result_expr _ \<Rightarrow> moved result_expr eff
         | SLetElse binding _ v _ _ _ _ \<Rightarrow> bind_unknown binding (value v eff)
         | SIfLet binding _ v _ _ _ _ _ \<Rightarrow>
             (case binding of None \<Rightarrow> value v eff | Some b \<Rightarrow> bind_unknown b (value v eff))
         | SIf condition _ _ \<Rightarrow> value condition eff
         | SAssignField base _ _ v \<Rightarrow>
             value v (if base \<in> set eligible then add_escape base eff else eff)
         | SEprintln v \<Rightarrow> value v eff
         | SEprint v \<Rightarrow> value v eff
         | SPrintln v \<Rightarrow> value v eff
         | SPrint v \<Rightarrow> value v eff
         | SExpr v \<Rightarrow> value v eff
         | SPanic v \<Rightarrow> add_panic_kind PanicExplicit (value v eff)
         | SReturn v \<Rightarrow> (case v of None \<Rightarrow> eff | Some e \<Rightarrow> moved e eff)
         | SMatch v _ _ _ \<Rightarrow> value v eff
         | STaskSelect arms \<Rightarrow>
             fold (\<lambda>arm eff. collect_values (select_operation_values (select_operation arm))
               eligible eff) arms eff
         | SLoop kind _ \<Rightarrow> collect_values (loop_kind_values kind) eligible eff
         | SDefer call \<Rightarrow> value (deferred_expr call) eff
         | SBreak \<Rightarrow> eff
         | SContinue \<Rightarrow> eff))"

section \<open>Which statements detach\<close>

text \<open>Operations of a checked store; expressions by themselves have none.\<close>

definition is_store_op :: "operation \<Rightarrow> bool" where
  "is_store_op op \<longleftrightarrow> (case op of
     CowDetach _ _ _ _ \<Rightarrow> True | CheckedArrayBounds _ _ \<Rightarrow> True | ArrayStore _ _ \<Rightarrow> True | _ \<Rightarrow> False)"

definition no_store_ops :: "expr_effects \<Rightarrow> bool" where
  "no_store_ops eff \<longleftrightarrow> (\<forall>op \<in> set (eff_operations eff). \<not> is_store_op op)"

lemma no_store_ops_simps [simp]:
  "no_store_ops default_effects"
  "no_store_ops (add_escape n eff) = no_store_ops eff"
  "no_store_ops (add_panic_kind k eff) = no_store_ops eff"
  "no_store_ops (record_variable_use n el ctx eff) = no_store_ops eff"
  "no_store_ops (binary_panics op t eff) = no_store_ops eff"
  "no_store_ops (mutation_of a el eff) = no_store_ops eff"
  "no_store_ops (assign_unknown n ov el eff) = no_store_ops eff"
  "no_store_ops (release_overwritten n ov eff) = no_store_ops eff"
  "no_store_ops (flush_uses eff) = no_store_ops eff"
  "no_store_ops (push_operation op' eff) \<longleftrightarrow> \<not> is_store_op op' \<and> no_store_ops eff"
  by (auto simp: no_store_ops_def default_effects_def add_escape_def add_panic_kind_def
      record_variable_use_def binary_panics_def mutation_of_def push_operation_def assign_unknown_def
      release_overwritten_def flush_uses_def is_store_op_def split: expr_context.split)

lemma fold_no_store_ops:
  assumes "\<And>c eff. c \<in> set cs \<Longrightarrow> no_store_ops eff \<Longrightarrow> no_store_ops (f c eff)" "no_store_ops eff"
  shows "no_store_ops (fold f cs eff)"
  using assms by (induction cs arbitrary: eff) auto

lemma fold_no_store_ops_snd:
  assumes "\<And>c eff. c \<in> set cs \<Longrightarrow> no_store_ops eff \<Longrightarrow> no_store_ops (f c eff)" "no_store_ops (snd x)"
  shows "no_store_ops (snd (fold (\<lambda>c (arrays, eff). (g c arrays, f c eff)) cs x))"
  using assms by (induction cs arbitrary: x) (auto simp: split_beta)

lemma collect_no_store_ops:
  "no_store_ops eff \<Longrightarrow> no_store_ops (collect_expr_effects e el ctx eff)"
proof (induction e arbitrary: ctx eff rule: measure_induct_rule [where f = size])
  case (less e)
  have IH: "no_store_ops (collect_expr_effects c el ctx eff)"
    if "c \<in> set (child_expressions e)" "no_store_ops eff" for c ctx eff
    using less.IH child_expressions_size that by blast
  have kids: "no_store_ops (fold (\<lambda>c eff. collect_expr_effects c el CtxValue eff) (child_expressions e) eff)"
    if "no_store_ops eff" for eff
    using that by (intro fold_no_store_ops) (auto intro: IH)
  have args: "no_store_ops (snd (fold (\<lambda>arg (arrays, eff). (collect_array_variables arg el arrays,
      collect_expr_effects arg el CtxValue eff)) (child_expressions e) ([], eff)))"
    using less.prems by (intro fold_no_store_ops_snd) (auto intro: IH)
  show ?case
    unfolding collect_expr_effects.simps [of e]
    by (cases e) (use less.prems kids IH args in
      \<open>auto simp: child_expressions_def split_beta is_store_op_def split: list.split\<close>)
qed

lemma collect_values_no_store_ops [simp]:
  "no_store_ops eff \<Longrightarrow> no_store_ops (collect_values es el eff)"
  unfolding collect_values_def by (intro fold_no_store_ops) (auto intro: collect_no_store_ops)

text \<open>The binding that a statement stores through with a check and a detach of its own.\<close>

definition stored_by_value :: "string \<Rightarrow> value_expr \<Rightarrow> string list \<Rightarrow> bool" where
  "stored_by_value name v eligible \<longleftrightarrow> name \<in> set eligible
     \<and> (case v of EArraySet array _ _ t _ \<Rightarrow> array = name \<and> is_primitive_pod t | _ \<Rightarrow> False)"

definition stored_binding :: "statement \<Rightarrow> string list \<Rightarrow> string option" where
  "stored_binding s eligible = (case s of
       SArrayIndexAssign root _ _ _ _ \<Rightarrow> if root \<in> set eligible then Some root else None
     | SAssign name v \<Rightarrow> if stored_by_value name v eligible then Some name else None
     | SLet name _ v \<Rightarrow> if stored_by_value name v eligible then Some name else None
     | _ \<Rightarrow> None)"

definition nothing_pending :: "expr_effects \<Rightarrow> bool" where
  "nothing_pending eff \<longleftrightarrow> eff_escapes eff = [] \<and> eff_moves eff = [] \<and> eff_reads eff = []"

text \<open>Effects that end with one checked store.\<close>

definition ends_with_store :: "u32 \<Rightarrow> string \<Rightarrow> expr_effects \<Rightarrow> bool" where
  "ends_with_store st x eff \<longleftrightarrow> nothing_pending eff \<and> PanicBounds \<in> set (eff_panic_kinds eff)
     \<and> (\<exists>before flat. eff_operations eff =
          before @ [CheckedArrayBounds st x, CowDetach st x flat False, ArrayStore st x]
        \<and> (\<forall>op \<in> set before. \<not> is_store_op op))"

lemma push_checked_store_ends:
  assumes "no_store_ops eff"
  shows "ends_with_store st x (add_panic_kind PanicBounds (push_checked_store st x flat (flush_uses eff)))"
proof -
  have "no_store_ops (flush_uses eff)" using assms by simp
  then show ?thesis
    unfolding ends_with_store_def
    by (intro conjI exI [of _ "eff_operations (flush_uses eff)"] exI [of _ flat])
      (simp_all add: nothing_pending_def add_panic_kind_def push_checked_store_def push_operation_def
        flush_uses_def no_store_ops_def)
qed

lemma assign_operations_store:
  assumes "no_store_ops eff"
  shows "if stored_by_value name v el then ends_with_store st name (assign_operations name v ov st el eff)
    else no_store_ops (assign_operations name v ov st el eff)"
proof (cases v)
  case (EArraySet a i x t m)
  then show ?thesis
    using assms collect_no_store_ops
    by (auto simp: stored_by_value_def assign_operations_def assign_general_def
        intro!: push_checked_store_ends)
qed (use assms collect_no_store_ops in \<open>auto simp: stored_by_value_def assign_operations_def
      assign_general_def assign_fresh_def assign_mutation_def is_store_op_def\<close>)

lemma finish_store:
  assumes "ends_with_store st x eff"
  shows "\<exists>before flat. fst (finish_effects eff) =
      before @ [CheckedArrayBounds st x, CowDetach st x flat False, ArrayStore st x]
    \<and> (\<forall>op \<in> set before. \<not> is_store_op op)"
    and "PanicBounds \<in> set (snd (finish_effects eff))"
  using assms by (auto simp: ends_with_store_def nothing_pending_def finish_effects_def flush_uses_def Let_def)

lemma finish_no_store: "no_store_ops eff \<Longrightarrow> \<forall>op \<in> set (fst (finish_effects eff)). \<not> is_store_op op"
  using no_store_ops_simps(9) by (auto simp: finish_effects_def Let_def no_store_ops_def)

lemma fold_select_no_store_ops:
  "no_store_ops eff \<Longrightarrow> no_store_ops (fold (\<lambda>arm eff. collect_values (vs arm) el eff) arms eff)"
  by (induction arms arbitrary: eff) auto

text \<open>What a statement does to the arrays it tracks. A statement that names an eligible array as the
  target of a store ends with the bounds check, the detach (not yet elided) and the store of exactly
  that array under its own number, and may panic on the bounds; no other operation of it stores or
  detaches. A statement with no such target has no store and no detach at all.\<close>

lemma statement_operations_stores:
  "case stored_binding s el of
     Some x \<Rightarrow> PanicBounds \<in> set (snd (statement_operations s st el))
       \<and> (\<exists>before flat. fst (statement_operations s st el) =
            before @ [CheckedArrayBounds st x, CowDetach st x flat False, ArrayStore st x]
          \<and> (\<forall>op \<in> set before. \<not> is_store_op op))
   | None \<Rightarrow> \<forall>op \<in> set (fst (statement_operations s st el)). \<not> is_store_op op"
proof (cases s)
  case (SArrayIndexAssign root indices ts v mode)
  let ?eff = "collect_expr_effects v el CtxValue (collect_values indices el default_effects)"
  have "no_store_ops ?eff"
    by (intro collect_no_store_ops) simp
  then show ?thesis
    using push_checked_store_ends [THEN finish_store(1)] push_checked_store_ends [THEN finish_store(2)]
      finish_no_store [of "add_panic_kind PanicBounds (flush_uses ?eff)"]
    by (auto simp: SArrayIndexAssign stored_binding_def statement_operations_def Let_def
        index_assign_operations_def)
next
  case (SLet name t v)
  show ?thesis
    using assign_operations_store [of default_effects name v el st False]
    by (auto simp: SLet stored_binding_def statement_operations_def Let_def split: if_splits
        dest: finish_store finish_no_store)
next
  case (SAssign name v)
  show ?thesis
    using assign_operations_store [of default_effects name v el st True]
    by (auto simp: SAssign stored_binding_def statement_operations_def Let_def split: if_splits
        dest: finish_store finish_no_store)
qed (simp only: stored_binding_def statement_operations_def statement.case option.case Let_def,
    rule finish_no_store,
    (auto intro!: collect_no_store_ops fold_select_no_store_ops split: option.split)[1])+

end
