(* ===== verification/Mir_Builder.thy ===== *)
theory Mir_Builder
  imports Mir_Effects "HOL-Library.Monad_Syntax"
begin

text \<open>
  The control-flow graph of a function body: \<open>CfgBuilder\<close> of \<open>crates/nomo_mir/src/lib.rs\<close>. The builder
  is a record passed through every call; an index or map lookup that would panic in the source is
  \<open>None\<close>, so that building without a panic is a theorem about these definitions and not a premise.

  A body is built from its last statement to its first, because each block needs the identifier of the
  block that follows it; the bodies nested in one statement are built in source order.
\<close>

section \<open>The graph\<close>

datatype terminator =
    TGoto nat
  | TBranch nat nat
  | TSwitch "nat list"
  | TReturn
  | TPanic
  | TUnreachable

definition successors_of :: "terminator \<Rightarrow> nat list" where
  "successors_of t = (case t of
       TGoto target \<Rightarrow> [target]
     | TBranch then_block else_block \<Rightarrow> [then_block, else_block]
     | TSwitch targets \<Rightarrow> targets
     | TReturn \<Rightarrow> []
     | TPanic \<Rightarrow> []
     | TUnreachable \<Rightarrow> [])"

record basic_block =
  block_id :: nat
  block_operations :: "operation list"
  block_terminator :: terminator

record panic_edge =
  panic_from :: nat
  panic_to :: nat
  panic_edge_kind :: panic_kind

record function_cfg =
  cfg_function :: string
  cfg_entry :: nat
  cfg_exit :: nat
  cfg_panic_exit :: nat
  cfg_blocks :: "basic_block list"
  cfg_panic_edges :: "panic_edge list"

definition qualified_function_name :: "function_decl \<Rightarrow> string" where
  "qualified_function_name f =
     (if fun_package f = [] then fun_name f else fun_package f @ ''.'' @ fun_name f)"

section \<open>Statement identifiers\<close>

datatype path_step = PathStatement nat | PathBranch nat

type_synonym statement_path = "path_step list"

type_synonym statement_sites = "statement_path \<rightharpoonup> u32"

text \<open>The size of several bodies, without the length of their list.\<close>

definition bodies_size :: "statement list list \<Rightarrow> nat" where
  "bodies_size bodies = sum_list (map body_size bodies)"

lemma bodies_size_simps [simp]:
  "bodies_size [] = 0"
  "bodies_size (b # bodies) = body_size b + bodies_size bodies"
  by (simp_all add: bodies_size_def)

lemma bodies_size_match: "bodies_size (map stmt_arm_body arms) \<le> size_list size arms"
proof (induction arms)
  case (Cons arm arms)
  then show ?case using size_stmt_arm_body [of arm] by simp
qed simp

lemma bodies_size_select: "bodies_size (map select_body arms) \<le> size_list size arms"
proof (induction arms)
  case (Cons arm arms)
  then show ?case using size_select_body [of arm] by simp
qed simp

lemma bodies_size_bounds:
  "2 * bodies_size (map stmt_arm_body marms) \<le> Suc (2 * size_list size marms)"
  "2 * bodies_size (map select_body sarms) \<le> Suc (2 * size_list size sarms)"
  using bodies_size_match [of marms] bodies_size_select [of sarms] by linarith+

lemma size_statement_bodies: "bodies_size (statement_bodies s) \<le> size s"
  by (cases s)
    (auto simp: statement_bodies_def body_size_def [symmetric] split: option.splits
      intro: le_SucI le_trans [OF bodies_size_match] le_trans [OF bodies_size_select])

function assign_statements ::
    "nat \<Rightarrow> statement list \<Rightarrow> statement_path \<Rightarrow> u32 \<times> statement_sites \<Rightarrow> u32 \<times> statement_sites"
  and assign_branches ::
    "nat \<Rightarrow> statement list list \<Rightarrow> statement_path \<Rightarrow> u32 \<times> statement_sites \<Rightarrow> u32 \<times> statement_sites"
where
  "assign_statements index [] prefix st = st"
| "assign_statements index (s # body) prefix st =
     (let path = prefix @ [PathStatement index];
          st = (fst st + 1, (snd st)(path \<mapsto> fst st));
          st = assign_branches 0 (statement_bodies s) path st
      in assign_statements (Suc index) body prefix st)"
| "assign_branches branch [] path st = st"
| "assign_branches branch (child # children) path st =
     (let st = assign_statements 0 child (path @ [PathBranch branch]) st
      in assign_branches (Suc branch) children path st)"
  by pat_completeness auto

termination
  by (relation "measures [\<lambda>x. case x of
         Inl (_, body, _) \<Rightarrow> 2 * body_size body
       | Inr (_, bodies, _) \<Rightarrow> Suc (2 * bodies_size bodies),
       \<lambda>x. case x of Inl _ \<Rightarrow> 0 | Inr (_, bodies, _) \<Rightarrow> length bodies]")
    (use size_statement_bodies in \<open>auto simp: less_Suc_eq_le intro: le_trans trans_le_add1\<close>)

definition assign_statement_ids ::
    "statement list \<Rightarrow> statement_path \<Rightarrow> u32 \<times> statement_sites \<Rightarrow> u32 \<times> statement_sites" where
  "assign_statement_ids body prefix st = assign_statements 0 body prefix st"

section \<open>The builder\<close>

record cfg_builder =
  bld_eligible :: "string list"
  bld_sites :: statement_sites
  bld_blocks :: "basic_block list"
  bld_panic_edges :: "panic_edge list"
  bld_exit :: nat
  bld_panic_exit :: nat

definition push_block :: "operation list \<Rightarrow> terminator \<Rightarrow> cfg_builder \<Rightarrow> nat \<times> cfg_builder" where
  "push_block operations t b =
     (let id = length (bld_blocks b)
      in (id, b\<lparr>bld_blocks := bld_blocks b
            @ [\<lparr>block_id = id, block_operations = operations, block_terminator = t\<rparr>]\<rparr>))"

definition add_panic_edges :: "nat \<Rightarrow> panic_kind list \<Rightarrow> cfg_builder \<Rightarrow> cfg_builder" where
  "add_panic_edges from_block kinds b = b\<lparr>bld_panic_edges := bld_panic_edges b
     @ map (\<lambda>kind. \<lparr>panic_from = from_block, panic_to = bld_panic_exit b, panic_edge_kind = kind\<rparr>) kinds\<rparr>"

text \<open>\<open>self.blocks[block].terminator = terminator\<close>.\<close>

definition set_terminator :: "nat \<Rightarrow> terminator \<Rightarrow> cfg_builder \<Rightarrow> cfg_builder option" where
  "set_terminator block t b =
     (if block < length (bld_blocks b)
      then Some (b\<lparr>bld_blocks := (bld_blocks b)[block :=
             ((bld_blocks b) ! block)\<lparr>block_terminator := t\<rparr>]\<rparr>)
      else None)"

definition new_builder :: "function_decl \<Rightarrow> string list \<Rightarrow> cfg_builder" where
  "new_builder f eligible =
     (let sites = snd (assign_statement_ids (fun_body f) [] (0, Map.empty));
          b = \<lparr>bld_eligible = eligible, bld_sites = sites, bld_blocks = [], bld_panic_edges = [],
               bld_exit = 0, bld_panic_exit = 0\<rparr>;
          (exit_block, b) = push_block [] TReturn b;
          b = b\<lparr>bld_exit := exit_block\<rparr>;
          (panic_exit, b) = push_block [] TPanic b
      in b\<lparr>bld_panic_exit := panic_exit\<rparr>)"

function build_sequence ::
    "nat \<Rightarrow> statement list \<Rightarrow> statement_path \<Rightarrow> nat \<Rightarrow> nat option \<Rightarrow> nat option
      \<Rightarrow> cfg_builder \<Rightarrow> (nat \<times> cfg_builder) option"
  and build_statement ::
    "statement \<Rightarrow> statement_path \<Rightarrow> nat \<Rightarrow> nat option \<Rightarrow> nat option
      \<Rightarrow> cfg_builder \<Rightarrow> (nat \<times> cfg_builder) option"
  and build_child_bodies ::
    "nat \<Rightarrow> statement list list \<Rightarrow> statement_path \<Rightarrow> nat \<Rightarrow> nat option \<Rightarrow> nat option
      \<Rightarrow> cfg_builder \<Rightarrow> (nat list \<times> cfg_builder) option"
where
  "build_sequence index [] prefix nxt break_target continue_target b = Some (nxt, b)"
| "build_sequence index (s # body) prefix nxt break_target continue_target b = do {
     (successor, b) \<leftarrow>
       build_sequence (Suc index) body prefix nxt break_target continue_target b;
     build_statement s (prefix @ [PathStatement index]) successor break_target continue_target b
   }"
| "build_statement s path nxt break_target continue_target b = do {
     statement_id \<leftarrow> bld_sites b path;
     let (operations, panic_kinds) = statement_operations s statement_id (bld_eligible b);
     let (block, b) = push_block operations TUnreachable b;
     (t, b) \<leftarrow> (case s of
         SLetIf _ _ _ body else_body \<Rightarrow> do {
           (targets, b) \<leftarrow>
             build_child_bodies 0 [body, else_body] path nxt break_target continue_target b;
           Some (TBranch (targets ! 0) (targets ! 1), b)
         }
       | SIf _ body else_body \<Rightarrow> do {
           (targets, b) \<leftarrow>
             build_child_bodies 0 [body, else_body] path nxt break_target continue_target b;
           Some (TBranch (targets ! 0) (targets ! 1), b)
         }
       | SLetMatch _ _ _ _ _ arms \<Rightarrow> do {
           (targets, b) \<leftarrow> build_child_bodies 0 (map stmt_arm_body arms) path nxt
              break_target continue_target b;
           Some (TSwitch targets, b)
         }
       | SMatch _ _ _ arms \<Rightarrow> do {
           (targets, b) \<leftarrow> build_child_bodies 0 (map stmt_arm_body arms) path nxt
              break_target continue_target b;
           Some (TSwitch targets, b)
         }
       | SLetElse _ _ _ _ _ _ else_body \<Rightarrow> do {
           (targets, b) \<leftarrow>
             build_child_bodies 0 [else_body] path nxt break_target continue_target b;
           Some (TBranch nxt (targets ! 0), b)
         }
       | SIfLet _ _ _ _ _ _ body else_body \<Rightarrow> (case else_body of
           None \<Rightarrow> do {
             (targets, b) \<leftarrow> build_child_bodies 0 [body] path nxt break_target continue_target b;
             Some (TBranch (targets ! 0) nxt, b)
           }
         | Some else_body \<Rightarrow> do {
             (targets, b) \<leftarrow>
               build_child_bodies 0 [body, else_body] path nxt break_target continue_target b;
             Some (TBranch (targets ! 0) (targets ! 1), b)
           })
       | STaskSelect arms \<Rightarrow> do {
           (targets, b) \<leftarrow> build_child_bodies 0 (map select_body arms) path nxt
              break_target continue_target b;
           Some (TSwitch targets, b)
         }
       | SLoop kind body \<Rightarrow> do {
           (targets, b) \<leftarrow> build_child_bodies 0 [body] path block (Some nxt) (Some block) b;
           Some (case kind of
                   LoopInfinite \<Rightarrow> TGoto (targets ! 0)
                 | _ \<Rightarrow> TBranch (targets ! 0) nxt, b)
         }
       | SBreak \<Rightarrow>
           Some (case break_target of None \<Rightarrow> TUnreachable | Some target \<Rightarrow> TGoto target, b)
       | SContinue \<Rightarrow>
           Some (case continue_target of None \<Rightarrow> TUnreachable | Some target \<Rightarrow> TGoto target, b)
       | SReturn _ \<Rightarrow> Some (TReturn, b)
       | SQuestionReturn _ _ _ _ _ _ \<Rightarrow> Some (TReturn, b)
       | SPanic _ \<Rightarrow> Some (TPanic, b)
       | SQuestionLet _ _ _ _ _ _ _ \<Rightarrow> Some (TBranch nxt (bld_exit b), b)
       | _ \<Rightarrow> Some (TGoto nxt, b));
     b \<leftarrow> set_terminator block t b;
     Some (block, add_panic_edges block panic_kinds b)
   }"
| "build_child_bodies branch [] path nxt break_target continue_target b = Some ([], b)"
| "build_child_bodies branch (child # children) path nxt break_target continue_target b = do {
     (target, b) \<leftarrow>
       build_sequence 0 child (path @ [PathBranch branch]) nxt break_target continue_target b;
     (targets, b) \<leftarrow>
       build_child_bodies (Suc branch) children path nxt break_target continue_target b;
     Some (target # targets, b)
   }"
  by pat_completeness auto
termination
  by (relation "measures [\<lambda>x. case x of
         Inl (_, body, _) \<Rightarrow> 2 * body_size body
       | Inr (Inl (s, _)) \<Rightarrow> Suc (2 * size s)
       | Inr (Inr (_, bodies, _)) \<Rightarrow> Suc (2 * bodies_size bodies),
       \<lambda>x. case x of Inl _ \<Rightarrow> 0 | Inr (Inl _) \<Rightarrow> Suc 0 | Inr (Inr (_, bodies, _)) \<Rightarrow> length bodies]")
    (use bodies_size_bounds in \<open>auto simp: body_size_def [symmetric] less_Suc_eq_le\<close>)

definition build_cfg :: "function_decl \<Rightarrow> cfg_builder \<Rightarrow> function_cfg option" where
  "build_cfg f b = do {
     (entry, b) \<leftarrow> build_sequence 0 (fun_body f) [] (bld_exit b) None None b;
     Some \<lparr>cfg_function = qualified_function_name f, cfg_entry = entry, cfg_exit = bld_exit b,
       cfg_panic_exit = bld_panic_exit b, cfg_blocks = bld_blocks b,
       cfg_panic_edges = bld_panic_edges b\<rparr>
   }"

end
