(* ===== verification/Mir_Graph.thy ===== *)
theory Mir_Graph
  imports Mir_Builder "HOL-Library.Multiset"
begin

text \<open>
  What \<open>CfgBuilder\<close> guarantees: building never panics, every block identifier is the index of its block,
  every jump and panic edge stays inside the graph, and the blocks are, besides the two exits, exactly
  one per statement, with the operations and panic kinds of that statement under its preorder number.

  The proof gives each layer of the builder (statement, sequence, nested bodies) the contract
  \<open>builds\<close>; a statement meets it when its nested bodies do, by \<open>build_statement_eq\<close>.
\<close>


definition child_context ::
    "statement \<Rightarrow> nat \<Rightarrow> nat \<Rightarrow> nat option \<Rightarrow> nat option \<Rightarrow> nat \<times> nat option \<times> nat option" where
  "child_context s block nxt break_target continue_target = (case s of
       SLoop _ _ \<Rightarrow> (block, Some nxt, Some block)
     | _ \<Rightarrow> (nxt, break_target, continue_target))"

definition terminator_of ::
    "statement \<Rightarrow> nat list \<Rightarrow> nat \<Rightarrow> nat option \<Rightarrow> nat option \<Rightarrow> nat \<Rightarrow> terminator" where
  "terminator_of s targets nxt break_target continue_target exit_block = (case s of
       SLetIf _ _ _ _ _ \<Rightarrow> TBranch (targets ! 0) (targets ! 1)
     | SIf _ _ _ \<Rightarrow> TBranch (targets ! 0) (targets ! 1)
     | SLetMatch _ _ _ _ _ _ \<Rightarrow> TSwitch targets
     | SMatch _ _ _ _ \<Rightarrow> TSwitch targets
     | SLetElse _ _ _ _ _ _ _ \<Rightarrow> TBranch nxt (targets ! 0)
     | SIfLet _ _ _ _ _ _ _ else_body \<Rightarrow>
         TBranch (targets ! 0) (case else_body of None \<Rightarrow> nxt | Some _ \<Rightarrow> targets ! 1)
     | STaskSelect _ \<Rightarrow> TSwitch targets
     | SLoop kind _ \<Rightarrow>
         (case kind of LoopInfinite \<Rightarrow> TGoto (targets ! 0) | _ \<Rightarrow> TBranch (targets ! 0) nxt)
     | SBreak \<Rightarrow> (case break_target of None \<Rightarrow> TUnreachable | Some target \<Rightarrow> TGoto target)
     | SContinue \<Rightarrow> (case continue_target of None \<Rightarrow> TUnreachable | Some target \<Rightarrow> TGoto target)
     | SReturn _ \<Rightarrow> TReturn
     | SQuestionReturn _ _ _ _ _ _ \<Rightarrow> TReturn
     | SPanic _ \<Rightarrow> TPanic
     | SQuestionLet _ _ _ _ _ _ _ \<Rightarrow> TBranch nxt exit_block
     | _ \<Rightarrow> TGoto nxt)"

declare build_statement.simps [simp del]

lemma push_block_exit [simp]: "push_block ops t b = (k, b') \<Longrightarrow> bld_exit b' = bld_exit b"
  by (auto simp: push_block_def Let_def)

lemma build_statement_eq:
  "build_statement s path nxt break_target continue_target b = do {
     statement_id \<leftarrow> bld_sites b path;
     let (operations, panic_kinds) = statement_operations s statement_id (bld_eligible b);
     let (block, b1) = push_block operations TUnreachable b;
     let (child_next, child_break, child_continue) =
       child_context s block nxt break_target continue_target;
     (targets, b2) \<leftarrow>
       build_child_bodies 0 (statement_bodies s) path child_next child_break child_continue b1;
     b3 \<leftarrow> set_terminator block
       (terminator_of s targets nxt break_target continue_target (bld_exit b)) b2;
     Some (block, add_panic_edges block panic_kinds b3)
   }"
proof (cases "bld_sites b path")
  case (Some i)
  obtain ops kinds where so: "statement_operations s i (bld_eligible b) = (ops, kinds)"
    by fastforce
  obtain block b1 where pb: "push_block ops TUnreachable b = (block, b1)"
    by fastforce
  show ?thesis
    by (subst build_statement.simps, simp only: Some so pb Let_def option.simps bind.simps prod.case)
      (cases s; simp add: pb statement_bodies_def child_context_def terminator_of_def bind_assoc
        case_prod_unfold push_block_exit [OF pb] split: option.split loop_kind.split)
qed (subst build_statement.simps, simp)


text \<open>The statements below a position with their paths, in preorder.\<close>

function sequence_sites ::
    "nat \<Rightarrow> statement list \<Rightarrow> statement_path \<Rightarrow> (statement_path \<times> statement) list"
  and branch_sites ::
    "nat \<Rightarrow> statement list list \<Rightarrow> statement_path \<Rightarrow> (statement_path \<times> statement) list" where
  "sequence_sites i [] p = []"
| "sequence_sites i (s # body) p =
     (p @ [PathStatement i], s)
       # branch_sites 0 (statement_bodies s) (p @ [PathStatement i]) @ sequence_sites (Suc i) body p"
| "branch_sites j [] p = []"
| "branch_sites j (b # bs) p = sequence_sites 0 b (p @ [PathBranch j]) @ branch_sites (Suc j) bs p"
  by pat_completeness auto
termination
  by (relation "measures [\<lambda>x. case x of
         Inl (_, body, _) \<Rightarrow> 2 * body_size body
       | Inr (_, bodies, _) \<Rightarrow> Suc (2 * bodies_size bodies),
       \<lambda>x. case x of Inl _ \<Rightarrow> 0 | Inr (_, bodies, _) \<Rightarrow> length bodies]")
    (use size_statement_bodies in \<open>auto simp: less_Suc_eq_le intro: le_trans trans_le_add1\<close>)

definition kinds_from :: "panic_edge list \<Rightarrow> nat \<Rightarrow> panic_kind list" where
  "kinds_from E k = map panic_edge_kind (filter (\<lambda>e. panic_from e = k) E)"

definition block_content :: "panic_edge list \<Rightarrow> basic_block \<Rightarrow> operation list \<times> panic_kind list" where
  "block_content E blk = (block_operations blk, kinds_from E (block_id blk))"

definition site_content ::
    "statement_sites \<Rightarrow> string list \<Rightarrow> statement_path \<times> statement \<Rightarrow> operation list \<times> panic_kind list" where
  "site_content sites eligible x = statement_operations (snd x) (the (sites (fst x))) eligible"

definition same_frame :: "cfg_builder \<Rightarrow> cfg_builder \<Rightarrow> bool" where
  "same_frame b b' \<longleftrightarrow> bld_eligible b' = bld_eligible b \<and> bld_sites b' = bld_sites b
     \<and> bld_exit b' = bld_exit b \<and> bld_panic_exit b' = bld_panic_exit b"

definition new_blocks_ok ::
    "cfg_builder \<Rightarrow> cfg_builder \<Rightarrow> basic_block list \<Rightarrow> panic_edge list \<Rightarrow> bool" where
  "new_blocks_ok b b' N E \<longleftrightarrow>
     map block_id N = [length (bld_blocks b)..<length (bld_blocks b')]
     \<and> (\<forall>blk \<in> set N. \<forall>t \<in> set (successors_of (block_terminator blk)). t < length (bld_blocks b'))
     \<and> (\<forall>e \<in> set E. panic_to e = bld_panic_exit b
          \<and> length (bld_blocks b) \<le> panic_from e \<and> panic_from e < length (bld_blocks b'))"

definition builder_extends ::
    "(statement_path \<times> statement) list \<Rightarrow> cfg_builder \<Rightarrow> cfg_builder \<Rightarrow> bool" where
  "builder_extends L b b' \<longleftrightarrow> same_frame b b' \<and>
     (\<exists>N E. bld_blocks b' = bld_blocks b @ N \<and> bld_panic_edges b' = bld_panic_edges b @ E
        \<and> new_blocks_ok b b' N E
        \<and> mset (map (block_content E) N) = mset (map (site_content (bld_sites b) (bld_eligible b)) L))"

lemma kinds_from_append: "kinds_from (E @ F) k = kinds_from E k @ kinds_from F k"
  by (simp add: kinds_from_def)

lemma kinds_from_Nil: "\<forall>e \<in> set E. panic_from e \<noteq> k \<Longrightarrow> kinds_from E k = []"
  by (simp add: kinds_from_def filter_empty_conv)

lemma kinds_from_new:
  "kinds_from (map (\<lambda>kind. \<lparr>panic_from = n, panic_to = x, panic_edge_kind = kind\<rparr>) kinds) k
     = (if k = n then kinds else [])"
  by (induction kinds) (auto simp: kinds_from_def)

lemma new_blocks_ids: "new_blocks_ok b b' N E \<Longrightarrow> blk \<in> set N
   \<Longrightarrow> length (bld_blocks b) \<le> block_id blk \<and> block_id blk < length (bld_blocks b')"
  unfolding new_blocks_ok_def by (metis atLeastLessThan_iff image_eqI list.set_map set_upt)

lemma new_blocks_edges: "new_blocks_ok b b' N E \<Longrightarrow> e \<in> set E
   \<Longrightarrow> panic_to e = bld_panic_exit b
     \<and> length (bld_blocks b) \<le> panic_from e \<and> panic_from e < length (bld_blocks b')"
  by (simp add: new_blocks_ok_def)

lemma builder_extends_refl: "builder_extends [] b b"
  by (auto simp: builder_extends_def same_frame_def new_blocks_ok_def)

lemma builder_extends_length: "builder_extends L b b' \<Longrightarrow> length (bld_blocks b) \<le> length (bld_blocks b')"
  by (auto simp: builder_extends_def)

lemma builder_extends_frame: "builder_extends L b b' \<Longrightarrow> same_frame b b'"
  by (simp add: builder_extends_def)

lemma upt_split: "i \<le> j \<Longrightarrow> j \<le> k \<Longrightarrow> [i..<k] = [i..<j] @ [j..<k]"
  using upt_add_eq_append [of i j "k - j"] by simp

lemma builder_extends_trans:
  assumes "builder_extends L b1 b2" "builder_extends M b2 b3"
  shows "builder_extends (L @ M) b1 b3"
proof -
  obtain N1 E1 where 1: "same_frame b1 b2" "bld_blocks b2 = bld_blocks b1 @ N1"
      "bld_panic_edges b2 = bld_panic_edges b1 @ E1" "new_blocks_ok b1 b2 N1 E1"
      "mset (map (block_content E1) N1) = mset (map (site_content (bld_sites b1) (bld_eligible b1)) L)"
    using assms(1) unfolding builder_extends_def by blast
  obtain N2 E2 where 2: "same_frame b2 b3" "bld_blocks b3 = bld_blocks b2 @ N2"
      "bld_panic_edges b3 = bld_panic_edges b2 @ E2" "new_blocks_ok b2 b3 N2 E2"
      "mset (map (block_content E2) N2) = mset (map (site_content (bld_sites b2) (bld_eligible b2)) M)"
    using assms(2) unfolding builder_extends_def by blast
  have c1: "map (block_content (E1 @ E2)) N1 = map (block_content E1) N1"
  proof (rule map_cong [OF refl])
    fix blk assume "blk \<in> set N1"
    then have "kinds_from E2 (block_id blk) = []"
      using new_blocks_ids [OF 1(4)] 2(4) by (intro kinds_from_Nil) (fastforce simp: new_blocks_ok_def)
    then show "block_content (E1 @ E2) blk = block_content E1 blk"
      by (simp add: block_content_def kinds_from_append)
  qed
  have c2: "map (block_content (E1 @ E2)) N2 = map (block_content E2) N2"
  proof (rule map_cong [OF refl])
    fix blk assume "blk \<in> set N2"
    then have "kinds_from E1 (block_id blk) = []"
      using new_blocks_ids [OF 2(4)] 1(4) by (intro kinds_from_Nil) (fastforce simp: new_blocks_ok_def)
    then show "block_content (E1 @ E2) blk = block_content E2 blk"
      by (simp add: block_content_def kinds_from_append)
  qed
  have le: "length (bld_blocks b1) \<le> length (bld_blocks b2)"
      "length (bld_blocks b2) \<le> length (bld_blocks b3)"
    using 1(2) 2(2) by simp_all
  have "[length (bld_blocks b1)..<length (bld_blocks b3)]
      = [length (bld_blocks b1)..<length (bld_blocks b2)]
        @ [length (bld_blocks b2)..<length (bld_blocks b3)]"
    using le by (rule upt_split)
  moreover have "bld_panic_exit b2 = bld_panic_exit b1"
    using 1(1) by (simp add: same_frame_def)
  ultimately have ok: "new_blocks_ok b1 b3 (N1 @ N2) (E1 @ E2)"
    using 1(4) 2(4) le unfolding new_blocks_ok_def map_append set_append
    by (auto intro: less_le_trans le_trans)
  have frame: "same_frame b1 b3" "bld_sites b2 = bld_sites b1" "bld_eligible b2 = bld_eligible b1"
    using 1(1) 2(1) by (simp_all add: same_frame_def)
  have "mset (map (block_content (E1 @ E2)) (N1 @ N2))
      = mset (map (site_content (bld_sites b1) (bld_eligible b1)) (L @ M))"
    by (simp only: map_append mset_append c1 c2 1(5) 2(5) frame(2,3))
  then show ?thesis
    unfolding builder_extends_def
    using frame(1) ok 1(2,3) 2(2,3)
    by (intro conjI exI [of _ "N1 @ N2"] exI [of _ "E1 @ E2"]) (simp_all only: append_assoc)
qed

text \<open>Pushing a block and completing its terminator and panic edges after its children were built.\<close>

lemma builder_extends_block:
  assumes pb: "push_block ops TUnreachable b = (block, b1)"
    and ext: "builder_extends L b1 b2"
    and st: "set_terminator block t b2 = Some b3"
    and t: "\<And>x. x \<in> set (successors_of t) \<Longrightarrow> x < length (bld_blocks b2)"
    and ops: "(ops, kinds) = site_content (bld_sites b) (bld_eligible b) (path, s)"
  shows "builder_extends ((path, s) # L) b (add_panic_edges block kinds b3)"
proof -
  let ?n = "length (bld_blocks b)"
  let ?blk = "\<lparr>block_id = ?n, block_operations = ops, block_terminator = t\<rparr>"
  have b1: "block = ?n" "b1 = b\<lparr>bld_blocks := bld_blocks b
      @ [\<lparr>block_id = ?n, block_operations = ops, block_terminator = TUnreachable\<rparr>]\<rparr>"
    using pb by (auto simp: push_block_def Let_def)
  obtain N E where ext': "same_frame b1 b2" "bld_blocks b2 = bld_blocks b1 @ N"
      "bld_panic_edges b2 = bld_panic_edges b1 @ E" "new_blocks_ok b1 b2 N E"
      "mset (map (block_content E) N) = mset (map (site_content (bld_sites b1) (bld_eligible b1)) L)"
    using ext unfolding builder_extends_def by blast
  let ?F = "map (\<lambda>kind. \<lparr>panic_from = ?n, panic_to = bld_panic_exit b, panic_edge_kind = kind\<rparr>) kinds"
  let ?b4 = "add_panic_edges block kinds b3"
  have b2: "bld_blocks b2 = bld_blocks b
      @ \<lparr>block_id = ?n, block_operations = ops, block_terminator = TUnreachable\<rparr> # N"
    using ext'(2) b1 by simp
  have b3: "b3 = b2\<lparr>bld_blocks := bld_blocks b @ ?blk # N\<rparr>"
    using st b2 b1(1) by (simp add: set_terminator_def)
  have b4: "bld_blocks ?b4 = bld_blocks b @ ?blk # N" "bld_panic_edges ?b4 = bld_panic_edges b @ E @ ?F"
    and frame: "same_frame b ?b4"
    using ext'(1,3) b1 by (simp_all add: b3 add_panic_edges_def same_frame_def)
  have kF: "kinds_from ?F ?n = kinds" "\<And>k. k \<noteq> ?n \<Longrightarrow> kinds_from ?F k = []"
    by (simp_all add: kinds_from_new)
  have len1: "length (bld_blocks b1) = Suc ?n" "bld_panic_exit b1 = bld_panic_exit b"
    using b1(2) by simp_all
  have "panic_from e \<noteq> ?n" if "e \<in> set E" for e
    using new_blocks_edges [OF ext'(4) that] len1(1) by linarith
  then have "kinds_from E ?n = []"
    by (intro kinds_from_Nil) blast
  then have c1: "block_content (E @ ?F) ?blk = (ops, kinds)"
    by (simp add: block_content_def kinds_from_append kF)
  have c2: "map (block_content (E @ ?F)) N = map (block_content E) N"
  proof (rule map_cong [OF refl])
    fix blk assume "blk \<in> set N"
    then have "block_id blk \<noteq> ?n"
      using new_blocks_ids [OF ext'(4)] len1(1) by fastforce
    then show "block_content (E @ ?F) blk = block_content E blk"
      by (simp add: block_content_def kinds_from_append kF)
  qed
  have len: "length (bld_blocks ?b4) = length (bld_blocks b2)" "?n < length (bld_blocks b2)"
    using b4(1) b2 by simp_all
  have "[?n..<length (bld_blocks b2)] = ?n # [Suc ?n..<length (bld_blocks b2)]"
    using len(2) by (rule upt_conv_Cons)
  then have "new_blocks_ok b ?b4 (?blk # N) (E @ ?F)"
    using ext'(4) t len(2) unfolding new_blocks_ok_def len(1) len1
    by auto
  moreover have "bld_sites b1 = bld_sites b" "bld_eligible b1 = bld_eligible b"
    by (simp_all add: b1)
  then have "mset (map (block_content (E @ ?F)) (?blk # N))
      = mset (map (site_content (bld_sites b) (bld_eligible b)) ((path, s) # L))"
    by (simp only: list.map mset.simps c1 c2 ext'(5) ops)
  ultimately show ?thesis
    unfolding builder_extends_def
    using b4 frame by blast
qed

lemma builder_extends_mset: "builder_extends L b b' \<Longrightarrow> mset L = mset M \<Longrightarrow> builder_extends M b b'"
  unfolding builder_extends_def by (metis mset_map)

definition sites_cover :: "cfg_builder \<Rightarrow> (statement_path \<times> statement) list \<Rightarrow> bool" where
  "sites_cover b L \<longleftrightarrow> (\<forall>x \<in> set L. bld_sites b (fst x) \<noteq> None)"

definition targets_ok :: "cfg_builder \<Rightarrow> nat \<Rightarrow> nat option \<Rightarrow> nat option \<Rightarrow> bool" where
  "targets_ok b nxt break_target continue_target \<longleftrightarrow>
     nxt < length (bld_blocks b) \<and> bld_exit b < length (bld_blocks b)
     \<and> (\<forall>t. break_target = Some t \<longrightarrow> t < length (bld_blocks b))
     \<and> (\<forall>t. continue_target = Some t \<longrightarrow> t < length (bld_blocks b))"

definition builds :: "(statement_path \<times> statement) list \<Rightarrow> cfg_builder
    \<Rightarrow> (cfg_builder \<Rightarrow> 'r \<Rightarrow> bool) \<Rightarrow> ('r \<times> cfg_builder) option \<Rightarrow> bool" where
  "builds L b Q r \<longleftrightarrow> (\<exists>x b'. r = Some (x, b') \<and> builder_extends L b b' \<and> Q b' x)"

definition block_target :: "cfg_builder \<Rightarrow> nat \<Rightarrow> bool" where
  "block_target b t \<longleftrightarrow> t < length (bld_blocks b)"

definition block_targets :: "nat \<Rightarrow> cfg_builder \<Rightarrow> nat list \<Rightarrow> bool" where
  "block_targets n b ts \<longleftrightarrow> length ts = n \<and> (\<forall>t \<in> set ts. block_target b t)"

lemma sites_cover_append [simp]: "sites_cover b (L @ M) \<longleftrightarrow> sites_cover b L \<and> sites_cover b M"
  by (auto simp: sites_cover_def)

lemma sites_cover_Cons [simp]:
  "sites_cover b (x # L) \<longleftrightarrow> bld_sites b (fst x) \<noteq> None \<and> sites_cover b L"
  by (auto simp: sites_cover_def)

lemma sites_cover_frame: "same_frame b b' \<Longrightarrow> sites_cover b' L = sites_cover b L"
  by (simp add: sites_cover_def same_frame_def)

lemma targets_ok_extends:
  "builder_extends L b b' \<Longrightarrow> targets_ok b nxt bt ct \<Longrightarrow> targets_ok b' nxt bt ct"
  using builder_extends_length [of L b b'] builder_extends_frame [of L b b']
  by (auto simp: targets_ok_def same_frame_def)

lemma block_target_extends: "builder_extends L b b' \<Longrightarrow> block_target b t \<Longrightarrow> block_target b' t"
  using builder_extends_length [of L b b'] by (simp add: block_target_def)

text \<open>Each layer of the builder meets its contract when the layer below does.\<close>

lemma build_sequence_builds:
  assumes "\<And>s p nxt bt ct b. s \<in> set body \<Longrightarrow>
      sites_cover b ((p, s) # branch_sites 0 (statement_bodies s) p) \<Longrightarrow> targets_ok b nxt bt ct \<Longrightarrow>
      builds ((p, s) # branch_sites 0 (statement_bodies s) p) b block_target
        (build_statement s p nxt bt ct b)"
    and "sites_cover b (sequence_sites i body p)" "targets_ok b nxt bt ct"
  shows "builds (sequence_sites i body p) b block_target (build_sequence i body p nxt bt ct b)"
  using assms
proof (induction body arbitrary: i)
  case Nil
  then show ?case
    by (auto simp: builds_def block_target_def targets_ok_def intro: builder_extends_refl)
next
  case (Cons s body)
  let ?L = "sequence_sites (Suc i) body p"
  let ?q = "p @ [PathStatement i]"
  let ?S = "(?q, s) # branch_sites 0 (statement_bodies s) ?q"
  have "builds ?L b block_target (build_sequence (Suc i) body p nxt bt ct b)"
    using Cons.prems by (intro Cons.IH) auto
  then obtain e b1 where 1: "build_sequence (Suc i) body p nxt bt ct b = Some (e, b1)"
      "builder_extends ?L b b1" "block_target b1 e"
    by (auto simp: builds_def)
  have "targets_ok b1 e bt ct"
    using targets_ok_extends [OF 1(2) Cons.prems(3)] 1(3) by (simp add: targets_ok_def block_target_def)
  moreover have "sites_cover b1 ?S"
    unfolding sites_cover_frame [OF builder_extends_frame [OF 1(2)]] using Cons.prems(2) by simp
  ultimately have "builds ?S b1 block_target (build_statement s ?q e bt ct b1)"
    by (intro Cons.prems(1)) auto
  then obtain x b2 where 2: "build_statement s ?q e bt ct b1 = Some (x, b2)"
      "builder_extends ?S b1 b2" "block_target b2 x"
    by (auto simp: builds_def)
  have "builder_extends (sequence_sites i (s # body) p) b b2"
    by (rule builder_extends_mset [OF builder_extends_trans [OF 1(2) 2(2)]]) simp
  then show ?case
    using 1(1) 2(1,3) by (auto simp: builds_def)
qed

lemma build_child_bodies_builds:
  assumes "\<And>c i p b. c \<in> set children \<Longrightarrow> sites_cover b (sequence_sites i c p) \<Longrightarrow>
      targets_ok b nxt bt ct \<Longrightarrow>
      builds (sequence_sites i c p) b block_target (build_sequence i c p nxt bt ct b)"
    and "sites_cover b (branch_sites j children p)" "targets_ok b nxt bt ct"
  shows "builds (branch_sites j children p) b (block_targets (length children))
    (build_child_bodies j children p nxt bt ct b)"
  using assms
proof (induction children arbitrary: j b)
  case Nil
  then show ?case by (auto simp: builds_def block_targets_def intro: builder_extends_refl)
next
  case (Cons c children)
  let ?C = "sequence_sites 0 c (p @ [PathBranch j])"
  let ?L = "branch_sites (Suc j) children p"
  have "builds ?C b block_target (build_sequence 0 c (p @ [PathBranch j]) nxt bt ct b)"
    using Cons.prems by (intro Cons.prems(1)) auto
  then obtain e b1 where 1: "build_sequence 0 c (p @ [PathBranch j]) nxt bt ct b = Some (e, b1)"
      "builder_extends ?C b b1" "block_target b1 e"
    by (auto simp: builds_def)
  have "builds ?L b1 (block_targets (length children))
      (build_child_bodies (Suc j) children p nxt bt ct b1)"
    using Cons.prems 1(2) sites_cover_frame [OF builder_extends_frame [OF 1(2)]]
    by (intro Cons.IH) (auto intro: targets_ok_extends)
  then obtain es b2 where 2: "build_child_bodies (Suc j) children p nxt bt ct b1 = Some (es, b2)"
      "builder_extends ?L b1 b2" "block_targets (length children) b2 es"
    by (auto simp: builds_def)
  show ?case
    using 1 2 builder_extends_trans [OF 1(2) 2(2)] block_target_extends [OF 2(2) 1(3)]
    by (auto simp: builds_def block_targets_def)
qed

text \<open>The number of bodies covers the targets that the terminator reads.\<close>

lemma terminator_of_targets:
  assumes "length targets = length (statement_bodies s)"
    and "x \<in> set (successors_of (terminator_of s targets nxt bt ct exit_block))"
  shows "x \<in> set targets \<or> x = nxt \<or> bt = Some x \<or> ct = Some x \<or> x = exit_block"
  using assms
  by (cases s) (auto simp: terminator_of_def successors_of_def statement_bodies_def
      split: option.splits loop_kind.splits)

lemma build_statement_builds:
  assumes children: "\<And>nxt bt ct b. sites_cover b (branch_sites 0 (statement_bodies s) p) \<Longrightarrow>
      targets_ok b nxt bt ct \<Longrightarrow>
      builds (branch_sites 0 (statement_bodies s) p) b (block_targets (length (statement_bodies s)))
        (build_child_bodies 0 (statement_bodies s) p nxt bt ct b)"
    and cover: "sites_cover b ((p, s) # branch_sites 0 (statement_bodies s) p)"
    and ok: "targets_ok b nxt bt ct"
  shows "builds ((p, s) # branch_sites 0 (statement_bodies s) p) b block_target
    (build_statement s p nxt bt ct b)"
proof -
  obtain i where i: "bld_sites b p = Some i" using cover by auto
  obtain ops kinds where so: "statement_operations s i (bld_eligible b) = (ops, kinds)"
    by fastforce
  obtain block b1 where pb: "push_block ops TUnreachable b = (block, b1)"
    by fastforce
  obtain cn cb cc where ctx: "child_context s block nxt bt ct = (cn, cb, cc)"
    by (metis prod_cases3)
  let ?L = "branch_sites 0 (statement_bodies s) p"
  have b1: "block = length (bld_blocks b)" "length (bld_blocks b1) = Suc (length (bld_blocks b))"
      "bld_sites b1 = bld_sites b" "bld_exit b1 = bld_exit b"
    using pb by (auto simp: push_block_def Let_def)
  have "targets_ok b1 cn cb cc"
    using ok ctx b1 by (auto simp: targets_ok_def child_context_def split: statement.splits)
  moreover have "sites_cover b1 ?L"
    using cover b1(3) by (simp add: sites_cover_def)
  ultimately have "builds ?L b1 (block_targets (length (statement_bodies s)))
      (build_child_bodies 0 (statement_bodies s) p cn cb cc b1)"
    by (intro children)
  then obtain ts b2 where cb: "build_child_bodies 0 (statement_bodies s) p cn cb cc b1 = Some (ts, b2)"
      "builder_extends ?L b1 b2" "block_targets (length (statement_bodies s)) b2 ts"
    by (auto simp: builds_def)
  let ?t = "terminator_of s ts nxt bt ct (bld_exit b)"
  have len: "length (bld_blocks b1) \<le> length (bld_blocks b2)"
    using builder_extends_length [OF cb(2)] .
  obtain b3 where st: "set_terminator block ?t b2 = Some b3"
    using len b1 by (auto simp: set_terminator_def)
  have targets: "x < length (bld_blocks b2)" if "x \<in> set (successors_of ?t)" for x
    using terminator_of_targets [OF _ that] cb(3) ok len b1(2)
    by (auto simp: block_targets_def block_target_def targets_ok_def less_Suc_eq_le)
  have "builder_extends ((p, s) # ?L) b (add_panic_edges block kinds b3)"
    using builder_extends_block [OF pb cb(2) st targets] so i by (simp add: site_content_def)
  moreover have "block_target (add_panic_edges block kinds b3) block"
    using st b1 by (auto simp: block_target_def add_panic_edges_def set_terminator_def split: if_splits)
  ultimately show ?thesis
    by (auto simp: builds_def build_statement_eq i so pb ctx cb(1) st)
qed

lemma build_sequence_total:
  assumes "sites_cover b (sequence_sites i body p)" "targets_ok b nxt bt ct"
  shows "builds (sequence_sites i body p) b block_target (build_sequence i body p nxt bt ct b)"
  using assms
proof (induction body arbitrary: i p nxt bt ct b rule: body_induct)
  case (body body)
  show ?case
    by (rule build_sequence_builds [OF build_statement_builds [OF build_child_bodies_builds [OF body.IH]]])
      (use body.prems in auto)
qed

section \<open>Numbering\<close>

function preorder :: "statement list \<Rightarrow> statement list" where
  "preorder [] = []"
| "preorder (s # body) = s # concat (map preorder (statement_bodies s)) @ preorder body"
  by pat_completeness auto
termination
  by (relation "measure body_size") (auto dest: statement_bodies_size)

lemma map_snd_sites:
  "map snd (sequence_sites i body p) = preorder body"
  "map snd (branch_sites j bodies p) = concat (map preorder bodies)"
  by (induction i body p and j bodies p rule: sequence_sites_branch_sites.induct) auto

definition register_site ::
    "statement_path \<times> statement \<Rightarrow> u32 \<times> statement_sites \<Rightarrow> u32 \<times> statement_sites" where
  "register_site x st = (fst st + 1, (snd st)(fst x \<mapsto> fst st))"

lemma assign_statements_fold:
  "assign_statements i body p st = fold register_site (sequence_sites i body p) st"
  "assign_branches j bodies p st = fold register_site (branch_sites j bodies p) st"
  by (induction i body p st and j bodies p st rule: assign_statements_assign_branches.induct)
    (auto simp: register_site_def Let_def)

lemma fold_register_site:
  assumes "distinct (map fst L)"
  shows "fst (fold register_site L (n, m)) = n + of_nat (length L)
    \<and> (\<forall>k < length L. snd (fold register_site L (n, m)) (fst (L ! k)) = Some (n + of_nat k))
    \<and> (\<forall>q. q \<notin> fst ` set L \<longrightarrow> snd (fold register_site L (n, m)) q = m q)"
  using assms
proof (induction L arbitrary: n m)
  case (Cons x L)
  let ?m = "m(fst x \<mapsto> n)"
  have IH: "fst (fold register_site L (n + 1, ?m)) = n + 1 + of_nat (length L)
      \<and> (\<forall>k < length L. snd (fold register_site L (n + 1, ?m)) (fst (L ! k)) = Some (n + 1 + of_nat k))
      \<and> (\<forall>q. q \<notin> fst ` set L \<longrightarrow> snd (fold register_site L (n + 1, ?m)) q = ?m q)"
    using Cons.prems by (intro Cons.IH) simp
  have step: "fold register_site (x # L) (n, m) = fold register_site L (n + 1, ?m)"
    by (simp add: register_site_def)
  have "snd (fold register_site L (n + 1, ?m)) (fst ((x # L) ! k)) = Some (n + of_nat k)"
    if "k < length (x # L)" for k
  proof (cases k)
    case 0
    then show ?thesis using IH Cons.prems by auto
  next
    case (Suc j)
    then show ?thesis using IH that by (simp add: algebra_simps)
  qed
  then show ?case
    unfolding step using IH by (auto simp: algebra_simps)
qed simp

lemma site_paths:
  "x \<in> fst ` set (sequence_sites i body p) \<Longrightarrow> \<exists>k r. x = p @ PathStatement k # r \<and> i \<le> k"
  "y \<in> fst ` set (branch_sites j bodies p) \<Longrightarrow> \<exists>k r. y = p @ PathBranch k # r \<and> j \<le> k"
  by (induction i body p and j bodies p arbitrary: x and y rule: sequence_sites_branch_sites.induct)
    (fastforce dest: Suc_leD)+

lemma distinct_site_paths:
  "distinct (map fst (sequence_sites i body p))"
  "distinct (map fst (branch_sites j bodies p))"
proof (induction i body p and j bodies p rule: sequence_sites_branch_sites.induct)
  case (2 i s body p)
  then show ?case
    using site_paths(1) [where i = "Suc i" and body = body and p = p]
      site_paths(2) [where j = 0 and bodies = "statement_bodies s" and p = "p @ [PathStatement i]"]
    by (fastforce simp: image_iff)
next
  case (4 j b bs p)
  then show ?case
    using site_paths(1) [where i = 0 and body = b and p = "p @ [PathBranch j]"]
      site_paths(2) [where j = "Suc j" and bodies = bs and p = p]
    by (fastforce simp: image_iff)
qed auto

section \<open>The graph of a function\<close>

definition cfg_wf :: "function_cfg \<Rightarrow> bool" where
  "cfg_wf cfg \<longleftrightarrow>
     map block_id (cfg_blocks cfg) = [0..<length (cfg_blocks cfg)]
     \<and> cfg_entry cfg < length (cfg_blocks cfg)
     \<and> cfg_exit cfg < length (cfg_blocks cfg)
     \<and> cfg_panic_exit cfg < length (cfg_blocks cfg)
     \<and> (\<forall>blk \<in> set (cfg_blocks cfg). \<forall>t \<in> set (successors_of (block_terminator blk)).
          t < length (cfg_blocks cfg))
     \<and> (\<forall>e \<in> set (cfg_panic_edges cfg).
          panic_from e < length (cfg_blocks cfg) \<and> panic_to e = cfg_panic_exit cfg)"

definition numbered_contents ::
    "string list \<Rightarrow> statement list \<Rightarrow> (operation list \<times> panic_kind list) list" where
  "numbered_contents eligible body =
     map (\<lambda>(k, s). statement_operations s (of_nat k) eligible) (enumerate 0 (preorder body))"

lemma new_builder_simps:
  "bld_blocks (new_builder f eligible) =
     [\<lparr>block_id = 0, block_operations = [], block_terminator = TReturn\<rparr>,
      \<lparr>block_id = 1, block_operations = [], block_terminator = TPanic\<rparr>]"
  "bld_panic_edges (new_builder f eligible) = []"
  "bld_exit (new_builder f eligible) = 0"
  "bld_panic_exit (new_builder f eligible) = 1"
  "bld_eligible (new_builder f eligible) = eligible"
  "bld_sites (new_builder f eligible) = snd (assign_statement_ids (fun_body f) [] (0, Map.empty))"
  by (simp_all add: new_builder_def push_block_def Let_def)

lemma new_builder_sites:
  assumes "k < length (preorder (fun_body f))"
  shows "bld_sites (new_builder f eligible) (fst (sequence_sites 0 (fun_body f) [] ! k))
    = Some (of_nat k)"
proof -
  let ?L = "sequence_sites 0 (fun_body f) []"
  have "k < length ?L"
    using assms map_snd_sites(1) [of 0 "fun_body f" "[]"] by (metis length_map)
  then show ?thesis
    using fold_register_site [OF distinct_site_paths(1) [of 0 "fun_body f" "[]"], of 0 Map.empty]
    by (simp add: new_builder_simps assign_statement_ids_def assign_statements_fold)
qed

lemma site_contents_numbered:
  "map (site_content (bld_sites (new_builder f eligible)) eligible) (sequence_sites 0 (fun_body f) [])
     = numbered_contents eligible (fun_body f)"
proof (rule nth_equalityI)
  let ?L = "sequence_sites 0 (fun_body f) []"
  have snd: "map snd ?L = preorder (fun_body f)" by (rule map_snd_sites)
  have len: "length ?L = length (preorder (fun_body f))"
    using snd by (metis length_map)
  then show "length (map (site_content (bld_sites (new_builder f eligible)) eligible) ?L)
      = length (numbered_contents eligible (fun_body f))"
    by (simp add: numbered_contents_def)
  fix k assume "k < length (map (site_content (bld_sites (new_builder f eligible)) eligible) ?L)"
  then have k: "k < length (preorder (fun_body f))" using len by simp
  then have "snd (?L ! k) = preorder (fun_body f) ! k"
    using snd len by (metis nth_map)
  then show "map (site_content (bld_sites (new_builder f eligible)) eligible) ?L ! k
      = numbered_contents eligible (fun_body f) ! k"
    using k len new_builder_sites [OF k, of eligible]
    by (simp add: site_content_def numbered_contents_def nth_enumerate_eq)
qed

lemma new_builder_cover: "sites_cover (new_builder f eligible) (sequence_sites 0 (fun_body f) [])"
proof -
  have "bld_sites (new_builder f eligible) (fst x) \<noteq> None"
    if x: "x \<in> set (sequence_sites 0 (fun_body f) [])" for x
  proof -
    obtain k where "k < length (sequence_sites 0 (fun_body f) [])"
        "x = sequence_sites 0 (fun_body f) [] ! k"
      using x by (metis in_set_conv_nth)
    moreover have "length (sequence_sites 0 (fun_body f) []) = length (preorder (fun_body f))"
      using map_snd_sites(1) by (metis length_map)
    ultimately show ?thesis using new_builder_sites by simp
  qed
  then show ?thesis by (simp add: sites_cover_def)
qed

lemma build_cfg_spec:
  "\<exists>cfg. build_cfg f (new_builder f eligible) = Some cfg \<and> cfg_wf cfg
     \<and> mset (map (block_content (cfg_panic_edges cfg)) (cfg_blocks cfg))
       = mset (([], []) # ([], []) # numbered_contents eligible (fun_body f))"
proof -
  let ?b = "new_builder f eligible"
  let ?L = "sequence_sites 0 (fun_body f) []"
  have "targets_ok ?b (bld_exit ?b) None None"
    by (simp add: targets_ok_def new_builder_simps)
  then obtain e b' where r: "build_sequence 0 (fun_body f) [] (bld_exit ?b) None None ?b = Some (e, b')"
      "builder_extends ?L ?b b'" "block_target b' e"
    using build_sequence_total [OF new_builder_cover] unfolding builds_def by blast
  obtain N E where ext: "same_frame ?b b'" "bld_blocks b' = bld_blocks ?b @ N"
      "bld_panic_edges b' = bld_panic_edges ?b @ E" "new_blocks_ok ?b b' N E"
      "mset (map (block_content E) N) = mset (map (site_content (bld_sites ?b) (bld_eligible ?b)) ?L)"
    using r(2) unfolding builder_extends_def by blast
  let ?cfg = "\<lparr>cfg_function = qualified_function_name f, cfg_entry = e, cfg_exit = bld_exit b',
       cfg_panic_exit = bld_panic_exit b', cfg_blocks = bld_blocks b',
       cfg_panic_edges = bld_panic_edges b'\<rparr>"
  have E: "bld_panic_edges b' = E" using ext(3) by (simp add: new_builder_simps)
  have exits: "bld_exit b' = 0" "bld_panic_exit b' = 1"
    using ext(1) by (simp_all add: same_frame_def new_builder_simps)
  have len: "2 \<le> length (bld_blocks b')"
    using ext(2) by (simp add: new_builder_simps)
  have ids: "map block_id (bld_blocks b') = [0..<length (bld_blocks b')]"
  proof -
    have "map block_id N = [2..<length (bld_blocks b')]"
      using ext(4) by (simp add: new_blocks_ok_def new_builder_simps numeral_2_eq_2)
    moreover have "[0..<length (bld_blocks b')] = [0, 1] @ [2..<length (bld_blocks b')]"
      using upt_split [of 0 2 "length (bld_blocks b')"] len by (simp add: upt_rec)
    ultimately show ?thesis
      using ext(2) by (simp add: new_builder_simps)
  qed
  have succ: "t < length (bld_blocks b')"
    if "blk \<in> set (bld_blocks b')" "t \<in> set (successors_of (block_terminator blk))" for blk t
  proof (cases "blk \<in> set N")
    case True
    then show ?thesis using ext(4) that(2) by (simp add: new_blocks_ok_def)
  next
    case False
    then show ?thesis using ext(2) that by (auto simp: new_builder_simps successors_of_def)
  qed
  have wf: "cfg_wf ?cfg"
    using ids r(3) new_blocks_edges [OF ext(4)] exits len succ E
    by (auto simp add: cfg_wf_def block_target_def new_builder_simps)
  have k: "kinds_from E 0 = []" "kinds_from E 1 = []"
  proof -
    have two: "2 \<le> panic_from e" if "e \<in> set E" for e
      using new_blocks_edges [OF ext(4) that] by (simp add: new_builder_simps)
    show "kinds_from E 0 = []" "kinds_from E 1 = []"
      by (rule kinds_from_Nil, use two in fastforce)+
  qed
  have "mset (map (block_content E) (bld_blocks b'))
      = mset (([], []) # ([], []) # map (block_content E) N)"
    using k by (simp add: ext(2) new_builder_simps block_content_def)
  also have "\<dots> = mset (([], []) # ([], []) # numbered_contents eligible (fun_body f))"
    using ext(5) by (simp add: new_builder_simps(5) site_contents_numbered)
  finally have "mset (map (block_content (cfg_panic_edges ?cfg)) (cfg_blocks ?cfg))
      = mset (([], []) # ([], []) # numbered_contents eligible (fun_body f))"
    by (simp add: E)
  then show ?thesis
    using wf r(1) by (auto simp: build_cfg_def)
qed

text \<open>C28. Building the graph of a function never panics (no missing statement number, no index out of
  range). In the graph every block's identifier is its index, every jump, panic edge and exit is a
  block of the graph, and apart from the empty return and panic exits the blocks are exactly one per
  statement of the body: the operations and the panic kinds of the block, the latter read from the
  panic edges that leave it, are those of the statement under its preorder number.\<close>

theorem build_cfg_correct:
  "\<exists>cfg. build_cfg f (new_builder f eligible) = Some cfg \<and> cfg_wf cfg
     \<and> mset (map (block_content (cfg_panic_edges cfg)) (cfg_blocks cfg))
       = mset (([], []) # ([], []) # numbered_contents eligible (fun_body f))"
  by (rule build_cfg_spec)

end
