(* ===== verification/Mir_Dataflow.thy ===== *)
theory Mir_Dataflow
  imports Mir_Builder
begin

text \<open>
  The forward dataflow analysis of \<open>crates/nomo_mir/src/lib.rs\<close>: \<open>transfer_operation\<close>, \<open>join_states\<close> and
  the worklist of \<open>prove_unique_detaches\<close>. A \<open>StateMap\<close> is an ordered map from bindings to ownership
  states, an index out of range or a missing input state that would panic in the source is \<open>None\<close>.
\<close>

type_synonym state_map = "(string, ownership_state) btree_map"

section \<open>Transfer and join\<close>

definition insert_all :: "string list \<Rightarrow> ownership_state \<Rightarrow> state_map \<Rightarrow> state_map" where
  "insert_all bindings v state = fold (\<lambda>binding state. bt_insert binding v state) bindings state"

definition transfer_operation :: "operation \<Rightarrow> state_map \<Rightarrow> state_map" where
  "transfer_operation operation state = (case operation of
       FreshArray binding \<Rightarrow> bt_insert binding Unique state
     | ArrayMutation binding \<Rightarrow> bt_insert binding Unknown state
     | Retain binding \<Rightarrow> bt_insert binding Shared state
     | Release binding \<Rightarrow> bt_insert binding Moved state
     | Move binding \<Rightarrow> bt_insert binding Moved state
     | AliasArray target source \<Rightarrow> bt_insert target Shared (bt_insert source Shared state)
     | AssignUnknown binding \<Rightarrow> bt_insert binding Unknown state
     | Call effect array_arguments \<Rightarrow>
         if invalidates_ownership_proofs effect then bt_map_values (\<lambda>_. Unknown) state
         else if may_escape_arguments effect then insert_all array_arguments Unknown state
         else state
     | Escape bindings \<Rightarrow> insert_all bindings Unknown state
     | CowDetach _ binding _ _ \<Rightarrow> bt_insert binding Unique state
     | CheckedArrayBounds _ _ \<Rightarrow> state
     | ArrayStore _ _ \<Rightarrow> state
     | Read _ \<Rightarrow> state)"

definition transfer_operations :: "operation list \<Rightarrow> state_map \<Rightarrow> state_map" where
  "transfer_operations operations state = fold transfer_operation operations state"

definition join_ownership :: "ownership_state \<Rightarrow> ownership_state \<Rightarrow> ownership_state" where
  "join_ownership current other = (if current = other then current else Unknown)"

fun join_states :: "state_map \<Rightarrow> state_map \<Rightarrow> state_map \<times> bool" where
  "join_states [] incoming = ([], False)"
| "join_states ((binding, current) # target) incoming =
     (let other = (case bt_get incoming binding of None \<Rightarrow> Unknown | Some v \<Rightarrow> v);
          joined = join_ownership current other;
          (target', changed) = join_states target incoming
      in ((binding, joined) # target', current \<noteq> joined \<or> changed))"

section \<open>The worklist\<close>

text \<open>One block's output state is merged into each successor, which is queued again when it changed.\<close>

fun merge_successors ::
    "state_map \<Rightarrow> nat list \<Rightarrow> state_map option list \<Rightarrow> nat list
      \<Rightarrow> (state_map option list \<times> nat list) option" where
  "merge_successors state [] in_states queue = Some (in_states, queue)"
| "merge_successors state (successor # rest) in_states queue =
     (if successor < length in_states then
        let (slot, changed) = (case in_states ! successor of
              Some existing \<Rightarrow> join_states existing state
            | None \<Rightarrow> (state, True))
        in merge_successors state rest (in_states[successor := Some slot])
             (if changed then queue @ [successor] else queue)
      else None)"

partial_function (option) propagate ::
    "basic_block list \<Rightarrow> state_map option list \<Rightarrow> nat list \<Rightarrow> state_map option list option" where
  [code]: "propagate blocks in_states queue = (case queue of
       [] \<Rightarrow> Some in_states
     | block # rest \<Rightarrow>
         (if block < length in_states \<and> block < length blocks then
            case in_states ! block of
              None \<Rightarrow> None
            | Some state \<Rightarrow>
                Option.bind
                  (merge_successors (transfer_operations (block_operations (blocks ! block)) state)
                     (successors_of (block_terminator (blocks ! block))) in_states rest)
                  (\<lambda>(in_states, queue). propagate blocks in_states queue)
          else None))"

section \<open>Marking the proven detaches\<close>

fun elide_operations ::
    "operation list \<Rightarrow> state_map \<Rightarrow> u32 list \<Rightarrow> operation list \<times> u32 list" where
  "elide_operations [] state proven = ([], proven)"
| "elide_operations (operation # operations) state proven =
     (let (operation, proven) = (case operation of
            CowDetach statement binding flat_array elided \<Rightarrow>
              if flat_array \<and> bt_get state binding = Some Unique
              then (CowDetach statement binding flat_array True, bs_insert statement proven)
              else (operation, proven)
          | _ \<Rightarrow> (operation, proven));
          (operations, proven) = elide_operations operations (transfer_operation operation state) proven
      in (operation # operations, proven))"

fun elide_blocks ::
    "state_map option list \<Rightarrow> basic_block list \<Rightarrow> u32 list
      \<Rightarrow> (basic_block list \<times> u32 list) option" where
  "elide_blocks in_states [] proven = Some ([], proven)"
| "elide_blocks in_states (block # blocks) proven =
     (if block_id block < length in_states then
        let (block, proven) = (case in_states ! block_id block of
              None \<Rightarrow> (block, proven)
            | Some state \<Rightarrow>
                let (operations, proven) = elide_operations (block_operations block) state proven
                in (block\<lparr>block_operations := operations\<rparr>, proven))
        in map_option (\<lambda>(blocks, proven). (block # blocks, proven))
             (elide_blocks in_states blocks proven)
      else None)"

definition prove_unique_detaches ::
    "function_cfg \<Rightarrow> string list \<Rightarrow> (function_cfg \<times> u32 list) option" where
  "prove_unique_detaches cfg eligible =
     (let initial = fold (\<lambda>name state. bt_insert name Unknown state) eligible [];
          in_states = replicate (length (cfg_blocks cfg)) None
      in if cfg_entry cfg < length in_states then
           Option.bind (propagate (cfg_blocks cfg) (in_states[cfg_entry cfg := Some initial])
               [cfg_entry cfg])
             (\<lambda>in_states. map_option (\<lambda>(blocks, proven). (cfg\<lparr>cfg_blocks := blocks\<rparr>, proven))
               (elide_blocks in_states (cfg_blocks cfg) []))
         else None)"

section \<open>The lattice of ownership states\<close>

text \<open>
  \<open>state_le a b\<close>: whatever \<open>b\<close> claims of a binding, \<open>a\<close> claims as well; \<open>Unknown\<close> claims nothing.
\<close>

definition state_le :: "state_map \<Rightarrow> state_map \<Rightarrow> bool" where
  "state_le a b \<longleftrightarrow> (\<forall>x v. bt_get b x = Some v \<longrightarrow> v \<noteq> Unknown \<longrightarrow> bt_get a x = Some v)"

definition known_bindings :: "state_map \<Rightarrow> nat" where
  "known_bindings s = length (filter (\<lambda>e. snd e \<noteq> Unknown) s)"

locale join_analysis =
  fixes le :: "'a \<Rightarrow> 'a \<Rightarrow> bool"
    and valid :: "'a \<Rightarrow> bool"
    and join :: "'a \<Rightarrow> 'a \<Rightarrow> 'a \<times> bool"
    and rank :: "'a \<Rightarrow> nat"
    and transfer :: "'op \<Rightarrow> 'a \<Rightarrow> 'a"
  assumes le_refl: "le a a"
    and le_trans: "le a b \<Longrightarrow> le b c \<Longrightarrow> le a c"
    and join_left: "le a (fst (join a b))"
    and join_right: "le b (fst (join a b))"
    and join_unchanged: "\<not> snd (join a b) \<Longrightarrow> fst (join a b) = a"
    and join_changed: "snd (join a b) \<Longrightarrow> rank (fst (join a b)) < rank a"
    and valid_join: "valid a \<Longrightarrow> valid (fst (join a b))"
    and valid_transfer: "valid a \<Longrightarrow> valid (transfer operation a)"
begin

lemma join_rank_le: "rank (fst (join a b)) \<le> rank a"
  using join_unchanged [of a b] join_changed [of a b] by (cases "snd (join a b)") auto

lemma valid_fold_transfer: "valid a \<Longrightarrow> valid (fold transfer operations a)"
  by (induction operations arbitrary: a) (auto simp: valid_transfer)

lemma le_join_trans: "le c a \<Longrightarrow> le c (fst (join a b))"
  using join_left le_trans by blast

end

lemma bt_get_join: "bt_get (fst (join_states t inc)) x =
    map_option (\<lambda>c. join_ownership c (case bt_get inc x of None \<Rightarrow> Unknown | Some v \<Rightarrow> v)) (bt_get t x)"
  by (induction t inc rule: join_states.induct) (auto simp: Let_def split_beta)

lemma join_states_keys: "bt_keys (fst (join_states t inc)) = bt_keys t"
  by (induction t inc rule: join_states.induct) (auto simp: Let_def split_beta bt_keys_def)

lemma join_states_changed:
  "(\<not> snd (join_states t inc) \<longrightarrow> fst (join_states t inc) = t)
   \<and> known_bindings (fst (join_states t inc)) \<le> known_bindings t
   \<and> (snd (join_states t inc) \<longrightarrow> known_bindings (fst (join_states t inc)) < known_bindings t)"
proof (induction t)
  case (Cons e t)
  then show ?case
    by (cases e) (auto simp: Let_def split_beta known_bindings_def join_ownership_def)
qed (simp add: known_bindings_def)

lemma bt_wf_insert_all: "bt_wf s \<Longrightarrow> bt_wf (insert_all xs v s)"
  by (induction xs arbitrary: s) (auto simp: insert_all_def bt.wf_put)

lemma bt_get_insert_all:
  "bt_wf s \<Longrightarrow> bt_get (insert_all xs v s) x = (if x \<in> set xs then Some v else bt_get s x)"
  by (induction xs arbitrary: s) (auto simp: insert_all_def bt.wf_put bt.get_put)

interpretation sa: join_analysis state_le bt_wf join_states known_bindings transfer_operation
proof unfold_locales
  fix a b c :: state_map and operation
  show "state_le a a" by (simp add: state_le_def)
  show "state_le a b \<Longrightarrow> state_le b c \<Longrightarrow> state_le a c" by (auto simp: state_le_def)
  show "state_le a (fst (join_states a b))"
    by (auto simp: state_le_def bt_get_join join_ownership_def split: if_splits)
  show "state_le b (fst (join_states a b))"
    by (auto simp: state_le_def bt_get_join join_ownership_def split: if_splits option.splits)
  show "\<not> snd (join_states a b) \<Longrightarrow> fst (join_states a b) = a"
    using join_states_changed by blast
  show "snd (join_states a b) \<Longrightarrow> known_bindings (fst (join_states a b)) < known_bindings a"
    using join_states_changed by blast
  show "bt_wf a \<Longrightarrow> bt_wf (fst (join_states a b))"
    using join_states_keys [of a b] by (simp add: bt_wf_def bt_keys_def)
  show "bt_wf a \<Longrightarrow> bt_wf (transfer_operation operation a)"
    by (simp add: transfer_operation_def bt.wf_put bt_wf_insert_all split: operation.split)
qed

section \<open>The worklist computes a post-fixed point\<close>

definition slot_rank :: "state_map option list \<Rightarrow> nat \<times> nat" where
  "slot_rank ins = (length (filter (\<lambda>s. s = None) ins),
     sum_list (map (\<lambda>s. case s of None \<Rightarrow> 0 | Some m \<Rightarrow> known_bindings m) ins))"

definition slot_less :: "((nat \<times> nat) \<times> (nat \<times> nat)) set" where
  "slot_less = less_than <*lex*> less_than"

definition slots_valid :: "state_map option list \<Rightarrow> bool" where
  "slots_valid ins \<longleftrightarrow> (\<forall>s. Some s \<in> set ins \<longrightarrow> bt_wf s)"

text \<open>What merging one output state into a list of successors does to the slots and the queue.\<close>

definition merged :: "state_map \<Rightarrow> nat list \<Rightarrow> state_map option list \<Rightarrow> nat list
    \<Rightarrow> state_map option list \<Rightarrow> nat list \<Rightarrow> bool" where
  "merged state succs ins queue ins' queue' \<longleftrightarrow>
     length ins' = length ins
     \<and> (\<forall>t \<in> set succs. \<exists>s. ins' ! t = Some s \<and> state_le state s)
     \<and> (\<forall>t < length ins. \<forall>s. ins ! t = Some s \<longrightarrow> (\<exists>s'. ins' ! t = Some s' \<and> state_le s s'))
     \<and> (\<forall>t < length ins. ins' ! t \<noteq> ins ! t \<longrightarrow> t \<in> set queue')
     \<and> set queue \<subseteq> set queue' \<and> set queue' \<subseteq> set queue \<union> set succs
     \<and> (ins' = ins \<and> queue' = queue \<or> (slot_rank ins', slot_rank ins) \<in> slot_less)
     \<and> (slots_valid ins \<longrightarrow> bt_wf state \<longrightarrow> slots_valid ins')"

lemma slot_rank_update:
  assumes "t < length ins"
  shows "ins ! t = None \<Longrightarrow> (slot_rank (ins[t := Some s]), slot_rank ins) \<in> slot_less"
    and "ins ! t = Some r \<Longrightarrow> known_bindings s < known_bindings r
      \<Longrightarrow> (slot_rank (ins[t := Some s]), slot_rank ins) \<in> slot_less"
proof -
  have ins: "ins = take t ins @ ins ! t # drop (Suc t) ins"
    using assms by (rule id_take_nth_drop)
  have upd: "ins[t := Some s] = take t ins @ Some s # drop (Suc t) ins"
    using assms by (rule upd_conv_take_nth_drop)
  show "ins ! t = None \<Longrightarrow> (slot_rank (ins[t := Some s]), slot_rank ins) \<in> slot_less"
    unfolding upd by (subst (2) ins) (simp add: slot_rank_def slot_less_def)
  show "ins ! t = Some r \<Longrightarrow> known_bindings s < known_bindings r
      \<Longrightarrow> (slot_rank (ins[t := Some s]), slot_rank ins) \<in> slot_less"
    unfolding upd by (subst (2) ins) (simp add: slot_rank_def slot_less_def)
qed

lemma merge_one:
  assumes "t < length ins"
    and "(slot, changed) = (case ins ! t of Some e \<Rightarrow> join_states e state | None \<Rightarrow> (state, True))"
  shows "merged state [t] ins queue (ins[t := Some slot]) (if changed then queue @ [t] else queue)"
proof (cases "ins ! t")
  case None
  then have sl: "slot = state" "changed" using assms(2) by auto
  have "(slot_rank (ins[t := Some state]), slot_rank ins) \<in> slot_less"
    using slot_rank_update(1) [OF assms(1) None] .
  then show ?thesis
    using assms(1) None sl
    by (auto simp: merged_def nth_list_update slots_valid_def sa.le_refl
        dest: set_update_subset_insert [THEN subsetD])
next
  case (Some e)
  then have sl: "slot = fst (join_states e state)" "changed = snd (join_states e state)"
    using assms(2) by (auto simp: prod_eq_iff)
  have le: "state_le e slot" "state_le state slot"
    using sl sa.join_left sa.join_right by auto
  have same: "ins[t := Some slot] = ins" if "\<not> changed"
    using sa.join_unchanged [of e state] that sl Some assms(1) by (simp add: list_update_same_conv)
  have kept: "slot = e" if "\<not> changed"
    using sa.join_unchanged [of e state] that sl by simp
  have less: "(slot_rank (ins[t := Some slot]), slot_rank ins) \<in> slot_less" if changed
    using slot_rank_update(2) [OF assms(1) Some] sa.join_changed [of e state] that sl by simp
  have val: "slots_valid (ins[t := Some slot])" if "slots_valid ins"
    using that Some assms(1) sa.valid_join [of e state] sl(1)
    by (auto simp: slots_valid_def dest!: set_update_subset_insert [THEN subsetD])
      (metis nth_mem)
  show ?thesis
    using assms(1) Some le same kept less val
    by (auto simp: merged_def nth_list_update sa.le_refl)
qed

lemma mergedD:
  assumes "merged state succs ins queue ins' queue'"
  shows merged_len: "length ins' = length ins"
    and merged_target: "t \<in> set succs \<Longrightarrow> \<exists>s. ins' ! t = Some s \<and> state_le state s"
    and merged_up: "t < length ins \<Longrightarrow> ins ! t = Some s \<Longrightarrow> \<exists>s'. ins' ! t = Some s' \<and> state_le s s'"
    and merged_changed: "t < length ins \<Longrightarrow> t \<notin> set queue' \<Longrightarrow> ins' ! t = ins ! t"
    and merged_queue: "set queue \<subseteq> set queue'" "set queue' \<subseteq> set queue \<union> set succs"
    and merged_rank: "ins' = ins \<and> queue' = queue \<or> (slot_rank ins', slot_rank ins) \<in> slot_less"
    and merged_valid: "slots_valid ins \<Longrightarrow> bt_wf state \<Longrightarrow> slots_valid ins'"
  using assms by (simp_all only: merged_def) blast+

lemma slot_less_trans: "(a, b) \<in> slot_less \<Longrightarrow> (b, c) \<in> slot_less \<Longrightarrow> (a, c) \<in> slot_less"
  by (cases a, cases b, cases c) (auto simp: slot_less_def)

lemma merged_refl: "merged state [] ins queue ins queue"
  by (auto simp: merged_def sa.le_refl)

lemma merged_trans:
  assumes 1: "merged state xs ins queue ins1 queue1"
    and 2: "merged state ys ins1 queue1 ins2 queue2"
    and xs: "\<forall>t \<in> set xs. t < length ins"
  shows "merged state (xs @ ys) ins queue ins2 queue2"
  unfolding merged_def
proof (intro conjI allI ballI impI)
  note len = merged_len [OF 1] merged_len [OF 2]
  show "length ins2 = length ins" using len by simp
  show "\<exists>r. ins2 ! t = Some r \<and> state_le s r" if t: "t < length ins" "ins ! t = Some s" for t s
  proof -
    obtain q where q: "ins1 ! t = Some q" "state_le s q"
      using merged_up [OF 1 t] by blast
    then obtain r where "ins2 ! t = Some r" "state_le q r"
      using merged_up [OF 2] t(1) len(1) by metis
    then show ?thesis using q sa.le_trans by blast
  qed
  show "\<exists>s. ins2 ! t = Some s \<and> state_le state s" if t: "t \<in> set (xs @ ys)" for t
  proof (cases "t \<in> set ys")
    case True
    then show ?thesis by (rule merged_target [OF 2])
  next
    case False
    then have "t \<in> set xs" using t by simp
    then obtain q where q: "ins1 ! t = Some q" "state_le state q"
      using merged_target [OF 1] by blast
    then obtain r where "ins2 ! t = Some r" "state_le q r"
      using merged_up [OF 2] \<open>t \<in> set xs\<close> xs len(1) by metis
    then show ?thesis using q sa.le_trans by blast
  qed
  show "t \<in> set queue2" if "t < length ins" "ins2 ! t \<noteq> ins ! t" for t
    using merged_changed [OF 1, of t] merged_changed [OF 2, of t] merged_queue [OF 2] that len(1)
    by fastforce
  show "ins2 = ins \<and> queue2 = queue \<or> (slot_rank ins2, slot_rank ins) \<in> slot_less"
    using merged_rank [OF 1] merged_rank [OF 2]
      slot_less_trans [of "slot_rank ins2" "slot_rank ins1" "slot_rank ins"] by blast
  show "set queue \<subseteq> set queue2" "set queue2 \<subseteq> set queue \<union> set (xs @ ys)"
    using merged_queue [OF 1] merged_queue [OF 2] by auto
  show "slots_valid ins2" if "slots_valid ins" "bt_wf state"
    using merged_valid [OF 2] merged_valid [OF 1] that by blast
qed

lemma merge_successors_merged:
  assumes "\<forall>t \<in> set succs. t < length ins"
  shows "\<exists>ins' queue'. merge_successors state succs ins queue = Some (ins', queue')
    \<and> merged state succs ins queue ins' queue'"
  using assms
proof (induction succs arbitrary: ins queue)
  case Nil
  then show ?case by (simp add: merged_refl)
next
  case (Cons t succs)
  obtain slot changed where sc:
    "(slot, changed) = (case ins ! t of Some e \<Rightarrow> join_states e state | None \<Rightarrow> (state, True))"
    by (metis surj_pair)
  let ?ins = "ins[t := Some slot]" and ?queue = "if changed then queue @ [t] else queue"
  have one: "merged state [t] ins queue ?ins ?queue"
    using Cons.prems by (intro merge_one [OF _ sc]) simp
  obtain ins' queue' where rest: "merge_successors state succs ?ins ?queue = Some (ins', queue')"
      "merged state succs ?ins ?queue ins' queue'"
    using Cons.IH [of ?ins ?queue] Cons.prems by auto
  have "merged state ([t] @ succs) ins queue ins' queue'"
    by (rule merged_trans [OF one rest(2)]) (use Cons.prems in simp)
  then show ?case
    using rest(1) Cons.prems by (auto simp: sc [symmetric])
qed

definition block_output :: "basic_block list \<Rightarrow> nat \<Rightarrow> state_map \<Rightarrow> state_map" where
  "block_output blocks b s = transfer_operations (block_operations (blocks ! b)) s"

definition block_successors :: "basic_block list \<Rightarrow> nat \<Rightarrow> nat list" where
  "block_successors blocks b = successors_of (block_terminator (blocks ! b))"

definition block_flows :: "basic_block list \<Rightarrow> state_map option list \<Rightarrow> nat \<Rightarrow> bool" where
  "block_flows blocks ins b \<longleftrightarrow> (\<forall>s. ins ! b = Some s \<longrightarrow>
     (\<forall>t \<in> set (block_successors blocks b).
        \<exists>r. ins ! t = Some r \<and> state_le (block_output blocks b s) r))"

definition flow_inv ::
    "basic_block list \<Rightarrow> nat \<Rightarrow> state_map \<Rightarrow> state_map option list \<Rightarrow> nat list \<Rightarrow> bool" where
  "flow_inv blocks entry initial ins queue \<longleftrightarrow>
     length ins = length blocks \<and> slots_valid ins
     \<and> (\<forall>b \<in> set queue. b < length blocks \<and> ins ! b \<noteq> None)
     \<and> (\<exists>s. ins ! entry = Some s \<and> state_le initial s)
     \<and> (\<forall>b < length blocks. b \<notin> set queue \<longrightarrow> block_flows blocks ins b)"

definition successors_in_range :: "basic_block list \<Rightarrow> bool" where
  "successors_in_range blocks \<longleftrightarrow>
     (\<forall>b < length blocks. \<forall>t \<in> set (block_successors blocks b). t < length blocks)"

lemma slots_valid_nth: "slots_valid ins \<Longrightarrow> b < length ins \<Longrightarrow> ins ! b = Some s \<Longrightarrow> bt_wf s"
  unfolding slots_valid_def by (metis nth_mem)

lemma bt_wf_block_output: "bt_wf s \<Longrightarrow> bt_wf (block_output blocks b s)"
  by (simp add: block_output_def transfer_operations_def sa.valid_fold_transfer)

lemma flow_step:
  assumes inv: "flow_inv blocks entry initial ins (b # rest)"
    and range: "successors_in_range blocks" and entry: "entry < length blocks"
    and s: "ins ! b = Some s"
    and m: "merged (block_output blocks b s) (block_successors blocks b) ins rest ins' queue'"
  shows "flow_inv blocks entry initial ins' queue'"
  unfolding flow_inv_def
proof (intro conjI allI ballI impI)
  have len: "length ins = length blocks" "b < length blocks"
    using inv by (simp_all add: flow_inv_def)
  have succ: "t < length blocks" if "c < length blocks" "t \<in> set (block_successors blocks c)" for c t
    using range that by (simp add: successors_in_range_def)
  show "length ins' = length blocks" using merged_len [OF m] len by simp
  have "slots_valid ins" using inv by (simp add: flow_inv_def)
  then show "slots_valid ins'"
    using merged_valid [OF m] bt_wf_block_output slots_valid_nth s len by metis
  have up: "\<exists>r'. ins' ! t = Some r' \<and> state_le r r'" if "t < length blocks" "ins ! t = Some r" for t r
    using merged_up [OF m] that len(1) by simp
  show "t < length blocks" "ins' ! t \<noteq> None" if t: "t \<in> set queue'" for t
  proof -
    consider "t \<in> set rest" | "t \<in> set (block_successors blocks b)"
      using merged_queue(2) [OF m] t by blast
    then have "t < length blocks \<and> ins' ! t \<noteq> None"
    proof cases
      case 1
      then have "t < length blocks" "ins ! t \<noteq> None" using inv by (simp_all add: flow_inv_def)
      then show ?thesis using up by blast
    next
      case 2
      then show ?thesis using merged_target [OF m 2] succ [OF len(2) 2] by auto
    qed
    then show "t < length blocks" "ins' ! t \<noteq> None" by blast+
  qed
  obtain s0 where "ins ! entry = Some s0" "state_le initial s0"
    using inv by (auto simp: flow_inv_def)
  then show "\<exists>s. ins' ! entry = Some s \<and> state_le initial s"
    using up [OF entry] sa.le_trans by blast
  show "block_flows blocks ins' c" if c: "c < length blocks" "c \<notin> set queue'" for c
  proof -
    have same: "ins' ! c = ins ! c" using merged_changed [OF m] c len(1) by simp
    have "c \<notin> set rest" using merged_queue(1) [OF m] c by blast
    show ?thesis
    proof (cases "c = b")
      case True
      then show ?thesis using merged_target [OF m] s same by (simp add: block_flows_def)
    next
      case False
      then have old: "block_flows blocks ins c"
        using inv c \<open>c \<notin> set rest\<close> by (simp add: flow_inv_def)
      show ?thesis
        unfolding block_flows_def same
      proof (intro allI impI ballI)
        fix r t assume r: "ins ! c = Some r" and t: "t \<in> set (block_successors blocks c)"
        then obtain q where "ins ! t = Some q" "state_le (block_output blocks c r) q"
          using old by (auto simp: block_flows_def)
        then show "\<exists>q. ins' ! t = Some q \<and> state_le (block_output blocks c r) q"
          using up [OF succ [OF c(1) t]] sa.le_trans by blast
      qed
    qed
  qed
qed

lemma propagate_correct:
  assumes "flow_inv blocks entry initial ins queue"
    and "successors_in_range blocks" "entry < length blocks"
  shows "\<exists>ins'. propagate blocks ins queue = Some ins' \<and> flow_inv blocks entry initial ins' []"
  using assms(1)
proof (induction "(slot_rank ins, length queue)" arbitrary: ins queue
    rule: wf_induct_rule [OF wf_lex_prod [OF wf_lex_prod [OF wf_less_than wf_less_than] wf_less_than]])
  case 1
  show ?case
  proof (cases queue)
    case Nil
    then show ?thesis using 1(2) by (simp add: propagate.simps)
  next
    case (Cons b rest)
    obtain s where b: "b < length ins" "b < length blocks" "ins ! b = Some s"
      using 1(2) Cons by (fastforce simp: flow_inv_def)
    have "\<forall>t \<in> set (block_successors blocks b). t < length ins"
      using assms(2) b 1(2) by (simp add: successors_in_range_def flow_inv_def)
    then obtain ins1 queue1 where m:
        "merge_successors (block_output blocks b s) (block_successors blocks b) ins rest
           = Some (ins1, queue1)"
        "merged (block_output blocks b s) (block_successors blocks b) ins rest ins1 queue1"
      using merge_successors_merged by blast
    have inv: "flow_inv blocks entry initial ins1 queue1"
      using flow_step [OF _ assms(2,3) b(3) m(2)] 1(2) Cons by simp
    have "((slot_rank ins1, length queue1), (slot_rank ins, length queue))
        \<in> (less_than <*lex*> less_than) <*lex*> less_than"
      using m(2) Cons by (auto simp: merged_def slot_less_def)
    from 1(1) [OF this inv] show ?thesis
      using Cons b m(1)
      by (subst propagate.simps) (simp add: block_output_def block_successors_def)
  qed
qed

end
