(* ===== verification/Mir_Ownership.thy ===== *)
theory Mir_Ownership
  imports Mir_Graph Mir_Dataflow
begin

text \<open>
  What the ownership analysis promises. The operations of a graph act on a machine of reference-counted
  array buffers: a binding refers to a buffer, a buffer has a count of all references to it (those of
  bindings and those of temporaries, calls and other values), and an array store writes in place. A
  copy-on-write detach gives the binding a buffer of its own when its buffer has another reference; an
  elided detach does nothing. This machine is the specification; the graph, the transfer function and
  the worklist are the ones of \<open>crates/nomo_mir/src/lib.rs\<close>.
\<close>

section \<open>Executions of a graph\<close>

definition operations_at :: "function_cfg \<Rightarrow> nat \<Rightarrow> operation list" where
  "operations_at cfg b = block_operations (cfg_blocks cfg ! b)"

inductive cfg_reaches ::
    "(operation \<Rightarrow> 'c \<Rightarrow> 'c \<Rightarrow> bool) \<Rightarrow> ('c \<Rightarrow> 'c \<Rightarrow> bool) \<Rightarrow> ('c \<Rightarrow> bool) \<Rightarrow> function_cfg
      \<Rightarrow> nat \<Rightarrow> operation list \<Rightarrow> 'c \<Rightarrow> bool"
  for step tau start cfg where
  reach_entry: "start c \<Longrightarrow>
     cfg_reaches step tau start cfg (cfg_entry cfg) (operations_at cfg (cfg_entry cfg)) c"
| reach_step: "cfg_reaches step tau start cfg b (op # ops) c \<Longrightarrow> step op c c' \<Longrightarrow>
     cfg_reaches step tau start cfg b ops c'"
| reach_tau: "cfg_reaches step tau start cfg b ops c \<Longrightarrow> tau c c' \<Longrightarrow>
     cfg_reaches step tau start cfg b ops c'"
| reach_jump: "cfg_reaches step tau start cfg b [] c \<Longrightarrow>
     t \<in> set (block_successors (cfg_blocks cfg) b) \<Longrightarrow>
     cfg_reaches step tau start cfg t (operations_at cfg t) c"

section \<open>Soundness of a forward analysis\<close>

locale sound_analysis = join_analysis le valid join rank transfer
  for le :: "'a \<Rightarrow> 'a \<Rightarrow> bool" and valid :: "'a \<Rightarrow> bool" and join :: "'a \<Rightarrow> 'a \<Rightarrow> 'a \<times> bool"
    and rank :: "'a \<Rightarrow> nat" and transfer :: "operation \<Rightarrow> 'a \<Rightarrow> 'a" +
  fixes holds :: "'a \<Rightarrow> 'c \<Rightarrow> bool"
    and step :: "operation \<Rightarrow> 'c \<Rightarrow> 'c \<Rightarrow> bool"
    and tau :: "'c \<Rightarrow> 'c \<Rightarrow> bool"
    and plain :: "operation \<Rightarrow> bool"
  assumes holds_le: "le a b \<Longrightarrow> holds a c \<Longrightarrow> holds b c"
    and holds_transfer:
      "valid a \<Longrightarrow> plain op \<Longrightarrow> holds a c \<Longrightarrow> step op c c' \<Longrightarrow> holds (transfer op a) c'"
    and holds_tau: "holds a c \<Longrightarrow> tau c c' \<Longrightarrow> holds a c'"
begin

text \<open>A post-fixed point of the analysis describes every state an execution reaches.\<close>

lemma reaches_holds:
  assumes reach: "cfg_reaches step tau start cfg b ops c"
    and start: "\<And>c. start c \<Longrightarrow> holds initial c"
    and entry: "\<exists>s. ins ! cfg_entry cfg = Some s \<and> le initial s"
    and flow: "\<And>b s t. b < n \<Longrightarrow> ins ! b = Some s \<Longrightarrow> t \<in> set (block_successors (cfg_blocks cfg) b)
      \<Longrightarrow> t < n \<and> (\<exists>r. ins ! t = Some r \<and> le (fold transfer (operations_at cfg b) s) r)"
    and valid: "\<And>b s. b < n \<Longrightarrow> ins ! b = Some s \<Longrightarrow> valid s"
    and plain: "\<And>b op. b < n \<Longrightarrow> op \<in> set (operations_at cfg b) \<Longrightarrow> plain op"
    and n: "cfg_entry cfg < n"
  shows "\<exists>done s. b < n \<and> operations_at cfg b = done @ ops \<and> ins ! b = Some s
    \<and> holds (fold transfer done s) c"
  using reach
proof (induction rule: cfg_reaches.induct)
  case (reach_entry c)
  then show ?case using start entry n holds_le by (metis append_Nil fold_simps(1))
next
  case (reach_step b op ops c c')
  then obtain "done" s where ih: "b < n" "operations_at cfg b = done @ op # ops" "ins ! b = Some s"
      "holds (fold transfer done s) c"
    by blast
  have "plain op" using plain [OF ih(1)] ih(2) by simp
  then have "holds (transfer op (fold transfer done s)) c'"
    using holds_transfer valid_fold_transfer valid ih reach_step.hyps by blast
  then have "holds (fold transfer (done @ [op]) s) c'" by simp
  then show ?case using ih by (intro exI [of _ "done @ [op]"]) simp
next
  case (reach_tau b ops c c')
  then show ?case using holds_tau by blast
next
  case (reach_jump b c t)
  then obtain "done" s where ih: "b < n" "operations_at cfg b = done" "ins ! b = Some s"
      "holds (fold transfer done s) c"
    by auto
  then obtain r where "t < n" "ins ! t = Some r" "le (fold transfer (operations_at cfg b) s) r"
    using flow [OF ih(1,3) reach_jump.hyps(2)] by blast
  then show ?case using ih holds_le by (intro exI [of _ "[]"]) auto
qed

end

section \<open>Reference-counted buffers\<close>

record machine =
  m_env :: "string \<Rightarrow> nat option"
  m_refs :: "nat \<Rightarrow> nat"
  m_data :: "nat \<Rightarrow> nat list"

definition holders :: "machine \<Rightarrow> nat \<Rightarrow> string set" where
  "holders m a = {x. m_env m x = Some a}"

definition machine_wf :: "machine \<Rightarrow> bool" where
  "machine_wf m \<longleftrightarrow> (\<forall>a. finite (holders m a) \<and> card (holders m a) \<le> m_refs m a)"

text \<open>A reference to \<open>a\<close> that no binding holds.\<close>

definition spare_reference :: "machine \<Rightarrow> nat \<Rightarrow> bool" where
  "spare_reference m a \<longleftrightarrow> card (holders m a) < m_refs m a"

definition drop_binding :: "string \<Rightarrow> machine \<Rightarrow> machine" where
  "drop_binding x m = (case m_env m x of
       None \<Rightarrow> m
     | Some a \<Rightarrow> m\<lparr>m_env := (m_env m)(x := None), m_refs := (m_refs m)(a := m_refs m a - 1)\<rparr>)"

definition bind_buffer :: "string \<Rightarrow> nat \<Rightarrow> machine \<Rightarrow> machine" where
  "bind_buffer x a m = m\<lparr>m_env := (m_env m)(x \<mapsto> a)\<rparr>"

definition alloc_buffer :: "string \<Rightarrow> nat \<Rightarrow> nat list \<Rightarrow> machine \<Rightarrow> machine" where
  "alloc_buffer x a d m = m\<lparr>m_env := (m_env m)(x \<mapsto> a), m_refs := (m_refs m)(a := 1),
     m_data := (m_data m)(a := d)\<rparr>"

definition write_buffer :: "nat \<Rightarrow> nat list \<Rightarrow> machine \<Rightarrow> machine" where
  "write_buffer a d m = m\<lparr>m_data := (m_data m)(a := d)\<rparr>"

text \<open>References to the buffers of the given bindings are stored elsewhere, or written through.\<close>

definition leaks :: "string list \<Rightarrow> machine \<Rightarrow> machine \<Rightarrow> bool" where
  "leaks xs m m' \<longleftrightarrow> m_env m' = m_env m \<and> (\<forall>a. m_refs m a \<le> m_refs m' a)
     \<and> (\<forall>a. (m_refs m' a \<noteq> m_refs m a \<or> m_data m' a \<noteq> m_data m a) \<longrightarrow>
          (\<exists>x \<in> set xs. m_env m x = Some a))"

inductive own_step :: "operation \<Rightarrow> machine \<Rightarrow> machine \<Rightarrow> bool" where
  step_fresh: "m_refs (drop_binding x m) a = 0 \<Longrightarrow>
     own_step (FreshArray x) m (alloc_buffer x a d (drop_binding x m))"
| step_retain: "m_env m x = Some a \<Longrightarrow>
     own_step (Retain x) m (m\<lparr>m_refs := (m_refs m)(a := m_refs m a + 1)\<rparr>)"
| step_release: "own_step (Release x) m (drop_binding x m)"
| step_move: "own_step (Move x) m (m\<lparr>m_env := (m_env m)(x := None)\<rparr>)"
| step_alias: "m_env m y = Some a \<Longrightarrow> spare_reference (drop_binding x m) a \<Longrightarrow>
     own_step (AliasArray x y) m (bind_buffer x a (drop_binding x m))"
| step_unknown_none: "own_step (AssignUnknown x) m (drop_binding x m)"
| step_unknown_ref: "spare_reference (drop_binding x m) a \<Longrightarrow>
     own_step (AssignUnknown x) m (bind_buffer x a (drop_binding x m))"
| step_unknown_new: "m_refs (drop_binding x m) a = 0 \<Longrightarrow>
     own_step (AssignUnknown x) m (alloc_buffer x a d (drop_binding x m))"
| step_call_any: "invalidates_ownership_proofs eff \<Longrightarrow> machine_wf m' \<Longrightarrow> own_step (Call eff xs) m m'"
| step_call_leak: "\<not> invalidates_ownership_proofs eff \<Longrightarrow> may_escape_arguments eff \<Longrightarrow> leaks xs m m'
     \<Longrightarrow> own_step (Call eff xs) m m'"
| step_call_pure: "\<not> invalidates_ownership_proofs eff \<Longrightarrow> \<not> may_escape_arguments eff \<Longrightarrow>
     own_step (Call eff xs) m m"
| step_escape: "leaks xs m m' \<Longrightarrow> own_step (Escape xs) m m'"
| step_mutate_in_place: "m_env m x = Some a \<Longrightarrow> m_refs m a = 1 \<Longrightarrow>
     own_step (ArrayMutation x) m (write_buffer a d m)"
| step_mutate_copy: "m_env m x = Some a \<Longrightarrow> m_refs (drop_binding x m) b = 0 \<Longrightarrow>
     own_step (ArrayMutation x) m (alloc_buffer x b d (drop_binding x m))"
| step_bounds: "own_step (CheckedArrayBounds st x) m m"
| step_detach_unique: "m_env m x = Some a \<Longrightarrow> m_refs m a = 1 \<Longrightarrow>
     own_step (CowDetach st x flat False) m m"
| step_detach_copy: "m_env m x = Some a \<Longrightarrow> m_refs m a \<noteq> 1 \<Longrightarrow>
     m_refs (drop_binding x m) b = 0 \<Longrightarrow>
     own_step (CowDetach st x flat False) m (alloc_buffer x b (m_data m a) (drop_binding x m))"
| step_detach_elided: "m_env m x = Some a \<Longrightarrow> own_step (CowDetach st x flat True) m m"
| step_store: "m_env m x = Some a \<Longrightarrow> length d = length (m_data m a) \<Longrightarrow>
     own_step (ArrayStore st x) m (write_buffer a d m)"
| step_read: "own_step (Read x) m m"

inductive_cases own_stepE: "own_step op m m'"

text \<open>At any time temporaries are dropped and bindings go out of scope.\<close>

definition own_tau :: "machine \<Rightarrow> machine \<Rightarrow> bool" where
  "own_tau m m' \<longleftrightarrow> machine_wf m' \<and> m_env m' \<subseteq>\<^sub>m m_env m \<and> (\<forall>a. m_refs m' a \<le> m_refs m a)
     \<and> m_data m' = m_data m"

section \<open>The states describe the machine\<close>

definition state_holds :: "state_map \<Rightarrow> machine \<Rightarrow> bool" where
  "state_holds s m \<longleftrightarrow> machine_wf m
     \<and> (\<forall>x a. bt_get s x = Some Unique \<longrightarrow> m_env m x = Some a \<longrightarrow> m_refs m a = 1)"

definition not_elided :: "operation \<Rightarrow> bool" where
  "not_elided op \<longleftrightarrow> (case op of CowDetach _ _ _ elided \<Rightarrow> \<not> elided | _ \<Rightarrow> True)"

lemma unique_holder:
  assumes "machine_wf m" "m_env m x = Some a" "m_refs m a = 1" "m_env m y = Some a"
  shows "y = x"
proof (rule ccontr)
  assume "y \<noteq> x"
  then have "card {x, y} = 2" by simp
  moreover have "{x, y} \<subseteq> holders m a" using assms by (auto simp: holders_def)
  then have "card {x, y} \<le> card (holders m a)"
    using assms(1) by (intro card_mono) (auto simp: machine_wf_def)
  ultimately show False using assms(1,3) by (auto simp: machine_wf_def dest: spec [of _ a])
qed

lemma held_positive: "machine_wf m \<Longrightarrow> m_env m x = Some a \<Longrightarrow> 0 < m_refs m a"
proof -
  assume "machine_wf m" "m_env m x = Some a"
  then have "0 < card (holders m a)" "card (holders m a) \<le> m_refs m a"
    by (auto simp: machine_wf_def holders_def card_gt_0_iff)
  then show ?thesis by simp
qed

lemma drop_binding_simps [simp]:
  "m_env (drop_binding x m) = (m_env m)(x := None)"
  "m_data (drop_binding x m) = m_data m"
  "m_refs (drop_binding x m) a = (if m_env m x = Some a then m_refs m a - 1 else m_refs m a)"
  by (auto simp: drop_binding_def split: option.split)

lemma holders_upd:
  "holders (m\<lparr>m_env := (m_env m)(x := v)\<rparr>) a
     = (if v = Some a then insert x (holders m a) else holders m a - {x})"
  by (auto simp: holders_def)

lemma holders_cong: "m_env m = m_env m' \<Longrightarrow> holders m a = holders m' a"
  by (simp add: holders_def)

lemma machine_wf_drop: "machine_wf m \<Longrightarrow> machine_wf (drop_binding x m)"
proof -
  assume wf: "machine_wf m"
  have h: "holders (drop_binding x m) a = holders m a - {x}" for a
    by (auto simp: holders_def)
  have "card (holders m a - {x}) \<le> m_refs (drop_binding x m) a" for a
  proof (cases "m_env m x = Some a")
    case True
    then have "x \<in> holders m a" by (simp add: holders_def)
    then show ?thesis
      using wf True by (simp add: machine_wf_def card_Diff_singleton diff_le_mono)
  next
    case False
    then have "x \<notin> holders m a" by (simp add: holders_def)
    then show ?thesis using wf False by (simp add: machine_wf_def)
  qed
  then show ?thesis using wf by (simp add: machine_wf_def h)
qed

lemma machine_wf_bind:
  assumes wf: "machine_wf m" and spare: "spare_reference m a"
  shows "machine_wf (bind_buffer x a m)"
proof -
  have h: "holders (bind_buffer x a m) c = (if c = a then insert x (holders m c) else holders m c - {x})" for c
    by (auto simp: bind_buffer_def holders_def)
  have fin: "finite (holders m c)" "card (holders m c) \<le> m_refs m c" for c
    using wf by (auto simp: machine_wf_def)
  have "card (insert x (holders m a)) \<le> m_refs m a"
    using spare card_insert_le_m1 [of "m_refs m a" "holders m a" x] fin
    by (auto simp: spare_reference_def card_insert_if)
  moreover have "card (holders m c - {x}) \<le> m_refs m c" for c
    using card_Diff1_le [of "holders m c" x] fin(2) [of c] by (rule le_trans)
  ultimately show ?thesis
    using fin unfolding machine_wf_def h by (auto simp: bind_buffer_def)
qed

lemma machine_wf_alloc:
  assumes wf: "machine_wf m" and fresh: "m_refs m a = 0"
  shows "machine_wf (alloc_buffer x a d m)"
proof -
  have h: "holders (alloc_buffer x a d m) c = (if c = a then insert x (holders m c) else holders m c - {x})" for c
    by (auto simp: alloc_buffer_def holders_def)
  have fin: "finite (holders m c)" "card (holders m c) \<le> m_refs m c" for c
    using wf by (auto simp: machine_wf_def)
  have "holders m a = {}" using fin [of a] fresh by simp
  moreover have "card (holders m c - {x}) \<le> m_refs m c" for c
    using card_Diff1_le [of "holders m c" x] fin(2) [of c] by (rule le_trans)
  ultimately show ?thesis
    using fin unfolding machine_wf_def h by (auto simp: alloc_buffer_def)
qed

lemma machine_wf_leaks: "machine_wf m \<Longrightarrow> leaks xs m m' \<Longrightarrow> machine_wf m'"
  unfolding machine_wf_def leaks_def by (metis holders_cong le_trans)

lemma machine_wf_write [simp]: "machine_wf (write_buffer a d m) = machine_wf m"
  by (simp add: machine_wf_def write_buffer_def holders_def)

lemma machine_wf_retain:
  "machine_wf m \<Longrightarrow> machine_wf (m\<lparr>m_refs := (m_refs m)(a := m_refs m a + 1)\<rparr>)"
  by (auto simp: machine_wf_def holders_def le_SucI)

lemma machine_wf_move: "machine_wf m \<Longrightarrow> machine_wf (m\<lparr>m_env := (m_env m)(x := None)\<rparr>)"
proof -
  assume wf: "machine_wf m"
  have "holders (m\<lparr>m_env := (m_env m)(x := None)\<rparr>) a = holders m a - {x}" for a
    by (simp add: holders_upd)
  moreover have "card (holders m a - {x}) \<le> m_refs m a" for a
    using card_Diff1_le [of "holders m a" x] wf by (auto simp: machine_wf_def intro: le_trans)
  ultimately show ?thesis using wf by (simp add: machine_wf_def)
qed

lemma machine_wf_step: "machine_wf m \<Longrightarrow> own_step op m m' \<Longrightarrow> machine_wf m'"
  by (erule own_stepE)
    (auto intro: machine_wf_drop machine_wf_bind machine_wf_alloc machine_wf_leaks
      machine_wf_retain [simplified] machine_wf_move)

text \<open>
  The bindings an operation may change the sharing of: all, or a listed few. A binding that is the only
  holder of its buffer stays so when it is not among them.
\<close>

definition disturbs :: "operation \<Rightarrow> string \<Rightarrow> bool" where
  "disturbs op y = (case op of
       FreshArray x \<Rightarrow> y = x
     | Retain x \<Rightarrow> y = x
     | Release x \<Rightarrow> y = x
     | Move x \<Rightarrow> y = x
     | AliasArray x z \<Rightarrow> y = x \<or> y = z
     | AssignUnknown x \<Rightarrow> y = x
     | Call eff xs \<Rightarrow> invalidates_ownership_proofs eff \<or> (may_escape_arguments eff \<and> y \<in> set xs)
     | Escape xs \<Rightarrow> y \<in> set xs
     | ArrayMutation x \<Rightarrow> y = x
     | CowDetach _ x _ _ \<Rightarrow> y = x
     | _ \<Rightarrow> False)"

lemma leaks_undisturbed:
  assumes "machine_wf m" "leaks xs m m'" "y \<notin> set xs" "m_env m y = Some a" "m_refs m a = 1"
  shows "m_env m' y = Some a" "m_refs m' a = 1"
  using assms unique_holder [OF assms(1,4,5)] unfolding leaks_def by metis+

lemma undisturbed:
  assumes wf: "machine_wf m" and step: "own_step op m m'" and nd: "\<not> disturbs op y"
    and u: "\<And>a. m_env m y = Some a \<Longrightarrow> m_refs m a = 1" and y: "m_env m' y = Some a"
  shows "m_refs m' a = 1"
proof -
  have env: "m_env m y = Some a"
    using step nd y
    by (cases rule: own_stepE)
      (auto simp: disturbs_def alloc_buffer_def bind_buffer_def write_buffer_def leaks_def split: if_splits)
  then have one: "m_refs m a = 1" by (rule u)
  have other: "m_env m x \<noteq> Some a" if "x \<noteq> y" for x
    using unique_holder [OF wf env one] that by blast
  show ?thesis
    using step nd
    by (cases rule: own_stepE)
      (use env one other leaks_undisturbed [OF wf _ _ env one] in
        \<open>auto simp: disturbs_def alloc_buffer_def bind_buffer_def write_buffer_def split: if_splits\<close>)
qed

text \<open>The transfer function claims \<open>Unique\<close> only of undisturbed bindings and of fresh buffers.\<close>

lemma transfer_unique:
  assumes "bt_wf s" "bt_get (transfer_operation op s) y = Some Unique"
  shows "(\<not> disturbs op y \<and> bt_get s y = Some Unique)
    \<or> op = FreshArray y \<or> (\<exists>st flat elided. op = CowDetach st y flat elided)"
  using assms
  by (cases op)
    (auto simp: transfer_operation_def disturbs_def bt.get_put bt.wf_put bt_get_insert_all
      split: if_splits)

lemma transfer_sound:
  assumes "bt_wf s" "not_elided op" "state_holds s m" "own_step op m m'"
  shows "state_holds (transfer_operation op s) m'"
  unfolding state_holds_def
proof (intro conjI allI impI)
  have wf: "machine_wf m" using assms(3) by (simp add: state_holds_def)
  then show "machine_wf m'" using machine_wf_step assms(4) by blast
  fix y a assume y: "bt_get (transfer_operation op s) y = Some Unique" "m_env m' y = Some a"
  consider (kept) "\<not> disturbs op y" "bt_get s y = Some Unique" | (fresh) "op = FreshArray y"
    | (detach) st flat where "op = CowDetach st y flat False"
    using transfer_unique [OF assms(1) y(1)] assms(2) by (auto simp: not_elided_def)
  then show "m_refs m' a = 1"
  proof cases
    case kept
    then show ?thesis
      using undisturbed [OF wf assms(4)] y(2) assms(3) by (simp add: state_holds_def)
  next
    case fresh
    then show ?thesis
      using assms(4) y(2) by (auto elim!: own_stepE simp: alloc_buffer_def)
  next
    case detach
    then show ?thesis
      using assms(4) y(2) by (auto elim!: own_stepE simp: alloc_buffer_def)
  qed
qed

lemma tau_sound: "state_holds s m \<Longrightarrow> own_tau m m' \<Longrightarrow> state_holds s m'"
proof -
  assume h: "state_holds s m" "own_tau m m'"
  have "m_refs m' a = 1" if "bt_get s x = Some Unique" "m_env m' x = Some a" for x a
  proof -
    have "m_env m x = Some a"
      using h(2) that(2) by (auto simp: own_tau_def map_le_def dom_def)
    then have "m_refs m a = 1" using h(1) that(1) by (simp add: state_holds_def)
    moreover have "0 < m_refs m' a"
      using held_positive that(2) h(2) by (auto simp: own_tau_def)
    moreover have "m_refs m' a \<le> m_refs m a" using h(2) by (simp add: own_tau_def)
    ultimately show ?thesis by linarith
  qed
  then show ?thesis using h(2) by (simp add: state_holds_def own_tau_def)
qed

interpretation own: sound_analysis state_le bt_wf join_states known_bindings transfer_operation
  state_holds own_step own_tau not_elided
proof unfold_locales
  fix a b :: state_map and op and m m'
  show "state_le a b \<Longrightarrow> state_holds a m \<Longrightarrow> state_holds b m"
    by (auto simp: state_holds_def state_le_def)
  show "bt_wf a \<Longrightarrow> not_elided op \<Longrightarrow> state_holds a m \<Longrightarrow> own_step op m m' \<Longrightarrow>
      state_holds (transfer_operation op a) m'"
    by (rule transfer_sound)
  show "state_holds a m \<Longrightarrow> own_tau m m' \<Longrightarrow> state_holds a m'"
    by (rule tau_sound)
qed

section \<open>The proven detaches\<close>

definition provable_detach :: "state_map \<Rightarrow> operation \<Rightarrow> bool" where
  "provable_detach s op \<longleftrightarrow>
     (case op of CowDetach st x flat elided \<Rightarrow> flat \<and> bt_get s x = Some Unique | _ \<Rightarrow> False)"

definition elide_operation :: "state_map \<Rightarrow> operation \<Rightarrow> operation" where
  "elide_operation s op = (case op of
       CowDetach st x flat elided \<Rightarrow> if provable_detach s op then CowDetach st x flat True else op
     | _ \<Rightarrow> op)"

definition detach_statement :: "operation \<Rightarrow> u32 set" where
  "detach_statement op = (case op of CowDetach st _ _ _ \<Rightarrow> {st} | _ \<Rightarrow> {})"

definition add_statement :: "operation \<Rightarrow> u32 list \<Rightarrow> u32 list" where
  "add_statement op proven = (case op of CowDetach st _ _ _ \<Rightarrow> bs_insert st proven | _ \<Rightarrow> proven)"

definition prove_operation :: "state_map \<Rightarrow> operation \<Rightarrow> u32 list \<Rightarrow> u32 list" where
  "prove_operation s op proven = (if provable_detach s op then add_statement op proven else proven)"

definition state_before :: "operation list \<Rightarrow> state_map \<Rightarrow> nat \<Rightarrow> state_map" where
  "state_before ops s k = fold transfer_operation (take k ops) s"

lemma elide_transfer [simp]: "transfer_operation (elide_operation s' op) s = transfer_operation op s"
  by (simp add: elide_operation_def transfer_operation_def split: operation.split)

lemma elide_operations_eq:
  "elide_operations ops s proven =
     (map (\<lambda>k. elide_operation (state_before ops s k) (ops ! k)) [0..<length ops],
      fold (\<lambda>k. prove_operation (state_before ops s k) (ops ! k)) [0..<length ops] proven)"
proof (induction ops arbitrary: s proven)
  case (Cons op ops)
  have upt: "[0..<length (op # ops)] = 0 # map Suc [0..<length ops]"
    by (simp add: upt_conv_Cons map_Suc_upt del: upt_Suc)
  have first: "(case op of
            CowDetach statement binding flat_array elided \<Rightarrow>
              if flat_array \<and> bt_get s binding = Some Unique
              then (CowDetach statement binding flat_array True, bs_insert statement proven)
              else (op, proven)
          | _ \<Rightarrow> (op, proven))
      = (elide_operation s op, prove_operation s op proven)"
    by (simp add: prove_operation_def add_statement_def elide_operation_def provable_detach_def split: operation.split)
  show ?case
    by (simp only: elide_operations.simps first Let_def prod.case elide_transfer Cons.IH upt)
      (simp add: state_before_def comp_def fold_map)
qed simp

lemma fold_proven:
  "set (fold (\<lambda>k. prove_operation (g k) (f k)) ks proven)
     = set proven \<union> (\<Union>k \<in> {k \<in> set ks. provable_detach (g k) (f k)}. detach_statement (f k))"
  by (induction ks arbitrary: proven) (auto simp: prove_operation_def detach_statement_def add_statement_def split: operation.splits)

text \<open>The operations of the result, by block and position.\<close>

definition elided_block :: "state_map option list \<Rightarrow> basic_block \<Rightarrow> basic_block" where
  "elided_block ins blk = (case ins ! block_id blk of
       None \<Rightarrow> blk
     | Some s \<Rightarrow> blk\<lparr>block_operations := fst (elide_operations (block_operations blk) s [])\<rparr>)"

definition proven_in :: "state_map option list \<Rightarrow> basic_block \<Rightarrow> u32 set" where
  "proven_in ins blk = (case ins ! block_id blk of
       None \<Rightarrow> {}
     | Some s \<Rightarrow> \<Union>k \<in> {k. k < length (block_operations blk)
           \<and> provable_detach (state_before (block_operations blk) s k) (block_operations blk ! k)}.
         detach_statement (block_operations blk ! k))"

lemma elide_operations_fst: "fst (elide_operations ops s proven) = fst (elide_operations ops s [])"
  by (simp add: elide_operations_eq)

lemma elide_blocks_eq:
  assumes "\<forall>blk \<in> set blocks. block_id blk < length ins"
  shows "\<exists>proven'. elide_blocks ins blocks proven = Some (map (elided_block ins) blocks, proven')
    \<and> set proven' = set proven \<union> (\<Union>blk \<in> set blocks. proven_in ins blk)"
  using assms
proof (induction blocks arbitrary: proven)
  case (Cons blk blocks)
  show ?case
  proof (cases "ins ! block_id blk")
    case None
    then show ?thesis
      using Cons.IH [of proven] Cons.prems by (auto simp: elided_block_def proven_in_def)
  next
    case (Some s)
    obtain ops p where e: "elide_operations (block_operations blk) s proven = (ops, p)"
      by fastforce
    have ops: "ops = fst (elide_operations (block_operations blk) s [])"
      using e elide_operations_fst [of _ s proven] by (metis fst_conv)
    have p: "set p = set proven \<union> proven_in ins blk"
      using e Some by (auto simp: elide_operations_eq fold_proven proven_in_def)
    obtain p' where "elide_blocks ins blocks p = Some (map (elided_block ins) blocks, p')"
        "set p' = set p \<union> (\<Union>blk \<in> set blocks. proven_in ins blk)"
      using Cons.IH [of p] Cons.prems by auto
    then show ?thesis
      using Cons.prems Some e ops p by (simp add: elided_block_def Un_assoc)
  qed
qed simp

lemma initial_state_wf:
  "bt_wf (fold (\<lambda>name state. bt_insert name Unknown state) eligible [])"
proof -
  have "bt_wf (fold (\<lambda>name state. bt_insert name Unknown state) eligible s)" if "bt_wf s" for s
    using that by (induction eligible arbitrary: s) (auto simp: bt.wf_put)
  then show ?thesis by (simp add: bt.wf_empty)
qed

lemma initial_state_unknown:
  "bt_get (fold (\<lambda>name state. bt_insert name Unknown state) eligible []) x \<noteq> Some Unique"
proof -
  have "bt_get (fold (\<lambda>name state. bt_insert name Unknown state) eligible s) x \<noteq> Some Unique"
    if "bt_wf s" "bt_get s x \<noteq> Some Unique" for s
    using that by (induction eligible arbitrary: s) (auto simp: bt.wf_put bt.get_put)
  from this [of "[]"] show ?thesis by (simp add: bt.wf_empty)
qed

text \<open>The result of \<open>prove_unique_detaches\<close> on a well-formed graph, from the final input states.\<close>

definition proof_result ::
    "function_cfg \<Rightarrow> state_map option list \<Rightarrow> function_cfg \<Rightarrow> u32 list \<Rightarrow> bool" where
  "proof_result cfg ins cfg' proven \<longleftrightarrow>
     (\<exists>initial. flow_inv (cfg_blocks cfg) (cfg_entry cfg) initial ins []
        \<and> (\<forall>x. bt_get initial x \<noteq> Some Unique))
     \<and> cfg' = cfg\<lparr>cfg_blocks := map (elided_block ins) (cfg_blocks cfg)\<rparr>
     \<and> set proven = (\<Union>blk \<in> set (cfg_blocks cfg). proven_in ins blk)"

lemma cfg_wf_successors: "cfg_wf cfg \<Longrightarrow> successors_in_range (cfg_blocks cfg)"
  by (auto simp: cfg_wf_def successors_in_range_def block_successors_def)

lemma cfg_wf_id: "cfg_wf cfg \<Longrightarrow> b < length (cfg_blocks cfg) \<Longrightarrow> block_id (cfg_blocks cfg ! b) = b"
  unfolding cfg_wf_def by (metis add_0 length_map map_nth nth_map nth_upt)

lemma prove_unique_detaches_total:
  assumes wf: "cfg_wf cfg"
  shows "\<exists>ins cfg' proven. prove_unique_detaches cfg eligible = Some (cfg', proven)
    \<and> proof_result cfg ins cfg' proven"
proof -
  let ?init = "fold (\<lambda>name state. bt_insert name Unknown state) eligible []"
  let ?n = "length (cfg_blocks cfg)"
  let ?ins = "(replicate ?n None)[cfg_entry cfg := Some ?init]"
  have entry: "cfg_entry cfg < ?n" using wf by (simp add: cfg_wf_def)
  have "flow_inv (cfg_blocks cfg) (cfg_entry cfg) ?init ?ins [cfg_entry cfg]"
    using entry initial_state_wf [of eligible]
    by (auto simp: flow_inv_def slots_valid_def block_flows_def nth_list_update sa.le_refl
        dest!: set_update_subset_insert [THEN subsetD] split: if_splits)
  from propagate_correct [OF this cfg_wf_successors [OF wf] entry] obtain ins
    where ins: "propagate (cfg_blocks cfg) ?ins [cfg_entry cfg] = Some ins"
      "flow_inv (cfg_blocks cfg) (cfg_entry cfg) ?init ins []"
    by blast
  have "\<forall>blk \<in> set (cfg_blocks cfg). block_id blk < length ins"
    using ins(2) cfg_wf_id [OF wf] by (auto simp: flow_inv_def in_set_conv_nth)
  from elide_blocks_eq [OF this, of "[]"] obtain proven
    where "elide_blocks ins (cfg_blocks cfg) [] = Some (map (elided_block ins) (cfg_blocks cfg), proven)"
      "set proven = (\<Union>blk \<in> set (cfg_blocks cfg). proven_in ins blk)"
    by auto
  then show ?thesis
    using ins entry initial_state_unknown [of eligible]
    by (auto simp: prove_unique_detaches_def proof_result_def Let_def)
qed

section \<open>Eliding a proven detach changes no execution\<close>

definition reaches_at :: "function_cfg \<Rightarrow> nat \<Rightarrow> nat \<Rightarrow> machine \<Rightarrow> bool" where
  "reaches_at cfg b k m \<longleftrightarrow> k \<le> length (operations_at cfg b)
     \<and> cfg_reaches own_step own_tau machine_wf cfg b (drop k (operations_at cfg b)) m"

definition nothing_elided :: "function_cfg \<Rightarrow> bool" where
  "nothing_elided cfg \<longleftrightarrow> (\<forall>blk \<in> set (cfg_blocks cfg). \<forall>op \<in> set (block_operations blk). not_elided op)"

text \<open>A graph of the builder, the final input states of the worklist and the marked graph.\<close>

definition proven_graph ::
    "function_cfg \<Rightarrow> state_map option list \<Rightarrow> function_cfg \<Rightarrow> u32 list \<Rightarrow> bool" where
  "proven_graph cfg ins cfg' proven \<longleftrightarrow>
     cfg_wf cfg \<and> nothing_elided cfg \<and> proof_result cfg ins cfg' proven"

lemma proven_graphD:
  assumes "proven_graph cfg ins cfg' proven"
  shows "cfg_wf cfg" "nothing_elided cfg" "proof_result cfg ins cfg' proven"
  using assms by (simp_all add: proven_graph_def)

lemma cfg'_eq: "proven_graph cfg ins cfg' proven \<Longrightarrow> cfg' = cfg\<lparr>cfg_blocks := map (elided_block ins) (cfg_blocks cfg)\<rparr>"
  by (simp add: proven_graph_def proof_result_def)

lemma length_ins: "proven_graph cfg ins cfg' proven \<Longrightarrow> length ins = length (cfg_blocks cfg)"
  by (auto simp: proven_graph_def proof_result_def flow_inv_def)

lemma successors': "proven_graph cfg ins cfg' proven \<Longrightarrow> b < length (cfg_blocks cfg) \<Longrightarrow>
    block_successors (cfg_blocks cfg') b = block_successors (cfg_blocks cfg) b"
  using cfg'_eq [of cfg ins cfg' proven]
  by (simp add: block_successors_def elided_block_def split: option.split)

lemma operations_at':
  assumes pg: "proven_graph cfg ins cfg' proven" and "b < length (cfg_blocks cfg)"
  shows "operations_at cfg' b = (case ins ! b of None \<Rightarrow> operations_at cfg b
    | Some s \<Rightarrow> map (\<lambda>k. elide_operation (state_before (operations_at cfg b) s k) (operations_at cfg b ! k))
        [0..<length (operations_at cfg b)])"
  using assms
  by (simp add: cfg'_eq [OF pg] operations_at_def elided_block_def cfg_wf_id [OF proven_graphD(1) [OF pg]]
      elide_operations_eq
      split: option.split)

lemma length_operations_at':
  "proven_graph cfg ins cfg' proven \<Longrightarrow> b < length (cfg_blocks cfg) \<Longrightarrow> length (operations_at cfg' b) = length (operations_at cfg b)"
  by (simp add: operations_at' [of cfg ins cfg' proven] split: option.split)

lemma reaches_state:
  assumes pg: "proven_graph cfg ins cfg' proven" and reach: "cfg_reaches own_step own_tau machine_wf cfg b ops m"
  shows "\<exists>k s. b < length (cfg_blocks cfg) \<and> k \<le> length (operations_at cfg b)
    \<and> ops = drop k (operations_at cfg b) \<and> ins ! b = Some s
    \<and> state_holds (state_before (operations_at cfg b) s k) m"
proof -
  obtain initial where init: "flow_inv (cfg_blocks cfg) (cfg_entry cfg) initial ins []"
      "\<And>x. bt_get initial x \<noteq> Some Unique"
    using proven_graphD(3) [OF pg] by (auto simp: proof_result_def)
  have "\<exists>done s. b < length (cfg_blocks cfg) \<and> operations_at cfg b = done @ ops \<and> ins ! b = Some s
      \<and> state_holds (fold transfer_operation done s) m"
  proof (rule own.reaches_holds [OF reach, where initial = initial])
    show "state_holds initial c" if "machine_wf c" for c
      using that init(2) by (simp add: state_holds_def)
    show "\<exists>s. ins ! cfg_entry cfg = Some s \<and> state_le initial s"
      using init(1) by (simp add: flow_inv_def)
    show "t < length (cfg_blocks cfg) \<and> (\<exists>r. ins ! t = Some r
        \<and> state_le (fold transfer_operation (operations_at cfg b) s) r)"
      if "b < length (cfg_blocks cfg)" "ins ! b = Some s" "t \<in> set (block_successors (cfg_blocks cfg) b)"
      for b s t
      using that init(1) cfg_wf_successors [OF proven_graphD(1) [OF pg]]
      by (simp add: flow_inv_def block_flows_def successors_in_range_def block_output_def
          transfer_operations_def operations_at_def)
    show "bt_wf s" if "b < length (cfg_blocks cfg)" "ins ! b = Some s" for b s
      using that init(1) slots_valid_nth length_ins [OF pg] by (metis flow_inv_def)
    show "not_elided op" if "b < length (cfg_blocks cfg)" "op \<in> set (operations_at cfg b)" for b op
      using that proven_graphD(2) [OF pg] by (auto simp: nothing_elided_def operations_at_def)
    show "cfg_entry cfg < length (cfg_blocks cfg)" using proven_graphD(1) [OF pg] by (simp add: cfg_wf_def)
  qed
  then obtain "done" s where d: "b < length (cfg_blocks cfg)" "operations_at cfg b = done @ ops"
      "ins ! b = Some s" "state_holds (fold transfer_operation done s) m"
    by blast
  then show ?thesis
    by (intro exI [of _ "length done"] exI [of _ s]) (simp add: state_before_def)
qed

lemma reaches_at_block:
  "proven_graph cfg ins cfg' proven \<Longrightarrow> reaches_at cfg b k m \<Longrightarrow> b < length (cfg_blocks cfg)"
  unfolding reaches_at_def using reaches_state by blast

text \<open>Where the result elides a detach, the buffer has one reference in every execution.\<close>

lemma elided_unique:
  assumes pg: "proven_graph cfg ins cfg' proven" and r: "reaches_at cfg b k m" and k: "k < length (operations_at cfg b)"
    and e: "operations_at cfg' b ! k \<noteq> operations_at cfg b ! k"
  shows "\<exists>st x flat. operations_at cfg b ! k = CowDetach st x flat False
    \<and> operations_at cfg' b ! k = CowDetach st x flat True
    \<and> (\<forall>a. m_env m x = Some a \<longrightarrow> m_refs m a = 1)"
proof -
  obtain j s where j: "b < length (cfg_blocks cfg)" "j \<le> length (operations_at cfg b)"
      "drop k (operations_at cfg b) = drop j (operations_at cfg b)" "ins ! b = Some s"
      "state_holds (state_before (operations_at cfg b) s j) m"
    using r reaches_state [OF pg] unfolding reaches_at_def by blast
  have "length (drop k (operations_at cfg b)) = length (drop j (operations_at cfg b))"
    using j(3) by simp
  then have "j = k" using k j(2) by simp
  have nth: "operations_at cfg' b ! k
      = elide_operation (state_before (operations_at cfg b) s k) (operations_at cfg b ! k)"
    using j(1,4) k by (simp add: operations_at' [OF pg])
  have "operations_at cfg b ! k \<in> set (operations_at cfg b)" using k by simp
  then have "not_elided (operations_at cfg b ! k)"
    using proven_graphD(2) [OF pg] j(1) by (auto simp: nothing_elided_def operations_at_def)
  then show ?thesis
    using nth e j(5) \<open>j = k\<close>
    by (auto simp: elide_operation_def provable_detach_def not_elided_def state_holds_def
        split: operation.splits if_splits)
qed

lemma same_step:
  assumes pg: "proven_graph cfg ins cfg' proven" and r: "reaches_at cfg b k m" and k: "k < length (operations_at cfg b)"
  shows "own_step (operations_at cfg' b ! k) m m' \<longleftrightarrow> own_step (operations_at cfg b ! k) m m'"
proof (cases "operations_at cfg' b ! k = operations_at cfg b ! k")
  case False
  then obtain st x flat where d: "operations_at cfg b ! k = CowDetach st x flat False"
      "operations_at cfg' b ! k = CowDetach st x flat True"
      "\<And>a. m_env m x = Some a \<Longrightarrow> m_refs m a = 1"
    using elided_unique [OF pg r k] by blast
  show ?thesis
    unfolding d(1,2) using d(3)
    by (auto elim!: own_stepE intro: step_detach_elided step_detach_unique)
qed simp

lemma elided_reaches:
  assumes pg: "proven_graph cfg ins cfg' proven" and reach: "cfg_reaches own_step own_tau machine_wf cfg' b ops m"
  shows "\<exists>k. b < length (cfg_blocks cfg) \<and> ops = drop k (operations_at cfg' b) \<and> reaches_at cfg b k m"
  using reach
proof (induction rule: cfg_reaches.induct)
  case (reach_entry m)
  have "cfg_entry cfg' = cfg_entry cfg" by (simp add: cfg'_eq [OF pg])
  moreover have "reaches_at cfg (cfg_entry cfg) 0 m"
    using cfg_reaches.reach_entry [of machine_wf m] reach_entry by (simp add: reaches_at_def)
  ultimately show ?case
    using reaches_at_block [OF pg] by (intro exI [of _ 0]) auto
next
  case (reach_step b op ops m m')
  then obtain k where k: "b < length (cfg_blocks cfg)" "op # ops = drop k (operations_at cfg' b)"
      "reaches_at cfg b k m"
    by blast
  have lt: "k < length (operations_at cfg' b)"
    using k(2) by (metis drop_eq_Nil list.distinct(1) not_le)
  then have lt': "k < length (operations_at cfg b)" using length_operations_at' [OF pg k(1)] by simp
  have op: "op = operations_at cfg' b ! k" "ops = drop (Suc k) (operations_at cfg' b)"
    using k(2) Cons_nth_drop_Suc [OF lt] by (metis list.inject)+
  have "own_step (operations_at cfg b ! k) m m'"
    using same_step [OF pg k(3) lt'] reach_step.hyps(2) op(1) by simp
  moreover have "cfg_reaches own_step own_tau machine_wf cfg b
      (operations_at cfg b ! k # drop (Suc k) (operations_at cfg b)) m"
    using k(3) Cons_nth_drop_Suc [OF lt'] by (simp add: reaches_at_def)
  ultimately have "reaches_at cfg b (Suc k) m'"
    using cfg_reaches.reach_step lt' by (simp add: reaches_at_def)
  then show ?case using k(1) op(2) by blast
next
  case (reach_tau b ops m m')
  then obtain k where k: "b < length (cfg_blocks cfg)" "ops = drop k (operations_at cfg' b)"
      "reaches_at cfg b k m"
    by blast
  have "reaches_at cfg b k m'"
    using k(3) cfg_reaches.reach_tau [where tau = own_tau, OF _ reach_tau.hyps(2)]
    by (simp add: reaches_at_def)
  then show ?case using k(1,2) by blast
next
  case (reach_jump b m t)
  then obtain k where k: "b < length (cfg_blocks cfg)" "[] = drop k (operations_at cfg' b)"
      "reaches_at cfg b k m"
    by blast
  then have "cfg_reaches own_step own_tau machine_wf cfg b [] m"
    using length_operations_at' [OF pg k(1)] by (simp add: reaches_at_def)
  then have "cfg_reaches own_step own_tau machine_wf cfg t (operations_at cfg t) m"
    using cfg_reaches.reach_jump reach_jump.hyps(2) successors' [OF pg k(1)] by metis
  then have "reaches_at cfg t 0 m" by (simp add: reaches_at_def)
  then show ?case using reaches_at_block [OF pg] by (intro exI [of _ 0]) auto
qed

lemma original_reaches:
  assumes pg: "proven_graph cfg ins cfg' proven" and reach: "cfg_reaches own_step own_tau machine_wf cfg b ops m"
  shows "\<exists>k. b < length (cfg_blocks cfg) \<and> ops = drop k (operations_at cfg b)
    \<and> k \<le> length (operations_at cfg b)
    \<and> cfg_reaches own_step own_tau machine_wf cfg' b (drop k (operations_at cfg' b)) m"
  using reach
proof (induction rule: cfg_reaches.induct)
  case (reach_entry m)
  have "cfg_entry cfg' = cfg_entry cfg" by (simp add: cfg'_eq [OF pg])
  then show ?case
    using cfg_reaches.reach_entry [of machine_wf m own_step own_tau cfg'] reach_entry proven_graphD(1) [OF pg]
    by (intro exI [of _ 0]) (auto simp: cfg_wf_def)
next
  case (reach_step b op ops m m')
  then obtain k where k: "b < length (cfg_blocks cfg)" "op # ops = drop k (operations_at cfg b)"
      "k \<le> length (operations_at cfg b)"
      "cfg_reaches own_step own_tau machine_wf cfg' b (drop k (operations_at cfg' b)) m"
    by blast
  have lt: "k < length (operations_at cfg b)"
    using k(2) by (metis drop_eq_Nil list.distinct(1) not_le)
  then have lt': "k < length (operations_at cfg' b)" using length_operations_at' [OF pg k(1)] by simp
  have op: "op = operations_at cfg b ! k" "ops = drop (Suc k) (operations_at cfg b)"
    using k(2) Cons_nth_drop_Suc [OF lt] by (metis list.inject)+
  have "reaches_at cfg b k m"
    using reach_step.hyps(1) k(2,3) by (simp add: reaches_at_def)
  then have "own_step (operations_at cfg' b ! k) m m'"
    using same_step [OF pg _ lt] reach_step.hyps(2) op(1) by simp
  moreover have "cfg_reaches own_step own_tau machine_wf cfg' b
      (operations_at cfg' b ! k # drop (Suc k) (operations_at cfg' b)) m"
    using k(4) Cons_nth_drop_Suc [OF lt'] by simp
  ultimately have "cfg_reaches own_step own_tau machine_wf cfg' b (drop (Suc k) (operations_at cfg' b)) m'"
    by (rule cfg_reaches.reach_step [rotated])
  then show ?case using k(1) op(2) lt by (metis Suc_leI)
next
  case (reach_tau b ops m m')
  then obtain k where k: "b < length (cfg_blocks cfg)" "ops = drop k (operations_at cfg b)"
      "k \<le> length (operations_at cfg b)"
      "cfg_reaches own_step own_tau machine_wf cfg' b (drop k (operations_at cfg' b)) m"
    by blast
  then show ?case
    using cfg_reaches.reach_tau [where tau = own_tau, OF k(4) reach_tau.hyps(2)] by blast
next
  case (reach_jump b m t)
  then obtain k where k: "b < length (cfg_blocks cfg)" "[] = drop k (operations_at cfg b)"
      "cfg_reaches own_step own_tau machine_wf cfg' b (drop k (operations_at cfg' b)) m"
    by blast
  then have "cfg_reaches own_step own_tau machine_wf cfg' b [] m"
    using length_operations_at' [OF pg k(1)] by (metis drop_eq_Nil)
  then have "cfg_reaches own_step own_tau machine_wf cfg' t (operations_at cfg' t) m"
    using cfg_reaches.reach_jump reach_jump.hyps(2) successors' [OF pg k(1)] by metis
  moreover have "t < length (cfg_blocks cfg)"
    using reach_jump.hyps(2) k(1) cfg_wf_successors [OF proven_graphD(1) [OF pg]] by (simp add: successors_in_range_def)
  ultimately show ?case by (intro exI [of _ 0]) auto
qed

lemma reaches_at_equal:
  assumes pg: "proven_graph cfg ins cfg' proven"
  shows "reaches_at cfg' b k m \<longleftrightarrow> reaches_at cfg b k m"
proof
  assume "reaches_at cfg' b k m"
  then have k: "k \<le> length (operations_at cfg' b)"
      "cfg_reaches own_step own_tau machine_wf cfg' b (drop k (operations_at cfg' b)) m"
    by (simp_all add: reaches_at_def)
  obtain j where j: "b < length (cfg_blocks cfg)"
      "drop k (operations_at cfg' b) = drop j (operations_at cfg' b)" "reaches_at cfg b j m"
    using elided_reaches [OF pg k(2)] by blast
  have "length (drop k (operations_at cfg' b)) = length (drop j (operations_at cfg' b))"
    using j(2) by simp
  moreover have "j \<le> length (operations_at cfg' b)"
    using j(3) length_operations_at' [OF pg j(1)] by (simp add: reaches_at_def)
  ultimately have "j = k" using k(1) by simp
  then show "reaches_at cfg b k m" using j(3) by simp
next
  assume r: "reaches_at cfg b k m"
  then have k: "k \<le> length (operations_at cfg b)"
      "cfg_reaches own_step own_tau machine_wf cfg b (drop k (operations_at cfg b)) m"
    by (simp_all add: reaches_at_def)
  obtain j where j: "b < length (cfg_blocks cfg)"
      "drop k (operations_at cfg b) = drop j (operations_at cfg b)" "j \<le> length (operations_at cfg b)"
      "cfg_reaches own_step own_tau machine_wf cfg' b (drop j (operations_at cfg' b)) m"
    using original_reaches [OF pg k(2)] by blast
  have "length (drop k (operations_at cfg b)) = length (drop j (operations_at cfg b))"
    using j(2) by simp
  then have "j = k" using k(1) j(3) by simp
  then show "reaches_at cfg' b k m"
    using j(4) k(1) length_operations_at' [OF pg j(1)] by (simp add: reaches_at_def)
qed

end
