(* ===== verification/Mir_Optimize.thy ===== *)
theory Mir_Optimize
  imports Mir_Ownership
begin

text \<open>
  \<open>optimize_release_program\<close> of \<open>crates/nomo_mir/src/lib.rs\<close>: for every function that is not suspended,
  the eligible bindings, the graph, the proven detaches and the annotation of the body. Here the parts
  of the other theories meet: the graph of the builder satisfies the hypotheses of the soundness
  lemmas, and the preorder numbers of the builder and of the annotation walk agree.
\<close>

section \<open>The pass\<close>

record function_optimization =
  opt_function :: string
  opt_skipped_suspend :: bool
  opt_cfg :: "function_cfg option"
  opt_checked_unique_stores :: nat

record optimization_report =
  report_functions :: "function_optimization list"
  report_checked_unique_stores :: nat

definition default_report :: optimization_report where
  "default_report = \<lparr>report_functions = [], report_checked_unique_stores = 0\<rparr>"

definition push_function :: "function_optimization \<Rightarrow> optimization_report \<Rightarrow> optimization_report" where
  "push_function opt report = report\<lparr>
     report_checked_unique_stores := report_checked_unique_stores report + opt_checked_unique_stores opt,
     report_functions := report_functions report @ [opt]\<rparr>"

text \<open>One iteration of the loop of \<open>optimize_release_program\<close>.\<close>

definition optimize_function :: "function_decl \<Rightarrow> (function_decl \<times> function_optimization) option" where
  "optimize_function f =
     (if fun_is_suspend f then
        Some (f, \<lparr>opt_function = qualified_function_name f, opt_skipped_suspend = True,
                 opt_cfg = None, opt_checked_unique_stores = 0\<rparr>)
      else do {
        let eligible = eligible_flat_array_bindings f;
        cfg \<leftarrow> build_cfg f (new_builder f eligible);
        (cfg, proven) \<leftarrow> prove_unique_detaches cfg eligible;
        Some (annotate_function f proven,
              \<lparr>opt_function = qualified_function_name f, opt_skipped_suspend = False,
               opt_cfg = Some cfg, opt_checked_unique_stores = length proven\<rparr>)
      })"

fun optimize_functions ::
    "function_decl list \<Rightarrow> optimization_report \<Rightarrow> (function_decl list \<times> optimization_report) option" where
  "optimize_functions [] report = Some ([], report)"
| "optimize_functions (f # fs) report = do {
     (f', opt) \<leftarrow> optimize_function f;
     (fs', report) \<leftarrow> optimize_functions fs (push_function opt report);
     Some (f' # fs', report)
   }"

definition optimize_release_program :: "program \<Rightarrow> (program \<times> optimization_report) option" where
  "optimize_release_program p =
     (let p = reset_mutation_modes p in do {
        (fs, report) \<leftarrow> optimize_functions (prog_functions p) default_report;
        Some (p\<lparr>prog_functions := fs\<rparr>, report)
      })"

section \<open>Numbering of the annotation walk\<close>

definition store_statement :: "statement \<Rightarrow> statement option" where
  "store_statement s = (case s of
     SArrayIndexAssign _ _ _ _ _ \<Rightarrow> Some s | SAssign _ _ \<Rightarrow> Some s | _ \<Rightarrow> None)"

fun marked_stores :: "u32 list \<Rightarrow> u32 \<Rightarrow> statement list \<Rightarrow> statement option list" where
  "marked_stores proven n [] = []"
| "marked_stores proven n (s # ss) =
     store_statement (mark_unique proven n s) # marked_stores proven (n + 1) ss"

lemma marked_stores_append: "marked_stores proven n (xs @ ys) =
    marked_stores proven n xs @ marked_stores proven (n + of_nat (length xs)) ys"
  by (induction xs arbitrary: n) (auto simp: algebra_simps)

lemma marked_stores_nth: "k < length ss \<Longrightarrow> marked_stores proven n ss ! k =
    store_statement (mark_unique proven (n + of_nat k) (ss ! k))"
proof (induction ss arbitrary: n k)
  case (Cons s ss)
  then show ?case by (cases k) (auto simp: algebra_simps)
qed simp

lemma length_marked_stores [simp]: "length (marked_stores proven n ss) = length ss"
  by (induction ss arbitrary: n) auto

definition numbered_walk :: "u32 list \<Rightarrow> u32 \<Rightarrow> statement list \<Rightarrow> statement list \<Rightarrow> u32 \<Rightarrow> bool" where
  "numbered_walk proven n ss ss' n' \<longleftrightarrow>
     map store_statement ss' = marked_stores proven n ss \<and> n' = n + of_nat (length ss)"

lemma numbered_walk_append:
  "numbered_walk proven n xs xs' n1 \<Longrightarrow> numbered_walk proven n1 ys ys' n2 \<Longrightarrow>
     numbered_walk proven n (xs @ ys) (xs' @ ys') n2"
  by (auto simp: numbered_walk_def marked_stores_append algebra_simps)

lemma numbered_walk_Nil [simp]: "numbered_walk proven n [] [] n"
  by (simp add: numbered_walk_def)

lemma numbered_walk_nested:
  "store_statement s = None \<Longrightarrow> store_statement s' = None \<Longrightarrow> mark_unique proven n s = s \<Longrightarrow>
   numbered_walk proven (n + 1) ss ss' n' \<Longrightarrow> numbered_walk proven n (s # ss) (s' # ss') n'"
  by (auto simp: numbered_walk_def algebra_simps)

lemma store_statement_nested [simp]:
  "store_statement (SLetIf a0 a1 a2 a3 a4) = None"
  "store_statement (SIf b0 b1 b2) = None"
  "store_statement (SLetMatch c0 c1 c2 c3 c4 c5) = None"
  "store_statement (SMatch d0 d1 d2 d3) = None"
  "store_statement (SLetElse e0 e1 e2 e3 e4 e5 e6) = None"
  "store_statement (SIfLet f0 f1 f2 f3 f4 f5 f6 f7) = None"
  "store_statement (STaskSelect g0) = None"
  "store_statement (SLoop h0 h1) = None"
  by (simp_all add: store_statement_def)

lemma mark_unique_nested [simp]:
  "mark_unique P x (SLetIf a0 a1 a2 a3 a4) = SLetIf a0 a1 a2 a3 a4"
  "mark_unique P x (SIf b0 b1 b2) = SIf b0 b1 b2"
  "mark_unique P x (SLetMatch c0 c1 c2 c3 c4 c5) = SLetMatch c0 c1 c2 c3 c4 c5"
  "mark_unique P x (SMatch d0 d1 d2 d3) = SMatch d0 d1 d2 d3"
  "mark_unique P x (SLetElse e0 e1 e2 e3 e4 e5 e6) = SLetElse e0 e1 e2 e3 e4 e5 e6"
  "mark_unique P x (SIfLet f0 f1 f2 f3 f4 f5 f6 f7) = SIfLet f0 f1 f2 f3 f4 f5 f6 f7"
  "mark_unique P x (STaskSelect g0) = STaskSelect g0"
  "mark_unique P x (SLoop h0 h1) = SLoop h0 h1"
  by (simp_all add: mark_unique_def)

lemma statement_bodies_mark [simp]: "statement_bodies (mark_unique proven n s) = statement_bodies s"
  by (auto simp: mark_unique_def statement_bodies_def split: statement.split value_expr.split)

lemma numbered_walk_leaf [simp]: "numbered_walk proven n [s] [mark_unique proven n s] (n + 1)"
  by (simp add: numbered_walk_def)

lemma annotate_numbering:
  "numbered_walk proven n (preorder body) (preorder (fst (annotate_body proven body n)))
     (snd (annotate_body proven body n))"
  "numbered_walk proven n (preorder [s]) (preorder [fst (annotate_statement proven s n)])
     (snd (annotate_statement proven s n))"
  "numbered_walk proven n (concat (map (preorder \<circ> stmt_arm_body) marms))
     (concat (map (preorder \<circ> stmt_arm_body) (fst (annotate_match_arms proven marms n))))
     (snd (annotate_match_arms proven marms n))"
  "numbered_walk proven n (concat (map (preorder \<circ> select_body) sarms))
     (concat (map (preorder \<circ> select_body) (fst (annotate_select_arms proven sarms n))))
     (snd (annotate_select_arms proven sarms n))"
proof (induction proven body n and proven s n and proven marms n and proven sarms n
    rule: annotate_body_annotate_statement_annotate_match_arms_annotate_select_arms.induct)
  case (2 proven s body k)
  obtain s' n1 where s: "annotate_statement proven s k = (s', n1)" by fastforce
  obtain b' n2 where b: "annotate_body proven body n1 = (b', n2)" by fastforce
  have "numbered_walk proven k (preorder [s] @ preorder body) (preorder [s'] @ preorder b') n2"
    by (rule numbered_walk_append [where ?n1.0 = n1]) (use 2 s b in auto)
  then show ?case by (simp add: s b)
next
  case (14 proven arm arms k)
  then show ?case by (cases arm) (auto split: prod.splits intro: numbered_walk_append)
next
  case (16 proven arm arms k)
  then show ?case by (cases arm) (auto split: prod.splits intro: numbered_walk_append)
next
  case (3 proven a b c body else_body k)
  obtain b' n1 where b: "annotate_body proven body (k + 1) = (b', n1)" by fastforce
  obtain e' n2 where e: "annotate_body proven else_body n1 = (e', n2)" by fastforce
  have "numbered_walk proven (k + 1) (preorder body @ preorder else_body) (preorder b' @ preorder e') n2"
    by (rule numbered_walk_append [where ?n1.0 = n1]) (use 3 b e in auto)
  then show ?case
    by (simp add: b e statement_bodies_def numbered_walk_nested)
next
  case (4 proven c body else_body k)
  obtain b' n1 where b: "annotate_body proven body (k + 1) = (b', n1)" by fastforce
  obtain e' n2 where e: "annotate_body proven else_body n1 = (e', n2)" by fastforce
  have "numbered_walk proven (k + 1) (preorder body @ preorder else_body) (preorder b' @ preorder e') n2"
    by (rule numbered_walk_append [where ?n1.0 = n1]) (use 4 b e in auto)
  then show ?case
    by (simp add: b e statement_bodies_def numbered_walk_nested)
next
  case (9 proven a b c d e f body else_body k)
  obtain b' n1 where b: "annotate_body proven body (k + 1) = (b', n1)" by fastforce
  obtain e' n2 where e: "annotate_body proven else_body n1 = (e', n2)" by fastforce
  have "numbered_walk proven (k + 1) (preorder body @ preorder else_body) (preorder b' @ preorder e') n2"
    by (rule numbered_walk_append [where ?n1.0 = n1]) (use 9 b e in auto)
  then show ?case
    by (simp add: b e statement_bodies_def numbered_walk_nested)
qed (simp_all add: statement_bodies_simps split_beta numbered_walk_nested comp_def)

section \<open>The pass on one function\<close>

lemma build_cfg_blocks:
  assumes "build_cfg f (new_builder f el) = Some cfg"
  shows "cfg_wf cfg"
    and "mset (map (block_content (cfg_panic_edges cfg)) (cfg_blocks cfg))
       = mset (([], []) # ([], []) # numbered_contents el (fun_body f))"
  using build_cfg_spec [of f el] assms by auto

text \<open>Every block is empty or belongs to one statement; every statement has a block.\<close>

lemma block_statement:
  assumes cfg: "build_cfg f (new_builder f el) = Some cfg" and b: "b < length (cfg_blocks cfg)"
  shows "block_content (cfg_panic_edges cfg) (cfg_blocks cfg ! b) = ([], [])
    \<or> (\<exists>k < length (preorder (fun_body f)). block_content (cfg_panic_edges cfg) (cfg_blocks cfg ! b)
          = statement_operations (preorder (fun_body f) ! k) (of_nat k) el)"
proof -
  have "block_content (cfg_panic_edges cfg) (cfg_blocks cfg ! b)
      \<in> set (map (block_content (cfg_panic_edges cfg)) (cfg_blocks cfg))"
    using b by simp
  also have "\<dots> = set (([], []) # ([], []) # numbered_contents el (fun_body f))"
    using build_cfg_blocks(2) [OF cfg] by (rule mset_eq_setD)
  finally show ?thesis
    by (auto simp: numbered_contents_def in_set_enumerate_eq)
qed

lemma is_store_op_detach: "is_store_op (CowDetach st x flat e)"
  by (simp add: is_store_op_def)

lemma detach_in_statement:
  assumes "CowDetach st x flat e \<in> set (fst (statement_operations s i el))"
  shows "st = i \<and> \<not> e \<and> stored_binding s el = Some x"
  using statement_operations_stores [where s = s and el = el and st = i] assms is_store_op_detach
  by (fastforce split: option.splits)

lemma detach_in_graph:
  assumes cfg: "build_cfg f (new_builder f el) = Some cfg" and b: "b < length (cfg_blocks cfg)"
    and op: "CowDetach st x flat e \<in> set (operations_at cfg b)"
  shows "\<not> e \<and> (\<exists>k < length (preorder (fun_body f)). st = of_nat k
    \<and> stored_binding (preorder (fun_body f) ! k) el = Some x
    \<and> block_content (cfg_panic_edges cfg) (cfg_blocks cfg ! b)
          = statement_operations (preorder (fun_body f) ! k) (of_nat k) el)"
proof -
  obtain k where k: "k < length (preorder (fun_body f))"
      "block_content (cfg_panic_edges cfg) (cfg_blocks cfg ! b)
         = statement_operations (preorder (fun_body f) ! k) (of_nat k) el"
    using block_statement [OF cfg b] op by (auto simp: block_content_def operations_at_def)
  then have "CowDetach st x flat e \<in> set (fst (statement_operations (preorder (fun_body f) ! k) (of_nat k) el))"
    using op by (simp add: block_content_def operations_at_def flip: k(2))
  from detach_in_statement [OF this] k show ?thesis by blast
qed

lemma build_cfg_plain:
  assumes "build_cfg f (new_builder f el) = Some cfg"
  shows "nothing_elided cfg"
  unfolding nothing_elided_def
proof (intro ballI)
  fix blk op assume "blk \<in> set (cfg_blocks cfg)" "op \<in> set (block_operations blk)"
  then obtain b where "b < length (cfg_blocks cfg)" "op \<in> set (operations_at cfg b)"
    by (auto simp: in_set_conv_nth operations_at_def)
  then show "not_elided op"
    using detach_in_graph [OF assms] by (cases op) (fastforce simp: not_elided_def)+
qed

text \<open>Building and proving never panic, and meet the hypotheses of the soundness lemmas.\<close>

lemma pipeline:
  "\<exists>cfg ins cfg' proven. build_cfg f (new_builder f el) = Some cfg
     \<and> prove_unique_detaches cfg el = Some (cfg', proven) \<and> proven_graph cfg ins cfg' proven"
proof -
  obtain cfg where cfg: "build_cfg f (new_builder f el) = Some cfg"
    using build_cfg_spec [of f el] by auto
  show ?thesis
    using prove_unique_detaches_total [OF build_cfg_blocks(1) [OF cfg], of el] cfg
      build_cfg_blocks(1) [OF cfg] build_cfg_plain [OF cfg]
    by (auto simp: proven_graph_def)
qed

lemma pipeline_graph:
  assumes "build_cfg f (new_builder f el) = Some cfg" "prove_unique_detaches cfg el = Some (cfg', proven)"
  shows "\<exists>ins. proven_graph cfg ins cfg' proven"
  using pipeline [of f el] assms by auto

lemma optimize_function_total:
  "\<exists>f' opt. optimize_function f = Some (f', opt)
     \<and> opt_function opt = qualified_function_name f
     \<and> map reset_statement (fun_body f') = map reset_statement (fun_body f)
     \<and> f'\<lparr>fun_body := []\<rparr> = f\<lparr>fun_body := []\<rparr>"
proof (cases "fun_is_suspend f")
  case False
  obtain cfg ins cfg' proven where p:
      "build_cfg f (new_builder f (eligible_flat_array_bindings f)) = Some cfg"
      "prove_unique_detaches cfg (eligible_flat_array_bindings f) = Some (cfg', proven)"
    using pipeline by blast
  then show ?thesis
    using False by (simp add: optimize_function_def annotate_function_def reset_annotate)
qed (simp add: optimize_function_def)

section \<open>The pass on a program\<close>

abbreviation reset_function :: "function_decl \<Rightarrow> function_decl" where
  "reset_function f \<equiv> f\<lparr>fun_body := reset_body_mutation_modes (fun_body f)\<rparr>"

definition report_total :: "optimization_report \<Rightarrow> bool" where
  "report_total report \<longleftrightarrow> report_checked_unique_stores report
     = sum_list (map opt_checked_unique_stores (report_functions report))"

lemma optimize_functions_total:
  "report_total report \<Longrightarrow> \<exists>fs' report'. optimize_functions fs report = Some (fs', report')
     \<and> map reset_function fs' = map reset_function fs
     \<and> map opt_function (report_functions report')
       = map opt_function (report_functions report) @ map qualified_function_name fs
     \<and> report_total report'"
proof (induction fs arbitrary: report)
  case (Cons f fs)
  obtain f' opt where f: "optimize_function f = Some (f', opt)"
      "opt_function opt = qualified_function_name f"
      "map reset_statement (fun_body f') = map reset_statement (fun_body f)"
      "f'\<lparr>fun_body := []\<rparr> = f\<lparr>fun_body := []\<rparr>"
    using optimize_function_total by blast
  have "report_total (push_function opt report)"
    using Cons.prems by (simp add: report_total_def push_function_def)
  then obtain fs' report' where fs: "optimize_functions fs (push_function opt report) = Some (fs', report')"
      "map reset_function fs' = map reset_function fs"
      "map opt_function (report_functions report')
       = map opt_function (report_functions (push_function opt report)) @ map qualified_function_name fs"
      "report_total report'"
    using Cons.IH by blast
  have "reset_function f' = f'\<lparr>fun_body := []\<rparr>\<lparr>fun_body := map reset_statement (fun_body f')\<rparr>"
    by (simp add: reset_body_mutation_modes_def)
  also have "\<dots> = reset_function f"
    unfolding f(3,4) by (simp add: reset_body_mutation_modes_def)
  finally show ?case
    using f fs by (simp add: push_function_def)
qed simp

lemma reset_function_idem: "reset_function (reset_function f) = reset_function f"
  by (simp add: reset_body_mutation_modes_def reset_statement_idem comp_def)

lemma reset_mutation_modes_idem:
  "reset_mutation_modes (reset_mutation_modes p) = reset_mutation_modes p"
  by (simp add: reset_mutation_modes_def comp_def reset_body_mutation_modes_def reset_statement_idem)

lemma reset_with_functions:
  assumes "map reset_function fs' = map reset_function (prog_functions (reset_mutation_modes p))"
  shows "reset_mutation_modes ((reset_mutation_modes p)\<lparr>prog_functions := fs'\<rparr>)
    = reset_mutation_modes p"
proof -
  have "reset_mutation_modes ((reset_mutation_modes p)\<lparr>prog_functions := fs'\<rparr>)
      = (reset_mutation_modes p)\<lparr>prog_functions := map reset_function fs'\<rparr>"
    by (simp add: reset_mutation_modes_def)
  also have "\<dots> = reset_mutation_modes (reset_mutation_modes p)"
    unfolding assms by (simp add: reset_mutation_modes_def)
  finally show ?thesis
    by (simp add: reset_mutation_modes_idem)
qed

lemma default_names: "report_functions default_report = []"
  by (simp add: default_report_def)

lemma optimize_release_program_total:
  "\<exists>p' report. optimize_release_program p = Some (p', report)
     \<and> reset_mutation_modes p' = reset_mutation_modes p
     \<and> map opt_function (report_functions report) = map qualified_function_name (prog_functions p)
     \<and> report_checked_unique_stores report
       = sum_list (map opt_checked_unique_stores (report_functions report))"
proof -
  have "report_total default_report" by (simp add: report_total_def default_report_def)
  then obtain fs' report where r:
      "optimize_functions (prog_functions (reset_mutation_modes p)) default_report = Some (fs', report)"
      "map reset_function fs' = map reset_function (prog_functions (reset_mutation_modes p))"
      "map opt_function (report_functions report)
        = map qualified_function_name (prog_functions (reset_mutation_modes p))"
      "report_total report"
    using optimize_functions_total [of default_report "prog_functions (reset_mutation_modes p)"]
    unfolding default_names by auto
  have names: "map qualified_function_name (prog_functions (reset_mutation_modes p))
      = map qualified_function_name (prog_functions p)"
    by (simp add: reset_mutation_modes_def qualified_function_name_def)
  have "reset_mutation_modes ((reset_mutation_modes p)\<lparr>prog_functions := fs'\<rparr>)
      = reset_mutation_modes p"
    by (rule reset_with_functions [OF r(2)])
  then show ?thesis
    using r names by (simp add: optimize_release_program_def Let_def report_total_def)
qed

text \<open>C11. The release pass never panics on any program, whatever its control flow: it returns a program
  that differs from the input in array mutation modes only (resetting the modes of both gives the same
  program), and a report with one entry per function, in order, whose total adds up.\<close>

theorem optimize_changes_only_modes:
  "\<exists>p' report. optimize_release_program p = Some (p', report)
     \<and> reset_mutation_modes p' = reset_mutation_modes p
     \<and> map opt_function (report_functions report) = map qualified_function_name (prog_functions p)
     \<and> report_checked_unique_stores report
       = sum_list (map opt_checked_unique_stores (report_functions report))"
  by (rule optimize_release_program_total)

lemma optimize_of_reset: "reset_mutation_modes p = reset_mutation_modes q
    \<Longrightarrow> optimize_release_program p = optimize_release_program q"
  by (simp add: optimize_release_program_def)

text \<open>C32. Running the release pass on its own output changes nothing and gives the same report.\<close>

theorem optimize_idempotent:
  "Option.bind (optimize_release_program p) (\<lambda>(p', report). optimize_release_program p')
     = optimize_release_program p"
proof -
  have "report_total default_report" by (simp add: report_total_def default_report_def)
  then obtain fs' report where r:
      "optimize_functions (prog_functions (reset_mutation_modes p)) default_report = Some (fs', report)"
      "map reset_function fs' = map reset_function (prog_functions (reset_mutation_modes p))"
    using optimize_functions_total [of default_report] by blast
  have "optimize_release_program ((reset_mutation_modes p)\<lparr>prog_functions := fs'\<rparr>)
      = optimize_release_program p"
    by (rule optimize_of_reset [OF reset_with_functions [OF r(2)]])
  then show ?thesis
    using r(1) by (simp add: optimize_release_program_def Let_def)
qed

text \<open>C2. The marked graph and the checked graph have the same executions: an execution over
  reference-counted buffers reaches a position of a block with some machine state when elided detaches
  do nothing if and only if it does when every detach is performed. So dropping the detaches that the
  fixed point proves unique is unobservable, aliasing included.\<close>

theorem eliding_preserves_executions:
  "\<exists>cfg cfg' proven. build_cfg f (new_builder f el) = Some cfg
     \<and> prove_unique_detaches cfg el = Some (cfg', proven)
     \<and> (\<forall>b k m. reaches_at cfg' b k m \<longleftrightarrow> reaches_at cfg b k m)"
proof -
  obtain cfg ins cfg' proven where p: "build_cfg f (new_builder f el) = Some cfg"
      "prove_unique_detaches cfg el = Some (cfg', proven)" "proven_graph cfg ins cfg' proven"
    using pipeline by blast
  then show ?thesis using reaches_at_equal [OF p(3)] by blast
qed

definition store_mode :: "statement \<Rightarrow> array_mutation_mode option" where
  "store_mode s = (case s of
       SArrayIndexAssign _ _ _ _ mode \<Rightarrow> Some mode
     | SAssign _ v \<Rightarrow> (case v of EArraySet _ _ _ _ mode \<Rightarrow> Some mode | _ \<Rightarrow> None)
     | _ \<Rightarrow> None)"

lemma store_mode_of_statement: "store_statement s = store_statement t \<Longrightarrow> store_mode s = store_mode t"
  by (cases s; cases t) (auto simp: store_statement_def store_mode_def)

lemma store_mode_mark: "store_mode (mark_unique proven n s) =
    (if n \<in> set proven then map_option (\<lambda>_. CheckedUnique) (store_mode s) else store_mode s)"
  by (auto simp: mark_unique_def store_mode_def split: statement.split value_expr.split)

lemma annotate_store_mode:
  assumes "k < length (preorder body)"
  shows "store_mode (preorder (fst (annotate_body proven body 0)) ! k) =
    (if of_nat k \<in> set proven then map_option (\<lambda>_. CheckedUnique) (store_mode (preorder body ! k))
     else store_mode (preorder body ! k))"
proof -
  let ?ss = "preorder (fst (annotate_body proven body 0))"
  have walk: "map store_statement ?ss = marked_stores proven 0 (preorder body)"
    using annotate_numbering(1) [of proven 0 body] by (simp add: numbered_walk_def)
  then have "k < length ?ss" using assms by (metis length_map length_marked_stores)
  then have "store_statement (?ss ! k) = store_statement (mark_unique proven (of_nat k) (preorder body ! k))"
    using walk marked_stores_nth [OF assms, of proven 0] by (metis add_0 nth_map)
  then show ?thesis
    using store_mode_of_statement store_mode_mark by metis
qed

lemma proven_in_graph:
  assumes pg: "proven_graph cfg ins cfg' proven" and st: "st \<in> set proven"
  shows "\<exists>b < length (cfg_blocks cfg). \<exists>j < length (operations_at cfg b). \<exists>x flat.
    operations_at cfg b ! j = CowDetach st x flat False
    \<and> operations_at cfg' b ! j = CowDetach st x flat True \<and> flat"
proof -
  obtain blk where blk: "blk \<in> set (cfg_blocks cfg)" "st \<in> proven_in ins blk"
    using proven_graphD(3) [OF pg] st by (auto simp: proof_result_def)
  then obtain b where b: "b < length (cfg_blocks cfg)" "cfg_blocks cfg ! b = blk"
    by (auto simp: in_set_conv_nth)
  have id: "block_id blk = b"
    using cfg_wf_id [OF proven_graphD(1) [OF pg] b(1)] b(2) by simp
  obtain s j where j: "ins ! b = Some s" "j < length (operations_at cfg b)"
      "provable_detach (state_before (operations_at cfg b) s j) (operations_at cfg b ! j)"
      "st \<in> detach_statement (operations_at cfg b ! j)"
    using blk(2) b(2) id by (auto simp: proven_in_def operations_at_def split: option.splits)
  obtain x flat e where op: "operations_at cfg b ! j = CowDetach st x flat e" "flat"
    using j(3,4) by (auto simp: provable_detach_def detach_statement_def split: operation.splits)
  have "not_elided (operations_at cfg b ! j)"
    using proven_graphD(2) [OF pg] blk(1) b(2) j(2) by (auto simp: nothing_elided_def operations_at_def)
  then have "\<not> e" by (simp add: op not_elided_def)
  moreover have "operations_at cfg' b ! j
      = elide_operation (state_before (operations_at cfg b) s j) (operations_at cfg b ! j)"
    using operations_at' [OF pg b(1)] j(1,2) by simp
  ultimately show ?thesis
    using b(1) j(2,3) op by (auto simp: elide_operation_def)
qed

lemma of_nat_u32_inject:
  assumes "of_nat k = (of_nat l :: u32)" "k < 2 ^ 32" "l < 2 ^ 32"
  shows "k = l"
proof -
  have "unat (of_nat k :: u32) = k" "unat (of_nat l :: u32) = l"
    using assms(2,3) by (simp_all add: unat_of_nat)
  then show ?thesis using assms(1) by metis
qed

text \<open>C1. A store that the pass switches from \<open>CheckedCow\<close> to \<open>CheckedUnique\<close> writes to a buffer with one
  reference: the marked graph in the report has, for this very statement, an elided detach of the
  binding that the statement stores through, and whenever an execution is about to perform it the
  buffer of that binding has reference count one. The statement's number is its preorder index, a
  \<open>u32\<close>, so a function of more than \<open>2 ^ 32\<close> statements is excluded.\<close>

theorem unique_store_is_unshared:
  assumes opt: "optimize_function f = Some (f', opt)" and cfg': "opt_cfg opt = Some cfg'"
    and k: "k < length (preorder (fun_body f))" and small: "length (preorder (fun_body f)) \<le> 2 ^ 32"
    and before: "store_mode (preorder (fun_body f) ! k) = Some CheckedCow"
    and after: "store_mode (preorder (fun_body f') ! k) = Some CheckedUnique"
  shows "\<exists>b j x. j < length (operations_at cfg' b)
    \<and> operations_at cfg' b ! j = CowDetach (of_nat k) x True True
    \<and> stored_binding (preorder (fun_body f) ! k) (eligible_flat_array_bindings f) = Some x
    \<and> (\<forall>m a. reaches_at cfg' b j m \<longrightarrow> m_env m x = Some a \<longrightarrow> m_refs m a = 1)"
proof -
  let ?el = "eligible_flat_array_bindings f"
  have "\<not> fun_is_suspend f" using opt cfg' by (auto simp: optimize_function_def)
  then obtain cfg proven where p: "build_cfg f (new_builder f ?el) = Some cfg"
      "prove_unique_detaches cfg ?el = Some (cfg', proven)" "f' = annotate_function f proven"
    using opt cfg' by (auto simp: optimize_function_def Let_def Option.bind_eq_Some_conv)
  obtain ins where pg: "proven_graph cfg ins cfg' proven"
    using pipeline_graph [OF p(1,2)] by blast
  have "of_nat k \<in> set proven"
    using annotate_store_mode [OF k, of proven] before after p(3)
    by (auto simp: annotate_function_def split: if_splits)
  then obtain b j x flat where d: "b < length (cfg_blocks cfg)" "j < length (operations_at cfg b)"
      "operations_at cfg b ! j = CowDetach (of_nat k) x flat False"
      "operations_at cfg' b ! j = CowDetach (of_nat k) x flat True" "flat"
    using proven_in_graph [OF pg] by blast
  have "CowDetach (of_nat k) x flat False \<in> set (operations_at cfg b)"
    using d(2,3) by (metis nth_mem)
  then obtain l where l: "l < length (preorder (fun_body f))" "of_nat k = (of_nat l :: u32)"
      "stored_binding (preorder (fun_body f) ! l) ?el = Some x"
    using detach_in_graph [OF p(1) d(1)] by blast
  have "k = l" using of_nat_u32_inject [OF l(2)] k l(1) small by simp
  have "m_refs m a = 1" if "reaches_at cfg' b j m" "m_env m x = Some a" for m a
  proof -
    have "reaches_at cfg b j m" using that(1) reaches_at_equal [OF pg] by blast
    then show ?thesis using elided_unique [OF pg _ d(2)] d(3,4) that(2) by auto
  qed
  then show ?thesis
    using d l(3) \<open>k = l\<close> length_operations_at' [OF pg d(1)]
    by (intro exI [of _ b] exI [of _ j] exI [of _ x]) simp
qed

text \<open>A function that fills an array literal in a loop; its store is statement 2.\<close>

definition example_function :: function_decl where
  "example_function = \<lparr>fun_package = ''demo'', fun_name = ''fill'', fun_is_suspend = False,
     fun_params = [], fun_return_type = TyVoid,
     fun_body = [
       SLet ''xs'' (TyArray TyInt) (EArrayLiteral [EIntLiteral 1] TyInt),
       SLoop (LoopWhile (EBoolLiteral True)) [
         SArrayIndexAssign ''xs'' [EIntLiteral 0] [TyInt] (EIntLiteral 7) CheckedCow]]\<rparr>"

definition example_output :: "(function_decl \<times> function_optimization)" where
  "example_output = the (optimize_function example_function)"

lemma example_length: "length (preorder (fun_body example_function)) = 3"
  by code_simp

lemma example_optimized:
  "optimize_function example_function = Some (fst example_output, snd example_output)"
  by code_simp

lemma example_graph: "opt_cfg (snd example_output) = Some (the (opt_cfg (snd example_output)))"
  by code_simp

lemma example_modes:
  "store_mode (preorder (fun_body example_function) ! 2) = Some CheckedCow"
  "store_mode (preorder (fun_body (fst example_output)) ! 2) = Some CheckedUnique"
  by code_simp+

theorem unique_store_is_unshared_witness:
  "\<exists>b j x. j < length (operations_at (the (opt_cfg (snd example_output))) b)
    \<and> operations_at (the (opt_cfg (snd example_output))) b ! j = CowDetach (of_nat 2) x True True
    \<and> stored_binding (preorder (fun_body example_function) ! 2)
         (eligible_flat_array_bindings example_function) = Some x
    \<and> (\<forall>m a. reaches_at (the (opt_cfg (snd example_output))) b j m \<longrightarrow> m_env m x = Some a
         \<longrightarrow> m_refs m a = 1)"
  by (rule unique_store_is_unshared [OF example_optimized example_graph _ _ example_modes])
    (simp_all add: example_length)

definition detaches_checked :: "function_cfg \<Rightarrow> bool" where
  "detaches_checked cfg \<longleftrightarrow> (\<forall>b < length (cfg_blocks cfg). \<forall>j < length (operations_at cfg b).
     case operations_at cfg b ! j of
       CowDetach st x flat elided \<Rightarrow>
         0 < j \<and> operations_at cfg b ! (j - 1) = CheckedArrayBounds st x
         \<and> \<lparr>panic_from = b, panic_to = cfg_panic_exit cfg, panic_edge_kind = PanicBounds\<rparr>
             \<in> set (cfg_panic_edges cfg)
     | _ \<Rightarrow> True)"

lemma store_position:
  assumes "\<forall>op \<in> set before. \<not> is_store_op op" "j < length (before @ [c, d, e])"
    and "(before @ [CheckedArrayBounds st x, CowDetach st x flat False, ArrayStore st x]) ! j
      = CowDetach st' y flat' el"
  shows "j = Suc (length before)"
proof -
  have "\<not> j < length before"
    using assms(1,3) is_store_op_detach by (metis nth_append nth_mem)
  then have "j = length before \<or> j = Suc (length before) \<or> j = Suc (Suc (length before))"
    using assms(2) by auto
  then show ?thesis using assms(3) by (auto simp: nth_append)
qed

lemma detaches_checked_build:
  assumes cfg: "build_cfg f (new_builder f el) = Some cfg" and b: "b < length (cfg_blocks cfg)"
    and j: "j < length (operations_at cfg b)" and op: "operations_at cfg b ! j = CowDetach st x flat e"
  shows "0 < j \<and> operations_at cfg b ! (j - 1) = CheckedArrayBounds st x
    \<and> \<lparr>panic_from = b, panic_to = cfg_panic_exit cfg, panic_edge_kind = PanicBounds\<rparr>
        \<in> set (cfg_panic_edges cfg)"
proof -
  have "CowDetach st x flat e \<in> set (operations_at cfg b)" using j op by (metis nth_mem)
  then obtain k where k: "st = of_nat k" "stored_binding (preorder (fun_body f) ! k) el = Some x"
      "block_content (cfg_panic_edges cfg) (cfg_blocks cfg ! b)
         = statement_operations (preorder (fun_body f) ! k) (of_nat k) el"
    using detach_in_graph [OF cfg b] by blast
  have ops: "operations_at cfg b = fst (statement_operations (preorder (fun_body f) ! k) st el)"
    and kinds: "kinds_from (cfg_panic_edges cfg) b
      = snd (statement_operations (preorder (fun_body f) ! k) st el)"
    using k(1,3) cfg_wf_id [OF build_cfg_blocks(1) [OF cfg] b]
    by (auto simp: block_content_def operations_at_def dest: arg_cong [of _ _ fst] arg_cong [of _ _ snd])
  obtain before flat' where shape: "operations_at cfg b =
        before @ [CheckedArrayBounds st x, CowDetach st x flat' False, ArrayStore st x]"
      "\<forall>op \<in> set before. \<not> is_store_op op" "PanicBounds \<in> set (kinds_from (cfg_panic_edges cfg) b)"
    unfolding ops kinds
    using statement_operations_stores [where s = "preorder (fun_body f) ! k" and el = el and st = st] k(2)
    by auto
  have "j = Suc (length before)"
    using store_position [OF shape(2), of j] j op unfolding shape(1) by simp
  moreover obtain edge where edge: "edge \<in> set (cfg_panic_edges cfg)" "panic_from edge = b"
      "panic_edge_kind edge = PanicBounds"
    using shape(3) by (auto simp: kinds_from_def)
  moreover have "panic_to edge = cfg_panic_exit cfg"
    using build_cfg_blocks(1) [OF cfg] edge(1) by (simp add: cfg_wf_def)
  ultimately show ?thesis
    using edge by (cases edge) (auto simp: shape(1) nth_append)
qed

lemma elide_operation_detach:
  "elide_operation s op = CowDetach st x flat e \<Longrightarrow> \<exists>e'. op = CowDetach st x flat e'"
  by (cases op) (auto simp: elide_operation_def split: if_splits)

text \<open>C24. The pass never removes a checked array access: in the marked graph, whose panic edges are the
  checked graph's, every detach, elided or not, directly follows the bounds check of the same statement
  and binding, and its block keeps the edge to the panic exit that a failed check takes.\<close>

theorem bounds_checks_kept:
  "\<exists>cfg cfg' proven. build_cfg f (new_builder f el) = Some cfg
     \<and> prove_unique_detaches cfg el = Some (cfg', proven)
     \<and> detaches_checked cfg' \<and> cfg_panic_edges cfg' = cfg_panic_edges cfg"
proof -
  obtain cfg ins cfg' proven where p: "build_cfg f (new_builder f el) = Some cfg"
      "prove_unique_detaches cfg el = Some (cfg', proven)" and pg: "proven_graph cfg ins cfg' proven"
    using pipeline by blast
  have eq: "cfg_panic_edges cfg' = cfg_panic_edges cfg" "cfg_panic_exit cfg' = cfg_panic_exit cfg"
      "length (cfg_blocks cfg') = length (cfg_blocks cfg)"
    using cfg'_eq [OF pg] by simp_all
  have "0 < j \<and> operations_at cfg' b ! (j - 1) = CheckedArrayBounds st x
      \<and> \<lparr>panic_from = b, panic_to = cfg_panic_exit cfg, panic_edge_kind = PanicBounds\<rparr>
          \<in> set (cfg_panic_edges cfg)"
    if b: "b < length (cfg_blocks cfg)" and j: "j < length (operations_at cfg' b)"
      and op: "operations_at cfg' b ! j = CowDetach st x flat e" for b j st x flat e
  proof -
    have j': "j < length (operations_at cfg b)" using j length_operations_at' [OF pg b] by simp
    have same: "operations_at cfg' b ! i = operations_at cfg b ! i
        \<or> (\<exists>s. operations_at cfg' b ! i = elide_operation s (operations_at cfg b ! i))"
      if "i < length (operations_at cfg b)" for i
    proof (cases "ins ! b")
      case None
      then show ?thesis using operations_at' [OF pg b] by simp
    next
      case (Some s)
      then have "operations_at cfg' b ! i
          = elide_operation (state_before (operations_at cfg b) s i) (operations_at cfg b ! i)"
        using operations_at' [OF pg b] that by simp
      then show ?thesis by blast
    qed
    obtain e' where "operations_at cfg b ! j = CowDetach st x flat e'"
      using same [OF j'] elide_operation_detach unfolding op by metis
    from detaches_checked_build [OF p(1) b j' this]
    have c: "0 < j" "operations_at cfg b ! (j - 1) = CheckedArrayBounds st x"
        "\<lparr>panic_from = b, panic_to = cfg_panic_exit cfg, panic_edge_kind = PanicBounds\<rparr>
          \<in> set (cfg_panic_edges cfg)"
      by blast+
    have "elide_operation s (CheckedArrayBounds st x) = CheckedArrayBounds st x" for s
      by (simp add: elide_operation_def)
    moreover have "j - 1 < length (operations_at cfg b)" using j' by simp
    ultimately have "operations_at cfg' b ! (j - 1) = CheckedArrayBounds st x"
      using same [of "j - 1"] c(2) by auto
    then show ?thesis using c by blast
  qed
  then have "detaches_checked cfg'"
    by (auto simp: detaches_checked_def eq split: operation.split)
  then show ?thesis using p eq by blast
qed

end
