(* ===== verification/Json.thy ===== *)
theory Json
  imports Prelude
begin

text \<open>
  The bounded JSON parser and the JSON constructors of \<open>crates/nomo_wasm/src/json.rs\<close>. A \<open>&str\<close> is its
  list of UTF-8 bytes. The parser is a record that the methods pass on; after an error no caller looks
  at it again, except in \<open>from_number_text\<close>, for which \<open>number\<close> also returns it.

  The three mutually recursive methods take fuel. Each call uses one unit, and \<open>2 * n + 1\<close> units are
  enough for a value of \<open>n\<close> remaining bytes (theory \<open>Json_Bounds\<close>), so that \<open>parse_json\<close> never runs out.
\<close>

section \<open>Errors and nodes\<close>

definition MAX_BYTES :: nat where "MAX_BYTES = 8388608"
definition MAX_DEPTH :: nat where "MAX_DEPTH = 128"
definition MAX_VALUES :: nat where "MAX_VALUES = 262144"

record json_error =
  je_code :: string
  je_message :: string
  je_offset :: nat

definition json_error :: "string \<Rightarrow> nat \<Rightarrow> json_error" where
  "json_error code offset = \<lparr>je_code = code,
     je_message =
       (if code = ''limit'' then ''json limit exceeded''
        else if code = ''unsupported_string'' then ''json string is not representable''
        else if code = ''invalid_number'' then ''invalid json number''
        else ''invalid json syntax''),
     je_offset = offset\<rparr>"

datatype json_kind =
    KindNull
  | KindBoolean
  | KindNumber
  | KindString
  | KindArray
  | KindObject

datatype json_node =
    JsonNode (node_raw: string) (node_value: json_node_value) (node_max_depth: nat) (node_values: nat)
and json_node_value =
    JNull
  | JBoolean bool
  | JNumber string
  | JString string
  | JArray "json_node list"
  | JObject "(string \<times> json_node) list"

definition node_kind :: "json_node \<Rightarrow> json_kind" where
  "node_kind node = (case node_value node of
       JNull \<Rightarrow> KindNull
     | JBoolean _ \<Rightarrow> KindBoolean
     | JNumber _ \<Rightarrow> KindNumber
     | JString _ \<Rightarrow> KindString
     | JArray _ \<Rightarrow> KindArray
     | JObject _ \<Rightarrow> KindObject)"

section \<open>Characters\<close>

definition is_json_whitespace :: "char \<Rightarrow> bool" where
  "is_json_whitespace c \<longleftrightarrow> c = CHR '' '' \<or> c = CHR 0x0A \<or> c = CHR 0x0D \<or> c = CHR 0x09"

section \<open>The parser state\<close>

record parser =
  ps_input :: string
  ps_index :: nat
  ps_values :: nat

definition cur_byte :: "parser \<Rightarrow> char option" where
  "cur_byte p = (if ps_index p < length (ps_input p) then Some (ps_input p ! ps_index p) else None)"

definition advance :: "nat \<Rightarrow> parser \<Rightarrow> parser" where
  "advance n p = p\<lparr>ps_index := ps_index p + n\<rparr>"

definition consume :: "char \<Rightarrow> parser \<Rightarrow> bool \<times> parser" where
  "consume expected p = (if cur_byte p = Some expected then (True, advance 1 p) else (False, p))"

definition expect_byte :: "char \<Rightarrow> parser \<Rightarrow> json_error + parser" where
  "expect_byte expected p =
     (case consume expected p of
        (True, p) \<Rightarrow> Ok p
      | (False, p) \<Rightarrow> Err (json_error ''syntax'' (min (ps_index p) (length (ps_input p)))))"

function skip_while :: "(char \<Rightarrow> bool) \<Rightarrow> parser \<Rightarrow> parser" where
  "skip_while P p = (case cur_byte p of
       Some c \<Rightarrow> if P c then skip_while P (advance 1 p) else p
     | None \<Rightarrow> p)"
  by pat_completeness auto
termination
  by (relation "measure (\<lambda>(P, p). length (ps_input p) - ps_index p)")
    (auto simp: cur_byte_def advance_def split: if_splits)

declare skip_while.simps [simp del]

definition whitespace :: "parser \<Rightarrow> parser" where
  "whitespace p = skip_while is_json_whitespace p"

definition starts_with_at :: "string \<Rightarrow> string \<Rightarrow> nat \<Rightarrow> bool" where
  "starts_with_at expected s i \<longleftrightarrow> take (length expected) (drop i s) = expected"

definition json_literal :: "string \<Rightarrow> parser \<Rightarrow> json_error + parser" where
  "json_literal expected p =
     (if starts_with_at expected (ps_input p) (ps_index p) then Ok (advance (length expected) p)
      else Err (json_error ''syntax'' (ps_index p)))"

section \<open>Numbers\<close>

definition cur_digit :: "parser \<Rightarrow> bool" where
  "cur_digit p \<longleftrightarrow> (case cur_byte p of Some c \<Rightarrow> is_ascii_digit c | None \<Rightarrow> False)"

text \<open>The first component is \<open>None\<close> for success; the parser is returned in both cases.\<close>

definition number_fraction :: "parser \<Rightarrow> json_error option \<times> parser" where
  "number_fraction p =
     (case consume CHR ''.'' p of
        (True, p) \<Rightarrow>
          if cur_digit p then (None, skip_while is_ascii_digit p)
          else (Some (json_error ''syntax'' (ps_index p)), p)
      | (False, p) \<Rightarrow> (None, p))"

definition number_exponent :: "parser \<Rightarrow> json_error option \<times> parser" where
  "number_exponent p =
     (if cur_byte p = Some CHR ''e'' \<or> cur_byte p = Some CHR ''E'' then
        let p = advance 1 p;
            p = (if cur_byte p = Some CHR ''+'' \<or> cur_byte p = Some CHR ''-'' then advance 1 p else p)
        in if cur_digit p then (None, skip_while is_ascii_digit p)
           else (Some (json_error ''syntax'' (ps_index p)), p)
      else (None, p))"

definition json_number :: "parser \<Rightarrow> json_error option \<times> parser" where
  "json_number p =
     (let p = snd (consume CHR ''-'' p)
      in case cur_byte p of
           None \<Rightarrow> (Some (json_error ''syntax'' (length (ps_input p))), p)
         | Some c \<Rightarrow>
             if c = CHR ''0'' \<or> is_ascii_digit c then
               let p = (if c = CHR ''0'' then advance 1 p else skip_while is_ascii_digit (advance 1 p))
               in case number_fraction p of
                    (Some e, p) \<Rightarrow> (Some e, p)
                  | (None, p) \<Rightarrow> number_exponent p
             else (Some (json_error ''syntax'' (ps_index p)), p))"

section \<open>Strings\<close>

definition hex_digit :: "char \<Rightarrow> nat option" where
  "hex_digit c =
     (if is_ascii_digit c then Some (byte_of c - 48)
      else if 97 \<le> byte_of c \<and> byte_of c \<le> 102 then Some (byte_of c - 97 + 10)
      else if 65 \<le> byte_of c \<and> byte_of c \<le> 70 then Some (byte_of c - 65 + 10)
      else None)"

fun hex_loop :: "nat \<Rightarrow> nat \<Rightarrow> parser \<Rightarrow> json_error + nat \<times> parser" where
  "hex_loop 0 v p = Ok (v, p)"
| "hex_loop (Suc n) v p = (case hex_digit (ps_input p ! ps_index p) of
       None \<Rightarrow> Err (json_error ''syntax'' (ps_index p))
     | Some digit \<Rightarrow> hex_loop n (v * 16 + digit) (advance 1 p))"

definition hex4 :: "parser \<Rightarrow> json_error + nat \<times> parser" where
  "hex4 p =
     (if length (ps_input p) - ps_index p < 4
      then Err (json_error ''syntax'' (length (ps_input p)))
      else hex_loop 4 0 p)"

text \<open>The part of the \<open>u\<close> escape after the letter: one scalar value, from one or two code units.\<close>

definition unicode_escape :: "nat \<Rightarrow> parser \<Rightarrow> json_error + string \<times> parser" where
  "unicode_escape escape_offset p = try_bind (hex4 p) (\<lambda>(first, p).
     let unsupported = Err (json_error ''unsupported_string'' escape_offset) in
     if first = 0 then unsupported
     else if 55296 \<le> first \<and> first \<le> 56319 then
       (case consume CHR 0x5C p of
          (False, p) \<Rightarrow> unsupported
        | (True, p) \<Rightarrow>
            (case consume CHR ''u'' p of
               (False, p) \<Rightarrow> unsupported
             | (True, p) \<Rightarrow> try_bind (hex4 p) (\<lambda>(second, p).
                 if \<not> (56320 \<le> second \<and> second \<le> 57343) then unsupported
                 else Ok (utf8_encode (65536 + (first - 55296) * 1024 + (second - 56320)), p))))
     else if 56320 \<le> first \<and> first \<le> 57343 then unsupported
     else Ok (utf8_encode first, p))"

text \<open>The arm of \<open>string\<close> for a backslash at the current index: the bytes to append.\<close>

definition string_escape :: "parser \<Rightarrow> json_error + string \<times> parser" where
  "string_escape p =
     (let escape_offset = ps_index p; p = advance 1 p
      in case cur_byte p of
           None \<Rightarrow> Err (json_error ''syntax'' (length (ps_input p)))
         | Some escaped \<Rightarrow>
             let p = advance 1 p in
             if escaped = CHR 0x22 then Ok ([CHR 0x22], p)
             else if escaped = CHR 0x5C then Ok ([CHR 0x5C], p)
             else if escaped = CHR ''/'' then Ok (''/'', p)
             else if escaped = CHR ''b'' then Ok ([CHR 0x08], p)
             else if escaped = CHR ''f'' then Ok ([CHR 0x0C], p)
             else if escaped = CHR ''n'' then Ok ([CHR 0x0A], p)
             else if escaped = CHR ''r'' then Ok ([CHR 0x0D], p)
             else if escaped = CHR ''t'' then Ok ([CHR 0x09], p)
             else if escaped = CHR ''u'' then unicode_escape escape_offset p
             else Err (json_error ''syntax'' (ps_index p - 1)))"

lemma hex_loop_index: "hex_loop n v p = Inr (w, p') \<Longrightarrow>
    ps_index p' = ps_index p + n \<and> ps_input p' = ps_input p \<and> ps_values p' = ps_values p"
  by (induction n v p rule: hex_loop.induct) (auto simp: advance_def split: option.splits)

lemma hex4_index: "hex4 p = Inr (w, p') \<Longrightarrow> ps_index p' = ps_index p + 4
    \<and> ps_input p' = ps_input p \<and> ps_values p' = ps_values p \<and> ps_index p' \<le> length (ps_input p)"
  by (auto simp: hex4_def dest: hex_loop_index split: if_splits)

lemma consume_index:
  "consume c p = (ok, p') \<Longrightarrow> ps_input p' = ps_input p \<and> ps_values p' = ps_values p
     \<and> ps_index p' = (if ok then Suc (ps_index p) else ps_index p)
     \<and> (ok \<longrightarrow> cur_byte p = Some c \<and> ps_index p < length (ps_input p))"
  by (auto simp: consume_def advance_def cur_byte_def split: if_splits)

lemma unicode_escape_index:
  "unicode_escape off p = Inr (bs, p') \<Longrightarrow> ps_index p + 4 \<le> ps_index p'
     \<and> ps_input p' = ps_input p \<and> ps_values p' = ps_values p \<and> ps_index p' \<le> length (ps_input p)"
  unfolding unicode_escape_def
  by (auto simp: Let_def split: if_splits prod.splits bool.splits dest!: hex4_index consume_index)

lemma string_escape_index:
  "string_escape p = Inr (bs, p') \<Longrightarrow> ps_index p + 2 \<le> ps_index p'
     \<and> ps_input p' = ps_input p \<and> ps_values p' = ps_values p \<and> ps_index p' \<le> length (ps_input p)"
  unfolding string_escape_def
  by (auto simp: Let_def advance_def cur_byte_def split: if_splits option.splits
      dest!: unicode_escape_index)

function string_loop :: "string \<Rightarrow> parser \<Rightarrow> json_error + string \<times> parser" where
  "string_loop out p = (case cur_byte p of
       None \<Rightarrow> Err (json_error ''syntax'' (length (ps_input p)))
     | Some c \<Rightarrow>
         if c = CHR 0x22 then Ok (out, advance 1 p)
         else if byte_of c \<le> 31 then Err (json_error ''syntax'' (ps_index p))
         else if c = CHR 0x5C then
           try_bind (string_escape p) (\<lambda>(bs, p'). string_loop (out @ bs) p')
         else if byte_of c < 128 then string_loop (out @ [c]) (advance 1 p)
         else string_loop (out @ take (utf8_width c) (drop (ps_index p) (ps_input p)))
                (advance (utf8_width c) p))"
  by pat_completeness auto
termination
  by (relation "measure (\<lambda>(out, p). length (ps_input p) - ps_index p)")
    (auto simp: cur_byte_def advance_def utf8_width_def split: if_splits
      dest!: string_escape_index)

declare string_loop.simps [simp del]

definition json_string :: "parser \<Rightarrow> json_error + string \<times> parser" where
  "json_string p = try_bind (expect_byte CHR 0x22 p) (\<lambda>p. string_loop [] p)"

section \<open>Values\<close>

definition OUT_OF_FUEL :: json_error where
  "OUT_OF_FUEL = \<lparr>je_code = ''fuel'', je_message = [], je_offset = 0\<rparr>"

definition slice :: "string \<Rightarrow> nat \<Rightarrow> nat \<Rightarrow> string" where
  "slice s i j = take (j - i) (drop i s)"

definition is_number_start :: "char \<Rightarrow> bool" where
  "is_number_start c \<longleftrightarrow> c = CHR ''-'' \<or> is_ascii_digit c"

text \<open>The arms of \<open>value\<close> that are not recursive.\<close>

definition parse_scalar :: "char \<Rightarrow> parser \<Rightarrow> json_error + json_node_value \<times> parser" where
  "parse_scalar c p =
     (if c = CHR ''n'' then map_ok (\<lambda>p. (JNull, p)) (json_literal ''null'' p)
      else if c = CHR ''t'' then map_ok (\<lambda>p. (JBoolean True, p)) (json_literal ''true'' p)
      else if c = CHR ''f'' then map_ok (\<lambda>p. (JBoolean False, p)) (json_literal ''false'' p)
      else if c = CHR 0x22 then map_ok (\<lambda>(s, p). (JString s, p)) (json_string p)
      else if is_number_start c then
        (case json_number p of
           (Some e, _) \<Rightarrow> Err e
         | (None, p') \<Rightarrow> Ok (JNumber (slice (ps_input p) (ps_index p) (ps_index p')), p'))
      else Err (json_error ''syntax'' (ps_index p)))"

text \<open>\<open>value\<close> up to its \<open>match\<close>: skip white space and count the value.\<close>

definition begin_value :: "parser \<Rightarrow> json_error + parser" where
  "begin_value p =
     (let p = whitespace p in
      if MAX_VALUES \<le> ps_values p then Err (json_error ''limit'' (ps_index p))
      else Ok (p\<lparr>ps_values := ps_values p + 1\<rparr>))"

text \<open>The end of \<open>value\<close>: the node with its source text and the number of values it has.\<close>

definition finish_value :: "parser \<Rightarrow> json_node_value \<Rightarrow> nat \<Rightarrow> parser \<Rightarrow> json_node \<times> parser" where
  "finish_value p v max_depth p' =
     (JsonNode (slice (ps_input p') (ps_index p) (ps_index p')) v max_depth
        (ps_values p' - ps_values p + 1), p')"

function parse_value :: "nat \<Rightarrow> nat \<Rightarrow> parser \<Rightarrow> json_error + json_node \<times> parser"
  and parse_array :: "nat \<Rightarrow> nat \<Rightarrow> parser \<Rightarrow> json_error + (json_node list \<times> nat) \<times> parser"
  and parse_object ::
    "nat \<Rightarrow> nat \<Rightarrow> parser \<Rightarrow> json_error + ((string \<times> json_node) list \<times> nat) \<times> parser"
  and parse_items :: "nat \<Rightarrow> nat \<Rightarrow> json_node list \<Rightarrow> nat \<Rightarrow> parser
      \<Rightarrow> json_error + (json_node list \<times> nat) \<times> parser"
  and parse_members :: "nat \<Rightarrow> nat \<Rightarrow> (string \<times> json_node) list \<Rightarrow> nat \<Rightarrow> parser
      \<Rightarrow> json_error + ((string \<times> json_node) list \<times> nat) \<times> parser"
where
  "parse_value 0 parent_depth p = Err OUT_OF_FUEL"
| "parse_value (Suc fuel) parent_depth p =
     try_bind (begin_value p) (\<lambda>p.
       case cur_byte p of
         None \<Rightarrow> Err (json_error ''syntax'' (length (ps_input p)))
       | Some c \<Rightarrow>
           if c = CHR ''['' then
             if MAX_DEPTH < parent_depth + 1 then Err (json_error ''limit'' (ps_index p))
             else map_ok (\<lambda>((items, nested), p').
               finish_value p (JArray items) (max (parent_depth + 1) nested) p')
               (parse_array fuel (parent_depth + 1) p)
           else if c = CHR ''{'' then
             if MAX_DEPTH < parent_depth + 1 then Err (json_error ''limit'' (ps_index p))
             else map_ok (\<lambda>((members, nested), p').
               finish_value p (JObject members) (max (parent_depth + 1) nested) p')
               (parse_object fuel (parent_depth + 1) p)
           else map_ok (\<lambda>(v, p'). finish_value p v 0 p') (parse_scalar c p))"
| "parse_array fuel depth p =
     (case consume CHR '']'' (whitespace (advance 1 p)) of
        (True, p) \<Rightarrow> Ok (([], depth), p)
      | (False, p) \<Rightarrow> parse_items fuel depth [] depth p)"
| "parse_object fuel depth p =
     (case consume CHR ''}'' (whitespace (advance 1 p)) of
        (True, p) \<Rightarrow> Ok (([], depth), p)
      | (False, p) \<Rightarrow> parse_members fuel depth [] depth p)"
| "parse_items 0 depth items max_depth p = Err OUT_OF_FUEL"
| "parse_items (Suc fuel) depth items max_depth p =
     try_bind (parse_value fuel depth p) (\<lambda>(node, p).
       case consume CHR '']'' (whitespace p) of
         (True, p) \<Rightarrow> Ok ((items @ [node], max max_depth (node_max_depth node)), p)
       | (False, p) \<Rightarrow> try_bind (expect_byte CHR '','' p) (\<lambda>p.
           parse_items fuel depth (items @ [node]) (max max_depth (node_max_depth node))
             (whitespace p)))"
| "parse_members 0 depth members max_depth p = Err OUT_OF_FUEL"
| "parse_members (Suc fuel) depth members max_depth p =
     (if cur_byte p \<noteq> Some CHR 0x22 then Err (json_error ''syntax'' (ps_index p))
      else try_bind (json_string p) (\<lambda>(key, p).
        try_bind (expect_byte CHR '':'' (whitespace p)) (\<lambda>p.
          try_bind (parse_value fuel depth p) (\<lambda>(node, p).
            case consume CHR ''}'' (whitespace p) of
              (True, p) \<Rightarrow> Ok ((members @ [(key, node)], max max_depth (node_max_depth node)), p)
            | (False, p) \<Rightarrow> try_bind (expect_byte CHR '','' p) (\<lambda>p.
                parse_members fuel depth (members @ [(key, node)])
                  (max max_depth (node_max_depth node)) (whitespace p))))))"
  by pat_completeness auto
termination
  by (relation "measure (\<lambda>x. case x of
       Inl (Inl (fuel, _)) \<Rightarrow> 2 * fuel
     | Inl (Inr (fuel, _)) \<Rightarrow> Suc (2 * fuel)
     | Inr (Inl (fuel, _)) \<Rightarrow> Suc (2 * fuel)
     | Inr (Inr (Inl (fuel, _))) \<Rightarrow> 2 * fuel
     | Inr (Inr (Inr (fuel, _))) \<Rightarrow> 2 * fuel)") simp_all

definition initial_parser :: "string \<Rightarrow> parser" where
  "initial_parser s = \<lparr>ps_input = s, ps_index = 0, ps_values = 0\<rparr>"

definition parse_json :: "string \<Rightarrow> json_error + json_node" where
  "parse_json s =
     (if MAX_BYTES < length s then Err (json_error ''limit'' MAX_BYTES)
      else try_bind (parse_value (2 * length s + 1) 0 (initial_parser s)) (\<lambda>(node, p).
        let p = whitespace p in
        if ps_index p \<noteq> length s then Err (json_error ''syntax'' (ps_index p))
        else Ok (JsonNode s (node_value node) (node_max_depth node) (node_values node))))"

section \<open>Constructors\<close>

definition from_number_text :: "string \<Rightarrow> json_error + string" where
  "from_number_text s =
     (if MAX_BYTES < length s then Err (json_error ''limit'' 0)
      else
        let (failure, p) = json_number (initial_parser s) in
        if s = [] then Err (json_error ''invalid_number'' 0)
        else if failure \<noteq> None \<or> ps_index p \<noteq> length s
        then Err (json_error ''invalid_number'' (ps_index p))
        else Ok s)"

definition hex_char :: "nat \<Rightarrow> char" where
  "hex_char d = (if d < 10 then char_of (48 + d) else char_of (87 + d))"

text \<open>\<open>{:04x}\<close> of a number below \<open>0x10000\<close>.\<close>

definition hex_lower4 :: "nat \<Rightarrow> string" where
  "hex_lower4 n = [hex_char (n div 4096 mod 16), hex_char (n div 256 mod 16),
     hex_char (n div 16 mod 16), hex_char (n mod 16)]"

definition escape_char :: "string \<Rightarrow> string" where
  "escape_char ch =
     (if ch = [CHR 0x22] then [CHR 0x5C, CHR 0x22]
      else if ch = [CHR 0x5C] then [CHR 0x5C, CHR 0x5C]
      else if ch = [CHR 0x08] then [CHR 0x5C, CHR ''b'']
      else if ch = [CHR 0x0C] then [CHR 0x5C, CHR ''f'']
      else if ch = [CHR 0x0A] then [CHR 0x5C, CHR ''n'']
      else if ch = [CHR 0x0D] then [CHR 0x5C, CHR ''r'']
      else if ch = [CHR 0x09] then [CHR 0x5C, CHR ''t'']
      else if length ch = 1 \<and> byte_of (hd ch) \<le> 31
      then [CHR 0x5C, CHR ''u''] @ hex_lower4 (byte_of (hd ch))
      else ch)"

fun from_string_loop :: "string \<Rightarrow> string list \<Rightarrow> json_error + string" where
  "from_string_loop out [] = Ok out"
| "from_string_loop out (ch # chs) =
     (let out = out @ escape_char ch
      in if MAX_BYTES < length out then Err (json_error ''limit'' 0) else from_string_loop out chs)"

definition from_string :: "string \<Rightarrow> json_error + string" where
  "from_string s = (case position (\<lambda>c. byte_of c = 0) s of
       Some offset \<Rightarrow> Err (json_error ''unsupported_string'' offset)
     | None \<Rightarrow> try_bind (from_string_loop [CHR 0x22] (chars_of s)) (\<lambda>out.
         let out = out @ [CHR 0x22]
         in if MAX_BYTES < length out then Err (json_error ''limit'' 0) else Ok out))"

definition trim_whitespace :: "string \<Rightarrow> string" where
  "trim_whitespace s =
     rev (dropWhile is_json_whitespace (rev (dropWhile is_json_whitespace s)))"

text \<open>The running totals of \<open>from_array\<close> and \<open>from_object\<close>: values, child depth, bytes.\<close>

definition add_child ::
    "json_node \<Rightarrow> nat \<Rightarrow> nat \<times> nat \<times> nat \<Rightarrow> json_error + nat \<times> nat \<times> nat" where
  "add_child node bytes totals =
     (case totals of (total_values, max_child_depth, text_size) \<Rightarrow>
        let total_values = total_values + node_values node; text_size = text_size + bytes
        in if MAX_VALUES < total_values \<or> MAX_BYTES < text_size then Err (json_error ''limit'' 0)
           else Ok (total_values, max max_child_depth (node_max_depth node), text_size))"

fun array_loop :: "nat \<Rightarrow> string list \<Rightarrow> nat \<times> nat \<times> nat \<Rightarrow> json_error + (nat \<times> nat \<times> nat) \<times> string list" where
  "array_loop index [] totals = Ok (totals, [])"
| "array_loop index (raw # values) totals =
     try_bind (parse_json raw) (\<lambda>node.
       let trimmed = trim_whitespace raw
       in try_bind (add_child node (length trimmed + (if 0 < index then 1 else 0)) totals) (\<lambda>totals.
            map_ok (\<lambda>(totals, rest). (totals, trimmed # rest)) (array_loop (Suc index) values totals)))"

fun join_with :: "char \<Rightarrow> string list \<Rightarrow> string" where
  "join_with sep [] = []"
| "join_with sep [s] = s"
| "join_with sep (s # t # ss) = s @ [sep] @ join_with sep (t # ss)"

definition from_array :: "string list \<Rightarrow> json_error + string" where
  "from_array values = try_bind (array_loop 0 values (1, 0, 2)) (\<lambda>((_, max_child_depth, _), trimmed).
     if MAX_DEPTH < max_child_depth + 1 then Err (json_error ''limit'' 0)
     else Ok (''['' @ join_with CHR '','' trimmed @ '']''))"

fun object_loop :: "nat \<Rightarrow> (string \<times> string) list \<Rightarrow> nat \<times> nat \<times> nat
    \<Rightarrow> json_error + (nat \<times> nat \<times> nat) \<times> (string \<times> string) list" where
  "object_loop index [] totals = Ok (totals, [])"
| "object_loop index ((key, raw) # values) totals =
     try_bind (from_string key) (\<lambda>key. try_bind (parse_json raw) (\<lambda>node.
       let trimmed = trim_whitespace raw
       in try_bind (add_child node (length key + 1 + length trimmed + (if 0 < index then 1 else 0)) totals)
            (\<lambda>totals. map_ok (\<lambda>(totals, rest). (totals, (key, trimmed) # rest))
              (object_loop (Suc index) values totals))))"

definition from_object :: "(string \<times> string) list \<Rightarrow> json_error + string" where
  "from_object values = try_bind (object_loop 0 values (1, 0, 2)) (\<lambda>((_, max_child_depth, _), encoded).
     if MAX_DEPTH < max_child_depth + 1 then Err (json_error ''limit'' 0)
     else Ok (''{'' @ join_with CHR '','' (map (\<lambda>(key, raw). key @ '':'' @ raw) encoded) @ ''}''))"

end
