(* ===== verification/Json_Bounds.thy ===== *)
theory Json_Bounds
  imports Json
begin

text \<open>
  The parser of theory \<open>Json\<close> moves forward, reports errors at offsets within the text, never runs out
  of fuel and accepts only what is within \<open>MAX_DEPTH\<close> and \<open>MAX_VALUES\<close>.
\<close>

section \<open>Progress and error offsets\<close>

definition good_error :: "string \<Rightarrow> json_error \<Rightarrow> bool" where
  "good_error s e \<longleftrightarrow> (\<exists>code \<in> {''limit'', ''syntax'', ''unsupported_string''}. \<exists>off \<le> length s.
     e = json_error code off)"

definition moves :: "nat \<Rightarrow> parser \<Rightarrow> parser \<Rightarrow> bool" where
  "moves n p p' \<longleftrightarrow> ps_input p' = ps_input p \<and> ps_index p + n \<le> ps_index p'
     \<and> ps_index p' \<le> length (ps_input p)"

text \<open>A sub-parser that does not count values: it fails with a good error or advances by \<open>n\<close> bytes.\<close>

definition lexes :: "nat \<Rightarrow> parser \<Rightarrow> json_error + 'a \<times> parser \<Rightarrow> bool" where
  "lexes n p r \<longleftrightarrow> (case r of
       Inl e \<Rightarrow> good_error (ps_input p) e
     | Inr (_, p') \<Rightarrow> moves n p p' \<and> ps_values p' = ps_values p)"

definition in_range :: "parser \<Rightarrow> bool" where
  "in_range p \<longleftrightarrow> ps_index p \<le> length (ps_input p)"

lemma good_errorI:
  "off \<le> length s \<Longrightarrow> good_error s (json_error ''limit'' off)"
  "off \<le> length s \<Longrightarrow> good_error s (json_error ''syntax'' off)"
  "off \<le> length s \<Longrightarrow> good_error s (json_error ''unsupported_string'' off)"
  by (auto simp: good_error_def)

lemma moves_trans: "moves m p q \<Longrightarrow> moves n q r \<Longrightarrow> moves (m + n) p r"
  by (auto simp: moves_def)

lemma moves_weaken: "moves n p q \<Longrightarrow> m \<le> n \<Longrightarrow> moves m p q"
  by (auto simp: moves_def)

lemma moves_in_range: "moves n p q \<Longrightarrow> in_range q"
  by (simp add: moves_def in_range_def)

lemma cur_byte_Some: "cur_byte p = Some c \<Longrightarrow> ps_index p < length (ps_input p)"
  by (simp add: cur_byte_def split: if_splits)

lemma advance_moves: "ps_index p + n \<le> length (ps_input p) \<Longrightarrow> moves n p (advance n p)"
  by (simp add: moves_def advance_def)

lemma advance_simps [simp]:
  "ps_input (advance n p) = ps_input p" "ps_values (advance n p) = ps_values p"
  "ps_index (advance n p) = ps_index p + n"
  by (simp_all add: advance_def)

lemma skip_while_moves:
  "in_range p \<Longrightarrow> moves 0 p (skip_while P p) \<and> ps_values (skip_while P p) = ps_values p"
proof (induction P p rule: skip_while.induct)
  case (1 P p)
  show ?case
  proof (cases "cur_byte p")
    case None
    then show ?thesis using 1(2) by (simp add: skip_while.simps moves_def in_range_def)
  next
    case (Some c)
    have "in_range (advance 1 p)" using cur_byte_Some [OF Some] by (simp add: in_range_def)
    then show ?thesis
      using 1 Some by (subst (1 2) skip_while.simps) (auto simp: moves_def in_range_def)
  qed
qed

lemma whitespace_moves:
  "in_range p \<Longrightarrow> moves 0 p (whitespace p)" "in_range p \<Longrightarrow> ps_values (whitespace p) = ps_values p"
  "in_range p \<Longrightarrow> in_range (whitespace p)" "in_range p \<Longrightarrow> ps_input (whitespace p) = ps_input p"
  using skip_while_moves [of p is_json_whitespace]
  by (auto simp: whitespace_def moves_def in_range_def)

lemma consume_moves: "consume c p = (True, p') \<Longrightarrow> moves 1 p p' \<and> ps_values p' = ps_values p"
  by (auto simp: moves_def dest!: consume_index)

lemma consume_False: "consume c p = (False, p') \<Longrightarrow> p' = p"
  by (simp add: consume_def split: if_splits)

lemma expect_byte_lexes: "lexes 1 p (map_ok (\<lambda>p. ((), p)) (expect_byte c p))"
  by (auto simp: expect_byte_def lexes_def intro!: good_errorI
      split: prod.split bool.split dest!: consume_moves consume_False)

lemma expect_byte_Ok: "expect_byte c p = Inr p' \<Longrightarrow> moves 1 p p' \<and> ps_values p' = ps_values p"
  by (auto simp: expect_byte_def split: prod.splits bool.splits dest!: consume_moves)

lemma expect_byte_Err: "expect_byte c p = Inl e \<Longrightarrow> good_error (ps_input p) e"
  by (auto simp: expect_byte_def intro!: good_errorI split: prod.splits bool.splits dest!: consume_False)

lemma lexes_bind:
  assumes "lexes m p r" and "\<And>x p'. r = Inr (x, p') \<Longrightarrow> moves m p p' \<Longrightarrow> lexes n p' (f (x, p'))"
  shows "lexes (m + n) p (try_bind r f)"
  using assms by (cases r) (auto simp: lexes_def moves_def split: sum.splits)

lemma hex_loop_lexes:
  "ps_index p + n \<le> length (ps_input p) \<Longrightarrow> lexes n p (hex_loop n v p)"
proof (induction n v p rule: hex_loop.induct)
  case (2 n v p)
  then show ?case
    by (auto simp: lexes_def moves_def intro!: good_errorI split: option.split sum.splits)
qed (simp add: lexes_def moves_def)

lemma hex4_lexes: "in_range p \<Longrightarrow> lexes 4 p (hex4 p)"
  using hex_loop_lexes [of p 4 0]
  by (auto simp: hex4_def lexes_def intro!: good_errorI split: sum.splits simp: in_range_def)

lemma unicode_escape_lexes:
  assumes "in_range p" "off \<le> length (ps_input p)"
  shows "lexes 4 p (unicode_escape off p)"
proof (cases "hex4 p")
  case (Inl e)
  then show ?thesis
    using hex4_lexes [OF assms(1)] by (simp add: unicode_escape_def lexes_def)
next
  case (Inr r)
  obtain v p1 where r: "r = (v, p1)" by fastforce
  have p1: "moves 4 p p1" "ps_values p1 = ps_values p"
    using hex4_lexes [OF assms(1)] Inr r by (auto simp: lexes_def)
  have unsupported: "good_error (ps_input p) (json_error ''unsupported_string'' off)"
    using assms(2) by (rule good_errorI)
  have second: "lexes 4 p (try_bind (hex4 p3) (\<lambda>(second, p4).
      if \<not> (56320 \<le> second \<and> second \<le> 57343) then Inl (json_error ''unsupported_string'' off)
      else Inr (f second, p4)))" if "moves 0 p1 p3" "ps_values p3 = ps_values p1" for p3 and f :: "nat \<Rightarrow> string"
    using hex4_lexes [of p3] moves_in_range [OF that(1)] that p1 unsupported
    by (cases "hex4 p3") (auto simp: lexes_def moves_def)
  have two: "moves 0 p1 p3 \<and> ps_values p3 = ps_values p1"
    if "consume c1 p1 = (True, p2)" "consume c2 p2 = (True, p3)" for c1 c2 p2 p3
    using consume_moves [OF that(1)] consume_moves [OF that(2)] by (auto simp: moves_def)
  show ?thesis
    unfolding unicode_escape_def Inr r
    using unsupported p1 second two
    by (auto simp: Let_def lexes_def split: prod.split bool.split)
qed

lemma string_escape_lexes:
  assumes "cur_byte p = Some CHR 0x5C"
  shows "lexes 2 p (string_escape p)"
proof -
  let ?p1 = "advance 1 p"
  have lt: "ps_index p < length (ps_input p)" using cur_byte_Some assms by blast
  show ?thesis
  proof (cases "cur_byte ?p1")
    case None
    then show ?thesis by (simp add: string_escape_def lexes_def Let_def good_errorI)
  next
    case (Some c)
    have lt1: "ps_index p + 1 < length (ps_input p)" using cur_byte_Some [OF Some] by simp
    then have "lexes 4 (advance 1 ?p1) (unicode_escape (ps_index p) (advance 1 ?p1))"
      by (intro unicode_escape_lexes) (simp_all add: in_range_def)
    then have u: "lexes 2 p (unicode_escape (ps_index p) (advance 1 ?p1))"
      by (auto simp: lexes_def moves_def split: sum.splits)
    show ?thesis
      using Some lt1 u
      by (auto simp: string_escape_def Let_def lexes_def moves_def good_errorI)
  qed
qed

lemma string_loop_lexes: "lexes 1 p (string_loop out p)"
proof (induction out p rule: string_loop.induct)
  case (1 out p)
  show ?case
  proof (cases "cur_byte p")
    case None
    then show ?thesis by (subst string_loop.simps) (simp add: lexes_def good_errorI)
  next
    case (Some c)
    have lt: "ps_index p < length (ps_input p)" using cur_byte_Some Some by blast
    consider (quote) "c = CHR 0x22" | (control) "c \<noteq> CHR 0x22" "byte_of c \<le> 31"
      | (escape) "c = CHR 0x5C"
      | (ascii) "c \<noteq> CHR 0x22" "\<not> byte_of c \<le> 31" "c \<noteq> CHR 0x5C" "byte_of c < 128"
      | (wide) "c \<noteq> CHR 0x22" "\<not> byte_of c \<le> 31" "c \<noteq> CHR 0x5C" "\<not> byte_of c < 128"
      by blast
    then show ?thesis
    proof cases
      case quote
      then show ?thesis
        using Some lt by (subst string_loop.simps) (simp add: lexes_def moves_def)
    next
      case control
      then show ?thesis
        using Some lt by (subst string_loop.simps) (simp add: lexes_def good_errorI)
    next
      case escape
      then have "lexes (2 + 1) p (try_bind (string_escape p) (\<lambda>(bs, p'). string_loop (out @ bs) p'))"
        using Some 1(1) [OF Some] by (intro lexes_bind string_escape_lexes) (auto simp: byte_of_def)
      then show ?thesis
        using Some escape
        by (subst string_loop.simps) (auto simp: lexes_def moves_def byte_of_def split: sum.splits)
    next
      case ascii
      then show ?thesis
        using Some 1(2) [OF Some] 
        by (subst string_loop.simps) (auto simp: lexes_def moves_def split: sum.splits)
    next
      case wide
      then show ?thesis
        using Some 1(3) [OF Some]
        by (subst string_loop.simps) (auto simp: lexes_def moves_def split: sum.splits)
    qed
  qed
qed

lemma json_string_lexes: "lexes 2 p (json_string p)"
proof (cases "expect_byte CHR 0x22 p")
  case (Inl e)
  then show ?thesis using expect_byte_Err by (simp add: json_string_def lexes_def)
next
  case (Inr p')
  then show ?thesis
    using expect_byte_Ok [OF Inr] string_loop_lexes [of p' "[]"]
    by (auto simp: json_string_def lexes_def moves_def split: sum.splits)
qed

lemma json_literal_lexes:
  assumes "in_range p"
  shows "json_literal lit p = Inr p' \<Longrightarrow> moves (length lit) p p' \<and> ps_values p' = ps_values p"
    and "json_literal lit p = Inl e \<Longrightarrow> good_error (ps_input p) e"
proof -
  assume "json_literal lit p = Inr p'"
  then have lit: "take (length lit) (drop (ps_index p) (ps_input p)) = lit" "p' = advance (length lit) p"
    by (auto simp: json_literal_def starts_with_at_def split: if_splits)
  have "length (take (length lit) (drop (ps_index p) (ps_input p))) = length lit"
    using lit(1) by simp
  then have "length lit \<le> length (ps_input p) - ps_index p" by simp
  then show "moves (length lit) p p' \<and> ps_values p' = ps_values p"
    using assms lit(2) by (auto simp: moves_def in_range_def)
next
  show "json_literal lit p = Inl e \<Longrightarrow> good_error (ps_input p) e"
    using assms by (auto simp: json_literal_def in_range_def intro!: good_errorI split: if_splits)
qed

lemma cur_digit_Some: "cur_digit p \<Longrightarrow> ps_index p < length (ps_input p)"
  by (auto simp: cur_digit_def split: option.splits dest: cur_byte_Some)

definition lexes_number :: "nat \<Rightarrow> parser \<Rightarrow> json_error option \<times> parser \<Rightarrow> bool" where
  "lexes_number n p r \<longleftrightarrow> moves 0 p (snd r) \<and> ps_values (snd r) = ps_values p
     \<and> (case fst r of Some e \<Rightarrow> good_error (ps_input p) e | None \<Rightarrow> moves n p (snd r))"

lemma moves_refl: "in_range p \<Longrightarrow> moves 0 p p"
  by (simp add: moves_def in_range_def)

lemma skip_digits_moves: "cur_digit p \<Longrightarrow> moves 0 p (skip_while P p)"
  "cur_digit p \<Longrightarrow> ps_values (skip_while P p) = ps_values p"
  using skip_while_moves [of p P] cur_digit_Some [of p] by (auto simp: in_range_def)

lemma number_fraction_lexes: "in_range p \<Longrightarrow> lexes_number 0 p (number_fraction p)"
proof -
  assume p: "in_range p"
  show ?thesis
  proof (cases "consume CHR ''.'' p")
    case (Pair ok p1)
    show ?thesis
    proof (cases ok)
      case False
      then show ?thesis
        using Pair consume_False [of "CHR ''.''" p p1] p
        by (auto simp: number_fraction_def lexes_number_def moves_refl)
    next
      case True
      then have m: "moves 1 p p1" "ps_values p1 = ps_values p" using Pair consume_moves by auto
      then show ?thesis
        using Pair True skip_digits_moves [of p1 is_ascii_digit]
        by (auto simp: number_fraction_def lexes_number_def moves_def good_errorI)
    qed
  qed
qed

lemma number_exponent_lexes: "in_range p \<Longrightarrow> lexes_number 0 p (number_exponent p)"
proof -
  assume p: "in_range p"
  show ?thesis
  proof (cases "cur_byte p = Some CHR ''e'' \<or> cur_byte p = Some CHR ''E''")
    case False
    then show ?thesis using p by (simp add: number_exponent_def lexes_number_def moves_refl)
  next
    case True
    then have lt: "ps_index p < length (ps_input p)" using cur_byte_Some by blast
    let ?p1 = "advance 1 p"
    let ?p2 = "if cur_byte ?p1 = Some CHR ''+'' \<or> cur_byte ?p1 = Some CHR ''-'' then advance 1 ?p1 else ?p1"
    have m: "moves 1 p ?p2" "ps_values ?p2 = ps_values p"
      using lt cur_byte_Some [of ?p1] by (auto simp: moves_def)
    have e: "number_exponent p = (if cur_digit ?p2 then (None, skip_while is_ascii_digit ?p2)
        else (Some (json_error ''syntax'' (ps_index ?p2)), ?p2))"
      using True by (simp add: number_exponent_def Let_def)
    show ?thesis
      unfolding e using m skip_digits_moves [of ?p2 is_ascii_digit]
      by (cases "cur_digit ?p2") (auto simp: lexes_number_def moves_def good_errorI)
  qed
qed

lemma lexes_number_trans:
  assumes "moves m p q" "ps_values q = ps_values p" "lexes_number n q r"
  shows "lexes_number (m + n) p r"
  using assms by (auto simp: lexes_number_def moves_def split: option.splits)

lemma json_number_lexes: "in_range p \<Longrightarrow> lexes_number 1 p (json_number p)"
proof -
  assume p: "in_range p"
  let ?p1 = "snd (consume CHR ''-'' p)"
  have p1: "moves 0 p ?p1" "ps_values ?p1 = ps_values p"
    using consume_moves [of "CHR ''-''" p "?p1"] consume_False [of "CHR ''-''" p "?p1"] p
    by (cases "consume CHR ''-'' p"; cases "fst (consume CHR ''-'' p)"; auto simp: moves_def in_range_def)+
  show ?thesis
  proof (cases "cur_byte ?p1")
    case None
    then show ?thesis
      using p1 by (simp add: json_number_def Let_def lexes_number_def good_errorI moves_def)
  next
    case (Some c)
    have lt: "ps_index ?p1 < length (ps_input ?p1)" using cur_byte_Some Some by blast
    show ?thesis
    proof (cases "c = CHR ''0'' \<or> is_ascii_digit c")
      case False
      then show ?thesis
        using p1 Some lt by (auto simp: json_number_def Let_def lexes_number_def moves_def intro!: good_errorI)
    next
      case True
      define q where "q = (if c = CHR ''0'' then advance 1 ?p1 else skip_while is_ascii_digit (advance 1 ?p1))"
      have q: "moves 1 ?p1 q" "ps_values q = ps_values ?p1"
        using lt skip_while_moves [of "advance 1 ?p1" is_ascii_digit]
        by (auto simp: q_def moves_def in_range_def)
      have q': "moves 1 p q" "ps_values q = ps_values p"
        using moves_trans [OF p1(1) q(1)] q(2) p1(2) by simp_all
      have eq: "json_number p = (case number_fraction q of (Some e, p) \<Rightarrow> (Some e, p)
          | (None, p) \<Rightarrow> number_exponent p)"
        using Some True by (simp add: json_number_def Let_def q_def)
      have fr: "lexes_number (1 + 0) p (number_fraction q)"
        by (rule lexes_number_trans [OF q' number_fraction_lexes [OF moves_in_range [OF q(1)]]])
      show ?thesis
      proof (cases "number_fraction q")
        case (Pair e r)
        show ?thesis
        proof (cases e)
          case (Some e')
          then show ?thesis using fr Pair by (simp add: eq lexes_number_def)
        next
          case None
          then have r: "moves 1 p r" "ps_values r = ps_values p"
            using fr Pair by (simp_all add: lexes_number_def)
          show ?thesis
            using lexes_number_trans [OF r number_exponent_lexes [OF moves_in_range [OF r(1)]]]
              Pair None by (simp add: eq)
        qed
      qed
    qed
  qed
qed

lemma parse_scalar_lexes:
  assumes "cur_byte p = Some c"
  shows "lexes 1 p (parse_scalar c p)"
proof -
  have lt: "ps_index p < length (ps_input p)" using cur_byte_Some assms by blast
  then have p: "in_range p" by (simp add: in_range_def)
  have lit: "lexes 1 p (map_ok (\<lambda>p. (v, p)) (json_literal l p))" if "1 \<le> length l" for l and v :: json_node_value
    using json_literal_lexes [OF p, of l] that
    by (cases "json_literal l p") (auto simp: lexes_def moves_def)
  have str: "lexes 1 p (map_ok (\<lambda>(s, p). (JString s, p)) (json_string p))"
    using json_string_lexes [of p] by (cases "json_string p") (auto simp: lexes_def moves_def)
  have num: "lexes 1 p (case json_number p of (Some e, _) \<Rightarrow> Err e
      | (None, p') \<Rightarrow> Ok (JNumber (slice (ps_input p) (ps_index p) (ps_index p')), p'))"
    using json_number_lexes [OF p]
    by (cases "json_number p") (auto simp: lexes_def lexes_number_def split: option.split)
  have err: "good_error (ps_input p) (json_error ''syntax'' (ps_index p))"
    using lt by (intro good_errorI) simp
  show ?thesis
    unfolding parse_scalar_def using lit str num err
    by (auto simp: lexes_def split del: if_split split: if_split)
qed

section \<open>Limits and totality\<close>

text \<open>The number of values of a node and its nesting depth, counted on the tree.\<close>

primrec value_count :: "json_node \<Rightarrow> nat" and value_count_of :: "json_node_value \<Rightarrow> nat" where
  "value_count (JsonNode raw v max_depth values) = value_count_of v"
| "value_count_of JNull = 1"
| "value_count_of (JBoolean b) = 1"
| "value_count_of (JNumber s) = 1"
| "value_count_of (JString s) = 1"
| "value_count_of (JArray items) = 1 + sum_list (map value_count items)"
| "value_count_of (JObject members) = 1 + sum_list (map snd (map (map_prod id value_count) members))"

definition max_list :: "nat list \<Rightarrow> nat" where
  "max_list ns = fold max ns 0"

primrec nesting :: "json_node \<Rightarrow> nat" and nesting_of :: "json_node_value \<Rightarrow> nat" where
  "nesting (JsonNode raw v max_depth values) = nesting_of v"
| "nesting_of JNull = 0"
| "nesting_of (JBoolean b) = 0"
| "nesting_of (JNumber s) = 0"
| "nesting_of (JString s) = 0"
| "nesting_of (JArray items) = 1 + max_list (map nesting items)"
| "nesting_of (JObject members) = 1 + max_list (map snd (map (map_prod id nesting) members))"

text \<open>What a node parsed below \<open>d\<close> containers records about itself is right, and within the limits.\<close>

definition node_ok :: "nat \<Rightarrow> json_node \<Rightarrow> bool" where
  "node_ok d node \<longleftrightarrow> node_values node = value_count node
     \<and> node_max_depth node = (if nesting node = 0 then 0 else d + nesting node)
     \<and> d + nesting node \<le> MAX_DEPTH"

lemma fold_max_mono: "fold max ns a \<le> (b::nat) \<longleftrightarrow> a \<le> b \<and> (\<forall>n \<in> set ns. n \<le> b)"
  by (induction ns arbitrary: a) auto

lemma fold_max_nesting:
  "\<forall>n \<in> set ns. node_ok d n \<Longrightarrow>
     fold max (map node_max_depth ns) (d + a) = d + fold max (map nesting ns) a"
proof (induction ns arbitrary: a)
  case (Cons n ns)
  then have "max (node_max_depth n) (d + a) = d + max (nesting n) a"
    by (auto simp: node_ok_def max_def)
  then show ?case using Cons by simp
qed simp

lemma container_nesting:
  assumes "\<forall>n \<in> set ns. node_ok d n" "d \<le> MAX_DEPTH"
  shows "fold max (map node_max_depth ns) d = d + max_list (map nesting ns)"
    and "d + max_list (map nesting ns) \<le> MAX_DEPTH"
proof -
  show eq: "fold max (map node_max_depth ns) d = d + max_list (map nesting ns)"
    using fold_max_nesting [OF assms(1), of 0] by (simp add: max_list_def)
  have "\<forall>x \<in> set (map node_max_depth ns). x \<le> MAX_DEPTH"
    using assms(1) by (auto simp: node_ok_def split: if_splits)
  then show "d + max_list (map nesting ns) \<le> MAX_DEPTH"
    using assms(2) unfolding eq [symmetric] fold_max_mono by simp
qed

lemma sum_value_count:
  "\<forall>n \<in> set ns. node_ok d n \<Longrightarrow> sum_list (map node_values ns) = sum_list (map value_count ns)"
  by (induction ns) (auto simp: node_ok_def)

text \<open>The contracts of the recursive methods.\<close>

definition counts :: "nat \<Rightarrow> parser \<Rightarrow> parser \<Rightarrow> nat \<Rightarrow> bool" where
  "counts n p p' k \<longleftrightarrow> moves n p p' \<and> ps_values p' = ps_values p + k \<and> ps_values p' \<le> MAX_VALUES"

definition value_post :: "nat \<Rightarrow> parser \<Rightarrow> json_error + json_node \<times> parser \<Rightarrow> bool" where
  "value_post d p r \<longleftrightarrow> (case r of
       Inl e \<Rightarrow> good_error (ps_input p) e
     | Inr (node, p') \<Rightarrow> counts 1 p p' (node_values node) \<and> node_ok d node)"

definition list_post :: "('a \<Rightarrow> json_node) \<Rightarrow> nat \<Rightarrow> parser \<Rightarrow> 'a list \<Rightarrow> nat
    \<Rightarrow> json_error + ('a list \<times> nat) \<times> parser \<Rightarrow> bool" where
  "list_post f d p acc md r \<longleftrightarrow> (case r of
       Inl e \<Rightarrow> good_error (ps_input p) e
     | Inr ((out, md'), p') \<Rightarrow> (\<exists>new. out = acc @ new
         \<and> counts 1 p p' (sum_list (map (node_values \<circ> f) new))
         \<and> (\<forall>x \<in> set new. node_ok d (f x)) \<and> md' = fold max (map (node_max_depth \<circ> f) new) md))"

definition remaining :: "parser \<Rightarrow> nat" where
  "remaining p = length (ps_input p) - ps_index p"

definition can_parse :: "parser \<Rightarrow> bool" where
  "can_parse p \<longleftrightarrow> in_range p \<and> ps_values p \<le> MAX_VALUES"

lemma value_post_Err [simp]: "value_post d p (Inl e) = good_error (ps_input p) e"
  by (simp add: value_post_def)

lemma list_post_Err [simp]: "list_post f d p acc md (Inl e) = good_error (ps_input p) e"
  by (simp add: list_post_def)

lemma counts_trans: "counts m p q k \<Longrightarrow> counts n q r l \<Longrightarrow> counts (m + n) p r (k + l)"
  by (auto simp: counts_def moves_def)

lemma counts_moves: "moves n p q \<Longrightarrow> ps_values q = ps_values p \<Longrightarrow> ps_values p \<le> MAX_VALUES \<Longrightarrow> counts n p q 0"
  by (simp add: counts_def)

lemma counts_can_parse: "counts n p q k \<Longrightarrow> can_parse q"
  by (simp add: counts_def can_parse_def moves_def in_range_def)

lemma counts_remaining: "counts n p q k \<Longrightarrow> remaining q + n \<le> remaining p"
  by (auto simp: counts_def moves_def remaining_def)

lemma counts_input: "counts n p q k \<Longrightarrow> ps_input q = ps_input p"
  by (simp add: counts_def moves_def)

lemma counts_weaken: "counts m p q k \<Longrightarrow> n \<le> m \<Longrightarrow> counts n p q k"
  by (auto simp: counts_def moves_def)

text \<open>The rest of a list after one element, when it continues after a comma.\<close>

lemma list_post_step:
  assumes "counts 1 p q (node_values (f x))" "node_ok d (f x)" "counts n q q' 0"
    and "list_post f d q' (acc @ [x]) (max md (node_max_depth (f x))) r"
  shows "list_post f d p acc md r"
proof (cases r)
  case (Inl e)
  then show ?thesis using assms counts_input by (metis list_post_Err)
next
  case (Inr a)
  obtain out md' p' where r: "r = Inr ((out, md'), p')" using Inr by (metis surj_pair)
  obtain new where new: "out = (acc @ [x]) @ new" "counts 1 q' p' (sum_list (map (node_values \<circ> f) new))"
      "\<forall>y \<in> set new. node_ok d (f y)"
      "md' = fold max (map (node_max_depth \<circ> f) new) (max md (node_max_depth (f x)))"
    using assms(4) r by (auto simp: list_post_def)
  have "counts 1 p p' (node_values (f x) + sum_list (map (node_values \<circ> f) new))"
    using counts_trans [OF assms(1) counts_trans [OF assms(3) new(2)]]
    by (auto intro: counts_weaken)
  then show ?thesis
    unfolding r list_post_def using new assms(2)
    by (auto intro!: exI [of _ "x # new"] simp: max.commute)
qed

lemma list_post_last:
  assumes "counts 1 p q (node_values (f x))" "node_ok d (f x)" "counts n q q' 0"
  shows "list_post f d p acc md (Inr ((acc @ [x], max md (node_max_depth (f x))), q'))"
  using counts_weaken [OF counts_trans [OF assms(1,3)]] assms(2)
  by (auto simp: list_post_def intro!: exI [of _ "[x]"])

lemma after_element:
  assumes "can_parse q"
  shows "consume c (whitespace q) = (True, q') \<Longrightarrow> counts 1 q q' 0"
    and "consume c (whitespace q) = (False, q') \<Longrightarrow> expect_byte e q' = Inr q'' \<Longrightarrow>
       counts 1 q (whitespace q'') 0"
    and "consume c (whitespace q) = (False, q') \<Longrightarrow> expect_byte e q' = Inl err \<Longrightarrow>
       good_error (ps_input q) err"
proof -
  have w: "moves 0 q (whitespace q)" "ps_values (whitespace q) = ps_values q" "in_range q"
    using assms whitespace_moves by (auto simp: can_parse_def)
  show "consume c (whitespace q) = (True, q') \<Longrightarrow> counts 1 q q' 0"
    using consume_moves [of c "whitespace q" q'] w assms by (auto simp: counts_def moves_def can_parse_def)
  assume f: "consume c (whitespace q) = (False, q')"
  then have q': "q' = whitespace q" by (rule consume_False)
  show "counts 1 q (whitespace q'') 0" if "expect_byte e q' = Inr q''"
  proof -
    have "moves 1 q q''" "ps_values q'' = ps_values q"
      using expect_byte_Ok [OF that] w q' by (auto simp: moves_def)
    moreover from this have "in_range q''" by (simp add: moves_def in_range_def)
    ultimately show ?thesis
      using whitespace_moves [of q''] assms by (auto simp: counts_def moves_def can_parse_def)
  qed
  show "good_error (ps_input q) err" if "expect_byte e q' = Inl err"
    using expect_byte_Err [OF that] q' w by (simp add: moves_def)
qed

lemma begin_value_cases:
  assumes "can_parse p"
  shows "begin_value p = Inr q \<Longrightarrow> moves 0 p q \<and> ps_values q = ps_values p + 1 \<and> ps_values q \<le> MAX_VALUES"
    and "begin_value p = Inl e \<Longrightarrow> good_error (ps_input p) e"
  using assms whitespace_moves [of p]
  by (auto simp: begin_value_def Let_def can_parse_def moves_def in_range_def
      intro!: good_errorI split: if_splits)

lemma finish_value_post:
  assumes b: "begin_value p = Inr q" and p: "can_parse p"
    and q: "moves 1 q p'" "ps_values p' = ps_values q + k" "ps_values p' \<le> MAX_VALUES"
    and v: "value_count_of v = k + 1" "nesting_of v = n" "md = (if n = 0 then 0 else d + n)"
      "d + n \<le> MAX_DEPTH"
  shows "value_post d p (Inr (finish_value q v md p'))"
  using begin_value_cases(1) [OF p b] q v
  by (auto simp: value_post_def finish_value_def counts_def moves_def node_ok_def)

lemma can_parse_begin: "can_parse p \<Longrightarrow> begin_value p = Inr q \<Longrightarrow> can_parse q \<and> remaining q \<le> remaining p
    \<and> ps_input q = ps_input p"
  using begin_value_cases(1) [of p q]
  by (auto simp: can_parse_def moves_def in_range_def remaining_def)

declare parse_array.simps [simp del] parse_object.simps [simp del]

lemma container_post:
  assumes b: "begin_value p = Inr q" and p: "can_parse p" and d: "d + 1 \<le> MAX_DEPTH"
    and post: "list_post f (d + 1) q [] (d + 1) r"
    and c: "\<And>xs. value_count_of (C xs) = 1 + sum_list (map value_count (map f xs))"
      "\<And>xs. nesting_of (C xs) = 1 + max_list (map nesting (map f xs))"
  shows "value_post d p (map_ok (\<lambda>((xs, nested), p'). finish_value q (C xs) (max (d + 1) nested) p') r)"
proof (cases r)
  case (Inl e)
  then show ?thesis using post can_parse_begin [OF p b] by simp
next
  case (Inr r')
  obtain xs nested p' where r: "r = Inr ((xs, nested), p')" using Inr by (metis surj_pair)
  have xs: "counts 1 q p' (sum_list (map node_values (map f xs)))"
      "\<forall>x \<in> set (map f xs). node_ok (d + 1) x" "nested = fold max (map node_max_depth (map f xs)) (d + 1)"
    using post r by (auto simp: list_post_def)
  have md: "nested = d + 1 + max_list (map nesting (map f xs))"
      "d + 1 + max_list (map nesting (map f xs)) \<le> MAX_DEPTH"
    using container_nesting [OF xs(2) d] xs(3) by simp_all
  have "value_post d p (Inr (finish_value q (C xs) (max (d + 1) nested) p'))"
    by (rule finish_value_post [OF b p, where k = "sum_list (map node_values (map f xs))"
        and n = "1 + max_list (map nesting (map f xs))"])
      (use xs(1) md sum_value_count [OF xs(2)] in \<open>simp_all add: counts_def c\<close>)
  then show ?thesis using r by simp
qed

lemma scalar_post:
  assumes b: "begin_value p = Inr q" and p: "can_parse p" and c: "cur_byte q = Some c"
    and d: "d \<le> MAX_DEPTH"
  shows "value_post d p (map_ok (\<lambda>(v, p'). finish_value q v 0 p') (parse_scalar c q))"
proof (cases "parse_scalar c q")
  case (Inl e)
  then show ?thesis
    using parse_scalar_lexes [OF c] can_parse_begin [OF p b] by (simp add: lexes_def)
next
  case (Inr r)
  obtain v p' where r: "r = (v, p')" by fastforce
  have v: "value_count_of v = 1" "nesting_of v = 0"
    using Inr r unfolding parse_scalar_def by (auto split: if_splits prod.splits option.splits)
  have "value_post d p (Inr (finish_value q v 0 p'))"
    by (rule finish_value_post [OF b p, where k = 0 and n = 0])
      (use parse_scalar_lexes [OF c] Inr r v d can_parse_begin [OF p b] in
        \<open>auto simp: lexes_def can_parse_def\<close>)
  then show ?thesis using Inr r by simp
qed

lemma parse_value_post:
  assumes p: "can_parse p" and fuel: "2 * remaining p + 1 \<le> Suc fuel" and d: "d \<le> MAX_DEPTH"
    and arr: "\<And>q. can_parse q \<Longrightarrow> cur_byte q = Some CHR ''['' \<Longrightarrow> 2 * remaining q \<le> fuel \<Longrightarrow>
      d + 1 \<le> MAX_DEPTH \<Longrightarrow> list_post (\<lambda>x. x) (d + 1) q [] (d + 1) (parse_array fuel (d + 1) q)"
    and obj: "\<And>q. can_parse q \<Longrightarrow> cur_byte q = Some CHR ''{'' \<Longrightarrow> 2 * remaining q \<le> fuel \<Longrightarrow>
      d + 1 \<le> MAX_DEPTH \<Longrightarrow> list_post snd (d + 1) q [] (d + 1) (parse_object fuel (d + 1) q)"
  shows "value_post d p (parse_value (Suc fuel) d p)"
proof (cases "begin_value p")
  case (Inl e)
  then show ?thesis using begin_value_cases(2) [OF p] by simp
next
  case (Inr q)
  have q: "can_parse q" "2 * remaining q \<le> fuel" "ps_input q = ps_input p"
    using can_parse_begin [OF p Inr] fuel by simp_all
  show ?thesis
  proof (cases "cur_byte q")
    case None
    then show ?thesis using Inr q(3) by (simp add: good_errorI)
  next
    case (Some c)
    have limit: "good_error (ps_input p) (json_error ''limit'' (ps_index q))"
      using cur_byte_Some [OF Some] q(3) by (intro good_errorI) simp
    have "value_post d p (map_ok (\<lambda>((items, nested), p').
        finish_value q (JArray items) (max (d + 1) nested) p') (parse_array fuel (d + 1) q))"
      if "c = CHR ''[''" "d + 1 \<le> MAX_DEPTH"
      by (rule container_post [OF Inr p that(2), where f = "\<lambda>x. x"])
        (use arr [OF q(1) _ q(2) that(2)] Some that(1) in simp_all)
    moreover have "value_post d p (map_ok (\<lambda>((members, nested), p').
        finish_value q (JObject members) (max (d + 1) nested) p') (parse_object fuel (d + 1) q))"
      if "c = CHR ''{''" "d + 1 \<le> MAX_DEPTH"
      by (rule container_post [OF Inr p that(2), where f = snd])
        (use obj [OF q(1) _ q(2) that(2)] Some that(1) in simp_all)
    ultimately show ?thesis
      using Inr Some limit scalar_post [OF Inr p Some d] by auto
  qed
qed

lemma open_post:
  assumes p: "can_parse p" and lt: "ps_index p < length (ps_input p)"
    and fuel: "2 * remaining p \<le> fuel"
    and rest: "\<And>w. can_parse w \<Longrightarrow> 2 * remaining w + 2 \<le> fuel \<Longrightarrow> list_post f d w [] d (g w)"
  shows "list_post f d p [] d (case consume c (whitespace (advance 1 p)) of
      (True, p) \<Rightarrow> Ok (([], d), p) | (False, p) \<Rightarrow> g p)"
proof -
  let ?w = "whitespace (advance 1 p)"
  have "in_range (advance 1 p)" using lt by (simp add: in_range_def)
  then have w: "counts 1 p ?w 0"
    using whitespace_moves [of "advance 1 p"] p by (auto simp: counts_def moves_def can_parse_def)
  obtain ok q where c: "consume c ?w = (ok, q)" by fastforce
  show ?thesis
  proof (cases ok)
    case True
    then have "counts 1 p q 0"
      using consume_moves [of c ?w q] c w by (auto simp: counts_def moves_def)
    then show ?thesis using c True by (simp add: list_post_def)
  next
    case False
    have "list_post f d ?w [] d (g ?w)"
      using rest counts_can_parse [OF w] counts_remaining [OF w] fuel by simp
    then have "list_post f d p [] d (g ?w)"
      using counts_input [OF w] counts_weaken [OF counts_trans [OF w]]
      by (fastforce simp: list_post_def split: sum.splits)
    then show ?thesis using c False consume_False [of c ?w q] by simp
  qed
qed

lemma element_post:
  assumes pq: "counts n p q 0" and v: "value_post d q r"
    and fuel: "2 * remaining p + 2 \<le> Suc fuel" and f: "\<And>node. f (h node) = node"
    and rest: "\<And>node w. can_parse w \<Longrightarrow> 2 * remaining w + 2 \<le> fuel \<Longrightarrow>
      list_post f d w (acc @ [h node]) (max md (node_max_depth node)) (k node w)"
  shows "list_post f d p acc md (try_bind r (\<lambda>(node, p). case consume c (whitespace p) of
      (True, p) \<Rightarrow> Ok ((acc @ [h node], max md (node_max_depth node)), p)
    | (False, p) \<Rightarrow> try_bind (expect_byte e p) (\<lambda>p. k node (whitespace p))))"
proof (cases r)
  case (Inl err)
  then show ?thesis using v counts_input [OF pq] by simp
next
  case (Inr a)
  obtain node q2 where a: "r = Inr (node, q2)" using Inr by (metis surj_pair)
  have "counts 1 q q2 (node_values node)" "node_ok d node"
    using v a by (simp_all add: value_post_def)
  then have q2: "counts 1 p q2 (node_values (f (h node)))" "node_ok d (f (h node))"
    using counts_weaken [OF counts_trans [OF pq], of 1 q2 "node_values node" 1] by (simp_all add: f)
  note cq = counts_can_parse [OF q2(1)]
  obtain ok q3 where c: "consume c (whitespace q2) = (ok, q3)" by fastforce
  show ?thesis
  proof (cases ok)
    case True
    then have "counts 1 q2 q3 0" using after_element(1) [OF cq] c by simp
    then show ?thesis
      using a c True list_post_last [where f = f and x = "h node", OF q2 \<open>counts 1 q2 q3 0\<close>]
      by (simp add: f)
  next
    case False
    show ?thesis
    proof (cases "expect_byte e q3")
      case err: (Inl err)
      then show ?thesis
        using a c False after_element(3) [OF cq _ err] counts_input [OF q2(1)] by simp
    next
      case q4: (Inr q4)
      have s: "counts 1 q2 (whitespace q4) 0" using after_element(2) [OF cq _ q4] c False by simp
      have "2 * remaining (whitespace q4) + 2 \<le> fuel"
        using counts_remaining [OF q2(1)] counts_remaining [OF s] fuel by simp
      then show ?thesis
        using list_post_step [where f = f and x = "h node", OF q2 s] rest [OF counts_can_parse [OF s]] a c False q4
        by (simp add: f)
    qed
  qed
qed

lemma member_key:
  assumes p: "can_parse p" "json_string p = Inr (key, q)" and q1: "expect_byte CHR '':'' (whitespace q) = Inr q1"
  shows "counts 3 p q1 0"
proof -
  have q: "counts 2 p q 0"
    using json_string_lexes [of p] p by (simp add: lexes_def counts_def can_parse_def)
  then have "counts 1 q q1 0"
    using expect_byte_Ok [OF q1] whitespace_moves [of q] counts_can_parse [OF q]
    by (auto simp: counts_def moves_def can_parse_def)
  then show ?thesis using counts_trans [OF q] by fastforce
qed

lemma member_key_error:
  assumes p: "can_parse p" "json_string p = Inr (key, q)" and e: "expect_byte CHR '':'' (whitespace q) = Inl e"
  shows "good_error (ps_input p) e"
proof -
  have q: "counts 2 p q 0"
    using json_string_lexes [of p] p by (simp add: lexes_def counts_def can_parse_def)
  then show ?thesis
    using expect_byte_Err [OF e] whitespace_moves(4) [of q] counts_can_parse [OF q] counts_input [OF q]
    by (simp add: can_parse_def)
qed

lemma parse_posts:
  "can_parse p \<Longrightarrow> 2 * remaining p + 1 \<le> fuel \<Longrightarrow> d \<le> MAX_DEPTH \<Longrightarrow>
     value_post d p (parse_value fuel d p)"
  "can_parse p \<Longrightarrow> 2 * remaining p + 2 \<le> fuel \<Longrightarrow> d \<le> MAX_DEPTH \<Longrightarrow>
     list_post (\<lambda>x. x) d p items md (parse_items fuel d items md p)"
  "can_parse p \<Longrightarrow> 2 * remaining p + 2 \<le> fuel \<Longrightarrow> d \<le> MAX_DEPTH \<Longrightarrow>
     list_post snd d p members md (parse_members fuel d members md p)"
proof (induction fuel arbitrary: d p items md members)
  case (Suc fuel)
  note IH = Suc.IH
  { case 1
    show ?case
    proof (rule parse_value_post [OF 1])
      fix q assume q: "can_parse q" "2 * remaining q \<le> fuel" "d + 1 \<le> MAX_DEPTH"
      show "list_post (\<lambda>x. x) (d + 1) q [] (d + 1) (parse_array fuel (d + 1) q)"
        if "cur_byte q = Some CHR ''[''"
        unfolding parse_array.simps
        by (rule open_post [OF q(1) cur_byte_Some [OF that] q(2)]) (rule IH(2) [OF _ _ q(3)])
      show "list_post snd (d + 1) q [] (d + 1) (parse_object fuel (d + 1) q)"
        if "cur_byte q = Some CHR ''{''"
        unfolding parse_object.simps
        by (rule open_post [OF q(1) cur_byte_Some [OF that] q(2)]) (rule IH(3) [OF _ _ q(3)])
    qed
  next
    case 2
    have "counts 0 p p 0" using 2(1) by (simp add: can_parse_def counts_def moves_refl)
    moreover have "value_post d p (parse_value fuel d p)" using 2 by (intro IH(1)) simp_all
    ultimately show ?case
      unfolding parse_items.simps
      by (rule element_post [where f = "\<lambda>x. x", OF _ _ 2(2)]) (auto intro: IH(2) 2(3))
  next
    case 3
    show ?case
    proof (cases "cur_byte p = Some CHR 0x22")
      case False
      then show ?thesis using 3(1) by (simp add: good_errorI can_parse_def in_range_def)
    next
      case quote: True
      show ?thesis
      proof (cases "json_string p")
        case (Inl e)
        then show ?thesis using quote json_string_lexes [of p] by (simp add: lexes_def)
      next
        case (Inr r)
        obtain key q where kq: "json_string p = Inr (key, q)" using Inr by (cases r) simp
        show ?thesis
        proof (cases "expect_byte CHR '':'' (whitespace q)")
          case e: (Inl e)
          then show ?thesis using quote kq member_key_error [OF 3(1) kq e] by simp
        next
          case q1: (Inr q1)
          note c = member_key [OF 3(1) kq q1]
          have post: "value_post d q1 (parse_value fuel d q1)"
            using counts_can_parse [OF c] counts_remaining [OF c] 3 by (intro IH(1)) simp_all
          have rest: "list_post snd d w (members @ [(key, node)]) (max md (node_max_depth node))
              (parse_members fuel d (members @ [(key, node)]) (max md (node_max_depth node)) w)"
            if "can_parse w" "2 * remaining w + 2 \<le> fuel" for node w
            using that by (intro IH(3) 3(3))
          show ?thesis
            using quote kq q1 element_post [where f = snd and h = "\<lambda>node. (key, node)" and acc = members
                and k = "\<lambda>node w. parse_members fuel d (members @ [(key, node)])
                  (max md (node_max_depth node)) w", OF c post 3(2) _ rest]
            by simp
        qed
      qed
    qed
  }
qed simp_all

lemma parse_json_bounds:
  "case parse_json s of
     Inr node \<Rightarrow> length s \<le> MAX_BYTES \<and> node_raw node = s
       \<and> node_values node = value_count node \<and> value_count node \<le> MAX_VALUES
       \<and> node_max_depth node = nesting node \<and> nesting node \<le> MAX_DEPTH
   | Inl e \<Rightarrow> je_code e \<in> {''limit'', ''syntax'', ''unsupported_string''} \<and> je_offset e \<le> length s"
proof (cases "MAX_BYTES < length s")
  case True
  then show ?thesis by (simp add: parse_json_def json_error_def)
next
  case False
  let ?p = "initial_parser s"
  define res where "res = parse_value (2 * length s + 1) 0 ?p"
  have vp: "value_post 0 ?p res"
    unfolding res_def by (rule parse_posts(1))
      (simp_all add: can_parse_def in_range_def initial_parser_def remaining_def)
  have err: "je_code e \<in> {''limit'', ''syntax'', ''unsupported_string''} \<and> je_offset e \<le> length s"
    if "good_error s e" for e
    using that by (auto simp: good_error_def json_error_def)
  show ?thesis
  proof (cases res)
    case (Inl e)
    then show ?thesis
      using vp err False unfolding parse_json_def res_def [symmetric] by (simp add: initial_parser_def)
  next
    case (Inr r)
    obtain node p' where r: "r = (node, p')" by fastforce
    obtain raw v md n where node: "node = JsonNode raw v md n" by (cases node)
    have post: "counts 1 ?p p' (node_values node)" "node_ok 0 node"
      using vp Inr r by (simp_all add: value_post_def)
    have w: "ps_index (whitespace p') \<le> length s"
      using whitespace_moves [of p'] counts_can_parse [OF post(1)] counts_input [OF post(1)]
      by (simp add: can_parse_def in_range_def initial_parser_def)
    have "value_count node \<le> MAX_VALUES"
      using post by (simp add: counts_def node_ok_def initial_parser_def)
    then show ?thesis
      using Inr r False post(2) w node unfolding parse_json_def res_def [symmetric]
      by (auto simp: Let_def node_ok_def json_error_def split: if_splits)
  qed
qed

text \<open>C39. The JSON parser always returns, within the limits. Accepted text of at most 8 MiB gives a node
  whose source is the whole text, whose value count and depth are those of its tree, with at most
  262,144 values nested at most 128 deep. Rejected text gives one of the three parse error codes with
  an offset inside the text, or its end; it never runs out of the fuel of the model.\<close>

theorem parse_json_within_limits:
  "case parse_json s of
     Inr node \<Rightarrow> length s \<le> MAX_BYTES \<and> node_raw node = s
       \<and> node_values node = value_count node \<and> value_count node \<le> MAX_VALUES
       \<and> node_max_depth node = nesting node \<and> nesting node \<le> MAX_DEPTH
   | Inl e \<Rightarrow> je_code e \<in> {''limit'', ''syntax'', ''unsupported_string''} \<and> je_offset e \<le> length s"
  by (rule parse_json_bounds)

end
