(* ===== verification/Json_Text.thy ===== *)
theory Json_Text
  imports Json_Bounds
begin

text \<open>
  What the parser's methods do on the remaining input, and the number grammar of RFC 8259 that
  \<open>number\<close> and \<open>from_number_text\<close> accept.
\<close>

section \<open>The remaining input\<close>

definition rest_of :: "parser \<Rightarrow> string" where
  "rest_of p = drop (ps_index p) (ps_input p)"

lemma cur_byte_rest: "cur_byte p = (case rest_of p of [] \<Rightarrow> None | c # _ \<Rightarrow> Some c)"
  by (auto simp: cur_byte_def rest_of_def Cons_nth_drop_Suc [symmetric] split: list.split)

lemma rest_advance: "rest_of (advance n p) = drop n (rest_of p)"
  by (simp add: rest_of_def add.commute)

lemma rest_consume: "consume c p = (if rest_of p \<noteq> [] \<and> hd (rest_of p) = c
    then (True, advance 1 p) else (False, p))"
  by (cases "rest_of p") (auto simp: consume_def cur_byte_rest)

lemma rest_skip_while: "rest_of (skip_while P p) = dropWhile P (rest_of p)"
proof (induction P p rule: skip_while.induct)
  case (1 P p)
  then show ?case
    by (cases "rest_of p") (auto simp: skip_while.simps [of P p] cur_byte_rest rest_advance)
qed

lemma rest_initial [simp]: "rest_of (initial_parser s) = s"
  by (simp add: rest_of_def initial_parser_def)

lemma rest_empty: "moves n p q \<Longrightarrow> rest_of q = [] \<longleftrightarrow> ps_index q = length (ps_input p)"
  by (auto simp: rest_of_def moves_def)

section \<open>The number grammar\<close>

definition json_digits :: "string \<Rightarrow> bool" where
  "json_digits ds \<longleftrightarrow> ds \<noteq> [] \<and> (\<forall>c \<in> set ds. is_ascii_digit c)"

definition json_fraction :: "string \<Rightarrow> bool" where
  "json_fraction s \<longleftrightarrow> s = [] \<or> (\<exists>ds. s = CHR ''.'' # ds \<and> json_digits ds)"

definition json_exponent :: "string \<Rightarrow> bool" where
  "json_exponent s \<longleftrightarrow> s = [] \<or> (\<exists>e sign ds. s = e # sign @ ds \<and> e \<in> {CHR ''e'', CHR ''E''}
     \<and> sign \<in> {[], ''+'', ''-''} \<and> json_digits ds)"

definition json_unsigned :: "string \<Rightarrow> bool" where
  "json_unsigned s \<longleftrightarrow> (\<exists>int frac ex. s = int @ frac @ ex \<and> json_digits int
     \<and> (hd int = CHR ''0'' \<longrightarrow> int = ''0'') \<and> json_fraction frac \<and> json_exponent ex)"

text \<open>The \<open>number\<close> production of RFC 8259.\<close>

definition is_json_number :: "string \<Rightarrow> bool" where
  "is_json_number s \<longleftrightarrow> json_unsigned s \<or> (\<exists>t. s = CHR ''-'' # t \<and> json_unsigned t)"

text \<open>What \<open>number\<close> leaves of the remaining input, when it succeeds.\<close>

definition after_digits :: "string \<Rightarrow> string option" where
  "after_digits s = (if s \<noteq> [] \<and> is_ascii_digit (hd s) then Some (dropWhile is_ascii_digit s) else None)"

definition after_fraction :: "string \<Rightarrow> string option" where
  "after_fraction s = (if s \<noteq> [] \<and> hd s = CHR ''.'' then after_digits (tl s) else Some s)"

definition after_exponent :: "string \<Rightarrow> string option" where
  "after_exponent s = (if s \<noteq> [] \<and> hd s \<in> {CHR ''e'', CHR ''E''} then
     after_digits (if tl s \<noteq> [] \<and> hd (tl s) \<in> {CHR ''+'', CHR ''-''} then tl (tl s) else tl s)
     else Some s)"

definition after_integer :: "string \<Rightarrow> string option" where
  "after_integer s = (if s \<noteq> [] \<and> hd s = CHR ''0'' then Some (tl s) else after_digits s)"

definition after_number :: "string \<Rightarrow> string option" where
  "after_number s = Option.bind (after_integer (if s \<noteq> [] \<and> hd s = CHR ''-'' then tl s else s))
     (\<lambda>s. Option.bind (after_fraction s) after_exponent)"

definition success_rest :: "json_error option \<times> parser \<Rightarrow> string option" where
  "success_rest r = (case r of (None, p) \<Rightarrow> Some (rest_of p) | (Some _, _) \<Rightarrow> None)"

lemma cur_digit_rest: "cur_digit p \<longleftrightarrow> rest_of p \<noteq> [] \<and> is_ascii_digit (hd (rest_of p))"
  by (cases "rest_of p") (auto simp: cur_digit_def cur_byte_rest)

lemma number_fraction_rest: "success_rest (number_fraction p) = after_fraction (rest_of p)"
  by (auto simp: number_fraction_def rest_consume success_rest_def after_fraction_def after_digits_def
      cur_digit_rest rest_skip_while rest_advance drop_Suc)

lemma number_exponent_rest: "success_rest (number_exponent p) = after_exponent (rest_of p)"
  by (cases "rest_of p"; cases "tl (rest_of p)")
    (auto simp: number_exponent_def Let_def success_rest_def after_exponent_def after_digits_def
      cur_digit_rest rest_skip_while rest_advance cur_byte_rest drop_Suc)

lemma json_number_rest: "success_rest (json_number p) = after_number (rest_of p)"
proof -
  let ?p1 = "snd (consume CHR ''-'' p)"
  let ?s1 = "if rest_of p \<noteq> [] \<and> hd (rest_of p) = CHR ''-'' then tl (rest_of p) else rest_of p"
  have p1: "rest_of ?p1 = ?s1"
    by (simp add: rest_consume rest_advance drop_Suc)
  show ?thesis
  proof (cases ?s1)
    case Nil
    then show ?thesis
      using p1 by (simp add: json_number_def Let_def cur_byte_rest success_rest_def after_number_def
          after_integer_def after_digits_def)
  next
    case (Cons c s)
    show ?thesis
    proof (cases "c = CHR ''0'' \<or> is_ascii_digit c")
      case False
      then show ?thesis
        using p1 Cons by (simp add: json_number_def Let_def cur_byte_rest success_rest_def after_number_def
            after_integer_def after_digits_def)
    next
      case True
      define q where "q = (if c = CHR ''0'' then advance 1 ?p1 else skip_while is_ascii_digit (advance 1 ?p1))"
      have q: "after_integer ?s1 = Some (rest_of q)"
        using Cons p1 True
        by (auto simp: after_integer_def after_digits_def q_def rest_advance rest_skip_while)
      have eq: "json_number p = (case number_fraction q of (Some e, p) \<Rightarrow> (Some e, p)
          | (None, p) \<Rightarrow> number_exponent p)"
        using Cons True p1 by (simp add: json_number_def Let_def q_def cur_byte_rest)
      have an: "after_number (rest_of p) = Option.bind (after_fraction (rest_of q)) after_exponent"
        unfolding after_number_def q by simp
      show ?thesis
        unfolding eq an number_fraction_rest [symmetric]
        using number_exponent_rest
        by (cases "number_fraction q"; cases "fst (number_fraction q)") (auto simp: success_rest_def)
    qed
  qed
qed

lemma after_digits_iff: "after_digits s = Some r \<longleftrightarrow>
    (\<exists>ds. s = ds @ r \<and> json_digits ds \<and> (r \<noteq> [] \<longrightarrow> \<not> is_ascii_digit (hd r)))"
proof
  assume a: "after_digits s = Some r"
  then have "s = takeWhile is_ascii_digit s @ r" "s \<noteq> []" "is_ascii_digit (hd s)"
      "r = dropWhile is_ascii_digit s"
    by (auto simp: after_digits_def split: if_splits)
  then show "\<exists>ds. s = ds @ r \<and> json_digits ds \<and> (r \<noteq> [] \<longrightarrow> \<not> is_ascii_digit (hd r))"
    using hd_dropWhile [of is_ascii_digit s]
    by (intro exI [of _ "takeWhile is_ascii_digit s"])
      (cases s; auto simp: json_digits_def dest: set_takeWhileD)
next
  assume "\<exists>ds. s = ds @ r \<and> json_digits ds \<and> (r \<noteq> [] \<longrightarrow> \<not> is_ascii_digit (hd r))"
  then obtain ds where ds: "s = ds @ r" "json_digits ds" "r \<noteq> [] \<longrightarrow> \<not> is_ascii_digit (hd r)" by blast
  then have "dropWhile is_ascii_digit s = r"
    by (cases r) (auto simp: json_digits_def)
  then show "after_digits s = Some r"
    using ds by (cases ds) (auto simp: after_digits_def json_digits_def)
qed

lemma digit_chars:
  "is_ascii_digit CHR ''0''" "\<not> is_ascii_digit CHR ''-''" "\<not> is_ascii_digit CHR ''+''"
  "\<not> is_ascii_digit CHR ''.''" "\<not> is_ascii_digit CHR ''e''" "\<not> is_ascii_digit CHR ''E''"
  by (simp_all add: is_ascii_digit_def byte_of_def)

lemma json_digits_hd: "json_digits ds \<Longrightarrow> ds \<noteq> [] \<and> is_ascii_digit (hd ds)"
  by (cases ds) (auto simp: json_digits_def)

lemma after_exponent_iff: "after_exponent s = Some [] \<longleftrightarrow> json_exponent s"
proof (cases "s \<noteq> [] \<and> hd s \<in> {CHR ''e'', CHR ''E''}")
  case False
  then show ?thesis
    unfolding after_exponent_def json_exponent_def if_not_P [OF False] by auto
next
  case True
  then obtain e t where s: "s = e # t" "e \<in> {CHR ''e'', CHR ''E''}" by (cases s) auto
  have ds: "after_digits u = Some [] \<longleftrightarrow> json_digits u" for u by (simp add: after_digits_iff)
  have "(if t \<noteq> [] \<and> hd t \<in> {CHR ''+'', CHR ''-''} then json_digits (tl t) else json_digits t)
      \<longleftrightarrow> (\<exists>sign ds. t = sign @ ds \<and> sign \<in> {[], ''+'', ''-''} \<and> json_digits ds)"
  proof (cases "t \<noteq> [] \<and> hd t \<in> {CHR ''+'', CHR ''-''}")
    case True
    then obtain c u where t: "t = c # u" "c \<in> {CHR ''+'', CHR ''-''}" by (cases t) auto
    have nd: "\<not> json_digits t" using t digit_chars json_digits_hd [of t] by auto
    show ?thesis
    proof
      assume "if t \<noteq> [] \<and> hd t \<in> {CHR ''+'', CHR ''-''} then json_digits (tl t) else json_digits t"
      then have "json_digits u" using True t by simp
      then show "\<exists>sign ds. t = sign @ ds \<and> sign \<in> {[], ''+'', ''-''} \<and> json_digits ds"
        using t by (intro exI [of _ "[c]"] exI [of _ u]) auto
    qed (use t nd in auto)
  next
    case False
    then show ?thesis unfolding if_not_P [OF False] by auto
  qed
  then show ?thesis
    using s by (auto simp: after_exponent_def json_exponent_def ds)
qed

lemma exponent_start: "json_exponent s \<Longrightarrow> s \<noteq> [] \<Longrightarrow> hd s \<in> {CHR ''e'', CHR ''E''}"
  by (auto simp: json_exponent_def)

lemma fraction_exponent_iff: "Option.bind (after_fraction s) after_exponent = Some []
    \<longleftrightarrow> (\<exists>frac ex. s = frac @ ex \<and> json_fraction frac \<and> json_exponent ex)"
proof (cases "s \<noteq> [] \<and> hd s = CHR ''.''")
  case False
  then have "\<not> (\<exists>ds. s = CHR ''.'' # ds)" by auto
  then show ?thesis
    unfolding after_fraction_def if_not_P [OF False]
    by (auto simp: json_fraction_def after_exponent_iff)
next
  case True
  then obtain t where s: "s = CHR ''.'' # t" by (cases s) auto
  have "Option.bind (after_digits t) after_exponent = Some []
      \<longleftrightarrow> (\<exists>r. after_digits t = Some r \<and> json_exponent r)"
    by (cases "after_digits t") (auto simp: after_exponent_iff)
  also have "\<dots> \<longleftrightarrow> (\<exists>ds r. t = ds @ r \<and> json_digits ds \<and> json_exponent r)"
    using exponent_start digit_chars by (fastforce simp: after_digits_iff)
  also have "\<dots> \<longleftrightarrow> (\<exists>frac ex. s = frac @ ex \<and> json_fraction frac \<and> json_exponent ex)"
  proof
    assume "\<exists>ds r. t = ds @ r \<and> json_digits ds \<and> json_exponent r"
    then obtain ds r where "t = ds @ r" "json_digits ds" "json_exponent r" by blast
    then show "\<exists>frac ex. s = frac @ ex \<and> json_fraction frac \<and> json_exponent ex"
      by (intro exI [of _ "CHR ''.'' # ds"] exI [of _ r]) (simp add: s json_fraction_def)
  next
    assume "\<exists>frac ex. s = frac @ ex \<and> json_fraction frac \<and> json_exponent ex"
    then obtain frac ex where fe: "s = frac @ ex" "json_fraction frac" "json_exponent ex" by blast
    then have "frac \<noteq> []" using s exponent_start [of ex] by auto
    then obtain ds where "frac = CHR ''.'' # ds" "json_digits ds"
      using fe(2) by (auto simp: json_fraction_def)
    then show "\<exists>ds r. t = ds @ r \<and> json_digits ds \<and> json_exponent r"
      using fe s by (intro exI [of _ ds] exI [of _ ex]) simp
  qed
  finally show ?thesis using s by (simp add: after_fraction_def)
qed

lemma integer_iff: "(\<exists>r. after_integer s = Some r \<and> Q r) \<longleftrightarrow>
    (\<exists>int r. s = int @ r \<and> json_digits int \<and> (hd int = CHR ''0'' \<longrightarrow> int = ''0'') \<and> Q r)"
  if Q: "\<And>r. Q r \<Longrightarrow> r \<noteq> [] \<Longrightarrow> \<not> is_ascii_digit (hd r)"
proof (cases "s \<noteq> [] \<and> hd s = CHR ''0''")
  case True
  then obtain t where s: "s = CHR ''0'' # t" by (cases s) auto
  have "json_digits ''0''" by (simp add: json_digits_def digit_chars)
  moreover have "int = ''0'' \<and> r = t" if "s = int @ r" "json_digits int" "hd int = CHR ''0'' \<longrightarrow> int = ''0''"
    for int r
    using that s json_digits_hd [OF that(2)] by (cases int) auto
  ultimately have "(\<exists>int r. s = int @ r \<and> json_digits int \<and> (hd int = CHR ''0'' \<longrightarrow> int = ''0'') \<and> Q r)
      \<longleftrightarrow> Q t"
    using s by (intro iffI) (blast, intro exI [of _ "''0''"] exI [of _ t], simp)
  moreover have "after_integer s = Some t" using s by (simp add: after_integer_def)
  ultimately show ?thesis by simp
next
  case False
  then have ai: "after_integer s = after_digits s" unfolding after_integer_def by (rule if_not_P)
  have hd: "hd int \<noteq> CHR ''0''" if "s = int @ r" "json_digits int" for int r
    using False that json_digits_hd [OF that(2)] by auto
  show ?thesis
    unfolding ai after_digits_iff using Q hd by blast
qed

lemma fraction_exponent_start:
  "s = frac @ ex \<Longrightarrow> json_fraction frac \<Longrightarrow> json_exponent ex \<Longrightarrow> s \<noteq> [] \<Longrightarrow> \<not> is_ascii_digit (hd s)"
  using exponent_start [of ex] digit_chars by (cases "frac = []") (auto simp: json_fraction_def)

lemma ex_append3:
  "(\<exists>i r. t = i @ r \<and> A i \<and> B i \<and> (\<exists>f e. r = f @ e \<and> F f \<and> E e))
     \<longleftrightarrow> (\<exists>i f e. t = i @ f @ e \<and> A i \<and> B i \<and> F f \<and> E e)"
  by (intro iffI; elim exE conjE; hypsubst; intro exI conjI; (rule refl | assumption))

lemma after_number_iff: "after_number s = Some [] \<longleftrightarrow> is_json_number s"
proof -
  let ?Q = "\<lambda>r. \<exists>frac ex. r = frac @ ex \<and> json_fraction frac \<and> json_exponent ex"
  let ?N = "\<lambda>t. \<exists>int frac ex. t = int @ frac @ ex \<and> json_digits int
      \<and> (hd int = CHR ''0'' \<longrightarrow> int = ''0'') \<and> json_fraction frac \<and> json_exponent ex"
  have Q: "\<not> is_ascii_digit (hd r)" if "?Q r" "r \<noteq> []" for r
    using that fraction_exponent_start by blast
  have for_t: "Option.bind (after_integer t) (\<lambda>s. Option.bind (after_fraction s) after_exponent) = Some []
      \<longleftrightarrow> (\<exists>r. after_integer t = Some r \<and> ?Q r)" for t
    by (cases "after_integer t") (auto simp: fraction_exponent_iff)
  have int_rest: "(\<exists>r. after_integer t = Some r \<and> ?Q r) \<longleftrightarrow> (\<exists>int r. t = int @ r \<and> json_digits int
      \<and> (hd int = CHR ''0'' \<longrightarrow> int = ''0'') \<and> ?Q r)" for t
    by (rule integer_iff) (rule Q)
  have N: "Option.bind (after_integer t) (\<lambda>s. Option.bind (after_fraction s) after_exponent) = Some []
      \<longleftrightarrow> ?N t" for t
    by (rule trans [OF for_t trans [OF int_rest ex_append3]])
  have U: "Option.bind (after_integer t) (\<lambda>s. Option.bind (after_fraction s) after_exponent) = Some []
      \<longleftrightarrow> json_unsigned t" for t
    unfolding json_unsigned_def by (rule N)
  show ?thesis
  proof (cases "s \<noteq> [] \<and> hd s = CHR ''-''")
    case True
    then obtain t where s: "s = CHR ''-'' # t" by (cases s) auto
    have "\<not> json_unsigned s"
    proof
      assume "json_unsigned s"
      then obtain int r where "s = int @ r" "json_digits int"
        unfolding json_unsigned_def by blast
      then have "is_ascii_digit (hd s)" using json_digits_hd [of int] by (cases int) auto
      then show False using s digit_chars by simp
    qed
    then show ?thesis
      using s U by (simp add: after_number_def is_json_number_def)
  next
    case False
    then have "is_json_number s \<longleftrightarrow> json_unsigned s"
      by (auto simp: is_json_number_def)
    then show ?thesis
      unfolding after_number_def if_not_P [OF False] using U by simp
  qed
qed

text \<open>The number constructor accepts exactly the numbers of the JSON grammar: for text of at most
  8 MiB it returns its argument unchanged when the argument is one, and fails with
  \<open>invalid_number\<close> otherwise.\<close>

theorem from_number_text_grammar:
  "from_number_text s = Inr r \<longleftrightarrow> length s \<le> MAX_BYTES \<and> is_json_number s \<and> r = s"
proof -
  let ?p = "initial_parser s"
  obtain f q where n: "json_number ?p = (f, q)" by fastforce
  have "lexes_number 1 ?p (json_number ?p)"
    by (rule json_number_lexes) (simp add: in_range_def initial_parser_def)
  then have "moves 0 ?p q" using n by (simp add: lexes_number_def)
  then have idx: "rest_of q = [] \<longleftrightarrow> ps_index q = length s"
    using rest_empty [of 0 ?p q] by (simp add: initial_parser_def)
  have "success_rest (f, q) = after_number s"
    using json_number_rest [of ?p] n by simp
  then have num: "f = None \<and> ps_index q = length s \<longleftrightarrow> is_json_number s"
    using idx after_number_iff [of s] by (auto simp: success_rest_def split: option.splits)
  have "\<not> is_json_number []" by (auto simp: is_json_number_def json_unsigned_def json_digits_def)
  then show ?thesis
    using n num by (auto simp: from_number_text_def)
qed

end
