(* ===== verification/Json_Lexing.thy ===== *)
theory Json_Lexing
  imports Json_Text
begin

text \<open>
  What the parser's methods do on numbers and strings, both ways: the grammar of a string literal as
  inductive relations, and for \<open>number\<close> and \<open>string\<close> that they succeed exactly on texts of the grammar.
\<close>

section \<open>The remaining input\<close>

lemma advance_advance [simp]: "advance n (advance m p) = advance (m + n) p"
  by (simp add: advance_def add.assoc)

lemma advance_0 [simp]: "advance 0 p = p"
  by (simp add: advance_def)

lemma whitespace_advance: "\<exists>w. rest_of p = w @ rest_of (whitespace p) \<and> list_all is_json_whitespace w
    \<and> whitespace p = advance (length w) p"
proof (induction is_json_whitespace p rule: skip_while.induct)
  case (1 p)
  show ?case
  proof (cases "rest_of p")
    case Nil
    then show ?thesis
      by (intro exI [of _ "[]"]) (simp add: whitespace_def skip_while.simps [of _ p] cur_byte_rest)
  next
    case (Cons c r)
    then have c: "cur_byte p = Some c" by (simp add: cur_byte_rest)
    show ?thesis
    proof (cases "is_json_whitespace c")
      case False
      then show ?thesis
        using c by (intro exI [of _ "[]"]) (simp add: whitespace_def skip_while.simps [of _ p])
    next
      case True
      have e: "whitespace p = whitespace (advance 1 p)"
        using c True by (simp add: whitespace_def skip_while.simps [of _ p])
      obtain w where "rest_of (advance 1 p) = w @ rest_of (whitespace (advance 1 p))"
          "list_all is_json_whitespace w" "whitespace (advance 1 p) = advance (length w) (advance 1 p)"
        using 1 [OF c True] by blast
      then show ?thesis
        using True Cons unfolding e by (intro exI [of _ "c # w"]) (simp add: rest_advance)
    qed
  qed
qed

lemma whitespace_skip:
  assumes "rest_of p = w @ r" "list_all is_json_whitespace w" "r = [] \<or> \<not> is_json_whitespace (hd r)"
  shows "whitespace p = advance (length w) p"
  using assms
proof (induction w arbitrary: p)
  case Nil
  then show ?case
    by (cases r) (auto simp: whitespace_def skip_while.simps [of _ p] cur_byte_rest)
next
  case (Cons c w)
  have "whitespace p = whitespace (advance 1 p)"
    using Cons.prems(1,2) by (simp add: whitespace_def skip_while.simps [of _ p] cur_byte_rest)
  also have "\<dots> = advance (length w) (advance 1 p)"
    using Cons.prems by (intro Cons.IH) (simp_all add: rest_advance)
  finally show ?case by simp
qed

lemma whitespace_rest: "rest_of (whitespace p) = [] \<or> \<not> is_json_whitespace (hd (rest_of (whitespace p)))"
  unfolding whitespace_def rest_skip_while using hd_dropWhile by blast

lemma whitespace_idem [simp]: "whitespace (whitespace p) = whitespace p"
  using whitespace_skip [of "whitespace p" "[]" "rest_of (whitespace p)"] whitespace_rest [of p] by simp

text \<open>A sub-parser that moved without counting has consumed a prefix of the remaining input.\<close>

lemma moved:
  assumes "moves n p q" "ps_values q = ps_values p"
  obtains t where "rest_of p = t @ rest_of q" "q = advance (length t) p"
proof -
  define k where "k = ps_index q - ps_index p"
  have k: "ps_index q = ps_index p + k" "ps_input q = ps_input p" "ps_index q \<le> length (ps_input p)"
    using assms(1) by (auto simp: moves_def k_def)
  have "length (take k (rest_of p)) = k" using k by (simp add: rest_of_def)
  moreover have "q = advance k p" using k assms(2) by (simp add: advance_def)
  ultimately show thesis
    using that [of "take k (rest_of p)"] by (simp add: rest_advance)
qed

lemma slice_rest:
  assumes "rest_of p = t @ r"
  shows "slice (ps_input p) (ps_index p) (ps_index p + length t) = t"
  using assms by (simp add: slice_def rest_of_def)

section \<open>Numbers\<close>

lemma after_digits_prefix: "after_digits s = Some r \<Longrightarrow> \<exists>t. s = t @ r \<and> json_digits t"
  using after_digits_iff by blast

lemma after_fraction_prefix: "after_fraction s = Some r \<Longrightarrow> \<exists>t. s = t @ r \<and> json_fraction t"
  by (cases s) (force simp: after_fraction_def json_fraction_def split: if_splits dest!: after_digits_prefix)+

lemma after_exponent_Cons: "e \<in> {CHR ''e'', CHR ''E''} \<Longrightarrow> after_exponent (e # v)
    = after_digits (if v \<noteq> [] \<and> hd v \<in> {CHR ''+'', CHR ''-''} then tl v else v)"
  by (simp add: after_exponent_def)

lemma after_exponent_prefix: "after_exponent s = Some r \<Longrightarrow> \<exists>t. s = t @ r \<and> json_exponent t"
proof -
  assume a: "after_exponent s = Some r"
  show ?thesis
  proof (cases "s \<noteq> [] \<and> hd s \<in> {CHR ''e'', CHR ''E''}")
    case False
    then show ?thesis
      using a unfolding after_exponent_def if_not_P [OF False] by (auto simp: json_exponent_def)
  next
    case True
    then obtain e u where s: "s = e # u" "e \<in> {CHR ''e'', CHR ''E''}" by (cases s) auto
    let ?signed = "u \<noteq> [] \<and> hd u \<in> {CHR ''+'', CHR ''-''}"
    have "after_digits (if ?signed then tl u else u) = Some r"
      using a unfolding s(1) after_exponent_Cons [OF s(2)] .
    then obtain ds where ds: "(if ?signed then tl u else u) = ds @ r" "json_digits ds"
      using after_digits_prefix by blast
    define sign where "sign = (if ?signed then [hd u] else [])"
    have "u = sign @ ds @ r" using ds(1) by (cases u) (auto simp: sign_def split: if_splits)
    moreover have "sign \<in> {[], ''+'', ''-''}" by (auto simp: sign_def)
    ultimately have "json_exponent (e # sign @ ds)" "s = (e # sign @ ds) @ r"
      using s ds(2) unfolding json_exponent_def by (blast, simp)
    then show ?thesis by blast
  qed
qed

lemma after_integer_prefix:
  "after_integer s = Some r \<Longrightarrow> \<exists>t. s = t @ r \<and> json_digits t \<and> (hd t = CHR ''0'' \<longrightarrow> t = ''0'')"
proof -
  assume a: "after_integer s = Some r"
  show ?thesis
  proof (cases "s \<noteq> [] \<and> hd s = CHR ''0''")
    case True
    then show ?thesis
      using a by (intro exI [of _ "''0''"]) (cases s; simp add: after_integer_def json_digits_def digit_chars)
  next
    case False
    then have "after_digits s = Some r" using a unfolding after_integer_def if_not_P [OF False] by simp
    then obtain t where t: "s = t @ r" "json_digits t" using after_digits_prefix by blast
    then have "hd t \<noteq> CHR ''0''" using False json_digits_hd [of t] by auto
    then show ?thesis using t by blast
  qed
qed

lemma after_number_prefix:
  assumes "after_number s = Some r"
  shows "\<exists>t. s = t @ r \<and> is_json_number t"
proof -
  have unsigned: "\<exists>t. u = t @ r \<and> json_unsigned t"
    if bnd: "Option.bind (after_integer u) (\<lambda>s. Option.bind (after_fraction s) after_exponent) = Some r" for u
  proof -
    obtain u1 u2 where u: "after_integer u = Some u1" "after_fraction u1 = Some u2" "after_exponent u2 = Some r"
      using bnd by (auto simp: Option.bind_eq_Some_conv)
    obtain t1 t2 t3 where t: "u = t1 @ u1" "json_digits t1" "hd t1 = CHR ''0'' \<longrightarrow> t1 = ''0''"
        "u1 = t2 @ u2" "json_fraction t2" "u2 = t3 @ r" "json_exponent t3"
      using after_integer_prefix [OF u(1)] after_fraction_prefix [OF u(2)] after_exponent_prefix [OF u(3)]
      by blast
    have "json_unsigned (t1 @ t2 @ t3)" unfolding json_unsigned_def using t by blast
    then show ?thesis using t by (intro exI [of _ "t1 @ t2 @ t3"]) simp
  qed
  show ?thesis
  proof (cases "s \<noteq> [] \<and> hd s = CHR ''-''")
    case True
    then obtain u where s: "s = CHR ''-'' # u" by (cases s) auto
    then obtain t where "u = t @ r" "json_unsigned t"
      using unsigned [of u] assms by (auto simp: after_number_def)
    then show ?thesis using s by (intro exI [of _ "CHR ''-'' # t"]) (simp add: is_json_number_def)
  next
    case False
    then show ?thesis
      using unsigned [of s] assms unfolding after_number_def if_not_P [OF False] is_json_number_def by blast
  qed
qed

text \<open>A number is read in full when what follows cannot continue it.\<close>

definition number_ends :: "string \<Rightarrow> bool" where
  "number_ends r \<longleftrightarrow> r = [] \<or> \<not> is_ascii_digit (hd r) \<and> hd r \<notin> {CHR ''.'', CHR ''e'', CHR ''E''}"

lemma after_digits_append:
  "after_digits t = Some u \<Longrightarrow> number_ends r \<Longrightarrow> after_digits (t @ r) = Some (u @ r)"
  by (cases "dropWhile is_ascii_digit t = []"; cases r)
    (auto simp: after_digits_def number_ends_def dropWhile_append split: if_splits)

lemma after_fraction_append:
  "after_fraction t = Some u \<Longrightarrow> number_ends r \<Longrightarrow> after_fraction (t @ r) = Some (u @ r)"
  by (cases t; cases r) (auto simp: after_fraction_def number_ends_def after_digits_append split: if_splits
      dest: after_digits_append)

lemma after_exponent_append:
  assumes "after_exponent t = Some u" "number_ends r"
  shows "after_exponent (t @ r) = Some (u @ r)"
proof (cases "t \<noteq> [] \<and> hd t \<in> {CHR ''e'', CHR ''E''}")
  case False
  then have "u = t" using assms(1) unfolding after_exponent_def if_not_P [OF False] by simp
  moreover have "\<not> (t @ r \<noteq> [] \<and> hd (t @ r) \<in> {CHR ''e'', CHR ''E''})"
    using False assms(2) by (cases t) (auto simp: number_ends_def)
  ultimately show ?thesis by (simp only: after_exponent_def if_not_P if_False)
next
  case True
  then obtain e v where t: "t = e # v" "e \<in> {CHR ''e'', CHR ''E''}" by (cases t) auto
  let ?signed = "\<lambda>v. v \<noteq> [] \<and> hd v \<in> {CHR ''+'', CHR ''-''}"
  have d: "after_digits (if ?signed v then tl v else v) = Some u"
    using assms(1) unfolding t(1) after_exponent_Cons [OF t(2)] .
  then have "v \<noteq> []" by (auto simp: after_digits_def)
  then have e: "(if ?signed (v @ r) then tl (v @ r) else v @ r) = (if ?signed v then tl v else v) @ r" by simp
  show ?thesis
    unfolding t(1) append_Cons after_exponent_Cons [OF t(2)] e by (rule after_digits_append [OF d assms(2)])
qed

lemma after_integer_append:
  "after_integer t = Some u \<Longrightarrow> number_ends r \<Longrightarrow> after_integer (t @ r) = Some (u @ r)"
  by (cases t) (auto simp: after_integer_def after_digits_append after_digits_def [of "[]"] split: if_splits
      dest: after_digits_append)

lemma after_number_append:
  assumes "is_json_number t" "number_ends r"
  shows "after_number (t @ r) = Some r"
proof -
  have unsigned: "Option.bind (after_integer (v @ r)) (\<lambda>s. Option.bind (after_fraction s) after_exponent) = Some r"
    if bnd: "Option.bind (after_integer v) (\<lambda>s. Option.bind (after_fraction s) after_exponent) = Some []" for v
  proof -
    obtain u1 u2 where u: "after_integer v = Some u1" "after_fraction u1 = Some u2" "after_exponent u2 = Some []"
      using bnd by (auto simp: Option.bind_eq_Some_conv)
    show ?thesis
      using after_integer_append [OF u(1) assms(2)] after_fraction_append [OF u(2) assms(2)]
        after_exponent_append [OF u(3) assms(2)] by simp
  qed
  have n: "after_number t = Some []" using assms(1) after_number_iff by blast
  then have ne: "t \<noteq> []" by (auto simp: after_number_def after_integer_def after_digits_def)
  show ?thesis
  proof (cases "hd t = CHR ''-''")
    case True
    then show ?thesis using n unsigned [of "tl t"] ne by (simp add: after_number_def)
  next
    case False
    then show ?thesis using n unsigned [of t] ne by (simp add: after_number_def)
  qed
qed

lemma json_number_sound:
  assumes "json_number p = (None, q)" "in_range p"
  shows "\<exists>t. rest_of p = t @ rest_of q \<and> q = advance (length t) p \<and> is_json_number t"
proof -
  have "moves 1 p q" "ps_values q = ps_values p"
    using json_number_lexes [OF assms(2)] assms(1) by (simp_all add: lexes_number_def)
  then obtain t where t: "rest_of p = t @ rest_of q" "q = advance (length t) p" by (rule moved)
  have "after_number (rest_of p) = Some (rest_of q)"
    using json_number_rest [of p] assms(1) by (simp add: success_rest_def)
  then show ?thesis using after_number_prefix t by fastforce
qed

lemma json_number_complete:
  assumes "rest_of p = t @ r" "is_json_number t" "number_ends r" "in_range p"
  shows "json_number p = (None, advance (length t) p)"
proof -
  obtain f q where n: "json_number p = (f, q)" by fastforce
  have "success_rest (f, q) = Some r"
    using json_number_rest [of p] after_number_append [OF assms(2,3)] n assms(1) by simp
  then have f: "f = None" "rest_of q = r" by (auto simp: success_rest_def split: option.splits)
  then obtain t' where "rest_of p = t' @ rest_of q" "q = advance (length t') p"
    using json_number_sound assms(4) n by blast
  then show ?thesis using n f assms(1) by simp
qed

section \<open>Strings\<close>

fun hex_value :: "nat \<Rightarrow> string \<Rightarrow> nat option" where
  "hex_value v [] = Some v"
| "hex_value v (c # cs) = (case hex_digit c of None \<Rightarrow> None | Some d \<Rightarrow> hex_value (v * 16 + d) cs)"

definition code_unit :: "string \<Rightarrow> nat \<Rightarrow> bool" where
  "code_unit hs v \<longleftrightarrow> length hs = 4 \<and> hex_value 0 hs = Some v"

definition short_escapes :: "(char \<times> char) list" where
  "short_escapes = [(CHR 0x22, CHR 0x22), (CHR 0x5C, CHR 0x5C), (CHR ''/'', CHR ''/''),
     (CHR ''b'', CHR 0x08), (CHR ''f'', CHR 0x0C), (CHR ''n'', CHR 0x0A), (CHR ''r'', CHR 0x0D),
     (CHR ''t'', CHR 0x09)]"

text \<open>One character of a string literal and the bytes that it denotes.\<close>

inductive json_item :: "string \<Rightarrow> string \<Rightarrow> bool" where
  json_plain: "c \<noteq> CHR 0x22 \<Longrightarrow> c \<noteq> CHR 0x5C \<Longrightarrow> 31 < byte_of c \<Longrightarrow> length (c # cs) = utf8_width c
    \<Longrightarrow> json_item (c # cs) (c # cs)"
| json_short: "(e, x) \<in> set short_escapes \<Longrightarrow> json_item [CHR 0x5C, e] [x]"
| json_unit: "code_unit hs v \<Longrightarrow> v \<noteq> 0 \<Longrightarrow> \<not> (55296 \<le> v \<and> v \<le> 57343)
    \<Longrightarrow> json_item (CHR 0x5C # CHR ''u'' # hs) (utf8_encode v)"
| json_pair: "code_unit hs a \<Longrightarrow> 55296 \<le> a \<Longrightarrow> a \<le> 56319 \<Longrightarrow> code_unit ks b \<Longrightarrow> 56320 \<le> b \<Longrightarrow> b \<le> 57343
    \<Longrightarrow> json_item (CHR 0x5C # CHR ''u'' # hs @ CHR 0x5C # CHR ''u'' # ks)
         (utf8_encode (65536 + (a - 55296) * 1024 + (b - 56320)))"

inductive json_chars :: "string \<Rightarrow> string \<Rightarrow> bool" where
  json_chars_end: "json_chars [] []"
| json_chars_item: "json_item g bs \<Longrightarrow> json_chars t s \<Longrightarrow> json_chars (g @ t) (bs @ s)"

definition json_string_text :: "string \<Rightarrow> string \<Rightarrow> bool" where
  "json_string_text t s \<longleftrightarrow> (\<exists>b. t = CHR 0x22 # b @ [CHR 0x22] \<and> json_chars b s)"

subsection \<open>Code units\<close>

lemma hex_loop_value:
  "n \<le> length (rest_of p) \<Longrightarrow> hex_loop n v p = Inr (w, q)
     \<longleftrightarrow> hex_value v (take n (rest_of p)) = Some w \<and> q = advance n p"
proof (induction n v p rule: hex_loop.induct)
  case (2 n v p)
  then obtain c r where c: "rest_of p = c # r" by (cases "rest_of p") auto
  have "ps_input p ! ps_index p = c"
    using c by (simp add: rest_of_def hd_drop_conv_nth [symmetric])
      (metis c drop_eq_Nil hd_drop_conv_nth linorder_not_less list.distinct(1) list.sel(1) rest_of_def)
  then show ?case
    using 2 c by (auto simp: rest_advance split: option.splits)
qed auto

lemma hex4_value:
  "hex4 p = Inr (v, q) \<longleftrightarrow> (\<exists>hs r. rest_of p = hs @ r \<and> code_unit hs v \<and> q = advance 4 p)"
proof -
  have len: "length (rest_of p) = length (ps_input p) - ps_index p" by (simp add: rest_of_def)
  have "(\<exists>hs r. rest_of p = hs @ r \<and> code_unit hs v \<and> q = advance 4 p)
      \<longleftrightarrow> 4 \<le> length (rest_of p) \<and> hex_value 0 (take 4 (rest_of p)) = Some v \<and> q = advance 4 p"
  proof
    assume "\<exists>hs r. rest_of p = hs @ r \<and> code_unit hs v \<and> q = advance 4 p"
    then show "4 \<le> length (rest_of p) \<and> hex_value 0 (take 4 (rest_of p)) = Some v \<and> q = advance 4 p"
      by (auto simp: code_unit_def)
  next
    assume "4 \<le> length (rest_of p) \<and> hex_value 0 (take 4 (rest_of p)) = Some v \<and> q = advance 4 p"
    then show "\<exists>hs r. rest_of p = hs @ r \<and> code_unit hs v \<and> q = advance 4 p"
      by (intro exI [of _ "take 4 (rest_of p)"] exI [of _ "drop 4 (rest_of p)"]) (simp add: code_unit_def)
  qed
  then show ?thesis
    using hex_loop_value [of 4 p 0 v q] len by (auto simp: hex4_def)
qed

lemma code_unit_length: "code_unit hs v \<Longrightarrow> length hs = 4"
  by (simp add: code_unit_def)

lemma rest_consume_True: "consume c p = (True, q) \<longleftrightarrow> rest_of p \<noteq> [] \<and> hd (rest_of p) = c \<and> q = advance 1 p"
  by (auto simp: rest_consume)

lemma rest_consume_False: "consume c p = (False, q) \<longleftrightarrow> \<not> (rest_of p \<noteq> [] \<and> hd (rest_of p) = c) \<and> q = p"
  by (auto simp: rest_consume)

lemma unicode_escape_sound:
  assumes "unicode_escape off p = Inr (bs, q)"
  shows "\<exists>hs r. rest_of p = hs @ r \<and> q = advance (length hs) p \<and> json_item (CHR 0x5C # CHR ''u'' # hs) bs"
proof -
  obtain a p1 where a: "hex4 p = Inr (a, p1)"
    using assms by (cases "hex4 p") (auto simp: unicode_escape_def)
  obtain hs r where hs: "rest_of p = hs @ r" "code_unit hs a" "p1 = advance 4 p"
    using a hex4_value by blast
  have r: "rest_of p1 = r" "length hs = 4" using hs code_unit_length by (auto simp: rest_advance)
  show ?thesis
  proof (cases "55296 \<le> a \<and> a \<le> 56319")
    case False
    then have "a \<noteq> 0" "\<not> (56320 \<le> a \<and> a \<le> 57343)" "bs = utf8_encode a" "q = p1"
      using assms a by (auto simp: unicode_escape_def Let_def split: if_splits)
    then show ?thesis
      using hs r False by (intro exI [of _ hs] exI [of _ r]) (auto intro!: json_unit)
  next
    case True
    then obtain p2 p3 b p4 where p: "consume CHR 0x5C p1 = (True, p2)" "consume CHR ''u'' p2 = (True, p3)"
        "hex4 p3 = Inr (b, p4)" "56320 \<le> b" "b \<le> 57343" "q = p4"
        "bs = utf8_encode (65536 + (a - 55296) * 1024 + (b - 56320))"
      using assms a by (auto simp: unicode_escape_def Let_def try_bind_Ok_iff split: prod.splits bool.splits if_splits)
    obtain ks r' where ks: "rest_of p3 = ks @ r'" "code_unit ks b" "p4 = advance 4 p3"
      using p(3) hex4_value by blast
    have p2: "p2 = advance 1 p1" "r \<noteq> []" "hd r = CHR 0x5C" using p(1) r by (auto simp: rest_consume_True)
    have p3: "p3 = advance 1 p2" "tl r \<noteq> []" "hd (tl r) = CHR ''u''"
      using p(2) p2 r by (auto simp: rest_consume_True rest_advance drop_Suc)
    have "r = CHR 0x5C # CHR ''u'' # ks @ r'"
      using p2 p3 ks(1) r by (cases r; cases "tl r") (auto simp: rest_advance)
    then have "rest_of p = (hs @ CHR 0x5C # CHR ''u'' # ks) @ r'" using hs by simp
    moreover have "q = advance (length (hs @ CHR 0x5C # CHR ''u'' # ks)) p"
      using hs(3) r(2) p(6) p2(1) p3(1) ks(3) code_unit_length [OF ks(2)] by simp
    moreover have "json_item (CHR 0x5C # CHR ''u'' # hs @ CHR 0x5C # CHR ''u'' # ks) bs"
      unfolding p(7) using True p(4,5) by (intro json_pair hs(2) ks(2)) simp_all
    ultimately show ?thesis by blast
  qed
qed

lemma string_escape_sound:
  assumes "string_escape p = Inr (bs, q)" "rest_of p = CHR 0x5C # u"
  shows "\<exists>g r. rest_of p = g @ r \<and> q = advance (length g) p \<and> json_item g bs"
proof -
  have "\<exists>e. cur_byte (advance 1 p) = Some e"
    using assms(1) by (cases "cur_byte (advance 1 p)") (auto simp: string_escape_def)
  then obtain e r where e: "u = e # r" "cur_byte (advance 1 p) = Some e"
    using assms(2) by (cases u) (auto simp: cur_byte_rest rest_advance)
  show ?thesis
  proof (cases "e = CHR ''u''")
    case True
    then have "unicode_escape (ps_index p) (advance 2 p) = Inr (bs, q)"
      using assms(1) e by (simp add: string_escape_def Let_def numeral_2_eq_2)
    then obtain hs r' where "rest_of (advance 2 p) = hs @ r'" "q = advance (length hs) (advance 2 p)"
        "json_item (CHR 0x5C # CHR ''u'' # hs) bs"
      using unicode_escape_sound by blast
    then show ?thesis
      using assms(2) e True
      by (intro exI [of _ "CHR 0x5C # CHR ''u'' # hs"] exI [of _ r']) (simp add: rest_advance)
  next
    case False
    then obtain x where x: "(e, x) \<in> set short_escapes" "bs = [x]" "q = advance 2 p"
      using assms(1) e
      by (simp add: string_escape_def Let_def short_escapes_def numeral_2_eq_2 split: if_splits)
    then show ?thesis
      using assms(2) e
      by (intro exI [of _ "[CHR 0x5C, e]"] exI [of _ r]) (simp add: json_short numeral_2_eq_2)
  qed
qed

subsection \<open>Soundness\<close>

lemma string_loop_sound:
  "string_loop acc p = Inr (out, q) \<Longrightarrow> \<exists>b s r. json_chars b s \<and> out = acc @ s
     \<and> rest_of p = b @ CHR 0x22 # r \<and> q = advance (length b + 1) p"
proof (induction acc p rule: string_loop.induct)
  case (1 acc p)
  obtain c u where c: "rest_of p = c # u" "cur_byte p = Some c"
    using 1(4) by (cases "rest_of p") (simp_all add: string_loop.simps [of acc p] cur_byte_rest)
  have step: ?case if g: "rest_of p = g @ r" "json_item g bs" "string_loop (acc @ bs) (advance (length g) p) = Inr (out, q)"
    and IH: "string_loop (acc @ bs) (advance (length g) p) = Inr (out, q) \<Longrightarrow> \<exists>b s r. json_chars b s
      \<and> out = (acc @ bs) @ s \<and> rest_of (advance (length g) p) = b @ CHR 0x22 # r
      \<and> q = advance (length b + 1) (advance (length g) p)" for g r bs
  proof -
    obtain b s r' where "json_chars b s" "out = (acc @ bs) @ s" "r = b @ CHR 0x22 # r'"
        "q = advance (length b + 1) (advance (length g) p)"
      using IH [OF g(3)] g(1) by (auto simp: rest_advance)
    then show ?thesis
      using g by (intro exI [of _ "g @ b"] exI [of _ "bs @ s"] exI [of _ r'])
        (simp add: json_chars_item add.assoc)
  qed
  consider (quote) "c = CHR 0x22" | (escape) "c = CHR 0x5C"
    | (ascii) "c \<noteq> CHR 0x22" "c \<noteq> CHR 0x5C" "31 < byte_of c" "byte_of c < 128"
    | (wide) "c \<noteq> CHR 0x22" "c \<noteq> CHR 0x5C" "128 \<le> byte_of c"
    | (control) "c \<noteq> CHR 0x22" "byte_of c \<le> 31"
    by linarith
  then show ?case
  proof cases
    case quote
    then have "out = acc" "q = advance 1 p"
      using 1(4) c by (auto simp: string_loop.simps [of acc p])
    then show ?thesis
      using quote c by (intro exI [of _ "[]"] exI [of _ "[]"] exI [of _ u]) (simp add: json_chars_end)
  next
    case control
    then show ?thesis using 1(4) c by (simp add: string_loop.simps [of acc p])
  next
    case escape
    have nq: "\<not> byte_of CHR 0x5C \<le> 31" by (simp add: byte_of_def)
    obtain bs p' where e: "string_escape p = Inr (bs, p')"
      using 1(4) c escape nq by (cases "string_escape p") (auto simp: string_loop.simps [of acc p])
    then have l: "string_loop (acc @ bs) p' = Inr (out, q)"
      using 1(4) c escape nq by (simp add: string_loop.simps [of acc p])
    obtain g r where g: "rest_of p = g @ r" "p' = advance (length g) p" "json_item g bs"
      using string_escape_sound [OF e] c escape by blast
    have IH: "string_loop (acc @ bs) p' = Inr (out, q) \<Longrightarrow> \<exists>b s r. json_chars b s
      \<and> out = (acc @ bs) @ s \<and> rest_of p' = b @ CHR 0x22 # r \<and> q = advance (length b + 1) p'"
      by (rule 1(1) [OF c(2) _ _ escape, of "(bs, p')" bs p']) (use escape nq e in simp_all)
    show ?thesis
      using step [OF g(1,3)] l IH unfolding g(2) by simp
  next
    case ascii
    have i: "json_item [c] [c]" using ascii by (intro json_plain) (simp_all add: utf8_width_def)
    have l: "string_loop (acc @ [c]) (advance 1 p) = Inr (out, q)"
      using 1(4) c ascii by (simp add: string_loop.simps [of acc p])
    show ?thesis
      using step [of "[c]" u "[c]"] c i l 1(2) [OF c(2)] ascii by simp
  next
    case wide
    define g where "g = take (utf8_width c) (rest_of p)"
    have l: "string_loop (acc @ g) (advance (utf8_width c) p) = Inr (out, q)"
      using 1(4) c wide by (simp add: string_loop.simps [of acc p] g_def rest_of_def)
    have IH: "string_loop (acc @ g) (advance (utf8_width c) p) = Inr (out, q) \<Longrightarrow> \<exists>b s r. json_chars b s
      \<and> out = (acc @ g) @ s \<and> rest_of (advance (utf8_width c) p) = b @ CHR 0x22 # r
      \<and> q = advance (length b + 1) (advance (utf8_width c) p)"
      using 1(3) [OF c(2)] wide by (simp add: g_def rest_of_def)
    then have "rest_of (advance (utf8_width c) p) \<noteq> []" using l by auto
    then have len: "length g = utf8_width c" by (simp add: g_def rest_advance)
    obtain cs where cs: "g = c # cs" using c by (cases g) (auto simp: g_def utf8_width_def split: if_splits)
    have "json_item g g" using wide len unfolding cs by (intro json_plain) auto
    then show ?thesis
      using step [of g "drop (utf8_width c) (rest_of p)" g] l IH unfolding len by (simp add: g_def)
  qed
qed

lemma json_string_sound:
  assumes "json_string p = Inr (s, q)"
  shows "\<exists>t r. rest_of p = t @ r \<and> json_string_text t s \<and> q = advance (length t) p"
proof -
  obtain p1 where e: "expect_byte CHR 0x22 p = Inr p1"
    using assms by (cases "expect_byte CHR 0x22 p") (auto simp: json_string_def)
  then obtain u where u: "rest_of p = CHR 0x22 # u" "p1 = advance 1 p"
    by (cases "rest_of p") (auto simp: expect_byte_def rest_consume split: if_splits)
  obtain b r where "json_chars b s" "rest_of p1 = b @ CHR 0x22 # r" "q = advance (length b + 1) p1"
    using string_loop_sound [of "[]" p1 s q] assms e by (auto simp: json_string_def)
  then show ?thesis
    using u by (intro exI [of _ "CHR 0x22 # b @ [CHR 0x22]"] exI [of _ r])
      (auto simp: json_string_text_def rest_advance)
qed

subsection \<open>Completeness\<close>

lemma string_escape_short:
  assumes "rest_of p = CHR 0x5C # e # r" "(e, x) \<in> set short_escapes"
  shows "string_escape p = Inr ([x], advance 2 p)"
proof -
  have "cur_byte (advance 1 p) = Some e" using assms(1) by (simp add: cur_byte_rest rest_advance)
  then show ?thesis
    using assms(2) by (auto simp: string_escape_def Let_def short_escapes_def numeral_2_eq_2)
qed

lemma string_escape_u:
  assumes "rest_of p = CHR 0x5C # CHR ''u'' # r"
  shows "string_escape p = unicode_escape (ps_index p) (advance 2 p)"
proof -
  have "cur_byte (advance 1 p) = Some CHR ''u''" using assms(1) by (simp add: cur_byte_rest rest_advance)
  then show ?thesis by (simp add: string_escape_def Let_def numeral_2_eq_2)
qed

lemma unicode_escape_unit:
  assumes "rest_of p = hs @ r" "code_unit hs v" "v \<noteq> 0" "\<not> (55296 \<le> v \<and> v \<le> 57343)"
  shows "unicode_escape off p = Inr (utf8_encode v, advance 4 p)"
proof -
  have "hex4 p = Inr (v, advance 4 p)" using assms hex4_value by blast
  then show ?thesis
    using assms by (cases "v < 55296") (auto simp: unicode_escape_def)
qed

lemma unicode_escape_pair:
  assumes "rest_of p = hs @ CHR 0x5C # CHR ''u'' # ks @ r" "code_unit hs a" "code_unit ks b"
    and "55296 \<le> a" "a \<le> 56319" "56320 \<le> b" "b \<le> 57343"
  shows "unicode_escape off p = Inr (utf8_encode (65536 + (a - 55296) * 1024 + (b - 56320)), advance 10 p)"
proof -
  have h: "hex4 p = Inr (a, advance 4 p)" using assms hex4_value by blast
  have r: "rest_of (advance 4 p) = CHR 0x5C # CHR ''u'' # ks @ r"
    using assms(1) code_unit_length [OF assms(2)] by (simp add: rest_advance)
  have c1: "consume CHR 0x5C (advance 4 p) = (True, advance 5 p)"
    unfolding rest_consume_True r by simp
  have r5: "rest_of (advance 5 p) = CHR ''u'' # ks @ r"
    using rest_advance [of 1 "advance 4 p"] r by simp
  have c2: "consume CHR ''u'' (advance 5 p) = (True, advance 6 p)"
    unfolding rest_consume_True r5 by simp
  have "rest_of (advance 6 p) = ks @ r"
    using rest_advance [of 1 "advance 5 p"] r5 by simp
  then have "hex4 (advance 6 p) = Inr (b, advance 10 p)"
    using assms(3) hex4_value [of "advance 6 p"] by auto
  then show ?thesis
    using h c1 c2 assms by (simp add: unicode_escape_def)
qed

lemma string_loop_item:
  assumes "json_item g bs" "rest_of p = g @ r"
  shows "string_loop acc p = string_loop (acc @ bs) (advance (length g) p)"
proof -
  have nq: "\<not> byte_of CHR 0x5C \<le> 31" by (simp add: byte_of_def)
  have escaped: ?thesis if "rest_of p = CHR 0x5C # u" "string_escape p = Inr (bs, advance (length g) p)" for u
    using that nq by (simp add: string_loop.simps [of acc p] cur_byte_rest)
  from assms(1) show ?thesis
  proof cases
    case (json_plain c cs)
    then have r: "rest_of p = c # cs @ r" using assms(2) by simp
    show ?thesis
    proof (cases "byte_of c < 128")
      case True
      then have "cs = []" using json_plain by (simp add: utf8_width_def)
      then show ?thesis
        using r True json_plain by (simp add: string_loop.simps [of acc p] cur_byte_rest)
    next
      case False
      have "take (utf8_width c) (drop (ps_index p) (ps_input p)) = c # cs"
        using r unfolding json_plain(6) [symmetric] rest_of_def by simp
      then show ?thesis
        using r False json_plain by (simp add: string_loop.simps [of acc p] cur_byte_rest)
    qed
  next
    case (json_short e x)
    then show ?thesis
      using string_escape_short [of p e r x] assms(2) by (intro escaped) (simp_all add: numeral_2_eq_2)
  next
    case (json_unit hs v)
    then have "rest_of (advance 2 p) = hs @ r" using assms(2) by (simp add: rest_advance)
    then show ?thesis
      using json_unit string_escape_u [of p "hs @ r"] unicode_escape_unit assms(2) code_unit_length [of hs v]
      by (intro escaped) simp_all
  next
    case (json_pair hs a ks b)
    then have "rest_of (advance 2 p) = hs @ CHR 0x5C # CHR ''u'' # ks @ r"
      using assms(2) by (simp add: rest_advance)
    then show ?thesis
      using json_pair string_escape_u [of p "hs @ CHR 0x5C # CHR ''u'' # ks @ r"] assms(2)
        unicode_escape_pair [of "advance 2 p" hs ks r a b] code_unit_length [of hs a] code_unit_length [of ks b]
      by (intro escaped) simp_all
  qed
qed

lemma string_loop_complete:
  "json_chars b s \<Longrightarrow> rest_of p = b @ CHR 0x22 # r \<Longrightarrow>
     string_loop acc p = Inr (acc @ s, advance (length b + 1) p)"
proof (induction arbitrary: acc p rule: json_chars.induct)
  case json_chars_end
  then show ?case by (simp add: string_loop.simps [of acc p] cur_byte_rest)
next
  case (json_chars_item g bs t s)
  have "string_loop acc p = string_loop (acc @ bs) (advance (length g) p)"
    using json_chars_item by (intro string_loop_item) auto
  also have "\<dots> = Inr ((acc @ bs) @ s, advance (length t + 1) (advance (length g) p))"
    using json_chars_item.prems by (intro json_chars_item.IH) (simp add: rest_advance)
  finally show ?case by (simp add: add.assoc)
qed

lemma json_string_complete:
  assumes "json_string_text t s" "rest_of p = t @ r"
  shows "json_string p = Inr (s, advance (length t) p)"
proof -
  obtain b where b: "t = CHR 0x22 # b @ [CHR 0x22]" "json_chars b s"
    using assms(1) unfolding json_string_text_def by blast
  have "expect_byte CHR 0x22 p = Inr (advance 1 p)"
    using assms(2) b by (simp add: expect_byte_def rest_consume)
  moreover have "string_loop [] (advance 1 p) = Inr ([] @ s, advance (length b + 1) (advance 1 p))"
    using assms(2) b by (intro string_loop_complete [where r = r]) (simp_all add: rest_advance)
  ultimately show ?thesis using b by (simp add: json_string_def)
qed

end
