(* ===== verification/Json_Grammar.thy ===== *)
theory Json_Grammar
  imports Json_Lexing
begin

text \<open>
  The grammar of JSON values (RFC 8259) as inductive relations between a text and its node, and the
  proof that \<open>parse\<close> accepts exactly the documents of the grammar that are within its limits:
  soundness by induction on the fuel, completeness by rule induction on the grammar.
\<close>

section \<open>Values\<close>

definition json_ws :: "string \<Rightarrow> bool" where
  "json_ws w \<longleftrightarrow> list_all is_json_whitespace w"

definition deepest :: "nat \<Rightarrow> json_node list \<Rightarrow> nat" where
  "deepest d nodes = fold (\<lambda>n m. max m (node_max_depth n)) nodes d"

definition total_values :: "json_node list \<Rightarrow> nat" where
  "total_values nodes = sum_list (map node_values nodes)"

text \<open>
  The text of a value without surrounding white space, nested in \<open>d\<close> arrays and objects, and its node.
\<close>

inductive json_value :: "nat \<Rightarrow> string \<Rightarrow> json_node \<Rightarrow> bool"
  and json_items :: "nat \<Rightarrow> string \<Rightarrow> json_node list \<Rightarrow> bool"
  and json_members :: "nat \<Rightarrow> string \<Rightarrow> (string \<times> json_node) list \<Rightarrow> bool" where
  value_null: "json_value d ''null'' (JsonNode ''null'' JNull 0 1)"
| value_true: "json_value d ''true'' (JsonNode ''true'' (JBoolean True) 0 1)"
| value_false: "json_value d ''false'' (JsonNode ''false'' (JBoolean False) 0 1)"
| value_number: "is_json_number t \<Longrightarrow> json_value d t (JsonNode t (JNumber t) 0 1)"
| value_string: "json_string_text t s \<Longrightarrow> json_value d t (JsonNode t (JString s) 0 1)"
| value_empty_array: "json_ws w \<Longrightarrow> t = ''['' @ w @ '']'' \<Longrightarrow> json_value d t (JsonNode t (JArray []) (Suc d) 1)"
| value_array: "json_items (Suc d) b nodes \<Longrightarrow> t = ''['' @ b @ '']'' \<Longrightarrow>
    json_value d t (JsonNode t (JArray nodes) (deepest (Suc d) nodes) (Suc (total_values nodes)))"
| value_empty_object: "json_ws w \<Longrightarrow> t = ''{'' @ w @ ''}'' \<Longrightarrow> json_value d t (JsonNode t (JObject []) (Suc d) 1)"
| value_object: "json_members (Suc d) b members \<Longrightarrow> t = ''{'' @ b @ ''}'' \<Longrightarrow>
    json_value d t (JsonNode t (JObject members) (deepest (Suc d) (map snd members))
      (Suc (total_values (map snd members))))"
| items_one: "json_ws w \<Longrightarrow> json_value d t n \<Longrightarrow> json_ws w' \<Longrightarrow> json_items d (w @ t @ w') [n]"
| items_more: "json_ws w \<Longrightarrow> json_value d t n \<Longrightarrow> json_ws w' \<Longrightarrow> json_items d b nodes \<Longrightarrow>
    json_items d (w @ t @ w' @ '','' @ b) (n # nodes)"
| members_one: "json_ws w \<Longrightarrow> json_string_text k key \<Longrightarrow> json_ws w1 \<Longrightarrow> json_ws w2 \<Longrightarrow> json_value d t n \<Longrightarrow>
    json_ws w' \<Longrightarrow> json_members d (w @ k @ w1 @ '':'' @ w2 @ t @ w') [(key, n)]"
| members_more: "json_ws w \<Longrightarrow> json_string_text k key \<Longrightarrow> json_ws w1 \<Longrightarrow> json_ws w2 \<Longrightarrow> json_value d t n \<Longrightarrow>
    json_ws w' \<Longrightarrow> json_members d b members \<Longrightarrow>
    json_members d (w @ k @ w1 @ '':'' @ w2 @ t @ w' @ '','' @ b) ((key, n) # members)"

text \<open>A whole text: a value between white space, within the limits of the parser.\<close>

definition json_document :: "string \<Rightarrow> json_node \<Rightarrow> bool" where
  "json_document s node \<longleftrightarrow> (\<exists>w t w' n. s = w @ t @ w' \<and> json_ws w \<and> json_ws w' \<and> json_value 0 t n
     \<and> node = JsonNode s (node_value n) (node_max_depth n) (node_values n)
     \<and> length s \<le> MAX_BYTES \<and> node_max_depth n \<le> MAX_DEPTH \<and> node_values n \<le> MAX_VALUES)"

subsection \<open>Reading\<close>

definition read_on :: "nat \<Rightarrow> nat \<Rightarrow> parser \<Rightarrow> parser" where
  "read_on n k p = p\<lparr>ps_index := ps_index p + n, ps_values := ps_values p + k\<rparr>"

lemma read_on_simps [simp]:
  "ps_input (read_on n k p) = ps_input p" "ps_index (read_on n k p) = ps_index p + n"
  "ps_values (read_on n k p) = ps_values p + k" "rest_of (read_on n k p) = drop n (rest_of p)"
  "read_on n k (read_on m l p) = read_on (m + n) (l + k) p"
  "advance n (read_on m l p) = read_on (m + n) l p" "read_on n k (advance m p) = read_on (m + n) k p"
  by (simp_all add: read_on_def rest_of_def advance_def add.assoc add.commute)

lemma advance_read_on: "advance n p = read_on n 0 p"
  by (simp add: read_on_def advance_def)

lemma json_ws_append [simp]: "json_ws (v @ w) \<longleftrightarrow> json_ws v \<and> json_ws w"
  by (simp add: json_ws_def)

lemma json_ws_Nil [simp]: "json_ws []"
  by (simp add: json_ws_def)

lemma deepest_Cons: "deepest m (n # ns) = deepest (max m (node_max_depth n)) ns"
  by (simp add: deepest_def)

lemma deepest_Nil [simp]: "deepest m [] = m"
  by (simp add: deepest_def)

lemma deepest_ge: "m \<le> deepest m ns"
proof (induction ns arbitrary: m)
  case (Cons n ns)
  then show ?case by (metis deepest_Cons max.cobounded1 order_trans)
qed simp

lemma total_values_simps [simp]:
  "total_values [] = 0" "total_values (n # ns) = node_values n + total_values ns"
  by (simp_all add: total_values_def)

lemma whitespace_read: "\<exists>w. rest_of p = w @ rest_of (whitespace p) \<and> json_ws w
    \<and> whitespace p = read_on (length w) 0 p"
  using whitespace_advance [of p] by (simp add: json_ws_def advance_read_on)

lemma items_leading:
  assumes "json_items d b ns" "json_ws w"
  shows "json_items d (w @ b) ns"
  using assms(1)
proof cases
  case (items_one w0 t n w')
  then show ?thesis
    using json_value_json_items_json_members.items_one [of "w @ w0" d t n w'] assms(2) by simp
next
  case (items_more w0 t n w' b' ns')
  then show ?thesis
    using json_value_json_items_json_members.items_more [of "w @ w0" d t n w' b' ns'] assms(2) by simp
qed

lemma members_leading:
  assumes "json_members d b ms" "json_ws w"
  shows "json_members d (w @ b) ms"
  using assms(1)
proof cases
  case (members_one w0 k key w1 w2 t n w')
  then show ?thesis
    using json_value_json_items_json_members.members_one [of "w @ w0" k key w1 w2 d t n w'] assms(2) by simp
next
  case (members_more w0 k key w1 w2 t n w' b' ms')
  then show ?thesis
    using json_value_json_items_json_members.members_more [of "w @ w0" k key w1 w2 d t n w' b' ms'] assms(2)
    by simp
qed

section \<open>Soundness\<close>

text \<open>What one call has read: a value after white space, the elements of an array or object up to
  and with the closing bracket.\<close>

definition reads_value :: "nat \<Rightarrow> parser \<Rightarrow> json_node \<Rightarrow> parser \<Rightarrow> bool" where
  "reads_value d p n q \<longleftrightarrow> (\<exists>w t r. rest_of p = w @ t @ r \<and> json_ws w \<and> json_value d t n
     \<and> q = read_on (length w + length t) (node_values n) p)"

definition reads_items :: "nat \<Rightarrow> parser \<Rightarrow> json_node list \<Rightarrow> parser \<Rightarrow> bool" where
  "reads_items d p ns q \<longleftrightarrow> (\<exists>b r. rest_of p = b @ '']'' @ r \<and> json_items d b ns
     \<and> q = read_on (length b + 1) (total_values ns) p)"

definition reads_members :: "nat \<Rightarrow> parser \<Rightarrow> (string \<times> json_node) list \<Rightarrow> parser \<Rightarrow> bool" where
  "reads_members d p ms q \<longleftrightarrow> (\<exists>b r. rest_of p = b @ ''}'' @ r \<and> json_members d b ms
     \<and> q = read_on (length b + 1) (total_values (map snd ms)) p)"

lemma consume_read: "consume c p = (True, q) \<Longrightarrow> \<exists>r. rest_of p = c # r \<and> q = read_on 1 0 p"
  by (cases "rest_of p") (auto simp: rest_consume_True advance_read_on)

lemma expect_read: "expect_byte c p = Inr q \<Longrightarrow> \<exists>r. rest_of p = c # r \<and> q = read_on 1 0 p"
  by (auto simp: expect_byte_def dest!: consume_read split: prod.splits bool.splits)

lemma literal_read: "json_literal lit p = Inr q \<Longrightarrow> \<exists>r. rest_of p = lit @ r \<and> q = read_on (length lit) 0 p"
  by (auto simp: json_literal_def starts_with_at_def rest_of_def advance_read_on split: if_splits)
    (metis append_take_drop_id)

lemma scalar_read:
  assumes "parse_scalar c p = Inr (v, q)" "cur_byte p = Some c"
  shows "\<exists>t r. rest_of p = t @ r \<and> q = read_on (length t) 0 p \<and> json_value d t (JsonNode t v 0 1)"
proof -
  have lit: ?thesis if "json_literal t p = Inr q" "json_value d t (JsonNode t v 0 1)" for t
    using literal_read [OF that(1)] that(2) by blast
  consider (null) "json_literal ''null'' p = Inr q" "v = JNull"
    | (true) "json_literal ''true'' p = Inr q" "v = JBoolean True"
    | (false) "json_literal ''false'' p = Inr q" "v = JBoolean False"
    | (string) s where "json_string p = Inr (s, q)" "v = JString s"
    | (number) "json_number p = (None, q)" "v = JNumber (slice (ps_input p) (ps_index p) (ps_index q))"
    using assms(1) by (auto simp: parse_scalar_def map_ok_Ok_iff split: if_splits prod.splits option.splits)
  then show ?thesis
  proof cases
    case (string s)
    then obtain t r where "rest_of p = t @ r" "json_string_text t s" "q = advance (length t) p"
      using json_string_sound by blast
    then show ?thesis using string value_string by (auto simp: advance_read_on)
  next
    case number
    have "in_range p" using cur_byte_Some [OF assms(2)] by (simp add: in_range_def)
    then obtain t where t: "rest_of p = t @ rest_of q" "q = advance (length t) p" "is_json_number t"
      using json_number_sound number(1) by blast
    have "v = JNumber t" using number(2) slice_rest [OF t(1)] t(2) by simp
    then show ?thesis using t value_number by (auto simp: advance_read_on)
  next
    case null
    then show ?thesis using lit [OF null(1)] value_null by simp
  next
    case true
    then show ?thesis using lit [OF true(1)] value_true by simp
  next
    case false
    then show ?thesis using lit [OF false(1)] value_false by simp
  qed
qed

lemma begin_read:
  assumes "begin_value p = Inr q"
  shows "\<exists>w r. rest_of p = w @ r \<and> json_ws w \<and> rest_of q = r \<and> q = read_on (length w) 1 p"
proof -
  obtain w where w: "rest_of p = w @ rest_of (whitespace p)" "json_ws w"
      "whitespace p = read_on (length w) 0 p"
    using whitespace_read by blast
  have "q = (whitespace p)\<lparr>ps_values := ps_values (whitespace p) + 1\<rparr>"
    using assms by (auto simp: begin_value_def Let_def split: if_splits)
  then have "q = read_on (length w) 1 p" unfolding w(3) by (simp add: read_on_def)
  then show ?thesis using w by (intro exI conjI) (auto simp: drop_append)
qed

lemma finish_read:
  assumes q: "q = read_on (length w) 1 p" "rest_of p = w @ t @ r" "q' = read_on (length t) k q"
  shows "finish_value q v m q' = (JsonNode t v m (Suc k), read_on (length w + length t) (Suc k) p)"
proof -
  have "slice (ps_input q) (ps_index q) (ps_index q + length t) = t"
    using q by (intro slice_rest [where r = r]) simp
  then show ?thesis using q by (simp add: finish_value_def add.assoc)
qed

lemma items_last:
  assumes "reads_value d p n p1" "consume CHR '']'' (whitespace p1) = (True, q)"
  shows "reads_items d p [n] q"
proof -
  obtain w t r where v: "rest_of p = w @ t @ r" "json_ws w" "json_value d t n"
      "p1 = read_on (length w + length t) (node_values n) p"
    using assms(1) unfolding reads_value_def by blast
  obtain w' where w': "rest_of p1 = w' @ rest_of (whitespace p1)" "json_ws w'"
      "whitespace p1 = read_on (length w') 0 p1"
    using whitespace_read by blast
  obtain r' where r': "rest_of (whitespace p1) = CHR '']'' # r'" "q = read_on 1 0 (whitespace p1)"
    using consume_read [OF assms(2)] by blast
  have "rest_of p = (w @ t @ w') @ '']'' @ r'" using v(1,4) w'(1) r'(1) by simp
  moreover have "json_items d (w @ t @ w') [n]" by (rule items_one [OF v(2,3) w'(2)])
  moreover have "q = read_on (length (w @ t @ w') + 1) (total_values [n]) p"
    using v(4) w'(3) r'(2) by (simp add: add.assoc)
  ultimately show ?thesis unfolding reads_items_def by blast
qed

lemma items_next:
  assumes "reads_value d p n p1" "expect_byte CHR '','' (whitespace p1) = Inr p2"
    and "reads_items d (whitespace p2) ns q"
  shows "reads_items d p (n # ns) q"
proof -
  obtain w t r where v: "rest_of p = w @ t @ r" "json_ws w" "json_value d t n"
      "p1 = read_on (length w + length t) (node_values n) p"
    using assms(1) unfolding reads_value_def by blast
  obtain w' where w': "rest_of p1 = w' @ rest_of (whitespace p1)" "json_ws w'"
      "whitespace p1 = read_on (length w') 0 p1"
    using whitespace_read by blast
  obtain r' where r': "rest_of (whitespace p1) = CHR '','' # r'" "p2 = read_on 1 0 (whitespace p1)"
    using expect_read [OF assms(2)] by blast
  obtain w2 where w2: "rest_of p2 = w2 @ rest_of (whitespace p2)" "json_ws w2"
      "whitespace p2 = read_on (length w2) 0 p2"
    using whitespace_read by blast
  obtain b r2 where b: "rest_of (whitespace p2) = b @ '']'' @ r2" "json_items d b ns"
      "q = read_on (length b + 1) (total_values ns) (whitespace p2)"
    using assms(3) unfolding reads_items_def by blast
  have "r' = rest_of p2" using r' by simp
  then have "rest_of p = (w @ t @ w' @ '','' @ w2 @ b) @ '']'' @ r2"
    using v(1,4) w'(1) r'(1) w2(1) b(1) by simp
  moreover have "json_items d (w @ t @ w' @ '','' @ w2 @ b) (n # ns)"
    by (rule items_more [OF v(2,3) w'(2) items_leading [OF b(2) w2(2)]])
  moreover have "q = read_on (length (w @ t @ w' @ '','' @ w2 @ b) + 1) (total_values (n # ns)) p"
    using v(4) w'(3) r'(2) w2(3) b(3) by (simp add: add.assoc)
  ultimately show ?thesis unfolding reads_items_def by blast
qed

text \<open>The key and the colon of a member.\<close>

definition reads_key :: "parser \<Rightarrow> string \<Rightarrow> parser \<Rightarrow> bool" where
  "reads_key p key q \<longleftrightarrow> (\<exists>k w r. rest_of p = k @ w @ '':'' @ r \<and> json_string_text k key \<and> json_ws w
     \<and> q = read_on (length k + length w + 1) 0 p)"

lemma key_read:
  assumes "json_string p = Inr (key, p1)" "expect_byte CHR '':'' (whitespace p1) = Inr q"
  shows "reads_key p key q"
proof -
  obtain k r where k: "rest_of p = k @ r" "json_string_text k key" "p1 = read_on (length k) 0 p"
    using json_string_sound [OF assms(1)] by (auto simp: advance_read_on)
  obtain w where w: "rest_of p1 = w @ rest_of (whitespace p1)" "json_ws w"
      "whitespace p1 = read_on (length w) 0 p1"
    using whitespace_read by blast
  obtain r' where r': "rest_of (whitespace p1) = CHR '':'' # r'" "q = read_on 1 0 (whitespace p1)"
    using expect_read [OF assms(2)] by blast
  have "rest_of p = k @ w @ '':'' @ r'" using k(1,3) w(1) r'(1) by simp
  moreover have "q = read_on (length k + length w + 1) 0 p" using k(3) w(3) r'(2) by (simp add: add.assoc)
  ultimately show ?thesis unfolding reads_key_def using k(2) w(2) by blast
qed

lemma members_last:
  assumes "reads_key p key p0" "reads_value d p0 n p1" "consume CHR ''}'' (whitespace p1) = (True, q)"
  shows "reads_members d p [(key, n)] q"
proof -
  obtain k w0 r0 where k: "rest_of p = k @ w0 @ '':'' @ r0" "json_string_text k key" "json_ws w0"
      "p0 = read_on (length k + length w0 + 1) 0 p"
    using assms(1) unfolding reads_key_def by blast
  obtain w t r where v: "rest_of p0 = w @ t @ r" "json_ws w" "json_value d t n"
      "p1 = read_on (length w + length t) (node_values n) p0"
    using assms(2) unfolding reads_value_def by blast
  obtain w' where w': "rest_of p1 = w' @ rest_of (whitespace p1)" "json_ws w'"
      "whitespace p1 = read_on (length w') 0 p1"
    using whitespace_read by blast
  obtain r' where r': "rest_of (whitespace p1) = CHR ''}'' # r'" "q = read_on 1 0 (whitespace p1)"
    using consume_read [OF assms(3)] by blast
  have "r0 = rest_of p0" "r = rest_of p1" using k(1,4) v(1,4) by simp_all
  then have "rest_of p = ([] @ k @ w0 @ '':'' @ w @ t @ w') @ ''}'' @ r'"
    using k(1) v(1) w'(1) r'(1) by simp
  moreover have "json_members d ([] @ k @ w0 @ '':'' @ w @ t @ w') [(key, n)]"
    by (rule members_one [OF json_ws_Nil k(2,3) v(2,3) w'(2)])
  moreover have "q = read_on (length ([] @ k @ w0 @ '':'' @ w @ t @ w') + 1) (total_values (map snd [(key, n)])) p"
    using k(4) v(4) w'(3) r'(2) by (simp add: add.assoc)
  ultimately show ?thesis unfolding reads_members_def by blast
qed

lemma members_next:
  assumes "reads_key p key p0" "reads_value d p0 n p1" "expect_byte CHR '','' (whitespace p1) = Inr p2"
    and "reads_members d (whitespace p2) ms q"
  shows "reads_members d p ((key, n) # ms) q"
proof -
  obtain k w0 r0 where k: "rest_of p = k @ w0 @ '':'' @ r0" "json_string_text k key" "json_ws w0"
      "p0 = read_on (length k + length w0 + 1) 0 p"
    using assms(1) unfolding reads_key_def by blast
  obtain w t r where v: "rest_of p0 = w @ t @ r" "json_ws w" "json_value d t n"
      "p1 = read_on (length w + length t) (node_values n) p0"
    using assms(2) unfolding reads_value_def by blast
  obtain w' where w': "rest_of p1 = w' @ rest_of (whitespace p1)" "json_ws w'"
      "whitespace p1 = read_on (length w') 0 p1"
    using whitespace_read by blast
  obtain r' where r': "rest_of (whitespace p1) = CHR '','' # r'" "p2 = read_on 1 0 (whitespace p1)"
    using expect_read [OF assms(3)] by blast
  obtain w2 where w2: "rest_of p2 = w2 @ rest_of (whitespace p2)" "json_ws w2"
      "whitespace p2 = read_on (length w2) 0 p2"
    using whitespace_read by blast
  obtain b r2 where b: "rest_of (whitespace p2) = b @ ''}'' @ r2" "json_members d b ms"
      "q = read_on (length b + 1) (total_values (map snd ms)) (whitespace p2)"
    using assms(4) unfolding reads_members_def by blast
  have "r0 = rest_of p0" "r = rest_of p1" "r' = rest_of p2" using k(1,4) v(1,4) r' by simp_all
  then have "rest_of p = ([] @ k @ w0 @ '':'' @ w @ t @ w' @ '','' @ w2 @ b) @ ''}'' @ r2"
    using k(1) v(1) w'(1) r'(1) w2(1) b(1) by simp
  moreover have "json_members d ([] @ k @ w0 @ '':'' @ w @ t @ w' @ '','' @ w2 @ b) ((key, n) # ms)"
    by (rule members_more [OF json_ws_Nil k(2,3) v(2,3) w'(2) members_leading [OF b(2) w2(2)]])
  moreover have "q = read_on (length ([] @ k @ w0 @ '':'' @ w @ t @ w' @ '','' @ w2 @ b) + 1)
      (total_values (map snd ((key, n) # ms))) p"
    using k(4) v(4) w'(3) r'(2) w2(3) b(3) by (simp add: add.assoc)
  ultimately show ?thesis unfolding reads_members_def by blast
qed

lemma array_read:
  assumes "parse_array fuel (Suc d) p = Inr ((ns, m), q)" "rest_of p = CHR ''['' # r0"
    and IH: "\<And>p'. parse_items fuel (Suc d) [] (Suc d) p' = Inr ((ns, m), q)
      \<Longrightarrow> reads_items (Suc d) p' ns q \<and> m = deepest (Suc d) ns"
  shows "\<exists>t r. rest_of p = t @ r \<and> q = read_on (length t) (total_values ns) p
    \<and> Suc d \<le> m \<and> json_value d t (JsonNode t (JArray ns) m (Suc (total_values ns)))"
proof -
  let ?p1 = "advance 1 p"
  obtain w where w: "rest_of ?p1 = w @ rest_of (whitespace ?p1)" "json_ws w"
      "whitespace ?p1 = read_on (length w) 0 ?p1"
    using whitespace_read by blast
  have r0: "rest_of ?p1 = r0" using assms(2) by (simp add: rest_advance)
  show ?thesis
  proof (cases "consume CHR '']'' (whitespace ?p1)")
    case (Pair closed p2)
    show ?thesis
    proof (cases closed)
      case True
      then have c: "consume CHR '']'' (whitespace ?p1) = (True, p2)" using Pair by simp
      obtain r' where r': "rest_of (whitespace ?p1) = CHR '']'' # r'" "p2 = read_on 1 0 (whitespace ?p1)"
        using consume_read [OF c] by blast
      let ?t = "''['' @ w @ '']''"
      have e: "ns = []" "m = Suc d" "q = p2" using assms(1) c by (simp_all add: parse_array.simps)
      have "rest_of p = ?t @ r'" using assms(2) r0 w(1) r'(1) by simp
      moreover have "q = read_on (length ?t) (total_values ns) p"
        using e r'(2) w(3) by (simp add: advance_read_on)
      moreover have "json_value d ?t (JsonNode ?t (JArray ns) m (Suc (total_values ns)))"
        using value_empty_array [OF w(2) refl, of d] e by simp
      ultimately show ?thesis using e(2) by blast
    next
      case False
      then have "p2 = whitespace ?p1" using Pair consume_False by simp
      then have i: "reads_items (Suc d) (whitespace ?p1) ns q" "m = deepest (Suc d) ns"
        using IH [of p2] assms(1) Pair False by (simp_all add: parse_array.simps)
      then obtain b r where b: "rest_of (whitespace ?p1) = b @ '']'' @ r" "json_items (Suc d) b ns"
          "q = read_on (length b + 1) (total_values ns) (whitespace ?p1)"
        unfolding reads_items_def by blast
      let ?t = "''['' @ (w @ b) @ '']''"
      have "rest_of p = ?t @ r" using assms(2) r0 w(1) b(1) by simp
      moreover have "q = read_on (length ?t) (total_values ns) p"
        using b(3) w(3) by (simp add: advance_read_on)
      moreover have "json_value d ?t (JsonNode ?t (JArray ns) m (Suc (total_values ns)))"
        unfolding i(2) by (rule value_array [OF items_leading [OF b(2) w(2)] refl])
      ultimately show ?thesis using deepest_ge [of "Suc d" ns] i(2) by blast
    qed
  qed
qed

lemma object_read:
  assumes "parse_object fuel (Suc d) p = Inr ((ms, m), q)" "rest_of p = CHR ''{'' # r0"
    and IH: "\<And>p'. parse_members fuel (Suc d) [] (Suc d) p' = Inr ((ms, m), q)
      \<Longrightarrow> reads_members (Suc d) p' ms q \<and> m = deepest (Suc d) (map snd ms)"
  shows "\<exists>t r. rest_of p = t @ r \<and> q = read_on (length t) (total_values (map snd ms)) p
    \<and> Suc d \<le> m \<and> json_value d t (JsonNode t (JObject ms) m (Suc (total_values (map snd ms))))"
proof -
  let ?p1 = "advance 1 p"
  obtain w where w: "rest_of ?p1 = w @ rest_of (whitespace ?p1)" "json_ws w"
      "whitespace ?p1 = read_on (length w) 0 ?p1"
    using whitespace_read by blast
  have r0: "rest_of ?p1 = r0" using assms(2) by (simp add: rest_advance)
  show ?thesis
  proof (cases "consume CHR ''}'' (whitespace ?p1)")
    case (Pair closed p2)
    show ?thesis
    proof (cases closed)
      case True
      then have c: "consume CHR ''}'' (whitespace ?p1) = (True, p2)" using Pair by simp
      obtain r' where r': "rest_of (whitespace ?p1) = CHR ''}'' # r'" "p2 = read_on 1 0 (whitespace ?p1)"
        using consume_read [OF c] by blast
      let ?t = "''{'' @ w @ ''}''"
      have e: "ms = []" "m = Suc d" "q = p2" using assms(1) c by (simp_all add: parse_object.simps)
      have "rest_of p = ?t @ r'" using assms(2) r0 w(1) r'(1) by simp
      moreover have "q = read_on (length ?t) (total_values (map snd ms)) p"
        using e r'(2) w(3) by (simp add: advance_read_on)
      moreover have "json_value d ?t (JsonNode ?t (JObject ms) m (Suc (total_values (map snd ms))))"
        using value_empty_object [OF w(2) refl, of d] e by simp
      ultimately show ?thesis using e(2) by blast
    next
      case False
      then have "p2 = whitespace ?p1" using Pair consume_False by simp
      then have i: "reads_members (Suc d) (whitespace ?p1) ms q" "m = deepest (Suc d) (map snd ms)"
        using IH [of p2] assms(1) Pair False by (simp_all add: parse_object.simps)
      then obtain b r where b: "rest_of (whitespace ?p1) = b @ ''}'' @ r" "json_members (Suc d) b ms"
          "q = read_on (length b + 1) (total_values (map snd ms)) (whitespace ?p1)"
        unfolding reads_members_def by blast
      let ?t = "''{'' @ (w @ b) @ ''}''"
      have "rest_of p = ?t @ r" using assms(2) r0 w(1) b(1) by simp
      moreover have "q = read_on (length ?t) (total_values (map snd ms)) p"
        using b(3) w(3) by (simp add: advance_read_on)
      moreover have "json_value d ?t (JsonNode ?t (JObject ms) m (Suc (total_values (map snd ms))))"
        unfolding i(2) by (rule value_object [OF members_leading [OF b(2) w(2)] refl])
      ultimately show ?thesis using deepest_ge [of "Suc d" "map snd ms"] i(2) by blast
    qed
  qed
qed

lemma value_read:
  assumes v: "parse_value (Suc fuel) d p = Inr (n, q)"
    and items: "\<And>p' ns m q. parse_items fuel (Suc d) [] (Suc d) p' = Inr ((ns, m), q)
      \<Longrightarrow> reads_items (Suc d) p' ns q \<and> m = deepest (Suc d) ns"
    and members: "\<And>p' ms m q. parse_members fuel (Suc d) [] (Suc d) p' = Inr ((ms, m), q)
      \<Longrightarrow> reads_members (Suc d) p' ms q \<and> m = deepest (Suc d) (map snd ms)"
  shows "reads_value d p n q"
proof -
  obtain p1 where p1: "begin_value p = Inr p1" using v by (cases "begin_value p") auto
  obtain w r1 where w: "rest_of p = w @ r1" "json_ws w" "rest_of p1 = r1" "p1 = read_on (length w) 1 p"
    using begin_read [OF p1] by blast
  obtain c where c: "cur_byte p1 = Some c" using v p1 by (cases "cur_byte p1") auto
  have goal: ?thesis if "rest_of p1 = t @ r" "q' = read_on (length t) k p1"
      "json_value d t (JsonNode t v m (Suc k))" "(n, q) = finish_value p1 v m q'" for t r q' k v m
  proof -
    have "rest_of p = w @ t @ r" using w(1,3) that(1) by simp
    moreover from this have "finish_value p1 v m q' = (JsonNode t v m (Suc k),
        read_on (length w + length t) (Suc k) p)"
      by (intro finish_read [OF w(4) _ that(2)])
    ultimately show ?thesis using that(3,4) w(2) unfolding reads_value_def by auto
  qed
  consider (array) ns m q' where "c = CHR ''[''" "parse_array fuel (Suc d) p1 = Inr ((ns, m), q')"
      "(n, q) = finish_value p1 (JArray ns) (max (Suc d) m) q'"
    | (object) ms m q' where "c = CHR ''{''" "parse_object fuel (Suc d) p1 = Inr ((ms, m), q')"
      "(n, q) = finish_value p1 (JObject ms) (max (Suc d) m) q'"
    | (scalar) v q' where "parse_scalar c p1 = Inr (v, q')" "(n, q) = finish_value p1 v 0 q'"
    using v p1 c by (auto simp: map_ok_Ok_iff split: if_splits simp del: parse_array.simps parse_object.simps)
  then show ?thesis
  proof cases
    case array
    then obtain r0 where "rest_of p1 = CHR ''['' # r0" using c by (cases "rest_of p1") (simp_all add: cur_byte_rest)
    from array_read [OF array(2) this items] obtain t r where t: "rest_of p1 = t @ r"
        "q' = read_on (length t) (total_values ns) p1" "Suc d \<le> m"
        "json_value d t (JsonNode t (JArray ns) m (Suc (total_values ns)))" by blast
    then show ?thesis using goal [OF t(1,2,4)] array(3) by (simp add: max_absorb2)
  next
    case object
    then obtain r0 where "rest_of p1 = CHR ''{'' # r0" using c by (cases "rest_of p1") (simp_all add: cur_byte_rest)
    from object_read [OF object(2) this members] obtain t r where t: "rest_of p1 = t @ r"
        "q' = read_on (length t) (total_values (map snd ms)) p1" "Suc d \<le> m"
        "json_value d t (JsonNode t (JObject ms) m (Suc (total_values (map snd ms))))" by blast
    then show ?thesis using goal [OF t(1,2,4)] object(3) by (simp add: max_absorb2)
  next
    case scalar
    from scalar_read [OF scalar(1) c] obtain t r where t: "rest_of p1 = t @ r"
        "q' = read_on (length t) 0 p1" "json_value d t (JsonNode t v 0 1)" by blast
    then show ?thesis using goal [OF t(1,2), of v 0] scalar(2) by simp
  qed
qed

lemma parse_sound:
  "parse_value fuel d p = Inr (n, q) \<Longrightarrow> reads_value d p n q"
  "parse_items fuel d items md p = Inr ((items', m), q) \<Longrightarrow>
     \<exists>ns. reads_items d p ns q \<and> items' = items @ ns \<and> m = deepest md ns"
  "parse_members fuel d members md p = Inr ((members', m), q) \<Longrightarrow>
     \<exists>ms. reads_members d p ms q \<and> members' = members @ ms \<and> m = deepest md (map snd ms)"
proof (induction fuel arbitrary: d p n q items items' members members' m md)
  case (Suc fuel)
  note IH = Suc.IH
  { case 1
    show ?case
    proof (rule value_read [OF 1])
      show "reads_items (Suc d) p' ns q \<and> m = deepest (Suc d) ns"
        if "parse_items fuel (Suc d) [] (Suc d) p' = Inr ((ns, m), q)" for p' ns m q
        using IH(2) [OF that] by simp
      show "reads_members (Suc d) p' ms q \<and> m = deepest (Suc d) (map snd ms)"
        if "parse_members fuel (Suc d) [] (Suc d) p' = Inr ((ms, m), q)" for p' ms m q
        using IH(3) [OF that] by simp
    qed
  next
    case 2
    obtain n p1 where n: "parse_value fuel d p = Inr (n, p1)"
      using 2 by (cases "parse_value fuel d p") auto
    have v: "reads_value d p n p1" by (rule IH(1) [OF n])
    show ?case
    proof (cases "consume CHR '']'' (whitespace p1)")
      case (Pair closed p2)
      show ?thesis
      proof (cases closed)
        case True
        then have "reads_items d p [n] p2" using items_last [OF v] Pair by simp
        then show ?thesis using 2 n Pair True by (auto simp: deepest_Cons intro!: exI [of _ "[n]"])
      next
        case False
        then have p2: "p2 = whitespace p1" using Pair consume_False by simp
        obtain p3 where p3: "expect_byte CHR '','' p2 = Inr p3"
          using 2 n Pair False by (cases "expect_byte CHR '','' p2") auto
        then have "parse_items fuel d (items @ [n]) (max md (node_max_depth n)) (whitespace p3)
            = Inr ((items', m), q)"
          using 2 n Pair False by simp
        then obtain ns where "reads_items d (whitespace p3) ns q" "items' = (items @ [n]) @ ns"
            "m = deepest (max md (node_max_depth n)) ns"
          using IH(2) by blast
        then show ?thesis
          using items_next [OF v] p2 p3 by (intro exI [of _ "n # ns"]) (simp add: deepest_Cons)
      qed
    qed
  next
    case 3
    obtain key p0 where key: "json_string p = Inr (key, p0)"
      using 3 by (cases "json_string p") (auto split: if_splits)
    obtain p1 where p1: "expect_byte CHR '':'' (whitespace p0) = Inr p1"
      using 3 key by (cases "expect_byte CHR '':'' (whitespace p0)") (auto split: if_splits)
    have k: "reads_key p key p1" by (rule key_read [OF key p1])
    obtain n p2 where n: "parse_value fuel d p1 = Inr (n, p2)"
      using 3 key p1 by (cases "parse_value fuel d p1") (auto split: if_splits)
    have v: "reads_value d p1 n p2" by (rule IH(1) [OF n])
    show ?case
    proof (cases "consume CHR ''}'' (whitespace p2)")
      case (Pair closed p3)
      show ?thesis
      proof (cases closed)
        case True
        then have "reads_members d p [(key, n)] p3" using members_last [OF k v] Pair by simp
        then show ?thesis
          using 3 key p1 n Pair True
          by (auto simp: deepest_Cons split: if_splits intro!: exI [of _ "[(key, n)]"])
      next
        case False
        then have p3: "p3 = whitespace p2" using Pair consume_False by simp
        obtain p4 where p4: "expect_byte CHR '','' p3 = Inr p4"
          using 3 key p1 n Pair False by (cases "expect_byte CHR '','' p3") (auto split: if_splits)
        then have "parse_members fuel d (members @ [(key, n)]) (max md (node_max_depth n)) (whitespace p4)
            = Inr ((members', m), q)"
          using 3 key p1 n Pair False by (simp split: if_splits)
        then obtain ms where "reads_members d (whitespace p4) ms q" "members' = (members @ [(key, n)]) @ ms"
            "m = deepest (max md (node_max_depth n)) (map snd ms)"
          using IH(3) by blast
        then show ?thesis
          using members_next [OF k v] p3 p4 by (intro exI [of _ "(key, n) # ms"]) (simp add: deepest_Cons)
      qed
    qed
  }
qed simp_all

section \<open>Completeness\<close>

lemma deepest_mono: "k \<le> m \<Longrightarrow> deepest k ns \<le> deepest m ns"
proof (induction ns arbitrary: k m)
  case (Cons n ns)
  then show ?case unfolding deepest_Cons by (intro Cons.IH) simp
qed simp

lemma deepest_bounds: "deepest m (n # ns) \<le> k \<Longrightarrow> node_max_depth n \<le> k \<and> deepest 0 ns \<le> k"
  using deepest_ge [of "max m (node_max_depth n)" ns] deepest_mono [of 0 "max m (node_max_depth n)" ns]
  by (simp add: deepest_Cons)

text \<open>What may start the text of a value.\<close>

definition starts_value :: "string \<Rightarrow> bool" where
  "starts_value t \<longleftrightarrow> (\<exists>c u. t = c # u \<and> \<not> is_json_whitespace c \<and> c \<notin> {CHR '']'', CHR ''}''})"

lemma digit_starts: "is_ascii_digit c \<Longrightarrow> \<not> is_json_whitespace c \<and> c \<notin> {CHR '']'', CHR ''}'', CHR ''['', CHR ''{'',
    CHR ''n'', CHR ''t'', CHR ''f'', CHR 0x22}"
  by (auto simp: is_ascii_digit_def is_json_whitespace_def byte_of_def)

lemma number_start: "is_json_number t \<Longrightarrow> \<exists>c u. t = c # u \<and> is_number_start c"
proof -
  have "\<exists>c u. t = c # u \<and> is_ascii_digit c" if "json_unsigned t" for t
  proof -
    obtain int r where "t = int @ r" "json_digits int" using \<open>json_unsigned t\<close> unfolding json_unsigned_def by blast
    then show ?thesis using json_digits_hd [of int] by (cases int) auto
  qed
  then show "is_json_number t \<Longrightarrow> ?thesis"
    unfolding is_json_number_def is_number_start_def by blast
qed

lemma number_start_chars: "is_number_start c \<Longrightarrow> \<not> is_json_whitespace c \<and> c \<notin> {CHR '']'', CHR ''}'', CHR ''['',
    CHR ''{'', CHR ''n'', CHR ''t'', CHR ''f'', CHR 0x22}"
proof (cases "c = CHR ''-''")
  case False
  then show "is_number_start c \<Longrightarrow> ?thesis" using digit_starts by (simp only: is_number_start_def simp_thms)
qed (simp add: is_json_whitespace_def)

lemma value_starts: "json_value d t n \<Longrightarrow> starts_value t"
proof (induction rule: json_value.cases)
  case (value_number t d)
  then show ?case using number_start number_start_chars unfolding starts_value_def by fastforce
qed (auto simp: starts_value_def is_json_whitespace_def json_string_text_def)

lemma string_text_starts: "json_string_text k key \<Longrightarrow> \<exists>u. k = CHR 0x22 # u"
  by (auto simp: json_string_text_def)

lemma items_start: "json_items d b ns \<Longrightarrow> \<exists>w t r. b = w @ t @ r \<and> json_ws w \<and> starts_value t"
  by (induction rule: json_items.cases) (use value_starts in blast)+

lemma members_start: "json_members d b ms \<Longrightarrow> \<exists>w r. b = w @ CHR 0x22 # r \<and> json_ws w"
  by (induction rule: json_members.cases) (use string_text_starts in fastforce)+

lemma ws_ends: "json_ws w \<Longrightarrow> number_ends r \<Longrightarrow> number_ends (w @ r)"
  by (cases w) (auto simp: number_ends_def json_ws_def is_json_whitespace_def is_ascii_digit_def byte_of_def)

lemma close_ends: "number_ends (CHR '']'' # r)" "number_ends (CHR ''}'' # r)" "number_ends (CHR '','' # r)"
  by (simp_all add: number_ends_def is_ascii_digit_def byte_of_def)

lemma whitespace_to:
  "rest_of p = w @ c # r \<Longrightarrow> json_ws w \<Longrightarrow> \<not> is_json_whitespace c \<Longrightarrow> whitespace p = read_on (length w) 0 p"
  using whitespace_skip [of p w "c # r"] by (simp add: json_ws_def advance_read_on)

lemma consume_at: "rest_of p = c # r \<Longrightarrow> consume c p = (True, read_on 1 0 p)"
  by (simp add: rest_consume advance_read_on)

lemma consume_not: "rest_of p = c' # r \<Longrightarrow> c' \<noteq> c \<Longrightarrow> consume c p = (False, p)"
  by (simp add: rest_consume)

lemma expect_at: "rest_of p = c # r \<Longrightarrow> expect_byte c p = Inr (read_on 1 0 p)"
  by (simp add: expect_byte_def consume_at)

subsection \<open>Single values\<close>

lemma begin_at:
  assumes "rest_of p = w @ t @ r" "json_ws w" "starts_value t" "ps_values p < MAX_VALUES"
  shows "begin_value p = Inr (read_on (length w) 1 p)"
proof -
  obtain c u where "t = c # u" "\<not> is_json_whitespace c" using assms(3) unfolding starts_value_def by blast
  then have "whitespace p = read_on (length w) 0 p" using whitespace_to assms(1,2) by simp
  then show ?thesis using assms(4) by (simp add: begin_value_def Let_def read_on_def)
qed

lemma value_at:
  assumes "rest_of p = w @ t @ r" "json_ws w" "starts_value t" "ps_values p < MAX_VALUES"
    and "p1 = read_on (length w) 1 p" "cur_byte p1 = Some c"
    and "c = CHR ''['' \<Longrightarrow> Suc d \<le> MAX_DEPTH \<and> parse_array fuel (Suc d) p1 = Inr ((ns, m), read_on (length t) k p1)
      \<and> v = JArray ns \<and> Suc d \<le> m"
    and "c = CHR ''{'' \<Longrightarrow> Suc d \<le> MAX_DEPTH \<and> parse_object fuel (Suc d) p1 = Inr ((ms, m), read_on (length t) k p1)
      \<and> v = JObject ms \<and> Suc d \<le> m"
    and "c \<noteq> CHR ''['' \<Longrightarrow> c \<noteq> CHR ''{'' \<Longrightarrow> parse_scalar c p1 = Inr (v, read_on (length t) k p1) \<and> m = 0"
  shows "parse_value (Suc fuel) d p = Inr (JsonNode t v m (Suc k), read_on (length w + length t) (Suc k) p)"
proof -
  have b: "begin_value p = Inr p1" using begin_at [OF assms(1-4)] assms(5) by simp
  have f: "finish_value p1 v m (read_on (length t) k p1)
      = (JsonNode t v m (Suc k), read_on (length w + length t) (Suc k) p)"
    by (rule finish_read [OF assms(5,1) refl])
  consider "c = CHR ''[''" | "c = CHR ''{''" | "c \<noteq> CHR ''[''" "c \<noteq> CHR ''{''" by blast
  then show ?thesis
  proof cases
    case 1
    then show ?thesis using b f assms(6,7) by (simp add: max_absorb2)
  next
    case 2
    then show ?thesis using b f assms(6,8) by (simp add: max_absorb2)
  next
    case 3
    then show ?thesis using b f assms(6,9) by simp
  qed
qed

lemma scalar_at:
  assumes "rest_of p = w @ t @ r" "json_ws w" "starts_value t" "ps_values p < MAX_VALUES"
    and "t = c # u" "c \<noteq> CHR ''[''" "c \<noteq> CHR ''{''"
    and "\<And>q. rest_of q = t @ r \<Longrightarrow> in_range q \<Longrightarrow> parse_scalar c q = Inr (v, read_on (length t) 0 q)"
  shows "parse_value (Suc fuel) d p = Inr (JsonNode t v 0 1, read_on (length w + length t) 1 p)"
proof -
  let ?q = "read_on (length w) 1 p"
  have q: "rest_of ?q = t @ r" using assms(1) by simp
  then have cb: "cur_byte ?q = Some c" using assms(5) by (simp add: cur_byte_rest)
  then have "in_range ?q" using cur_byte_Some [OF cb] by (simp add: in_range_def)
  then show ?thesis
    using value_at [OF assms(1-4) refl cb, where k = 0 and v = v and m = 0] assms(6,7) assms(8) [OF q] by simp
qed

lemma literal_at: "rest_of p = lit @ r \<Longrightarrow> json_literal lit p = Inr (read_on (length lit) 0 p)"
  by (simp add: json_literal_def starts_with_at_def rest_of_def [symmetric] advance_read_on)

lemma array_at:
  assumes "rest_of p = w @ t @ r" "json_ws w" "ps_values p + Suc k \<le> MAX_VALUES" "t = ''['' @ b @ '']''"
    and "Suc d \<le> m" "m \<le> MAX_DEPTH"
    and "\<And>q. rest_of q = b @ CHR '']'' # r \<Longrightarrow> ps_values q = Suc (ps_values p) \<Longrightarrow>
      (case consume CHR '']'' (whitespace q) of (True, q) \<Rightarrow> Inr (([], Suc d), q)
       | (False, q) \<Rightarrow> parse_items fuel (Suc d) [] (Suc d) q) = Inr ((ns, m), read_on (length b + 1) k q)"
  shows "parse_value (Suc fuel) d p
    = Inr (JsonNode t (JArray ns) m (Suc k), read_on (length w + length t) (Suc k) p)"
proof (rule value_at [OF assms(1,2) _ _ refl])
  let ?p1 = "read_on (length w) 1 p"
  show "starts_value t" using assms(4) by (simp add: starts_value_def is_json_whitespace_def)
  show "ps_values p < MAX_VALUES" using assms(3) by simp
  show "cur_byte ?p1 = Some CHR ''[''" using assms(1,4) by (simp add: cur_byte_rest)
  have "rest_of (advance 1 ?p1) = b @ CHR '']'' # r" using assms(1,4) by (simp add: rest_advance)
  from assms(7) [OF this] have "parse_array fuel (Suc d) ?p1 = Inr ((ns, m), read_on (length t) k ?p1)"
    using assms(4) by (simp add: parse_array.simps)
  then show "Suc d \<le> MAX_DEPTH \<and> parse_array fuel (Suc d) ?p1 = Inr ((ns, m), read_on (length t) k ?p1)
      \<and> JArray ns = JArray ns \<and> Suc d \<le> m"
    using assms(5,6) by simp
qed simp_all

lemma object_at:
  assumes "rest_of p = w @ t @ r" "json_ws w" "ps_values p + Suc k \<le> MAX_VALUES" "t = ''{'' @ b @ ''}''"
    and "Suc d \<le> m" "m \<le> MAX_DEPTH"
    and "\<And>q. rest_of q = b @ CHR ''}'' # r \<Longrightarrow> ps_values q = Suc (ps_values p) \<Longrightarrow>
      (case consume CHR ''}'' (whitespace q) of (True, q) \<Rightarrow> Inr (([], Suc d), q)
       | (False, q) \<Rightarrow> parse_members fuel (Suc d) [] (Suc d) q) = Inr ((ms, m), read_on (length b + 1) k q)"
  shows "parse_value (Suc fuel) d p
    = Inr (JsonNode t (JObject ms) m (Suc k), read_on (length w + length t) (Suc k) p)"
proof (rule value_at [OF assms(1,2) _ _ refl])
  let ?p1 = "read_on (length w) 1 p"
  show "starts_value t" using assms(4) by (simp add: starts_value_def is_json_whitespace_def)
  show "ps_values p < MAX_VALUES" using assms(3) by simp
  show "cur_byte ?p1 = Some CHR ''{''" using assms(1,4) by (simp add: cur_byte_rest)
  have "rest_of (advance 1 ?p1) = b @ CHR ''}'' # r" using assms(1,4) by (simp add: rest_advance)
  from assms(7) [OF this] have "parse_object fuel (Suc d) ?p1 = Inr ((ms, m), read_on (length t) k ?p1)"
    using assms(4) by (simp add: parse_object.simps)
  then show "Suc d \<le> MAX_DEPTH \<and> parse_object fuel (Suc d) ?p1 = Inr ((ms, m), read_on (length t) k ?p1)
      \<and> JObject ms = JObject ms \<and> Suc d \<le> m"
    using assms(5,6) by simp
qed simp_all

subsection \<open>All values\<close>

lemma number_at:
  assumes "is_json_number t" "number_ends r" "rest_of q = t @ r" "in_range q" "t = c # u"
  shows "parse_scalar c q = Inr (JNumber t, read_on (length t) 0 q)"
proof -
  have c: "is_number_start c" using number_start [OF assms(1)] assms(5) by auto
  have "json_number q = (None, read_on (length t) 0 q)"
    using json_number_complete [OF assms(3,1,2,4)] by (simp add: advance_read_on)
  moreover have "slice (ps_input q) (ps_index q) (ps_index q + length t) = t"
    using assms(3) by (rule slice_rest)
  ultimately show ?thesis
    using c number_start_chars [OF c] by (simp add: parse_scalar_def)
qed

lemma string_at:
  assumes "json_string_text t s" "rest_of q = t @ r"
  shows "parse_scalar CHR 0x22 q = Inr (JString s, read_on (length t) 0 q)"
  using json_string_complete [OF assms] by (simp add: parse_scalar_def advance_read_on)

lemma items_close:
  assumes "rest_of p1 = w' @ CHR '']'' # r" "json_ws w'"
  shows "consume CHR '']'' (whitespace p1) = (True, read_on (length w' + 1) 0 p1)"
proof -
  have "whitespace p1 = read_on (length w') 0 p1"
    by (rule whitespace_to [OF assms(1,2)]) (simp add: is_json_whitespace_def)
  then show ?thesis using assms consume_at [of "whitespace p1" "CHR '']''" r] by simp
qed

lemma members_close:
  assumes "rest_of p1 = w' @ CHR ''}'' # r" "json_ws w'"
  shows "consume CHR ''}'' (whitespace p1) = (True, read_on (length w' + 1) 0 p1)"
proof -
  have "whitespace p1 = read_on (length w') 0 p1"
    by (rule whitespace_to [OF assms(1,2)]) (simp add: is_json_whitespace_def)
  then show ?thesis using assms consume_at [of "whitespace p1" "CHR ''}''" r] by simp
qed

lemma separator_at:
  assumes "rest_of p1 = w' @ CHR '','' # r" "json_ws w'" "c \<noteq> CHR '',''"
  shows "consume c (whitespace p1) = (False, whitespace p1)"
    and "expect_byte CHR '','' (whitespace p1) = Inr (read_on (length w' + 1) 0 p1)"
proof -
  have w: "whitespace p1 = read_on (length w') 0 p1"
    by (rule whitespace_to [OF assms(1,2)]) (simp add: is_json_whitespace_def)
  then have r: "rest_of (whitespace p1) = CHR '','' # r" using assms(1) by simp
  show "consume c (whitespace p1) = (False, whitespace p1)" by (rule consume_not [OF r]) (use assms(3) in simp)
  show "expect_byte CHR '','' (whitespace p1) = Inr (read_on (length w' + 1) 0 p1)"
    using expect_at [OF r] w by simp
qed

lemma key_at:
  assumes "rest_of p = k @ w1 @ CHR '':'' # r" "json_string_text k key" "json_ws w1"
  shows "cur_byte p = Some CHR 0x22" "json_string p = Inr (key, read_on (length k) 0 p)"
    "expect_byte CHR '':'' (whitespace (read_on (length k) 0 p)) = Inr (read_on (length k + length w1 + 1) 0 p)"
proof -
  show "cur_byte p = Some CHR 0x22" using assms(1) string_text_starts [OF assms(2)] by (auto simp: cur_byte_rest)
  show "json_string p = Inr (key, read_on (length k) 0 p)"
    using json_string_complete [OF assms(2,1)] by (simp add: advance_read_on)
  have w: "whitespace (read_on (length k) 0 p) = read_on (length w1) 0 (read_on (length k) 0 p)"
    using assms(1) by (intro whitespace_to [where c = "CHR '':''" and r = r] assms(3))
      (simp_all add: is_json_whitespace_def)
  have "rest_of (whitespace (read_on (length k) 0 p)) = CHR '':'' # r" unfolding w using assms(1) by simp
  then show "expect_byte CHR '':'' (whitespace (read_on (length k) 0 p)) = Inr (read_on (length k + length w1 + 1) 0 p)"
    using expect_at w by fastforce
qed

lemma whitespace_value:
  assumes "rest_of p = v @ t @ r" "json_ws v" "starts_value t"
  shows "whitespace p = read_on (length v) 0 p"
  using assms whitespace_to [of p v] unfolding starts_value_def by fastforce

lemma open_items:
  assumes "rest_of q = b @ r" "json_items d b ns"
  shows "consume CHR '']'' (whitespace q) = (False, whitespace q)"
proof -
  obtain w t u where b: "b = w @ t @ u" "json_ws w" "starts_value t" using items_start [OF assms(2)] by blast
  then have "whitespace q = read_on (length w) 0 q" using assms(1) by (intro whitespace_value) simp_all
  moreover obtain c v where "t = c # v" "c \<noteq> CHR '']''" using b(3) unfolding starts_value_def by blast
  ultimately show ?thesis using assms(1) b by (intro consume_not [of _ c "v @ u @ r"]) simp_all
qed

lemma open_members:
  assumes "rest_of q = b @ r" "json_members d b ms"
  shows "consume CHR ''}'' (whitespace q) = (False, whitespace q)"
proof -
  obtain w u where b: "b = w @ CHR 0x22 # u" "json_ws w" using members_start [OF assms(2)] by blast
  have "whitespace q = read_on (length w) 0 q"
    by (rule whitespace_to [of _ w "CHR 0x22" "u @ r"]) (use assms(1) b in \<open>simp_all add: is_json_whitespace_def\<close>)
  then show ?thesis using assms(1) b by (intro consume_not [of _ "CHR 0x22" "u @ r"]) simp_all
qed

lemma value_in_container:
  assumes "rest_of p = v @ t @ v' @ r" "json_ws v" "json_ws v'" "json_value d t n" "number_ends r"
    and IH: "\<And>p w r fuel. rest_of p = w @ t @ r \<Longrightarrow> json_ws w \<Longrightarrow> number_ends r \<Longrightarrow>
      ps_values p + node_values n \<le> MAX_VALUES \<Longrightarrow> node_max_depth n \<le> MAX_DEPTH \<Longrightarrow> 2 * length t \<le> fuel \<Longrightarrow>
      parse_value (Suc fuel) d p = Inr (n, read_on (length w + length t) (node_values n) p)"
    and "ps_values p + node_values n \<le> MAX_VALUES" "node_max_depth n \<le> MAX_DEPTH" "2 * length t < fuel"
  shows "parse_value fuel d (whitespace p) = Inr (n, read_on (length v + length t) (node_values n) p)"
    and "rest_of (read_on (length v + length t) (node_values n) p) = v' @ r"
proof -
  have w: "whitespace p = read_on (length v) 0 p"
    using assms(1,2) value_starts [OF assms(4)] by (rule whitespace_value)
  obtain f where f: "fuel = Suc f" using assms(9) by (cases fuel) auto
  have "parse_value (Suc f) d (whitespace p) = Inr (n, read_on (length ([] :: string) + length t) (node_values n) (whitespace p))"
    using w assms f by (intro IH [where r = "v' @ r"]) (auto intro: ws_ends)
  then show "parse_value fuel d (whitespace p) = Inr (n, read_on (length v + length t) (node_values n) p)"
    unfolding f w by simp
  show "rest_of (read_on (length v + length t) (node_values n) p) = v' @ r" using assms(1) by simp
qed

lemma json_complete:
  "json_value d t n \<Longrightarrow> rest_of p = w @ t @ r \<Longrightarrow> json_ws w \<Longrightarrow> number_ends r \<Longrightarrow>
     ps_values p + node_values n \<le> MAX_VALUES \<Longrightarrow> node_max_depth n \<le> MAX_DEPTH \<Longrightarrow> 2 * length t \<le> fuel \<Longrightarrow>
     parse_value (Suc fuel) d p = Inr (n, read_on (length w + length t) (node_values n) p)"
  "json_items d b ns \<Longrightarrow> rest_of p = b @ CHR '']'' # r \<Longrightarrow> ps_values p + total_values ns \<le> MAX_VALUES \<Longrightarrow>
     deepest 0 ns \<le> MAX_DEPTH \<Longrightarrow> 2 * length b + 2 \<le> fuel \<Longrightarrow>
     parse_items fuel d items m (whitespace p)
       = Inr ((items @ ns, deepest m ns), read_on (length b + 1) (total_values ns) p)"
  "json_members d b ms \<Longrightarrow> rest_of p = b @ CHR ''}'' # r \<Longrightarrow>
     ps_values p + total_values (map snd ms) \<le> MAX_VALUES \<Longrightarrow>
     deepest 0 (map snd ms) \<le> MAX_DEPTH \<Longrightarrow> 2 * length b + 2 \<le> fuel \<Longrightarrow>
     parse_members fuel d members m (whitespace p)
       = Inr ((members @ ms, deepest m (map snd ms)), read_on (length b + 1) (total_values (map snd ms)) p)"
proof (induction arbitrary: p w r fuel and p r fuel items m and p r fuel members m
    rule: json_value_json_items_json_members.inducts)
  case (value_null d)
  have n: "json_value d ''null'' (JsonNode ''null'' JNull 0 1)" by (rule json_value_json_items_json_members.value_null)
  show ?case
    using scalar_at [OF value_null(1,2) value_starts [OF n], of "CHR ''n''" "''ull''" JNull fuel d] value_null(4)
      literal_at [of _ "''null''" r]
    by (simp add: parse_scalar_def)
next
  case (value_true d)
  have n: "json_value d ''true'' (JsonNode ''true'' (JBoolean True) 0 1)" by (rule json_value_json_items_json_members.value_true)
  show ?case
    using scalar_at [OF value_true(1,2) value_starts [OF n], of "CHR ''t''" "''rue''" "JBoolean True" fuel d] value_true(4)
      literal_at [of _ "''true''" r]
    by (simp add: parse_scalar_def)
next
  case (value_false d)
  have n: "json_value d ''false'' (JsonNode ''false'' (JBoolean False) 0 1)" by (rule json_value_json_items_json_members.value_false)
  show ?case
    using scalar_at [OF value_false(1,2) value_starts [OF n], of "CHR ''f''" "''alse''" "JBoolean False" fuel d] value_false(4)
      literal_at [of _ "''false''" r]
    by (simp add: parse_scalar_def)
next
  case (value_number t d)
  obtain c u where c: "t = c # u" "is_number_start c" using number_start [OF value_number(1)] by blast
  have s: "starts_value t" by (rule value_starts [OF json_value_json_items_json_members.value_number [OF value_number(1)]])
  show ?case
    using scalar_at [OF value_number(2,3) s _ c(1), of "JNumber t" fuel d] number_start_chars [OF c(2)] value_number(5)
      number_at [OF value_number(1,4) _ _ c(1)]
    by simp
next
  case (value_string t s d)
  obtain u where c: "t = CHR 0x22 # u" using string_text_starts [OF value_string(1)] by blast
  have st: "starts_value t" by (rule value_starts [OF json_value_json_items_json_members.value_string [OF value_string(1)]])
  show ?case
    using scalar_at [OF value_string(2,3) st _ c, of "JString s" fuel d] value_string(5) string_at [OF value_string(1)]
    by simp
next
  case (value_empty_array v t d)
  have "parse_value (Suc fuel) d p = Inr (JsonNode t (JArray []) (Suc d) (Suc 0), read_on (length w + length t) (Suc 0) p)"
    using value_empty_array(3,4,6,7) items_close [OF _ value_empty_array(1)]
    by (intro array_at [OF _ _ _ value_empty_array(2)]) auto
  then show ?case by simp
next
  case (value_array d b ns t)
  have d0: "deepest 0 ns \<le> MAX_DEPTH"
    using deepest_mono [of 0 "Suc d" ns] value_array.prems(5) by simp
  have "parse_value (Suc fuel) d p = Inr (JsonNode t (JArray ns) (deepest (Suc d) ns) (Suc (total_values ns)),
      read_on (length w + length t) (Suc (total_values ns)) p)"
  proof (rule array_at [OF value_array.prems(1,2) _ value_array.hyps(2) deepest_ge])
    fix q assume q: "rest_of q = b @ CHR '']'' # r" "ps_values q = Suc (ps_values p)"
    have "parse_items fuel (Suc d) [] (Suc d) (whitespace q)
        = Inr (([] @ ns, deepest (Suc d) ns), read_on (length b + 1) (total_values ns) q)"
      by (rule value_array.IH [OF q(1) _ d0]) (use q(2) value_array.prems(4,6) value_array.hyps(2) in simp_all)
    then show "(case consume CHR '']'' (whitespace q) of (True, q) \<Rightarrow> Inr (([], Suc d), q)
       | (False, q) \<Rightarrow> parse_items fuel (Suc d) [] (Suc d) q)
       = Inr ((ns, deepest (Suc d) ns), read_on (length b + 1) (total_values ns) q)"
      using open_items [OF q(1) value_array.hyps(1)] by simp
  qed (use value_array.prems(4,5) in simp_all)
  then show ?case by simp
next
  case (value_empty_object v t d)
  have "parse_value (Suc fuel) d p = Inr (JsonNode t (JObject []) (Suc d) (Suc 0), read_on (length w + length t) (Suc 0) p)"
    using value_empty_object(3,4,6,7) members_close [OF _ value_empty_object(1)]
    by (intro object_at [OF _ _ _ value_empty_object(2)]) auto
  then show ?case by simp
next
  case (value_object d b ms t)
  have d0: "deepest 0 (map snd ms) \<le> MAX_DEPTH"
    using deepest_mono [of 0 "Suc d" "map snd ms"] value_object.prems(5) by simp
  have "parse_value (Suc fuel) d p = Inr (JsonNode t (JObject ms) (deepest (Suc d) (map snd ms))
      (Suc (total_values (map snd ms))), read_on (length w + length t) (Suc (total_values (map snd ms))) p)"
  proof (rule object_at [OF value_object.prems(1,2) _ value_object.hyps(2) deepest_ge])
    fix q assume q: "rest_of q = b @ CHR ''}'' # r" "ps_values q = Suc (ps_values p)"
    have "parse_members fuel (Suc d) [] (Suc d) (whitespace q)
        = Inr (([] @ ms, deepest (Suc d) (map snd ms)), read_on (length b + 1) (total_values (map snd ms)) q)"
      by (rule value_object.IH [OF q(1) _ d0]) (use q(2) value_object.prems(4,6) value_object.hyps(2) in simp_all)
    then show "(case consume CHR ''}'' (whitespace q) of (True, q) \<Rightarrow> Inr (([], Suc d), q)
       | (False, q) \<Rightarrow> parse_members fuel (Suc d) [] (Suc d) q)
       = Inr ((ms, deepest (Suc d) (map snd ms)), read_on (length b + 1) (total_values (map snd ms)) q)"
      using open_members [OF q(1) value_object.hyps(1)] by simp
  qed (use value_object.prems(4,5) in simp_all)
  then show ?case by simp
next
  case (items_one v d t n v')
  obtain f where f: "fuel = Suc f" using items_one.prems(4) by (cases fuel) auto
  have "rest_of p = v @ t @ v' @ CHR '']'' # r" using items_one.prems(1) by simp
  note vc = value_in_container [OF this items_one.hyps(1,3,2) close_ends(1) items_one.IH, where fuel = f]
  let ?q = "read_on (length v + length t) (node_values n) p"
  have v: "parse_value f d (whitespace p) = Inr (n, ?q)" "rest_of ?q = v' @ CHR '']'' # r"
    by (rule vc; use items_one.prems(2-4) f deepest_bounds [of 0 n "[]"] in simp)+
  show ?case
    unfolding f using v(1) items_close [OF v(2) items_one.hyps(3)] by (simp add: deepest_Cons add.assoc)
next
  case (items_more v d t n v' b ns)
  obtain f where f: "fuel = Suc f" using items_more.prems(4) by (cases fuel) auto
  have "rest_of p = v @ t @ v' @ CHR '','' # b @ CHR '']'' # r" using items_more.prems(1) by simp
  note vc = value_in_container [OF this items_more.hyps(1,3,2) close_ends(3) items_more.IH(1), where fuel = f]
  let ?q = "read_on (length v + length t) (node_values n) p"
  note bounds = deepest_bounds [OF items_more.prems(3)]
  have v: "parse_value f d (whitespace p) = Inr (n, ?q)" "rest_of ?q = v' @ CHR '','' # b @ CHR '']'' # r"
    by (rule vc; use items_more.prems(2,4) f bounds in simp)+
  note sep = separator_at [OF v(2) items_more.hyps(3), of "CHR '']''"]
  let ?q2 = "read_on (length v' + 1) 0 ?q"
  have "parse_items f d (items @ [n]) (max m (node_max_depth n)) (whitespace ?q2)
      = Inr (((items @ [n]) @ ns, deepest (max m (node_max_depth n)) ns), read_on (length b + 1) (total_values ns) ?q2)"
    by (rule items_more.IH(2) [where r = r]) (use items_more.prems(1,2,4) f bounds in simp_all)
  then show ?case
    unfolding f using v(1) sep by (simp add: deepest_Cons add.assoc)
next
  case (members_one v k key w1 w2 d t n v')
  obtain f where f: "fuel = Suc f" using members_one.prems(4) by (cases fuel) auto
  obtain u where k: "k = CHR 0x22 # u" using string_text_starts [OF members_one.hyps(2)] by blast
  have w: "whitespace p = read_on (length v) 0 p"
    by (rule whitespace_to [OF _ members_one.hyps(1), of p "CHR 0x22"])
      (use members_one.prems(1) k in \<open>simp_all add: is_json_whitespace_def\<close>)
  have "rest_of (whitespace p) = k @ w1 @ CHR '':'' # w2 @ t @ v' @ CHR ''}'' # r"
    unfolding w using members_one.prems(1) by simp
  note key = key_at [OF this members_one.hyps(2,3)]
  let ?p1 = "read_on (length k + length w1 + 1) 0 (whitespace p)"
  have r1: "rest_of ?p1 = w2 @ t @ v' @ CHR ''}'' # r" unfolding w using members_one.prems(1) by simp
  let ?q = "read_on (length w2 + length t) (node_values n) ?p1"
  obtain f' where f': "f = Suc f'" using members_one.prems(4) f by (cases f) auto
  have v: "parse_value f d ?p1 = Inr (n, ?q)"
    unfolding f' by (rule members_one.IH [OF r1 members_one.hyps(4) ws_ends [OF members_one.hyps(6) close_ends(2)]])
      (use members_one.prems(2-4) f f' w deepest_bounds [of 0 n "[]"] in simp_all)
  have "rest_of ?q = v' @ CHR ''}'' # r" unfolding w using members_one.prems(1) by simp
  from members_close [OF this members_one.hyps(6)] show ?case
    unfolding f using key v w by (simp add: deepest_Cons add.assoc)
next
  case (members_more v k key w1 w2 d t n v' b ms)
  obtain f where f: "fuel = Suc f" using members_more.prems(4) by (cases fuel) auto
  obtain u where k: "k = CHR 0x22 # u" using string_text_starts [OF members_more.hyps(2)] by blast
  have w: "whitespace p = read_on (length v) 0 p"
    by (rule whitespace_to [OF _ members_more.hyps(1), of p "CHR 0x22"])
      (use members_more.prems(1) k in \<open>simp_all add: is_json_whitespace_def\<close>)
  have "rest_of (whitespace p) = k @ w1 @ CHR '':'' # w2 @ t @ v' @ CHR '','' # b @ CHR ''}'' # r"
    unfolding w using members_more.prems(1) by simp
  note key = key_at [OF this members_more.hyps(2,3)]
  let ?p1 = "read_on (length k + length w1 + 1) 0 (whitespace p)"
  have r1: "rest_of ?p1 = w2 @ t @ v' @ CHR '','' # b @ CHR ''}'' # r"
    unfolding w using members_more.prems(1) by simp
  let ?q = "read_on (length w2 + length t) (node_values n) ?p1"
  obtain f' where f': "f = Suc f'" using members_more.prems(4) f by (cases f) auto
  have bounds: "node_max_depth n \<le> MAX_DEPTH" "deepest 0 (map snd ms) \<le> MAX_DEPTH"
    using deepest_bounds members_more.prems(3) by simp_all
  have v: "parse_value f d ?p1 = Inr (n, ?q)"
    unfolding f' by (rule members_more.IH(1) [OF r1 members_more.hyps(4) ws_ends [OF members_more.hyps(6) close_ends(3)]])
      (use members_more.prems(2,4) f f' w bounds in simp_all)
  have rq: "rest_of ?q = v' @ CHR '','' # b @ CHR ''}'' # r" unfolding w using members_more.prems(1) by simp
  note sep = separator_at [OF rq members_more.hyps(6), of "CHR ''}''"]
  let ?q2 = "read_on (length v' + 1) 0 ?q"
  have "parse_members f d (members @ [(key, n)]) (max m (node_max_depth n)) (whitespace ?q2)
      = Inr (((members @ [(key, n)]) @ ms, deepest (max m (node_max_depth n)) (map snd ms)),
        read_on (length b + 1) (total_values (map snd ms)) ?q2)"
    by (rule members_more.IH(2) [where r = r]) (use w members_more.prems(1,2,4) f bounds in simp_all)
  then show ?case
    unfolding f using key v sep w by (simp add: deepest_Cons add.assoc)
qed

section \<open>The parser and the grammar\<close>

lemma initial_values: "ps_values (initial_parser s) = 0"
  by (simp add: initial_parser_def)

lemma parse_json_iff: "parse_json s = Inr node \<longleftrightarrow> json_document s node"
proof
  assume "parse_json s = Inr node"
  then obtain n p where n: "\<not> MAX_BYTES < length s" "parse_value (2 * length s + 1) 0 (initial_parser s) = Inr (n, p)"
      "ps_index (whitespace p) = length s" "node = JsonNode s (node_value n) (node_max_depth n) (node_values n)"
    by (auto simp: parse_json_def Let_def try_bind_Ok_iff split: if_splits)
  obtain w t r where v: "rest_of (initial_parser s) = w @ t @ r" "json_ws w" "json_value 0 t n"
      "p = read_on (length w + length t) (node_values n) (initial_parser s)"
    using parse_sound(1) [OF n(2)] unfolding reads_value_def by blast
  obtain w' where w': "rest_of p = w' @ rest_of (whitespace p)" "json_ws w'"
      "whitespace p = read_on (length w') 0 p"
    using whitespace_read by blast
  have "rest_of (whitespace p) = []"
    using n(3) w'(3) v(4) unfolding rest_of_def by (simp add: initial_parser_def)
  then have "r = w'" using w'(1) v(1,4) by simp
  then have "s = w @ t @ w'" using v(1) by simp
  moreover have "node_max_depth n \<le> MAX_DEPTH" "node_values n \<le> MAX_VALUES"
    using parse_json_bounds [of s] \<open>parse_json s = Inr node\<close> n(4) by auto
  ultimately show "json_document s node"
    unfolding json_document_def using v(2,3) w'(2) n(1,4) by (metis leI)
next
  assume "json_document s node"
  then obtain w t w' n where d: "s = w @ t @ w'" "json_ws w" "json_ws w'" "json_value 0 t n"
      "node = JsonNode s (node_value n) (node_max_depth n) (node_values n)"
      "length s \<le> MAX_BYTES" "node_max_depth n \<le> MAX_DEPTH" "node_values n \<le> MAX_VALUES"
    unfolding json_document_def by blast
  let ?p = "read_on (length w + length t) (node_values n) (initial_parser s)"
  have "number_ends w'" using ws_ends [OF d(3), of "[]"] by (simp add: number_ends_def)
  then have "parse_value (Suc (2 * length s)) 0 (initial_parser s) = Inr (n, ?p)"
    using d by (intro json_complete(1) [OF d(4)]) (simp_all add: initial_values)
  moreover have "whitespace ?p = read_on (length w') 0 ?p"
    using whitespace_skip [of ?p w' "[]"] d(1,3) by (simp add: json_ws_def advance_read_on)
  ultimately show "parse_json s = Inr node"
    using d(1,5,6) by (simp add: parse_json_def Let_def del: parse_value.simps) (simp add: initial_parser_def)
qed

text \<open>C4. The parser accepts exactly the JSON grammar of RFC 8259 within its limits, and gives the node
  that the grammar assigns to the text: \<open>parse\<close> returns a node if and only if the text has at most
  8 MiB and is, between white space, a value of the grammar with at most 262,144 values nested at
  most 128 deep, all escapes of which denote Unicode scalar values other than zero.\<close>

theorem parse_json_grammar: "parse_json s = Inr node \<longleftrightarrow> json_document s node"
  by (rule parse_json_iff)

end
