(* ===== verification/Json_Construct.thy ===== *)
theory Json_Construct
  imports Json_Grammar
begin

text \<open>
  The constructors of \<open>crates/nomo_wasm/src/json.rs\<close> against the grammar: what they write is a
  document, and it denotes what they were given.
\<close>

section \<open>Strings\<close>

lemma hex_digit_char: "d < 16 \<Longrightarrow> hex_digit (hex_char d) = Some d"
  by (auto simp: hex_digit_def hex_char_def is_ascii_digit_def byte_of_def)

lemma code_unit_lower4: "b < 32 \<Longrightarrow> code_unit (hex_lower4 b) b"
  by (simp add: code_unit_def hex_lower4_def hex_digit_char)

lemma short_escape:
  "c \<in> set [CHR 0x22, CHR 0x5C, CHR 0x08, CHR 0x0C, CHR 0x0A, CHR 0x0D, CHR 0x09] \<Longrightarrow>
   \<exists>e. escape_char [c] = [CHR 0x5C, e] \<and> (e, c) \<in> set short_escapes"
  by (simp, elim disjE; simp add: escape_char_def short_escapes_def)

lemma escape_char_item:
  assumes ch: "ch \<noteq> []" "length ch = utf8_width (hd ch)" and nonzero: "byte_of (hd ch) \<noteq> 0"
  shows "json_item (escape_char ch) ch"
proof -
  obtain c cs where c: "ch = c # cs" using ch(1) by (cases ch) auto
  define short where "short = [CHR 0x22, CHR 0x5C, CHR 0x08, CHR 0x0C, CHR 0x0A, CHR 0x0D, CHR 0x09]"
  show ?thesis
  proof (cases "cs = [] \<and> c \<in> set short")
    case True
    then show ?thesis using short_escape [of c] c json_short unfolding short_def by auto
  next
    case no_short: False
    then have e: "escape_char ch = (if cs = [] \<and> byte_of c \<le> 31
        then [CHR 0x5C, CHR ''u''] @ hex_lower4 (byte_of c) else ch)"
      by (cases cs) (simp_all add: c escape_char_def short_def)
    show ?thesis
    proof (cases "cs = [] \<and> byte_of c \<le> 31")
      case True
      have "json_item (CHR 0x5C # CHR ''u'' # hex_lower4 (byte_of c)) (utf8_encode (byte_of c))"
        using True nonzero c by (intro json_unit code_unit_lower4) simp_all
      moreover have "utf8_encode (byte_of c) = [c]"
        using True by (simp add: utf8_encode_def) (simp add: byte_of_def)
      ultimately show ?thesis using e True c by simp
    next
      case plain: False
      have q: "byte_of CHR 0x22 = 34" "byte_of CHR 0x5C = 92" by (simp_all add: byte_of_def)
      have "31 < byte_of c"
        using plain ch(2) c by (auto simp: utf8_width_def split: if_splits)
      moreover have "c \<noteq> CHR 0x22 \<and> c \<noteq> CHR 0x5C"
      proof (cases "cs = []")
        case False
        then have "192 \<le> byte_of c" using ch(2) c by (auto simp: utf8_width_def split: if_splits)
        then show ?thesis using q by auto
      qed (use no_short in \<open>auto simp: short_def\<close>)
      ultimately have "json_item (c # cs) (c # cs)" using ch(2) c by (intro json_plain) simp_all
      then show ?thesis using e c unfolding if_not_P [OF plain] by simp
    qed
  qed
qed

lemma escape_chars_chars:
  assumes "\<And>ch. ch \<in> set chs \<Longrightarrow> ch \<noteq> [] \<and> length ch = utf8_width (hd ch) \<and> byte_of (hd ch) \<noteq> 0"
  shows "json_chars (concat (map escape_char chs)) (concat chs)"
  using assms by (induction chs) (auto intro: json_chars.intros escape_char_item)

lemma from_string_loop_eq:
  "from_string_loop out chs = Inr res \<Longrightarrow> res = out @ concat (map escape_char chs)"
  by (induction out chs rule: from_string_loop.induct) (auto simp: Let_def split: if_splits)

lemma from_string_text:
  assumes "from_string s = Inr out" "utf8_complete s"
  shows "json_string_text out s" and "length out \<le> MAX_BYTES"
proof -
  have out: "out = CHR 0x22 # concat (map escape_char (chars_of s)) @ [CHR 0x22]" "length out \<le> MAX_BYTES"
      "\<And>c. c \<in> set s \<Longrightarrow> byte_of c \<noteq> 0"
    using assms(1) from_string_loop_eq [of "[CHR 0x22]" "chars_of s"]
    by (auto simp: from_string_def try_bind_Ok_iff Let_def position_None_iff split: option.splits if_splits)
  have "hd ch \<in> set s" if "ch \<in> set (chars_of s)" for ch
  proof -
    have "hd ch \<in> set ch" using chars_of_nonempty [OF that] by simp
    then have "hd ch \<in> set (concat (chars_of s))" using that by auto
    then show ?thesis by (simp only: concat_chars_of)
  qed
  then have "json_chars (concat (map escape_char (chars_of s))) (concat (chars_of s))"
    using assms(2) chars_of_nonempty out(3)
    by (intro escape_chars_chars) (auto simp: utf8_complete_def list_all_iff)
  then show "json_string_text out s" "length out \<le> MAX_BYTES"
    using out(1,2) unfolding concat_chars_of json_string_text_def by blast+
qed

text \<open>C40. String round trip: text that \<open>from_string\<close> encodes is parsed back to exactly the same string,
  as a single value whose source is the encoded text.\<close>

theorem from_string_parse:
  assumes "from_string s = Inr out" "utf8_complete s"
  shows "parse_json out = Inr (JsonNode out (JString s) 0 1)"
proof -
  have "out = [] @ out @ []" by simp
  moreover have "json_value 0 out (JsonNode out (JString s) 0 1)"
    by (rule value_string [OF from_string_text(1) [OF assms]])
  ultimately have "json_document out (JsonNode out (JString s) 0 1)"
    unfolding json_document_def using from_string_text(2) [OF assms]
    by (intro exI [of _ "[]"] exI [of _ out] exI [of _ "JsonNode out (JString s) 0 1"])
      (auto simp: MAX_VALUES_def)
  then show ?thesis by (simp only: parse_json_iff)
qed

definition example_text :: string where
  "example_text = [CHR ''a'', CHR 0x22, CHR 0x1F, CHR 0xC3, CHR 0xA9]"

lemma example_digits: "hex_char 0 = CHR ''0''" "hex_char (Suc 0) = CHR ''1''" "hex_char 15 = CHR ''f''"
  by code_simp+

lemma example_text_encoded:
  "from_string example_text = Inr (CHR 0x22 # CHR ''a'' # CHR 0x5C # CHR 0x22 # CHR 0x5C # ''u001f''
     @ [CHR 0xC3, CHR 0xA9, CHR 0x22])"
  by (simp add: example_text_def from_string_def byte_of_def utf8_width_def escape_char_def
      hex_lower4_def example_digits MAX_BYTES_def Let_def)

theorem from_string_parse_witness:
  "parse_json (CHR 0x22 # CHR ''a'' # CHR 0x5C # CHR 0x22 # CHR 0x5C # ''u001f'' @ [CHR 0xC3, CHR 0xA9, CHR 0x22])
   = Inr (JsonNode (CHR 0x22 # CHR ''a'' # CHR 0x5C # CHR 0x22 # CHR 0x5C # ''u001f'' @ [CHR 0xC3, CHR 0xA9, CHR 0x22])
       (JString example_text) 0 1)"
  by (rule from_string_parse [OF example_text_encoded])
    (simp add: example_text_def utf8_complete_def utf8_width_def byte_of_def)

section \<open>Nesting\<close>

text \<open>The node of a text that is nested \<open>k\<close> levels deeper.\<close>

primrec deepen :: "nat \<Rightarrow> json_node \<Rightarrow> json_node" and deepen_value :: "nat \<Rightarrow> json_node_value \<Rightarrow> json_node_value" where
  "deepen k (JsonNode raw v d n) = JsonNode raw (deepen_value k v)
     (case v of JArray _ \<Rightarrow> d + k | JObject _ \<Rightarrow> d + k | _ \<Rightarrow> d) n"
| "deepen_value k JNull = JNull"
| "deepen_value k (JBoolean b) = JBoolean b"
| "deepen_value k (JNumber s) = JNumber s"
| "deepen_value k (JString s) = JString s"
| "deepen_value k (JArray nodes) = JArray (map (deepen k) nodes)"
| "deepen_value k (JObject members) = JObject (map (map_prod id (deepen k)) members)"

lemma deepen_simps [simp]: "node_raw (deepen k n) = node_raw n" "node_values (deepen k n) = node_values n"
  by (cases n; simp)+

lemma total_values_deepen [simp]: "total_values (map (deepen k) ns) = total_values ns"
  by (simp add: total_values_def comp_def)

lemma deepest_le_iff: "deepest m ns \<le> k \<longleftrightarrow> m \<le> k \<and> list_all (\<lambda>n. node_max_depth n \<le> k) ns"
  by (induction ns arbitrary: m) (auto simp: deepest_Cons)

text \<open>Containers of a text that is nested \<open>d\<close> deep have a depth above \<open>d\<close>, scalars depth 0.\<close>

lemma deepest_shift:
  assumes "list_all (\<lambda>n. node_max_depth (deepen k n) = node_max_depth n + k
      \<or> node_max_depth (deepen k n) = 0 \<and> node_max_depth n = 0) ns"
  shows "deepest (m + k) (map (deepen k) ns) = deepest m ns + k"
  using assms
proof (induction ns arbitrary: m)
  case (Cons n ns)
  have "max (m + k) (node_max_depth (deepen k n)) = max m (node_max_depth n) + k"
    using Cons.prems by auto
  then show ?case using Cons by (simp add: deepest_Cons)
qed simp

lemma scalar_depth: "json_value d t n \<Longrightarrow> node_max_depth (deepen k n) = node_max_depth n + k
    \<or> node_max_depth (deepen k n) = 0 \<and> node_max_depth n = 0"
  by (cases rule: json_value.cases) auto

lemma container_values:
  "json_value d t n \<Longrightarrow> True"
  "json_items d b ns \<Longrightarrow> list_all (\<lambda>n. \<exists>t. json_value d t n) ns"
  "json_members d b ms \<Longrightarrow> list_all (\<lambda>n. \<exists>t. json_value d t n) (map snd ms)"
  by (induction rule: json_value_json_items_json_members.inducts) auto

lemma deepest_items: "list_all (\<lambda>n. \<exists>t. json_value d t n) ns
    \<Longrightarrow> deepest (m + k) (map (deepen k) ns) = deepest m ns + k"
  by (rule deepest_shift) (auto simp: list_all_iff dest: scalar_depth [of d _ _ k])

lemma map_snd_deepen: "map snd (map (map_prod id (deepen k)) ms) = map (deepen k) (map snd ms)"
  by simp

lemmas grammar_intros = json_value_json_items_json_members.intros [simplified]

lemma json_value_deepen:
  "json_value d t n \<Longrightarrow> json_value (d + k) t (deepen k n)"
  "json_items d b ns \<Longrightarrow> json_items (d + k) b (map (deepen k) ns)"
  "json_members d b ms \<Longrightarrow> json_members (d + k) b (map (map_prod id (deepen k)) ms)"
proof (induction rule: json_value_json_items_json_members.inducts)
  case (value_array d b ns t)
  have "deepest (Suc d + k) (map (deepen k) ns) = deepest (Suc d) ns + k"
    by (rule deepest_items [OF container_values(2) [OF value_array(1)]])
  then show ?case
    using json_value_json_items_json_members.value_array [of "d + k" b "map (deepen k) ns" t] value_array by simp
next
  case (value_object d b ms t)
  have "deepest (Suc d + k) (map (deepen k) (map snd ms)) = deepest (Suc d) (map snd ms) + k"
    by (rule deepest_items [OF container_values(3) [OF value_object(1)]])
  then show ?case
    using json_value_json_items_json_members.value_object [of "d + k" b "map (map_prod id (deepen k)) ms" t]
      value_object total_values_deepen [of k "map snd ms"] by (simp add: comp_def id_def)
qed (auto simp: id_def intro: grammar_intros)

section \<open>Surrounding white space\<close>

lemma json_digits_last: "json_digits ds \<Longrightarrow> is_ascii_digit (last ds)"
  by (simp add: json_digits_def)

lemma json_number_last: "is_json_number t \<Longrightarrow> is_ascii_digit (last t)"
proof -
  have u: "is_ascii_digit (last t) \<and> t \<noteq> []" if unsigned: "json_unsigned t" for t
  proof -
    obtain int frac ex where t: "t = int @ frac @ ex" "json_digits int" "json_fraction frac" "json_exponent ex"
      using unsigned unfolding json_unsigned_def by blast
    have "int \<noteq> []" using t(2) by (simp add: json_digits_def)
    moreover have "frac \<noteq> [] \<Longrightarrow> is_ascii_digit (last frac)"
      using t(3) by (auto simp: json_fraction_def json_digits_def)
    moreover have "ex \<noteq> [] \<Longrightarrow> is_ascii_digit (last ex)"
      using t(4) by (auto simp: json_exponent_def json_digits_def)
    ultimately show ?thesis using json_digits_last [OF t(2)] by (simp add: t(1) last_append)
  qed
  then show "is_json_number t \<Longrightarrow> ?thesis" by (auto simp: is_json_number_def dest: u)
qed

lemma value_last: "json_value d t n \<Longrightarrow> t \<noteq> [] \<and> \<not> is_json_whitespace (last t)"
proof (induction rule: json_value.cases)
  case (value_number t d)
  have "\<not> is_json_whitespace (last t)" using digit_starts json_number_last [OF value_number(4)] by blast
  moreover have "t \<noteq> []" using number_start [OF value_number(4)] by blast
  ultimately show ?case using value_number by simp
qed (auto simp: is_json_whitespace_def json_string_text_def)

lemma dropWhile_ws: "json_ws w \<Longrightarrow> t \<noteq> [] \<Longrightarrow> \<not> is_json_whitespace (hd t)
    \<Longrightarrow> dropWhile is_json_whitespace (w @ t) = t"
  by (induction w) (auto simp: json_ws_def dropWhile_eq_self_iff)

lemma trim_document:
  assumes "json_ws w" "json_ws w'" "json_value d t n"
  shows "trim_whitespace (w @ t @ w') = t"
proof -
  have t: "t \<noteq> []" "\<not> is_json_whitespace (hd t)" "\<not> is_json_whitespace (last t)"
    using value_starts [OF assms(3)] value_last [OF assms(3)] by (auto simp: starts_value_def)
  have "dropWhile is_json_whitespace (w @ t @ w') = t @ w'"
    using t assms(1) by (intro dropWhile_ws) simp_all
  moreover have "dropWhile is_json_whitespace (rev w' @ rev t) = rev t"
    using t assms(2) by (intro dropWhile_ws) (simp_all add: json_ws_def list_all_rev hd_rev)
  ultimately show ?thesis by (simp add: trim_whitespace_def)
qed

lemma value_raw: "json_value d t n \<Longrightarrow> node_raw n = t"
  by (cases rule: json_value.cases) auto

lemma value_counts: "json_value d t n \<Longrightarrow> 0 < node_values n"
  by (cases rule: json_value.cases) auto

text \<open>The node that a text given to \<open>from_array\<close> or \<open>from_object\<close> contributes.\<close>

definition parsed_element :: "string \<Rightarrow> json_node option" where
  "parsed_element raw = (case parse_json raw of
       Inl _ \<Rightarrow> None
     | Inr node \<Rightarrow> Some (JsonNode (trim_whitespace raw) (node_value node) (node_max_depth node) (node_values node)))"

lemma parsed_elementD:
  assumes "parse_json raw = Inr node"
  obtains n where "parsed_element raw = Some n" "json_value 0 (node_raw n) n" "node_raw n = trim_whitespace raw"
    "node_values node = node_values n" "node_max_depth node = node_max_depth n"
proof -
  obtain w t w' n where d: "raw = w @ t @ w'" "json_ws w" "json_ws w'" "json_value 0 t n"
      "node = JsonNode raw (node_value n) (node_max_depth n) (node_values n)"
    using assms unfolding parse_json_iff json_document_def by blast
  have "trim_whitespace raw = t" unfolding d(1) by (rule trim_document [OF d(2-4)])
  moreover have "n = JsonNode t (node_value n) (node_max_depth n) (node_values n)"
    using value_raw [OF d(4)] by (cases n) simp
  ultimately show thesis
    using that [of n] assms d value_raw [OF d(4)] by (simp add: parsed_element_def)
qed

section \<open>Arrays\<close>

lemma add_child_Ok: "add_child node k (tv, md, ts) = Inr (tv', md', ts') \<longleftrightarrow>
    tv' = tv + node_values node \<and> md' = max md (node_max_depth node) \<and> ts' = ts + k
    \<and> tv' \<le> MAX_VALUES \<and> ts' \<le> MAX_BYTES"
  by (auto simp: add_child_def Let_def)

lemma add_child_Err: "add_child node k totals = Inl e \<Longrightarrow> e = json_error ''limit'' 0"
  by (auto simp: add_child_def Let_def split: prod.splits if_splits)

definition commas :: "nat \<Rightarrow> 'a list \<Rightarrow> nat" where
  "commas index xs = (if index = 0 then length xs - 1 else length xs)"

lemma commas_Cons: "commas index (x # xs) = (if 0 < index then 1 else 0) + commas (Suc index) xs"
  by (simp add: commas_def)

lemma array_loop_Ok:
  "array_loop index raws (tv, md, ts) = Inr ((tv', md', ts'), trimmed) \<Longrightarrow>
   \<exists>ns. map parsed_element raws = map Some ns \<and> trimmed = map node_raw ns
     \<and> list_all (\<lambda>n. json_value 0 (node_raw n) n) ns
     \<and> tv' = tv + total_values ns \<and> md' = deepest md ns
     \<and> ts' = ts + length (concat trimmed) + commas index ns
     \<and> (tv \<le> MAX_VALUES \<longrightarrow> tv' \<le> MAX_VALUES) \<and> (ts \<le> MAX_BYTES \<longrightarrow> ts' \<le> MAX_BYTES)"
proof (induction raws arbitrary: index tv md ts trimmed)
  case Nil
  then show ?case by (auto simp: commas_def)
next
  case (Cons raw raws)
  obtain node tv1 md1 ts1 rest where n: "parse_json raw = Inr node"
      "add_child node (length (trim_whitespace raw) + (if 0 < index then 1 else 0)) (tv, md, ts) = Inr (tv1, md1, ts1)"
      "array_loop (Suc index) raws (tv1, md1, ts1) = Inr ((tv', md', ts'), rest)"
      "trimmed = trim_whitespace raw # rest"
    using Cons.prems by (auto simp: try_bind_Ok_iff map_ok_Ok_iff Let_def)
  obtain n where e: "parsed_element raw = Some n" "json_value 0 (node_raw n) n" "node_raw n = trim_whitespace raw"
      "node_values node = node_values n" "node_max_depth node = node_max_depth n"
    using n(1) by (rule parsed_elementD)
  obtain ns where "map parsed_element raws = map Some ns" "rest = map node_raw ns"
      "list_all (\<lambda>n. json_value 0 (node_raw n) n) ns" "tv' = tv1 + total_values ns" "md' = deepest md1 ns"
      "ts' = ts1 + length (concat rest) + commas (Suc index) ns"
      "tv1 \<le> MAX_VALUES \<longrightarrow> tv' \<le> MAX_VALUES" "ts1 \<le> MAX_BYTES \<longrightarrow> ts' \<le> MAX_BYTES"
    using Cons.IH [OF n(3)] by blast
  then show ?case
    using e n(2,4) unfolding add_child_Ok
    by (intro exI [of _ "n # ns"]) (simp add: commas_Cons deepest_Cons)
qed

lemma array_loop_Err:
  "array_loop index raws totals = Inl e \<Longrightarrow> Inl e \<in> set (map parse_json raws) \<or> e = json_error ''limit'' 0"
proof (induction index raws totals rule: array_loop.induct)
  case (2 index raw raws totals)
  show ?case
  proof (cases "parse_json raw")
    case (Inr node)
    let ?add = "add_child node (length (trim_whitespace raw) + (if 0 < index then 1 else 0)) totals"
    show ?thesis
    proof (cases ?add)
      case (Inl e')
      then show ?thesis using 2(2) Inr add_child_Err [OF Inl] by (simp add: Let_def)
    next
      case add: (Inr totals')
      then have "array_loop (Suc index) raws totals' = Inl e"
        using 2(2) Inr by (cases "array_loop (Suc index) raws totals'") (auto simp: Let_def)
      then show ?thesis using 2(1) [OF Inr refl add] by auto
    qed
  qed (use 2(2) in simp)
qed simp

lemma length_join_with: "length (join_with c ss) = length (concat ss) + (length ss - 1)"
  by (induction c ss rule: join_with.induct) auto

lemma join_items:
  "ns \<noteq> [] \<Longrightarrow> list_all (\<lambda>n. json_value d (node_raw n) n) ns \<Longrightarrow> json_items d (join_with CHR '','' (map node_raw ns)) ns"
proof (induction ns)
  case (Cons n ns)
  then show ?case
    using items_one [OF json_ws_Nil _ json_ws_Nil, of d "node_raw n" n]
      items_more [OF json_ws_Nil _ json_ws_Nil, of d "node_raw n" n _ ns]
    by (cases ns) auto
qed simp

lemma list_all_deepen:
  "list_all (\<lambda>n. json_value d (node_raw n) n) ns \<Longrightarrow>
   list_all (\<lambda>n. json_value (d + k) (node_raw n) n) (map (deepen k) ns)"
  by (auto simp: list_all_iff dest: json_value_deepen(1))

lemma array_value:
  assumes "list_all (\<lambda>n. json_value 0 (node_raw n) n) ns" "out = ''['' @ join_with CHR '','' (map node_raw ns) @ '']''"
  shows "json_value 0 out (JsonNode out (JArray (map (deepen 1) ns)) (deepest 0 ns + 1) (Suc (total_values ns)))"
proof (cases "ns = []")
  case True
  then show ?thesis using value_empty_array [OF json_ws_Nil, of out 0] assms(2) by simp
next
  case False
  have "list_all (\<lambda>n. json_value 1 (node_raw n) n) (map (deepen 1) ns)"
    using list_all_deepen [OF assms(1), of 1] by simp
  then have "json_items 1 (join_with CHR '','' (map node_raw (map (deepen 1) ns))) (map (deepen 1) ns)"
    using False by (intro join_items) simp_all
  then have "json_value 0 out (JsonNode out (JArray (map (deepen 1) ns)) (deepest (Suc 0) (map (deepen 1) ns))
      (Suc (total_values (map (deepen 1) ns))))"
    using assms(2) by (intro value_array) (simp_all add: comp_def)
  moreover have "deepest (0 + 1) (map (deepen 1) ns) = deepest 0 ns + 1"
    using assms(1) by (intro deepest_items [of 0]) (auto simp: list_all_iff)
  ultimately show ?thesis by simp
qed

lemma value_document:
  assumes "json_value 0 out n" "length out \<le> MAX_BYTES" "node_max_depth n \<le> MAX_DEPTH" "node_values n \<le> MAX_VALUES"
  shows "parse_json out = Inr n"
proof -
  have "out = [] @ out @ []" by simp
  moreover have "n = JsonNode out (node_value n) (node_max_depth n) (node_values n)"
    using value_raw [OF assms(1)] by (cases n) simp
  ultimately show ?thesis
    unfolding parse_json_iff json_document_def using assms json_ws_Nil by blast
qed

text \<open>\<open>from_array\<close> writes JSON: its output is accepted by \<open>parse\<close> as an array whose elements, in
  order, are the values of the given texts, each nested one level deeper and with its own trimmed text
  as source. When it fails, the error is that of a text that does not parse or the limit.\<close>

theorem from_array_parse:
  "case from_array raws of
     Inr out \<Rightarrow> \<exists>ns. map parsed_element raws = map Some ns
       \<and> parse_json out = Inr (JsonNode out (JArray (map (deepen 1) ns)) (deepest 0 ns + 1) (Suc (total_values ns)))
   | Inl e \<Rightarrow> Inl e \<in> set (map parse_json raws) \<or> e = json_error ''limit'' 0"
proof (cases "from_array raws")
  case (Inl e)
  then show ?thesis
    using array_loop_Err by (fastforce simp: from_array_def try_bind_Err_iff split: if_splits)
next
  case (Inr out)
  obtain tv' md' ts' trimmed where a: "array_loop 0 raws (1, 0, 2) = Inr ((tv', md', ts'), trimmed)"
      "md' + 1 \<le> MAX_DEPTH" "out = ''['' @ join_with CHR '','' trimmed @ '']''"
    using Inr by (auto simp: from_array_def try_bind_Ok_iff split: if_splits)
  obtain ns where ns: "map parsed_element raws = map Some ns" "trimmed = map node_raw ns"
      "list_all (\<lambda>n. json_value 0 (node_raw n) n) ns" "tv' = 1 + total_values ns" "md' = deepest 0 ns"
      "ts' = 2 + length (concat trimmed) + commas 0 ns"
      "1 \<le> MAX_VALUES \<longrightarrow> tv' \<le> MAX_VALUES" "2 \<le> MAX_BYTES \<longrightarrow> ts' \<le> MAX_BYTES"
    using array_loop_Ok [OF a(1)] by blast
  have "length out \<le> MAX_BYTES"
    using ns(2,6,8) by (simp add: a(3) length_join_with commas_def MAX_BYTES_def)
  then have "parse_json out = Inr (JsonNode out (JArray (map (deepen 1) ns)) (deepest 0 ns + 1) (Suc (total_values ns)))"
    using array_value [OF ns(3)] a(2,3) ns(2,4,5,7) by (intro value_document) (simp_all add: MAX_VALUES_def)
  then show ?thesis using ns(1) Inr by auto
qed

section \<open>Objects\<close>

definition member_text :: "string \<times> string \<Rightarrow> string" where
  "member_text m = fst m @ '':'' @ snd m"

lemma member_text_eq: "(\<lambda>(key, raw). key @ '':'' @ raw) = member_text"
  by (auto simp: member_text_def)

lemma object_loop_Ok:
  "object_loop index pairs (tv, md, ts) = Inr ((tv', md', ts'), encoded) \<Longrightarrow>
   list_all (\<lambda>(key, raw). utf8_complete key) pairs \<Longrightarrow>
   \<exists>ns. map (\<lambda>(key, raw). parsed_element raw) pairs = map Some ns
     \<and> map snd encoded = map node_raw ns
     \<and> list_all2 json_string_text (map fst encoded) (map fst pairs)
     \<and> list_all (\<lambda>n. json_value 0 (node_raw n) n) ns
     \<and> tv' = tv + total_values ns \<and> md' = deepest md ns
     \<and> ts' = ts + length (concat (map member_text encoded)) + commas index ns
     \<and> (tv \<le> MAX_VALUES \<longrightarrow> tv' \<le> MAX_VALUES) \<and> (ts \<le> MAX_BYTES \<longrightarrow> ts' \<le> MAX_BYTES)"
proof (induction pairs arbitrary: index tv md ts encoded)
  case Nil
  then show ?case by (auto simp: commas_def)
next
  case (Cons m pairs)
  obtain key raw where m: "m = (key, raw)" by fastforce
  obtain k node tv1 md1 ts1 rest where n: "from_string key = Inr k" "parse_json raw = Inr node"
      "add_child node (length k + 1 + length (trim_whitespace raw) + (if 0 < index then 1 else 0)) (tv, md, ts)
        = Inr (tv1, md1, ts1)"
      "object_loop (Suc index) pairs (tv1, md1, ts1) = Inr ((tv', md', ts'), rest)"
      "encoded = (k, trim_whitespace raw) # rest"
    using Cons.prems(1) m by (auto simp: try_bind_Ok_iff map_ok_Ok_iff Let_def)
  have k: "json_string_text k key" using from_string_text(1) [OF n(1)] Cons.prems(2) m by simp
  obtain n where e: "parsed_element raw = Some n" "json_value 0 (node_raw n) n" "node_raw n = trim_whitespace raw"
      "node_values node = node_values n" "node_max_depth node = node_max_depth n"
    using n(2) by (rule parsed_elementD)
  obtain ns where "map (\<lambda>(key, raw). parsed_element raw) pairs = map Some ns" "map snd rest = map node_raw ns"
      "list_all2 json_string_text (map fst rest) (map fst pairs)"
      "list_all (\<lambda>n. json_value 0 (node_raw n) n) ns" "tv' = tv1 + total_values ns" "md' = deepest md1 ns"
      "ts' = ts1 + length (concat (map member_text rest)) + commas (Suc index) ns"
      "tv1 \<le> MAX_VALUES \<longrightarrow> tv' \<le> MAX_VALUES" "ts1 \<le> MAX_BYTES \<longrightarrow> ts' \<le> MAX_BYTES"
    using Cons.IH [OF n(4)] Cons.prems(2) by auto
  then show ?case
    using e k m n(3,5) unfolding add_child_Ok
    by (intro exI [of _ "n # ns"]) (simp add: commas_Cons deepest_Cons member_text_def [of "(k, trim_whitespace raw)"])
qed

lemma join_members:
  "encoded \<noteq> [] \<Longrightarrow> list_all2 json_string_text (map fst encoded) keys \<Longrightarrow>
   list_all2 (json_value d) (map snd encoded) ns \<Longrightarrow>
   json_members d (join_with CHR '','' (map member_text encoded)) (zip keys ns)"
proof (induction encoded arbitrary: keys ns)
  case (Cons e encoded)
  obtain key keys' n ns' where kn: "keys = key # keys'" "ns = n # ns'" "json_string_text (fst e) key"
      "json_value d (snd e) n" "list_all2 json_string_text (map fst encoded) keys'"
      "list_all2 (json_value d) (map snd encoded) ns'"
    using Cons.prems(2,3) by (auto simp: list_all2_Cons1)
  show ?case
  proof (cases encoded)
    case Nil
    then show ?thesis
      using kn members_one [OF json_ws_Nil kn(3) json_ws_Nil json_ws_Nil kn(4) json_ws_Nil]
      by (simp add: member_text_def)
  next
    case (Cons e' rest)
    then have "json_members d (join_with CHR '','' (map member_text encoded)) (zip keys' ns')"
      using kn by (intro Cons.IH) simp_all
    from members_more [OF json_ws_Nil kn(3) json_ws_Nil json_ws_Nil kn(4) json_ws_Nil this] show ?thesis
      unfolding Cons kn(1,2) by (simp add: member_text_def [of e])
  qed
qed simp

lemma object_value:
  assumes "list_all (\<lambda>n. json_value 0 (node_raw n) n) ns" "map snd encoded = map node_raw ns"
    and "list_all2 json_string_text (map fst encoded) keys"
    and "out = ''{'' @ join_with CHR '','' (map member_text encoded) @ ''}''"
  shows "json_value 0 out (JsonNode out (JObject (zip keys (map (deepen 1) ns))) (deepest 0 ns + 1)
    (Suc (total_values ns)))"
proof -
  have len: "length keys = length ns"
    using assms(2,3) by (metis length_map list_all2_lengthD)
  show ?thesis
  proof (cases "ns = []")
    case True
    then show ?thesis using value_empty_object [OF json_ws_Nil, of out 0] assms(2,4) len by simp
  next
    case False
    have "list_all2 (json_value 1) (map node_raw ns) (map (deepen 1) ns)"
      using assms(1) json_value_deepen(1) [of 0 _ _ 1] by (auto simp: list_all2_map1 list_all2_map2 list_all2_same list_all_iff)
    then have "json_members 1 (join_with CHR '','' (map member_text encoded)) (zip keys (map (deepen 1) ns))"
      using False assms(2) by (intro join_members assms(3)) auto
    then have "json_value 0 out (JsonNode out (JObject (zip keys (map (deepen 1) ns)))
        (deepest (Suc 0) (map snd (zip keys (map (deepen 1) ns))))
        (Suc (total_values (map snd (zip keys (map (deepen 1) ns))))))"
      using assms(4) by (intro value_object) simp_all
    moreover have "map snd (zip keys (map (deepen 1) ns)) = map (deepen 1) ns"
      using len by (simp add: map_snd_zip)
    moreover have "deepest (0 + 1) (map (deepen 1) ns) = deepest 0 ns + 1"
      using assms(1) by (intro deepest_items [of 0]) (auto simp: list_all_iff)
    ultimately show ?thesis by simp
  qed
qed

lemma from_object_node:
  assumes "from_object pairs = Inr out" "list_all (\<lambda>(key, raw). utf8_complete key) pairs"
  shows "\<exists>ns. map (\<lambda>(key, raw). parsed_element raw) pairs = map Some ns
    \<and> parse_json out = Inr (JsonNode out (JObject (zip (map fst pairs) (map (deepen 1) ns)))
        (deepest 0 ns + 1) (Suc (total_values ns)))"
proof -
  obtain tv' md' ts' encoded where a: "object_loop 0 pairs (1, 0, 2) = Inr ((tv', md', ts'), encoded)"
      "md' + 1 \<le> MAX_DEPTH" "out = ''{'' @ join_with CHR '','' (map member_text encoded) @ ''}''"
    using assms(1) by (auto simp: from_object_def try_bind_Ok_iff member_text_eq [simplified] split: if_splits)
  obtain ns where ns: "map (\<lambda>(key, raw). parsed_element raw) pairs = map Some ns"
      "map snd encoded = map node_raw ns" "list_all2 json_string_text (map fst encoded) (map fst pairs)"
      "list_all (\<lambda>n. json_value 0 (node_raw n) n) ns" "tv' = 1 + total_values ns" "md' = deepest 0 ns"
      "ts' = 2 + length (concat (map member_text encoded)) + commas 0 ns"
      "1 \<le> MAX_VALUES \<longrightarrow> tv' \<le> MAX_VALUES" "2 \<le> MAX_BYTES \<longrightarrow> ts' \<le> MAX_BYTES"
    using object_loop_Ok [OF a(1) assms(2)] by blast
  have "length encoded = length ns" using ns(2) by (metis length_map)
  then have "length out \<le> MAX_BYTES"
    using ns(7,9) by (simp add: a(3) length_join_with commas_def MAX_BYTES_def)
  then have "parse_json out = Inr (JsonNode out (JObject (zip (map fst pairs) (map (deepen 1) ns)))
        (deepest 0 ns + 1) (Suc (total_values ns)))"
    using object_value [OF ns(4,2,3) a(3)] a(2) ns(5,6,8) by (intro value_document) (simp_all add: MAX_VALUES_def)
  then show ?thesis using ns(1) by blast
qed

text \<open>C30. \<open>from_object\<close> writes JSON: its output is accepted by \<open>parse\<close> as an object with the given keys
  in the given order, duplicates kept, each with the value of its text, nested one level deeper.\<close>

theorem from_object_parse:
  assumes "from_object pairs = Inr out" "list_all (\<lambda>(key, raw). utf8_complete key) pairs"
  shows "\<exists>ns. map (\<lambda>(key, raw). parsed_element raw) pairs = map Some ns
    \<and> parse_json out = Inr (JsonNode out (JObject (zip (map fst pairs) (map (deepen 1) ns)))
        (deepest 0 ns + 1) (Suc (total_values ns)))"
  by (rule from_object_node [OF assms])

lemma example_number: "is_json_number ''1''"
proof -
  have "json_digits ''1''" by (simp add: json_digits_def is_ascii_digit_def byte_of_def)
  moreover have "json_fraction []" "json_exponent []" by (simp_all add: json_fraction_def json_exponent_def)
  ultimately have "json_unsigned ''1''"
    unfolding json_unsigned_def by (intro exI [of _ "''1''"] exI [of _ "[]"]) simp
  then show ?thesis by (simp add: is_json_number_def)
qed

lemma example_element: "parse_json '' 1'' = Inr (JsonNode '' 1'' (JNumber ''1'') 0 1)"
proof -
  have "json_ws '' ''" "json_ws []" by (simp_all add: json_ws_def is_json_whitespace_def)
  then show ?thesis
    unfolding parse_json_iff json_document_def
    using value_number [OF example_number, of 0]
    by (intro exI [of _ "'' ''"] exI [of _ "''1''"] exI [of _ "[]"] exI [of _ "JsonNode ''1'' (JNumber ''1'') 0 1"])
      (simp add: MAX_BYTES_def MAX_VALUES_def)
qed

lemma example_object: "from_object [(''id'', '' 1'')] = Inr (''{'' @ [CHR 0x22] @ ''id'' @ [CHR 0x22] @ '':1}'')"
proof -
  have "from_string ''id'' = Inr ([CHR 0x22] @ ''id'' @ [CHR 0x22])"
    by (simp add: from_string_def byte_of_def utf8_width_def escape_char_def MAX_BYTES_def)
  moreover have "trim_whitespace '' 1'' = ''1''" by (simp add: trim_whitespace_def is_json_whitespace_def)
  ultimately show ?thesis
    using example_element
    by (simp add: from_object_def Let_def add_child_def MAX_VALUES_def MAX_BYTES_def MAX_DEPTH_def)
qed

theorem from_object_parse_witness:
  "\<exists>ns. map (\<lambda>(key, raw). parsed_element raw) [(''id'', '' 1'')] = map Some ns
    \<and> parse_json (''{'' @ [CHR 0x22] @ ''id'' @ [CHR 0x22] @ '':1}'')
      = Inr (JsonNode (''{'' @ [CHR 0x22] @ ''id'' @ [CHR 0x22] @ '':1}'')
        (JObject (zip (map fst [(''id'', '' 1'')]) (map (deepen 1) ns)))
        (deepest 0 ns + 1) (Suc (total_values ns)))"
  by (rule from_object_parse [OF example_object])
    (simp add: utf8_complete_def utf8_width_def byte_of_def)

end
