(* ===== verification/Json_Rpc.thy ===== *)
theory Json_Rpc
  imports Json_Construct
begin

text \<open>
  The JSON-RPC 2.0 framing and envelopes of \<open>crates/nomo_wasm/src/jsonrpc.rs\<close>: the incremental line
  decoder, the encoder, the message constructors and the envelope validation. A \<open>&str\<close> is its list of
  UTF-8 bytes, a byte count a \<open>nat\<close>; an error code is an \<open>i64\<close> word.
\<close>

section \<open>Errors and state\<close>

definition MAX_MESSAGE_BYTES :: nat where "MAX_MESSAGE_BYTES = 1048575"
definition MAX_CHUNK_BYTES :: nat where "MAX_CHUNK_BYTES = 1048576"
definition MAX_COMBINED_BYTES :: nat where "MAX_COMBINED_BYTES = 2097151"
definition MAX_BATCH_MESSAGES :: nat where "MAX_BATCH_MESSAGES = 4096"

datatype message_kind =
    Request
  | Notification
  | Success
  | ErrorResponse

record protocol_error =
  pe_code :: string
  pe_message :: string

definition protocol_error :: "string \<Rightarrow> protocol_error" where
  "protocol_error code = \<lparr>pe_code = code,
     pe_message =
       (if code = ''limit'' then ''JSON-RPC limit exceeded''
        else if code = ''framing'' then ''invalid JSON-RPC newline framing''
        else if code = ''json'' then ''invalid bounded JSON input''
        else if code = ''protocol'' then ''invalid JSON-RPC 2.0 envelope''
        else ''invalid JSON-RPC argument'')\<rparr>"

record decoder =
  dec_pending :: string
  dec_limit :: nat

record decode_batch =
  batch_decoder :: decoder
  batch_messages :: "string list"

definition newline :: char where "newline = CHR 0x0A"
definition carriage_return :: char where "carriage_return = CHR 0x0D"

definition map_json_error :: "json_error \<Rightarrow> protocol_error" where
  "map_json_error e = protocol_error (if je_code e = ''limit'' then ''limit'' else ''json'')"

definition valid_limit :: "nat \<Rightarrow> bool" where
  "valid_limit limit \<longleftrightarrow> 1 \<le> limit \<and> limit \<le> MAX_MESSAGE_BYTES"

definition checked_limit :: "nat \<Rightarrow> protocol_error + nat" where
  "checked_limit limit = (if valid_limit limit then Ok limit else Err (protocol_error ''invalid_request''))"

section \<open>Envelopes\<close>

fun request_id :: "json_node_value \<Rightarrow> bool" where
  "request_id (JString _) = True"
| "request_id (JNumber _) = True"
| "request_id _ = False"

definition response_id :: "json_node_value \<Rightarrow> bool" where
  "response_id v \<longleftrightarrow> request_id v \<or> v = JNull"

fun structured :: "json_node_value \<Rightarrow> bool" where
  "structured (JObject _) = True"
| "structured (JArray _) = True"
| "structured _ = False"

text \<open>The slots that the loops of \<open>validate_envelope\<close> and \<open>validate_error\<close> fill.\<close>

record envelope =
  env_version :: "json_node option"
  env_method :: "json_node option"
  env_id :: "json_node option"
  env_params :: "json_node option"
  env_result :: "json_node option"
  env_error :: "json_node option"

definition empty_envelope :: envelope where
  "empty_envelope = \<lparr>env_version = None, env_method = None, env_id = None, env_params = None,
     env_result = None, env_error = None\<rparr>"

definition replace_slot :: "json_node option \<Rightarrow> 'a \<Rightarrow> protocol_error + 'a" where
  "replace_slot old filled = (if old \<noteq> None then Err (protocol_error ''protocol'') else Ok filled)"

definition envelope_slot :: "string \<Rightarrow> json_node \<Rightarrow> envelope \<Rightarrow> protocol_error + envelope" where
  "envelope_slot key v e =
     (if key = ''jsonrpc'' then replace_slot (env_version e) (e\<lparr>env_version := Some v\<rparr>)
      else if key = ''method'' then replace_slot (env_method e) (e\<lparr>env_method := Some v\<rparr>)
      else if key = ''id'' then replace_slot (env_id e) (e\<lparr>env_id := Some v\<rparr>)
      else if key = ''params'' then replace_slot (env_params e) (e\<lparr>env_params := Some v\<rparr>)
      else if key = ''result'' then replace_slot (env_result e) (e\<lparr>env_result := Some v\<rparr>)
      else if key = ''error'' then replace_slot (env_error e) (e\<lparr>env_error := Some v\<rparr>)
      else Ok e)"

fun envelope_loop :: "(string \<times> json_node) list \<Rightarrow> envelope \<Rightarrow> protocol_error + envelope" where
  "envelope_loop [] e = Ok e"
| "envelope_loop ((key, v) # members) e = try_bind (envelope_slot key v e) (envelope_loop members)"

record error_slots =
  err_code :: "json_node option"
  err_message :: "json_node option"
  err_data :: "json_node option"

definition empty_error_slots :: error_slots where
  "empty_error_slots = \<lparr>err_code = None, err_message = None, err_data = None\<rparr>"

definition error_slot :: "string \<Rightarrow> json_node \<Rightarrow> error_slots \<Rightarrow> protocol_error + error_slots" where
  "error_slot key v e =
     (if key = ''code'' then replace_slot (err_code e) (e\<lparr>err_code := Some v\<rparr>)
      else if key = ''message'' then replace_slot (err_message e) (e\<lparr>err_message := Some v\<rparr>)
      else if key = ''data'' then replace_slot (err_data e) (e\<lparr>err_data := Some v\<rparr>)
      else Ok e)"

fun error_loop :: "(string \<times> json_node) list \<Rightarrow> error_slots \<Rightarrow> protocol_error + error_slots" where
  "error_loop [] e = Ok e"
| "error_loop ((key, v) # members) e = try_bind (error_slot key v e) (error_loop members)"

definition is_error_code :: "json_node option \<Rightarrow> bool" where
  "is_error_code slot = (case slot of
       Some node \<Rightarrow> (case node_value node of JNumber text \<Rightarrow> parse_i64 text \<noteq> None | _ \<Rightarrow> False)
     | None \<Rightarrow> False)"

fun is_string :: "json_node_value \<Rightarrow> bool" where
  "is_string (JString _) = True"
| "is_string _ = False"

definition is_string_slot :: "json_node option \<Rightarrow> bool" where
  "is_string_slot slot = (case slot of Some node \<Rightarrow> is_string (node_value node) | None \<Rightarrow> False)"

definition validate_error :: "json_node_value \<Rightarrow> protocol_error + unit" where
  "validate_error v = (case v of
       JObject members \<Rightarrow> try_bind (error_loop members empty_error_slots) (\<lambda>e.
         if \<not> is_error_code (err_code e) \<or> \<not> is_string_slot (err_message e)
         then Err (protocol_error ''protocol'') else Ok ())
     | _ \<Rightarrow> Err (protocol_error ''protocol''))"

definition is_version :: "json_node option \<Rightarrow> bool" where
  "is_version slot = (case slot of Some node \<Rightarrow> node_value node = JString ''2.0'' | None \<Rightarrow> False)"

text \<open>\<open>validate_envelope\<close> after its loop.\<close>

definition envelope_kind :: "envelope \<Rightarrow> protocol_error + message_kind" where
  "envelope_kind e =
     (if \<not> is_version (env_version e) then Err (protocol_error ''protocol'')
      else case env_method e of
        Some m \<Rightarrow>
          if \<not> is_string (node_value m) \<or> env_result e \<noteq> None \<or> env_error e \<noteq> None
             \<or> (case env_params e of None \<Rightarrow> False | Some v \<Rightarrow> \<not> structured (node_value v))
          then Err (protocol_error ''protocol'')
          else (case env_id e of
              None \<Rightarrow> Ok Notification
            | Some i \<Rightarrow> if request_id (node_value i) then Ok Request else Err (protocol_error ''protocol''))
      | None \<Rightarrow>
          if env_params e \<noteq> None \<or> env_id e = None \<or> (env_result e \<noteq> None) = (env_error e \<noteq> None)
          then Err (protocol_error ''protocol'')
          else if \<not> response_id (node_value (the (env_id e))) then Err (protocol_error ''protocol'')
          else (case env_error e of
              Some err \<Rightarrow> try_bind (validate_error (node_value err)) (\<lambda>_. Ok ErrorResponse)
            | None \<Rightarrow> Ok Success))"

definition validate_envelope :: "json_node \<Rightarrow> protocol_error + message_kind" where
  "validate_envelope node = (case node_value node of
       JObject members \<Rightarrow> try_bind (envelope_loop members empty_envelope) envelope_kind
     | _ \<Rightarrow> Err (protocol_error ''protocol''))"

definition validate :: "string \<Rightarrow> nat \<Rightarrow> protocol_error + message_kind" where
  "validate raw limit =
     (if \<not> valid_limit limit then Err (protocol_error ''invalid_request'')
      else if limit < length raw then Err (protocol_error ''limit'')
      else if newline \<in> set raw \<or> carriage_return \<in> set raw then Err (protocol_error ''framing'')
      else try_bind (map_err map_json_error (parse_json raw)) validate_envelope)"

section \<open>Decoding and encoding\<close>

definition new_decoder :: "nat \<Rightarrow> protocol_error + decoder" where
  "new_decoder max_message_bytes =
     (if \<not> valid_limit max_message_bytes then Err (protocol_error ''invalid_request'')
      else Ok \<lparr>dec_pending = [], dec_limit = max_message_bytes\<rparr>)"

definition decoder_valid :: "decoder \<Rightarrow> bool" where
  "decoder_valid d \<longleftrightarrow> valid_limit (dec_limit d) \<and> length (dec_pending d) \<le> dec_limit d
     \<and> newline \<notin> set (dec_pending d)"

text \<open>The loop of \<open>feed\<close> over the indexed bytes, with the start of the current line.\<close>

fun feed_loop :: "nat \<Rightarrow> string \<Rightarrow> (nat \<times> char) list \<Rightarrow> nat \<Rightarrow> string list
    \<Rightarrow> protocol_error + nat \<times> string list" where
  "feed_loop limit combined [] line_start messages = Ok (line_start, messages)"
| "feed_loop limit combined ((index, byte) # rest) line_start messages =
     (if byte \<noteq> newline then feed_loop limit combined rest line_start messages
      else
        let line_end = (if line_start < index \<and> combined ! (index - 1) = carriage_return then index - 1 else index)
        in if line_end = line_start then Err (protocol_error ''framing'')
           else if MAX_BATCH_MESSAGES \<le> length messages then Err (protocol_error ''limit'')
           else
             let raw = slice combined line_start line_end
             in try_bind (validate raw limit) (\<lambda>_.
                  feed_loop limit combined rest (index + 1) (messages @ [raw])))"

definition feed :: "decoder \<Rightarrow> string \<Rightarrow> protocol_error + decode_batch" where
  "feed d chunk =
     (if \<not> decoder_valid d then Err (protocol_error ''invalid_request'')
      else if MAX_CHUNK_BYTES < length chunk then Err (protocol_error ''limit'')
      else if MAX_COMBINED_BYTES < length (dec_pending d) + length chunk then Err (protocol_error ''limit'')
      else
        let combined = dec_pending d @ chunk
        in try_bind (feed_loop (dec_limit d) combined (enumerate 0 combined) 0 []) (\<lambda>(line_start, messages).
             let pending = drop line_start combined
             in if dec_limit d < length pending then Err (protocol_error ''limit'')
                else Ok \<lparr>batch_decoder = \<lparr>dec_pending = pending, dec_limit = dec_limit d\<rparr>,
                         batch_messages = messages\<rparr>))"

definition finish :: "decoder \<Rightarrow> protocol_error + unit" where
  "finish d =
     (if \<not> decoder_valid d then Err (protocol_error ''invalid_request'')
      else if dec_pending d = [] then Ok ()
      else Err (protocol_error ''framing''))"

definition parse_message :: "string \<Rightarrow> nat \<Rightarrow> protocol_error + string" where
  "parse_message raw limit =
     try_bind (checked_limit limit) (\<lambda>limit. try_bind (validate raw limit) (\<lambda>_. Ok raw))"

definition encode :: "string \<Rightarrow> nat \<Rightarrow> protocol_error + string" where
  "encode raw limit =
     try_bind (checked_limit limit) (\<lambda>limit. try_bind (validate raw limit) (\<lambda>_. Ok (raw @ [newline])))"

definition kind :: "string \<Rightarrow> protocol_error + message_kind" where
  "kind raw = validate raw MAX_MESSAGE_BYTES"

section \<open>Construction\<close>

definition json_text :: "string \<Rightarrow> protocol_error + string" where
  "json_text v = map_err map_json_error (from_string v)"

definition parse_part :: "string \<Rightarrow> protocol_error + json_node" where
  "parse_part raw = map_err map_json_error (parse_json raw)"

definition construct :: "(string \<times> string) list \<Rightarrow> protocol_error + string" where
  "construct members = try_bind (map_err map_json_error (from_object members)) (\<lambda>raw.
     try_bind (validate raw MAX_MESSAGE_BYTES) (\<lambda>_. Ok raw))"

text \<open>The check of the optional parameters, which \<open>request\<close> and \<open>notification\<close> share.\<close>

definition check_params :: "string option \<Rightarrow> protocol_error + unit" where
  "check_params params = (case params of
       None \<Rightarrow> Ok ()
     | Some params \<Rightarrow> try_bind (parse_part params) (\<lambda>node.
         if \<not> structured (node_value node) then Err (protocol_error ''protocol'') else Ok ()))"

definition optional_member :: "string \<Rightarrow> string option \<Rightarrow> (string \<times> string) list" where
  "optional_member key raw = (case raw of None \<Rightarrow> [] | Some raw \<Rightarrow> [(key, trim_whitespace raw)])"

definition request :: "string \<Rightarrow> string \<Rightarrow> string option \<Rightarrow> protocol_error + string" where
  "request i method params =
     try_bind (parse_part i) (\<lambda>id_node.
       if \<not> request_id (node_value id_node) then Err (protocol_error ''protocol'')
       else try_bind (check_params params) (\<lambda>_.
         try_bind (json_text ''2.0'') (\<lambda>version. try_bind (json_text method) (\<lambda>method.
           construct ([(''jsonrpc'', version), (''id'', trim_whitespace i), (''method'', method)]
             @ optional_member ''params'' params)))))"

definition notification :: "string \<Rightarrow> string option \<Rightarrow> protocol_error + string" where
  "notification method params =
     try_bind (check_params params) (\<lambda>_.
       try_bind (json_text ''2.0'') (\<lambda>version. try_bind (json_text method) (\<lambda>method.
         construct ([(''jsonrpc'', version), (''method'', method)] @ optional_member ''params'' params))))"

definition success :: "string \<Rightarrow> string \<Rightarrow> protocol_error + string" where
  "success i res =
     try_bind (parse_part i) (\<lambda>id_node. try_bind (parse_part res) (\<lambda>_.
       if \<not> response_id (node_value id_node) then Err (protocol_error ''protocol'')
       else try_bind (json_text ''2.0'') (\<lambda>version.
         construct [(''jsonrpc'', version), (''id'', trim_whitespace i), (''result'', trim_whitespace res)])))"

definition failure :: "string \<Rightarrow> i64 \<Rightarrow> string \<Rightarrow> string option \<Rightarrow> protocol_error + string" where
  "failure i code message data =
     try_bind (parse_part i) (\<lambda>id_node.
       if \<not> response_id (node_value id_node) then Err (protocol_error ''protocol'')
       else try_bind (case data of None \<Rightarrow> Ok () | Some data \<Rightarrow> map_ok (\<lambda>_. ()) (parse_part data)) (\<lambda>_.
         try_bind (json_text message) (\<lambda>message.
           try_bind (map_err map_json_error (from_object
               ([(''code'', show_i64 code), (''message'', message)] @ optional_member ''data'' data))) (\<lambda>error.
             try_bind (json_text ''2.0'') (\<lambda>version.
               construct [(''jsonrpc'', version), (''id'', trim_whitespace i), (''error'', error)])))))"

end
