(* ===== verification/Json_Rpc_Decoder.thy ===== *)
theory Json_Rpc_Decoder
  imports Json_Rpc
begin

text \<open>
  The line decoder of theory \<open>Json_Rpc\<close>: \<open>feed\<close> against line splitting, its invariant, and its
  composition with itself and with the encoder. The locale states what the decoder relies on: messages
  are single non-empty lines; its interpretation is the validation of the model.
\<close>

section \<open>The decoder by lines\<close>

text \<open>The complete lines of a text and what follows the last newline.\<close>

fun lines_of :: "string \<Rightarrow> string list \<times> string" where
  "lines_of [] = ([], [])"
| "lines_of (c # cs) =
     (let (ls, rest) = lines_of cs in
      if c = newline then ([] # ls, rest)
      else case ls of [] \<Rightarrow> ([], c # rest) | l # ls' \<Rightarrow> ((c # l) # ls', rest))"

definition strip_cr :: "string \<Rightarrow> string" where
  "strip_cr l = (if l \<noteq> [] \<and> last l = carriage_return then butlast l else l)"

fun accept_lines :: "nat \<Rightarrow> string list \<Rightarrow> string list \<Rightarrow> protocol_error + string list" where
  "accept_lines limit [] messages = Ok messages"
| "accept_lines limit (l # ls) messages =
     (if strip_cr l = [] then Err (protocol_error ''framing'')
      else if MAX_BATCH_MESSAGES \<le> length messages then Err (protocol_error ''limit'')
      else try_bind (validate (strip_cr l) limit) (\<lambda>_. accept_lines limit ls (messages @ [strip_cr l])))"

text \<open>What \<open>feed\<close> promises: split at newlines, accept the lines in order, keep the rest.\<close>

definition feed_lines :: "decoder \<Rightarrow> string \<Rightarrow> protocol_error + decode_batch" where
  "feed_lines d chunk =
     (if \<not> decoder_valid d then Err (protocol_error ''invalid_request'')
      else if MAX_CHUNK_BYTES < length chunk then Err (protocol_error ''limit'')
      else case lines_of (dec_pending d @ chunk) of (ls, rest) \<Rightarrow>
        try_bind (accept_lines (dec_limit d) ls []) (\<lambda>messages.
          if dec_limit d < length rest then Err (protocol_error ''limit'')
          else Ok \<lparr>batch_decoder = \<lparr>dec_pending = rest, dec_limit = dec_limit d\<rparr>,
                   batch_messages = messages\<rparr>))"

lemma lines_of_plain: "newline \<notin> set cur \<Longrightarrow> lines_of cur = ([], cur)"
  by (induction cur) auto

lemma lines_of_newline: "newline \<notin> set cur \<Longrightarrow>
    lines_of (cur @ newline # s) = (cur # fst (lines_of s), snd (lines_of s))"
  by (induction cur) (auto simp: split_def Let_def)

lemma lines_of_rest: "newline \<notin> set (snd (lines_of s))"
  by (induction s) (auto simp: split_def Let_def split: list.splits)

lemma lines_of_lines: "\<forall>l \<in> set (fst (lines_of s)). newline \<notin> set l"
  by (induction s) (auto simp: split_def Let_def split: list.splits)

lemma lines_of_concat: "concat (map (\<lambda>l. l @ [newline]) (fst (lines_of s))) @ snd (lines_of s) = s"
  by (induction s) (auto simp: split_def Let_def split: list.splits)

lemma lines_of_join: "list_all (\<lambda>l. newline \<notin> set l) ls \<Longrightarrow>
    lines_of (concat (map (\<lambda>l. l @ [newline]) ls) @ t) = (ls @ fst (lines_of t), snd (lines_of t))"
  by (induction ls) (simp_all add: lines_of_newline)

lemma lines_of_append:
  "lines_of (s @ t) = (fst (lines_of s) @ fst (lines_of (snd (lines_of s) @ t)), snd (lines_of (snd (lines_of s) @ t)))"
proof -
  have "s @ t = concat (map (\<lambda>l. l @ [newline]) (fst (lines_of s))) @ (snd (lines_of s) @ t)"
    using lines_of_concat [of s] by (metis append_assoc)
  from arg_cong [OF this, of lines_of] show ?thesis
    using lines_of_join [of "fst (lines_of s)" "snd (lines_of s) @ t"] lines_of_lines [of s]
    by (simp only: list_all_iff)
qed

lemma slice_middle: "slice (pre @ cur @ s) (length pre) (length pre + n) = take n (cur @ s)"
  by (simp add: slice_def)

lemma feed_loop_lines:
  "newline \<notin> set cur \<Longrightarrow>
   feed_loop limit (pre @ cur @ todo) (enumerate (length pre + length cur) todo) (length pre) messages
     = map_ok (\<lambda>ms. (length (pre @ cur @ todo) - length (snd (lines_of (cur @ todo))), ms))
         (accept_lines limit (fst (lines_of (cur @ todo))) messages)"
proof (induction todo arbitrary: pre cur messages)
  case Nil
  then show ?case by (simp add: lines_of_plain)
next
  case (Cons c todo)
  show ?case
  proof (cases "c = newline")
    case False
    have "feed_loop limit (pre @ (cur @ [c]) @ todo) (enumerate (length pre + length (cur @ [c])) todo)
        (length pre) messages
      = map_ok (\<lambda>ms. (length (pre @ (cur @ [c]) @ todo) - length (snd (lines_of ((cur @ [c]) @ todo))), ms))
         (accept_lines limit (fst (lines_of ((cur @ [c]) @ todo))) messages)"
      using Cons.prems False by (intro Cons.IH) simp
    then show ?thesis using False by simp
  next
    case True
    let ?combined = "pre @ cur @ c # todo"
    let ?index = "length pre + length cur"
    let ?stop = "if length pre < ?index \<and> ?combined ! (?index - 1) = carriage_return then ?index - 1 else ?index"
    have last: "cur \<noteq> [] \<Longrightarrow> ?combined ! (?index - 1) = last cur"
      by (cases cur rule: rev_cases) (simp_all add: nth_append)
    have len: "?stop = length pre + length (strip_cr cur)"
      using last by (cases cur rule: rev_cases) (auto simp: strip_cr_def)
    have "take (length (strip_cr cur)) cur = strip_cr cur"
      by (simp add: strip_cr_def butlast_conv_take)
    then have raw: "slice ?combined (length pre) ?stop = strip_cr cur"
      unfolding len slice_middle by (simp add: strip_cr_def)
    have empty: "?stop = length pre \<longleftrightarrow> strip_cr cur = []" unfolding len by simp
    have ls: "lines_of (cur @ c # todo) = (cur # fst (lines_of todo), snd (lines_of todo))"
      using lines_of_newline [OF Cons.prems] True by simp
    have IH: "feed_loop limit ?combined (enumerate (?index + 1) todo) (?index + 1) ms
      = map_ok (\<lambda>ms. (length ?combined - length (snd (lines_of todo)), ms))
          (accept_lines limit (fst (lines_of todo)) ms)" for ms
      using Cons.IH [of "[]" "pre @ cur @ [c]" ms] by simp
    have "feed_loop limit ?combined (enumerate ?index (c # todo)) (length pre) messages
      = (if strip_cr cur = [] then Err (protocol_error ''framing'')
         else if MAX_BATCH_MESSAGES \<le> length messages then Err (protocol_error ''limit'')
         else try_bind (validate (strip_cr cur) limit) (\<lambda>_.
           feed_loop limit ?combined (enumerate (?index + 1) todo) (?index + 1) (messages @ [strip_cr cur])))"
      using True empty raw by (simp add: Let_def Suc_eq_plus1 del: One_nat_def)
    then show ?thesis
      unfolding IH ls by (auto simp: try_bind_def split: sum.split)
  qed
qed

lemma feed_eq: "feed d chunk = feed_lines d chunk"
proof (cases "decoder_valid d \<and> length chunk \<le> MAX_CHUNK_BYTES")
  case True
  let ?c = "dec_pending d @ chunk"
  have "length (dec_pending d) \<le> MAX_MESSAGE_BYTES"
    using True by (auto simp: decoder_valid_def valid_limit_def)
  then have combined: "\<not> MAX_COMBINED_BYTES < length (dec_pending d) + length chunk"
    using True by (simp add: MAX_COMBINED_BYTES_def MAX_MESSAGE_BYTES_def MAX_CHUNK_BYTES_def)
  have loop: "feed_loop (dec_limit d) ?c (enumerate 0 ?c) 0 []
      = map_ok (\<lambda>ms. (length ?c - length (snd (lines_of ?c)), ms)) (accept_lines (dec_limit d) (fst (lines_of ?c)) [])"
    using feed_loop_lines [of "[]" "dec_limit d" "[]" ?c "[]"] by simp
  have "drop (length ?c - length (snd (lines_of ?c))) ?c = snd (lines_of ?c)"
    using lines_of_concat [of ?c] by (metis append_eq_conv_conj length_append diff_add_inverse2)
  then show ?thesis
    using True combined unfolding feed_def feed_lines_def Let_def loop
    by (auto simp: split_def map_ok_def split: sum.split)
next
  case False
  then show ?thesis by (auto simp: feed_def feed_lines_def)
qed

text \<open>C17. The index loop of \<open>feed\<close> is line splitting: for every decoder and chunk it gives exactly the
  result, error or batch, of splitting pending and chunk at the newlines, dropping one carriage return
  before each, accepting the lines in order and keeping the rest; the check of the combined length
  never rejects anything that the other checks let through.\<close>

theorem feed_refines_lines: "feed d chunk = feed_lines d chunk"
  by (rule feed_eq)

section \<open>Invariant and composition\<close>

definition valid_line :: "nat \<Rightarrow> string \<Rightarrow> bool" where
  "valid_line limit l \<longleftrightarrow> strip_cr l \<noteq> [] \<and> (\<exists>k. validate (strip_cr l) limit = Inr k)"

lemma accept_lines_Ok:
  "accept_lines limit ls messages = Inr out \<longleftrightarrow> out = messages @ map strip_cr ls
     \<and> list_all (valid_line limit) ls \<and> (ls \<noteq> [] \<longrightarrow> length messages + length ls \<le> MAX_BATCH_MESSAGES)"
proof (induction ls arbitrary: messages)
  case (Cons l ls)
  show ?case
    by (cases "validate (strip_cr l) limit") (auto simp: Cons.IH valid_line_def)
qed auto

lemma accept_lines_Err:
  "accept_lines limit ls messages = Inl e \<Longrightarrow> e \<in> protocol_error ` {''framing'', ''limit''}
     \<or> (\<exists>raw. validate raw limit = Inl e)"
  by (induction limit ls messages rule: accept_lines.induct) (auto simp: try_bind_Err_iff split: if_splits)

text \<open>A computation whose only error is a bad envelope.\<close>

definition only_protocol :: "protocol_error + 'a \<Rightarrow> bool" where
  "only_protocol r \<longleftrightarrow> (\<forall>e. r = Inl e \<longrightarrow> e = protocol_error ''protocol'')"

lemma only_protocol_rules:
  "only_protocol (Inr x)" "only_protocol (Inl (protocol_error ''protocol''))"
  "(P \<Longrightarrow> only_protocol a) \<Longrightarrow> (\<not> P \<Longrightarrow> only_protocol b) \<Longrightarrow> only_protocol (if P then a else b)"
  "only_protocol r \<Longrightarrow> (\<And>x. only_protocol (k x)) \<Longrightarrow> only_protocol (try_bind r k)"
  by (auto simp: only_protocol_def try_bind_Err_iff)

lemma only_protocol_option:
  "(opt = None \<Longrightarrow> only_protocol a) \<Longrightarrow> (\<And>x. only_protocol (f x)) \<Longrightarrow>
     only_protocol (case opt of None \<Rightarrow> a | Some x \<Rightarrow> f x)"
  by (cases opt) auto

lemma only_protocol_slots: "only_protocol (envelope_slot key v e)" "only_protocol (error_slot key v err)"
  unfolding envelope_slot_def error_slot_def replace_slot_def by (intro only_protocol_rules)+

lemma only_protocol_loops: "only_protocol (envelope_loop members e)" "only_protocol (error_loop members err)"
  by (induction members arbitrary: e err) (auto intro!: only_protocol_rules only_protocol_slots)

lemma only_protocol_validate_error: "only_protocol (validate_error v)"
  unfolding validate_error_def
  by (cases v; simp only: json_node_value.case) (intro only_protocol_rules only_protocol_loops)+

lemma only_protocol_envelope: "only_protocol (validate_envelope node)"
proof -
  have "only_protocol (envelope_kind e)" for e
    unfolding envelope_kind_def
    by (intro only_protocol_rules only_protocol_option only_protocol_validate_error)
  then show ?thesis
    unfolding validate_envelope_def
    by (cases "node_value node"; simp only: json_node_value.case)
      (intro only_protocol_rules only_protocol_loops | assumption)+
qed

lemma validate_Err:
  assumes "validate raw limit = Inl e" "valid_limit limit"
  shows "pe_code e \<in> {''limit'', ''framing'', ''json'', ''protocol''}"
proof -
  have p: "validate_envelope node = Inl e \<Longrightarrow> e = protocol_error ''protocol''" for node
    using only_protocol_envelope [of node] by (simp add: only_protocol_def)
  show ?thesis
    using assms by (cases "parse_json raw")
      (auto simp: validate_def map_json_error_def protocol_error_def dest: p split: if_splits)
qed

lemma validate_clean:
  assumes "validate m limit = Inr k"
  shows "m \<noteq> [] \<and> newline \<notin> set m \<and> carriage_return \<notin> set m \<and> length m \<le> limit"
proof -
  have "parse_json [] \<noteq> Inr node" for node
    using value_last by (fastforce simp: parse_json_iff json_document_def)
  then show ?thesis using assms by (auto simp: validate_def split: if_splits)
qed

text \<open>C35. The decoder invariant: whatever \<open>feed\<close> returns can be fed again. Its decoder has a valid limit
  (the same), at most that many pending bytes and no pending newline, and it hands out at most 4,096
  messages, each an envelope that \<open>validate\<close> accepts under the limit. Otherwise the error has one of
  the five codes.\<close>

theorem feed_keeps_decoder_valid:
  "case feed d chunk of
     Inr batch \<Rightarrow> decoder_valid (batch_decoder batch) \<and> dec_limit (batch_decoder batch) = dec_limit d
       \<and> length (batch_messages batch) \<le> MAX_BATCH_MESSAGES
       \<and> list_all (\<lambda>m. m \<noteq> [] \<and> (\<exists>k. validate m (dec_limit d) = Inr k)) (batch_messages batch)
   | Inl e \<Rightarrow> pe_code e \<in> {''invalid_request'', ''limit'', ''framing'', ''json'', ''protocol''}"
proof (cases "feed d chunk")
  case (Inl e)
  then show ?thesis
    unfolding feed_eq feed_lines_def
    by (auto simp: try_bind_Err_iff decoder_valid_def protocol_error_def split_def split: if_splits
        dest!: accept_lines_Err validate_Err)
next
  case (Inr batch)
  let ?c = "dec_pending d @ chunk"
  have b: "decoder_valid d" "accept_lines (dec_limit d) (fst (lines_of ?c)) [] = Inr (batch_messages batch)"
      "length (snd (lines_of ?c)) \<le> dec_limit d"
      "batch_decoder batch = \<lparr>dec_pending = snd (lines_of ?c), dec_limit = dec_limit d\<rparr>"
    using Inr unfolding feed_eq feed_lines_def by (auto simp: split_def split: if_splits)
  have "decoder_valid (batch_decoder batch)"
    using b(1,3,4) lines_of_rest [of ?c] by (simp add: decoder_valid_def)
  moreover have "list_all (\<lambda>m. m \<noteq> [] \<and> (\<exists>k. validate m (dec_limit d) = Inr k)) (batch_messages batch)"
    using b(2) by (auto simp: accept_lines_Ok list_all_iff valid_line_def)
  moreover have "length (batch_messages batch) \<le> MAX_BATCH_MESSAGES"
    using b(2) by (cases "fst (lines_of ?c) = []") (auto simp: accept_lines_Ok)
  ultimately show ?thesis using Inr b(4) by simp
qed

section \<open>Composition of calls\<close>

lemma feed_Ok_iff:
  "feed d chunk = Inr batch \<longleftrightarrow> decoder_valid d \<and> length chunk \<le> MAX_CHUNK_BYTES
     \<and> accept_lines (dec_limit d) (fst (lines_of (dec_pending d @ chunk))) [] = Inr (batch_messages batch)
     \<and> length (snd (lines_of (dec_pending d @ chunk))) \<le> dec_limit d
     \<and> batch_decoder batch = \<lparr>dec_pending = snd (lines_of (dec_pending d @ chunk)), dec_limit = dec_limit d\<rparr>"
  unfolding feed_eq feed_lines_def
  by (cases batch) (auto simp: split_def split: if_splits)

lemma feed_append:
  assumes "feed d c1 = Inr b1" "feed (batch_decoder b1) c2 = Inr b2"
    and "length c1 + length c2 \<le> MAX_CHUNK_BYTES"
    and "length (batch_messages b1) + length (batch_messages b2) \<le> MAX_BATCH_MESSAGES"
  shows "feed d (c1 @ c2) = Inr \<lparr>batch_decoder = batch_decoder b2,
    batch_messages = batch_messages b1 @ batch_messages b2\<rparr>"
proof -
  let ?p = "dec_pending d @ c1"
  note 1 = assms(1) [unfolded feed_Ok_iff]
  then have d1: "dec_pending (batch_decoder b1) = snd (lines_of ?p)" "dec_limit (batch_decoder b1) = dec_limit d"
    by simp_all
  note 2 = assms(2) [unfolded feed_Ok_iff d1]
  have ls: "lines_of (dec_pending d @ c1 @ c2)
      = (fst (lines_of ?p) @ fst (lines_of (snd (lines_of ?p) @ c2)), snd (lines_of (snd (lines_of ?p) @ c2)))"
    using lines_of_append [of ?p c2] by simp
  have "accept_lines (dec_limit d) (fst (lines_of (dec_pending d @ c1 @ c2))) []
      = Inr (batch_messages b1 @ batch_messages b2)"
    using 1 2 assms(4) unfolding ls by (auto simp: accept_lines_Ok)
  then show ?thesis
    using 1 2 assms(3) unfolding feed_Ok_iff ls by simp
qed

text \<open>
  A line protocol whose messages are single non-empty lines: what is framed with newlines, or with a
  carriage return before them, is split into the same messages.
\<close>

locale line_messages =
  fixes message :: "string \<Rightarrow> bool"
  assumes single_line: "message m \<Longrightarrow> m \<noteq> [] \<and> newline \<notin> set m \<and> carriage_return \<notin> set m"
begin

lemma strip_message: "message m \<Longrightarrow> strip_cr m = m" "message m \<Longrightarrow> strip_cr (m @ [carriage_return]) = m"
  using single_line [of m] by (auto simp: strip_cr_def dest: last_in_set)

lemma split_frames:
  assumes "list_all message ms" "list_all (\<lambda>f. f \<in> {[], [carriage_return]}) ends" "length ends = length ms"
  shows "lines_of (concat (map2 (\<lambda>m f. m @ f @ [newline]) ms ends)) = (map2 (@) ms ends, [])"
    and "map strip_cr (map2 (@) ms ends) = ms"
proof -
  have "lines_of (concat (map2 (\<lambda>m f. m @ f @ [newline]) ms ends) @ []) = (map2 (@) ms ends, [])
      \<and> map strip_cr (map2 (@) ms ends) = ms"
    using assms
  proof (induction ms arbitrary: ends)
    case (Cons m ms)
    obtain f fs where f: "ends = f # fs" "f \<in> {[], [carriage_return]}" using Cons.prems by (cases ends) auto
    have "newline \<notin> set (m @ f)"
      using Cons.prems(1) single_line [of m] f(2) by (auto simp: newline_def carriage_return_def)
    moreover have "strip_cr (m @ f) = m" using strip_message [of m] Cons.prems(1) f(2) by auto
    ultimately show ?case
      using Cons.IH [of fs] Cons.prems f lines_of_newline [of "m @ f" "concat (map2 (\<lambda>m f. m @ f @ [newline]) ms fs)"]
      by simp
  qed simp
  then show "lines_of (concat (map2 (\<lambda>m f. m @ f @ [newline]) ms ends)) = (map2 (@) ms ends, [])"
    "map strip_cr (map2 (@) ms ends) = ms" by simp_all
qed

end

interpretation rpc: line_messages "\<lambda>m. \<exists>k. validate m limit = Inr k" for limit
  by unfold_locales (auto dest: validate_clean)

text \<open>C34. Chunk boundaries do not matter: when two chunks are fed one after the other, feeding their
  concatenation at once ends in the same decoder with the messages of both calls in order, as long as
  the two together are within the chunk and batch limits.\<close>

theorem feed_chunks:
  assumes "feed d c1 = Inr b1" "feed (batch_decoder b1) c2 = Inr b2"
    and "length c1 + length c2 \<le> MAX_CHUNK_BYTES"
    and "length (batch_messages b1) + length (batch_messages b2) \<le> MAX_BATCH_MESSAGES"
  shows "feed d (c1 @ c2) = Inr \<lparr>batch_decoder = batch_decoder b2,
    batch_messages = batch_messages b1 @ batch_messages b2\<rparr>"
  by (rule feed_append [OF assms])

lemma feed_frames:
  assumes "valid_limit limit" "list_all (\<lambda>m. \<exists>k. validate m limit = Inr k) ms"
    and "list_all (\<lambda>f. f \<in> {[], [carriage_return]}) ends" "length ends = length ms"
    and "length (concat (map2 (\<lambda>m f. m @ f @ [newline]) ms ends)) \<le> MAX_CHUNK_BYTES" "length ms \<le> MAX_BATCH_MESSAGES"
  shows "feed \<lparr>dec_pending = [], dec_limit = limit\<rparr> (concat (map2 (\<lambda>m f. m @ f @ [newline]) ms ends))
    = Inr \<lparr>batch_decoder = \<lparr>dec_pending = [], dec_limit = limit\<rparr>, batch_messages = ms\<rparr>"
proof -
  note split = rpc.split_frames [OF assms(2-4)]
  have "list_all (valid_line limit) (map2 (@) ms ends)"
  proof (unfold list_all_length, intro allI impI)
    fix i assume i: "i < length (map2 (@) ms ends)"
    then have m: "\<exists>k. validate (ms ! i) limit = Inr k" using assms(2,4) by (simp add: list_all_length)
    have "strip_cr (map2 (@) ms ends ! i) = ms ! i"
      using split(2) i by (metis length_map nth_map)
    then show "valid_line limit (map2 (@) ms ends ! i)"
      using m validate_clean unfolding valid_line_def by metis
  qed
  then have "accept_lines limit (map2 (@) ms ends) [] = Inr ms"
    using split(2) assms(4,6) by (simp add: accept_lines_Ok)
  then show ?thesis
    using assms(1,5) unfolding feed_Ok_iff by (simp add: split(1) decoder_valid_def)
qed

text \<open>C33. Encode and feed are inverse: messages that \<open>encode\<close> accepts, sent one after the other, come
  out of a fresh decoder exactly as they went in, with nothing pending.\<close>

theorem encode_feed_roundtrip:
  assumes "list_all (\<lambda>(m, frame). encode m limit = Inr frame) frames" "valid_limit limit"
    and "length (concat (map snd frames)) \<le> MAX_CHUNK_BYTES" "length frames \<le> MAX_BATCH_MESSAGES"
  shows "feed \<lparr>dec_pending = [], dec_limit = limit\<rparr> (concat (map snd frames))
    = Inr \<lparr>batch_decoder = \<lparr>dec_pending = [], dec_limit = limit\<rparr>, batch_messages = map fst frames\<rparr>"
proof -
  have f: "(\<exists>k. validate (fst f) limit = Inr k) \<and> snd f = fst f @ [] @ [newline]" if "f \<in> set frames" for f
    using assms(1,2) that by (cases f) (auto simp: list_all_iff encode_def checked_limit_def)
  let ?ends = "map (\<lambda>_. []) frames"
  have "map snd frames = map2 (\<lambda>m f. m @ f @ [newline]) (map fst frames) ?ends"
    using f by (auto simp: zip_map_map zip_same_conv_map)
  then show ?thesis
    using feed_frames [OF assms(2), of "map fst frames" ?ends] f assms(3,4)
    by (simp add: list_all_iff)
qed

end
