(* ===== verification/Json_Rpc_Messages.thy ===== *)
theory Json_Rpc_Messages
  imports Json_Rpc_Decoder
begin

text \<open>
  The constructors of theory \<open>Json_Rpc\<close>: what they build is an envelope of their kind, by the theorem
  on \<open>from_object\<close> of theory \<open>Json_Construct\<close>; with an example exchange.
\<close>

section \<open>Error codes as numbers\<close>

lemma show_nat_less10: "n < 10 \<Longrightarrow> show_nat n = [char_of (48 + n)]"
  by (subst show_nat.simps) simp

lemma show_nat_hd: "0 < n \<Longrightarrow> hd (show_nat n) \<noteq> CHR ''0''"
proof (induction n rule: show_nat.induct)
  case (1 n)
  show ?case
  proof (cases "n < 10")
    case True
    have "byte_of (char_of (48 + n)) \<noteq> byte_of CHR ''0''"
      using True 1(2) by simp (simp add: byte_of_def)
    then show ?thesis using show_nat_less10 [OF True] by (metis list.sel(1))
  next
    case False
    then show ?thesis
      using 1(1) by (subst show_nat.simps) (simp add: hd_append)
  qed
qed

lemma show_nat_zero: "show_nat 0 = ''0''"
proof -
  have "char_of (48 :: nat) = CHR ''0''" by code_simp
  then show ?thesis by (simp add: show_nat_less10)
qed

lemma json_unsigned_show_nat: "json_unsigned (show_nat n)"
proof -
  have "json_digits (show_nat n)" using show_nat_digits by (simp add: json_digits_def)
  moreover have "hd (show_nat n) = CHR ''0'' \<longrightarrow> show_nat n = ''0''"
    using show_nat_hd [of n] show_nat_zero by (cases "n = 0") auto
  moreover have "json_fraction []" "json_exponent []" by (simp_all add: json_fraction_def json_exponent_def)
  ultimately show ?thesis
    unfolding json_unsigned_def by (intro exI [of _ "show_nat n"] exI [of _ "[]"]) simp
qed

lemma json_number_show_i64: "is_json_number (show_i64 w)"
  using json_unsigned_show_nat by (auto simp: show_i64_def is_json_number_def Let_def)

lemma parse_show_i64: "parse_i64 (show_i64 w) = Some (sint w)"
proof -
  have range: "- (2 ^ 63) \<le> sint w" "sint w < 2 ^ 63"
    using sint_ge [of w] sint_lt [of w] by simp_all
  have digits: "list_all is_ascii_digit (show_nat n)" for n
    using show_nat_digits by (simp add: list_all_iff)
  have first: "hd (show_nat n) \<notin> {CHR ''+'', CHR ''-''}" for n
  proof -
    have "is_ascii_digit (hd (show_nat n))" using show_nat_digits [of n] by (simp add: hd_in_set)
    then show ?thesis using digit_chars by auto
  qed
  show ?thesis
  proof (cases "sint w < 0")
    case True
    then have "show_i64 w = CHR ''-'' # show_nat (nat (- sint w))" by (simp add: show_i64_def)
    then show ?thesis using True range digits by (simp add: parse_i64_def)
  next
    case False
    then have "show_i64 w = show_nat (nat (sint w))" by (simp add: show_i64_def)
    then show ?thesis using False range digits first [of "nat (sint w)"] by (simp add: parse_i64_def)
  qed
qed

text \<open>Every \<open>i64\<close> error code is written as a number of the JSON grammar that reads back, with
  \<open>parse::<i64>\<close>, as the same code.\<close>

theorem error_code_roundtrip: "is_json_number (show_i64 w) \<and> parse_i64 (show_i64 w) = Some (sint w)"
  using json_number_show_i64 parse_show_i64 by blast

section \<open>Constructed messages\<close>

lemma parsed_text:
  assumes "from_string s = Inr k" "utf8_complete s"
  shows "parsed_element k = Some (JsonNode k (JString s) 0 1)"
proof -
  have v: "json_value 0 k (JsonNode k (JString s) 0 1)"
    by (rule value_string [OF from_string_text(1) [OF assms]])
  have "parse_json k = Inr (JsonNode k (JString s) 0 1)"
    using from_string_text(2) [OF assms] by (intro value_document [OF v]) (simp_all add: MAX_VALUES_def)
  moreover have "trim_whitespace k = k"
    using trim_document [OF json_ws_Nil json_ws_Nil v] by simp
  ultimately show ?thesis by (simp add: parsed_element_def)
qed

lemma parsed_number:
  assumes "is_json_number t" "length t \<le> MAX_BYTES"
  shows "parsed_element t = Some (JsonNode t (JNumber t) 0 1)"
proof -
  have v: "json_value 0 t (JsonNode t (JNumber t) 0 1)" by (rule value_number [OF assms(1)])
  have "parse_json t = Inr (JsonNode t (JNumber t) 0 1)"
    using assms(2) by (intro value_document [OF v]) (simp_all add: MAX_VALUES_def)
  moreover have "trim_whitespace t = t" using trim_document [OF json_ws_Nil json_ws_Nil v] by simp
  ultimately show ?thesis by (simp add: parsed_element_def)
qed

lemma length_trim: "length (trim_whitespace s) \<le> length s"
proof -
  have "length (dropWhile P xs) \<le> length xs" for P and xs :: string by (rule length_dropWhile_le)
  from this [of is_json_whitespace "rev (dropWhile is_json_whitespace s)"] this [of is_json_whitespace s]
  show ?thesis by (simp add: trim_whitespace_def)
qed

lemma parsed_trimmed:
  assumes "parse_json raw = Inr node"
  shows "\<exists>n. parsed_element (trim_whitespace raw) = Some n \<and> node_value n = node_value node"
proof -
  obtain n where n: "parsed_element raw = Some n" "json_value 0 (node_raw n) n" "node_raw n = trim_whitespace raw"
      "node_values node = node_values n" "node_max_depth node = node_max_depth n"
    using assms by (rule parsed_elementD)
  have "length raw \<le> MAX_BYTES \<and> node_values node \<le> MAX_VALUES \<and> node_max_depth node \<le> MAX_DEPTH"
    using parse_json_bounds [of raw] assms by simp
  then have p: "parse_json (trim_whitespace raw) = Inr n"
    using n length_trim [of raw] by (intro value_document) simp_all
  have "trim_whitespace (trim_whitespace raw) = trim_whitespace raw"
    using trim_document [OF json_ws_Nil json_ws_Nil n(2)] n(3) by simp
  moreover have "node_value n = node_value node" using n(1) assms by (auto simp: parsed_element_def)
  ultimately show ?thesis using p by (simp add: parsed_element_def)
qed

lemma deepen_value_simps [simp]:
  "node_value (deepen k n) = deepen_value k (node_value n)"
  "request_id (deepen_value k v) = request_id v" "structured (deepen_value k v) = structured v"
  "is_string (deepen_value k v) = is_string v" "deepen_value k v = JNull \<longleftrightarrow> v = JNull"
  "deepen_value k v = JString s \<longleftrightarrow> v = JString s" "deepen_value k v = JNumber t \<longleftrightarrow> v = JNumber t"
  by (cases n; simp) (cases v; simp)+

lemma response_id_deepen [simp]: "response_id (deepen_value k v) = response_id v"
  by (simp add: response_id_def)

text \<open>The value of the first member with a key, in the object that a message is.\<close>

definition message_member :: "string \<Rightarrow> string \<Rightarrow> json_node_value option" where
  "message_member raw key = (case parse_json raw of
       Inr (JsonNode _ (JObject members) _ _) \<Rightarrow> map_option node_value (map_of members key)
     | _ \<Rightarrow> None)"

lemma construct_parsed:
  assumes "construct members = Inr raw" "list_all (\<lambda>(key, raw). utf8_complete key) members"
  shows "\<exists>ns node. map (\<lambda>(key, raw). parsed_element raw) members = map Some ns
    \<and> parse_json raw = Inr node
    \<and> node_value node = JObject (zip (map fst members) (map (deepen 1) ns))
    \<and> kind raw = validate_envelope node"
proof -
  have c: "from_object members = Inr raw" "\<exists>k. validate raw MAX_MESSAGE_BYTES = Inr k"
    using assms(1) by (auto simp: construct_def)
  obtain ns where ns: "map (\<lambda>(key, raw). parsed_element raw) members = map Some ns"
      "parse_json raw = Inr (JsonNode raw (JObject (zip (map fst members) (map (deepen 1) ns)))
        (deepest 0 ns + 1) (Suc (total_values ns)))"
    using from_object_node [OF c(1) assms(2)] by blast
  moreover have "kind raw = validate_envelope (JsonNode raw (JObject (zip (map fst members) (map (deepen 1) ns)))
        (deepest 0 ns + 1) (Suc (total_values ns)))"
    using c(2) ns(2) by (auto simp: kind_def validate_def split: if_splits)
  ultimately show ?thesis by fastforce
qed

lemma utf8_keys: "utf8_complete ''jsonrpc''" "utf8_complete ''id''" "utf8_complete ''method''"
  "utf8_complete ''params''" "utf8_complete ''result''" "utf8_complete ''error''" "utf8_complete ''code''"
  "utf8_complete ''message''" "utf8_complete ''data''" "utf8_complete ''2.0''"
  by (simp_all add: utf8_complete_def utf8_width_def byte_of_def)

lemma json_text_parsed: "json_text s = Inr k \<Longrightarrow> utf8_complete s
    \<Longrightarrow> parsed_element k = Some (JsonNode k (JString s) 0 1)"
  by (rule parsed_text) (simp_all add: json_text_def)

lemma check_params_parsed:
  assumes "check_params params = Inr ()" "params = Some raw"
  obtains n where "parsed_element (trim_whitespace raw) = Some n" "structured (node_value n)"
proof -
  obtain node where "parse_json raw = Inr node" "structured (node_value node)"
    using assms by (auto simp: check_params_def parse_part_def split: if_splits)
  then show thesis using parsed_trimmed [of raw node] that by auto
qed

lemmas envelope_defs = validate_envelope_def envelope_slot_def replace_slot_def empty_envelope_def
  envelope_kind_def is_version_def

lemma request_envelope:
  assumes "request i method params = Inr raw" "utf8_complete method" "parse_json i = Inr id_node"
  shows "kind raw = Inr Request \<and> message_member raw ''method'' = Some (JString method)
    \<and> message_member raw ''id'' = Some (node_value id_node)"
proof -
  obtain v m where r: "request_id (node_value id_node)" "check_params params = Inr ()" "json_text ''2.0'' = Inr v"
      "json_text method = Inr m"
      "construct ([(''jsonrpc'', v), (''id'', trim_whitespace i), (''method'', m)] @ optional_member ''params'' params)
        = Inr raw"
    using assms(1,3) by (auto simp: request_def parse_part_def split: if_splits)
  let ?members = "[(''jsonrpc'', v), (''id'', trim_whitespace i), (''method'', m)] @ optional_member ''params'' params"
  have keys: "list_all (\<lambda>(key, raw). utf8_complete key) ?members"
    using utf8_keys by (auto simp: optional_member_def split: option.split)
  obtain ns node where c: "map (\<lambda>(key, raw). parsed_element raw) ?members = map Some ns" "parse_json raw = Inr node"
      "node_value node = JObject (zip (map fst ?members) (map (deepen 1) ns))" "kind raw = validate_envelope node"
    using construct_parsed [OF r(5) keys] by blast
  have v: "parsed_element v = Some (JsonNode v (JString ''2.0'') 0 1)"
    by (rule json_text_parsed [OF r(3) utf8_keys(10)])
  have m: "parsed_element m = Some (JsonNode m (JString method) 0 1)"
    by (rule json_text_parsed [OF r(4) assms(2)])
  obtain n where n: "parsed_element (trim_whitespace i) = Some n" "node_value n = node_value id_node"
    using parsed_trimmed [OF assms(3)] by blast
  have idv: "deepen_value 1 (node_value id_node) = node_value id_node"
    using r(1) by (cases "node_value id_node") simp_all
  show ?thesis
  proof (cases params)
    case None
    then have "ns = [JsonNode v (JString ''2.0'') 0 1, n, JsonNode m (JString method) 0 1]"
      using c(1) v m n(1) by (auto simp: optional_member_def)
    then show ?thesis
      using c(2-4) None n(2) r(1) idv by (cases node) (simp add: message_member_def optional_member_def envelope_defs)
  next
    case (Some praw)
    then obtain q where q: "parsed_element (trim_whitespace praw) = Some q" "structured (node_value q)"
      using check_params_parsed [OF r(2)] by blast
    then have "ns = [JsonNode v (JString ''2.0'') 0 1, n, JsonNode m (JString method) 0 1, q]"
      using c(1) v m n(1) Some by (auto simp: optional_member_def)
    then show ?thesis
      using c(2-4) Some n(2) r(1) q(2) idv
      by (cases node) (simp add: message_member_def optional_member_def envelope_defs)
  qed
qed

lemma notification_envelope:
  assumes "notification method params = Inr raw" "utf8_complete method"
  shows "kind raw = Inr Notification \<and> message_member raw ''method'' = Some (JString method)
    \<and> message_member raw ''id'' = None"
proof -
  obtain v m where r: "check_params params = Inr ()" "json_text ''2.0'' = Inr v" "json_text method = Inr m"
      "construct ([(''jsonrpc'', v), (''method'', m)] @ optional_member ''params'' params) = Inr raw"
    using assms(1) by (auto simp: notification_def)
  let ?members = "[(''jsonrpc'', v), (''method'', m)] @ optional_member ''params'' params"
  have keys: "list_all (\<lambda>(key, raw). utf8_complete key) ?members"
    using utf8_keys by (auto simp: optional_member_def split: option.split)
  obtain ns node where c: "map (\<lambda>(key, raw). parsed_element raw) ?members = map Some ns" "parse_json raw = Inr node"
      "node_value node = JObject (zip (map fst ?members) (map (deepen 1) ns))" "kind raw = validate_envelope node"
    using construct_parsed [OF r(4) keys] by blast
  have v: "parsed_element v = Some (JsonNode v (JString ''2.0'') 0 1)"
    by (rule json_text_parsed [OF r(2) utf8_keys(10)])
  have m: "parsed_element m = Some (JsonNode m (JString method) 0 1)"
    by (rule json_text_parsed [OF r(3) assms(2)])
  show ?thesis
  proof (cases params)
    case None
    then have "ns = [JsonNode v (JString ''2.0'') 0 1, JsonNode m (JString method) 0 1]"
      using c(1) v m by (auto simp: optional_member_def)
    then show ?thesis
      using c(2-4) None by (cases node) (simp add: message_member_def optional_member_def envelope_defs)
  next
    case (Some praw)
    then obtain q where q: "parsed_element (trim_whitespace praw) = Some q" "structured (node_value q)"
      using check_params_parsed [OF r(1)] by blast
    then have "ns = [JsonNode v (JString ''2.0'') 0 1, JsonNode m (JString method) 0 1, q]"
      using c(1) v m Some by (auto simp: optional_member_def)
    then show ?thesis
      using c(2-4) Some q(2) by (cases node) (simp add: message_member_def optional_member_def envelope_defs)
  qed
qed

lemma success_envelope:
  assumes "success i res = Inr raw" "parse_json i = Inr id_node"
  shows "kind raw = Inr Success \<and> message_member raw ''id'' = Some (node_value id_node)"
proof -
  obtain v res_node where r: "parse_json res = Inr res_node" "response_id (node_value id_node)" "json_text ''2.0'' = Inr v"
      "construct [(''jsonrpc'', v), (''id'', trim_whitespace i), (''result'', trim_whitespace res)] = Inr raw"
    using assms by (auto simp: success_def parse_part_def split: if_splits)
  let ?members = "[(''jsonrpc'', v), (''id'', trim_whitespace i), (''result'', trim_whitespace res)]"
  have keys: "list_all (\<lambda>(key, raw). utf8_complete key) ?members" using utf8_keys by simp
  obtain ns node where c: "map (\<lambda>(key, raw). parsed_element raw) ?members = map Some ns" "parse_json raw = Inr node"
      "node_value node = JObject (zip (map fst ?members) (map (deepen 1) ns))" "kind raw = validate_envelope node"
    using construct_parsed [OF r(4) keys] by blast
  have v: "parsed_element v = Some (JsonNode v (JString ''2.0'') 0 1)"
    by (rule json_text_parsed [OF r(3) utf8_keys(10)])
  obtain n q where n: "parsed_element (trim_whitespace i) = Some n" "node_value n = node_value id_node"
      "parsed_element (trim_whitespace res) = Some q"
    using parsed_trimmed [OF assms(2)] parsed_trimmed [OF r(1)] by blast
  have idv: "deepen_value 1 (node_value id_node) = node_value id_node"
    using r(2) by (cases "node_value id_node") (simp_all add: response_id_def)
  have "ns = [JsonNode v (JString ''2.0'') 0 1, n, q]" using c(1) v n by auto
  then show ?thesis
    using c(2-4) n(2) r(2) idv by (cases node) (simp add: message_member_def envelope_defs)
qed

lemma failure_envelope:
  assumes "failure i code message data = Inr raw" "utf8_complete message" "parse_json i = Inr id_node"
  shows "kind raw = Inr ErrorResponse \<and> message_member raw ''id'' = Some (node_value id_node)"
proof -
  obtain v m err where r: "response_id (node_value id_node)"
      "(case data of None \<Rightarrow> Inr () | Some data \<Rightarrow> map_ok (\<lambda>_. ()) (parse_part data)) = Inr ()"
      "json_text message = Inr m"
      "from_object ([(''code'', show_i64 code), (''message'', m)] @ optional_member ''data'' data) = Inr err"
      "json_text ''2.0'' = Inr v"
      "construct [(''jsonrpc'', v), (''id'', trim_whitespace i), (''error'', err)] = Inr raw"
    using assms(1,3) by (auto simp: failure_def parse_part_def split: if_splits)
  let ?inner = "[(''code'', show_i64 code), (''message'', m)] @ optional_member ''data'' data"
  have ikeys: "list_all (\<lambda>(key, raw). utf8_complete key) ?inner"
    using utf8_keys by (auto simp: optional_member_def split: option.split)
  obtain ins where ins: "map (\<lambda>(key, raw). parsed_element raw) ?inner = map Some ins"
      "parse_json err = Inr (JsonNode err (JObject (zip (map fst ?inner) (map (deepen 1) ins)))
        (deepest 0 ins + 1) (Suc (total_values ins)))"
    using from_object_node [OF r(4) ikeys] by blast
  have m: "parsed_element m = Some (JsonNode m (JString message) 0 1)"
    by (rule json_text_parsed [OF r(3) assms(2)])
  obtain c where "parsed_element (show_i64 code) = Some c" using ins(1) by (cases ins) auto
  then have "\<exists>node. parse_json (show_i64 code) = Inr node" by (auto simp: parsed_element_def split: sum.splits)
  then have "length (show_i64 code) \<le> MAX_BYTES" using parse_json_bounds [of "show_i64 code"] by auto
  then have c: "parsed_element (show_i64 code) = Some (JsonNode (show_i64 code) (JNumber (show_i64 code)) 0 1)"
    by (rule parsed_number [OF json_number_show_i64])
  let ?c = "JsonNode (show_i64 code) (JNumber (show_i64 code)) 0 1" and ?m = "JsonNode m (JString message) 0 1"
  let ?e = "JObject (zip (map fst ?inner) (map (deepen 1) ins))"
  have valid: "validate_error (deepen_value 1 ?e) = Inr ()"
  proof (cases data)
    case None
    then have "ins = [?c, ?m]" using ins(1) m c by (auto simp: optional_member_def)
    then show ?thesis
      using None by (simp add: optional_member_def validate_error_def error_slot_def replace_slot_def
          empty_error_slots_def is_error_code_def is_string_slot_def parse_show_i64)
  next
    case (Some draw)
    then obtain d where "ins = [?c, ?m, d]" using ins(1) m c by (auto simp: optional_member_def)
    then show ?thesis
      using Some by (simp add: optional_member_def validate_error_def error_slot_def replace_slot_def
          empty_error_slots_def is_error_code_def is_string_slot_def parse_show_i64)
  qed
  let ?members = "[(''jsonrpc'', v), (''id'', trim_whitespace i), (''error'', err)]"
  have keys: "list_all (\<lambda>(key, raw). utf8_complete key) ?members" using utf8_keys by simp
  obtain ns node where o: "map (\<lambda>(key, raw). parsed_element raw) ?members = map Some ns" "parse_json raw = Inr node"
      "node_value node = JObject (zip (map fst ?members) (map (deepen 1) ns))" "kind raw = validate_envelope node"
    using construct_parsed [OF r(6) keys] by blast
  have v: "parsed_element v = Some (JsonNode v (JString ''2.0'') 0 1)"
    by (rule json_text_parsed [OF r(5) utf8_keys(10)])
  obtain n where n: "parsed_element (trim_whitespace i) = Some n" "node_value n = node_value id_node"
    using parsed_trimmed [OF assms(3)] by blast
  obtain q where q: "parsed_element err = Some q" "node_value q = ?e"
    using ins(2) by (auto simp: parsed_element_def)
  have idv: "deepen_value 1 (node_value id_node) = node_value id_node"
    using r(1) by (cases "node_value id_node") (simp_all add: response_id_def)
  have "ns = [JsonNode v (JString ''2.0'') 0 1, n, q]" using o(1) v n q by auto
  then show ?thesis
    using o(2-4) n(2) r(1) idv valid q(2) by (cases node) (simp add: message_member_def envelope_defs del: deepen_value.simps)
qed

text \<open>C31. A message built by \<open>request\<close> is a request: it passes the validation of \<open>kind\<close> as a request, and
  parsing it finds the given method name and the value of the given id.\<close>

theorem request_is_request:
  assumes "request i method params = Inr raw" "utf8_complete method" "parse_json i = Inr id_node"
  shows "kind raw = Inr Request \<and> message_member raw ''method'' = Some (JString method)
    \<and> message_member raw ''id'' = Some (node_value id_node)"
  by (rule request_envelope [OF assms])

text \<open>C36. A message built by \<open>failure\<close> passes the validation of \<open>kind\<close> as an error response with the given
  id, whatever the code, the message text and the data.\<close>

theorem failure_is_error:
  assumes "failure i code message data = Inr raw" "utf8_complete message" "parse_json i = Inr id_node"
  shows "kind raw = Inr ErrorResponse \<and> message_member raw ''id'' = Some (node_value id_node)"
  by (rule failure_envelope [OF assms])

section \<open>An example exchange\<close>

definition quoted :: "string \<Rightarrow> string" where
  "quoted s = CHR 0x22 # s @ [CHR 0x22]"

definition example_request :: string where
  "example_request = ''{'' @ quoted ''jsonrpc'' @ '':'' @ quoted ''2.0'' @ '','' @ quoted ''id'' @ '':1,''
     @ quoted ''method'' @ '':'' @ quoted ''m'' @ ''}''"

lemma length_quoted [simp]: "length (quoted s) = Suc (Suc (length s))"
  by (simp add: quoted_def)

lemma from_string_plain:
  "from_string ''jsonrpc'' = Inr (quoted ''jsonrpc'')" "from_string ''2.0'' = Inr (quoted ''2.0'')"
  "from_string ''id'' = Inr (quoted ''id'')" "from_string ''method'' = Inr (quoted ''method'')"
  "from_string ''m'' = Inr (quoted ''m'')" "from_string ''code'' = Inr (quoted ''code'')"
  "from_string ''message'' = Inr (quoted ''message'')" "from_string ''error'' = Inr (quoted ''error'')"
  by (simp_all add: from_string_def byte_of_def utf8_width_def escape_char_def MAX_BYTES_def quoted_def)

lemma parse_text:
  assumes "from_string s = Inr k" "utf8_complete s"
  shows "parse_json k = Inr (JsonNode k (JString s) 0 1)"
  using from_string_text(2) [OF assms]
  by (intro value_document [OF value_string [OF from_string_text(1) [OF assms]]]) (simp_all add: MAX_VALUES_def)

lemma utf8_m: "utf8_complete ''m''"
  by (simp add: utf8_complete_def utf8_width_def byte_of_def)

lemma parse_number: "parse_json ''1'' = Inr (JsonNode ''1'' (JNumber ''1'') 0 1)"
  by (rule value_document [OF value_number [OF example_number]]) (simp_all add: MAX_BYTES_def MAX_VALUES_def)

lemma trim_examples:
  "trim_whitespace (quoted ''2.0'') = quoted ''2.0''" "trim_whitespace (quoted ''m'') = quoted ''m''"
  "trim_whitespace ''1'' = ''1''"
  by (simp_all add: trim_whitespace_def quoted_def is_json_whitespace_def)

lemmas example_parses = parse_text [OF from_string_plain(2) utf8_keys(10)] parse_text [OF from_string_plain(5) utf8_m]
  parse_number

lemma example_request_object: "from_object [(''jsonrpc'', quoted ''2.0''), (''id'', ''1''), (''method'', quoted ''m'')]
    = Inr example_request"
  by (simp add: from_object_def from_string_plain example_parses trim_examples add_child_def
      MAX_VALUES_def MAX_BYTES_def MAX_DEPTH_def, simp add: example_request_def quoted_def)

lemma length_request: "length example_request \<le> 60"
  by (simp add: example_request_def)

lemma example_validated:
  assumes "60 \<le> limit" "valid_limit limit"
  shows "validate example_request limit = Inr Request"
proof -
  have keys: "list_all (\<lambda>(key, raw). utf8_complete key)
      [(''jsonrpc'', quoted ''2.0''), (''id'', ''1''), (''method'', quoted ''m'')]"
    using utf8_keys by simp
  obtain ns where ns: "map (\<lambda>(key, raw). parsed_element raw)
        [(''jsonrpc'', quoted ''2.0''), (''id'', ''1''), (''method'', quoted ''m'')] = map Some ns"
      "parse_json example_request = Inr (JsonNode example_request (JObject (zip (map fst
        [(''jsonrpc'', quoted ''2.0''), (''id'', ''1''), (''method'', quoted ''m'')]) (map (deepen 1) ns)))
        (deepest 0 ns + 1) (Suc (total_values ns)))"
    using from_object_node [OF example_request_object keys] by blast
  have "ns = [JsonNode (quoted ''2.0'') (JString ''2.0'') 0 1, JsonNode ''1'' (JNumber ''1'') 0 1,
      JsonNode (quoted ''m'') (JString ''m'') 0 1]"
    using ns(1) by (auto simp: parsed_element_def example_parses trim_examples)
  then have "validate_envelope (JsonNode example_request (JObject (zip (map fst
        [(''jsonrpc'', quoted ''2.0''), (''id'', ''1''), (''method'', quoted ''m'')]) (map (deepen 1) ns)))
        (deepest 0 ns + 1) (Suc (total_values ns))) = Inr Request"
    by (simp add: envelope_defs)
  moreover have "length example_request \<le> 60" "newline \<notin> set example_request" "carriage_return \<notin> set example_request"
    by (simp_all add: example_request_def quoted_def newline_def carriage_return_def)
  ultimately show ?thesis using assms ns(2) by (simp add: validate_def)
qed

lemma max_limit: "valid_limit MAX_MESSAGE_BYTES" "60 \<le> MAX_MESSAGE_BYTES" "valid_limit 100"
  by (simp_all add: valid_limit_def MAX_MESSAGE_BYTES_def)

lemma example_request_built: "request ''1'' ''m'' None = Inr example_request"
  using example_request_object example_validated [OF max_limit(2,1)]
  by (simp add: request_def parse_part_def parse_number check_params_def json_text_def from_string_plain
      construct_def optional_member_def trim_examples)

theorem request_is_request_witness:
  "kind example_request = Inr Request \<and> message_member example_request ''method'' = Some (JString ''m'')
    \<and> message_member example_request ''id'' = Some (node_value (JsonNode ''1'' (JNumber ''1'') 0 1))"
  by (rule request_is_request [OF example_request_built utf8_m parse_number])

lemma example_encoded: "encode example_request 100 = Inr (example_request @ [newline])"
  using example_validated [of 100] max_limit by (simp add: encode_def checked_limit_def)

theorem encode_feed_roundtrip_witness:
  "feed \<lparr>dec_pending = [], dec_limit = 100\<rparr> (concat (map snd [(example_request, example_request @ [newline])]))
    = Inr \<lparr>batch_decoder = \<lparr>dec_pending = [], dec_limit = 100\<rparr>,
           batch_messages = map fst [(example_request, example_request @ [newline])]\<rparr>"
  by (rule encode_feed_roundtrip)
    (use length_request in \<open>simp_all add: example_encoded max_limit MAX_CHUNK_BYTES_def MAX_BATCH_MESSAGES_def\<close>)

lemma example_first: "feed \<lparr>dec_pending = [], dec_limit = 100\<rparr> ''{''
    = Inr \<lparr>batch_decoder = \<lparr>dec_pending = ''{'', dec_limit = 100\<rparr>, batch_messages = []\<rparr>"
  by (simp add: feed_Ok_iff decoder_valid_def max_limit MAX_CHUNK_BYTES_def newline_def)

lemma example_second: "feed (batch_decoder \<lparr>batch_decoder = \<lparr>dec_pending = ''{'', dec_limit = 100\<rparr>, batch_messages = []\<rparr>)
      (tl example_request @ [newline])
    = Inr \<lparr>batch_decoder = \<lparr>dec_pending = [], dec_limit = 100\<rparr>, batch_messages = [example_request]\<rparr>"
proof -
  have e: "''{'' @ tl example_request @ [newline] = example_request @ newline # []"
    by (simp add: example_request_def)
  have "newline \<notin> set example_request" "strip_cr example_request = example_request" "example_request \<noteq> []"
    by (simp_all add: example_request_def quoted_def newline_def carriage_return_def strip_cr_def)
  then have "lines_of (''{'' @ tl example_request @ [newline]) = ([example_request], [])"
    unfolding e by (simp add: lines_of_newline)
  moreover have "length (tl example_request @ [newline]) \<le> MAX_CHUNK_BYTES"
    by (simp add: example_request_def quoted_def MAX_CHUNK_BYTES_def)
  ultimately show ?thesis
    using example_validated [of 100] max_limit(3) \<open>strip_cr example_request = example_request\<close> \<open>example_request \<noteq> []\<close>
    by (simp add: feed_Ok_iff decoder_valid_def newline_def MAX_BATCH_MESSAGES_def)
qed

theorem feed_chunks_witness:
  "feed \<lparr>dec_pending = [], dec_limit = 100\<rparr> (''{'' @ (tl example_request @ [newline]))
    = Inr \<lparr>batch_decoder = batch_decoder \<lparr>batch_decoder = \<lparr>dec_pending = [], dec_limit = 100\<rparr>, batch_messages = [example_request]\<rparr>,
        batch_messages = batch_messages \<lparr>batch_decoder = \<lparr>dec_pending = ''{'', dec_limit = 100\<rparr>, batch_messages = []\<rparr>
          @ batch_messages \<lparr>batch_decoder = \<lparr>dec_pending = [], dec_limit = 100\<rparr>, batch_messages = [example_request]\<rparr>\<rparr>"
  by (rule feed_chunks [OF example_first example_second])
    (simp_all add: example_request_def quoted_def MAX_CHUNK_BYTES_def MAX_BATCH_MESSAGES_def)

definition example_failure :: string where
  "example_failure = ''{'' @ quoted ''jsonrpc'' @ '':'' @ quoted ''2.0'' @ '','' @ quoted ''id'' @ '':1,''
     @ quoted ''error'' @ '':{'' @ quoted ''code'' @ '':1,'' @ quoted ''message'' @ '':'' @ quoted ''m'' @ ''}}''"

definition example_error :: string where
  "example_error = ''{'' @ quoted ''code'' @ '':1,'' @ quoted ''message'' @ '':'' @ quoted ''m'' @ ''}''"

lemma show_one: "show_i64 1 = ''1''"
proof -
  have "char_of (49 :: nat) = CHR ''1''" by code_simp
  then show ?thesis by (simp add: show_i64_def show_nat_less10)
qed

lemma example_error_object: "from_object [(''code'', ''1''), (''message'', quoted ''m'')] = Inr example_error"
  by (simp add: from_object_def from_string_plain example_parses trim_examples add_child_def
      MAX_VALUES_def MAX_BYTES_def MAX_DEPTH_def, simp add: example_error_def quoted_def)

lemma example_error_parsed: "parse_json example_error = Inr (JsonNode example_error
    (JObject [(''code'', JsonNode ''1'' (JNumber ''1'') 0 1), (''message'', JsonNode (quoted ''m'') (JString ''m'') 0 1)]) 1 3)"
proof -
  have keys: "list_all (\<lambda>(key, raw). utf8_complete key) [(''code'', ''1''), (''message'', quoted ''m'')]"
    using utf8_keys by simp
  from from_object_node [OF example_error_object keys] show ?thesis
    by (auto simp: parsed_element_def example_parses trim_examples deepest_Cons)
qed

lemma length_error: "length example_error = 24"
  by (simp add: example_error_def)

lemma trim_error: "trim_whitespace example_error = example_error"
  by (simp add: trim_whitespace_def example_error_def quoted_def is_json_whitespace_def)

lemma example_failure_object: "from_object [(''jsonrpc'', quoted ''2.0''), (''id'', ''1''), (''error'', example_error)]
    = Inr example_failure"
  using example_error_parsed trim_error
  by (simp add: from_object_def from_string_plain example_parses trim_examples add_child_def
      MAX_VALUES_def MAX_BYTES_def MAX_DEPTH_def length_error, simp add: example_failure_def example_error_def quoted_def)

lemma example_failure_built: "failure ''1'' 1 ''m'' None = Inr example_failure"
proof -
  let ?members = "[(''jsonrpc'', quoted ''2.0''), (''id'', ''1''), (''error'', example_error)]"
  have keys: "list_all (\<lambda>(key, raw). utf8_complete key) ?members" using utf8_keys by simp
  have one: "parse_i64 ''1'' \<noteq> None" using parse_show_i64 [of 1] show_one by simp
  obtain ns where ns: "map (\<lambda>(key, raw). parsed_element raw) ?members = map Some ns"
      "parse_json example_failure = Inr (JsonNode example_failure (JObject (zip (map fst ?members) (map (deepen 1) ns)))
        (deepest 0 ns + 1) (Suc (total_values ns)))"
    using from_object_node [OF example_failure_object keys] by blast
  have "ns = [JsonNode (quoted ''2.0'') (JString ''2.0'') 0 1, JsonNode ''1'' (JNumber ''1'') 0 1,
      JsonNode example_error (JObject [(''code'', JsonNode ''1'' (JNumber ''1'') 0 1),
        (''message'', JsonNode (quoted ''m'') (JString ''m'') 0 1)]) 1 3]"
    using ns(1) by (auto simp: parsed_element_def example_parses trim_examples example_error_parsed trim_error)
  then have "validate_envelope (JsonNode example_failure (JObject (zip (map fst ?members) (map (deepen 1) ns)))
        (deepest 0 ns + 1) (Suc (total_values ns))) = Inr ErrorResponse"
    using one by (simp add: envelope_defs response_id_def validate_error_def error_slot_def empty_error_slots_def
        is_error_code_def is_string_slot_def)
  moreover have "length example_failure \<le> MAX_MESSAGE_BYTES" "newline \<notin> set example_failure" "carriage_return \<notin> set example_failure"
    by (simp_all add: example_failure_def quoted_def newline_def carriage_return_def MAX_MESSAGE_BYTES_def)
  ultimately have "validate example_failure MAX_MESSAGE_BYTES = Inr ErrorResponse"
    using ns(2) max_limit(1) by (simp add: validate_def)
  then show ?thesis
    using example_failure_object example_error_object
    by (simp add: failure_def parse_part_def parse_number json_text_def from_string_plain show_one
        construct_def optional_member_def trim_examples response_id_def)
qed

theorem failure_is_error_witness:
  "kind example_failure = Inr ErrorResponse
    \<and> message_member example_failure ''id'' = Some (node_value (JsonNode ''1'' (JNumber ''1'') 0 1))"
  by (rule failure_is_error [OF example_failure_built utf8_m parse_number])

end
