(* ===== verification/Cron.thy ===== *)
theory Cron
  imports Prelude "HOL-Library.Word"
begin

unbundle bit_operations_syntax

text \<open>
  Cron schedules of \<open>crates/nomo_wasm/src/cron.rs\<close>: parsing a five-field expression to bit masks, the
  match of a minute and the search for the next matching minute. Expressions are ASCII text as lists of
  bytes, masks \<open>u64\<close> words. A timestamp is an \<open>int\<close>; \<open>validate_timestamp\<close> rejects negative ones before
  any division, so that the division of \<open>i64\<close> and \<open>u64\<close> values is that of the integers.
\<close>

section \<open>Errors\<close>

definition MAX_EXPRESSION_BYTES :: nat where "MAX_EXPRESSION_BYTES = 256"
definition SEARCH_MINUTES :: nat where "SEARCH_MINUTES = 4208400"
definition MAX_TIMESTAMP_MILLIS :: int where "MAX_TIMESTAMP_MILLIS = 253402300799999"

record cron_error =
  ce_code :: string
  ce_message :: string
  ce_field :: nat

definition cron_error :: "string \<Rightarrow> nat \<Rightarrow> cron_error" where
  "cron_error code field = \<lparr>ce_code = code,
     ce_message =
       (if code = ''range'' then ''cron field value is outside its range''
        else if code = ''limit'' then ''cron limit exceeded''
        else if code = ''timestamp_range'' then ''cron timestamp is outside the supported range''
        else if code = ''no_match'' then ''cron schedule has no later matching minute''
        else ''invalid cron expression syntax''),
     ce_field = field\<rparr>"

record parsed_schedule =
  sch_minute :: u64
  sch_hour :: u64
  sch_day_of_month :: u64
  sch_month :: u64
  sch_day_of_week :: u64

section \<open>Text\<close>

text \<open>\<open>str::split\<close> on a character: the parts between its occurrences, at least one.\<close>

fun split_on :: "char \<Rightarrow> string \<Rightarrow> string list" where
  "split_on sep [] = [[]]"
| "split_on sep (c # cs) =
     (if c = sep then [] # split_on sep cs
      else case split_on sep cs of part # parts \<Rightarrow> (c # part) # parts | [] \<Rightarrow> [[c]])"

definition is_ascii_whitespace :: "char \<Rightarrow> bool" where
  "is_ascii_whitespace c \<longleftrightarrow> byte_of c \<in> {32, 9, 10, 12, 13}"

text \<open>\<open>str::split_ascii_whitespace\<close>: the maximal runs of other characters.\<close>

fun split_ascii_whitespace :: "string \<Rightarrow> string list" where
  "split_ascii_whitespace s = filter (\<lambda>part. part \<noteq> [])
     (split_on CHR '' '' (map (\<lambda>c. if is_ascii_whitespace c then CHR '' '' else c) s))"

definition is_ascii_text :: "string \<Rightarrow> bool" where
  "is_ascii_text s \<longleftrightarrow> list_all (\<lambda>c. byte_of c < 128) s"

definition parse_unsigned :: "string \<Rightarrow> nat \<Rightarrow> cron_error + nat" where
  "parse_unsigned s field =
     (if s = [] \<or> \<not> list_all is_ascii_digit s then Err (cron_error ''syntax'' field)
      else if 18446744073709551615 < digits_value s then Err (cron_error ''range'' field)
      else Ok (digits_value s))"

definition split_range :: "string \<Rightarrow> nat \<Rightarrow> cron_error + (string \<times> string) option" where
  "split_range s field = (case split_on CHR ''-'' s of
       [left, right] \<Rightarrow>
         if left = [] \<or> right = [] then Err (cron_error ''syntax'' field) else Ok (Some (left, right))
     | left # right # third # parts \<Rightarrow> Err (cron_error ''syntax'' field)
     | _ \<Rightarrow> Ok None)"

section \<open>Fields\<close>

definition bit_at :: "nat \<Rightarrow> u64" where
  "bit_at v = push_bit v 1"

definition contains :: "u64 \<Rightarrow> nat \<Rightarrow> bool" where
  "contains bits v \<longleftrightarrow> bits AND bit_at v \<noteq> 0"

text \<open>
  The loop of \<open>parse_member\<close>. A step of 0 is rejected before the loop; the test for it only makes the
  recursion total.
\<close>

function set_values :: "nat \<Rightarrow> nat \<Rightarrow> nat \<Rightarrow> u64 \<Rightarrow> u64" where
  "set_values v last_value step bits =
     (let bits = bits OR bit_at v in
      if step = 0 \<or> last_value - v < step then bits else set_values (v + step) last_value step bits)"
  by pat_completeness auto
termination
  by (relation "measure (\<lambda>(v, last_value, step, bits). last_value - v)") auto

declare set_values.simps [simp del]

definition parse_step :: "string option \<Rightarrow> nat \<Rightarrow> nat \<Rightarrow> nat \<Rightarrow> cron_error + nat" where
  "parse_step step_text minimum maximum field = (case step_text of
       Some text \<Rightarrow> try_bind (parse_unsigned text field) (\<lambda>parsed.
         if parsed = 0 \<or> maximum - minimum + 1 < parsed then Err (cron_error ''range'' field) else Ok parsed)
     | None \<Rightarrow> Ok 1)"

definition parse_bounds ::
    "string \<Rightarrow> string option \<Rightarrow> nat \<Rightarrow> nat \<Rightarrow> nat \<Rightarrow> cron_error + nat \<times> nat" where
  "parse_bounds base step_text minimum maximum field =
     (if base = ''*'' then Ok (minimum, maximum)
      else try_bind (split_range base field) (\<lambda>range. case range of
          Some (left, right) \<Rightarrow> try_bind (parse_unsigned left field) (\<lambda>left.
            map_ok (\<lambda>right. (left, right)) (parse_unsigned right field))
        | None \<Rightarrow>
            if step_text \<noteq> None then Err (cron_error ''syntax'' field)
            else map_ok (\<lambda>v. (v, v)) (parse_unsigned base field)))"

definition parse_parts ::
    "string \<Rightarrow> string option \<Rightarrow> nat \<Rightarrow> nat \<Rightarrow> nat \<Rightarrow> u64 \<Rightarrow> cron_error + u64" where
  "parse_parts base step_text minimum maximum field bits =
     try_bind (parse_step step_text minimum maximum field) (\<lambda>step.
       try_bind (parse_bounds base step_text minimum maximum field) (\<lambda>(start, last_value).
         if start < minimum \<or> maximum < start \<or> last_value < minimum \<or> maximum < last_value
            \<or> last_value < start
         then Err (cron_error ''range'' field)
         else Ok (set_values start last_value step bits)))"

definition parse_member :: "string \<Rightarrow> nat \<Rightarrow> nat \<Rightarrow> nat \<Rightarrow> u64 \<Rightarrow> cron_error + u64" where
  "parse_member text minimum maximum field bits =
     (case split_on CHR ''/'' text of
        [base] \<Rightarrow> parse_parts base None minimum maximum field bits
      | [base, step_text] \<Rightarrow> parse_parts base (Some step_text) minimum maximum field bits
      | _ \<Rightarrow> Err (cron_error ''syntax'' field))"

fun parse_members_loop :: "string list \<Rightarrow> nat \<Rightarrow> nat \<Rightarrow> nat \<Rightarrow> u64 \<Rightarrow> cron_error + u64" where
  "parse_members_loop [] minimum maximum field bits = Ok bits"
| "parse_members_loop (member # members) minimum maximum field bits =
     (if member = [] then Err (cron_error ''syntax'' field)
      else try_bind (parse_member member minimum maximum field bits)
        (parse_members_loop members minimum maximum field))"

definition parse_field :: "string \<Rightarrow> nat \<Rightarrow> nat \<Rightarrow> nat \<Rightarrow> cron_error + u64" where
  "parse_field text minimum maximum field =
     try_bind (parse_members_loop (split_on CHR '','' text) minimum maximum field 0) (\<lambda>bits.
       if bits = 0 then Err (cron_error ''syntax'' field) else Ok bits)"

definition parse_schedule :: "string \<Rightarrow> cron_error + parsed_schedule" where
  "parse_schedule expression =
     (if MAX_EXPRESSION_BYTES < length expression then Err (cron_error ''limit'' 5)
      else if \<not> is_ascii_text expression then Err (cron_error ''syntax'' 5)
      else
        let fields = split_ascii_whitespace expression in
        if length fields \<noteq> 5 then Err (cron_error ''syntax'' 5)
        else
          try_bind (parse_field (fields ! 0) 0 59 0) (\<lambda>minute.
          try_bind (parse_field (fields ! 1) 0 23 1) (\<lambda>hour.
          try_bind (parse_field (fields ! 2) 1 31 2) (\<lambda>day_of_month.
          try_bind (parse_field (fields ! 3) 1 12 3) (\<lambda>month.
          try_bind (parse_field (fields ! 4) 0 6 4) (\<lambda>day_of_week.
            Ok \<lparr>sch_minute = minute, sch_hour = hour, sch_day_of_month = day_of_month,
                sch_month = month, sch_day_of_week = day_of_week\<rparr>))))))"

section \<open>Matching\<close>

definition civil_from_days :: "int \<Rightarrow> int \<times> int \<times> int" where
  "civil_from_days days =
     (let adjusted = days + 719468;
          era = adjusted div 146097;
          day_of_era = adjusted - era * 146097;
          year_of_era = (day_of_era - day_of_era div 1460 + day_of_era div 36524 - day_of_era div 146096) div 365;
          year = year_of_era + era * 400;
          day_of_year = day_of_era - (365 * year_of_era + year_of_era div 4 - year_of_era div 100);
          month_prime = (5 * day_of_year + 2) div 153;
          day = day_of_year - (153 * month_prime + 2) div 5 + 1;
          month = (if month_prime < 10 then month_prime + 3 else month_prime - 9)
      in (year + (if month \<le> 2 then 1 else 0), month, day))"

definition full_mask :: "nat \<Rightarrow> nat \<Rightarrow> u64" where
  "full_mask minimum maximum = fold (\<lambda>v bits. bits OR bit_at v) [minimum..<maximum + 1] 0"

definition minute_matches :: "parsed_schedule \<Rightarrow> int \<Rightarrow> bool" where
  "minute_matches schedule minute_index =
     (let days = minute_index div 1440;
          minute = nat (minute_index mod 60);
          hour = nat ((minute_index div 60) mod 24);
          (_, month, day) = civil_from_days days;
          day_of_week = nat ((days + 4) mod 7)
      in if \<not> contains (sch_minute schedule) minute \<or> \<not> contains (sch_hour schedule) hour
            \<or> \<not> contains (sch_month schedule) (nat month)
         then False
         else
           let day_of_month_matches = contains (sch_day_of_month schedule) (nat day);
               day_of_week_matches = contains (sch_day_of_week schedule) day_of_week;
               day_of_month_unrestricted = (sch_day_of_month schedule = full_mask 1 31);
               day_of_week_unrestricted = (sch_day_of_week schedule = full_mask 0 6)
           in case (day_of_month_unrestricted, day_of_week_unrestricted) of
                (True, True) \<Rightarrow> True
              | (True, False) \<Rightarrow> day_of_week_matches
              | (False, True) \<Rightarrow> day_of_month_matches
              | (False, False) \<Rightarrow> day_of_month_matches \<or> day_of_week_matches)"

section \<open>Operations\<close>

definition validate_timestamp :: "int \<Rightarrow> cron_error + unit" where
  "validate_timestamp unix_millis =
     (if \<not> (0 \<le> unix_millis \<and> unix_millis \<le> MAX_TIMESTAMP_MILLIS) then Err (cron_error ''timestamp_range'' 5)
      else Ok ())"

definition parse_cron :: "string \<Rightarrow> cron_error + unit" where
  "parse_cron expression = map_ok (\<lambda>_. ()) (parse_schedule expression)"

definition cron_matches :: "string \<Rightarrow> int \<Rightarrow> cron_error + bool" where
  "cron_matches expression unix_millis =
     try_bind (validate_timestamp unix_millis) (\<lambda>_.
       try_bind (parse_schedule expression) (\<lambda>parsed.
         Ok (minute_matches parsed (unix_millis div 60000))))"

text \<open>The loop of \<open>next_after\<close>: at most the given number of candidates.\<close>

fun search_minute :: "nat \<Rightarrow> parsed_schedule \<Rightarrow> int \<Rightarrow> int option" where
  "search_minute 0 parsed candidate = None"
| "search_minute (Suc n) parsed candidate =
     (if MAX_TIMESTAMP_MILLIS div 60000 < candidate then None
      else if minute_matches parsed candidate then Some candidate
      else search_minute n parsed (candidate + 1))"

definition next_after :: "string \<Rightarrow> int \<Rightarrow> cron_error + int" where
  "next_after expression unix_millis =
     try_bind (validate_timestamp unix_millis) (\<lambda>_.
       try_bind (parse_schedule expression) (\<lambda>parsed.
         case search_minute SEARCH_MINUTES parsed (unix_millis div 60000 + 1) of
           Some candidate \<Rightarrow> Ok (candidate * 60000)
         | None \<Rightarrow> Err (cron_error ''no_match'' 5)))"

end
