(* ===== verification/Cron_Calendar.thy ===== *)
theory Cron_Calendar
  imports Cron
begin

text \<open>
  The calendar behind \<open>civil_from_days\<close>: the closed form of the code against the recurrence of the
  Gregorian calendar, one day after the other, and the distance to an earlier day with the same date or
  the same weekday and month.
\<close>

section \<open>The calendar as a recurrence\<close>

definition leap_year :: "int \<Rightarrow> bool" where
  "leap_year y \<longleftrightarrow> y mod 4 = 0 \<and> (y mod 100 \<noteq> 0 \<or> y mod 400 = 0)"

definition month_days :: "int \<Rightarrow> int \<Rightarrow> int" where
  "month_days y m =
     (if m = 2 then (if leap_year y then 29 else 28) else if m \<in> {4, 6, 9, 11} then 30 else 31)"

definition next_date :: "int \<times> int \<times> int \<Rightarrow> int \<times> int \<times> int" where
  "next_date date = (case date of (y, m, d) \<Rightarrow>
     if d < month_days y m then (y, m, d + 1) else if m < 12 then (y, m + 1, 1) else (y + 1, 1, 1))"

section \<open>Years that start in March\<close>

text \<open>
  The closed form counts years from the first of March: \<open>year_start m\<close> is the number of days before the
  year \<open>m\<close>, and \<open>month_day\<close> reads the month and the day off the day of such a year.
\<close>

definition year_start :: "int \<Rightarrow> int" where
  "year_start m = 365 * m + m div 4 - m div 100 + m div 400"

definition year_days :: "int \<Rightarrow> int" where
  "year_days m = (if leap_year (m + 1) then 366 else 365)"

definition month_day :: "int \<Rightarrow> int \<times> int" where
  "month_day doy = (let mp = (5 * doy + 2) div 153 in
     (if mp < 10 then mp + 3 else mp - 9, doy - (153 * mp + 2) div 5 + 1))"

definition year_of_era :: "int \<Rightarrow> int" where
  "year_of_era doe = (doe - doe div 1460 + doe div 36524 - doe div 146096) div 365"

lemma div_step: "(x + 1) div k = x div k + (if (x + 1) mod k = 0 then 1 else 0)" if "0 < k" for x k :: int
proof (cases "(x + 1) mod k = 0")
  case True
  then have "k dvd x + 1" by (rule mod_0_imp_dvd)
  then obtain q where q: "x + 1 = k * q" by (elim dvdE)
  then have x: "x = k * (q - 1) + (k - 1)" by (simp add: algebra_simps)
  have "x div k = q - 1" unfolding x using that by simp
  then show ?thesis using q that by simp
next
  case False
  then have "0 < (x + 1) mod k" "(x + 1) mod k < k"
    using pos_mod_sign [OF that, of "x + 1"] pos_mod_bound [OF that, of "x + 1"] by linarith+
  then have "((x + 1) div k * k + ((x + 1) mod k - 1)) div k = (x + 1) div k"
    by simp
  moreover have "(x + 1) div k * k + ((x + 1) mod k - 1) = x"
    using div_mult_mod_eq [of "x + 1" k] by linarith
  ultimately show ?thesis using False by simp
qed

lemma year_start_Suc: "year_start (m + 1) = year_start m + year_days m"
proof -
  let ?a = "(m + 1) mod 4 = 0" and ?b = "(m + 1) mod 100 = 0" and ?c = "(m + 1) mod 400 = 0"
  have "(4 :: int) dvd 100" "(100 :: int) dvd 400" by simp_all
  then have "?b \<longrightarrow> ?a" "?c \<longrightarrow> ?b" unfolding mod_eq_0_iff_dvd by (blast intro: dvd_trans)+
  moreover have "year_start (m + 1) - year_start m
      = 365 + (if ?a then 1 else 0) - (if ?b then 1 else 0) + (if ?c then 1 else 0)"
    unfolding year_start_def by (simp add: div_step del: if_split)
  ultimately show ?thesis unfolding year_days_def leap_year_def by (cases ?a; cases ?b; cases ?c) simp_all
qed

lemma year_days_bounds: "365 \<le> year_days m" "year_days m \<le> 366" by (simp_all add: year_days_def)

text \<open>Every day has its year and its day of the year.\<close>

lemma day_of_year_exists:
  assumes "0 \<le> n"
  shows "\<exists>m doy. 0 \<le> m \<and> 0 \<le> doy \<and> doy < year_days m \<and> n = year_start m + doy"
  using assms
proof (induction n rule: int_ge_induct)
  case base
  have "year_start 0 = 0" "0 < year_days 0" by (simp_all add: year_start_def year_days_def)
  then show ?case by (intro exI [of _ 0]) simp
next
  case (step n)
  then obtain m doy where m: "0 \<le> m" "0 \<le> doy" "doy < year_days m" "n = year_start m + doy" by auto
  show ?case
  proof (cases "doy + 1 < year_days m")
    case True
    then show ?thesis using m by (intro exI [of _ m] exI [of _ "doy + 1"]) simp
  next
    case False
    then have "n + 1 = year_start (m + 1)" using m by (simp add: year_start_Suc)
    then show ?thesis using m year_days_bounds [of "m + 1"]
      by (intro exI [of _ "m + 1"] exI [of _ 0]) auto
  qed
qed

section \<open>The closed form\<close>

lemma div_diff_mono: "a - a div k \<le> b - b div k" if "a \<le> b" "0 < k" for a b k :: int
proof -
  have "b div k - a div k \<le> b - a"
  proof -
    have "(a + (b - a)) div k \<le> (a + (b - a) * k) div k"
      by (rule zdiv_mono1) (use that mult_le_cancel_left1 [of "b - a" k] in auto)
    then show ?thesis using that by simp
  qed
  then show ?thesis by linarith
qed

lemma era_days_mono:
  assumes "a \<le> b"
  shows "a - a div 1460 + a div 36524 - a div 146096 \<le> b - b div 1460 + b div 36524 - b div (146096 :: int)"
proof -
  have d: "x div 146096 = x div 36524 div 4" for x :: int by (simp add: zdiv_zmult2_eq [symmetric])
  have "a div 36524 - a div 36524 div 4 \<le> b div 36524 - b div 36524 div 4"
    by (rule div_diff_mono) (use assms in \<open>simp_all add: zdiv_mono1\<close>)
  then show ?thesis using div_diff_mono [OF assms, of 1460] unfolding d by linarith
qed

lemma era_years:
  "list_all (\<lambda>y. year_of_era (year_start y) = y \<and> year_of_era (year_start y + year_days y - 1) = y) [0..399]"
  by code_simp

lemma year_of_era_eq:
  assumes "0 \<le> y" "y < 400" "0 \<le> doy" "doy < year_days y"
  shows "year_of_era (year_start y + doy) = y"
proof -
  have "year_of_era (year_start y) = y" "year_of_era (year_start y + year_days y - 1) = y"
    using era_years assms(1,2) by (auto simp: list_all_iff)
  moreover have "year_of_era (year_start y) \<le> year_of_era (year_start y + doy)"
    "year_of_era (year_start y + doy) \<le> year_of_era (year_start y + year_days y - 1)"
    unfolding year_of_era_def by (intro zdiv_mono1 era_days_mono; use assms in simp)+
  ultimately show ?thesis by linarith
qed

lemma year_start_era: "year_start (400 * e + y) = 146097 * e + year_start y"
proof -
  have "(y + 4 * (100 * e)) div 4 = 100 * e + y div 4" "(y + 100 * (4 * e)) div 100 = 4 * e + y div 100"
    "(y + 400 * e) div 400 = e + y div 400" by simp_all
  then show ?thesis by (simp add: year_start_def algebra_simps)
qed

lemma leap_year_era: "leap_year (400 * e + y) = leap_year y"
proof -
  have "(y + 4 * (100 * e)) mod 4 = y mod 4" "(y + 100 * (4 * e)) mod 100 = y mod 100"
    "(y + 400 * e) mod 400 = y mod 400" by (simp_all only: mod_mult_self2)
  then show ?thesis by (simp add: leap_year_def algebra_simps)
qed

lemma year_start_in_era:
  assumes "0 \<le> y" "y < 400" "doy < year_days y"
  shows "year_start y + doy < 146097"
proof -
  have mono: "year_start a \<le> year_start b" if "a \<le> b" for a b
    using that
  proof (induction b rule: int_ge_induct)
    case (step i)
    then show ?case using year_days_bounds [of i] by (simp add: year_start_Suc)
  qed simp
  have "year_start y + year_days y \<le> year_start 400"
    unfolding year_start_Suc [symmetric] by (rule mono) (use assms in simp)
  moreover have "year_start 400 = 146097" by (simp add: year_start_def)
  ultimately show ?thesis using assms(3) by linarith
qed

lemma civil_from_days_eq:
  "civil_from_days n =
     (let e = (n + 719468) div 146097; doe = n + 719468 - e * 146097; y = year_of_era doe;
          date = month_day (doe - (365 * y + y div 4 - y div 100))
      in (y + e * 400 + (if fst date \<le> 2 then 1 else 0), date))"
  unfolding civil_from_days_def year_of_era_def month_day_def Let_def fst_conv by (rule refl)

lemma civil_of_day_of_year:
  assumes "0 \<le> doy" "doy < year_days m"
  shows "civil_from_days (year_start m + doy - 719468)
     = (m + (if fst (month_day doy) \<le> 2 then 1 else 0), month_day doy)"
proof -
  define e where "e = m div 400"
  define y where "y = m mod 400"
  have m: "m = 400 * e + y" "0 \<le> y" "y < 400" by (simp_all add: e_def y_def)
  have days: "year_days m = year_days y"
    using leap_year_era [of e "y + 1"] by (simp add: year_days_def m(1) add.assoc)
  have start: "0 \<le> year_start y"
    using m(2,3) zdiv_mono2 [of y 4 100] pos_imp_zdiv_nonneg_iff [of 400 y] by (simp add: year_start_def)
  let ?doe = "year_start y + doy"
  have doe: "0 \<le> ?doe" "?doe < 146097"
    using start assms year_start_in_era [OF m(2,3)] by (simp_all add: days)
  have n: "year_start m + doy = ?doe + e * 146097" by (simp add: m(1) year_start_era)
  have era: "(?doe + e * 146097) div 146097 = e" using doe by simp
  have yoe: "year_of_era ?doe = y"
    by (rule year_of_era_eq) (use assms m(2,3) in \<open>simp_all add: days\<close>)
  have doy: "?doe - (365 * y + y div 4 - y div 100) = doy" using m by (simp add: year_start_def)
  show ?thesis
    unfolding n civil_from_days_eq diff_add_cancel era Let_def add_diff_cancel_right' yoe doy
    by (simp add: m(1))
qed

section \<open>One day after the other\<close>

text \<open>The months of a year that starts in March, by evaluation over its 366 days.\<close>

definition day_after :: "int \<times> int \<Rightarrow> int \<times> int" where
  "day_after date = (case date of (m, d) \<Rightarrow>
     if d < (if m = 2 then 29 else month_days 1 m) then (m, d + 1) else (if m < 12 then m + 1 else 1, 1))"

definition month_starts :: "int list" where
  "month_starts = [0, 31, 61, 92, 122, 153, 184, 214, 245, 275, 306, 337]"

lemma months_table: "list_all (\<lambda>doy. month_day (doy + 1) = day_after (month_day doy)) [0..364]"
  by code_simp

lemma months_ranges:
  "list_all (\<lambda>doy. case month_day doy of (m, d) \<Rightarrow> 1 \<le> m \<and> m \<le> 12 \<and> 1 \<le> d \<and> d \<le> 31
     \<and> (m = 2 \<longrightarrow> d = doy - 336) \<and> doy - d + 1 \<in> set month_starts \<and> month_day (doy - d + 1) = (m, 1)) [0..365]"
  by code_simp

lemma first_weeks:
  "list_all (\<lambda>doy. list_all (\<lambda>k. fst (month_day (doy + k)) = fst (month_day doy)) [0..6]) month_starts"
  by code_simp

lemma month_day_Suc: "0 \<le> doy \<Longrightarrow> doy < 365 \<Longrightarrow> month_day (doy + 1) = day_after (month_day doy)"
  using months_table by (auto simp: list_all_iff)

lemma month_day_values: "month_day 0 = (3, 1)" "month_day 364 = (2, 28)" "month_day 365 = (2, 29)"
  by (simp_all add: month_day_def)

lemma month_day_cases:
  assumes "0 \<le> doy" "doy \<le> 365"
  obtains m d where "month_day doy = (m, d)" "1 \<le> m" "m \<le> 12" "1 \<le> d" "d \<le> 31" "m = 2 \<Longrightarrow> d = doy - 336"
    "doy - d + 1 \<in> set month_starts" "month_day (doy - d + 1) = (m, 1)"
proof -
  have "doy \<in> set [0..365]" using assms by simp
  then have "case month_day doy of (m, d) \<Rightarrow> 1 \<le> m \<and> m \<le> 12 \<and> 1 \<le> d \<and> d \<le> 31
     \<and> (m = 2 \<longrightarrow> d = doy - 336) \<and> doy - d + 1 \<in> set month_starts \<and> month_day (doy - d + 1) = (m, 1)"
    using months_ranges unfolding list_all_iff by (rule bspec [rotated])
  then show ?thesis by (cases "month_day doy") (use that in auto)
qed

lemma day_of_year:
  assumes "0 \<le> n + 719468"
  obtains m doy where "n = year_start m + doy - 719468" "0 \<le> doy" "doy < year_days m" "doy \<le> 365"
proof -
  obtain m doy where "n + 719468 = year_start m + doy" "0 \<le> doy" "doy < year_days m"
    using day_of_year_exists [OF assms] by blast
  then show ?thesis using that [of m doy] year_days_bounds [of m] by simp
qed

lemma civil_from_days_Suc:
  assumes "0 \<le> n + 719468"
  shows "civil_from_days (n + 1) = next_date (civil_from_days n)"
proof -
  obtain m doy where n: "n = year_start m + doy - 719468" and doy: "0 \<le> doy" "doy < year_days m" "doy \<le> 365"
    using day_of_year [OF assms] .
  note civil = civil_of_day_of_year [OF doy(1,2), folded n]
  show ?thesis
  proof (cases "doy + 1 < year_days m")
    case True
    obtain mo d where md: "month_day doy = (mo, d)" "1 \<le> mo" "mo \<le> 12" "1 \<le> d" "mo = 2 \<Longrightarrow> d = doy - 336"
      using month_day_cases [OF doy(1,3)] by blast
    have "doy < 365" using True year_days_bounds [of m] by linarith
    then have "month_day (doy + 1) = day_after (mo, d)" using month_day_Suc doy(1) md(1) by simp
    moreover have "civil_from_days (n + 1)
        = (m + (if fst (month_day (doy + 1)) \<le> 2 then 1 else 0), month_day (doy + 1))"
      unfolding n using civil_of_day_of_year [of "doy + 1" m] doy(1) True by (simp add: algebra_simps)
    ultimately show ?thesis using civil md True
      by (auto simp: next_date_def day_after_def month_days_def year_days_def split: if_splits)
  next
    case False
    then have last: "doy = year_days m - 1" using doy by simp
    have "civil_from_days (n + 1) = (m + 1, 3, 1)"
      using civil_of_day_of_year [of 0 "m + 1"] year_days_bounds [of "m + 1"] month_day_values
      by (simp add: n last year_start_Suc)
    then show ?thesis using civil month_day_values
      by (auto simp: last year_days_def next_date_def month_days_def split: if_splits)
  qed
qed

text \<open>
  The closed form of the code is the calendar counted day by day from the first of January 1970.
\<close>

lemma civil_from_days_recurrence: "civil_from_days (int n) = (next_date ^^ n) (1970, 1, 1)"
proof (induction n)
  case 0
  have "civil_from_days 0 = (1970, 1, 1)" by code_simp
  then show ?case by simp
next
  case (Suc n)
  then show ?case using civil_from_days_Suc [of "int n"] by (simp add: add.commute)
qed

section \<open>Earlier days\<close>

text \<open>A date has an earlier year that has it, at most 2,921 days before: eight years without a leap day.\<close>

lemma earlier_leap_day:
  assumes "leap_year (m + 1)"
  obtains k where "year_days k = 366" "year_start m - 2921 \<le> year_start k" "year_start k < year_start m"
proof -
  have four: "4 dvd m + 1" using assms by (simp add: leap_year_def mod_eq_0_iff_dvd)
  have plain: "year_days (m - i) = 365" if "\<not> 4 dvd m - i + 1" for i
    using that by (simp add: year_days_def leap_year_def mod_eq_0_iff_dvd)
  have days: "year_days (m - 1) = 365" "year_days (m - 2) = 365" "year_days (m - 3) = 365"
    "year_days (m - 5) = 365" "year_days (m - 6) = 365" "year_days (m - 7) = 365"
    by (rule plain; use four in presburger)+
  have starts: "year_start (m - i) = year_start (m - (i + 1)) + year_days (m - (i + 1))" for i
    using year_start_Suc [of "m - (i + 1)"] by simp
  have four_back: "year_start m = year_start (m - 4) + year_days (m - 4) + 1095"
    using starts [of 0] starts [of 1] starts [of 2] starts [of 3] days by simp
  have eight_back: "year_start (m - 4) = year_start (m - 8) + year_days (m - 8) + 1095"
    using starts [of 4] starts [of 5] starts [of 6] starts [of 7] days by simp
  show ?thesis
  proof (cases "leap_year (m - 3)")
    case True
    then have "year_days (m - 4) = 366" by (simp add: year_days_def)
    then show ?thesis using that [of "m - 4"] four_back by simp
  next
    case False
    have m4: "4 dvd m - 3" "4 dvd m - 7" using four by presburger+
    have "100 dvd m - 3" using False m4 by (simp add: leap_year_def mod_eq_0_iff_dvd)
    then have "\<not> 100 dvd m - 7" using dvd_diff [of 100 "m - 3" "m - 7"] by auto
    then have "year_days (m - 8) = 366" using m4 by (simp add: year_days_def leap_year_def mod_eq_0_iff_dvd)
    moreover have "year_days (m - 4) = 365" using False by (simp add: year_days_def)
    ultimately show ?thesis using that [of "m - 8"] four_back eight_back by simp
  qed
qed

lemma earlier_same_date:
  assumes "0 \<le> n + 719468"
  obtains z where "z < n" "n - 2921 \<le> z" "snd (civil_from_days z) = snd (civil_from_days n)"
proof -
  obtain m doy where n: "n = year_start m + doy - 719468" and doy: "0 \<le> doy" "doy < year_days m" "doy \<le> 365"
    using day_of_year [OF assms] .
  have "\<exists>k. doy < year_days k \<and> year_start m - 2921 \<le> year_start k \<and> year_start k < year_start m"
  proof (cases "doy = 365")
    case True
    then have "leap_year (m + 1)" using doy by (simp add: year_days_def split: if_splits)
    then obtain k where "year_days k = 366" "year_start m - 2921 \<le> year_start k" "year_start k < year_start m"
      by (rule earlier_leap_day)
    then show ?thesis using True by (intro exI [of _ k]) simp
  next
    case False
    have "year_start m = year_start (m - 1) + year_days (m - 1)" using year_start_Suc [of "m - 1"] by simp
    then show ?thesis using False doy(3) year_days_bounds [of "m - 1"] by (intro exI [of _ "m - 1"]) simp
  qed
  then obtain k where "doy < year_days k" "year_start m - 2921 \<le> year_start k" "year_start k < year_start m"
    by blast
  then show ?thesis
    using that [of "year_start k + doy - 719468"] civil_of_day_of_year [OF doy(1), of k]
      civil_of_day_of_year [OF doy(1,2)] by (simp add: n)
qed

lemma earlier_same_weekday:
  assumes "0 \<le> n + 719468"
  obtains z where "z < n" "n - 2921 \<le> z" "fst (snd (civil_from_days z)) = fst (snd (civil_from_days n))"
    "(z + 4) mod 7 = (n + 4) mod 7"
proof -
  obtain m doy where n: "n = year_start m + doy - 719468" and doy: "0 \<le> doy" "doy < year_days m" "doy \<le> 365"
    using day_of_year [OF assms] .
  obtain mo d where md: "month_day doy = (mo, d)" "1 \<le> d" "d \<le> 31" "doy - d + 1 \<in> set month_starts"
      "month_day (doy - d + 1) = (mo, 1)"
    using month_day_cases [OF doy(1,3)] by blast
  define first where "first = doy - d + 1"
  define k where "k = (n - (year_start (m - 1) + first - 719468)) mod 7"
  define z where "z = year_start (m - 1) + (first + k) - 719468"
  have k: "0 \<le> k" "k \<le> 6" by (simp_all add: k_def)
  have "fst (month_day (first + k)) = mo"
    using first_weeks md(4,5) k unfolding list_all_iff first_def [symmetric] by auto
  moreover have "0 \<le> first" "first \<le> 337" using md(4) by (auto simp: first_def month_starts_def)
  ultimately have z: "fst (snd (civil_from_days z)) = mo"
    using civil_of_day_of_year [of "first + k" "m - 1"] year_days_bounds [of "m - 1"] k by (simp add: z_def)
  have start: "year_start m = year_start (m - 1) + year_days (m - 1)" using year_start_Suc [of "m - 1"] by simp
  show ?thesis
  proof (rule that [of z])
    show "z < n" "n - 2921 \<le> z"
      using start year_days_bounds [of "m - 1"] k md(2,3) by (simp_all add: n z_def first_def)
    show "fst (snd (civil_from_days z)) = fst (snd (civil_from_days n))"
      using z civil_of_day_of_year [OF doy(1,2)] md(1) by (simp add: n)
    have "z + 4 = n + 4 + 7 * - ((n - (year_start (m - 1) + first - 719468)) div 7)"
      unfolding z_def k_def by (simp add: minus_mult_div_eq_mod [symmetric])
    then show "(z + 4) mod 7 = (n + 4) mod 7" by (simp only: mod_mult_self2)
  qed
qed

text \<open>C37. The date that \<open>civil_from_days\<close> computes in closed form for a number of days after 1970-01-01 is
  the date the Gregorian calendar reaches from there in as many steps of one day, with a leap day in
  every fourth year, but not in the years divisible by 100 and not by 400.\<close>

theorem civil_from_days_calendar: "civil_from_days (int n) = (next_date ^^ n) (1970, 1, 1)"
  by (rule civil_from_days_recurrence)

end
