(* ===== verification/Cron_Search.thy ===== *)
theory Cron_Search
  imports Cron_Calendar
begin

text \<open>
  The search for the next matching minute. Whether a day matches depends on its month with its day or its
  weekday, so that every matching minute has an earlier one within 2,921 days, less than
  \<open>SEARCH_MINUTES\<close>: the bounded search of \<open>next_after\<close> misses no match.
\<close>

section \<open>A minute that matches\<close>

definition day_matches :: "parsed_schedule \<Rightarrow> int \<Rightarrow> bool" where
  "day_matches s n =
     (let (month, day) = snd (civil_from_days n);
          dom = contains (sch_day_of_month s) (nat day);
          dow = contains (sch_day_of_week s) (nat ((n + 4) mod 7));
          any_dom = (sch_day_of_month s = full_mask 1 31);
          any_dow = (sch_day_of_week s = full_mask 0 6)
      in contains (sch_month s) (nat month)
         \<and> (any_dom \<and> any_dow \<or> \<not> any_dow \<and> dow \<or> \<not> any_dom \<and> dom))"

lemma minute_matches_split:
  assumes "0 \<le> r" "r < 1440"
  shows "minute_matches s (n * 1440 + r) \<longleftrightarrow>
     contains (sch_minute s) (nat (r mod 60)) \<and> contains (sch_hour s) (nat (r div 60)) \<and> day_matches s n"
proof -
  have day: "(n * 1440 + r) div 1440 = n" using assms by simp
  have "(n * 1440 + r) mod 60 = (r + 60 * (n * 24)) mod 60" by (simp add: algebra_simps)
  then have minute: "(n * 1440 + r) mod 60 = r mod 60" by (simp only: mod_mult_self2)
  have "(n * 1440 + r) div 60 = (r + 60 * (n * 24)) div 60" by (simp add: algebra_simps)
  then have "(n * 1440 + r) div 60 = r div 60 + 24 * n" by simp
  then have "(n * 1440 + r) div 60 mod 24 = r div 60 mod 24" by (simp only: mod_mult_self2)
  moreover have "0 \<le> r div 60" "r div 60 < 24" using assms by presburger+
  ultimately have hour: "(n * 1440 + r) div 60 mod 24 = r div 60" by simp
  show ?thesis
    unfolding minute_matches_def day_matches_def Let_def day minute hour
    by (cases "civil_from_days n"; cases "sch_day_of_month s = full_mask 1 31";
        cases "sch_day_of_week s = full_mask 0 6"; simp; blast)
qed

lemma earlier_day_matches:
  assumes "0 \<le> n + 719468" "day_matches s n"
  obtains z where "z < n" "n - 2921 \<le> z" "day_matches s z"
proof (cases "sch_day_of_week s \<noteq> full_mask 0 6 \<and> contains (sch_day_of_week s) (nat ((n + 4) mod 7))")
  case True
  obtain z where "z < n" "n - 2921 \<le> z" "fst (snd (civil_from_days z)) = fst (snd (civil_from_days n))"
      "(z + 4) mod 7 = (n + 4) mod 7"
    using earlier_same_weekday [OF assms(1)] .
  then show ?thesis using that [of z] assms(2) True
    by (cases "snd (civil_from_days z)"; cases "snd (civil_from_days n)") (simp add: day_matches_def)
next
  case False
  obtain z where "z < n" "n - 2921 \<le> z" "snd (civil_from_days z) = snd (civil_from_days n)"
    using earlier_same_date [OF assms(1)] .
  then show ?thesis using that [of z] assms(2) False
    by (cases "snd (civil_from_days n)") (auto simp: day_matches_def Let_def)
qed

lemma earlier_minute_matches:
  assumes "0 \<le> i" "minute_matches s i"
  obtains j where "j < i" "i - 4206240 \<le> j" "minute_matches s j"
proof -
  define n where "n = i div 1440"
  define r where "r = i mod 1440"
  have i: "i = n * 1440 + r" "0 \<le> r" "r < 1440" by (simp_all add: n_def r_def)
  have m: "contains (sch_minute s) (nat (r mod 60))" "contains (sch_hour s) (nat (r div 60))" "day_matches s n"
    using assms(2) minute_matches_split [OF i(2,3)] unfolding i(1) by simp_all
  have "0 \<le> n + 719468" using assms(1) by (simp add: n_def pos_imp_zdiv_nonneg_iff)
  then obtain z where z: "z < n" "n - 2921 \<le> z" "day_matches s z" using m(3) by (rule earlier_day_matches)
  show ?thesis
  proof (rule that [of "z * 1440 + r"])
    show "z * 1440 + r < i" "i - 4206240 \<le> z * 1440 + r" using z(1,2) by (simp_all add: i(1))
    show "minute_matches s (z * 1440 + r)" using m z(3) minute_matches_split [OF i(2,3)] by simp
  qed
qed

section \<open>The search\<close>

abbreviation last_minute :: int where "last_minute \<equiv> MAX_TIMESTAMP_MILLIS div 60000"

lemma search_minute_Some:
  "search_minute k s c = Some m \<Longrightarrow> c \<le> m \<and> m \<le> last_minute \<and> minute_matches s m
     \<and> (\<forall>j. c \<le> j \<and> j < m \<longrightarrow> \<not> minute_matches s j)"
proof (induction k arbitrary: c)
  case (Suc k)
  show ?case
  proof (cases "last_minute < c \<or> minute_matches s c")
    case True
    then show ?thesis using Suc.prems by (auto split: if_splits)
  next
    case False
    then have rec: "search_minute k s (c + 1) = Some m" using Suc.prems by simp
    note m = Suc.IH [OF rec]
    have "\<not> minute_matches s j" if "c \<le> j" "j < m" for j
      using m that False by (cases "j = c") auto
    then show ?thesis using m by auto
  qed
qed simp

lemma search_minute_None:
  "search_minute k s c = None \<Longrightarrow> c \<le> m \<Longrightarrow> m < c + int k \<Longrightarrow> m \<le> last_minute \<Longrightarrow> \<not> minute_matches s m"
proof (induction k arbitrary: c)
  case (Suc k)
  have c: "\<not> minute_matches s c" "search_minute k s (c + 1) = None"
    using Suc.prems by (auto split: if_splits)
  show ?case
  proof (cases "m = c")
    case False
    then show ?thesis using Suc.IH [OF c(2)] Suc.prems by simp
  qed (simp add: c)
qed simp

definition later_minutes :: "parsed_schedule \<Rightarrow> int \<Rightarrow> int set" where
  "later_minutes s i = {m. i < m \<and> m \<le> last_minute \<and> minute_matches s m}"

lemma finite_later_minutes: "finite (later_minutes s i)"
  by (rule finite_subset [of _ "{i..last_minute}"]) (auto simp: later_minutes_def)

lemma search_finds_next:
  assumes "0 \<le> i"
  shows "search_minute SEARCH_MINUTES s (i + 1)
     = (if later_minutes s i = {} then None else Some (Min (later_minutes s i)))"
proof (cases "search_minute SEARCH_MINUTES s (i + 1)")
  case None
  have "later_minutes s i = {}"
  proof (rule ccontr)
    assume nonempty: "later_minutes s i \<noteq> {}"
    let ?m = "Min (later_minutes s i)"
    have m: "?m \<in> later_minutes s i" by (rule Min_in [OF finite_later_minutes nonempty])
    then have range: "i < ?m" "?m \<le> last_minute" "minute_matches s ?m" by (simp_all add: later_minutes_def)
    have "i + 1 + int SEARCH_MINUTES \<le> ?m"
    proof (rule ccontr)
      assume "\<not> ?thesis"
      then show False using search_minute_None [OF None, of ?m] range by simp
    qed
    then have far: "i + 4208401 \<le> ?m" by (simp add: SEARCH_MINUTES_def)
    have "0 \<le> ?m" using assms range(1) by simp
    then obtain j where j: "j < ?m" "?m - 4206240 \<le> j" "minute_matches s j"
      using range(3) by (rule earlier_minute_matches)
    then have "j \<in> later_minutes s i" using far range(2) by (simp add: later_minutes_def)
    then show False using Min_le [OF finite_later_minutes] j(1) by fastforce
  qed
  then show ?thesis using None by simp
next
  case (Some m)
  note found = search_minute_Some [OF Some]
  have m: "m \<in> later_minutes s i" using found by (simp add: later_minutes_def)
  have "m \<le> y" if "y \<in> later_minutes s i" for y
  proof (rule ccontr)
    assume "\<not> m \<le> y"
    then show False using found that by (auto simp: later_minutes_def)
  qed
  then have "Min (later_minutes s i) = m" using m by (intro Min_eqI finite_later_minutes)
  then show ?thesis using Some m by auto
qed

lemma next_after_next:
  "next_after expression unix_millis =
     try_bind (validate_timestamp unix_millis) (\<lambda>_. try_bind (parse_schedule expression) (\<lambda>s.
       let later = later_minutes s (unix_millis div 60000)
       in if later = {} then Err (cron_error ''no_match'' 5) else Ok (Min later * 60000)))"
proof (cases "0 \<le> unix_millis \<and> unix_millis \<le> MAX_TIMESTAMP_MILLIS")
  case True
  then have i: "0 \<le> unix_millis div 60000" by (simp add: pos_imp_zdiv_nonneg_iff)
  have v: "validate_timestamp unix_millis = Ok ()" using True by (simp add: validate_timestamp_def)
  show ?thesis unfolding next_after_def v
    by (cases "parse_schedule expression") (simp_all add: search_finds_next [OF i] Let_def)
next
  case False
  then have v: "validate_timestamp unix_millis = Err (cron_error ''timestamp_range'' 5)"
    by (simp add: validate_timestamp_def)
  show ?thesis unfolding next_after_def v by simp
qed

text \<open>C19. For every valid timestamp and expression \<open>next_after\<close> returns the first minute after the
  timestamp, up to the end of the year 9999, that matches the schedule, and \<open>no_match\<close> only when there
  is none at all: the bound on the number of minutes searched loses nothing.\<close>

theorem next_after_first_match:
  "next_after expression unix_millis =
     try_bind (validate_timestamp unix_millis) (\<lambda>_. try_bind (parse_schedule expression) (\<lambda>s.
       let later = {m. unix_millis div 60000 < m \<and> m \<le> MAX_TIMESTAMP_MILLIS div 60000 \<and> minute_matches s m}
       in if later = {} then Inl (cron_error ''no_match'' 5) else Inr (Min later * 60000)))"
  using next_after_next [of expression unix_millis] unfolding later_minutes_def .

end
