(* ===== verification/Cron_Fields.thy ===== *)
theory Cron_Fields
  imports Cron
begin

text \<open>
  The language of cron expressions: masks as sets of values, the grammar of a member, a field and an
  expression, and the proof that the parser accepts exactly this language and returns the masks it
  denotes.
\<close>

unbundle bit_operations_syntax

section \<open>Splitting text\<close>

definition intercalate :: "char \<Rightarrow> string list \<Rightarrow> string" where
  "intercalate sep parts = (case parts of [] \<Rightarrow> [] | p # ps \<Rightarrow> p @ concat (map (\<lambda>q. sep # q) ps))"

lemma intercalate_simps [simp]:
  "intercalate sep [p] = p"
  "intercalate sep (p # q # ps) = p @ sep # intercalate sep (q # ps)"
  by (simp_all add: intercalate_def)

lemma split_on_nonempty [simp]: "split_on sep s \<noteq> []"
  by (induction s) (auto split: list.splits)

lemma split_on_parts: "intercalate sep (split_on sep s) = s" "list_all (\<lambda>p. sep \<notin> set p) (split_on sep s)"
proof (induction s)
  case (Cons c s)
  obtain p ps where split: "split_on sep s = p # ps" by (cases "split_on sep s") auto
  case 1
  then show ?case using Cons(1) split by (cases ps) auto
  case 2
  then show ?case using Cons(2) split by auto
qed simp_all

lemma split_on_Cons_part: "sep \<notin> set p \<Longrightarrow> split_on sep (p @ sep # s) = p # split_on sep s"
  by (induction p) auto

lemma split_on_single: "sep \<notin> set p \<Longrightarrow> split_on sep p = [p]"
  by (induction p) auto

lemma split_on_intercalate:
  assumes "parts \<noteq> []" "list_all (\<lambda>p. sep \<notin> set p) parts"
  shows "split_on sep (intercalate sep parts) = parts"
  using assms
proof (induction parts)
  case (Cons p parts)
  then show ?case by (cases parts) (simp_all add: split_on_Cons_part split_on_single)
qed simp

lemma split_on_iff:
  "split_on sep s = parts \<longleftrightarrow> parts \<noteq> [] \<and> s = intercalate sep parts \<and> list_all (\<lambda>p. sep \<notin> set p) parts"
  using split_on_parts [of sep s] split_on_intercalate [of parts sep] by auto

section \<open>Masks as sets\<close>

definition mask_set :: "u64 \<Rightarrow> nat set" where
  "mask_set bits = {v. contains bits v}"

lemma contains_bit: "contains bits v = bit bits v"
  by (simp add: contains_def bit_at_def bit_iff_and_push_bit_not_eq_0)

lemma mask_set_inject: "mask_set a = mask_set b \<longleftrightarrow> a = b"
proof
  assume "mask_set a = mask_set b"
  then have "bit a v = bit b v" for v by (auto simp: mask_set_def contains_bit set_eq_iff)
  then show "a = b" by (intro bit_eqI)
qed simp

lemma mask_set_0 [simp]: "mask_set 0 = {}"
  by (simp add: mask_set_def contains_bit)

lemma mask_set_empty: "mask_set bits = {} \<longleftrightarrow> bits = 0"
  using mask_set_inject [of bits 0] by simp

lemma mask_set_set_bit: "v < 64 \<Longrightarrow> mask_set (bits OR bit_at v) = insert v (mask_set bits)"
  by (auto simp: mask_set_def contains_bit bit_at_def bit_or_iff bit_exp_iff)

lemma mask_set_fold:
  "n \<le> 64 \<Longrightarrow> mask_set (fold (\<lambda>v bits. bits OR bit_at v) [a..<n] m) = mask_set m \<union> {a..<n}"
proof (induction n)
  case (Suc n)
  then show ?case by (cases "a \<le> n") (simp_all add: mask_set_set_bit atLeastLessThanSuc)
qed simp

lemma mask_set_full: "b < 64 \<Longrightarrow> mask_set (full_mask a b) = {a..b}"
  unfolding full_mask_def using mask_set_fold [of "b + 1" a 0]
  by (simp only: mask_set_0 Un_empty_left Suc_eq_plus1 [symmetric] atLeastLessThanSuc_atLeastAtMost Suc_leI)

text \<open>The values \<open>a\<close>, \<open>a + step\<close>, ... up to \<open>b\<close>.\<close>

definition stepped :: "nat \<Rightarrow> nat \<Rightarrow> nat \<Rightarrow> nat set" where
  "stepped a b step = {v. v \<le> b \<and> (\<exists>k. v = a + k * step)}"

lemma stepped_1: "stepped a b 1 = {a..b}"
  unfolding stepped_def by (auto simp: le_iff_add add.commute)

lemma stepped_unfold:
  assumes "a \<le> b"
  shows "stepped a b step = insert a (stepped (a + step) b step)"
proof (rule set_eqI)
  fix v
  have "(\<exists>k. v = a + k * step) \<longleftrightarrow> v = a \<or> (\<exists>k. v = a + step + k * step)"
  proof
    assume "\<exists>k. v = a + k * step"
    then obtain k where "v = a + k * step" ..
    then show "v = a \<or> (\<exists>k. v = a + step + k * step)" by (cases k) auto
  next
    assume "v = a \<or> (\<exists>k. v = a + step + k * step)"
    then show "\<exists>k. v = a + k * step"
    proof
      assume "\<exists>k. v = a + step + k * step"
      then obtain k where "v = a + Suc k * step" by (auto simp: add.assoc)
      then show ?thesis ..
    qed (simp add: exI [of _ 0])
  qed
  then show "v \<in> stepped a b step \<longleftrightarrow> v \<in> insert a (stepped (a + step) b step)"
    using assms by (auto simp: stepped_def)
qed

lemma stepped_empty: "b < a \<Longrightarrow> stepped a b step = {}"
  by (auto simp: stepped_def)

lemma mask_set_values:
  assumes "0 < step" "a \<le> b" "b < 64"
  shows "mask_set (set_values a b step bits) = mask_set bits \<union> stepped a b step"
  using assms
proof (induction a b step bits rule: set_values.induct)
  case (1 a b step bits)
  show ?case
  proof (cases "b - a < step")
    case True
    then have "stepped a b step = {a}" using 1(3) by (simp add: stepped_unfold stepped_empty)
    then show ?thesis using True 1 by (subst set_values.simps) (simp add: mask_set_set_bit)
  next
    case False
    then show ?thesis using 1 by (subst set_values.simps) (simp add: mask_set_set_bit stepped_unfold [of a])
  qed
qed

section \<open>The language of a field\<close>

definition cron_number :: "string \<Rightarrow> nat \<Rightarrow> bool" where
  "cron_number s n \<longleftrightarrow> s \<noteq> [] \<and> list_all is_ascii_digit s \<and> digits_value s = n"

inductive cron_range :: "nat \<Rightarrow> nat \<Rightarrow> string \<Rightarrow> nat \<Rightarrow> nat \<Rightarrow> bool" for mn mx where
  star: "cron_range mn mx ''*'' mn mx"
| pair: "cron_number l a \<Longrightarrow> cron_number r b \<Longrightarrow> mn \<le> a \<Longrightarrow> a \<le> b \<Longrightarrow> b \<le> mx
    \<Longrightarrow> cron_range mn mx (l @ CHR ''-'' # r) a b"

inductive cron_member :: "nat \<Rightarrow> nat \<Rightarrow> string \<Rightarrow> nat set \<Rightarrow> bool" for mn mx where
  single: "cron_number s v \<Longrightarrow> mn \<le> v \<Longrightarrow> v \<le> mx \<Longrightarrow> cron_member mn mx s {v}"
| range: "cron_range mn mx base a b \<Longrightarrow> cron_member mn mx base {a..b}"
| step: "cron_range mn mx base a b \<Longrightarrow> cron_number s n \<Longrightarrow> 1 \<le> n \<Longrightarrow> n \<le> mx - mn + 1
    \<Longrightarrow> cron_member mn mx (base @ CHR ''/'' # s) (stepped a b n)"

lemma number_chars:
  assumes "cron_number s n" "c \<in> {CHR ''/'', CHR ''-'', CHR '','', CHR ''*''}"
  shows "c \<notin> set s"
proof
  assume "c \<in> set s"
  then have "is_ascii_digit c" using assms(1) by (auto simp: cron_number_def list_all_iff)
  then show False using assms(2) by (auto simp: is_ascii_digit_def byte_of_def)
qed

lemma range_chars: "cron_range mn mx s a b \<Longrightarrow> CHR ''/'' \<notin> set s \<and> CHR '','' \<notin> set s \<and> s \<noteq> []"
  by (induction rule: cron_range.induct) (auto simp: number_chars)

lemma member_chars: "cron_member mn mx s A \<Longrightarrow> CHR '','' \<notin> set s \<and> s \<noteq> []"
  by (induction rule: cron_member.induct) (auto simp: number_chars range_chars, simp add: cron_number_def)

lemma parse_unsigned_Ok: "parse_unsigned s field = Ok n \<longleftrightarrow> cron_number s n \<and> n \<le> 18446744073709551615"
  by (auto simp: parse_unsigned_def cron_number_def)

lemma parse_unsignedD: "parse_unsigned s field = Ok n \<Longrightarrow> cron_number s n"
  by (simp add: parse_unsigned_Ok)

lemma parse_unsigned_number: "cron_number s n \<Longrightarrow> n \<le> 64 \<Longrightarrow> parse_unsigned s field = Ok n"
  by (simp add: parse_unsigned_Ok)

lemma split_on_one: "split_on sep s = [p] \<longleftrightarrow> p = s \<and> sep \<notin> set s"
  by (auto simp: split_on_iff)

lemma split_on_two: "split_on sep s = [p, q] \<longleftrightarrow> s = p @ sep # q \<and> sep \<notin> set p \<and> sep \<notin> set q"
  by (auto simp: split_on_iff)

lemma split_range_None: "split_range s field = Ok None \<longleftrightarrow> CHR ''-'' \<notin> set s"
proof -
  have "split_range s field = Ok None \<longleftrightarrow> (\<exists>p. split_on CHR ''-'' s = [p])"
    unfolding split_range_def by (simp split: list.split)
  then show ?thesis by (simp add: split_on_one)
qed

lemma split_range_Some:
  "split_range s field = Ok (Some (l, r)) \<longleftrightarrow>
     s = l @ CHR ''-'' # r \<and> CHR ''-'' \<notin> set l \<and> CHR ''-'' \<notin> set r \<and> l \<noteq> [] \<and> r \<noteq> []"
proof -
  have "split_range s field = Ok (Some (l, r)) \<longleftrightarrow> split_on CHR ''-'' s = [l, r] \<and> l \<noteq> [] \<and> r \<noteq> []"
    unfolding split_range_def by (simp split: list.split) blast
  then show ?thesis by (simp add: split_on_two)
qed

section \<open>Parsing decides the language\<close>

lemma parse_bounds_iff:
  assumes "mx < 64" "mn \<le> a" "a \<le> b" "b \<le> mx"
  shows "parse_bounds base st mn mx field = Ok (a, b)
     \<longleftrightarrow> cron_range mn mx base a b \<or> st = None \<and> a = b \<and> cron_number base a" (is "?l \<longleftrightarrow> ?r")
proof
  assume ?l
  then consider "base = ''*''" "a = mn" "b = mx"
    | l r where "split_range base field = Ok (Some (l, r))" "parse_unsigned l field = Ok a"
        "parse_unsigned r field = Ok b"
    | "st = None" "a = b" "parse_unsigned base field = Ok a"
    by (auto simp: parse_bounds_def split: if_splits option.splits)
  then show ?r
  proof cases
    case 2
    then show ?thesis using assms by (auto simp: split_range_Some dest!: parse_unsignedD intro: cron_range.pair)
  qed (simp_all add: cron_range.star parse_unsignedD)
next
  assume ?r
  then consider "cron_range mn mx base a b" | "st = None" "a = b" "cron_number base a" by blast
  then show ?l
  proof cases
    case 1
    then show ?thesis
    proof cases
      case (pair l r)
      have "l \<noteq> []" "r \<noteq> []" using pair(2,3) by (simp_all add: cron_number_def)
      then have "split_range base field = Ok (Some (l, r))"
        using pair(1) number_chars [OF pair(2)] number_chars [OF pair(3)] by (simp add: split_range_Some)
      moreover have "parse_unsigned l field = Ok a" "parse_unsigned r field = Ok b"
        using pair assms by (simp_all add: parse_unsigned_number)
      moreover have "base \<noteq> ''*''" using pair(1) by (cases l) auto
      ultimately show ?thesis by (simp add: parse_bounds_def)
    qed (simp add: parse_bounds_def)
  next
    case 2
    have "split_range base field = Ok None" "CHR ''*'' \<notin> set base"
      using number_chars [OF 2(3)] by (simp_all add: split_range_None)
    then have "split_range base field = Ok None" "base \<noteq> ''*''" by auto
    then show ?thesis using 2 assms by (simp add: parse_bounds_def parse_unsigned_number)
  qed
qed

lemma parse_step_iff:
  assumes "mx < 64"
  shows "parse_step st mn mx field = Ok n \<longleftrightarrow>
     (case st of None \<Rightarrow> n = 1 | Some s \<Rightarrow> cron_number s n \<and> 1 \<le> n \<and> n \<le> mx - mn + 1)"
proof (cases st)
  case (Some s)
  have "parse_unsigned s field = Ok n \<longleftrightarrow> cron_number s n" if "n \<le> mx - mn + 1"
    using that assms parse_unsignedD parse_unsigned_number [of s n] by auto
  moreover have "parse_step st mn mx field = Ok n \<longleftrightarrow> parse_unsigned s field = Ok n \<and> n \<noteq> 0 \<and> n \<le> mx - mn + 1"
    by (cases "parse_unsigned s field") (auto simp: Some parse_step_def not_less)
  ultimately show ?thesis using Some by auto
qed (auto simp: parse_step_def)

lemma parse_parts_iff:
  "parse_parts base st mn mx field bits = Ok bits'
     \<longleftrightarrow> (\<exists>n a b. parse_step st mn mx field = Ok n \<and> parse_bounds base st mn mx field = Ok (a, b)
           \<and> mn \<le> a \<and> a \<le> b \<and> b \<le> mx \<and> bits' = set_values a b n bits)"
proof (cases "parse_step st mn mx field")
  case (Inr n)
  then show ?thesis
    by (cases "parse_bounds base st mn mx field") (auto simp: parse_parts_def not_less split: if_splits)
qed (simp add: parse_parts_def)

lemma parse_member_cases:
  "parse_member text mn mx field bits = Ok bits' \<longleftrightarrow>
     CHR ''/'' \<notin> set text \<and> parse_parts text None mn mx field bits = Ok bits'
     \<or> (\<exists>base s. text = base @ CHR ''/'' # s \<and> CHR ''/'' \<notin> set base \<and> CHR ''/'' \<notin> set s
         \<and> parse_parts base (Some s) mn mx field bits = Ok bits')"
proof -
  have "parse_member text mn mx field bits = Ok bits' \<longleftrightarrow>
     (\<exists>p. split_on CHR ''/'' text = [p] \<and> parse_parts p None mn mx field bits = Ok bits')
     \<or> (\<exists>p q. split_on CHR ''/'' text = [p, q] \<and> parse_parts p (Some q) mn mx field bits = Ok bits')"
    unfolding parse_member_def by (simp split: list.split)
  then show ?thesis by (auto simp: split_on_one split_on_two)
qed

lemma parse_member_iff:
  assumes "mx < 64" "mn \<le> mx"
  shows "parse_member text mn mx field bits = Ok bits' \<longleftrightarrow>
     (\<exists>A. cron_member mn mx text A \<and> mask_set bits' = mask_set bits \<union> A)" (is "?l \<longleftrightarrow> ?r")
proof
  assume ?l
  then obtain base st where base: "st = None \<and> text = base \<or> (\<exists>s. st = Some s \<and> text = base @ CHR ''/'' # s)"
      and parts: "parse_parts base st mn mx field bits = Ok bits'"
    unfolding parse_member_cases by blast
  then obtain n a b where step: "parse_step st mn mx field = Ok n"
      and bounds: "parse_bounds base st mn mx field = Ok (a, b)"
      and ab: "mn \<le> a" "a \<le> b" "b \<le> mx" "bits' = set_values a b n bits"
    unfolding parse_parts_iff by blast
  have n: "0 < n" using step assms(1) by (auto simp: parse_step_iff split: option.splits)
  have bits: "mask_set bits' = mask_set bits \<union> stepped a b n"
    using ab assms(1) n by (simp add: mask_set_values)
  have range: "cron_range mn mx base a b \<or> st = None \<and> a = b \<and> cron_number base a"
    using bounds parse_bounds_iff [OF assms(1) ab(1-3)] by blast
  have "cron_member mn mx text (stepped a b n)"
  proof (cases st)
    case None
    then have "n = 1" "text = base" using step base by (simp_all add: parse_step_iff [OF assms(1)])
    then show ?thesis using range ab cron_member.range [of mn mx base a b] cron_member.single [of base a mn mx]
      by (auto simp: stepped_1 simp del: One_nat_def)
  next
    case (Some s)
    then show ?thesis using range base step
      by (auto simp: parse_step_iff [OF assms(1)] intro: cron_member.step)
  qed
  then show ?r using bits by blast
next
  assume ?r
  then obtain A where A: "cron_member mn mx text A" "mask_set bits' = mask_set bits \<union> A" by blast
  have parts: "parse_parts base st mn mx field bits = Ok bits'"
    if "parse_step st mn mx field = Ok n" "parse_bounds base st mn mx field = Ok (a, b)"
      "mn \<le> a" "a \<le> b" "b \<le> mx" "A = stepped a b n" for base st n a b
  proof -
    have "0 < n" using that(1) assms(1) by (auto simp: parse_step_iff split: option.splits)
    then have "bits' = set_values a b n bits"
      using A(2) that assms(1) by (simp add: mask_set_inject [symmetric] mask_set_values)
    then show ?thesis unfolding parse_parts_iff using that by blast
  qed
  have inside: "mn \<le> a \<and> a \<le> b \<and> b \<le> mx" if "cron_range mn mx base a b" for base a b
    using that assms(2) by cases auto
  note parsed = parse_step_iff [OF assms(1)] parse_bounds_iff [OF assms(1)]
  show ?l using A(1)
  proof cases
    case (single v)
    have "parse_parts text None mn mx field bits = Ok bits'"
      by (rule parts [of None 1 _ v v]) (use single in \<open>simp_all add: parsed stepped_1 del: One_nat_def\<close>)
    then show ?thesis using number_chars [OF single(2)] by (simp add: parse_member_cases)
  next
    case (range a b)
    have "parse_parts text None mn mx field bits = Ok bits'"
      by (rule parts [of None 1 _ a b])
        (use range inside [OF range(2)] in \<open>simp_all add: parsed stepped_1 del: One_nat_def\<close>)
    then show ?thesis using range_chars [OF range(2)] by (simp add: parse_member_cases)
  next
    case (step base a b s n)
    have "parse_parts base (Some s) mn mx field bits = Ok bits'"
      by (rule parts [of "Some s" n _ a b]) (use step inside [OF step(3)] in \<open>simp_all add: parsed\<close>)
    then show ?thesis
      using range_chars [OF step(3)] number_chars [OF step(4)] step(1) by (auto simp: parse_member_cases)
  qed
qed

lemma member_stepped:
  assumes "cron_member mn mx s A" "mn \<le> mx"
  obtains a b n where "A = stepped a b n" "0 < n" "mn \<le> a" "a \<le> b" "b \<le> mx"
proof -
  have inside: "mn \<le> a \<and> a \<le> b \<and> b \<le> mx" if "cron_range mn mx base a b" for base a b
    using that assms(2) by cases auto
  show ?thesis using assms(1)
  proof cases
    case (single v)
    then show ?thesis using that [of v v 1] by (simp add: stepped_1 del: One_nat_def)
  next
    case (range a b)
    then show ?thesis using that [of a b 1] inside [OF range(2)] by (simp add: stepped_1 del: One_nat_def)
  next
    case (step base a b s n)
    then show ?thesis using that [of a b n] inside [OF step(3)] by simp
  qed
qed

lemma member_bounds:
  assumes "cron_member mn mx s A" "mn \<le> mx"
  shows "A \<noteq> {}" "A \<subseteq> {mn..mx}"
proof -
  obtain a b n where A: "A = stepped a b n" "0 < n" "mn \<le> a" "a \<le> b" "b \<le> mx"
    using member_stepped [OF assms] .
  have "a \<in> A" unfolding A(1) stepped_def using A(4) by (auto intro: exI [of _ 0])
  then show "A \<noteq> {}" by blast
  show "A \<subseteq> {mn..mx}" unfolding A(1) stepped_def using A(3,5) by auto
qed

lemma parse_member_exists:
  assumes "mx < 64" "mn \<le> mx" "cron_member mn mx s A"
  obtains bits' where "parse_member s mn mx field bits = Ok bits'" "mask_set bits' = mask_set bits \<union> A"
proof -
  obtain a b n where A: "A = stepped a b n" "0 < n" "mn \<le> a" "a \<le> b" "b \<le> mx"
    using member_stepped [OF assms(3,2)] .
  have "mask_set (set_values a b n bits) = mask_set bits \<union> A"
    unfolding A(1) by (rule mask_set_values) (use A assms(1) in simp_all)
  then show ?thesis using that parse_member_iff [OF assms(1,2)] assms(3) by blast
qed

lemma parse_members_loop_iff:
  assumes "mx < 64" "mn \<le> mx"
  shows "parse_members_loop parts mn mx field bits = Ok bits' \<longleftrightarrow>
     (\<exists>As. list_all2 (cron_member mn mx) parts As \<and> mask_set bits' = mask_set bits \<union> \<Union> (set As))"
proof (induction parts arbitrary: bits)
  case Nil
  show ?case by (auto simp: mask_set_inject)
next
  case (Cons s parts)
  show ?case (is "?l \<longleftrightarrow> ?r")
  proof
    assume ?l
    then obtain b where b: "parse_member s mn mx field bits = Ok b"
        "parse_members_loop parts mn mx field b = Ok bits'"
      by (auto split: if_splits)
    then obtain A As where "cron_member mn mx s A" "mask_set b = mask_set bits \<union> A"
        "list_all2 (cron_member mn mx) parts As" "mask_set bits' = mask_set b \<union> \<Union> (set As)"
      unfolding Cons.IH parse_member_iff [OF assms] by blast
    then show ?r by (intro exI [of _ "A # As"]) auto
  next
    assume ?r
    then obtain A As where A: "cron_member mn mx s A" "list_all2 (cron_member mn mx) parts As"
        "mask_set bits' = mask_set bits \<union> (A \<union> \<Union> (set As))"
      by (auto simp: list_all2_Cons1)
    obtain b where b: "parse_member s mn mx field bits = Ok b" "mask_set b = mask_set bits \<union> A"
      using parse_member_exists [OF assms A(1)] .
    have "mask_set bits' = mask_set b \<union> \<Union> (set As)" using A(3) b(2) by auto
    then have "parse_members_loop parts mn mx field b = Ok bits'" unfolding Cons.IH using A(2) by blast
    then show ?l using b(1) member_chars [OF A(1)] by simp
  qed
qed

inductive cron_field :: "nat \<Rightarrow> nat \<Rightarrow> string \<Rightarrow> nat set \<Rightarrow> bool" for mn mx where
  one: "cron_member mn mx s A \<Longrightarrow> cron_field mn mx s A"
| more: "cron_member mn mx s A \<Longrightarrow> cron_field mn mx t B \<Longrightarrow> cron_field mn mx (s @ CHR '','' # t) (A \<union> B)"

lemma cron_field_parts:
  "cron_field mn mx text A \<longleftrightarrow>
     (\<exists>As. list_all2 (cron_member mn mx) (split_on CHR '','' text) As \<and> A = \<Union> (set As))"
proof
  assume "cron_field mn mx text A"
  then show "\<exists>As. list_all2 (cron_member mn mx) (split_on CHR '','' text) As \<and> A = \<Union> (set As)"
  proof induction
    case (one s A)
    then show ?case using member_chars [OF one] by (intro exI [of _ "[A]"]) (simp add: split_on_single)
  next
    case (more s A t B)
    then obtain As where "list_all2 (cron_member mn mx) (split_on CHR '','' t) As" "B = \<Union> (set As)" by blast
    then show ?case using member_chars [OF more(1)] more(1)
      by (intro exI [of _ "A # As"]) (simp add: split_on_Cons_part)
  qed
next
  assume "\<exists>As. list_all2 (cron_member mn mx) (split_on CHR '','' text) As \<and> A = \<Union> (set As)"
  moreover have "cron_field mn mx (intercalate CHR '','' parts) (\<Union> (set As))"
    if "list_all2 (cron_member mn mx) parts As" "parts \<noteq> []" for parts As
    using that
  proof (induction rule: list_all2_induct)
    case (Cons p ps A As)
    then show ?case
      by (cases ps) (auto simp: list_all2_Cons1 intro: cron_field.intros)
  qed simp
  ultimately show "cron_field mn mx text A" using split_on_parts(1) [of "CHR '',''" "text"] by (metis split_on_nonempty)
qed

lemma cron_field_bounds: "cron_field mn mx text A \<Longrightarrow> mn \<le> mx \<Longrightarrow> A \<noteq> {} \<and> A \<subseteq> {mn..mx}"
  by (induction rule: cron_field.induct) (use member_bounds in blast)+

lemma parse_field_iff:
  assumes "mx < 64" "mn \<le> mx"
  shows "parse_field text mn mx field = Ok bits \<longleftrightarrow> cron_field mn mx text (mask_set bits)"
proof -
  have "parse_field text mn mx field = Ok bits \<longleftrightarrow>
      bits \<noteq> 0 \<and> parse_members_loop (split_on CHR '','' text) mn mx field 0 = Ok bits"
    by (auto simp: parse_field_def split: if_splits)
  also have "\<dots> \<longleftrightarrow> bits \<noteq> 0 \<and> cron_field mn mx text (mask_set bits)"
    unfolding parse_members_loop_iff [OF assms] cron_field_parts by simp
  also have "\<dots> \<longleftrightarrow> cron_field mn mx text (mask_set bits)"
    using cron_field_bounds [OF _ assms(2), of "text" "mask_set bits"] by (auto simp: mask_set_empty)
  finally show ?thesis .
qed

text \<open>The five fields of an expression, each in the language of its range, with the set of its values.\<close>

definition cron_language :: "string \<Rightarrow> parsed_schedule \<Rightarrow> bool" where
  "cron_language expression s \<longleftrightarrow>
     length expression \<le> MAX_EXPRESSION_BYTES \<and> is_ascii_text expression
     \<and> (\<exists>f1 f2 f3 f4 f5. split_ascii_whitespace expression = [f1, f2, f3, f4, f5]
         \<and> cron_field 0 59 f1 (mask_set (sch_minute s)) \<and> cron_field 0 23 f2 (mask_set (sch_hour s))
         \<and> cron_field 1 31 f3 (mask_set (sch_day_of_month s)) \<and> cron_field 1 12 f4 (mask_set (sch_month s))
         \<and> cron_field 0 6 f5 (mask_set (sch_day_of_week s)))"

lemma length_5: "length xs = 5 \<longleftrightarrow> (\<exists>a b c d e. xs = [a, b, c, d, e])"
  by (simp add: eval_nat_numeral length_Suc_conv) blast

lemma parse_schedule_iff: "parse_schedule expression = Ok s \<longleftrightarrow> cron_language expression s"
proof (cases "MAX_EXPRESSION_BYTES < length expression \<or> \<not> is_ascii_text expression
    \<or> length (split_ascii_whitespace expression) \<noteq> 5")
  case True
  then show ?thesis by (auto simp: parse_schedule_def cron_language_def Let_def)
next
  case False
  then obtain f1 f2 f3 f4 f5 where f: "split_ascii_whitespace expression = [f1, f2, f3, f4, f5]"
    unfolding length_5 by blast
  have "parse_schedule expression = Ok s \<longleftrightarrow>
      parse_field f1 0 59 0 = Ok (sch_minute s) \<and> parse_field f2 0 23 1 = Ok (sch_hour s)
      \<and> parse_field f3 1 31 2 = Ok (sch_day_of_month s) \<and> parse_field f4 1 12 3 = Ok (sch_month s)
      \<and> parse_field f5 0 6 4 = Ok (sch_day_of_week s)"
    using False f by (cases s) (auto simp: parse_schedule_def Let_def eval_nat_numeral)
  then show ?thesis using False f by (simp add: cron_language_def parse_field_iff not_less)
qed

text \<open>Every mask a schedule may hold.\<close>

definition schedule_valid :: "parsed_schedule \<Rightarrow> bool" where
  "schedule_valid s \<longleftrightarrow> list_all (\<lambda>(bits, mn, mx). mask_set bits \<noteq> {} \<and> mask_set bits \<subseteq> {mn..mx})
     [(sch_minute s, 0, 59), (sch_hour s, 0, 23), (sch_day_of_month s, 1, 31), (sch_month s, 1, 12),
      (sch_day_of_week s, 0, 6)]"

lemma parsed_schedule_valid: "parse_schedule expression = Ok s \<Longrightarrow> schedule_valid s"
  unfolding parse_schedule_iff cron_language_def schedule_valid_def using cron_field_bounds by fastforce

text \<open>C29. \<open>parse_schedule\<close> accepts exactly the expressions of at most 256 bytes of ASCII text with five
  fields, each a list of members \<open>*\<close>, \<open>n\<close>, \<open>a-b\<close>, \<open>*/n\<close> and \<open>a-b/n\<close> within the range of the field, and each
  mask of the schedule it returns has exactly the values that the members of its field denote.\<close>

theorem parse_schedule_grammar: "parse_schedule expression = Inr s \<longleftrightarrow> cron_language expression s"
  by (rule parse_schedule_iff)

end
