(* ===== verification/Version_Solver.thy ===== *)
theory Version_Solver
  imports Ordered_Map Rust_Text "HOL-Library.Product_Lexorder"
begin

text \<open>
  Package versions and constraints of \<open>crates/nomo_manifest/src/version.rs\<close> and the choice of a version in
  \<open>crates/nomo_resolver/src/solver.rs\<close>. The crate \<open>semver\<close> is a parameter: a version is a value of a linearly
  ordered type, a requirement a value of any type, and the functions of the crate are the fields of the
  record \<open>semver\<close> that every operation takes.
\<close>

section \<open>The semver crate\<close>

datatype op = OpExact | OpGreater | OpGreaterEq | OpLess | OpLessEq | OpTilde | OpCaret | OpWildcard

record comparator =
  cmp_op :: op
  cmp_pre :: string

record ('v, 'r) semver =
  sv_parse_version :: "string \<Rightarrow> string + 'v"
  sv_pre :: "'v \<Rightarrow> string"
  sv_show_version :: "'v \<Rightarrow> string"
  sv_parse_req :: "string \<Rightarrow> string + 'r"
  sv_show_req :: "'r \<Rightarrow> string"
  sv_comparators :: "'r \<Rightarrow> comparator list"
  sv_matches :: "'r \<Rightarrow> 'v \<Rightarrow> bool"

section \<open>Versions and constraints\<close>

definition backquoted :: "string \<Rightarrow> string" where
  "backquoted s = ''`'' @ s @ ''`''"

definition parse_package_version :: "('v, 'r) semver \<Rightarrow> string \<Rightarrow> string + 'v" where
  "parse_package_version sv input =
     (let input = trim input in
      if input = [] then Err ''package version must not be empty''
      else map_err (\<lambda>e. ''invalid semantic version '' @ backquoted input @ '': '' @ e) (sv_parse_version sv input))"

definition is_prerelease :: "('v, 'r) semver \<Rightarrow> 'v \<Rightarrow> bool" where
  "is_prerelease sv v \<longleftrightarrow> sv_pre sv v \<noteq> []"

datatype ('v, 'r) version_constraint = Exact 'v | Range string 'r

definition unsupported :: "string \<Rightarrow> string \<Rightarrow> string" where
  "unsupported input reason = ''unsupported semantic version constraint '' @ backquoted input @ '': '' @ reason"

definition contains_wildcard_x :: "string \<Rightarrow> bool" where
  "contains_wildcard_x input \<longleftrightarrow>
     list_ex (\<lambda>part. part = ''x'')
       (split_by (\<lambda>c. c = CHR ''.'' \<or> c = CHR '','' \<or> byte_of c \<in> {32, 9, 10, 12, 13}) input)"

definition range_start :: "string \<Rightarrow> bool" where
  "range_start input \<longleftrightarrow> (case input of [] \<Rightarrow> False | c # _ \<Rightarrow> c \<in> {CHR ''^'', CHR ''~'', CHR ''>'', CHR ''<''})"

definition validate_range_syntax :: "string \<Rightarrow> string + unit" where
  "validate_range_syntax input =
     (let lowered = to_ascii_lowercase input in
      if CHR ''*'' \<in> set lowered \<or> contains_wildcard_x lowered
      then Err (unsupported input ''wildcards are not allowed'')
      else if contains_text ''||'' input then Err (unsupported input ''alternatives are not allowed'')
      else if starts_with ''='' input
      then Err (unsupported input ''use a bare version for an exact requirement'')
      else if \<not> range_start input
      then Err (unsupported input ''expected an exact version, caret, tilde, or comparison range'')
      else Ok ())"

definition single_op :: "op \<Rightarrow> comparator list \<Rightarrow> bool" where
  "single_op expected cs \<longleftrightarrow> (case cs of [c] \<Rightarrow> cmp_op c = expected | _ \<Rightarrow> False)"

definition validate_range_shape :: "('v, 'r) semver \<Rightarrow> string \<Rightarrow> 'r \<Rightarrow> string + unit" where
  "validate_range_shape sv input r =
     (let cs = sv_comparators sv r;
          other = Err (unsupported input
            ''caret and tilde constraints must contain exactly one comparator'')
      in case input of
          [] \<Rightarrow> other
        | c # _ \<Rightarrow>
            if c = CHR ''^'' \<and> single_op OpCaret cs then Ok ()
            else if c = CHR ''~'' \<and> single_op OpTilde cs then Ok ()
            else if c = CHR ''>'' \<or> c = CHR ''<'' then
              (let has_lower = list_ex (\<lambda>c. cmp_op c \<in> {OpGreater, OpGreaterEq}) cs;
                   has_upper = list_ex (\<lambda>c. cmp_op c \<in> {OpLess, OpLessEq}) cs;
                   comparisons_only =
                     list_all (\<lambda>c. cmp_op c \<in> {OpGreater, OpGreaterEq, OpLess, OpLessEq}) cs
               in if has_lower \<and> has_upper \<and> comparisons_only then Ok ()
                  else Err (unsupported input
                    ''comparison ranges must include both lower and upper bounds''))
            else other)"

definition parse_constraint :: "('v, 'r) semver \<Rightarrow> string \<Rightarrow> string + ('v, 'r) version_constraint" where
  "parse_constraint sv input =
     (let input = trim input in
      if input = [] then Err ''package version constraint must not be empty''
      else case parse_package_version sv input of
          Inr v \<Rightarrow> Ok (Exact v)
        | Inl _ \<Rightarrow>
            try_bind (validate_range_syntax input) (\<lambda>_.
            try_bind (map_err (\<lambda>e. ''invalid semantic version constraint '' @ backquoted input @ '': '' @ e)
              (sv_parse_req sv input)) (\<lambda>r.
            try_bind (validate_range_shape sv input r) (\<lambda>_.
              Ok (Range (sv_show_req sv r) r)))))"

definition constraint_matches :: "('v, 'r) semver \<Rightarrow> ('v, 'r) version_constraint \<Rightarrow> 'v \<Rightarrow> bool" where
  "constraint_matches sv c v = (case c of Exact w \<Rightarrow> w = v | Range _ r \<Rightarrow> sv_matches sv r v)"

definition is_exact :: "('v, 'r) version_constraint \<Rightarrow> bool" where
  "is_exact c = (case c of Exact _ \<Rightarrow> True | Range _ _ \<Rightarrow> False)"

definition explicitly_allows_prerelease :: "('v, 'r) semver \<Rightarrow> ('v, 'r) version_constraint \<Rightarrow> bool" where
  "explicitly_allows_prerelease sv c = (case c of
       Exact v \<Rightarrow> is_prerelease sv v
     | Range _ r \<Rightarrow> list_ex (\<lambda>c. cmp_pre c \<noteq> []) (sv_comparators sv r))"

definition normalized :: "('v, 'r) semver \<Rightarrow> ('v, 'r) version_constraint \<Rightarrow> string" where
  "normalized sv c = (case c of Exact v \<Rightarrow> sv_show_version sv v | Range n _ \<Rightarrow> n)"

section \<open>Candidates and conflicts\<close>

record 'v version_candidate =
  cand_version :: 'v
  cand_yanked :: bool

definition candidate_available :: "('v, 'r) semver \<Rightarrow> string \<Rightarrow> string + 'v version_candidate" where
  "candidate_available sv version =
     map_ok (\<lambda>v. \<lparr>cand_version = v, cand_yanked = False\<rparr>) (parse_package_version sv version)"

definition candidate_yanked :: "('v, 'r) semver \<Rightarrow> string \<Rightarrow> string + 'v version_candidate" where
  "candidate_yanked sv version =
     map_ok (\<lambda>v. \<lparr>cand_version = v, cand_yanked = True\<rparr>) (parse_package_version sv version)"

record ('v, 'r) constraint_origin =
  org_requirement :: "('v, 'r) version_constraint"
  org_path :: "string list"

definition origin_new :: "('v, 'r) semver \<Rightarrow> string \<Rightarrow> string list \<Rightarrow> string + ('v, 'r) constraint_origin" where
  "origin_new sv requirement path =
     (if path = [] then Err ''a version constraint must have a dependency path''
      else map_ok (\<lambda>c. \<lparr>org_requirement = c, org_path = path\<rparr>) (parse_constraint sv requirement))"

definition origin_key :: "('v, 'r) semver \<Rightarrow> ('v, 'r) constraint_origin \<Rightarrow> string \<times> string" where
  "origin_key sv origin = (join_text '' -> '' (org_path origin), normalized sv (org_requirement origin))"

record ('v, 'r) resolution_conflict =
  rc_package :: string
  rc_constraints :: "('v, 'r) constraint_origin list"
  rc_available :: "'v list"
  rc_yanked :: "'v list"

definition render_conflict :: "('v, 'r) semver \<Rightarrow> ('v, 'r) resolution_conflict \<Rightarrow> string" where
  "render_conflict sv c =
     ''failed to resolve package '' @ backquoted (rc_package c)
       @ '': no available version satisfies all constraints''
     @ concat (map (\<lambda>origin. CHR 0x0A # ''- '' @ backquoted (normalized sv (org_requirement origin))
         @ '' required by '' @ join_text '' -> '' (org_path origin)) (rc_constraints c))
     @ (if rc_available c = [] then CHR 0x0A # ''- the registry has no non-yanked versions available''
        else CHR 0x0A # ''- available versions: '' @ join_text '', '' (map (sv_show_version sv) (rc_available c)))
     @ (if rc_yanked c = [] then []
        else CHR 0x0A # ''- yanked versions excluded: ''
          @ join_text '', '' (map (sv_show_version sv) (rc_yanked c)))
     @ CHR 0x0A # ''help: align the listed dependency requirements or use ''
       @ backquoted ''nomo deps update <package> --precise <version>''"

section \<open>Selection\<close>

definition satisfies_all :: "('v, 'r) semver \<Rightarrow> ('v, 'r) constraint_origin list \<Rightarrow> 'v \<Rightarrow> bool" where
  "satisfies_all sv origins v \<longleftrightarrow> list_all (\<lambda>origin. constraint_matches sv (org_requirement origin) v) origins"

text \<open>One candidate in the loop of \<open>normalized_candidates\<close>: the sets of available and yanked versions.\<close>

definition add_candidate ::
    "'v::linorder version_candidate \<Rightarrow> 'v list \<times> 'v list \<Rightarrow> 'v list \<times> 'v list" where
  "add_candidate c sets = (case sets of (available, yanked) \<Rightarrow>
     if cand_yanked c
     then (bs_remove (cand_version c) available, bs_insert (cand_version c) yanked)
     else if cand_version c \<notin> set yanked then (bs_insert (cand_version c) available, yanked)
     else (available, yanked))"

definition normalized_candidates :: "'v::linorder version_candidate list \<Rightarrow> 'v list \<times> 'v list" where
  "normalized_candidates candidates = fold add_candidate candidates ([], [])"

definition has_satisfying_version ::
    "('v, 'r) semver \<Rightarrow> 'v list \<Rightarrow> ('v, 'r) constraint_origin list \<Rightarrow> bool" where
  "has_satisfying_version sv available origins \<longleftrightarrow> list_ex (satisfies_all sv origins) available"

definition remove_at :: "nat \<Rightarrow> 'a list \<Rightarrow> 'a list" where
  "remove_at i xs = take i xs @ drop (Suc i) xs"

function minimal_from :: "('v, 'r) semver \<Rightarrow> 'v list \<Rightarrow> nat \<Rightarrow> ('v, 'r) constraint_origin list
    \<Rightarrow> ('v, 'r) constraint_origin list" where
  "minimal_from sv available index origins =
     (if index < length origins then
        let without = remove_at index origins in
        if \<not> has_satisfying_version sv available without then minimal_from sv available index without
        else minimal_from sv available (index + 1) origins
      else origins)"
  by pat_completeness auto
termination
  by (relation "measure (\<lambda>(sv, available, index, origins). 2 * length origins - index)")
    (auto simp: remove_at_def)

declare minimal_from.simps [simp del]

definition minimal_unsatisfied_constraints ::
    "('v, 'r) semver \<Rightarrow> 'v list \<Rightarrow> ('v, 'r) constraint_origin list \<Rightarrow> ('v, 'r) constraint_origin list" where
  "minimal_unsatisfied_constraints sv available origins = minimal_from sv available 0 origins"

definition select_highest_version ::
    "('v::linorder, 'r) semver \<Rightarrow> string \<Rightarrow> 'v version_candidate list \<Rightarrow> ('v, 'r) constraint_origin list
      \<Rightarrow> ('v, 'r) resolution_conflict + 'v" where
  "select_highest_version sv package candidates origins =
     (let (available, yanked) = normalized_candidates candidates in
      case find (satisfies_all sv origins) (rev available) of
        Some selected \<Rightarrow> Ok selected
      | None \<Rightarrow> Err \<lparr>rc_package = package,
            rc_constraints = minimal_unsatisfied_constraints sv available (sort_key (origin_key sv) origins),
            rc_available = available, rc_yanked = yanked\<rparr>)"

section \<open>Candidates\<close>

definition published :: "'v version_candidate list \<Rightarrow> 'v set" where
  "published cs = {cand_version c | c. c \<in> set cs \<and> \<not> cand_yanked c} - {cand_version c | c. c \<in> set cs \<and> cand_yanked c}"

definition withdrawn :: "'v version_candidate list \<Rightarrow> 'v set" where
  "withdrawn cs = {cand_version c | c. c \<in> set cs \<and> cand_yanked c}"

lemma published_snoc:
  "published (cs @ [c]) = (if cand_yanked c then published cs - {cand_version c}
     else if cand_version c \<in> withdrawn cs then published cs else insert (cand_version c) (published cs))"
  "withdrawn (cs @ [c]) = (if cand_yanked c then insert (cand_version c) (withdrawn cs) else withdrawn cs)"
  by (auto simp: published_def withdrawn_def)

lemma published_Nil [simp]: "published [] = {}" "withdrawn [] = {}"
  by (simp_all add: published_def withdrawn_def)

lemma normalized_candidates_sets:
  "case normalized_candidates cs of (available, yanked) \<Rightarrow>
     bs_wf available \<and> set available = published cs \<and> bs_wf yanked \<and> set yanked = withdrawn cs"
proof (induction cs rule: rev_induct)
  case Nil
  show ?case by (simp add: normalized_candidates_def)
next
  case (snoc c cs)
  obtain a y where n: "normalized_candidates cs = (a, y)" by fastforce
  then have "normalized_candidates (cs @ [c]) = add_candidate c (a, y)"
    by (simp add: normalized_candidates_def)
  then show ?case using snoc n
    by (auto simp: add_candidate_def published_snoc intro: bs_wf_insert bs_wf_remove)
qed

lemma normalized_candidates_eq:
  "normalized_candidates cs = (sorted_list_of_set (published cs), sorted_list_of_set (withdrawn cs))"
proof -
  obtain a y where n: "normalized_candidates cs = (a, y)" by fastforce
  have sets: "bs_wf a" "set a = published cs" "bs_wf y" "set y = withdrawn cs"
    using normalized_candidates_sets [of cs] n by simp_all
  have "a = sorted_list_of_set (set a)" "y = sorted_list_of_set (set y)"
    using sets(1,3) unfolding bs_wf_def by (simp_all add: sorted_list_of_set.idem_if_sorted_distinct strict_sorted_iff)
  then show ?thesis using n sets by simp
qed

lemma find_rev_Max:
  assumes "bs_wf xs"
  shows "find P (rev xs) = (if \<exists>x \<in> set xs. P x then Some (Max {x \<in> set xs. P x}) else None)"
  using assms
proof (induction xs rule: rev_induct)
  case (snoc x xs)
  then have less: "bs_wf xs" "\<forall>y \<in> set xs. y < x" by (auto simp: bs_wf_def sorted_wrt_append)
  show ?case
  proof (cases "P x")
    case True
    have "Max {y \<in> set (xs @ [x]). P y} = x" using less(2) True by (intro Max_eqI) auto
    then show ?thesis using True by auto
  next
    case False
    then have "{y \<in> set (xs @ [x]). P y} = {y \<in> set xs. P y}" by auto
    then show ?thesis using False snoc.IH [OF less(1)] by auto
  qed
qed simp

section \<open>The reported constraints\<close>

lemma satisfies_all_mono: "set a \<subseteq> set b \<Longrightarrow> satisfies_all sv b v \<Longrightarrow> satisfies_all sv a v"
  by (auto simp: satisfies_all_def list_all_iff)

lemma has_satisfying_mono:
  "set a \<subseteq> set b \<Longrightarrow> has_satisfying_version sv vs b \<Longrightarrow> has_satisfying_version sv vs a"
  unfolding has_satisfying_version_def list_ex_iff by (blast intro: satisfies_all_mono)

lemma remove_at_subseteq: "set (remove_at i xs) \<subseteq> set xs"
  by (auto simp: remove_at_def dest: in_set_takeD in_set_dropD)

lemma remove_at_remove_at:
  assumes "j < i" "i < length xs"
  shows "set (remove_at j (remove_at i xs)) \<subseteq> set (remove_at j xs)"
proof -
  have "drop (Suc j) (remove_at i xs) = drop (Suc j) (take i xs) @ drop (Suc i) xs"
    using assms by (simp add: remove_at_def)
  moreover have "drop (Suc j) xs = drop (Suc j) (take i xs) @ drop i xs"
    using assms by (metis append_take_drop_id drop_append drop_take length_take min.absorb2 order_less_imp_le
      Suc_leI diff_is_0_eq drop0)
  moreover have "set (drop (Suc i) xs) \<subseteq> set (drop i xs)" by (simp add: set_drop_subset_set_drop)
  moreover have "take j (remove_at i xs) = take j xs" using assms by (simp add: remove_at_def min_def)
  ultimately show ?thesis by (auto simp: remove_at_def)
qed

lemma minimal_from_spec:
  assumes "\<not> has_satisfying_version sv vs origins"
    "\<And>j. j < index \<Longrightarrow> has_satisfying_version sv vs (remove_at j origins)"
  shows "\<not> has_satisfying_version sv vs (minimal_from sv vs index origins)
    \<and> (\<forall>j < length (minimal_from sv vs index origins).
         has_satisfying_version sv vs (remove_at j (minimal_from sv vs index origins)))
    \<and> subseq (minimal_from sv vs index origins) origins"
  using assms
proof (induction sv vs index origins rule: minimal_from.induct)
  case (1 sv vs index origins)
  show ?case
  proof (cases "index < length origins")
    case False
    then show ?thesis using 1(3,4) by (subst (1 2 3 4) minimal_from.simps) simp
  next
    case True
    show ?thesis
    proof (cases "has_satisfying_version sv vs (remove_at index origins)")
      case False
      have "has_satisfying_version sv vs (remove_at j (remove_at index origins))" if "j < index" for j
        using has_satisfying_mono [OF remove_at_remove_at [OF that True] 1(4) [OF that]] .
      note post = 1(1) [OF True refl False False this]
      have "minimal_from sv vs index origins = minimal_from sv vs index (remove_at index origins)"
        using True False by (subst minimal_from.simps) simp
      moreover have "subseq (remove_at index origins) origins"
        unfolding remove_at_def
        by (metis append_take_drop_id Cons_nth_drop_Suc True list_emb_append_mono subseq_Cons' subseq_order.refl)
      ultimately show ?thesis using post by (metis subseq_order.trans)
    next
      case sat: True
      have "has_satisfying_version sv vs (remove_at j origins)" if "j < index + 1" for j
        using that sat 1(4) by (cases "j = index") auto
      note post = 1(2) [OF True refl _ 1(3) this]
      have "minimal_from sv vs index origins = minimal_from sv vs (index + 1) origins"
        using True sat by (subst minimal_from.simps) simp
      then show ?thesis using post sat by simp
    qed
  qed
qed

lemma conflict_None:
  assumes "find (satisfies_all sv origins) (rev available) = None"
  shows "\<not> has_satisfying_version sv available (sort_key (origin_key sv) origins)"
  using assms by (auto simp: find_None_iff has_satisfying_version_def list_ex_iff satisfies_all_def list_all_iff)

lemma select_highest_version_sets:
  "select_highest_version sv package candidates origins =
     (let matching = {v \<in> published candidates. satisfies_all sv origins v};
          available = sorted_list_of_set (published candidates)
      in if matching = {} then Inl \<lparr>rc_package = package,
            rc_constraints = minimal_unsatisfied_constraints sv available (sort_key (origin_key sv) origins),
            rc_available = available, rc_yanked = sorted_list_of_set (withdrawn candidates)\<rparr>
         else Inr (Max matching))"
proof -
  let ?available = "sorted_list_of_set (published candidates)"
  have "bs_wf ?available \<and> set ?available = published candidates"
    using normalized_candidates_sets [of candidates] unfolding normalized_candidates_eq by simp
  then show ?thesis
    unfolding select_highest_version_def normalized_candidates_eq Let_def prod.case
    by (auto simp: find_rev_Max)
qed

text \<open>The comment of \<open>select_highest_version\<close> says that duplicate versions are rejected. They are not: a
  candidate that comes twice counts once.\<close>

lemma duplicate_candidates_merge:
  "select_highest_version sv package (c # c # candidates) origins = select_highest_version sv package (c # candidates) origins"
proof -
  have same: "published (c # c # candidates) = published (c # candidates)"
    "withdrawn (c # c # candidates) = withdrawn (c # candidates)"
    by (simp_all add: published_def withdrawn_def)
  show ?thesis unfolding select_highest_version_sets same by (rule refl)
qed

lemma published_distinct:
  assumes "distinct (map cand_version candidates)"
  shows "published candidates = {cand_version c | c. c \<in> set candidates \<and> \<not> cand_yanked c}"
  using assms by (auto simp: published_def distinct_map dest: inj_onD)

text \<open>C21. On candidates without duplicate versions, \<open>select_highest_version\<close> returns the greatest version that is
  not yanked and satisfies every constraint; when there is none it reports the available and the yanked
  versions in order. The result depends on the set of candidates only, not on the order of the registry
  response.\<close>

theorem select_highest_version_correct:
  assumes "distinct (map cand_version candidates)"
  shows "select_highest_version sv package candidates origins =
     (let available = {cand_version c | c. c \<in> set candidates \<and> \<not> cand_yanked c};
          yanked = {cand_version c | c. c \<in> set candidates \<and> cand_yanked c};
          matching = {v \<in> available. satisfies_all sv origins v}
      in if matching = {} then Inl \<lparr>rc_package = package,
            rc_constraints = minimal_unsatisfied_constraints sv (sorted_list_of_set available)
              (sort_key (origin_key sv) origins),
            rc_available = sorted_list_of_set available, rc_yanked = sorted_list_of_set yanked\<rparr>
         else Inr (Max matching))"
  unfolding select_highest_version_sets published_distinct [OF assms] withdrawn_def Let_def by (rule refl)

definition example_semver :: "(nat, nat) semver" where
  "example_semver = \<lparr>sv_parse_version = (\<lambda>s. Inr (length s)), sv_pre = (\<lambda>v. []), sv_show_version = (\<lambda>v. replicate v CHR ''1''),
     sv_parse_req = (\<lambda>s. Inr (length s)), sv_show_req = (\<lambda>r. replicate r CHR ''1''), sv_comparators = (\<lambda>r. []),
     sv_matches = (\<lambda>r v. r \<le> v)\<rparr>"

definition example_candidates :: "nat version_candidate list" where
  "example_candidates = [\<lparr>cand_version = 3, cand_yanked = False\<rparr>, \<lparr>cand_version = 5, cand_yanked = True\<rparr>,
     \<lparr>cand_version = 4, cand_yanked = False\<rparr>, \<lparr>cand_version = 1, cand_yanked = False\<rparr>]"

definition example_origins :: "(nat, nat) constraint_origin list" where
  "example_origins = [\<lparr>org_requirement = Range ''>=2'' 2, org_path = [''app'', ''lib'']\<rparr>]"

theorem select_highest_version_correct_witness:
  "select_highest_version example_semver ''lib'' example_candidates example_origins = Inr 4"
proof -
  have available: "{cand_version c | c. c \<in> set example_candidates \<and> \<not> cand_yanked c} = {1, 3, 4}"
    unfolding setcompr_eq_image set_filter [symmetric] set_map [symmetric] by (auto simp: example_candidates_def)
  have matching: "{v \<in> {1, 3, 4}. satisfies_all example_semver example_origins v} = {3, 4}"
    by (auto simp: satisfies_all_def example_origins_def constraint_matches_def example_semver_def)
  have "distinct (map cand_version example_candidates)" by (simp add: example_candidates_def)
  from select_highest_version_correct [OF this, of example_semver "''lib''" example_origins]
  show ?thesis unfolding available Let_def matching by simp
qed

text \<open>C22. The constraints of a conflict are a minimal explanation: no published version satisfies all of
  them, leaving out any one of them some published version satisfies the others, and they are among the
  given constraints, in the order of their dependency paths.\<close>

theorem conflict_is_minimal:
  "case select_highest_version sv package candidates origins of
     Inr v \<Rightarrow> True
   | Inl conflict \<Rightarrow>
       \<not> has_satisfying_version sv (rc_available conflict) (rc_constraints conflict)
       \<and> list_all (\<lambda>i. has_satisfying_version sv (rc_available conflict) (remove_at i (rc_constraints conflict)))
           [0..<length (rc_constraints conflict)]
       \<and> subseq (rc_constraints conflict) (sort_key (origin_key sv) origins)"
proof (cases "find (satisfies_all sv origins) (rev (sorted_list_of_set (published candidates)))")
  case None
  have "\<not> has_satisfying_version sv (sorted_list_of_set (published candidates)) (sort_key (origin_key sv) origins)"
    by (rule conflict_None [OF None])
  from minimal_from_spec [OF this, of 0] None show ?thesis
    by (simp add: select_highest_version_def normalized_candidates_eq minimal_unsatisfied_constraints_def
        list_all_iff)
qed (simp add: select_highest_version_def normalized_candidates_eq)

lemma range_syntax_Ok:
  assumes "validate_range_syntax input = Ok u"
  shows "CHR ''*'' \<notin> set input" "\<not> sublist ''||'' input"
proof -
  have "ascii_lower CHR ''*'' = CHR ''*''" by (simp add: ascii_lower_def byte_of_def)
  then have "CHR ''*'' \<in> set (to_ascii_lowercase input)" if "CHR ''*'' \<in> set input"
    using that unfolding to_ascii_lowercase_def set_map by force
  then show "CHR ''*'' \<notin> set input" "\<not> sublist ''||'' input"
    using assms by (auto simp: validate_range_syntax_def contains_text_sublist Let_def split: if_splits)
qed

definition bounded_shape :: "comparator list \<Rightarrow> bool" where
  "bounded_shape cs \<longleftrightarrow> single_op OpCaret cs \<or> single_op OpTilde cs
     \<or> set (map cmp_op cs) \<subseteq> {OpGreater, OpGreaterEq, OpLess, OpLessEq}
       \<and> set (map cmp_op cs) \<inter> {OpGreater, OpGreaterEq} \<noteq> {} \<and> set (map cmp_op cs) \<inter> {OpLess, OpLessEq} \<noteq> {}"

lemma range_shape_Ok:
  assumes "validate_range_shape sv input r = Ok u"
  shows "bounded_shape (sv_comparators sv r)"
proof -
  let ?cs = "sv_comparators sv r"
  consider "single_op OpCaret ?cs" | "single_op OpTilde ?cs"
    | "list_ex (\<lambda>c. cmp_op c \<in> {OpGreater, OpGreaterEq}) ?cs" "list_ex (\<lambda>c. cmp_op c \<in> {OpLess, OpLessEq}) ?cs"
      "list_all (\<lambda>c. cmp_op c \<in> {OpGreater, OpGreaterEq, OpLess, OpLessEq}) ?cs"
    using assms unfolding validate_range_shape_def Let_def by (auto split: list.splits if_splits)
  then show ?thesis
  proof cases
    case 3
    then show ?thesis unfolding bounded_shape_def set_map list_ex_iff list_all_iff by blast
  qed (simp_all add: bounded_shape_def)
qed

text \<open>A text that \<open>VersionConstraint::parse\<close> accepts as a range has no wildcard and no alternative, and
  its requirement is one caret or one tilde comparator, or a list of comparisons with a lower and an upper
  bound; anything else it accepts is one exact version.\<close>

theorem parse_constraint_shape:
  "case parse_constraint sv input of
     Inl e \<Rightarrow> True
   | Inr (Exact v) \<Rightarrow> parse_package_version sv (trim input) = Inr v
   | Inr (Range n r) \<Rightarrow>
       n = sv_show_req sv r \<and> sv_parse_req sv (trim input) = Inr r
       \<and> CHR ''*'' \<notin> set (trim input) \<and> \<not> sublist ''||'' (trim input)
       \<and> bounded_shape (sv_comparators sv r)"
proof (cases "parse_constraint sv input")
  case (Inr c)
  show ?thesis
  proof (cases "parse_package_version sv (trim input)")
    case Inl
    then obtain r where r: "validate_range_syntax (trim input) = Ok ()" "sv_parse_req sv (trim input) = Ok r"
        "validate_range_shape sv (trim input) r = Ok ()" "c = Range (sv_show_req sv r) r"
      using \<open>parse_constraint sv input = Inr c\<close> by (auto simp: parse_constraint_def Let_def split: if_splits)
    then show ?thesis using Inr range_syntax_Ok [OF r(1)] range_shape_Ok [OF r(3)] by simp
  next
    case (Inr v)
    then show ?thesis using \<open>parse_constraint sv input = Inr c\<close>
      by (auto simp: parse_constraint_def Let_def split: if_splits)
  qed
qed simp

end
