(* ===== verification/Transparency.thy ===== *)
theory Transparency
  imports Ordered_Map Rust_Text
begin

text \<open>
  Release signatures and the transparency log of \<open>crates/nomo_supply_chain/src/lib.rs\<close>. The hash function
  and the signature check of the crates \<open>sha2\<close> and \<open>ring\<close> and the version parser of \<open>semver\<close> are parameters, the
  fields of the record \<open>crates\<close>. Bytes are lists of \<open>char\<close>; the \<open>u64\<close> sizes, sequence numbers and times are
  natural numbers, with the saturation of the only addition written out. Errors are the messages.
\<close>

section \<open>Parameters\<close>

record crates =
  cr_sha256 :: "string \<Rightarrow> string"
  cr_ed25519 :: "string \<Rightarrow> string \<Rightarrow> string \<Rightarrow> bool"
  cr_semver :: "string \<Rightarrow> string + unit"

definition ensure :: "bool \<Rightarrow> string \<Rightarrow> string + unit" where
  "ensure b message = (if b then Ok () else Err message)"

definition saturating_add :: "nat \<Rightarrow> nat \<Rightarrow> nat" where
  "saturating_add a b = min (a + b) 18446744073709551615"

definition RELEASE_ENVELOPE_SCHEMA :: nat where "RELEASE_ENVELOPE_SCHEMA = 1"
definition TRANSPARENCY_HEAD_SCHEMA :: nat where "TRANSPARENCY_HEAD_SCHEMA = 2"
definition LOG_KEY_ROTATION_SCHEMA :: nat where "LOG_KEY_ROTATION_SCHEMA = 1"
definition DEFAULT_PROOF_MAX_AGE_SECONDS :: nat where "DEFAULT_PROOF_MAX_AGE_SECONDS = 24 * 60 * 60"
definition DEFAULT_OFFLINE_PROOF_MAX_AGE_SECONDS :: nat where
  "DEFAULT_OFFLINE_PROOF_MAX_AGE_SECONDS = 7 * 24 * 60 * 60"
definition DEFAULT_PROOF_MAX_FUTURE_SKEW_SECONDS :: nat where
  "DEFAULT_PROOF_MAX_FUTURE_SKEW_SECONDS = 5 * 60"

section \<open>Text forms\<close>

definition nibble_char :: "nat \<Rightarrow> char" where
  "nibble_char d = char_of (if d < 10 then 48 + d else 87 + d)"

definition encode_hex :: "string \<Rightarrow> string" where
  "encode_hex bytes = concat (map (\<lambda>c. [nibble_char (byte_of c div 16), nibble_char (byte_of c mod 16)]) bytes)"

definition hex_nibble :: "char \<Rightarrow> nat" where
  "hex_nibble c = (if is_ascii_digit c then byte_of c - 48
     else if 97 \<le> byte_of c then byte_of c - 87 else byte_of c - 55)"

fun decode_pairs :: "string \<Rightarrow> string" where
  "decode_pairs (a # b # s) = char_of (16 * hex_nibble a + hex_nibble b) # decode_pairs s"
| "decode_pairs _ = []"

definition decode_hex :: "string \<Rightarrow> string + string" where
  "decode_hex v =
     (if odd (length v) \<or> \<not> list_all is_ascii_hexdigit v
      then Err ''hex value must contain an even number of hexadecimal digits''
      else Ok (decode_pairs v))"

definition sha256_digest :: "crates \<Rightarrow> string \<Rightarrow> string" where
  "sha256_digest x bytes = ''sha256:'' @ encode_hex (cr_sha256 x bytes)"

definition validate_sha256 :: "string \<Rightarrow> string \<Rightarrow> string + unit" where
  "validate_sha256 label digest = (case strip_prefix_text ''sha256:'' digest of
       None \<Rightarrow> Err (label @ '' must use sha256:<hex>'')
     | Some hex \<Rightarrow>
         if length hex = 64 \<and> list_all is_ascii_hexdigit hex then Ok ()
         else Err (label @ '' must contain 64 hexadecimal digits''))"

definition canonical_field :: "string \<Rightarrow> string \<Rightarrow> string \<Rightarrow> string" where
  "canonical_field out name v =
     out @ name @ [CHR '':''] @ show_nat (length v) @ [CHR '':''] @ v @ [CHR 0x0A]"

text \<open>The names of packages, of \<open>crates/nomo_manifest/src/lib.rs\<close>.\<close>

definition segment_end :: "char \<Rightarrow> bool" where
  "segment_end c \<longleftrightarrow> is_ascii_lowercase c \<or> is_ascii_digit c"

definition validate_package_segment :: "string \<Rightarrow> string \<Rightarrow> string + unit" where
  "validate_package_segment label v =
     (if v \<noteq> [] \<and> list_all (\<lambda>c. c = CHR ''-'' \<or> segment_end c) v \<and> segment_end (hd v) \<and> segment_end (last v)
      then Ok ()
      else Err (label @ '' `'' @ v
        @ ''` must use lowercase letters, digits, or hyphens, and cannot start or end with `-`''))"

definition validate_package_namespace :: "string \<Rightarrow> string \<Rightarrow> string + unit" where
  "validate_package_namespace label v =
     try_bind (validate_package_segment label v) (\<lambda>_.
       if v \<in> {''std'', ''nomo'', ''core''}
       then Err (label @ '' `'' @ v
         @ ''` is reserved; use an organization or user namespace such as `nomo-lang`'')
       else Ok ())"

definition split_once :: "char \<Rightarrow> string \<Rightarrow> (string \<times> string) option" where
  "split_once c s = (if c \<in> set s
     then Some (takeWhile (\<lambda>d. d \<noteq> c) s, tl (dropWhile (\<lambda>d. d \<noteq> c) s)) else None)"

definition validate_package_id :: "string \<Rightarrow> string + unit" where
  "validate_package_id v = (case split_once CHR ''/'' v of
       None \<Rightarrow> Err (''canonical package id `'' @ v @ ''` must use `owner/package`'')
     | Some (owner, package) \<Rightarrow>
         if CHR ''/'' \<in> set package
         then Err (''canonical package id `'' @ v @ ''` must contain exactly one `/`'')
         else try_bind (validate_package_namespace ''package namespace'' owner) (\<lambda>_.
           validate_package_segment ''package name'' package))"

definition package_version :: "crates \<Rightarrow> string \<Rightarrow> string + unit" where
  "package_version x v =
     (let v = trim v in
      if v = [] then Err ''package version must not be empty''
      else map_err (\<lambda>e. ''invalid semantic version `'' @ v @ ''`: '' @ e) (cr_semver x v))"

definition validate_version_like :: "crates \<Rightarrow> string \<Rightarrow> string \<Rightarrow> string + unit" where
  "validate_version_like x label v =
     map_err (\<lambda>e. label @ '' `'' @ v @ ''` is invalid: '' @ e) (package_version x v)"

section \<open>Signed releases\<close>

record release_subject =
  rs_schema :: nat
  rs_package :: string
  rs_version :: string
  rs_archive_checksum :: string
  rs_manifest_checksum :: string
  rs_provenance_digest :: "string option"

definition subject_validate :: "crates \<Rightarrow> release_subject \<Rightarrow> string + unit" where
  "subject_validate x s =
     try_bind (ensure (rs_schema s = RELEASE_ENVELOPE_SCHEMA)
       (''unsupported release envelope schema '' @ show_nat (rs_schema s))) (\<lambda>_.
     try_bind (validate_package_id (rs_package s)) (\<lambda>_.
     try_bind (validate_version_like x ''signed release version'' (rs_version s)) (\<lambda>_.
     try_bind (validate_sha256 ''archive checksum'' (rs_archive_checksum s)) (\<lambda>_.
     try_bind (validate_sha256 ''manifest checksum'' (rs_manifest_checksum s)) (\<lambda>_.
       case rs_provenance_digest s of
         None \<Rightarrow> Ok ()
       | Some digest \<Rightarrow> validate_sha256 ''provenance digest'' digest)))))"

definition subject_new ::
    "crates \<Rightarrow> string \<Rightarrow> string \<Rightarrow> string \<Rightarrow> string \<Rightarrow> string option \<Rightarrow> string + release_subject" where
  "subject_new x package version archive_checksum manifest_checksum provenance_digest =
     (let subject = \<lparr>rs_schema = RELEASE_ENVELOPE_SCHEMA, rs_package = package, rs_version = version,
          rs_archive_checksum = archive_checksum, rs_manifest_checksum = manifest_checksum,
          rs_provenance_digest = provenance_digest\<rparr>
      in map_ok (\<lambda>_. subject) (subject_validate x subject))"

definition unwrap_or_empty :: "string option \<Rightarrow> string" where
  "unwrap_or_empty v = (case v of None \<Rightarrow> [] | Some s \<Rightarrow> s)"

definition subject_canonical_bytes :: "crates \<Rightarrow> release_subject \<Rightarrow> string + string" where
  "subject_canonical_bytes x s =
     try_bind (subject_validate x s) (\<lambda>_.
       let out = ''nomo-release-envelope-v1'' @ [CHR 0x0A];
           out = canonical_field out ''package'' (rs_package s);
           out = canonical_field out ''version'' (rs_version s);
           out = canonical_field out ''archive'' (rs_archive_checksum s);
           out = canonical_field out ''manifest'' (rs_manifest_checksum s);
           out = canonical_field out ''provenance'' (unwrap_or_empty (rs_provenance_digest s))
       in Ok out)"

definition subject_digest :: "crates \<Rightarrow> release_subject \<Rightarrow> string + string" where
  "subject_digest x s = map_ok (sha256_digest x) (subject_canonical_bytes x s)"

record publisher_signature =
  ps_algorithm :: string
  ps_key_id :: string
  ps_public_key :: string
  ps_signature :: string

record signed_release_envelope =
  re_subject :: release_subject
  re_signature :: publisher_signature

record external_signer_response =
  sr_algorithm :: string
  sr_key_id :: "string option"
  sr_public_key :: string
  sr_signature :: string

record publisher_key =
  pk_key_id :: string
  pk_public_key :: string

definition publisher_key_id :: "crates \<Rightarrow> string \<Rightarrow> string" where
  "publisher_key_id x public_key = sha256_digest x public_key"

definition verify_signature_bytes :: "crates \<Rightarrow> signed_release_envelope \<Rightarrow> string + unit" where
  "verify_signature_bytes x envelope =
     (let sig = re_signature envelope in
      try_bind (subject_validate x (re_subject envelope)) (\<lambda>_.
      try_bind (ensure (ps_algorithm sig = ''ed25519'')
        (''unsupported release signature algorithm `'' @ ps_algorithm sig @ ''`'')) (\<lambda>_.
      try_bind (decode_hex (ps_public_key sig)) (\<lambda>public_key.
      try_bind (ensure (length public_key = 32) ''ed25519 public key must contain 32 bytes'') (\<lambda>_.
      try_bind (ensure (ps_key_id sig = publisher_key_id x public_key)
        ''release signature key id does not match its public key'') (\<lambda>_.
      try_bind (decode_hex (ps_signature sig)) (\<lambda>signature.
      try_bind (ensure (length signature = 64) ''ed25519 signature must contain 64 bytes'') (\<lambda>_.
      try_bind (subject_canonical_bytes x (re_subject envelope)) (\<lambda>message.
        ensure (cr_ed25519 x public_key message signature)
          ''release signature verification failed'')))))))))"

definition envelope_from_signer_response ::
    "crates \<Rightarrow> release_subject \<Rightarrow> external_signer_response \<Rightarrow> string + signed_release_envelope" where
  "envelope_from_signer_response x subject response =
     try_bind (ensure (sr_algorithm response = ''ed25519'')
       (''unsupported signer algorithm `'' @ sr_algorithm response @ ''`; expected ed25519'')) (\<lambda>_.
     try_bind (decode_hex (sr_public_key response)) (\<lambda>public_key.
     try_bind (ensure (length public_key = 32) ''ed25519 public key must contain 32 bytes'') (\<lambda>_.
     let derived_key_id = publisher_key_id x public_key in
     try_bind (ensure (case sr_key_id response of None \<Rightarrow> True | Some key_id \<Rightarrow> key_id = derived_key_id)
       ''external signer key id does not match its public key'') (\<lambda>_.
     let envelope = \<lparr>re_subject = subject, re_signature = \<lparr>ps_algorithm = sr_algorithm response,
           ps_key_id = derived_key_id, ps_public_key = encode_hex public_key,
           ps_signature = to_ascii_lowercase (sr_signature response)\<rparr>\<rparr>
     in map_ok (\<lambda>_. envelope) (verify_signature_bytes x envelope)))))"

definition verify_release_envelope ::
    "crates \<Rightarrow> signed_release_envelope \<Rightarrow> release_subject \<Rightarrow> publisher_key list \<Rightarrow> string + unit" where
  "verify_release_envelope x envelope expected_subject authorized_keys =
     try_bind (ensure (re_subject envelope = expected_subject)
       ''signed release subject does not match the requested package artifact'') (\<lambda>_.
     try_bind (verify_signature_bytes x envelope) (\<lambda>_.
       ensure (list_ex (\<lambda>key. pk_key_id key = ps_key_id (re_signature envelope)
           \<and> eq_ignore_ascii_case (pk_public_key key) (ps_public_key (re_signature envelope))) authorized_keys)
         (''publisher key `'' @ ps_key_id (re_signature envelope) @ ''` is not authorized for package `''
           @ rs_package (re_subject envelope) @ ''`'')))"

section \<open>Events and tree heads\<close>

datatype transparency_event_kind =
    KeyRegistered (kr_package: string) (kr_key_id: string) (kr_public_key: string)
  | KeyRevoked (kv_package: string) (kv_key_id: string)
  | ReleaseLogged (rl_package: string) (rl_version: string) (rl_subject_digest: string) (rl_key_id: string)

record transparency_event =
  ev_sequence :: nat
  ev_kind :: transparency_event_kind

definition event_validate :: "crates \<Rightarrow> transparency_event \<Rightarrow> string + unit" where
  "event_validate x e = (case ev_kind e of
       KeyRegistered package key_id public_key \<Rightarrow>
         try_bind (validate_package_id package) (\<lambda>_.
         try_bind (decode_hex public_key) (\<lambda>bytes.
           ensure (length bytes = 32 \<and> publisher_key_id x bytes = key_id)
             ''transparency key registration has an invalid key identity''))
     | KeyRevoked package key_id \<Rightarrow>
         try_bind (validate_package_id package) (\<lambda>_. validate_sha256 ''revoked publisher key id'' key_id)
     | ReleaseLogged package version digest key_id \<Rightarrow>
         try_bind (validate_package_id package) (\<lambda>_.
         try_bind (validate_version_like x ''transparency release version'' version) (\<lambda>_.
         try_bind (validate_sha256 ''release subject digest'' digest) (\<lambda>_.
           validate_sha256 ''release publisher key id'' key_id))))"

definition kind_fields :: "transparency_event_kind \<Rightarrow> (string \<times> string) list" where
  "kind_fields k = (case k of
       KeyRegistered package key_id public_key \<Rightarrow>
         [(''type'', ''key-registered''), (''package'', package), (''key-id'', key_id), (''public-key'', public_key)]
     | KeyRevoked package key_id \<Rightarrow>
         [(''type'', ''key-revoked''), (''package'', package), (''key-id'', key_id)]
     | ReleaseLogged package version digest key_id \<Rightarrow>
         [(''type'', ''release''), (''package'', package), (''version'', version), (''subject'', digest),
          (''key-id'', key_id)])"

definition canonical_fields :: "string \<Rightarrow> (string \<times> string) list \<Rightarrow> string" where
  "canonical_fields out entries = fold (\<lambda>(name, v) out. canonical_field out name v) entries out"

definition event_canonical_bytes :: "crates \<Rightarrow> transparency_event \<Rightarrow> string + string" where
  "event_canonical_bytes x e =
     try_bind (event_validate x e) (\<lambda>_.
       let out = canonical_field (''nomo-transparency-event-v1'' @ [CHR 0x0A]) ''sequence'' (show_nat (ev_sequence e))
       in Ok (canonical_fields out (kind_fields (ev_kind e))))"

datatype proof_side = SideLeft | SideRight

record proof_step =
  step_side :: proof_side
  step_hash :: string

record inclusion_proof =
  prf_leaf_index :: nat
  prf_tree_size :: nat
  prf_siblings :: "proof_step list"

record signed_tree_head =
  th_schema :: nat
  th_log_id :: string
  th_tree_size :: nat
  th_root_hash :: string
  th_issued_at :: nat
  th_previous_size :: "nat option"
  th_previous_root :: "string option"
  th_algorithm :: string
  th_key_id :: string
  th_signature :: string

definition head_validate :: "signed_tree_head \<Rightarrow> string + unit" where
  "head_validate h =
     try_bind (ensure (th_schema h = TRANSPARENCY_HEAD_SCHEMA)
       (''unsupported transparency tree-head schema '' @ show_nat (th_schema h))) (\<lambda>_.
     try_bind (ensure (trim (th_log_id h) \<noteq> []) ''transparency tree head must include a non-empty log id'') (\<lambda>_.
     try_bind (ensure (th_tree_size h \<noteq> 0) ''transparency tree head must contain at least one event'') (\<lambda>_.
     try_bind (validate_sha256 ''transparency root hash'' (th_root_hash h)) (\<lambda>_.
     try_bind (ensure (th_issued_at h \<noteq> 0) ''transparency tree head must include an issuance timestamp'') (\<lambda>_.
       case (th_previous_size h, th_previous_root h) of
         (None, None) \<Rightarrow> Ok ()
       | (Some prev_size, Some prev_root) \<Rightarrow>
           if prev_size < th_tree_size h then validate_sha256 ''previous transparency root hash'' prev_root
           else Err ''previous transparency tree size must be smaller than the current size''
       | _ \<Rightarrow> Err ''previous transparency tree size and root hash must be provided together'')))))"

definition head_canonical_bytes :: "signed_tree_head \<Rightarrow> string + string" where
  "head_canonical_bytes h =
     try_bind (head_validate h) (\<lambda>_.
     try_bind (validate_sha256 ''transparency root hash'' (th_root_hash h)) (\<lambda>_.
       Ok (canonical_fields (''nomo-transparency-head-v2'' @ [CHR 0x0A])
         [(''schema'', show_nat (th_schema h)), (''log-id'', th_log_id h), (''tree-size'', show_nat (th_tree_size h)),
          (''root-hash'', th_root_hash h), (''issued-at'', show_nat (th_issued_at h)),
          (''previous-size'', case th_previous_size h of None \<Rightarrow> [] | Some prev_size \<Rightarrow> show_nat prev_size),
          (''previous-root'', unwrap_or_empty (th_previous_root h)), (''algorithm'', th_algorithm h),
          (''key-id'', th_key_id h)])))"

record log_key_rotation =
  rot_schema :: nat
  rot_log_id :: string
  rot_activate_at :: nat
  rot_old_key_id :: string
  rot_old_public_key :: string
  rot_new_key_id :: string
  rot_new_public_key :: string
  rot_old_signature :: string
  rot_new_signature :: string

definition validate_log_key_identity :: "crates \<Rightarrow> string \<Rightarrow> string \<Rightarrow> string \<Rightarrow> string + unit" where
  "validate_log_key_identity x label key_id public_key =
     try_bind (decode_hex public_key) (\<lambda>bytes.
       ensure (length bytes = 32 \<and> publisher_key_id x bytes = key_id)
         (label @ '' transparency log key identity is invalid''))"

definition rotation_validate_identity :: "crates \<Rightarrow> log_key_rotation \<Rightarrow> string + unit" where
  "rotation_validate_identity x r =
     try_bind (ensure (rot_schema r = LOG_KEY_ROTATION_SCHEMA)
       (''unsupported transparency log-key rotation schema '' @ show_nat (rot_schema r))) (\<lambda>_.
     try_bind (ensure (trim (rot_log_id r) \<noteq> []) ''transparency log-key rotation must include a log id'') (\<lambda>_.
     try_bind (ensure (rot_activate_at r \<noteq> 0)
       ''transparency log-key rotation activation size must be positive'') (\<lambda>_.
     try_bind (validate_log_key_identity x ''old'' (rot_old_key_id r) (rot_old_public_key r)) (\<lambda>_.
     try_bind (validate_log_key_identity x ''new'' (rot_new_key_id r) (rot_new_public_key r)) (\<lambda>_.
       ensure (rot_old_key_id r \<noteq> rot_new_key_id r)
         ''transparency log-key rotation must change the key'')))))"

definition rotation_canonical_bytes :: "crates \<Rightarrow> log_key_rotation \<Rightarrow> string + string" where
  "rotation_canonical_bytes x r =
     map_ok (\<lambda>_. canonical_fields (''nomo-transparency-log-key-rotation-v1'' @ [CHR 0x0A])
         [(''schema'', show_nat (rot_schema r)), (''log-id'', rot_log_id r),
          (''activate-at-tree-size'', show_nat (rot_activate_at r)), (''old-key-id'', rot_old_key_id r),
          (''old-public-key'', rot_old_public_key r), (''new-key-id'', rot_new_key_id r),
          (''new-public-key'', rot_new_public_key r)])
       (rotation_validate_identity x r)"

record log_inclusion =
  inc_event :: transparency_event
  inc_proof :: inclusion_proof

record transparency_bundle =
  tb_head :: signed_tree_head
  tb_log_public_key :: string
  tb_rotations :: "log_key_rotation list"
  tb_head_history :: "signed_tree_head list"
  tb_release :: log_inclusion
  tb_key_events :: "log_inclusion list"

record cached_tree_head =
  ch_tree_size :: nat
  ch_root_hash :: string
  ch_issued_at :: nat
  ch_key_id :: string

record gossip_checkpoint =
  gc_observed_at :: nat
  gc_head :: signed_tree_head

record proof_freshness_policy =
  fp_max_age :: nat
  fp_offline_max_age :: nat
  fp_max_future_skew :: nat

definition default_freshness :: proof_freshness_policy where
  "default_freshness = \<lparr>fp_max_age = DEFAULT_PROOF_MAX_AGE_SECONDS,
     fp_offline_max_age = DEFAULT_OFFLINE_PROOF_MAX_AGE_SECONDS,
     fp_max_future_skew = DEFAULT_PROOF_MAX_FUTURE_SKEW_SECONDS\<rparr>"

record verification_policy =
  vp_trusted_log_keys :: "string list"
  vp_freshness :: proof_freshness_policy
  vp_gossip :: "gossip_checkpoint list"

definition pinned_policy :: "string list \<Rightarrow> verification_policy" where
  "pinned_policy keys = \<lparr>vp_trusted_log_keys = keys, vp_freshness = default_freshness, vp_gossip = []\<rparr>"

record verified_transparency =
  vt_cached_head :: cached_tree_head
  vt_gossip :: gossip_checkpoint

section \<open>The Merkle tree\<close>

definition leaf_hash :: "crates \<Rightarrow> string \<Rightarrow> string" where
  "leaf_hash x bytes = cr_sha256 x (char_of (0 :: nat) # bytes)"

definition node_hash :: "crates \<Rightarrow> string \<Rightarrow> string \<Rightarrow> string" where
  "node_hash x left right = cr_sha256 x (char_of (1 :: nat) # left @ right)"

fun next_merkle_level :: "crates \<Rightarrow> string list \<Rightarrow> string list" where
  "next_merkle_level x (a # b # level) = node_hash x a b # next_merkle_level x level"
| "next_merkle_level x level = level"

lemma length_next_merkle_level: "length (next_merkle_level x level) = (length level + 1) div 2"
  by (induction x level rule: next_merkle_level.induct) auto

text \<open>Reading the first hash of an empty level panics, the value \<open>None\<close>.\<close>

function merkle_root :: "crates \<Rightarrow> string list \<Rightarrow> string option" where
  "merkle_root x level =
     (if 1 < length level then merkle_root x (next_merkle_level x level)
      else case level of [] \<Rightarrow> None | root # _ \<Rightarrow> Some root)"
  by pat_completeness auto
termination
  by (relation "measure (\<lambda>(x, level). length level)") (auto simp: length_next_merkle_level)

declare merkle_root.simps [simp del]

record transparency_log =
  log_events :: "transparency_event list"

fun check_events :: "crates \<Rightarrow> nat \<Rightarrow> transparency_event list \<Rightarrow> string + unit" where
  "check_events x index [] = Ok ()"
| "check_events x index (e # events) =
     (if ev_sequence e \<noteq> index
      then Err (''transparency event sequence '' @ show_nat (ev_sequence e) @ '' does not match index ''
        @ show_nat index)
      else try_bind (event_validate x e) (\<lambda>_. check_events x (Suc index) events))"

definition log_new :: "crates \<Rightarrow> transparency_event list \<Rightarrow> string + transparency_log" where
  "log_new x events =
     (if events = [] then Err ''transparency log must contain at least one event''
      else map_ok (\<lambda>_. \<lparr>log_events = events\<rparr>) (check_events x 0 events))"

definition leaf_hashes :: "crates \<Rightarrow> transparency_log \<Rightarrow> string + string list" where
  "leaf_hashes x log = try_map (\<lambda>e. map_ok (leaf_hash x) (event_canonical_bytes x e)) (log_events log)"

definition digest_text :: "string \<Rightarrow> string" where
  "digest_text hash = ''sha256:'' @ encode_hex hash"

text \<open>The root of a log that \<open>log_new\<close> made; the panic of an empty log is \<open>Ok None\<close>.\<close>

definition root_hash :: "crates \<Rightarrow> transparency_log \<Rightarrow> string + string option" where
  "root_hash x log = map_ok (\<lambda>leaves. map_option digest_text (merkle_root x leaves)) (leaf_hashes x log)"

function inclusion_steps :: "crates \<Rightarrow> string list \<Rightarrow> nat \<Rightarrow> proof_step list" where
  "inclusion_steps x level current =
     (if 1 < length level then
        (if odd current then [\<lparr>step_side = SideLeft, step_hash = encode_hex (level ! (current - 1))\<rparr>]
         else if current + 1 < length level
         then [\<lparr>step_side = SideRight, step_hash = encode_hex (level ! (current + 1))\<rparr>]
         else [])
        @ inclusion_steps x (next_merkle_level x level) (current div 2)
      else [])"
  by pat_completeness auto
termination
  by (relation "measure (\<lambda>(x, level, current). length level)") (auto simp: length_next_merkle_level)

declare inclusion_steps.simps [simp del]

definition inclusion :: "crates \<Rightarrow> transparency_log \<Rightarrow> nat \<Rightarrow> string + log_inclusion" where
  "inclusion x log index =
     (if index < length (log_events log) then
        map_ok (\<lambda>level. \<lparr>inc_event = log_events log ! index,
            inc_proof = \<lparr>prf_leaf_index = index, prf_tree_size = length (log_events log),
              prf_siblings = inclusion_steps x level index\<rparr>\<rparr>) (leaf_hashes x log)
      else Err (''transparency event index '' @ show_nat index @ '' is out of range''))"

definition decode_hash :: "string \<Rightarrow> string + string" where
  "decode_hash v = try_bind (decode_hex v) (\<lambda>bytes.
     if length bytes = 32 then Ok bytes else Err ''transparency proof hash must contain 32 bytes'')"

fun fold_siblings :: "crates \<Rightarrow> proof_step list \<Rightarrow> string \<Rightarrow> string + string" where
  "fold_siblings x [] hash = Ok hash"
| "fold_siblings x (s # siblings) hash =
     try_bind (decode_hash (step_hash s)) (\<lambda>sibling.
       fold_siblings x siblings (case step_side s of
           SideLeft \<Rightarrow> node_hash x sibling hash
         | SideRight \<Rightarrow> node_hash x hash sibling))"

definition verify_log_inclusion :: "crates \<Rightarrow> log_inclusion \<Rightarrow> signed_tree_head \<Rightarrow> string + unit" where
  "verify_log_inclusion x inc h =
     (let p = inc_proof inc in
      if prf_tree_size p \<noteq> th_tree_size h \<or> prf_tree_size p \<le> prf_leaf_index p
         \<or> prf_leaf_index p \<noteq> ev_sequence (inc_event inc)
      then Err ''transparency inclusion proof indices are inconsistent''
      else
        try_bind (event_canonical_bytes x (inc_event inc)) (\<lambda>bytes.
        try_bind (fold_siblings x (prf_siblings p) (leaf_hash x bytes)) (\<lambda>hash.
          ensure (digest_text hash = th_root_hash h)
            ''transparency inclusion proof does not match the signed tree head'')))"

end
