(* ===== verification/Transparency_Bundle.thy ===== *)
theory Transparency_Bundle
  imports Transparency
begin

text \<open>
  The verification of a transparency bundle: the timeline of the log keys, the freshness of the signed
  tree head, the chain of tree heads back to a known one, and the state of the publisher keys when the
  release was logged.
\<close>

section \<open>Signatures of the log\<close>

definition verify_ed25519_signature :: "crates \<Rightarrow> string \<Rightarrow> string \<Rightarrow> string \<Rightarrow> string \<Rightarrow> string + unit" where
  "verify_ed25519_signature x label public_key signature message =
     try_bind (decode_hex public_key) (\<lambda>public_key.
     try_bind (ensure (length public_key = 32) (label @ '' public key must contain 32 bytes'')) (\<lambda>_.
     try_bind (decode_hex signature) (\<lambda>signature.
     try_bind (ensure (length signature = 64) (label @ '' signature must contain 64 bytes'')) (\<lambda>_.
       ensure (cr_ed25519 x public_key message signature) (label @ '' signature verification failed'')))))"

definition verify_log_key_rotation :: "crates \<Rightarrow> log_key_rotation \<Rightarrow> string + unit" where
  "verify_log_key_rotation x r =
     try_bind (rotation_canonical_bytes x r) (\<lambda>canonical.
     try_bind (verify_ed25519_signature x ''old transparency log key'' (rot_old_public_key r)
       (rot_old_signature r) canonical) (\<lambda>_.
       verify_ed25519_signature x ''new transparency log key'' (rot_new_public_key r)
         (rot_new_signature r) canonical))"

definition verify_tree_head :: "crates \<Rightarrow> signed_tree_head \<Rightarrow> string \<Rightarrow> string + unit" where
  "verify_tree_head x h public_key =
     try_bind (head_validate h) (\<lambda>_.
     try_bind (ensure (th_algorithm h = ''ed25519'')
       (''unsupported transparency signature algorithm `'' @ th_algorithm h @ ''`'')) (\<lambda>_.
     try_bind (decode_hex public_key) (\<lambda>public_key.
     try_bind (ensure (length public_key = 32 \<and> publisher_key_id x public_key = th_key_id h)
       ''transparency tree-head key identity is invalid'') (\<lambda>_.
     try_bind (decode_hex (th_signature h)) (\<lambda>signature.
     try_bind (ensure (length signature = 64)
       ''transparency tree-head signature must contain 64 bytes'') (\<lambda>_.
     try_bind (head_canonical_bytes h) (\<lambda>message.
       ensure (cr_ed25519 x public_key message signature)
         ''transparency tree-head signature verification failed'')))))))"

section \<open>The timeline of the log keys\<close>

record log_key_timeline =
  tl_log_id :: string
  tl_initial_public_key :: string
  tl_rotations :: "log_key_rotation list"

fun key_after :: "nat \<Rightarrow> string \<Rightarrow> log_key_rotation list \<Rightarrow> string" where
  "key_after tree_size public_key [] = public_key"
| "key_after tree_size public_key (r # rotations) =
     (if tree_size < rot_activate_at r then public_key
      else key_after tree_size (rot_new_public_key r) rotations)"

definition public_key_at :: "log_key_timeline \<Rightarrow> nat \<Rightarrow> string" where
  "public_key_at timeline tree_size = key_after tree_size (tl_initial_public_key timeline) (tl_rotations timeline)"

text \<open>The loop over the rotations, with the key and the activation size they must continue.\<close>

fun check_rotations :: "crates \<Rightarrow> signed_tree_head \<Rightarrow> log_key_rotation list \<Rightarrow> string \<Rightarrow> nat \<Rightarrow> string + string" where
  "check_rotations x h [] expected previous_activation = Ok expected"
| "check_rotations x h (r # rotations) expected previous_activation =
     try_bind (rotation_validate_identity x r) (\<lambda>_.
     try_bind (ensure (rot_log_id r = th_log_id h)
       ''transparency log-key rotation targets a different log id'') (\<lambda>_.
     try_bind (ensure (eq_ignore_ascii_case (rot_old_public_key r) expected)
       ''transparency log-key rotation chain is discontinuous'') (\<lambda>_.
     try_bind (ensure (\<not> (rot_activate_at r \<le> previous_activation \<or> th_tree_size h < rot_activate_at r))
       ''transparency log-key rotation activation sizes must increase within the verified tree'') (\<lambda>_.
     try_bind (verify_log_key_rotation x r) (\<lambda>_.
       check_rotations x h rotations (to_ascii_lowercase (rot_new_public_key r)) (rot_activate_at r))))))"

definition build_log_key_timeline :: "crates \<Rightarrow> transparency_bundle \<Rightarrow> string list \<Rightarrow> string + log_key_timeline" where
  "build_log_key_timeline x bundle trusted =
     try_bind (validate_log_key_identity x ''current'' (th_key_id (tb_head bundle)) (tb_log_public_key bundle)) (\<lambda>_.
     case tb_rotations bundle of
       [] \<Rightarrow>
         try_bind (ensure (list_ex (\<lambda>key. eq_ignore_ascii_case key (tb_log_public_key bundle)) trusted)
           ''transparency log public key is not trusted by policy'') (\<lambda>_.
           Ok \<lparr>tl_log_id = th_log_id (tb_head bundle),
               tl_initial_public_key = to_ascii_lowercase (tb_log_public_key bundle), tl_rotations = []\<rparr>)
     | first # _ \<Rightarrow>
         try_bind (ensure (list_ex (\<lambda>key. eq_ignore_ascii_case key (rot_old_public_key first)) trusted)
           ''transparency log-key rotation chain does not start at a policy-pinned key'') (\<lambda>_.
         try_bind (check_rotations x (tb_head bundle) (tb_rotations bundle)
           (to_ascii_lowercase (rot_old_public_key first)) 0) (\<lambda>expected.
         try_bind (ensure (eq_ignore_ascii_case expected (tb_log_public_key bundle))
           ''transparency log-key rotation chain does not reach the current tree-head key'') (\<lambda>_.
           Ok \<lparr>tl_log_id = th_log_id (tb_head bundle),
               tl_initial_public_key = to_ascii_lowercase (rot_old_public_key first),
               tl_rotations = tb_rotations bundle\<rparr>))))"

definition verify_tree_head_with_timeline ::
    "crates \<Rightarrow> signed_tree_head \<Rightarrow> log_key_timeline \<Rightarrow> string + unit" where
  "verify_tree_head_with_timeline x h timeline =
     try_bind (ensure (th_log_id h = tl_log_id timeline)
       ''transparency tree head targets a different log id'') (\<lambda>_.
       verify_tree_head x h (public_key_at timeline (th_tree_size h)))"

section \<open>Policy and freshness\<close>

fun check_trusted_keys :: "string list \<Rightarrow> string + unit" where
  "check_trusted_keys [] = Ok ()"
| "check_trusted_keys (key # keys) =
     try_bind (decode_hex key) (\<lambda>bytes.
     try_bind (ensure (length bytes = 32) ''transparency policy log keys must contain 32 bytes'') (\<lambda>_.
       check_trusted_keys keys))"

definition validate_transparency_policy :: "verification_policy \<Rightarrow> string + unit" where
  "validate_transparency_policy policy =
     try_bind (ensure (vp_trusted_log_keys policy \<noteq> [])
       ''transparency policy must pin at least one log key'') (\<lambda>_.
     try_bind (check_trusted_keys (vp_trusted_log_keys policy)) (\<lambda>_.
       ensure (\<not> (fp_max_age (vp_freshness policy) = 0
           \<or> fp_offline_max_age (vp_freshness policy) < fp_max_age (vp_freshness policy)))
         ''offline transparency proof age must be at least the positive online proof age''))"

definition verify_head_freshness ::
    "signed_tree_head \<Rightarrow> proof_freshness_policy \<Rightarrow> bool \<Rightarrow> nat \<Rightarrow> string + unit" where
  "verify_head_freshness h policy offline now =
     try_bind (ensure (now \<noteq> 0) ''transparency verification time must be positive'') (\<lambda>_.
     try_bind (ensure (th_issued_at h \<le> saturating_add now (fp_max_future_skew policy))
       ''transparency proof tree head is too far in the future'') (\<lambda>_.
       let age = now - th_issued_at h;
           maximum = (if offline then fp_offline_max_age policy else fp_max_age policy)
       in ensure (age \<le> maximum)
         (''transparency proof is stale: tree head age '' @ show_nat age @ ''s exceeds '' @ show_nat maximum
           @ ''s '' @ (if offline then ''offline'' else ''online'') @ '' limit'')))"

section \<open>The chain of tree heads\<close>

fun index_heads ::
    "signed_tree_head list \<Rightarrow> (nat, signed_tree_head) btree_map \<Rightarrow> string + (nat, signed_tree_head) btree_map" where
  "index_heads [] heads = Ok heads"
| "index_heads (h # rest) heads = (case bt_get heads (th_tree_size h) of
       Some existing \<Rightarrow>
         Err (if th_root_hash existing \<noteq> th_root_hash h
              then ''transparency head history contains equivocation at one tree size''
              else ''transparency head history contains a duplicate tree size'')
     | None \<Rightarrow> index_heads rest (bt_insert (th_tree_size h) h heads))"

definition indexed_head_history :: "transparency_bundle \<Rightarrow> string + (nat, signed_tree_head) btree_map" where
  "indexed_head_history bundle = index_heads (tb_head_history bundle @ [tb_head bundle]) []"

definition equivocation :: "string \<Rightarrow> string" where
  "equivocation label = ''transparency log equivocation detected against '' @ label"

definition previous_checkpoint :: "signed_tree_head \<Rightarrow> (nat \<times> string) option" where
  "previous_checkpoint h = (case (th_previous_size h, th_previous_root h) of
       (Some prev_size, Some prev_root) \<Rightarrow> Some (prev_size, prev_root) | _ \<Rightarrow> None)"

text \<open>
  The loop of \<open>verify_head_extends_anchor\<close>. Every turn adds a size to the visited ones, and all sizes but
  the first are those of heads of the history, so that it ends.
\<close>

function walk_back :: "(nat, signed_tree_head) btree_map \<Rightarrow> nat \<Rightarrow> string \<Rightarrow> string \<Rightarrow> nat list
    \<Rightarrow> signed_tree_head \<Rightarrow> string + unit" where
  "walk_back history anchor_size anchor_root label visited cursor =
     (if th_tree_size cursor \<in> set visited then Err ''transparency head history contains a cycle''
      else case previous_checkpoint cursor of
          None \<Rightarrow> Err (''transparency consistency chain does not reach '' @ label @ '' size '' @ show_nat anchor_size)
        | Some (prev_size, prev_root) \<Rightarrow>
            if prev_size = anchor_size then ensure (prev_root = anchor_root) (equivocation label)
            else if prev_size < anchor_size
            then Err (''transparency consistency chain skips '' @ label @ '' size '' @ show_nat anchor_size)
            else (case bt_get history prev_size of
                None \<Rightarrow> Err (''transparency consistency chain is missing tree head '' @ show_nat prev_size
                  @ '' required by '' @ label)
              | Some h \<Rightarrow>
                  if th_root_hash h \<noteq> prev_root
                  then Err ''transparency head history predecessor root does not match''
                  else walk_back history anchor_size anchor_root label
                    (bs_insert (th_tree_size cursor) visited) h))"
  by pat_completeness auto
termination
proof (relation "measure (\<lambda>(history, anchor_size, anchor_root, label, visited, cursor).
    card (insert (th_tree_size cursor) (th_tree_size ` snd ` set history) - set visited))", goal_cases)
  case (2 history anchor_size anchor_root label visited cursor p prev_size prev_root h)
  then have "h \<in> snd ` set history" by (force simp: bt_get_def dest: map_of_SomeD)
  then have "insert (th_tree_size h) (th_tree_size ` snd ` set history) = th_tree_size ` snd ` set history" by auto
  moreover have "card (th_tree_size ` snd ` set history - insert (th_tree_size cursor) (set visited))
      < card (insert (th_tree_size cursor) (th_tree_size ` snd ` set history) - set visited)"
    using 2(1) by (intro psubset_card_mono) auto
  ultimately show ?case by simp
qed simp

declare walk_back.simps [simp del]

definition verify_head_extends_anchor :: "signed_tree_head \<Rightarrow> (nat, signed_tree_head) btree_map \<Rightarrow> nat
    \<Rightarrow> string \<Rightarrow> string \<Rightarrow> string + unit" where
  "verify_head_extends_anchor current history anchor_size anchor_root label =
     (if th_tree_size current < anchor_size
      then Err (''transparency log rollback detected: '' @ label @ '' size '' @ show_nat anchor_size
        @ '', received '' @ show_nat (th_tree_size current))
      else if th_tree_size current = anchor_size
      then ensure (th_root_hash current = anchor_root) (equivocation label)
      else walk_back history anchor_size anchor_root label [] current)"

definition verify_gossip_checkpoint :: "crates \<Rightarrow> gossip_checkpoint \<Rightarrow> signed_tree_head
    \<Rightarrow> (nat, signed_tree_head) btree_map \<Rightarrow> log_key_timeline \<Rightarrow> nat \<Rightarrow> nat \<Rightarrow> string + unit" where
  "verify_gossip_checkpoint x gossip current history timeline max_future_skew now =
     try_bind (verify_tree_head_with_timeline x (gc_head gossip) timeline) (\<lambda>_.
     try_bind (ensure (th_issued_at (gc_head gossip) \<le> gc_observed_at gossip)
       ''gossip checkpoint was observed before its tree head was issued'') (\<lambda>_.
     try_bind (ensure (gc_observed_at gossip \<le> saturating_add now max_future_skew)
       ''gossip checkpoint observation time is too far in the future'') (\<lambda>_.
       verify_head_extends_anchor current history (th_tree_size (gc_head gossip))
         (th_root_hash (gc_head gossip)) ''gossip checkpoint'')))"

section \<open>The bundle\<close>

fun try_each :: "('a \<Rightarrow> string + unit) \<Rightarrow> 'a list \<Rightarrow> string + unit" where
  "try_each f [] = Ok ()"
| "try_each f (a # as) = try_bind (f a) (\<lambda>_. try_each f as)"

text \<open>The keys of a package after the given events, in their order; a revoked key has the value \<open>None\<close>.\<close>

definition apply_key_event :: "string \<Rightarrow> nat \<Rightarrow> transparency_event \<Rightarrow> (string, string option) btree_map
    \<Rightarrow> (string, string option) btree_map" where
  "apply_key_event package release_sequence e state =
     (if release_sequence \<le> ev_sequence e then state
      else case ev_kind e of
          KeyRegistered p key_id public_key \<Rightarrow>
            if p = package then bt_insert key_id (Some public_key) state else state
        | KeyRevoked p key_id \<Rightarrow> if p = package then bt_insert key_id None state else state
        | _ \<Rightarrow> state)"

definition key_states :: "string \<Rightarrow> nat \<Rightarrow> log_inclusion list \<Rightarrow> (string, string option) btree_map" where
  "key_states package release_sequence key_events =
     fold (apply_key_event package release_sequence)
       (map inc_event (sort_key (\<lambda>inc. ev_sequence (inc_event inc)) key_events)) []"

definition check_cached :: "transparency_bundle \<Rightarrow> (nat, signed_tree_head) btree_map \<Rightarrow> cached_tree_head option
    \<Rightarrow> string + unit" where
  "check_cached bundle history cached = (case cached of
       None \<Rightarrow> Ok ()
     | Some c \<Rightarrow>
         try_bind (validate_sha256 ''cached transparency root hash'' (ch_root_hash c)) (\<lambda>_.
           verify_head_extends_anchor (tb_head bundle) history (ch_tree_size c) (ch_root_hash c)
             ''cached tree head''))"

definition verify_release_event ::
    "crates \<Rightarrow> transparency_bundle \<Rightarrow> signed_release_envelope \<Rightarrow> string + unit" where
  "verify_release_event x bundle envelope = (case ev_kind (inc_event (tb_release bundle)) of
       ReleaseLogged package version digest key_id \<Rightarrow>
         (let mismatch = Err ''transparency release event does not match the signed release'' in
          if package \<noteq> rs_package (re_subject envelope) \<or> version \<noteq> rs_version (re_subject envelope)
          then mismatch
          else try_bind (subject_digest x (re_subject envelope)) (\<lambda>expected.
            if digest \<noteq> expected \<or> key_id \<noteq> ps_key_id (re_signature envelope) then mismatch
            else case bt_get (key_states package (ev_sequence (inc_event (tb_release bundle)))
                (tb_key_events bundle)) key_id of
                Some (Some public_key) \<Rightarrow>
                  verify_release_envelope x envelope (re_subject envelope)
                    [\<lparr>pk_key_id = key_id, pk_public_key = public_key\<rparr>]
              | _ \<Rightarrow> Err (''publisher key `'' @ key_id @ ''` was not active when the release was logged'')))
     | _ \<Rightarrow> Err ''transparency bundle release entry is not a release event'')"

definition verify_transparency_bundle_with_policy :: "crates \<Rightarrow> transparency_bundle \<Rightarrow> signed_release_envelope
    \<Rightarrow> cached_tree_head option \<Rightarrow> verification_policy \<Rightarrow> bool \<Rightarrow> nat \<Rightarrow> string + verified_transparency" where
  "verify_transparency_bundle_with_policy x bundle envelope cached policy offline now =
     try_bind (validate_transparency_policy policy) (\<lambda>_.
     try_bind (build_log_key_timeline x bundle (vp_trusted_log_keys policy)) (\<lambda>timeline.
     try_bind (verify_tree_head_with_timeline x (tb_head bundle) timeline) (\<lambda>_.
     try_bind (try_each (\<lambda>h. verify_tree_head_with_timeline x h timeline) (tb_head_history bundle)) (\<lambda>_.
     try_bind (verify_head_freshness (tb_head bundle) (vp_freshness policy) offline now) (\<lambda>_.
     try_bind (indexed_head_history bundle) (\<lambda>history.
     try_bind (check_cached bundle history cached) (\<lambda>_.
     try_bind (try_each (\<lambda>gossip. verify_gossip_checkpoint x gossip (tb_head bundle) history timeline
       (fp_max_future_skew (vp_freshness policy)) now) (vp_gossip policy)) (\<lambda>_.
     try_bind (verify_log_inclusion x (tb_release bundle) (tb_head bundle)) (\<lambda>_.
     try_bind (try_each (\<lambda>inc. verify_log_inclusion x inc (tb_head bundle)) (tb_key_events bundle)) (\<lambda>_.
     try_bind (verify_release_event x bundle envelope) (\<lambda>_.
       Ok \<lparr>vt_cached_head = \<lparr>ch_tree_size = th_tree_size (tb_head bundle),
             ch_root_hash = th_root_hash (tb_head bundle), ch_issued_at = th_issued_at (tb_head bundle),
             ch_key_id = th_key_id (tb_head bundle)\<rparr>,
           vt_gossip = \<lparr>gc_observed_at = now, gc_head = tb_head bundle\<rparr>\<rparr>)))))))))))"

text \<open>The clock is the parameter \<open>now\<close>.\<close>

definition verify_transparency_bundle :: "crates \<Rightarrow> nat \<Rightarrow> transparency_bundle \<Rightarrow> signed_release_envelope
    \<Rightarrow> cached_tree_head option \<Rightarrow> string list \<Rightarrow> string + cached_tree_head" where
  "verify_transparency_bundle x now bundle envelope cached trusted =
     map_ok vt_cached_head
       (verify_transparency_bundle_with_policy x bundle envelope cached (pinned_policy trusted) False now)"

end
