(* ===== verification/Transparency_Encoding.thy ===== *)
theory Transparency_Encoding
  imports Transparency_Bundle
begin

text \<open>
  The text forms of the transparency log: hexadecimal text reads back as the bytes it was made from, and
  the canonical bytes that are hashed and signed determine the event or the release they stand for.
\<close>

section \<open>Hexadecimal text\<close>

lemma nibble_char_value: "d < 16 \<Longrightarrow> hex_nibble (nibble_char d) = d"
  by (auto simp: nibble_char_def hex_nibble_def is_ascii_digit_def)

lemma nibble_char_digit: "d < 16 \<Longrightarrow> is_ascii_hexdigit (nibble_char d)"
  by (auto simp: nibble_char_def is_ascii_hexdigit_def is_ascii_digit_def)

lemma encode_hex_simps [simp]:
  "encode_hex [] = []"
  "encode_hex (c # s) = nibble_char (byte_of c div 16) # nibble_char (byte_of c mod 16) # encode_hex s"
  by (simp_all add: encode_hex_def)

lemma length_encode_hex [simp]: "length (encode_hex s) = 2 * length s"
  by (induction s) auto

lemma encode_hex_digits: "list_all is_ascii_hexdigit (encode_hex s)"
proof (induction s)
  case (Cons c s)
  then show ?case using byte_of_less [of c] by (simp add: nibble_char_digit)
qed simp

lemma decode_pairs_encode: "decode_pairs (encode_hex s) = s"
proof (induction s)
  case (Cons c s)
  have "byte_of c div 16 < 16" using byte_of_less [of c] by simp
  then have "16 * hex_nibble (nibble_char (byte_of c div 16)) + hex_nibble (nibble_char (byte_of c mod 16)) = byte_of c"
    by (simp only: nibble_char_value mod_less_divisor zero_less_numeral mult_div_mod_eq)
  moreover have "char_of (byte_of c) = c" by (simp add: byte_of_def)
  ultimately show ?case using Cons by simp
qed simp

lemma decode_encode_hex [simp]: "decode_hex (encode_hex s) = Ok s"
  using encode_hex_digits [of s] by (simp add: decode_hex_def decode_pairs_encode)

lemma encode_hex_inject: "encode_hex a = encode_hex b \<longleftrightarrow> a = b"
  by (metis decode_pairs_encode)

lemma digest_text_inject: "digest_text a = digest_text b \<longleftrightarrow> a = b"
  by (simp add: digest_text_def encode_hex_inject)

lemma decode_hash_encode: "length s = 32 \<Longrightarrow> decode_hash (encode_hex s) = Ok s"
  by (simp add: decode_hash_def)

section \<open>Canonical fields\<close>

definition field_bytes :: "string \<times> string \<Rightarrow> string" where
  "field_bytes f = fst f @ CHR '':'' # show_nat (length (snd f)) @ CHR '':'' # snd f @ [CHR 0x0A]"

lemma canonical_field_eq: "canonical_field out name v = out @ field_bytes (name, v)"
  by (simp add: canonical_field_def field_bytes_def)

lemma canonical_fields_eq: "canonical_fields out entries = out @ concat (map field_bytes entries)"
  by (induction entries arbitrary: out) (auto simp: canonical_fields_def canonical_field_eq)

lemma digits_colon:
  assumes "show_nat m @ CHR '':'' # s = show_nat n @ CHR '':'' # t"
  shows "m = n \<and> s = t"
proof -
  have digit: "CHR '':'' \<notin> set (show_nat k)" for k
    using show_nat_digits [of k] by (auto simp: is_ascii_digit_def byte_of_def)
  have split: "takeWhile (\<lambda>c. c \<noteq> CHR '':'') (show_nat k @ CHR '':'' # r) = show_nat k" for k r
    using digit [of k] by (simp add: takeWhile_append2 takeWhile_tail) (metis takeWhile_eq_all_conv)
  have "show_nat m = show_nat n" using arg_cong [OF assms, of "takeWhile (\<lambda>c. c \<noteq> CHR '':'')"] by (simp only: split)
  then show ?thesis using assms by (simp add: show_nat_inject)
qed

lemma field_bytes_inject:
  assumes "field_bytes (name, v) @ rest = field_bytes (name, v') @ rest'"
  shows "v = v' \<and> rest = rest'"
proof -
  have eq: "show_nat (length v) @ CHR '':'' # (v @ CHR 0x0A # rest)
      = show_nat (length v') @ CHR '':'' # (v' @ CHR 0x0A # rest')"
    using assms by (simp add: field_bytes_def)
  from digits_colon [OF eq] show ?thesis by auto
qed

lemma canonical_fields_inject:
  assumes "map fst a = map fst b" "concat (map field_bytes a) = concat (map field_bytes b)"
  shows "a = b"
  using assms
proof (induction a arbitrary: b)
  case (Cons f a)
  then obtain g b' where b: "b = g # b'" "fst g = fst f" "map fst a = map fst b'" by (cases b) auto
  have "field_bytes (fst f, snd f) @ concat (map field_bytes a) = field_bytes (fst f, snd g) @ concat (map field_bytes b')"
    using Cons.prems(2) b by (metis concat.simps(2) list.simps(9) prod.collapse)
  then have "snd f = snd g" "concat (map field_bytes a) = concat (map field_bytes b')"
    using field_bytes_inject by blast+
  then show ?case using Cons.IH [OF b(3)] b by (simp add: prod_eq_iff)
qed simp

lemma kind_fields_type:
  "\<exists>rest. kind_fields k = (''type'', case k of KeyRegistered _ _ _ \<Rightarrow> ''key-registered''
     | KeyRevoked _ _ \<Rightarrow> ''key-revoked'' | ReleaseLogged _ _ _ _ \<Rightarrow> ''release'') # rest"
  by (cases k) (simp_all add: kind_fields_def)

lemma kind_fields_inject:
  assumes "concat (map field_bytes (kind_fields k)) = concat (map field_bytes (kind_fields l))"
  shows "k = l"
proof -
  let ?type = "\<lambda>k. case k of KeyRegistered _ _ _ \<Rightarrow> ''key-registered''
     | KeyRevoked _ _ \<Rightarrow> ''key-revoked'' | ReleaseLogged _ _ _ _ \<Rightarrow> ''release''"
  obtain a b where a: "kind_fields k = (''type'', ?type k) # a" "kind_fields l = (''type'', ?type l) # b"
    using kind_fields_type by metis
  then have "?type k = ?type l"
    using assms field_bytes_inject [of "''type''" "?type k" "concat (map field_bytes a)" "?type l"] by simp
  then have "map fst (kind_fields k) = map fst (kind_fields l)"
    by (cases k; cases l) (simp_all add: kind_fields_def)
  then have "kind_fields k = kind_fields l" using assms by (rule canonical_fields_inject)
  then show ?thesis by (cases k; cases l) (simp_all add: kind_fields_def)
qed

lemma event_canonical_bytes_eq:
  "event_canonical_bytes x e = map_ok (\<lambda>_. (''nomo-transparency-event-v1'' @ [CHR 0x0A])
     @ field_bytes (''sequence'', show_nat (ev_sequence e)) @ concat (map field_bytes (kind_fields (ev_kind e))))
     (event_validate x e)"
  by (cases "event_validate x e")
    (simp_all add: event_canonical_bytes_def canonical_fields_eq canonical_field_eq Let_def)

lemma event_bytes_inject:
  assumes "event_canonical_bytes x e = Ok b" "event_canonical_bytes x e' = Ok b"
  shows "e = e'"
proof -
  have "field_bytes (''sequence'', show_nat (ev_sequence e)) @ concat (map field_bytes (kind_fields (ev_kind e)))
      = field_bytes (''sequence'', show_nat (ev_sequence e')) @ concat (map field_bytes (kind_fields (ev_kind e')))"
    using assms unfolding event_canonical_bytes_eq by auto
  from field_bytes_inject [OF this] have "ev_sequence e = ev_sequence e'" "ev_kind e = ev_kind e'"
    by (auto simp: show_nat_inject dest: kind_fields_inject)
  then show ?thesis by simp
qed

lemma sha256_nonempty: "validate_sha256 label digest = Ok u \<Longrightarrow> digest \<noteq> []"
  by (auto simp: validate_sha256_def strip_prefix_text_def starts_with_def)

lemma subject_bytes_inject:
  assumes "subject_canonical_bytes x s = Ok b" "subject_canonical_bytes x s' = Ok b"
  shows "s = s'"
proof -
  let ?entries = "\<lambda>s. [(''package'', rs_package s), (''version'', rs_version s), (''archive'', rs_archive_checksum s),
    (''manifest'', rs_manifest_checksum s), (''provenance'', unwrap_or_empty (rs_provenance_digest s))]"
  have valid: "subject_validate x s = Ok ()" "subject_validate x s' = Ok ()"
    using assms by (simp_all add: subject_canonical_bytes_def)
  have bytes: "subject_canonical_bytes x t = map_ok (\<lambda>_. (''nomo-release-envelope-v1'' @ [CHR 0x0A])
      @ concat (map field_bytes (?entries t))) (subject_validate x t)" for t
    by (cases "subject_validate x t") (simp_all add: subject_canonical_bytes_def Let_def canonical_field_eq)
  have "concat (map field_bytes (?entries s)) = concat (map field_bytes (?entries s'))"
    using assms unfolding bytes valid map_ok_simps by (metis append_same_eq same_append_eq sum.inject(2))
  then have entries: "?entries s = ?entries s'" by (intro canonical_fields_inject) simp_all
  have provenance: "rs_provenance_digest t \<noteq> Some []" "rs_schema t = RELEASE_ENVELOPE_SCHEMA"
    if "subject_validate x t = Ok ()" for t
    using that sha256_nonempty by (auto simp: subject_validate_def ensure_def split: option.splits if_splits)
  have "rs_provenance_digest s = rs_provenance_digest s'"
    using entries provenance(1) [OF valid(1)] provenance(1) [OF valid(2)]
    by (cases "rs_provenance_digest s"; cases "rs_provenance_digest s'") (auto simp: unwrap_or_empty_def)
  then show ?thesis using entries provenance(2) [OF valid(1)] provenance(2) [OF valid(2)] by simp
qed

text \<open>C38. The bytes that a publisher signs determine the release they are for, and the bytes that are hashed
  into the log determine the event: on valid releases and on valid events the canonical encoding is
  injective.\<close>

theorem canonical_bytes_injective:
  "inj_on (subject_canonical_bytes x) {s. subject_validate x s = Inr ()}
   \<and> inj_on (event_canonical_bytes x) {e. event_validate x e = Inr ()}"
proof
  have subject: "\<exists>b. subject_canonical_bytes x s = Inr b" if "subject_validate x s = Inr ()" for s
    using that by (simp add: subject_canonical_bytes_def Let_def)
  show "inj_on (subject_canonical_bytes x) {s. subject_validate x s = Inr ()}"
    using subject subject_bytes_inject [of x] by (intro inj_onI) (metis mem_Collect_eq)
  have event: "\<exists>b. event_canonical_bytes x e = Inr b" if "event_validate x e = Inr ()" for e
    using that by (simp add: event_canonical_bytes_eq)
  show "inj_on (event_canonical_bytes x) {e. event_validate x e = Inr ()}"
    using event event_bytes_inject [of x] by (intro inj_onI) (metis mem_Collect_eq)
qed

end
