(* ===== verification/Transparency_Merkle.thy ===== *)
theory Transparency_Merkle
  imports Transparency_Encoding
begin

text \<open>
  Inclusion proofs: the proofs that a log makes verify against its root, and a proof that verifies against
  the root of a log is for an event of the log, unless it exhibits two inputs with the same hash.
\<close>

section \<open>Levels of the tree\<close>

text \<open>What SHA-256 documents: a digest has 32 bytes.\<close>

definition sha256_width :: "crates \<Rightarrow> bool" where
  "sha256_width x \<longleftrightarrow> (\<forall>bytes. length (cr_sha256 x bytes) = 32)"

definition hashes32 :: "string list \<Rightarrow> bool" where
  "hashes32 level \<longleftrightarrow> list_all (\<lambda>h. length h = 32) level"

lemma length_hashes:
  assumes "sha256_width x"
  shows "length (leaf_hash x b) = 32" "length (node_hash x l r) = 32"
  using assms by (simp_all add: sha256_width_def leaf_hash_def node_hash_def)

lemma nth_next_merkle_level:
  "i < length level \<Longrightarrow> next_merkle_level x level ! (i div 2) =
     (if odd i then node_hash x (level ! (i - 1)) (level ! i)
      else if i + 1 < length level then node_hash x (level ! i) (level ! (i + 1)) else level ! i)"
proof (induction x level arbitrary: i rule: next_merkle_level.induct)
  case (1 x a b level)
  show ?case
  proof (cases "i < 2")
    case True
    then have "i = 0 \<or> i = 1" by linarith
    then show ?thesis by auto
  next
    case False
    then obtain k where k: "i = Suc (Suc k)" by (metis add_2_eq_Suc le_Suc_ex not_less)
    then show ?thesis using "1.IH" [of k] "1.prems" by (cases k) auto
  qed
qed auto

lemma hashes32_next: "sha256_width x \<Longrightarrow> hashes32 level \<Longrightarrow> hashes32 (next_merkle_level x level)"
  by (induction x level rule: next_merkle_level.induct) (auto simp: hashes32_def length_hashes)

lemma hashes32_nth: "hashes32 level \<Longrightarrow> i < length level \<Longrightarrow> length (level ! i) = 32"
  by (simp add: hashes32_def list_all_length)

section \<open>Proofs of the log verify\<close>

lemma fold_inclusion_steps:
  assumes "sha256_width x" "hashes32 level" "i < length level"
  shows "map_ok Some (fold_siblings x (inclusion_steps x level i) (level ! i)) = Ok (merkle_root x level)"
  using assms
proof (induction x level i rule: inclusion_steps.induct)
  case (1 x level i)
  show ?case
  proof (cases "1 < length level")
    case False
    then obtain h where "level = [h]" "i = 0" using "1.prems" by (cases level) auto
    then show ?thesis by (simp add: merkle_root.simps inclusion_steps.simps)
  next
    case True
    let ?next = "next_merkle_level x level"
    have "hashes32 ?next" "i div 2 < length ?next"
      using "1.prems" hashes32_next by (auto simp: length_next_merkle_level)
    note IH = "1.IH" [OF True "1.prems"(1) this]
    have root: "merkle_root x level = merkle_root x ?next" using True by (subst merkle_root.simps) simp
    note parent = nth_next_merkle_level [OF "1.prems"(3), of x]
    have sibling: "decode_hash (encode_hex (level ! j)) = Ok (level ! j)" if "j < length level" for j
      by (rule decode_hash_encode [OF hashes32_nth [OF "1.prems"(2) that]])
    consider "odd i" | "even i" "i + 1 < length level" | "even i" "\<not> i + 1 < length level" by blast
    then have "fold_siblings x (inclusion_steps x level i) (level ! i)
        = fold_siblings x (inclusion_steps x ?next (i div 2)) (?next ! (i div 2))"
      using True "1.prems"(3)
      by cases (subst inclusion_steps.simps, simp add: parent sibling)+
    then show ?thesis using IH root by simp
  qed
qed

lemma leaf_hashes_nth:
  assumes "leaf_hashes x log = Ok leaves"
  shows "length leaves = length (log_events log)"
    "i < length leaves \<Longrightarrow> \<exists>b. event_canonical_bytes x (log_events log ! i) = Ok b \<and> leaves ! i = leaf_hash x b"
proof -
  show l: "length leaves = length (log_events log)"
    using assms unfolding leaf_hashes_def by (rule try_map_Ok_length)
  show "\<exists>b. event_canonical_bytes x (log_events log ! i) = Ok b \<and> leaves ! i = leaf_hash x b" if "i < length leaves"
    using try_map_Ok_nth [OF assms [unfolded leaf_hashes_def], of i] that l by auto
qed

lemma leaf_hashes_32: "sha256_width x \<Longrightarrow> leaf_hashes x log = Ok leaves \<Longrightarrow> hashes32 leaves"
  using leaf_hashes_nth(2) length_hashes(1) unfolding hashes32_def list_all_length by metis

lemma check_events_nth: "check_events x k events = Ok u \<Longrightarrow> i < length events \<Longrightarrow> ev_sequence (events ! i) = k + i"
proof (induction x k events arbitrary: i rule: check_events.induct)
  case (2 x k e events)
  then show ?case by (cases i) (auto split: if_splits)
qed simp

lemma log_newD:
  assumes "log_new x events = Ok log"
  shows "log_events log = events" "events \<noteq> []" "i < length events \<Longrightarrow> ev_sequence (events ! i) = i"
  using assms check_events_nth [of x 0 events _ i] by (auto simp: log_new_def split: if_splits)

lemma inclusion_verified:
  assumes "sha256_width x" "log_new x events = Ok log" "inclusion x log i = Ok inc"
    "root_hash x log = Ok (Some (th_root_hash h))" "th_tree_size h = length events"
  shows "verify_log_inclusion x inc h = Ok ()"
proof -
  have log: "log_events log = events" by (rule log_newD [OF assms(2)])
  have i: "i < length events" using assms(3) log by (auto simp: inclusion_def split: if_splits)
  obtain leaves where leaves: "leaf_hashes x log = Ok leaves" "inc = \<lparr>inc_event = events ! i,
      inc_proof = \<lparr>prf_leaf_index = i, prf_tree_size = length events, prf_siblings = inclusion_steps x leaves i\<rparr>\<rparr>"
    using assms(3) log i by (auto simp: inclusion_def)
  have len: "length leaves = length events" using leaf_hashes_nth(1) [OF leaves(1)] log by simp
  obtain b where b: "event_canonical_bytes x (events ! i) = Ok b" "leaves ! i = leaf_hash x b"
    using leaf_hashes_nth(2) [OF leaves(1), of i] i len log by auto
  obtain r where r: "merkle_root x leaves = Some r" "digest_text r = th_root_hash h"
    using assms(4) leaves(1) by (auto simp: root_hash_def)
  have "map_ok Some (fold_siblings x (inclusion_steps x leaves i) (leaf_hash x b)) = Ok (Some r)"
    using fold_inclusion_steps [OF assms(1) leaf_hashes_32 [OF assms(1) leaves(1)], of i] i len b r(1) by simp
  then have "fold_siblings x (inclusion_steps x leaves i) (leaf_hash x b) = Ok r" by auto
  moreover have "ev_sequence (events ! i) = i" by (rule log_newD(3) [OF assms(2) i])
  ultimately show ?thesis
    using b(1) r(2) i assms(5) by (simp add: verify_log_inclusion_def leaves(2) Let_def ensure_def)
qed

section \<open>Verified proofs are for events of the log\<close>

text \<open>The inputs that are hashed to compute the root of a level, and along an inclusion proof.\<close>

definition leaf_input :: "string \<Rightarrow> string" where
  "leaf_input bytes = char_of (0 :: nat) # bytes"

definition node_input :: "string \<Rightarrow> string \<Rightarrow> string" where
  "node_input left right = char_of (1 :: nat) # left @ right"

fun level_inputs :: "string list \<Rightarrow> string list" where
  "level_inputs (a # b # level) = node_input a b # level_inputs level"
| "level_inputs level = []"

function node_inputs :: "crates \<Rightarrow> string list \<Rightarrow> string list" where
  "node_inputs x level =
     (if 1 < length level then level_inputs level @ node_inputs x (next_merkle_level x level) else [])"
  by pat_completeness auto
termination
  by (relation "measure (\<lambda>(x, level). length level)") (auto simp: length_next_merkle_level)

declare node_inputs.simps [simp del]

definition log_inputs :: "crates \<Rightarrow> transparency_log \<Rightarrow> string set" where
  "log_inputs x log =
     {leaf_input b | b e. e \<in> set (log_events log) \<and> event_canonical_bytes x e = Ok b}
     \<union> (case leaf_hashes x log of Inr leaves \<Rightarrow> set (node_inputs x leaves) | Inl _ \<Rightarrow> {})"

fun proof_inputs :: "crates \<Rightarrow> proof_step list \<Rightarrow> string \<Rightarrow> string list" where
  "proof_inputs x [] hash = []"
| "proof_inputs x (s # siblings) hash = (case decode_hash (step_hash s) of
       Inl _ \<Rightarrow> []
     | Inr sibling \<Rightarrow>
         (let input = (case step_side s of SideLeft \<Rightarrow> node_input sibling hash | SideRight \<Rightarrow> node_input hash sibling)
          in input # proof_inputs x siblings (cr_sha256 x input)))"

definition inclusion_inputs :: "crates \<Rightarrow> log_inclusion \<Rightarrow> string set" where
  "inclusion_inputs x inc = (case event_canonical_bytes x (inc_event inc) of
       Inl _ \<Rightarrow> {}
     | Inr b \<Rightarrow> insert (leaf_input b) (set (proof_inputs x (prf_siblings (inc_proof inc)) (leaf_hash x b))))"

lemma hash_inputs: "leaf_hash x b = cr_sha256 x (leaf_input b)" "node_hash x l r = cr_sha256 x (node_input l r)"
  by (simp_all add: leaf_hash_def node_hash_def leaf_input_def node_input_def)

lemma inputs_distinct: "leaf_input b \<noteq> node_input l r"
  by (simp add: leaf_input_def node_input_def)

lemma node_input_inject: "length l = length l' \<Longrightarrow> node_input l r = node_input l' r' \<longleftrightarrow> l = l' \<and> r = r'"
  by (simp add: node_input_def)

lemma leaf_input_inject: "leaf_input b = leaf_input b' \<longleftrightarrow> b = b'"
  by (simp add: leaf_input_def)

text \<open>A set of inputs is closed when the two halves of each inner node are hashes of inputs of the set.\<close>

definition closed_inputs :: "crates \<Rightarrow> string set \<Rightarrow> bool" where
  "closed_inputs x T \<longleftrightarrow> (\<forall>i \<in> T. (\<exists>b. i = leaf_input b)
     \<or> (\<exists>l r. i = node_input l r \<and> length l = 32 \<and> l \<in> cr_sha256 x ` T \<and> r \<in> cr_sha256 x ` T))"

lemma level_inputs_spec:
  "set (next_merkle_level x level) \<subseteq> set level \<union> cr_sha256 x ` set (level_inputs level)
   \<and> (\<forall>i \<in> set (level_inputs level). \<exists>l r. i = node_input l r \<and> l \<in> set level \<and> r \<in> set level)"
  by (induction x level rule: next_merkle_level.induct) (simp_all add: hash_inputs, blast)

lemma node_inputs_closed:
  assumes "sha256_width x" "hashes32 level" "set level \<subseteq> cr_sha256 x ` T" "closed_inputs x T"
  shows "closed_inputs x (T \<union> set (node_inputs x level))
    \<and> (merkle_root x level = Some r \<longrightarrow> r \<in> cr_sha256 x ` (T \<union> set (node_inputs x level)))"
  using assms
proof (induction x level arbitrary: T rule: node_inputs.induct)
  case (1 x level)
  show ?case
  proof (cases "1 < length level")
    case False
    then show ?thesis using "1.prems"
      by (cases level) (auto simp: node_inputs.simps merkle_root.simps)
  next
    case True
    let ?next = "next_merkle_level x level" and ?T = "T \<union> set (level_inputs level)"
    note spec = level_inputs_spec [of x level]
    have upper: "set ?next \<subseteq> cr_sha256 x ` ?T" using spec "1.prems"(3) by blast
    have "closed_inputs x ?T"
      unfolding closed_inputs_def
    proof
      fix i assume "i \<in> ?T"
      then show "(\<exists>b. i = leaf_input b)
          \<or> (\<exists>l r. i = node_input l r \<and> length l = 32 \<and> l \<in> cr_sha256 x ` ?T \<and> r \<in> cr_sha256 x ` ?T)"
      proof
        assume "i \<in> T"
        then show ?thesis using "1.prems"(4) unfolding closed_inputs_def image_Un by blast
      next
        assume "i \<in> set (level_inputs level)"
        then obtain l r where i: "i = node_input l r" "l \<in> set level" "r \<in> set level" using spec by blast
        have "length l = 32" using "1.prems"(2) i(2) by (simp add: hashes32_def list_all_iff)
        moreover have "l \<in> cr_sha256 x ` ?T" "r \<in> cr_sha256 x ` ?T"
          unfolding image_Un using "1.prems"(3) i(2,3) by (simp_all add: subsetD)
        ultimately show ?thesis using i(1) by blast
      qed
    qed
    from "1.IH" [OF True "1.prems"(1) hashes32_next [OF "1.prems"(1,2)] upper this]
    have IH: "closed_inputs x (?T \<union> set (node_inputs x ?next))
      \<and> (merkle_root x ?next = Some r \<longrightarrow> r \<in> cr_sha256 x ` (?T \<union> set (node_inputs x ?next)))" .
    have "merkle_root x level = merkle_root x ?next" using True by (subst merkle_root.simps) simp
    moreover have "node_inputs x level = level_inputs level @ node_inputs x ?next"
      using True by (subst node_inputs.simps) simp
    ultimately show ?thesis using IH by (simp add: Un_assoc)
  qed
qed

text \<open>Along a proof that ends in a hash of a closed set, each hash is one of the set or collides.\<close>

lemma fold_siblings_closed:
  assumes "sha256_width x" "closed_inputs x T" "fold_siblings x steps h = Ok r" "r \<in> cr_sha256 x ` T" "length h = 32"
  shows "h \<in> cr_sha256 x ` T
    \<or> (\<exists>a \<in> set (proof_inputs x steps h). \<exists>b \<in> T. a \<noteq> b \<and> cr_sha256 x a = cr_sha256 x b)"
  using assms
proof (induction x steps h rule: fold_siblings.induct)
  case (2 x s steps h)
  obtain sib where sib: "decode_hash (step_hash s) = Ok sib" using "2.prems"(3) by auto
  have sib32: "length sib = 32" using sib by (auto simp: decode_hash_def split: if_splits)
  define input where "input = (case step_side s of SideLeft \<Rightarrow> node_input sib h | SideRight \<Rightarrow> node_input h sib)"
  have up: "fold_siblings x steps (cr_sha256 x input) = Ok r" "length (cr_sha256 x input) = 32"
    using "2.prems"(1,3) sib by (cases "step_side s"; simp add: input_def hash_inputs sha256_width_def)+
  have inputs: "proof_inputs x (s # steps) h = input # proof_inputs x steps (cr_sha256 x input)"
    using sib by (simp add: input_def Let_def)
  have "cr_sha256 x input \<in> cr_sha256 x ` T
    \<or> (\<exists>a \<in> set (proof_inputs x steps (cr_sha256 x input)). \<exists>b \<in> T. a \<noteq> b \<and> cr_sha256 x a = cr_sha256 x b)"
    using "2.IH" [OF sib] "2.prems"(1,2,4) up
    by (cases "step_side s") (simp_all add: input_def hash_inputs)
  then show ?case
  proof
    assume "cr_sha256 x input \<in> cr_sha256 x ` T"
    then obtain i where i: "i \<in> T" "cr_sha256 x input = cr_sha256 x i" by blast
    show ?thesis
    proof (cases "input = i")
      case True
      then obtain l r where lr: "input = node_input l r" "length l = 32" "l \<in> cr_sha256 x ` T" "r \<in> cr_sha256 x ` T"
        using i(1) "2.prems"(2) inputs_distinct unfolding closed_inputs_def input_def
        by (cases "step_side s") (simp_all, metis+)
      then have "h = l \<or> h = r"
        using sib32 "2.prems"(5) by (cases "step_side s") (auto simp: input_def node_input_inject)
      then show ?thesis using lr(3,4) by blast
    next
      case False
      then show ?thesis using i inputs by auto
    qed
  next
    assume "\<exists>a \<in> set (proof_inputs x steps (cr_sha256 x input)). \<exists>b \<in> T. a \<noteq> b \<and> cr_sha256 x a = cr_sha256 x b"
    then show ?thesis using inputs by auto
  qed
qed simp

lemma log_inputs_root:
  assumes "sha256_width x" "root_hash x log = Ok (Some text)"
  obtains r where "text = digest_text r" "closed_inputs x (log_inputs x log)" "r \<in> cr_sha256 x ` log_inputs x log"
proof -
  obtain leaves where l: "leaf_hashes x log = Ok leaves" "map_option digest_text (merkle_root x leaves) = Some text"
    using assms(2) by (cases "leaf_hashes x log") (auto simp: root_hash_def)
  then obtain r where leaves: "leaf_hashes x log = Ok leaves" "merkle_root x leaves = Some r" "text = digest_text r"
    by (auto simp: map_option_eq_Some)
  let ?T = "{leaf_input b | b e. e \<in> set (log_events log) \<and> event_canonical_bytes x e = Ok b}"
  have "set leaves \<subseteq> cr_sha256 x ` ?T"
  proof
    fix l assume "l \<in> set leaves"
    then obtain i where i: "i < length leaves" "l = leaves ! i" by (auto simp: in_set_conv_nth)
    then obtain b where "event_canonical_bytes x (log_events log ! i) = Ok b" "l = leaf_hash x b"
      using leaf_hashes_nth(2) [OF leaves(1)] by blast
    moreover have "log_events log ! i \<in> set (log_events log)"
      using i(1) leaf_hashes_nth(1) [OF leaves(1)] by simp
    ultimately show "l \<in> cr_sha256 x ` ?T" by (auto simp: hash_inputs)
  qed
  moreover have "closed_inputs x ?T" by (auto simp: closed_inputs_def)
  moreover have "log_inputs x log = ?T \<union> set (node_inputs x leaves)" by (simp add: log_inputs_def leaves(1))
  ultimately show ?thesis
    using that [of r] node_inputs_closed [OF assms(1) leaf_hashes_32 [OF assms(1) leaves(1)], of ?T r] leaves(2,3)
    by simp
qed

lemma verified_inclusion:
  assumes "sha256_width x" "log_new x events = Ok log" "root_hash x log = Ok (Some (th_root_hash h))"
    "verify_log_inclusion x inc h = Ok ()"
  shows "(ev_sequence (inc_event inc) < length events \<and> events ! ev_sequence (inc_event inc) = inc_event inc)
    \<or> (\<exists>a \<in> inclusion_inputs x inc. \<exists>b \<in> log_inputs x log. a \<noteq> b \<and> cr_sha256 x a = cr_sha256 x b)"
proof -
  let ?e = "inc_event inc"
  obtain r where r: "th_root_hash h = digest_text r" "closed_inputs x (log_inputs x log)"
      "r \<in> cr_sha256 x ` log_inputs x log"
    using log_inputs_root [OF assms(1,3)] .
  obtain b where b: "event_canonical_bytes x ?e = Ok b"
      "fold_siblings x (prf_siblings (inc_proof inc)) (leaf_hash x b) = Ok r"
    using assms(4) r(1)
    by (auto simp: verify_log_inclusion_def Let_def ensure_def digest_text_inject split: if_splits)
  have inputs: "inclusion_inputs x inc
      = insert (leaf_input b) (set (proof_inputs x (prf_siblings (inc_proof inc)) (leaf_hash x b)))"
    by (simp add: inclusion_inputs_def b(1))
  show ?thesis
  proof (cases "\<exists>a \<in> inclusion_inputs x inc. \<exists>b \<in> log_inputs x log. a \<noteq> b \<and> cr_sha256 x a = cr_sha256 x b")
    case False
    then have "leaf_hash x b \<in> cr_sha256 x ` log_inputs x log"
      using fold_siblings_closed [OF assms(1) r(2) b(2) r(3) length_hashes(1) [OF assms(1)]] inputs by blast
    then obtain j where j: "j \<in> log_inputs x log" "cr_sha256 x (leaf_input b) = cr_sha256 x j"
      unfolding hash_inputs by blast
    have "leaf_input b \<in> inclusion_inputs x inc" by (simp add: inputs)
    then have "leaf_input b = j" using False j by blast
    then have "leaf_input b \<in> log_inputs x log" using j(1) by simp
    moreover have "leaf_input b \<notin> set (node_inputs x level)" for level
    proof (induction x level rule: node_inputs.induct)
      case (1 x level)
      have "leaf_input b \<notin> set (level_inputs level)" using level_inputs_spec [of x level] inputs_distinct by metis
      then show ?case using 1 by (subst node_inputs.simps) simp
    qed
    ultimately have "leaf_input b \<in> {leaf_input b | b e. e \<in> set (log_events log) \<and> event_canonical_bytes x e = Ok b}"
      unfolding log_inputs_def by (cases "leaf_hashes x log") simp_all
    then obtain b' e where b': "leaf_input b = leaf_input b'" "e \<in> set (log_events log)"
        "event_canonical_bytes x e = Ok b'"
      by (elim CollectE exE conjE)
    then have e: "e \<in> set events" "event_canonical_bytes x e = Ok b"
      using log_newD(1) [OF assms(2)] by (simp_all add: leaf_input_inject)
    then have "?e \<in> set events" using event_bytes_inject [OF e(2) b(1)] by simp
    then obtain i where i: "i < length events" "events ! i = ?e" by (auto simp: in_set_conv_nth)
    then have "ev_sequence ?e = i" using log_newD(3) [OF assms(2) i(1)] by simp
    then show ?thesis using i by simp
  qed blast
qed

text \<open>C27. Every inclusion proof that a log makes for one of its events verifies against a tree head with the
  size and the root of the log.\<close>

theorem inclusion_complete:
  assumes "sha256_width x" "log_new x events = Inr log" "inclusion x log i = Inr inc"
    "root_hash x log = Inr (Some (th_root_hash h))" "th_tree_size h = length events"
  shows "verify_log_inclusion x inc h = Inr ()"
  by (rule inclusion_verified [OF assms])

text \<open>C15. When an inclusion proof verifies against a tree head with the root of a log, its event is the event
  of the log at that position, unless an input hashed along the proof and a different input hashed for
  the root have the same hash.\<close>

theorem inclusion_sound:
  assumes "sha256_width x" "log_new x events = Inr log" "root_hash x log = Inr (Some (th_root_hash h))"
    "verify_log_inclusion x inc h = Inr ()"
  shows "(ev_sequence (inc_event inc) < length events \<and> events ! ev_sequence (inc_event inc) = inc_event inc)
    \<or> (\<exists>a \<in> inclusion_inputs x inc. \<exists>b \<in> log_inputs x log. a \<noteq> b \<and> cr_sha256 x a = cr_sha256 x b)"
  by (rule verified_inclusion [OF assms])

end
