(* ===== verification/Transparency_Chain.thy ===== *)
theory Transparency_Chain
  imports Transparency_Encoding
begin

text \<open>
  The chain of tree heads and the timeline of the log keys: the loop over the previous heads decides
  whether the signed links lead from the current head to a known checkpoint, and every key of a timeline
  is reached from a pinned key by rotations that both keys signed.
\<close>

section \<open>The chain of tree heads\<close>

text \<open>The signed links lead from a head over heads of the given set to a checkpoint.\<close>

inductive extends :: "signed_tree_head set \<Rightarrow> signed_tree_head \<Rightarrow> nat \<Rightarrow> string \<Rightarrow> bool" for heads where
  link: "previous_checkpoint h = Some (n, r) \<Longrightarrow> extends heads h n r"
| step: "previous_checkpoint h = Some (th_tree_size g, th_root_hash g) \<Longrightarrow> g \<in> heads \<Longrightarrow> extends heads g n r
    \<Longrightarrow> extends heads h n r"

definition anchored :: "signed_tree_head set \<Rightarrow> signed_tree_head \<Rightarrow> nat \<Rightarrow> string \<Rightarrow> bool" where
  "anchored heads h n r \<longleftrightarrow> th_tree_size h = n \<and> th_root_hash h = r \<or> extends heads h n r"

definition decreasing :: "signed_tree_head \<Rightarrow> bool" where
  "decreasing h \<longleftrightarrow> (case previous_checkpoint h of None \<Rightarrow> True | Some (n, _) \<Rightarrow> n < th_tree_size h)"

definition history_valid :: "(nat, signed_tree_head) btree_map \<Rightarrow> bool" where
  "history_valid history \<longleftrightarrow> bt_wf history \<and> list_all (\<lambda>(n, h). n = th_tree_size h \<and> decreasing h) history"

lemma extends_smaller:
  assumes "extends heads h n r" "\<And>g. g \<in> heads \<Longrightarrow> decreasing g" "decreasing h"
  shows "n < th_tree_size h"
  using assms by (induction rule: extends.induct) (fastforce simp: decreasing_def)+

lemma history_get:
  assumes "history_valid history"
  shows "bt_get history n = Some h \<longleftrightarrow> h \<in> snd ` set history \<and> th_tree_size h = n"
proof -
  have wf: "bt_wf history" and keys: "\<And>m g. (m, g) \<in> set history \<Longrightarrow> m = th_tree_size g"
    using assms by (auto simp: history_valid_def list_all_iff)
  have "bt_get history n = Some h \<longleftrightarrow> (n, h) \<in> set history" using bt_get_iff_in_set [OF wf] .
  then show ?thesis using keys by force
qed

lemma history_decreasing: "history_valid history \<Longrightarrow> h \<in> snd ` set history \<Longrightarrow> decreasing h"
  by (auto simp: history_valid_def list_all_iff)

lemma ensure_Ok [simp]: "ensure b e = Inr u \<longleftrightarrow> b"
  by (simp add: ensure_def)

lemma walk_back_sound:
  assumes "history_valid history" "walk_back history n r label visited h = Ok ()"
  shows "extends (snd ` set history) h n r"
  using assms
proof (induction history n r label visited h rule: walk_back.induct)
  case (1 history n r label visited h)
  show ?case
  proof (cases "previous_checkpoint h")
    case None
    then show ?thesis using "1.prems"(2) by (subst (asm) walk_back.simps) (simp split: if_splits)
  next
    case (Some p)
    obtain m q where p: "previous_checkpoint h = Some (m, q)" using Some by (cases p) simp
    have fresh: "th_tree_size h \<notin> set visited"
      using "1.prems"(2) by (subst (asm) walk_back.simps) (simp split: if_splits)
    show ?thesis
    proof (cases "m = n")
      case True
      then show ?thesis using "1.prems"(2) p fresh
        by (subst (asm) walk_back.simps) (auto intro: extends.link)
    next
      case False
      then obtain g where g: "\<not> m < n" "bt_get history m = Some g" "th_root_hash g = q"
          "walk_back history n r label (bs_insert (th_tree_size h) visited) g = Ok ()"
        using "1.prems"(2) p fresh by (subst (asm) walk_back.simps) (auto split: if_splits option.splits)
      have "extends (snd ` set history) g n r"
        by (rule "1.IH" [OF fresh p refl False g(1,2)]) (use g(3,4) "1.prems"(1) in simp_all)
      moreover have "g \<in> snd ` set history" "th_tree_size g = m"
        using g(2) history_get [OF "1.prems"(1)] by blast+
      ultimately show ?thesis using p g(3) by (auto intro: extends.step)
    qed
  qed
qed

lemma walk_back_complete:
  assumes "extends (snd ` set history) h n r" "history_valid history" "decreasing h"
    "\<forall>m \<in> set visited. th_tree_size h < m"
  shows "walk_back history n r label visited h = Ok ()"
  using assms
proof (induction arbitrary: visited rule: extends.induct)
  case (link h n r)
  have fresh: "th_tree_size h \<notin> set visited" using link.prems(3) by blast
  show ?case using link fresh by (subst walk_back.simps) simp
next
  case (step h g n r)
  have fresh: "th_tree_size h \<notin> set visited" using step.prems(3) by blast
  have g: "decreasing g" by (rule history_decreasing [OF step.prems(1) step.hyps(2)])
  have smaller: "n < th_tree_size g"
    using extends_smaller [OF step.hyps(3) history_decreasing [OF step.prems(1)] g] .
  have get: "bt_get history (th_tree_size g) = Some g"
    using history_get [OF step.prems(1)] step.hyps(2) by blast
  have "th_tree_size g < th_tree_size h" using step.prems(2) step.hyps(1) by (simp add: decreasing_def)
  then have "\<forall>m \<in> set (bs_insert (th_tree_size h) visited). th_tree_size g < m"
    using step.prems(3) by fastforce
  from step.IH [OF step.prems(1) g this] show ?case
    using fresh step.hyps(1) smaller get by (subst walk_back.simps) simp
qed

lemma extends_anchor_iff:
  assumes "history_valid history" "decreasing h"
  shows "verify_head_extends_anchor h history n r label = Ok () \<longleftrightarrow> anchored (snd ` set history) h n r"
proof -
  have smaller: "n < th_tree_size h" if "extends (snd ` set history) h n r"
    using extends_smaller [OF that history_decreasing [OF assms(1)] assms(2)] .
  have walk: "walk_back history n r label [] h = Ok () \<longleftrightarrow> extends (snd ` set history) h n r"
    using walk_back_sound [OF assms(1)] walk_back_complete [OF _ assms] by (auto simp: )
  consider "th_tree_size h < n" | "th_tree_size h = n" | "n < th_tree_size h" by linarith
  then show ?thesis
  proof cases
    case 1
    then show ?thesis using smaller by (auto simp: verify_head_extends_anchor_def anchored_def)
  next
    case 2
    then show ?thesis using smaller by (auto simp: verify_head_extends_anchor_def anchored_def)
  next
    case 3
    then show ?thesis using walk by (simp add: verify_head_extends_anchor_def anchored_def)
  qed
qed

section \<open>Signatures\<close>

definition signed_by :: "crates \<Rightarrow> string \<Rightarrow> string \<Rightarrow> string \<Rightarrow> bool" where
  "signed_by x public_key message signature \<longleftrightarrow> (case (decode_hex public_key, decode_hex signature) of
       (Inr key, Inr sig) \<Rightarrow> length key = 32 \<and> length sig = 64 \<and> cr_ed25519 x key message sig
     | _ \<Rightarrow> False)"

lemma verify_ed25519_iff: "verify_ed25519_signature x label key sig message = Ok () \<longleftrightarrow> signed_by x key message sig"
  by (cases "decode_hex key"; cases "decode_hex sig") (simp_all add: verify_ed25519_signature_def signed_by_def)

text \<open>A rotation that both of its keys signed, as a step from the old key to the new one.\<close>

definition rotates :: "crates \<Rightarrow> log_key_rotation list \<Rightarrow> string \<Rightarrow> string \<Rightarrow> bool" where
  "rotates x rotations a b \<longleftrightarrow> list_ex (\<lambda>r. a = to_ascii_lowercase (rot_old_public_key r)
     \<and> b = to_ascii_lowercase (rot_new_public_key r)
     \<and> (case rotation_canonical_bytes x r of
          Inl _ \<Rightarrow> False
        | Inr message \<Rightarrow> signed_by x (rot_old_public_key r) message (rot_old_signature r)
            \<and> signed_by x (rot_new_public_key r) message (rot_new_signature r))) rotations"

lemma rotates_verified:
  assumes "r \<in> set rotations" "verify_log_key_rotation x r = Ok ()"
  shows "rotates x rotations (to_ascii_lowercase (rot_old_public_key r)) (to_ascii_lowercase (rot_new_public_key r))"
  using assms by (auto simp: rotates_def list_ex_iff verify_log_key_rotation_def verify_ed25519_iff intro!: bexI [of _ r])

lemma check_rotations_keys:
  assumes "check_rotations x h rs key previous = Ok final" "set rs \<subseteq> set rotations" "to_ascii_lowercase key = key"
  shows "(rotates x rotations)\<^sup>*\<^sup>* key (to_ascii_lowercase (key_after n key rs))
    \<and> to_ascii_lowercase (key_after (th_tree_size h) key rs) = to_ascii_lowercase final
    \<and> list_all (\<lambda>r. previous < rot_activate_at r) rs"
  using assms
proof (induction rs arbitrary: key previous)
  case (Cons r rs)
  let ?old = "to_ascii_lowercase (rot_old_public_key r)" and ?new = "to_ascii_lowercase (rot_new_public_key r)"
  have r: "?old = key" "previous < rot_activate_at r" "rot_activate_at r \<le> th_tree_size h"
      "verify_log_key_rotation x r = Ok ()" "check_rotations x h rs ?new (rot_activate_at r) = Ok final"
    using Cons.prems(1,3) by (auto simp: eq_ignore_ascii_case_def)
  note IH = Cons.IH [OF r(5)]
  have after: "to_ascii_lowercase (key_after m (rot_new_public_key r) rs) = to_ascii_lowercase (key_after m ?new rs)" for m
    by (cases rs) simp_all
  have "rotates x rotations key ?new"
    using rotates_verified [of r rotations x] Cons.prems(2) r(1,4) by simp
  then show ?case using IH Cons.prems(2,3) r(2,3) after
    by (auto simp: list_all_iff intro: converse_rtranclp_into_rtranclp)
qed simp

lemma timeline_keys:
  assumes "build_log_key_timeline x bundle trusted = Ok timeline"
  shows "(\<exists>key \<in> set trusted. (rotates x (tb_rotations bundle))\<^sup>*\<^sup>* (to_ascii_lowercase key)
      (to_ascii_lowercase (public_key_at timeline n)))
    \<and> eq_ignore_ascii_case (public_key_at timeline (th_tree_size (tb_head bundle))) (tb_log_public_key bundle)
    \<and> tl_log_id timeline = th_log_id (tb_head bundle)"
proof (cases "tb_rotations bundle")
  case Nil
  then have t: "timeline = \<lparr>tl_log_id = th_log_id (tb_head bundle),
      tl_initial_public_key = to_ascii_lowercase (tb_log_public_key bundle), tl_rotations = []\<rparr>"
    "list_ex (\<lambda>key. eq_ignore_ascii_case key (tb_log_public_key bundle)) trusted"
    using assms by (auto simp: build_log_key_timeline_def)
  then obtain key where "key \<in> set trusted"
      "to_ascii_lowercase key = to_ascii_lowercase (tb_log_public_key bundle)"
    by (auto simp: list_ex_iff eq_ignore_ascii_case_def)
  then show ?thesis using t(1) by (intro conjI bexI [of _ key]) (simp_all add: public_key_at_def)
next
  case (Cons first rest)
  then obtain final where t: "timeline = \<lparr>tl_log_id = th_log_id (tb_head bundle),
      tl_initial_public_key = to_ascii_lowercase (rot_old_public_key first), tl_rotations = tb_rotations bundle\<rparr>"
    "list_ex (\<lambda>key. eq_ignore_ascii_case key (rot_old_public_key first)) trusted"
    "check_rotations x (tb_head bundle) (tb_rotations bundle) (to_ascii_lowercase (rot_old_public_key first)) 0 = Ok final"
    "eq_ignore_ascii_case final (tb_log_public_key bundle)"
    using assms by (auto simp: build_log_key_timeline_def simp del: check_rotations.simps)
  obtain key where key: "key \<in> set trusted" "to_ascii_lowercase key = to_ascii_lowercase (rot_old_public_key first)"
    using t(2) by (auto simp: list_ex_iff eq_ignore_ascii_case_def)
  note keys = check_rotations_keys [OF t(3) subset_refl to_ascii_lowercase_idem, of n]
  show ?thesis
    using keys key t(4)
    by (intro conjI bexI [of _ key]) (auto simp: t(1) public_key_at_def eq_ignore_ascii_case_def)
qed

text \<open>C26. Over a history of heads that each link to a smaller one, \<open>verify_head_extends_anchor\<close> accepts a
  checkpoint exactly when it is the current head or the links lead from the current head to it; the
  check for a cycle rejects nothing.\<close>

theorem extends_anchor_decides:
  assumes "history_valid history" "decreasing h"
  shows "verify_head_extends_anchor h history n r label = Inr () \<longleftrightarrow> anchored (snd ` set history) h n r"
  by (rule extends_anchor_iff [OF assms])

end
