(* ===== verification/Transparency_Verify.thy ===== *)
theory Transparency_Verify
  imports Transparency_Merkle Transparency_Chain
begin

text \<open>
  What a verified bundle guarantees: the release is signed by a publisher key that was registered and not
  revoked before it, among the key events of the bundle, the tree head is signed by the log, and extends every checkpoint
  the client holds.
\<close>

section \<open>The release\<close>

lemma try_each_iff: "try_each f as = Ok () \<longleftrightarrow> list_all (\<lambda>a. f a = Ok ()) as"
  by (induction as) auto

lemma verify_signature_bytesD:
  assumes "verify_signature_bytes x envelope = Ok ()"
  shows "\<exists>message. subject_canonical_bytes x (re_subject envelope) = Ok message
     \<and> signed_by x (ps_public_key (re_signature envelope)) message (ps_signature (re_signature envelope))"
  using assms by (auto simp: verify_signature_bytes_def signed_by_def Let_def)

text \<open>The events that set the state of one key of a package.\<close>

definition key_event :: "string \<Rightarrow> string \<Rightarrow> transparency_event \<Rightarrow> bool" where
  "key_event package key_id e \<longleftrightarrow> (case ev_kind e of
       KeyRegistered p k _ \<Rightarrow> p = package \<and> k = key_id
     | KeyRevoked p k \<Rightarrow> p = package \<and> k = key_id
     | ReleaseLogged _ _ _ _ \<Rightarrow> False)"

lemma bt_get_apply_key_event:
  "bt_wf state \<Longrightarrow> bt_get (apply_key_event package release e state) k =
     (if ev_sequence e < release \<and> key_event package k e
      then Some (case ev_kind e of KeyRegistered _ _ key \<Rightarrow> Some key | _ \<Rightarrow> None)
      else bt_get state k)"
  by (cases "ev_kind e") (auto simp: apply_key_event_def key_event_def bt_get_insert)

lemma apply_key_event_wf: "bt_wf state \<Longrightarrow> bt_wf (apply_key_event package release e state)"
  by (cases "ev_kind e") (auto simp: apply_key_event_def intro: bt_wf_insert)

lemma fold_key_events_wf: "bt_wf (fold (apply_key_event package release) events [])"
proof (induction events rule: rev_induct)
  case Nil
  show ?case by (simp add: bt_wf_def bt_keys_def)
qed (simp add: apply_key_event_wf)

lemma fold_key_events:
  assumes "bt_get (fold (apply_key_event package release) events []) k = Some (Some key)"
  shows "\<exists>pre e post. events = pre @ e # post \<and> ev_sequence e < release
     \<and> ev_kind e = KeyRegistered package k key
     \<and> filter (\<lambda>e. ev_sequence e < release \<and> key_event package k e) post = []"
  using assms
proof (induction events rule: rev_induct)
  case (snoc e events)
  show ?case
  proof (cases "ev_sequence e < release \<and> key_event package k e")
    case True
    then have "ev_kind e = KeyRegistered package k key"
      using snoc.prems fold_key_events_wf [of package release events]
      by (auto simp: bt_get_apply_key_event key_event_def split: transparency_event_kind.splits)
    then show ?thesis using True by (intro exI [of _ events] exI [of _ e] exI [of _ "[]"]) simp
  next
    case False
    then have "bt_get (fold (apply_key_event package release) events []) k = Some (Some key)"
      using snoc.prems fold_key_events_wf [of package release events] by (auto simp: bt_get_apply_key_event)
    then obtain pre e' post where "events = pre @ e' # post" "ev_sequence e' < release"
        "ev_kind e' = KeyRegistered package k key"
        "filter (\<lambda>e. ev_sequence e < release \<and> key_event package k e) post = []"
      using snoc.IH by blast
    then show ?thesis using False
      by (intro exI [of _ pre] exI [of _ e'] exI [of _ "post @ [e]"]) simp
  qed
qed simp

lemma key_states_active:
  assumes "bt_get (key_states package release key_events) k = Some (Some key)"
  shows "\<exists>e \<in> inc_event ` set key_events. ev_kind e = KeyRegistered package k key \<and> ev_sequence e < release
     \<and> filter (\<lambda>e'. ev_sequence e < ev_sequence e' \<and> ev_sequence e' < release \<and> key_event package k e')
         (map inc_event key_events) = []"
proof -
  let ?sorted = "map inc_event (sort_key (\<lambda>inc. ev_sequence (inc_event inc)) key_events)"
  obtain pre e post where e: "?sorted = pre @ e # post" "ev_sequence e < release"
      "ev_kind e = KeyRegistered package k key"
      "filter (\<lambda>e. ev_sequence e < release \<and> key_event package k e) post = []"
    using fold_key_events assms unfolding key_states_def by blast
  have "sorted (map ev_sequence ?sorted)" by (simp add: comp_def)
  then have pre: "ev_sequence e' \<le> ev_sequence e" if "e' \<in> set pre" for e'
    using that unfolding e(1) by (auto simp: sorted_append)
  have set: "set (pre @ e # post) = inc_event ` set key_events" unfolding e(1) [symmetric] by simp
  have "\<not> (ev_sequence e < ev_sequence e' \<and> ev_sequence e' < release \<and> key_event package k e')"
    if "e' \<in> inc_event ` set key_events" for e'
    using that unfolding set [symmetric] using pre e(4) by (fastforce simp: filter_empty_conv)
  then have "filter (\<lambda>e'. ev_sequence e < ev_sequence e' \<and> ev_sequence e' < release \<and> key_event package k e')
      (map inc_event key_events) = []"
    by (simp add: filter_empty_conv)
  moreover have "e \<in> inc_event ` set key_events" unfolding set [symmetric] by simp
  ultimately show ?thesis using e(2,3) by blast
qed

lemma release_event_authentic:
  assumes "verify_release_event x bundle envelope = Ok ()"
  shows "\<exists>digest message key e. ev_kind (inc_event (tb_release bundle)) = ReleaseLogged (rs_package (re_subject envelope))
         (rs_version (re_subject envelope)) digest (ps_key_id (re_signature envelope))
     \<and> subject_digest x (re_subject envelope) = Ok digest
     \<and> subject_canonical_bytes x (re_subject envelope) = Ok message
     \<and> signed_by x (ps_public_key (re_signature envelope)) message (ps_signature (re_signature envelope))
     \<and> eq_ignore_ascii_case key (ps_public_key (re_signature envelope))
     \<and> e \<in> inc_event ` set (tb_key_events bundle)
     \<and> ev_kind e = KeyRegistered (rs_package (re_subject envelope)) (ps_key_id (re_signature envelope)) key
     \<and> ev_sequence e < ev_sequence (inc_event (tb_release bundle))
     \<and> filter (\<lambda>e'. ev_sequence e < ev_sequence e' \<and> ev_sequence e' < ev_sequence (inc_event (tb_release bundle))
           \<and> key_event (rs_package (re_subject envelope)) (ps_key_id (re_signature envelope)) e')
         (map inc_event (tb_key_events bundle)) = []"
proof -
  let ?s = "re_subject envelope" and ?sig = "re_signature envelope" and ?release = "inc_event (tb_release bundle)"
  obtain digest where r: "ev_kind ?release = ReleaseLogged (rs_package ?s) (rs_version ?s) digest (ps_key_id ?sig)"
      "subject_digest x ?s = Ok digest"
    using assms by (auto simp: verify_release_event_def Let_def split: transparency_event_kind.splits if_splits)
  then obtain key where key: "bt_get (key_states (rs_package ?s) (ev_sequence ?release) (tb_key_events bundle))
        (ps_key_id ?sig) = Some (Some key)"
      "verify_release_envelope x envelope ?s [\<lparr>pk_key_id = ps_key_id ?sig, pk_public_key = key\<rparr>] = Ok ()"
    using assms by (auto simp: verify_release_event_def Let_def split: option.splits)
  have "verify_signature_bytes x envelope = Ok ()" "eq_ignore_ascii_case key (ps_public_key ?sig)"
    using key(2) by (auto simp: verify_release_envelope_def)
  then show ?thesis
    using verify_signature_bytesD [of x envelope] key_states_active [OF key(1)] r by blast
qed

section \<open>The tree head\<close>

lemma head_validate_decreasing: "head_validate h = Ok () \<Longrightarrow> decreasing h"
  by (cases "th_previous_size h"; cases "th_previous_root h")
    (auto simp: head_validate_def decreasing_def previous_checkpoint_def split: if_splits)

lemma verify_tree_headD:
  assumes "verify_tree_head_with_timeline x h timeline = Ok ()"
  shows "decreasing h" "th_log_id h = tl_log_id timeline"
    "\<exists>message. head_canonical_bytes h = Ok message
      \<and> signed_by x (public_key_at timeline (th_tree_size h)) message (th_signature h)"
proof -
  have h: "verify_tree_head x h (public_key_at timeline (th_tree_size h)) = Ok ()"
    and "th_log_id h = tl_log_id timeline"
    using assms by (auto simp: verify_tree_head_with_timeline_def)
  then show "th_log_id h = tl_log_id timeline" by simp
  show "decreasing h" using h by (auto simp: verify_tree_head_def intro: head_validate_decreasing)
  show "\<exists>message. head_canonical_bytes h = Ok message
      \<and> signed_by x (public_key_at timeline (th_tree_size h)) message (th_signature h)"
    using h by (auto simp: verify_tree_head_def signed_by_def)
qed

lemma index_heads_valid:
  assumes "index_heads hs heads = Ok history" "history_valid heads" "list_all decreasing hs"
  shows "history_valid history \<and> snd ` set history = snd ` set heads \<union> set hs"
  using assms
proof (induction hs arbitrary: heads)
  case (Cons h hs)
  then have free: "bt_get heads (th_tree_size h) = None" and
      rest: "index_heads hs (bt_insert (th_tree_size h) h heads) = Ok history"
    by (auto split: option.splits)
  have wf: "bt_wf heads" using Cons.prems(2) by (simp add: history_valid_def)
  have new: "set (bt_insert (th_tree_size h) h heads) = insert (th_tree_size h, h) (set heads)"
  proof (rule set_eqI)
    fix p
    have "p \<in> set (bt_insert (th_tree_size h) h heads) \<longleftrightarrow>
        bt_get (bt_insert (th_tree_size h) h heads) (fst p) = Some (snd p)"
      using bt_get_iff_in_set [OF bt_wf_insert [OF wf]] by simp
    also have "\<dots> \<longleftrightarrow> p = (th_tree_size h, h) \<or> p \<in> set heads"
      using free bt_get_iff_in_set [OF wf, of "fst p" "snd p"] by (auto simp: bt_get_insert [OF wf] prod_eq_iff)
    finally show "p \<in> set (bt_insert (th_tree_size h) h heads) \<longleftrightarrow> p \<in> insert (th_tree_size h, h) (set heads)" by simp
  qed
  have "history_valid (bt_insert (th_tree_size h) h heads)"
    using Cons.prems(2,3) wf by (auto simp: history_valid_def list_all_iff new intro: bt_wf_insert)
  from Cons.IH [OF rest this] show ?case using Cons.prems(3) by (auto simp: new)
qed simp

definition bundle_heads :: "transparency_bundle \<Rightarrow> signed_tree_head set" where
  "bundle_heads bundle = insert (tb_head bundle) (set (tb_head_history bundle))"

lemma indexed_history_valid:
  assumes "indexed_head_history bundle = Ok history" "list_all decreasing (tb_head_history bundle)"
    "decreasing (tb_head bundle)"
  shows "history_valid history" "snd ` set history = bundle_heads bundle"
proof -
  have "history_valid []" by (simp add: history_valid_def bt_wf_def bt_keys_def)
  then show "history_valid history" "snd ` set history = bundle_heads bundle"
    using index_heads_valid [OF assms(1) [unfolded indexed_head_history_def]] assms(2,3)
    by (auto simp: bundle_heads_def)
qed

text \<open>The checks of a verified bundle, one by one.\<close>

lemma verified_bundleD:
  assumes "verify_transparency_bundle_with_policy x bundle envelope cached policy offline now = Ok v"
  obtains timeline history where
    "build_log_key_timeline x bundle (vp_trusted_log_keys policy) = Ok timeline"
    "list_all (\<lambda>h. verify_tree_head_with_timeline x h timeline = Ok ()) (tb_head bundle # tb_head_history bundle)"
    "verify_head_freshness (tb_head bundle) (vp_freshness policy) offline now = Ok ()"
    "indexed_head_history bundle = Ok history" "check_cached bundle history cached = Ok ()"
    "list_all (\<lambda>g. verify_gossip_checkpoint x g (tb_head bundle) history timeline
       (fp_max_future_skew (vp_freshness policy)) now = Ok ()) (vp_gossip policy)"
    "list_all (\<lambda>inc. verify_log_inclusion x inc (tb_head bundle) = Ok ()) (tb_release bundle # tb_key_events bundle)"
    "verify_release_event x bundle envelope = Ok ()"
  using assms unfolding verify_transparency_bundle_with_policy_def try_bind_Ok_iff
  by (auto simp: try_each_iff)

lemma verified_heads_decreasing:
  "list_all (\<lambda>h. verify_tree_head_with_timeline x h timeline = Ok ()) hs \<Longrightarrow> list_all decreasing hs"
  using verify_tree_headD(1) by (auto simp: list_all_iff)

lemma verified_checkpoints:
  assumes "verify_transparency_bundle_with_policy x bundle envelope cached policy offline now = Ok v"
  shows "list_all (\<lambda>(n, r). anchored (bundle_heads bundle) (tb_head bundle) n r)
     ((case cached of None \<Rightarrow> [] | Some c \<Rightarrow> [(ch_tree_size c, ch_root_hash c)])
      @ map (\<lambda>g. (th_tree_size (gc_head g), th_root_hash (gc_head g))) (vp_gossip policy))"
proof -
  obtain timeline history where b:
    "list_all (\<lambda>h. verify_tree_head_with_timeline x h timeline = Ok ()) (tb_head bundle # tb_head_history bundle)"
    "indexed_head_history bundle = Ok history" "check_cached bundle history cached = Ok ()"
    "list_all (\<lambda>g. verify_gossip_checkpoint x g (tb_head bundle) history timeline
       (fp_max_future_skew (vp_freshness policy)) now = Ok ()) (vp_gossip policy)"
    using verified_bundleD [OF assms] by metis
  have dec: "list_all decreasing (tb_head_history bundle)" "decreasing (tb_head bundle)"
    using verified_heads_decreasing [OF b(1)] by simp_all
  note history = indexed_history_valid [OF b(2) dec]
  note iff = extends_anchor_iff [OF history(1) dec(2), unfolded history(2)]
  show ?thesis
    using b(3,4) iff
    by (auto simp: list_all_iff check_cached_def verify_gossip_checkpoint_def split: option.splits)
qed

lemma verified_head_signed:
  assumes "verify_transparency_bundle_with_policy x bundle envelope cached policy offline now = Ok v"
  shows "list_all (\<lambda>h. \<exists>message root key. head_canonical_bytes h = Ok message
      \<and> signed_by x key message (th_signature h) \<and> root \<in> set (vp_trusted_log_keys policy)
      \<and> (rotates x (tb_rotations bundle))\<^sup>*\<^sup>* (to_ascii_lowercase root) (to_ascii_lowercase key)
      \<and> th_log_id h = th_log_id (tb_head bundle))
    (tb_head bundle # tb_head_history bundle)"
proof -
  obtain timeline where b: "build_log_key_timeline x bundle (vp_trusted_log_keys policy) = Ok timeline"
    "list_all (\<lambda>h. verify_tree_head_with_timeline x h timeline = Ok ()) (tb_head bundle # tb_head_history bundle)"
    using verified_bundleD [OF assms] by metis
  show ?thesis
    unfolding list_all_iff
  proof
    fix h assume "h \<in> set (tb_head bundle # tb_head_history bundle)"
    then have h: "verify_tree_head_with_timeline x h timeline = Ok ()" using b(2) by (auto simp: list_all_iff)
    show "\<exists>message root key. head_canonical_bytes h = Ok message
      \<and> signed_by x key message (th_signature h) \<and> root \<in> set (vp_trusted_log_keys policy)
      \<and> (rotates x (tb_rotations bundle))\<^sup>*\<^sup>* (to_ascii_lowercase root) (to_ascii_lowercase key)
      \<and> th_log_id h = th_log_id (tb_head bundle)"
      using verify_tree_headD [OF h] timeline_keys [OF b(1), of "th_tree_size h"] by auto
  qed
qed

text \<open>C13. A verified bundle proves its release: the release event is for the package, the version, the key and
  the digest of the envelope, the envelope is signed by the publisher key, this key is registered by a key event
  of the bundle before the release, no key event of the bundle changes it in between, and every event of
  the bundle has an inclusion proof that verifies against the tree head.\<close>

theorem verified_release_authentic:
  assumes "verify_transparency_bundle_with_policy x bundle envelope cached policy offline now = Inr v"
  shows "\<exists>digest message key e.
       ev_kind (inc_event (tb_release bundle)) = ReleaseLogged (rs_package (re_subject envelope))
         (rs_version (re_subject envelope)) digest (ps_key_id (re_signature envelope))
     \<and> subject_digest x (re_subject envelope) = Inr digest
     \<and> subject_canonical_bytes x (re_subject envelope) = Inr message
     \<and> signed_by x (ps_public_key (re_signature envelope)) message (ps_signature (re_signature envelope))
     \<and> eq_ignore_ascii_case key (ps_public_key (re_signature envelope))
     \<and> e \<in> inc_event ` set (tb_key_events bundle)
     \<and> ev_kind e = KeyRegistered (rs_package (re_subject envelope)) (ps_key_id (re_signature envelope)) key
     \<and> ev_sequence e < ev_sequence (inc_event (tb_release bundle))
     \<and> filter (\<lambda>e'. ev_sequence e < ev_sequence e' \<and> ev_sequence e' < ev_sequence (inc_event (tb_release bundle))
           \<and> key_event (rs_package (re_subject envelope)) (ps_key_id (re_signature envelope)) e')
         (map inc_event (tb_key_events bundle)) = []
     \<and> list_all (\<lambda>inc. verify_log_inclusion x inc (tb_head bundle) = Inr ())
         (tb_release bundle # tb_key_events bundle)"
proof -
  have "verify_release_event x bundle envelope = Inr ()"
      "list_all (\<lambda>inc. verify_log_inclusion x inc (tb_head bundle) = Inr ()) (tb_release bundle # tb_key_events bundle)"
    using verified_bundleD [OF assms] by metis+
  then show ?thesis using release_event_authentic [of x "bundle" envelope] by blast
qed

text \<open>C14. The tree head of a verified bundle extends the cached tree head and every gossip checkpoint of the
  policy: it is that checkpoint or its signed links lead to exactly its size and root. So a client
  never accepts a log that was rolled back or that forked from what it has seen.\<close>

theorem verified_bundle_extends_checkpoints:
  assumes "verify_transparency_bundle_with_policy x bundle envelope cached policy offline now = Inr v"
  shows "list_all (\<lambda>(n, r). anchored (bundle_heads bundle) (tb_head bundle) n r)
     ((case cached of None \<Rightarrow> [] | Some c \<Rightarrow> [(ch_tree_size c, ch_root_hash c)])
      @ map (\<lambda>g. (th_tree_size (gc_head g), th_root_hash (gc_head g))) (vp_gossip policy))"
  by (rule verified_checkpoints [OF assms])

text \<open>C25. Every tree head of a verified bundle is for the same log and is signed by a key that is reached from
  a key pinned by the policy through rotations that the old and the new key both signed.\<close>

theorem verified_heads_signed:
  assumes "verify_transparency_bundle_with_policy x bundle envelope cached policy offline now = Inr v"
  shows "list_all (\<lambda>h. \<exists>message root key. head_canonical_bytes h = Inr message
      \<and> signed_by x key message (th_signature h) \<and> root \<in> set (vp_trusted_log_keys policy)
      \<and> (rotates x (tb_rotations bundle))\<^sup>*\<^sup>* (to_ascii_lowercase root) (to_ascii_lowercase key)
      \<and> th_log_id h = th_log_id (tb_head bundle))
    (tb_head bundle # tb_head_history bundle)"
  by (rule verified_head_signed [OF assms])

end
