(* ===== verification/Transparency_Example.thy ===== *)
theory Transparency_Example
  imports Transparency_Verify "HOL-Library.Code_Target_Nat"
begin

text \<open>
  A small log with one key registration and one release, a tree head that links to the head before the
  release, and a bundle for it. The digest is the first 32 bytes of the padded input, a signature is valid
  when it starts with the public key.
\<close>

definition ex_crates :: crates where
  "ex_crates = \<lparr>cr_sha256 = (\<lambda>bytes. take 32 (bytes @ replicate 32 CHR ''x'')),
     cr_ed25519 = (\<lambda>key message sig. take 32 sig = key), cr_semver = (\<lambda>_. Inr ())\<rparr>"

definition ex_key :: string where "ex_key = replicate 32 CHR ''k''"
definition ex_key_hex :: string where "ex_key_hex = encode_hex ex_key"
definition ex_key_id :: string where "ex_key_id = publisher_key_id ex_crates ex_key"
definition ex_signature :: string where "ex_signature = encode_hex (ex_key @ ex_key)"
definition ex_checksum :: string where "ex_checksum = ''sha256:'' @ replicate 64 CHR ''0''"

definition ex_subject :: release_subject where
  "ex_subject = \<lparr>rs_schema = 1, rs_package = ''a/b'', rs_version = ''1'', rs_archive_checksum = ex_checksum,
     rs_manifest_checksum = ex_checksum, rs_provenance_digest = None\<rparr>"

definition ex_envelope :: signed_release_envelope where
  "ex_envelope = \<lparr>re_subject = ex_subject, re_signature = \<lparr>ps_algorithm = ''ed25519'', ps_key_id = ex_key_id,
     ps_public_key = ex_key_hex, ps_signature = ex_signature\<rparr>\<rparr>"

definition ex_events :: "transparency_event list" where
  "ex_events = [\<lparr>ev_sequence = 0, ev_kind = KeyRegistered ''a/b'' ex_key_id ex_key_hex\<rparr>,
     \<lparr>ev_sequence = 1, ev_kind = ReleaseLogged ''a/b'' ''1''
       (''sha256:'' @ encode_hex (''nomo-release-envelope-v1'' @ CHR 0x0A # ''package'')) ex_key_id\<rparr>]"

definition ex_log :: transparency_log where "ex_log = \<lparr>log_events = ex_events\<rparr>"

definition ex_leaf :: string where
  "ex_leaf = char_of (0 :: nat) # ''nomo-transparency-event-v1'' @ CHR 0x0A # ''sequ''"

definition ex_root_1 :: string where "ex_root_1 = ''sha256:'' @ encode_hex ex_leaf"

definition ex_root_2 :: string where
  "ex_root_2 = ''sha256:'' @ encode_hex (take 32 (char_of (1 :: nat) # ex_leaf))"

definition ex_head :: signed_tree_head where
  "ex_head = \<lparr>th_schema = 2, th_log_id = ''log'', th_tree_size = 2, th_root_hash = ex_root_2,
     th_issued_at = 10, th_previous_size = Some 1, th_previous_root = Some ex_root_1,
     th_algorithm = ''ed25519'', th_key_id = ex_key_id, th_signature = ex_signature\<rparr>"

definition ex_inclusion :: "nat \<Rightarrow> proof_side \<Rightarrow> log_inclusion" where
  "ex_inclusion i side = \<lparr>inc_event = ex_events ! i, inc_proof = \<lparr>prf_leaf_index = i, prf_tree_size = 2,
     prf_siblings = [\<lparr>step_side = side, step_hash = encode_hex ex_leaf\<rparr>]\<rparr>\<rparr>"

definition ex_bundle :: transparency_bundle where
  "ex_bundle = \<lparr>tb_head = ex_head, tb_log_public_key = ex_key_hex, tb_rotations = [], tb_head_history = [],
     tb_release = ex_inclusion 1 SideLeft, tb_key_events = [ex_inclusion 0 SideRight]\<rparr>"

definition ex_cached :: cached_tree_head where
  "ex_cached = \<lparr>ch_tree_size = 1, ch_root_hash = ex_root_1, ch_issued_at = 5, ch_key_id = ex_key_id\<rparr>"

lemma ex_width: "sha256_width ex_crates"
  by (auto simp: sha256_width_def ex_crates_def min_def)

lemma ex_log_new: "log_new ex_crates ex_events = Inr ex_log"
  by code_simp

definition ex_verified :: verified_transparency where
  "ex_verified = \<lparr>vt_cached_head = \<lparr>ch_tree_size = 2, ch_root_hash = ex_root_2, ch_issued_at = 10,
     ch_key_id = ex_key_id\<rparr>, vt_gossip = \<lparr>gc_observed_at = 20, gc_head = ex_head\<rparr>\<rparr>"

lemma ex_root_hash: "root_hash ex_crates ex_log = Inr (Some (th_root_hash ex_head))"
  by code_simp

lemma ex_inclusion_verified: "verify_log_inclusion ex_crates (ex_inclusion 1 SideLeft) ex_head = Inr ()"
  by code_simp

lemma ex_inclusion_1: "inclusion ex_crates ex_log 1 = Inr (ex_inclusion 1 SideLeft)"
  by code_simp

lemma ex_bundle_verified:
  "verify_transparency_bundle_with_policy ex_crates ex_bundle ex_envelope (Some ex_cached)
     (pinned_policy [ex_key_hex]) False 20 = Inr ex_verified"
  by code_simp

section \<open>The properties at this bundle\<close>

theorem inclusion_complete_witness: "verify_log_inclusion ex_crates (ex_inclusion 1 SideLeft) ex_head = Inr ()"
  by (rule inclusion_complete [OF ex_width ex_log_new ex_inclusion_1 ex_root_hash])
    (simp add: ex_head_def ex_events_def)

theorem inclusion_sound_witness:
  "(ev_sequence (inc_event (ex_inclusion 1 SideLeft)) < length ex_events
      \<and> ex_events ! ev_sequence (inc_event (ex_inclusion 1 SideLeft)) = inc_event (ex_inclusion 1 SideLeft))
    \<or> (\<exists>a \<in> inclusion_inputs ex_crates (ex_inclusion 1 SideLeft). \<exists>b \<in> log_inputs ex_crates ex_log.
        a \<noteq> b \<and> cr_sha256 ex_crates a = cr_sha256 ex_crates b)"
  by (rule inclusion_sound [OF ex_width ex_log_new ex_root_hash ex_inclusion_verified])

lemma ex_history_valid: "history_valid [(2, ex_head)]" "decreasing ex_head"
  by (simp_all add: history_valid_def decreasing_def previous_checkpoint_def ex_head_def bt_wf_def bt_keys_def)

theorem extends_anchor_decides_witness:
  "verify_head_extends_anchor ex_head [(2 :: nat, ex_head)] 1 ex_root_1 ''cached tree head'' = Inr ()
     \<longleftrightarrow> anchored (snd ` set [(2 :: nat, ex_head)]) ex_head 1 ex_root_1"
  by (rule extends_anchor_decides [OF ex_history_valid])

theorem verified_bundle_extends_checkpoints_witness:
  "anchored (bundle_heads ex_bundle) (tb_head ex_bundle) (ch_tree_size ex_cached) (ch_root_hash ex_cached)"
  using verified_bundle_extends_checkpoints [OF ex_bundle_verified] by simp

theorem verified_heads_signed_witness:
  "\<exists>message key. head_canonical_bytes ex_head = Inr message \<and> signed_by ex_crates key message (th_signature ex_head)"
  using verified_heads_signed [OF ex_bundle_verified] by (auto simp: ex_bundle_def)

theorem verified_release_authentic_witness:
  "\<exists>message. subject_canonical_bytes ex_crates (re_subject ex_envelope) = Inr message
     \<and> signed_by ex_crates (ps_public_key (re_signature ex_envelope)) message (ps_signature (re_signature ex_envelope))"
  using verified_release_authentic [OF ex_bundle_verified] by blast

end
