(* ===== verification/Interp_Value.thy ===== *)
theory Interp_Value
  imports Ir Ordered_Map Rust_Text Json_Rpc Cron "HOL-Library.Signed_Division"
begin

text \<open>
  The values of the browser interpreter, \<open>crates/nomo_wasm/src/interpreter.rs\<close>: limits, errors, the enum
  \<open>Value\<close> with its rendering and its coercions, equality, comparison, arithmetic on machine integers and
  the values that the JSON, JSON-RPC and cron helpers exchange with programs.

  \<^item> The fields of a struct value are a \<open>HashMap\<close> that is only looked up, extended, compared and printed in
    sorted order; it is the ordered map of \<open>Ordered_Map\<close>.
  \<^item> \<open>f64\<close> is the type parameter \<open>'f\<close>, and its operations, the Unicode tables behind \<open>to_lowercase\<close>,
    \<open>to_uppercase\<close>, \<open>is_numeric\<close> and \<open>is_alphabetic\<close>, and the derived \<open>Debug\<close> rendering of an expression are
    the fields of the record \<open>platform\<close>, an argument of the functions that use them.
  \<^item> \<open>usize\<close> is 64 bits wide, so the conversion of a \<open>u64\<close> index never fails.
\<close>

section \<open>Limits, errors and the platform\<close>

record execution_limits =
  max_steps :: u64
  max_output_bytes :: u64
  max_call_depth :: u64

definition default_limits :: execution_limits where
  "default_limits = \<lparr>max_steps = 100000, max_output_bytes = 64 * 1024, max_call_depth = 64\<rparr>"

record runtime_error =
  rt_code :: string
  rt_message :: string

definition fuel_error :: runtime_error where
  "fuel_error = \<lparr>rt_code = ''NOMO-WASM-001'', rt_message = ''execution step limit exceeded''\<rparr>"

definition output_error :: runtime_error where
  "output_error = \<lparr>rt_code = ''NOMO-WASM-002'', rt_message = ''program output limit exceeded''\<rparr>"

definition capability_error :: "string \<Rightarrow> runtime_error" where
  "capability_error capability = \<lparr>rt_code = ''NOMO-WASM-003'',
     rt_message = [CHR 0x60] @ capability @ [CHR 0x60]
       @ '' is unavailable in the browser sandbox because it requires host access''\<rparr>"

definition runtime_failure :: "string \<Rightarrow> runtime_error" where
  "runtime_failure message = \<lparr>rt_code = ''NOMO-WASM-004'', rt_message = message\<rparr>"

record 'f platform =
  float_parse :: "string \<Rightarrow> 'f option"
  float_text :: "'f \<Rightarrow> string"
  float_of_int :: "int \<Rightarrow> 'f"
  float_neg :: "'f \<Rightarrow> 'f"
  float_unary :: "math_unary_function \<Rightarrow> 'f \<Rightarrow> 'f"
  float_binary :: "math_binary_function \<Rightarrow> 'f \<Rightarrow> 'f \<Rightarrow> 'f"
  float_arith :: "binary_op \<Rightarrow> 'f \<Rightarrow> 'f \<Rightarrow> 'f"
  float_eq :: "'f \<Rightarrow> 'f \<Rightarrow> bool"
  float_less :: "'f \<Rightarrow> 'f \<Rightarrow> bool"
  float_less_eq :: "'f \<Rightarrow> 'f \<Rightarrow> bool"
  char_is_numeric :: "uchar \<Rightarrow> bool"
  char_is_alphabetic :: "uchar \<Rightarrow> bool"
  text_to_lower :: "string \<Rightarrow> string"
  text_to_upper :: "string \<Rightarrow> string"
  debug_expr :: "value_expr \<Rightarrow> string"

section \<open>Values\<close>

datatype (plugins only: code size) 'f rt_value =
    VString string
  | VI64 i64
  | VI32 i32
  | VU32 u32
  | VU64 u64
  | VF64 'f
  | VChar uchar
  | VBool bool
  | VArray "'f rt_value list"
  | VStruct string "(string \<times> 'f rt_value) list"
  | VEnum string string "'f rt_value option"
  | VVoid

definition show_signed :: "int \<Rightarrow> string" where
  "show_signed v = (if v < 0 then CHR ''-'' # show_nat (nat (- v)) else show_nat (nat v))"

text \<open>\<open>HashMap::from\<close> of an array of pairs, and \<open>collect\<close> into a \<open>HashMap\<close>: a later pair replaces an
  earlier one with the same key.\<close>

definition fields_of :: "(string \<times> 'v) list \<Rightarrow> (string \<times> 'v) list" where
  "fields_of entries = fold (\<lambda>(k, v). bt_insert k v) entries []"

text \<open>\<open>Value::display\<close>.\<close>

primrec display_value :: "'f platform \<Rightarrow> 'f rt_value \<Rightarrow> string" where
  "display_value h (VString s) = s"
| "display_value h (VI64 w) = show_signed (sint w)"
| "display_value h (VI32 w) = show_signed (sint w)"
| "display_value h (VU32 w) = show_nat (unat w)"
| "display_value h (VU64 w) = show_nat (unat w)"
| "display_value h (VF64 x) = float_text h x"
| "display_value h (VChar c) = utf8_encode c"
| "display_value h (VBool b) = (if b then ''true'' else ''false'')"
| "display_value h (VArray vs) = ''['' @ join_text '', '' (map (display_value h) vs) @ '']''"
| "display_value h (VStruct name fs) =
     name @ '' { ''
       @ join_text '', '' (sort (map (\<lambda>(k, shown). k @ '': '' @ shown) (map (map_prod id (display_value h)) fs)))
       @ '' }''"
| "display_value h (VEnum name variant payload) =
     (case map_option (display_value h) payload of
        None \<Rightarrow> name @ ''.'' @ variant
      | Some shown \<Rightarrow> name @ ''.'' @ variant @ ''('' @ shown @ '')'')"
| "display_value h VVoid = []"

text \<open>The derived \<open>PartialEq\<close>: maps are equal when they have the same number of entries and every entry of
  the one has an equal entry in the other.\<close>

primrec value_eq :: "'f platform \<Rightarrow> 'f rt_value \<Rightarrow> 'f rt_value \<Rightarrow> bool" where
  "value_eq h (VString s) w = (case w of VString t \<Rightarrow> s = t | _ \<Rightarrow> False)"
| "value_eq h (VI64 a) w = (case w of VI64 b \<Rightarrow> a = b | _ \<Rightarrow> False)"
| "value_eq h (VI32 a) w = (case w of VI32 b \<Rightarrow> a = b | _ \<Rightarrow> False)"
| "value_eq h (VU32 a) w = (case w of VU32 b \<Rightarrow> a = b | _ \<Rightarrow> False)"
| "value_eq h (VU64 a) w = (case w of VU64 b \<Rightarrow> a = b | _ \<Rightarrow> False)"
| "value_eq h (VF64 x) w = (case w of VF64 y \<Rightarrow> float_eq h x y | _ \<Rightarrow> False)"
| "value_eq h (VChar c) w = (case w of VChar d \<Rightarrow> c = d | _ \<Rightarrow> False)"
| "value_eq h (VBool b) w = (case w of VBool d \<Rightarrow> b = d | _ \<Rightarrow> False)"
| "value_eq h (VArray vs) w = (case w of
     VArray ws \<Rightarrow> list_all2 (\<lambda>eq u. eq u) (map (value_eq h) vs) ws | _ \<Rightarrow> False)"
| "value_eq h (VStruct name fs) w = (case w of
     VStruct other gs \<Rightarrow> name = other \<and> length fs = length gs
       \<and> list_all (\<lambda>(k, eq). case bt_get gs k of Some u \<Rightarrow> eq u | None \<Rightarrow> False)
           (map (map_prod id (value_eq h)) fs)
   | _ \<Rightarrow> False)"
| "value_eq h (VEnum name variant payload) w = (case w of
     VEnum name' variant' payload' \<Rightarrow> name = name' \<and> variant = variant'
       \<and> (case map_option (value_eq h) payload of
            None \<Rightarrow> payload' = None
          | Some eq \<Rightarrow> (case payload' of None \<Rightarrow> False | Some u \<Rightarrow> eq u))
   | _ \<Rightarrow> False)"
| "value_eq h VVoid w = (case w of VVoid \<Rightarrow> True | _ \<Rightarrow> False)"

text \<open>\<open>as_bool\<close>, \<open>as_index\<close> and \<open>as_string\<close>.\<close>

fun as_bool :: "'f rt_value \<Rightarrow> runtime_error + bool" where
  "as_bool (VBool b) = Ok b"
| "as_bool _ = Err (runtime_failure ''expected a bool value'')"

definition as_index :: "'f rt_value \<Rightarrow> runtime_error + nat" where
  "as_index v = (case v of
       VU64 w \<Rightarrow> Ok (unat w)
     | VU32 w \<Rightarrow> Ok (unat w)
     | VI32 w \<Rightarrow> (if 0 \<le> sint w then Ok (nat (sint w))
         else Err (runtime_failure ''array index must be a non-negative integer''))
     | VI64 w \<Rightarrow> (if 0 \<le> sint w then Ok (nat (sint w))
         else Err (runtime_failure ''array index must be a non-negative integer''))
     | _ \<Rightarrow> Err (runtime_failure ''array index must be a non-negative integer''))"

fun as_string :: "'f rt_value \<Rightarrow> runtime_error + string" where
  "as_string (VString s) = Ok s"
| "as_string _ = Err (runtime_failure ''expected a string value'')"

section \<open>Coercions\<close>

text \<open>\<open>i64::try_from\<close>, \<open>i32::try_from\<close>, \<open>u32::try_from\<close> and \<open>u64::try_from\<close> of an integer of any width.\<close>

definition to_i64 :: "int \<Rightarrow> runtime_error + 'f rt_value" where
  "to_i64 v = (if - (2 ^ 63) \<le> v \<and> v < 2 ^ 63 then Ok (VI64 (word_of_int v))
     else Err (runtime_failure ''integer does not fit in i64''))"

definition to_i32 :: "int \<Rightarrow> runtime_error + 'f rt_value" where
  "to_i32 v = (if - (2 ^ 31) \<le> v \<and> v < 2 ^ 31 then Ok (VI32 (word_of_int v))
     else Err (runtime_failure ''integer does not fit in i32''))"

definition to_u32 :: "int \<Rightarrow> runtime_error + 'f rt_value" where
  "to_u32 v = (if 0 \<le> v \<and> v < 2 ^ 32 then Ok (VU32 (word_of_int v))
     else Err (runtime_failure ''integer does not fit in u32''))"

definition to_u64 :: "int \<Rightarrow> runtime_error + 'f rt_value" where
  "to_u64 v = (if 0 \<le> v \<and> v < 2 ^ 64 then Ok (VU64 (word_of_int v))
     else Err (runtime_failure ''integer does not fit in u64''))"

definition coerce_failure :: "'f platform \<Rightarrow> 'f rt_value \<Rightarrow> value_type \<Rightarrow> runtime_error" where
  "coerce_failure h v t = runtime_failure (''cannot coerce runtime value '' @ [CHR 0x60] @ display_value h v
     @ [CHR 0x60] @ '' to '' @ [CHR 0x60] @ value_type_name t @ [CHR 0x60])"

text \<open>The numeric rows of \<open>Value::coerce\<close>: the source value's integer, the target type.\<close>

definition coerce_integer :: "'f platform \<Rightarrow> 'f rt_value \<Rightarrow> int \<Rightarrow> value_type \<Rightarrow> runtime_error + 'f rt_value" where
  "coerce_integer h v n t = (case t of
       TyInt \<Rightarrow> to_i64 n
     | TyI32 \<Rightarrow> to_i32 n
     | TyU32 \<Rightarrow> to_u32 n
     | TyU64 \<Rightarrow> to_u64 n
     | TyFloat \<Rightarrow> Ok (VF64 (float_of_int h n))
     | _ \<Rightarrow> Err (coerce_failure h v t))"

definition coerce :: "'f platform \<Rightarrow> 'f rt_value \<Rightarrow> value_type \<Rightarrow> runtime_error + 'f rt_value" where
  "coerce h v t = (case v of
       VString _ \<Rightarrow> (case t of TyString \<Rightarrow> Ok v | _ \<Rightarrow> Err (coerce_failure h v t))
     | VChar _ \<Rightarrow> (case t of TyChar \<Rightarrow> Ok v | _ \<Rightarrow> Err (coerce_failure h v t))
     | VBool _ \<Rightarrow> (case t of TyBool \<Rightarrow> Ok v | _ \<Rightarrow> Err (coerce_failure h v t))
     | VArray _ \<Rightarrow> (case t of TyArray _ \<Rightarrow> Ok v | _ \<Rightarrow> Err (coerce_failure h v t))
     | VStruct _ _ \<Rightarrow> (case t of TyStruct _ _ \<Rightarrow> Ok v | _ \<Rightarrow> Err (coerce_failure h v t))
     | VEnum _ _ _ \<Rightarrow> (case t of TyEnum _ _ \<Rightarrow> Ok v | _ \<Rightarrow> Err (coerce_failure h v t))
     | VVoid \<Rightarrow> (case t of TyVoid \<Rightarrow> Ok VVoid | TyNever \<Rightarrow> Ok VVoid | _ \<Rightarrow> Err (coerce_failure h v t))
     | VI64 w \<Rightarrow> coerce_integer h v (sint w) t
     | VI32 w \<Rightarrow> coerce_integer h v (sint w) t
     | VU32 w \<Rightarrow> coerce_integer h v (uint w) t
     | VU64 w \<Rightarrow> coerce_integer h v (uint w) t
     | VF64 _ \<Rightarrow> (case t of TyFloat \<Rightarrow> Ok v | _ \<Rightarrow> Err (coerce_failure h v t)))"

text \<open>\<open>coerce_like\<close>: the type of the value that is replaced.\<close>

definition type_like :: "'f rt_value \<Rightarrow> value_type" where
  "type_like target = (case target of
       VString _ \<Rightarrow> TyString
     | VI64 _ \<Rightarrow> TyInt
     | VI32 _ \<Rightarrow> TyI32
     | VU32 _ \<Rightarrow> TyU32
     | VU64 _ \<Rightarrow> TyU64
     | VF64 _ \<Rightarrow> TyFloat
     | VChar _ \<Rightarrow> TyChar
     | VBool _ \<Rightarrow> TyBool
     | VArray _ \<Rightarrow> TyArray TyVoid
     | VStruct name _ \<Rightarrow> TyStruct name []
     | VEnum name _ _ \<Rightarrow> TyEnum name []
     | VVoid \<Rightarrow> TyVoid)"

definition coerce_like :: "'f platform \<Rightarrow> 'f rt_value \<Rightarrow> 'f rt_value \<Rightarrow> runtime_error + 'f rt_value" where
  "coerce_like h v target = coerce h v (type_like target)"

text \<open>\<open>set_array_path\<close>: the array with the element at the path of indices replaced.\<close>

fun set_array_path :: "'f platform \<Rightarrow> 'f rt_value \<Rightarrow> nat list \<Rightarrow> 'f rt_value \<Rightarrow> runtime_error + 'f rt_value" where
  "set_array_path h target [] v = Err (runtime_failure ''empty indexed assignment path'')"
| "set_array_path h target (i # rest) v = (case target of
       VArray vs \<Rightarrow>
         (if length vs \<le> i then Err (runtime_failure ''array index out of bounds'')
          else map_ok (\<lambda>slot. VArray (vs[i := slot]))
            (if rest = [] then coerce_like h v (vs ! i) else set_array_path h (vs ! i) rest v))
     | _ \<Rightarrow> Err (runtime_failure ''expected array''))"

section \<open>Numbers\<close>

definition is_f64 :: "'f rt_value \<Rightarrow> bool" where
  "is_f64 v = (case v of VF64 _ \<Rightarrow> True | _ \<Rightarrow> False)"
definition is_u64 :: "'f rt_value \<Rightarrow> bool" where
  "is_u64 v = (case v of VU64 _ \<Rightarrow> True | _ \<Rightarrow> False)"
definition is_u32 :: "'f rt_value \<Rightarrow> bool" where
  "is_u32 v = (case v of VU32 _ \<Rightarrow> True | _ \<Rightarrow> False)"
definition is_i32 :: "'f rt_value \<Rightarrow> bool" where
  "is_i32 v = (case v of VI32 _ \<Rightarrow> True | _ \<Rightarrow> False)"
definition is_i64 :: "'f rt_value \<Rightarrow> bool" where
  "is_i64 v = (case v of VI64 _ \<Rightarrow> True | _ \<Rightarrow> False)"

definition coerce_pair ::
  "'f platform \<Rightarrow> 'f rt_value \<Rightarrow> 'f rt_value \<Rightarrow> value_type \<Rightarrow> runtime_error + 'f rt_value \<times> 'f rt_value" where
  "coerce_pair h l r t = try_bind (coerce h l t) (\<lambda>l. try_bind (coerce h r t) (\<lambda>r. Ok (l, r)))"

definition numeric_pair ::
  "'f platform \<Rightarrow> 'f rt_value \<Rightarrow> 'f rt_value \<Rightarrow> runtime_error + 'f rt_value \<times> 'f rt_value" where
  "numeric_pair h l r =
     (if is_f64 l \<or> is_f64 r then coerce_pair h l r TyFloat
      else if is_u64 l \<or> is_u64 r then coerce_pair h l r TyU64
      else if is_u32 l \<or> is_u32 r then coerce_pair h l r TyU32
      else if is_i32 l \<or> is_i32 r then coerce_pair h l r TyI32
      else if is_i64 l \<and> is_i64 r then Ok (l, r)
      else Err (runtime_failure ''expected matching numeric values''))"

definition values_equal :: "'f platform \<Rightarrow> 'f rt_value \<Rightarrow> 'f rt_value \<Rightarrow> bool" where
  "values_equal h l r = (case numeric_pair h l r of
       Inr (l', r') \<Rightarrow> value_eq h l' r'
     | Inl _ \<Rightarrow> value_eq h l r)"

text \<open>\<open>compare_order\<close> at a type with the given order.\<close>

definition compare_order ::
  "('a \<Rightarrow> 'a \<Rightarrow> bool) \<Rightarrow> ('a \<Rightarrow> 'a \<Rightarrow> bool) \<Rightarrow> 'a \<Rightarrow> binary_op \<Rightarrow> 'a \<Rightarrow> runtime_error + bool" where
  "compare_order below below_eq l op r = (case op of
       OpLess \<Rightarrow> Ok (below l r)
     | OpLessEqual \<Rightarrow> Ok (below_eq l r)
     | OpGreater \<Rightarrow> Ok (below r l)
     | OpGreaterEqual \<Rightarrow> Ok (below_eq r l)
     | _ \<Rightarrow> Err (runtime_failure ''invalid comparison operator''))"

definition compare_values ::
  "'f platform \<Rightarrow> 'f rt_value \<Rightarrow> binary_op \<Rightarrow> 'f rt_value \<Rightarrow> runtime_error + bool" where
  "compare_values h l op r = try_bind (numeric_pair h l r) (\<lambda>pair. case pair of
       (VI64 a, VI64 b) \<Rightarrow> compare_order (\<lambda>x y. x <s y) (\<lambda>x y. x \<le>s y) a op b
     | (VI32 a, VI32 b) \<Rightarrow> compare_order (\<lambda>x y. x <s y) (\<lambda>x y. x \<le>s y) a op b
     | (VU32 a, VU32 b) \<Rightarrow> compare_order (<) (\<le>) a op b
     | (VU64 a, VU64 b) \<Rightarrow> compare_order (<) (\<le>) a op b
     | (VF64 a, VF64 b) \<Rightarrow> compare_order (float_less h) (float_less_eq h) a op b
     | _ \<Rightarrow> Err (runtime_failure ''values are not comparable''))"

text \<open>
  The trait \<open>CheckedInteger\<close> with its four instances: how the type reads its bits and how it shifts to
  the right. The checked operations of the standard library return the exact result when the type can
  represent it.
\<close>

datatype integer_impl = Signed | Unsigned

definition int_value :: "integer_impl \<Rightarrow> 'w::len word \<Rightarrow> int" where
  "int_value t w = (case t of Signed \<Rightarrow> sint w | Unsigned \<Rightarrow> uint w)"

definition shift_right :: "integer_impl \<Rightarrow> nat \<Rightarrow> 'w::len word \<Rightarrow> 'w word" where
  "shift_right t n w = (case t of Signed \<Rightarrow> signed_drop_bit n w | Unsigned \<Rightarrow> drop_bit n w)"

definition represent :: "integer_impl \<Rightarrow> int \<Rightarrow> 'w::len word option" where
  "represent t v = (let w = word_of_int v in if int_value t w = v then Some w else None)"

definition checked_div :: "integer_impl \<Rightarrow> 'w::len word \<Rightarrow> 'w word \<Rightarrow> 'w word option" where
  "checked_div t l r = (if r = 0 then None else represent t (int_value t l sdiv int_value t r))"

definition checked_rem :: "integer_impl \<Rightarrow> 'w::len word \<Rightarrow> 'w word \<Rightarrow> 'w word option" where
  "checked_rem t l r = (case checked_div t l r of
       None \<Rightarrow> None
     | Some _ \<Rightarrow> Some (word_of_int (int_value t l smod int_value t r)))"

text \<open>\<open>shift\<close>: the count as a \<open>u32\<close>; \<open>checked_shl\<close> and \<open>checked_shr\<close> fail when it reaches the width.\<close>

definition shift_count :: "integer_impl \<Rightarrow> 'w::len word \<Rightarrow> runtime_error + nat" where
  "shift_count t w = (let v = int_value t w in
     if 0 \<le> v \<and> v < 2 ^ 32 then Ok (nat v) else Err (runtime_failure ''invalid shift count''))"

definition checked_shl :: "'w::len word \<Rightarrow> nat \<Rightarrow> 'w word option" where
  "checked_shl w n = (if n < LENGTH('w) then Some (push_bit n w) else None)"

definition checked_shr :: "integer_impl \<Rightarrow> 'w::len word \<Rightarrow> nat \<Rightarrow> 'w word option" where
  "checked_shr t w n = (if n < LENGTH('w) then Some (shift_right t n w) else None)"

unbundle bit_operations_syntax

definition integer_operation ::
  "integer_impl \<Rightarrow> 'w::len word \<Rightarrow> binary_op \<Rightarrow> 'w word \<Rightarrow> runtime_error + 'w word" where
  "integer_operation t l op r =
     (let overflow = runtime_failure ''integer overflow or division by zero'' in
      case op of
        OpAdd \<Rightarrow> ok_or overflow (represent t (int_value t l + int_value t r))
      | OpSubtract \<Rightarrow> ok_or overflow (represent t (int_value t l - int_value t r))
      | OpMultiply \<Rightarrow> ok_or overflow (represent t (int_value t l * int_value t r))
      | OpDivide \<Rightarrow> ok_or overflow (checked_div t l r)
      | OpRemainder \<Rightarrow> ok_or overflow (checked_rem t l r)
      | OpShiftLeft \<Rightarrow> try_bind (shift_count t r) (\<lambda>n. ok_or overflow (checked_shl l n))
      | OpShiftRight \<Rightarrow> try_bind (shift_count t r) (\<lambda>n. ok_or overflow (checked_shr t l n))
      | OpBitOr \<Rightarrow> Ok (l OR r)
      | OpBitXor \<Rightarrow> Ok (l XOR r)
      | OpBitAnd \<Rightarrow> Ok (l AND r)
      | OpBitAndNot \<Rightarrow> Ok (l AND NOT r)
      | _ \<Rightarrow> Err (runtime_failure ''invalid integer operator''))"

definition float_operation :: "'f platform \<Rightarrow> 'f \<Rightarrow> binary_op \<Rightarrow> 'f \<Rightarrow> runtime_error + 'f" where
  "float_operation h l op r =
     (if op \<in> {OpAdd, OpSubtract, OpMultiply, OpDivide, OpRemainder} then Ok (float_arith h op l r)
      else Err (runtime_failure ''invalid floating-point operator''))"

definition numeric_operation ::
  "'f platform \<Rightarrow> 'f rt_value \<Rightarrow> binary_op \<Rightarrow> 'f rt_value \<Rightarrow> runtime_error + 'f rt_value" where
  "numeric_operation h l op r = try_bind (numeric_pair h l r) (\<lambda>pair. case pair of
       (VI64 a, VI64 b) \<Rightarrow> map_ok VI64 (integer_operation Signed a op b)
     | (VI32 a, VI32 b) \<Rightarrow> map_ok VI32 (integer_operation Signed a op b)
     | (VU32 a, VU32 b) \<Rightarrow> map_ok VU32 (integer_operation Unsigned a op b)
     | (VU64 a, VU64 b) \<Rightarrow> map_ok VU64 (integer_operation Unsigned a op b)
     | (VF64 a, VF64 b) \<Rightarrow> map_ok VF64 (float_operation h a op b)
     | _ \<Rightarrow> Err (runtime_failure ''expected matching numeric values''))"

definition wrapping_operation :: "'w::len word \<Rightarrow> binary_op \<Rightarrow> 'w word \<Rightarrow> runtime_error + 'w word" where
  "wrapping_operation l op r = (case op of
       OpAdd \<Rightarrow> Ok (l + r)
     | OpSubtract \<Rightarrow> Ok (l - r)
     | OpMultiply \<Rightarrow> Ok (l * r)
     | _ \<Rightarrow> Err (runtime_failure ''wrapping arithmetic supports add, subtract, and multiply''))"

definition wrapping_numeric_operation ::
  "'f platform \<Rightarrow> 'f rt_value \<Rightarrow> binary_op \<Rightarrow> 'f rt_value \<Rightarrow> runtime_error + 'f rt_value" where
  "wrapping_numeric_operation h l op r = try_bind (numeric_pair h l r) (\<lambda>pair. case pair of
       (VI64 a, VI64 b) \<Rightarrow> map_ok VI64 (wrapping_operation a op b)
     | (VI32 a, VI32 b) \<Rightarrow> map_ok VI32 (wrapping_operation a op b)
     | (VU32 a, VU32 b) \<Rightarrow> map_ok VU32 (wrapping_operation a op b)
     | (VU64 a, VU64 b) \<Rightarrow> map_ok VU64 (wrapping_operation a op b)
     | _ \<Rightarrow> Err (runtime_failure ''wrapping arithmetic requires matching integer values''))"

text \<open>\<open>checked_neg\<close> and \<open>checked_abs\<close> of a signed integer.\<close>

definition checked_neg :: "'w::len word \<Rightarrow> runtime_error + 'w word" where
  "checked_neg w = ok_or (runtime_failure ''integer overflow'') (represent Signed (- sint w))"

definition checked_abs :: "'w::len word \<Rightarrow> runtime_error + 'w word" where
  "checked_abs w = ok_or (runtime_failure ''integer overflow'') (represent Signed \<bar>sint w\<bar>)"

definition unary_operation :: "'f platform \<Rightarrow> unary_op \<Rightarrow> 'f rt_value \<Rightarrow> runtime_error + 'f rt_value" where
  "unary_operation h op v = (case (op, v) of
       (OpNot, VBool b) \<Rightarrow> Ok (VBool (\<not> b))
     | (OpNegate, VI64 w) \<Rightarrow> map_ok VI64 (checked_neg w)
     | (OpNegate, VI32 w) \<Rightarrow> map_ok VI32 (checked_neg w)
     | (OpNegate, VF64 x) \<Rightarrow> Ok (VF64 (float_neg h x))
     | _ \<Rightarrow> Err (runtime_failure ''invalid unary operand''))"

definition math_unary ::
  "'f platform \<Rightarrow> math_unary_function \<Rightarrow> 'f rt_value \<Rightarrow> runtime_error + 'f rt_value" where
  "math_unary h op v = (case v of
       VF64 x \<Rightarrow> Ok (VF64 (float_unary h op x))
     | VI64 w \<Rightarrow> (if op = MathAbs then map_ok VI64 (checked_abs w)
         else Err (runtime_failure ''invalid math operand''))
     | VI32 w \<Rightarrow> (if op = MathAbs then map_ok VI32 (checked_abs w)
         else Err (runtime_failure ''invalid math operand''))
     | VU32 _ \<Rightarrow> (if op = MathAbs then Ok v else Err (runtime_failure ''invalid math operand''))
     | VU64 _ \<Rightarrow> (if op = MathAbs then Ok v else Err (runtime_failure ''invalid math operand''))
     | _ \<Rightarrow> Err (runtime_failure ''invalid math operand''))"

text \<open>The macro \<open>min_max\<close> at a type with the given order.\<close>

definition min_max ::
  "('a \<Rightarrow> 'a \<Rightarrow> bool) \<Rightarrow> math_binary_function \<Rightarrow> 'a \<Rightarrow> 'a \<Rightarrow> runtime_error + 'a" where
  "min_max below_eq op l r = (case op of
       MathMin \<Rightarrow> Ok (if below_eq l r then l else r)
     | MathMax \<Rightarrow> Ok (if below_eq l r then r else l)
     | MathPow \<Rightarrow> Err (runtime_failure ''math.pow requires f64 operands''))"

definition math_binary ::
  "'f platform \<Rightarrow> math_binary_function \<Rightarrow> 'f rt_value \<Rightarrow> 'f rt_value \<Rightarrow> runtime_error + 'f rt_value" where
  "math_binary h op l r = (case (l, r) of
       (VI64 a, VI64 b) \<Rightarrow> map_ok VI64 (min_max (\<lambda>x y. x \<le>s y) op a b)
     | (VI32 a, VI32 b) \<Rightarrow> map_ok VI32 (min_max (\<lambda>x y. x \<le>s y) op a b)
     | (VU32 a, VU32 b) \<Rightarrow> map_ok VU32 (min_max (\<le>) op a b)
     | (VU64 a, VU64 b) \<Rightarrow> map_ok VU64 (min_max (\<le>) op a b)
     | (VF64 a, VF64 b) \<Rightarrow> Ok (VF64 (float_binary h op a b))
     | _ \<Rightarrow> Err (runtime_failure ''math operation requires matching numeric operands''))"

text \<open>\<open>str::parse::<u64>\<close>: an optional plus sign and decimal digits, in range.\<close>

definition parse_u64 :: "string \<Rightarrow> nat option" where
  "parse_u64 s =
     (let digits = (if s \<noteq> [] \<and> hd s = CHR ''+'' then tl s else s)
      in if digits = [] \<or> \<not> list_all is_ascii_digit digits then None
         else if digits_value digits < 2 ^ 64 then Some (digits_value digits) else None)"

end
