(* ===== verification/Interp_Host.thy ===== *)
theory Interp_Host
  imports Interp_Value
begin

text \<open>
  The values that stand for the standard library's types in the browser interpreter: options and results,
  the errors of the capabilities that the sandbox does not have, and the structs that carry JSON texts,
  JSON-RPC decoders and messages, and cron schedules, with the readers that take them apart.
\<close>

section \<open>Options and results\<close>

definition option_value :: "'f rt_value option \<Rightarrow> 'f rt_value" where
  "option_value payload =
     VEnum ''Option'' (if payload \<noteq> None then ''Some'' else ''None'') payload"

text \<open>The error side of \<open>Result<Value, Value>\<close> is a value too.\<close>

definition result_value :: "string \<Rightarrow> 'f rt_value + 'f rt_value \<Rightarrow> 'f rt_value" where
  "result_value name r = (case r of
       Inr v \<Rightarrow> VEnum name ''Ok'' (Some v)
     | Inl v \<Rightarrow> VEnum name ''Err'' (Some v))"

section \<open>Unavailable capabilities\<close>

definition task_runtime_unavailable_result :: "unit \<Rightarrow> 'f rt_value" where
  "task_runtime_unavailable_result _ = VEnum ''Result'' ''Err'' (Some (VStruct ''TaskError'' (fields_of
     [(''code'', VString ''runtime_unavailable''),
      (''message'', VString ''native tasks are unavailable in the browser sandbox'')])))"

definition net_runtime_unavailable_result :: "unit \<Rightarrow> 'f rt_value" where
  "net_runtime_unavailable_result _ = VEnum ''Result'' ''Err'' (Some (VStruct ''NetError'' (fields_of
     [(''kind'', VEnum ''NetErrorKind'' ''Unsupported'' None),
      (''message'', VString ''raw TCP is unavailable in the browser sandbox'')])))"

definition task_timer_runtime_unavailable_result :: "unit \<Rightarrow> 'f rt_value" where
  "task_timer_runtime_unavailable_result _ = VEnum ''Result'' ''Err'' (Some (VStruct ''TaskError'' (fields_of
     [(''code'', VString ''runtime_unavailable''),
      (''message'', VString ''host-driven timers are unavailable in the browser sandbox'')])))"

definition channel_error_value :: "string \<Rightarrow> string \<Rightarrow> 'f rt_value" where
  "channel_error_value code message = VStruct ''ChannelError'' (fields_of
     [(''code'', VString code), (''message'', VString message)])"

definition channel_runtime_unavailable_result :: "unit \<Rightarrow> 'f rt_value" where
  "channel_runtime_unavailable_result _ = VEnum ''Result'' ''Err'' (Some
     (channel_error_value ''runtime_unavailable'' ''channels are unavailable in the browser sandbox''))"

definition sqlite_runtime_error_result :: "string \<Rightarrow> 'f rt_value" where
  "sqlite_runtime_error_result code =
     (let message = (if code = ''runtime_unavailable'' then ''SQLite is unavailable in the browser sandbox''
        else ''SQLite handle is closed'')
      in VEnum ''Result'' ''Err'' (Some (VStruct ''SqliteError'' (fields_of
           [(''code'', VString code), (''message'', VString message), (''native_code'', VI64 0)]))))"

section \<open>JSON\<close>

definition json_host_value :: "string \<Rightarrow> 'f rt_value" where
  "json_host_value raw = VStruct ''JsonValue'' (fields_of [(''raw'', VString raw)])"

definition json_error_value :: "json_error \<Rightarrow> 'f rt_value" where
  "json_error_value e = VStruct ''JsonError'' (fields_of
     [(''code'', VString (je_code e)), (''message'', VString (je_message e)),
      (''offset'', VU64 (of_nat (je_offset e)))])"

text \<open>A field of a struct with the given name, which must be a string.\<close>

definition string_field :: "string \<Rightarrow> string \<Rightarrow> 'f rt_value \<Rightarrow> runtime_error + string" where
  "string_field name field v = (case v of
       VStruct found fs \<Rightarrow>
         (if found \<noteq> name then Err (runtime_failure (''expected a '' @ name))
          else try_bind (ok_or (runtime_failure (name @ '' has no '' @ field @ '' field'')) (bt_get fs field)) as_string)
     | _ \<Rightarrow> Err (runtime_failure (''expected a '' @ name)))"

definition json_raw :: "'f rt_value \<Rightarrow> runtime_error + string" where
  "json_raw v = string_field ''JsonValue'' ''raw'' v"

definition json_member_value :: "string \<Rightarrow> string \<Rightarrow> 'f rt_value" where
  "json_member_value key raw = VStruct ''JsonMember'' (fields_of
     [(''key'', VString key), (''value'', json_host_value raw)])"

definition json_member_parts :: "'f rt_value \<Rightarrow> runtime_error + string \<times> string" where
  "json_member_parts v = (case v of
       VStruct name fs \<Rightarrow>
         (if name \<noteq> ''JsonMember'' then Err (runtime_failure ''expected a JsonMember'')
          else
            try_bind (ok_or (runtime_failure ''JsonMember has no key field'') (bt_get fs ''key'')) (\<lambda>key.
            try_bind (as_string key) (\<lambda>key.
            try_bind (ok_or (runtime_failure ''JsonMember has no value field'') (bt_get fs ''value'')) (\<lambda>w.
            map_ok (\<lambda>raw. (key, raw)) (json_raw w)))))
     | _ \<Rightarrow> Err (runtime_failure ''expected a JsonMember''))"

definition json_kind_value :: "json_kind \<Rightarrow> 'f rt_value" where
  "json_kind_value k = VEnum ''JsonKind'' (case k of
       KindNull \<Rightarrow> ''Null''
     | KindBoolean \<Rightarrow> ''Boolean''
     | KindNumber \<Rightarrow> ''Number''
     | KindString \<Rightarrow> ''String''
     | KindArray \<Rightarrow> ''Array''
     | KindObject \<Rightarrow> ''Object'') None"

definition optional_json_raw :: "'f rt_value \<Rightarrow> runtime_error + string option" where
  "optional_json_raw v = (case v of
       VEnum name variant payload \<Rightarrow>
         (if name \<noteq> ''Option'' then Err (runtime_failure ''expected an Option<JsonValue>'')
          else if variant = ''None'' \<and> payload = None then Ok None
          else case payload of
              Some w \<Rightarrow> (if variant = ''Some'' then map_ok Some (json_raw w)
                else Err (runtime_failure ''invalid Option<JsonValue>''))
            | None \<Rightarrow> Err (runtime_failure ''invalid Option<JsonValue>''))
     | _ \<Rightarrow> Err (runtime_failure ''expected an Option<JsonValue>''))"

section \<open>Cron\<close>

definition cron_error_value :: "cron_error \<Rightarrow> 'f rt_value" where
  "cron_error_value e = VStruct ''CronError'' (fields_of
     [(''code'', VString (ce_code e)), (''message'', VString (ce_message e)),
      (''field'', VU64 (of_nat (ce_field e)))])"

definition cron_schedule_value :: "string \<Rightarrow> 'f rt_value" where
  "cron_schedule_value expression = VStruct ''CronSchedule'' (fields_of [(''expression'', VString expression)])"

definition cron_expression :: "'f rt_value \<Rightarrow> runtime_error + string" where
  "cron_expression v = string_field ''CronSchedule'' ''expression'' v"

section \<open>JSON-RPC\<close>

definition jsonrpc_error_value :: "protocol_error \<Rightarrow> 'f rt_value" where
  "jsonrpc_error_value e = VStruct ''JsonRpcProtocolError'' (fields_of
     [(''code'', VString (pe_code e)), (''message'', VString (pe_message e))])"

definition jsonrpc_message_value :: "string \<Rightarrow> 'f rt_value" where
  "jsonrpc_message_value raw = VStruct ''JsonRpcMessage'' (fields_of [(''raw'', VString raw)])"

definition jsonrpc_raw :: "'f rt_value \<Rightarrow> runtime_error + string" where
  "jsonrpc_raw v = string_field ''JsonRpcMessage'' ''raw'' v"

definition jsonrpc_decoder_value :: "decoder \<Rightarrow> 'f rt_value" where
  "jsonrpc_decoder_value d = VStruct ''JsonRpcDecoder'' (fields_of
     [(''pending'', VString (dec_pending d)), (''max_message_bytes'', VU64 (of_nat (dec_limit d)))])"

definition jsonrpc_decoder_parts :: "'f rt_value \<Rightarrow> runtime_error + decoder" where
  "jsonrpc_decoder_parts v = (case v of
       VStruct name fs \<Rightarrow>
         (if name \<noteq> ''JsonRpcDecoder'' then Err (runtime_failure ''expected a JsonRpcDecoder'')
          else
            try_bind (ok_or (runtime_failure ''JsonRpcDecoder has no pending field'') (bt_get fs ''pending'')) (\<lambda>p.
            try_bind (as_string p) (\<lambda>pending.
            case bt_get fs ''max_message_bytes'' of
              Some (VU64 limit) \<Rightarrow> Ok \<lparr>dec_pending = pending, dec_limit = unat limit\<rparr>
            | _ \<Rightarrow> Err (runtime_failure ''JsonRpcDecoder has no u64 message limit''))))
     | _ \<Rightarrow> Err (runtime_failure ''expected a JsonRpcDecoder''))"

definition jsonrpc_batch_value :: "decode_batch \<Rightarrow> 'f rt_value" where
  "jsonrpc_batch_value b = VStruct ''JsonRpcDecodeBatch'' (fields_of
     [(''decoder'', jsonrpc_decoder_value (batch_decoder b)),
      (''messages'', VArray (map jsonrpc_message_value (batch_messages b)))])"

definition jsonrpc_kind_value :: "message_kind \<Rightarrow> 'f rt_value" where
  "jsonrpc_kind_value k = VEnum ''JsonRpcMessageKind'' (case k of
       Request \<Rightarrow> ''Request''
     | Notification \<Rightarrow> ''Notification''
     | Success \<Rightarrow> ''Success''
     | ErrorResponse \<Rightarrow> ''Error'') None"

text \<open>The conversions back are inverse to the constructors.\<close>

lemma bt_get_fields_of:
  "bt_get (fields_of entries) k = map_of (rev entries) k"
proof -
  have "bt_wf (fold (\<lambda>(k, v). bt_insert k v) entries m)
      \<and> bt_get (fold (\<lambda>(k, v). bt_insert k v) entries m) k
        = (case map_of (rev entries) k of None \<Rightarrow> bt_get m k | Some v \<Rightarrow> Some v)"
    if "bt_wf m" for m :: "(string \<times> 'a) list"
    using that
  proof (induction entries arbitrary: m)
    case (Cons e entries)
    then show ?case
      by (cases e) (auto simp: bt_laws map_add_def split: option.splits)
  qed simp
  then show ?thesis
    by (simp add: fields_of_def bt_laws(3) split: option.splits)
qed

lemma json_raw_value [simp]: "json_raw (json_host_value raw) = Ok raw"
  by (simp add: json_raw_def json_host_value_def string_field_def bt_get_fields_of)

lemma json_member_parts_value [simp]: "json_member_parts (json_member_value key raw) = Ok (key, raw)"
  by (simp add: json_member_parts_def json_member_value_def bt_get_fields_of)

lemma cron_expression_value [simp]: "cron_expression (cron_schedule_value expression) = Ok expression"
  by (simp add: cron_expression_def cron_schedule_value_def string_field_def bt_get_fields_of)

lemma jsonrpc_raw_value [simp]: "jsonrpc_raw (jsonrpc_message_value raw) = Ok raw"
  by (simp add: jsonrpc_raw_def jsonrpc_message_value_def string_field_def bt_get_fields_of)

lemma jsonrpc_decoder_parts_value:
  "dec_limit d < 2 ^ 64 \<Longrightarrow> jsonrpc_decoder_parts (jsonrpc_decoder_value d) = Ok d"
  by (simp add: jsonrpc_decoder_parts_def jsonrpc_decoder_value_def bt_get_fields_of unat_of_nat
      take_bit_nat_eq_self)

lemma optional_json_raw_value [simp]:
  "optional_json_raw (option_value (map_option json_host_value raw)) = Ok raw"
  by (cases raw) (simp_all add: optional_json_raw_def option_value_def)

end
