(* ===== verification/Interp_Machine.thy ===== *)
theory Interp_Machine
  imports Interp_Host
begin

text \<open>
  The machine of \<open>crates/nomo_wasm/src/interpreter.rs\<close>. The struct \<open>Interpreter\<close> is split into its
  immutable fields, which with the platform are the record \<open>session\<close>, and its mutable ones, the record
  \<open>machine\<close>.

  A method of the interpreter is a \<open>run\<close>: from a machine to its result and the machine it leaves behind.
  An error keeps the machine at the point where it was raised, because the caller still reads the steps
  and the output from it. The result \<open>None\<close> stands for fuel exhausted in the recursion of the model;
  \<open>Interp_Termination\<close> shows that it does not occur with the fuel that \<open>run_main\<close> takes.
\<close>

section \<open>State\<close>

datatype interruption =
    Failure runtime_error
  | Panicked

record 'f session =
  ses_program :: program
  ses_limits :: execution_limits
  ses_platform :: "'f platform"

type_synonym 'f frame = "string \<rightharpoonup> 'f rt_value"

record 'f machine =
  mc_steps :: u64
  mc_stdout :: string
  mc_stderr :: string
  mc_globals :: "'f frame"
  mc_frames :: "'f frame list"

text \<open>\<open>Interpreter::new\<close>.\<close>

definition new_machine :: "'f session \<Rightarrow> 'f machine" where
  "new_machine cx = \<lparr>mc_steps = 0, mc_stdout = [], mc_stderr = [], mc_globals = Map.empty, mc_frames = []\<rparr>"

type_synonym ('f, 'a) run = "'f machine \<Rightarrow> ((interruption + 'a) \<times> 'f machine) option"

section \<open>Runs\<close>

definition ret :: "'a \<Rightarrow> ('f, 'a) run" where
  "ret x = (\<lambda>m. Some (Ok x, m))"

definition raise :: "runtime_error \<Rightarrow> ('f, 'a) run" where
  "raise e = (\<lambda>m. Some (Err (Failure e), m))"

definition panic :: "('f, 'a) run" where
  "panic = (\<lambda>m. Some (Err Panicked, m))"

definition out_of_fuel :: "('f, 'a) run" where
  "out_of_fuel = (\<lambda>m. None)"

text \<open>A call followed by the question mark operator and the rest of the method.\<close>

definition and_then :: "('f, 'a) run \<Rightarrow> ('a \<Rightarrow> ('f, 'b) run) \<Rightarrow> ('f, 'b) run" where
  "and_then c k = (\<lambda>m. case c m of
       None \<Rightarrow> None
     | Some (Inl e, m') \<Rightarrow> Some (Inl e, m')
     | Some (Inr x, m') \<Rightarrow> k x m')"

text \<open>A fallible function of values inside a method, and the two accesses of the state.\<close>

definition lift :: "runtime_error + 'a \<Rightarrow> ('f, 'a) run" where
  "lift r = (case r of Inl e \<Rightarrow> raise e | Inr x \<Rightarrow> ret x)"

definition inspect :: "('f machine \<Rightarrow> 'a) \<Rightarrow> ('f, 'a) run" where
  "inspect f = (\<lambda>m. Some (Ok (f m), m))"

definition update :: "('f machine \<Rightarrow> 'f machine) \<Rightarrow> ('f, unit) run" where
  "update f = (\<lambda>m. Some (Ok (), f m))"

fun run_map :: "('a \<Rightarrow> ('f, 'b) run) \<Rightarrow> 'a list \<Rightarrow> ('f, 'b list) run" where
  "run_map f [] = ret []"
| "run_map f (x # xs) = and_then (f x) (\<lambda>y. and_then (run_map f xs) (\<lambda>ys. ret (y # ys)))"

lemma lift_simps [simp]:
  "lift (Inl e) = raise e"
  "lift (Inr x) = ret x"
  by (simp_all add: lift_def)

lemma and_then_ret [simp]: "and_then (ret x) k = k x"
  by (simp add: and_then_def ret_def)

lemma and_then_raise [simp]: "and_then (raise e) k = raise e"
  by (simp add: and_then_def raise_def)

section \<open>Fuel and output\<close>

text \<open>\<open>u64::saturating_add(1)\<close>.\<close>

definition saturating_inc :: "u64 \<Rightarrow> u64" where
  "saturating_inc w = (if w = - 1 then w else w + 1)"

definition tick :: "'f session \<Rightarrow> ('f, unit) run" where
  "tick cx =
     and_then (update (\<lambda>m. m\<lparr>mc_steps := saturating_inc (mc_steps m)\<rparr>)) (\<lambda>_.
     and_then (inspect mc_steps) (\<lambda>steps.
       if max_steps (ses_limits cx) < steps then raise fuel_error else ret ()))"

definition output_bytes :: "'f machine \<Rightarrow> nat" where
  "output_bytes m = length (mc_stdout m) + length (mc_stderr m)"

definition write_output :: "'f session \<Rightarrow> 'f rt_value \<Rightarrow> bool \<Rightarrow> bool \<Rightarrow> ('f, unit) run" where
  "write_output cx v ends_line to_stderr =
     (let rendered = display_value (ses_platform cx) v;
          added = length rendered + (if ends_line then 1 else 0);
          written = rendered @ (if ends_line then [CHR 0x0A] else [])
      in and_then (inspect output_bytes) (\<lambda>present.
           if unat (max_output_bytes (ses_limits cx)) < saturating_add_u64 present added then raise output_error
           else update (\<lambda>m. if to_stderr then m\<lparr>mc_stderr := mc_stderr m @ written\<rparr>
             else m\<lparr>mc_stdout := mc_stdout m @ written\<rparr>)))"

definition write_stdout :: "'f session \<Rightarrow> 'f rt_value \<Rightarrow> bool \<Rightarrow> ('f, unit) run" where
  "write_stdout cx v ends_line = write_output cx v ends_line False"

definition write_stderr :: "'f session \<Rightarrow> 'f rt_value \<Rightarrow> bool \<Rightarrow> ('f, unit) run" where
  "write_stderr cx v ends_line = write_output cx v ends_line True"

section \<open>Variables\<close>

definition quote_name :: "string \<Rightarrow> string" where
  "quote_name name = [CHR 0x60] @ name @ [CHR 0x60]"

definition unknown_variable :: "string \<Rightarrow> runtime_error" where
  "unknown_variable name = runtime_failure (''unknown runtime variable '' @ quote_name name)"

definition unknown_field :: "string \<Rightarrow> runtime_error" where
  "unknown_field field = runtime_failure (''unknown runtime field '' @ quote_name field)"

definition current_frame :: "('f, 'f frame) run" where
  "current_frame = and_then (inspect mc_frames) (\<lambda>frames.
     if frames = [] then raise (runtime_failure ''no active function frame'') else ret (last frames))"

text \<open>\<open>current_frame_mut\<close> and the insertion into it.\<close>

definition insert_variable :: "string \<Rightarrow> 'f rt_value \<Rightarrow> ('f, unit) run" where
  "insert_variable name v = and_then current_frame (\<lambda>frame.
     update (\<lambda>m. m\<lparr>mc_frames := butlast (mc_frames m) @ [frame(name \<mapsto> v)]\<rparr>))"

definition get_variable :: "string \<Rightarrow> ('f, 'f rt_value) run" where
  "get_variable name = and_then current_frame (\<lambda>frame. and_then (inspect mc_globals) (\<lambda>globals.
     lift (ok_or (unknown_variable name) (case frame name of Some v \<Rightarrow> Some v | None \<Rightarrow> globals name))))"

definition set_variable :: "'f session \<Rightarrow> string \<Rightarrow> 'f rt_value \<Rightarrow> ('f, unit) run" where
  "set_variable cx name v = and_then current_frame (\<lambda>frame.
     and_then (lift (ok_or (unknown_variable name) (frame name))) (\<lambda>target.
     and_then (lift (coerce_like (ses_platform cx) v target)) (\<lambda>v.
       insert_variable name v)))"

text \<open>The loop of \<open>get_path\<close> over the fields.\<close>

fun walk_fields :: "'f rt_value \<Rightarrow> string list \<Rightarrow> runtime_error + 'f rt_value" where
  "walk_fields v [] = Ok v"
| "walk_fields v (field # path) = (case v of
       VStruct _ fs \<Rightarrow> try_bind (ok_or (unknown_field field) (bt_get fs field)) (\<lambda>w. walk_fields w path)
     | _ \<Rightarrow> Err (runtime_failure (quote_name field @ '' is not a field on this runtime value'')))"

definition get_path :: "string list \<Rightarrow> ('f, 'f rt_value) run" where
  "get_path path = (case path of
       [] \<Rightarrow> raise (runtime_failure ''empty runtime path'')
     | name # field_names \<Rightarrow> and_then (get_variable name) (\<lambda>v. lift (walk_fields v field_names)))"

text \<open>The replacement of one field of a struct value, which \<open>set_path\<close> and \<open>set_path_in_frame\<close> share.\<close>

definition set_field ::
  "'f platform \<Rightarrow> string \<Rightarrow> 'f rt_value \<Rightarrow> string \<Rightarrow> 'f rt_value \<Rightarrow> runtime_error + 'f rt_value" where
  "set_field h name base field v = (case base of
       VStruct found fs \<Rightarrow>
         try_bind (ok_or (unknown_field field) (bt_get fs field)) (\<lambda>target.
           map_ok (\<lambda>w. VStruct found (bt_insert field w fs)) (coerce_like h v target))
     | _ \<Rightarrow> Err (runtime_failure (quote_name name @ '' is not a struct value'')))"

definition deep_path :: runtime_error where
  "deep_path = runtime_failure ''nested runtime paths deeper than one field are unsupported''"

definition set_path :: "'f session \<Rightarrow> string list \<Rightarrow> 'f rt_value \<Rightarrow> ('f, unit) run" where
  "set_path cx path v = (case path of
       [name] \<Rightarrow> set_variable cx name v
     | [name, field] \<Rightarrow> and_then (get_variable name) (\<lambda>base.
         and_then (lift (set_field (ses_platform cx) name base field v)) (\<lambda>base.
           insert_variable name base))
     | _ \<Rightarrow> raise deep_path)"

definition set_path_in_frame ::
  "'f platform \<Rightarrow> 'f frame \<Rightarrow> string list \<Rightarrow> 'f rt_value \<Rightarrow> runtime_error + 'f frame" where
  "set_path_in_frame h frame path v = (case path of
       [name] \<Rightarrow> try_bind (ok_or (unknown_variable name) (frame name)) (\<lambda>target.
         map_ok (\<lambda>w. frame(name \<mapsto> w)) (coerce_like h v target))
     | [name, field] \<Rightarrow> try_bind (ok_or (unknown_variable name) (frame name)) (\<lambda>base.
         map_ok (\<lambda>w. frame(name \<mapsto> w)) (set_field h name base field v))
     | _ \<Rightarrow> Err deep_path)"

section \<open>Frames of calls\<close>

definition push_frame :: "'f frame \<Rightarrow> ('f, unit) run" where
  "push_frame frame = update (\<lambda>m. m\<lparr>mc_frames := mc_frames m @ [frame]\<rparr>)"

definition pop_frame :: "('f, 'f frame) run" where
  "pop_frame = and_then (inspect mc_frames) (\<lambda>frames.
     if frames = [] then raise (runtime_failure ''function frame disappeared'')
     else and_then (update (\<lambda>m. m\<lparr>mc_frames := butlast (mc_frames m)\<rparr>)) (\<lambda>_. ret (last frames)))"

text \<open>\<open>set_path_in_frame\<close> on the frame with the given index; an index out of range panics.\<close>

definition set_path_at :: "'f session \<Rightarrow> nat \<Rightarrow> string list \<Rightarrow> 'f rt_value \<Rightarrow> ('f, unit) run" where
  "set_path_at cx i path v = and_then (inspect mc_frames) (\<lambda>frames.
     if length frames \<le> i then panic
     else and_then (lift (set_path_in_frame (ses_platform cx) (frames ! i) path v)) (\<lambda>frame.
       update (\<lambda>m. m\<lparr>mc_frames := (mc_frames m)[i := frame]\<rparr>)))"

text \<open>The mutable parameters of a returned call are copied back to the caller's places.\<close>

fun write_back ::
  "'f session \<Rightarrow> 'f frame \<Rightarrow> nat \<Rightarrow> (string \<times> string list) list \<Rightarrow> ('f, unit) run" where
  "write_back cx final_frame i [] = ret ()"
| "write_back cx final_frame i ((name, path) # writebacks) =
     and_then (lift (ok_or (runtime_failure (''missing mutable parameter '' @ quote_name name)) (final_frame name)))
       (\<lambda>v. and_then (set_path_at cx i path v) (\<lambda>_. write_back cx final_frame i writebacks))"

end
