(* ===== verification/Interp_Calls.thy ===== *)
theory Interp_Calls
  imports Interp_Machine
begin

text \<open>
  The methods of the interpreter that call back into the evaluation of expressions and the execution of
  blocks, except the two walks themselves: \<open>call_function\<close>, \<open>eval_json_structured\<close>, \<open>eval_jsonrpc\<close>,
  \<open>eval_cron\<close> and \<open>eval_binary\<close>. Each takes the evaluation of an expression (\<open>ev\<close>) and the execution of a
  block (\<open>blk\<close>) as arguments; \<open>Interp_Eval\<close> ties the knot.
\<close>

type_synonym 'f evaluator = "value_expr \<Rightarrow> ('f, 'f rt_value) run"

datatype 'f signal =
    SigNext
  | SigReturn "'f rt_value"
  | SigBreak
  | SigContinue

definition is_next :: "'f signal \<Rightarrow> bool" where
  "is_next s = (case s of SigNext \<Rightarrow> True | _ \<Rightarrow> False)"

section \<open>Function calls\<close>

text \<open>The names that \<open>call_function\<close> answers without a function of the program: a result, an error, or the
  evaluation of the first argument.\<close>

datatype 'f builtin =
    BuiltinValue "'f rt_value"
  | BuiltinError runtime_error
  | BuiltinFirstArgument

definition builtin_call :: "string \<Rightarrow> 'f builtin option" where
  "builtin_call name =
     (if starts_with ''__nomo_http_'' name then Some (BuiltinError (capability_error ''network''))
      else if starts_with ''__nomo_process_'' name then Some (BuiltinError (capability_error ''process''))
      else if name \<in> {''__nomo_net_connect_async'', ''__nomo_tcp_stream_shutdown_write''}
        then Some (BuiltinValue (net_runtime_unavailable_result ()))
      else if name = ''__nomo_task_publication_move'' then Some BuiltinFirstArgument
      else if name = ''__nomo_task_spawn'' then Some (BuiltinValue (task_runtime_unavailable_result ()))
      else if starts_with ''__nomo_structured_task_spawn::'' name
        then Some (BuiltinValue (VStruct ''Task'' (fields_of [(''handle'', VU64 0)])))
      else if name = ''__nomo_structured_task_cancel'' then Some (BuiltinValue VVoid)
      else if name \<in> {''__nomo_task_join'', ''__nomo_structured_task_join'', ''__nomo_structured_task_cancel_join'',
          ''__nomo_task_cancel'', ''__nomo_task_close''}
        then Some (BuiltinValue (task_runtime_unavailable_result ()))
      else if name = ''__nomo_task_is_cancelled'' then Some (BuiltinError (capability_error ''native tasks''))
      else if name = ''__nomo_task_yield'' then Some (BuiltinValue VVoid)
      else if name = ''__nomo_task_deadline_enter'' then Some (BuiltinError (capability_error ''task deadlines''))
      else if name \<in> {''__nomo_task_deadline_exit'', ''__nomo_task_check_cancelled''}
        then Some (BuiltinValue VVoid)
      else if name = ''__nomo_task_sleep'' then Some (BuiltinValue (task_timer_runtime_unavailable_result ()))
      else if starts_with ''__nomo_task_channel::'' name
        then Some (BuiltinValue (channel_runtime_unavailable_result ()))
      else if starts_with ''__nomo_task_send::'' name \<or> starts_with ''__nomo_task_receive::'' name
          \<or> starts_with ''__nomo_task_try_send::'' name \<or> starts_with ''__nomo_task_try_receive::'' name
          \<or> starts_with ''__nomo_task_close_channel::'' name
        then Some (BuiltinError (capability_error ''channels''))
      else if starts_with ''__nomo_sqlite_'' name
        then Some (BuiltinValue (sqlite_runtime_error_result
          (if name \<in> {''__nomo_sqlite_open'', ''__nomo_sqlite_open_memory''} then ''runtime_unavailable''
           else ''closed'')))
      else None)"

text \<open>The loop that evaluates the arguments into the new frame and collects the places to write back.\<close>

definition eval_argument ::
  "'f evaluator \<Rightarrow> value_expr \<Rightarrow> ('f, 'f rt_value \<times> string list option) run" where
  "eval_argument ev argument = (case argument of
       EMutBorrow path \<Rightarrow> and_then (get_path path) (\<lambda>v. ret (v, Some path))
     | _ \<Rightarrow> and_then (ev argument) (\<lambda>v. ret (v, None)))"

fun bind_parameters ::
  "'f session \<Rightarrow> 'f evaluator \<Rightarrow> (parameter \<times> value_expr) list \<Rightarrow> 'f frame
    \<Rightarrow> (string \<times> string list) list \<Rightarrow> ('f, 'f frame \<times> (string \<times> string list) list) run" where
  "bind_parameters cx ev [] frame writebacks = ret (frame, writebacks)"
| "bind_parameters cx ev ((parameter, argument) # rest) frame writebacks =
     and_then (eval_argument ev argument) (\<lambda>(v, source_path).
     and_then (lift (coerce (ses_platform cx) v (param_type parameter))) (\<lambda>v.
       bind_parameters cx ev rest (frame(param_name parameter \<mapsto> v))
         (if param_mutable parameter
          then (case source_path of Some path \<Rightarrow> writebacks @ [(param_name parameter, path)] | None \<Rightarrow> writebacks)
          else writebacks)))"

definition call_result :: "'f signal \<Rightarrow> runtime_error + 'f rt_value" where
  "call_result s = (case s of
       SigReturn v \<Rightarrow> Ok v
     | SigNext \<Rightarrow> Ok VVoid
     | _ \<Rightarrow> Err (runtime_failure ''loop control escaped a function body''))"

definition call_body ::
  "'f session \<Rightarrow> 'f evaluator \<Rightarrow> (statement list \<Rightarrow> ('f, 'f signal) run) \<Rightarrow> function_decl \<Rightarrow> value_expr list
    \<Rightarrow> ('f, 'f rt_value) run" where
  "call_body cx ev blk callee args =
     and_then (inspect (\<lambda>m. length (mc_frames m))) (\<lambda>depth.
     and_then (bind_parameters cx ev (zip (fun_params callee) args) Map.empty []) (\<lambda>(frame, writebacks).
     and_then (push_frame frame) (\<lambda>_.
     and_then (blk (fun_body callee)) (\<lambda>signal.
     and_then pop_frame (\<lambda>final_frame.
     and_then (if depth = 0 then ret () else write_back cx final_frame (depth - 1) writebacks) (\<lambda>_.
     and_then (lift (call_result signal)) (\<lambda>v.
       lift (coerce (ses_platform cx) v (fun_return_type callee)))))))))"

text \<open>The call of a function of the program, below the limit on the depth.\<close>

definition call_declared ::
  "'f session \<Rightarrow> 'f evaluator \<Rightarrow> (statement list \<Rightarrow> ('f, 'f signal) run) \<Rightarrow> string \<Rightarrow> value_expr list
    \<Rightarrow> ('f, 'f rt_value) run" where
  "call_declared cx ev blk name args =
     and_then (inspect (\<lambda>m. length (mc_frames m))) (\<lambda>depth.
       if unat (max_call_depth (ses_limits cx)) \<le> depth
       then raise (runtime_failure ''maximum call depth exceeded'')
       else case find (\<lambda>f. fun_name f = name) (prog_functions (ses_program cx)) of
         None \<Rightarrow> raise (runtime_failure (''unknown function '' @ quote_name name))
       | Some callee \<Rightarrow>
           if length (fun_params callee) \<noteq> length args
           then raise (runtime_failure (''function '' @ quote_name name @ '' expected ''
             @ show_nat (length (fun_params callee)) @ '' arguments, found '' @ show_nat (length args)))
           else call_body cx ev blk callee args)"

definition call_function ::
  "'f session \<Rightarrow> 'f evaluator \<Rightarrow> (statement list \<Rightarrow> ('f, 'f signal) run) \<Rightarrow> string \<Rightarrow> value_expr list
    \<Rightarrow> ('f, 'f rt_value) run" where
  "call_function cx ev blk name args =
     and_then (tick cx) (\<lambda>_.
       case builtin_call name of
         Some (BuiltinValue v) \<Rightarrow> ret v
       | Some (BuiltinError e) \<Rightarrow> raise e
       | Some BuiltinFirstArgument \<Rightarrow>
           (case args of [] \<Rightarrow> raise (runtime_failure ''task publication move requires one value'')
              | argument # _ \<Rightarrow> ev argument)
       | None \<Rightarrow> call_declared cx ev blk name args)"

section \<open>JSON, JSON-RPC and cron\<close>

text \<open>An argument by position; Rust's indexing panics where it is missing.\<close>

definition eval_arg :: "'f evaluator \<Rightarrow> value_expr list \<Rightarrow> nat \<Rightarrow> ('f, 'f rt_value) run" where
  "eval_arg ev args i = (if i < length args then ev (args ! i) else panic)"

definition eval_text :: "'f evaluator \<Rightarrow> value_expr \<Rightarrow> ('f, string) run" where
  "eval_text ev e = and_then (ev e) (\<lambda>v. lift (as_string v))"

definition eval_text_arg :: "'f evaluator \<Rightarrow> value_expr list \<Rightarrow> nat \<Rightarrow> ('f, string) run" where
  "eval_text_arg ev args i = and_then (eval_arg ev args i) (\<lambda>v. lift (as_string v))"

definition expect_u64 :: "string \<Rightarrow> 'f rt_value \<Rightarrow> runtime_error + u64" where
  "expect_u64 message v = (case v of VU64 w \<Rightarrow> Ok w | _ \<Rightarrow> Err (runtime_failure message))"

definition expect_i64 :: "string \<Rightarrow> 'f rt_value \<Rightarrow> runtime_error + i64" where
  "expect_i64 message v = (case v of VI64 w \<Rightarrow> Ok w | _ \<Rightarrow> Err (runtime_failure message))"

definition expect_array :: "string \<Rightarrow> 'f rt_value \<Rightarrow> runtime_error + 'f rt_value list" where
  "expect_array message v = (case v of VArray vs \<Rightarrow> Ok vs | _ \<Rightarrow> Err (runtime_failure message))"

text \<open>\<open>result_value\<close> of a fallible constructor, with its value and its error wrapped.\<close>

definition wrap_result ::
  "('a \<Rightarrow> 'f rt_value) \<Rightarrow> ('e \<Rightarrow> 'f rt_value) \<Rightarrow> 'e + 'a \<Rightarrow> 'f rt_value" where
  "wrap_result good bad r = result_value ''Result'' (map_err bad (map_ok good r))"

definition json_result :: "json_error + string \<Rightarrow> 'f rt_value" where
  "json_result r = wrap_result json_host_value json_error_value r"

text \<open>The accessors of a parsed value, all but \<open>Get\<close>, which evaluates a second argument.\<close>

definition json_accessor :: "json_operation \<Rightarrow> json_node \<Rightarrow> 'f rt_value" where
  "json_accessor op node = (case op of
       JsonKind \<Rightarrow> json_kind_value (node_kind node)
     | JsonIsNull \<Rightarrow> VBool (node_value node = JNull)
     | JsonAsBool \<Rightarrow> option_value (case node_value node of JBoolean b \<Rightarrow> Some (VBool b) | _ \<Rightarrow> None)
     | JsonNumberText \<Rightarrow> option_value (case node_value node of JNumber s \<Rightarrow> Some (VString s) | _ \<Rightarrow> None)
     | JsonAsString \<Rightarrow> option_value (case node_value node of JString s \<Rightarrow> Some (VString s) | _ \<Rightarrow> None)
     | JsonArrayItems \<Rightarrow> option_value (case node_value node of
         JArray nodes \<Rightarrow> Some (VArray (map (\<lambda>n. json_host_value (node_raw n)) nodes)) | _ \<Rightarrow> None)
     | JsonObjectMembers \<Rightarrow> option_value (case node_value node of
         JObject members \<Rightarrow> Some (VArray (map (\<lambda>(key, n). json_member_value key (node_raw n)) members)) | _ \<Rightarrow> None)
     | _ \<Rightarrow> VVoid)"

text \<open>\<open>Get\<close> returns the last member with the key.\<close>

definition json_get :: "string \<Rightarrow> json_node \<Rightarrow> 'f rt_value" where
  "json_get key node = option_value (case node_value node of
       JObject members \<Rightarrow> map_option (\<lambda>(name, n). json_host_value (node_raw n)) (find (\<lambda>(name, n). name = key) (rev members))
     | _ \<Rightarrow> None)"

definition eval_json_structured ::
  "'f evaluator \<Rightarrow> json_operation \<Rightarrow> value_expr list \<Rightarrow> ('f, 'f rt_value) run" where
  "eval_json_structured ev op args = (case op of
       JsonFromNull \<Rightarrow> ret (json_host_value ''null'')
     | JsonFromBool \<Rightarrow> and_then (eval_arg ev args 0) (\<lambda>v. and_then (lift (as_bool v)) (\<lambda>b.
         ret (json_host_value (if b then ''true'' else ''false''))))
     | JsonFromI64 \<Rightarrow> and_then (eval_arg ev args 0) (\<lambda>v.
         and_then (lift (expect_i64 ''expected an i64 value'' v)) (\<lambda>w. ret (json_host_value (show_signed (sint w)))))
     | JsonFromU64 \<Rightarrow> and_then (eval_arg ev args 0) (\<lambda>v.
         and_then (lift (expect_u64 ''expected a u64 value'' v)) (\<lambda>w. ret (json_host_value (show_nat (unat w)))))
     | JsonFromNumberText \<Rightarrow> and_then (eval_text_arg ev args 0) (\<lambda>s. ret (json_result (from_number_text s)))
     | JsonFromString \<Rightarrow> and_then (eval_text_arg ev args 0) (\<lambda>s. ret (json_result (from_string s)))
     | JsonFromArray \<Rightarrow> and_then (eval_arg ev args 0) (\<lambda>v.
         and_then (lift (expect_array ''expected an Array<JsonValue>'' v)) (\<lambda>vs.
         and_then (lift (try_map json_raw vs)) (\<lambda>raws. ret (json_result (from_array raws)))))
     | JsonFromObject \<Rightarrow> and_then (eval_arg ev args 0) (\<lambda>v.
         and_then (lift (expect_array ''expected an Array<JsonMember>'' v)) (\<lambda>vs.
         and_then (lift (try_map json_member_parts vs)) (\<lambda>members. ret (json_result (from_object members)))))
     | _ \<Rightarrow> and_then (eval_arg ev args 0) (\<lambda>v. and_then (lift (json_raw v)) (\<lambda>raw.
         and_then (lift (map_err (\<lambda>_. runtime_failure ''opaque JsonValue is invalid'') (parse_json raw))) (\<lambda>node.
           if op = JsonGet then and_then (eval_text_arg ev args 1) (\<lambda>key. ret (json_get key node))
           else ret (json_accessor op node)))))"

definition rpc_result :: "('a \<Rightarrow> 'f rt_value) \<Rightarrow> protocol_error + 'a \<Rightarrow> ('f, 'f rt_value) run" where
  "rpc_result good r = ret (wrap_result good jsonrpc_error_value r)"

definition eval_jsonrpc ::
  "'f evaluator \<Rightarrow> json_rpc_operation \<Rightarrow> value_expr list \<Rightarrow> ('f, 'f rt_value) run" where
  "eval_jsonrpc ev op args = (case op of
       JsonRpcDecoder \<Rightarrow> and_then (eval_arg ev args 0) (\<lambda>v.
         and_then (lift (expect_u64 ''expected a u64 JSON-RPC limit'' v)) (\<lambda>limit.
           rpc_result jsonrpc_decoder_value (new_decoder (unat limit))))
     | JsonRpcFeed \<Rightarrow> and_then (eval_arg ev args 0) (\<lambda>v.
         and_then (lift (jsonrpc_decoder_parts v)) (\<lambda>d.
         and_then (eval_text_arg ev args 1) (\<lambda>chunk. rpc_result jsonrpc_batch_value (feed d chunk))))
     | JsonRpcFinish \<Rightarrow> and_then (eval_arg ev args 0) (\<lambda>v.
         and_then (lift (jsonrpc_decoder_parts v)) (\<lambda>d. rpc_result (\<lambda>_. VVoid) (finish d)))
     | JsonRpcParse \<Rightarrow> and_then (eval_arg ev args 0) (\<lambda>v. and_then (lift (json_raw v)) (\<lambda>raw.
         and_then (eval_arg ev args 1) (\<lambda>w.
         and_then (lift (expect_u64 ''expected a u64 JSON-RPC limit'' w)) (\<lambda>limit.
           rpc_result jsonrpc_message_value (parse_message raw (unat limit))))))
     | JsonRpcEncode \<Rightarrow> and_then (eval_arg ev args 0) (\<lambda>v. and_then (lift (jsonrpc_raw v)) (\<lambda>raw.
         and_then (eval_arg ev args 1) (\<lambda>w.
         and_then (lift (expect_u64 ''expected a u64 JSON-RPC limit'' w)) (\<lambda>limit.
           rpc_result VString (encode raw (unat limit))))))
     | JsonRpcValue \<Rightarrow> and_then (eval_arg ev args 0) (\<lambda>v. and_then (lift (jsonrpc_raw v)) (\<lambda>raw.
         ret (json_host_value raw)))
     | JsonRpcKind \<Rightarrow> and_then (eval_arg ev args 0) (\<lambda>v. and_then (lift (jsonrpc_raw v)) (\<lambda>raw.
         and_then (lift (map_err (\<lambda>e. runtime_failure (pe_message e)) (Json_Rpc.kind raw))) (\<lambda>k.
           ret (jsonrpc_kind_value k))))
     | JsonRpcRequest \<Rightarrow> and_then (eval_arg ev args 0) (\<lambda>v. and_then (lift (json_raw v)) (\<lambda>i.
         and_then (eval_text_arg ev args 1) (\<lambda>method.
         and_then (eval_arg ev args 2) (\<lambda>p. and_then (lift (optional_json_raw p)) (\<lambda>params.
           rpc_result jsonrpc_message_value (request i method params))))))
     | JsonRpcNotification \<Rightarrow> and_then (eval_text_arg ev args 0) (\<lambda>method.
         and_then (eval_arg ev args 1) (\<lambda>p. and_then (lift (optional_json_raw p)) (\<lambda>params.
           rpc_result jsonrpc_message_value (notification method params))))
     | JsonRpcSuccess \<Rightarrow> and_then (eval_arg ev args 0) (\<lambda>v. and_then (lift (json_raw v)) (\<lambda>i.
         and_then (eval_arg ev args 1) (\<lambda>w. and_then (lift (json_raw w)) (\<lambda>raw.
           rpc_result jsonrpc_message_value (success i raw)))))
     | JsonRpcFailure \<Rightarrow> and_then (eval_arg ev args 0) (\<lambda>v. and_then (lift (json_raw v)) (\<lambda>i.
         and_then (eval_arg ev args 1) (\<lambda>w.
         and_then (lift (expect_i64 ''expected an i64 JSON-RPC error code'' w)) (\<lambda>code.
         and_then (eval_text_arg ev args 2) (\<lambda>message.
         and_then (eval_arg ev args 3) (\<lambda>d. and_then (lift (optional_json_raw d)) (\<lambda>data.
           rpc_result jsonrpc_message_value (failure i code message data)))))))))"

definition eval_cron ::
  "'f evaluator \<Rightarrow> cron_operation \<Rightarrow> value_expr list \<Rightarrow> ('f, 'f rt_value) run" where
  "eval_cron ev op args = (case op of
       CronParse \<Rightarrow> and_then (eval_text_arg ev args 0) (\<lambda>expression.
         ret (wrap_result (\<lambda>_. cron_schedule_value expression) cron_error_value (parse_cron expression)))
     | CronMatches \<Rightarrow> and_then (eval_arg ev args 0) (\<lambda>v. and_then (lift (cron_expression v)) (\<lambda>expression.
         and_then (eval_arg ev args 1) (\<lambda>w.
         and_then (lift (expect_i64 ''expected an i64 cron timestamp'' w)) (\<lambda>millis.
           ret (wrap_result VBool cron_error_value (cron_matches expression (sint millis)))))))
     | CronNextAfter \<Rightarrow> and_then (eval_arg ev args 0) (\<lambda>v. and_then (lift (cron_expression v)) (\<lambda>expression.
         and_then (eval_arg ev args 1) (\<lambda>w.
         and_then (lift (expect_i64 ''expected an i64 cron timestamp'' w)) (\<lambda>millis.
           ret (wrap_result (\<lambda>n. VI64 (word_of_int n)) cron_error_value (next_after expression (sint millis))))))))"

section \<open>Binary operators\<close>

definition eval_bool :: "'f evaluator \<Rightarrow> value_expr \<Rightarrow> ('f, bool) run" where
  "eval_bool ev e = and_then (ev e) (\<lambda>v. lift (as_bool v))"

definition eval_binary ::
  "'f session \<Rightarrow> 'f evaluator \<Rightarrow> value_expr \<Rightarrow> binary_op \<Rightarrow> value_expr \<Rightarrow> ('f, 'f rt_value) run" where
  "eval_binary cx ev l op r =
     (if op = OpLogicalAnd then
        and_then (eval_bool ev l) (\<lambda>b.
          if b then and_then (eval_bool ev r) (\<lambda>c. ret (VBool c)) else ret (VBool False))
      else if op = OpLogicalOr then
        and_then (eval_bool ev l) (\<lambda>b.
          if b then ret (VBool True) else and_then (eval_bool ev r) (\<lambda>c. ret (VBool c)))
      else
        and_then (ev l) (\<lambda>x. and_then (ev r) (\<lambda>y.
          let h = ses_platform cx in
          if op = OpEqual then ret (VBool (values_equal h x y))
          else if op = OpNotEqual then ret (VBool (\<not> values_equal h x y))
          else if op \<in> {OpLess, OpLessEqual, OpGreater, OpGreaterEqual}
            then lift (map_ok VBool (compare_values h x op y))
          else lift (numeric_operation h x op y))))"

end
