(* ===== verification/Interp_Eval.thy ===== *)
theory Interp_Eval
  imports Interp_Calls
begin

text \<open>
  The two walks of \<open>crates/nomo_wasm/src/interpreter.rs\<close>, \<open>eval_expr\<close> and \<open>exec_block\<close> with \<open>exec_statement\<close>
  and \<open>exec_loop\<close>, and \<open>run_main\<close>.

  The arms of a walk are definitions over the walks they call. The recursion is in \<open>eval_expr\<close> and
  \<open>exec_block\<close> and in the three loops, each on a fuel; \<open>run_main\<close> starts them with one more than
  \<open>max_steps\<close>, and \<open>Interp_Termination\<close> proves that this is enough: every nested call and every
  iteration consumes a step of the program first.
\<close>

section \<open>Expressions\<close>

definition capability :: "string \<Rightarrow> ('f, 'a) run" where
  "capability name = raise (capability_error name)"

definition unsupported_intrinsic :: "'f session \<Rightarrow> value_expr \<Rightarrow> ('f, 'a) run" where
  "unsupported_intrinsic cx e = raise (runtime_failure
     (''typed IR operation is not implemented by the browser interpreter: '' @ debug_expr (ses_platform cx) e))"

definition eval_intrinsic0 :: "'f session \<Rightarrow> intrinsic0 \<Rightarrow> ('f, 'f rt_value) run" where
  "eval_intrinsic0 cx op = (case op of
       OsPlatform \<Rightarrow> ret (VString ''browser'')
     | OsArch \<Rightarrow> ret (VString ''wasm32'')
     | OsPathSeparator \<Rightarrow> ret (VString ''/'')
     | OsLineEnding \<Rightarrow> ret (VString [CHR 0x0A])
     | EnvCwd \<Rightarrow> capability ''environment''
     | EnvHomeDir \<Rightarrow> capability ''environment''
     | EnvTempDir \<Rightarrow> capability ''environment''
     | EnvArgs \<Rightarrow> capability ''environment''
     | IoReadLine \<Rightarrow> capability ''interactive input''
     | TimeNowMillis \<Rightarrow> capability ''clock''
     | TimeMonotonicMillis \<Rightarrow> capability ''clock''
     | _ \<Rightarrow> unsupported_intrinsic cx (EIntrinsic0 op))"

definition eval_char :: "'f evaluator \<Rightarrow> (uchar \<Rightarrow> 'f rt_value) \<Rightarrow> value_expr \<Rightarrow> ('f, 'f rt_value) run" where
  "eval_char ev f e = and_then (ev e) (\<lambda>v. case v of
       VChar c \<Rightarrow> ret (f c) | _ \<Rightarrow> raise (runtime_failure ''expected char''))"

text \<open>\<open>matches!(value, Value::Enum { variant, .. } if variant == name)\<close>.\<close>

definition has_variant :: "string \<Rightarrow> 'f rt_value \<Rightarrow> bool" where
  "has_variant name v = (case v of VEnum _ variant _ \<Rightarrow> variant = name | _ \<Rightarrow> False)"

definition eval_variant_test :: "'f evaluator \<Rightarrow> string \<Rightarrow> value_expr \<Rightarrow> ('f, 'f rt_value) run" where
  "eval_variant_test ev name e = and_then (ev e) (\<lambda>v. ret (VBool (has_variant name v)))"

definition filesystem_intrinsics :: "intrinsic1 list" where
  "filesystem_intrinsics = [FsReadToString, FsReadBytes, FsExists, FsMetadata, FsCreateDir, FsRemoveDir,
     FsReadDir, FsOpen, FileClose, FileReadToString]"

definition network_intrinsics :: "intrinsic1 list" where
  "network_intrinsics = [TcpListenerAccept, TcpListenerClose, TcpStreamClose, TcpStreamReadToString, UdpSocketClose]"

definition process_intrinsics :: "intrinsic1 list" where
  "process_intrinsics = [ProcessExit, ProcessSpawn, ProcessStatus, ProcessExec, ProcessOutput]"

definition eval_intrinsic1 ::
  "'f session \<Rightarrow> 'f evaluator \<Rightarrow> intrinsic1 \<Rightarrow> value_expr \<Rightarrow> ('f, 'f rt_value) run" where
  "eval_intrinsic1 cx ev op e =
     (let h = ses_platform cx in
      case op of
        StringLen \<Rightarrow> and_then (eval_text ev e) (\<lambda>s. ret (VU64 (of_nat (length s))))
      | StringIsEmpty \<Rightarrow> and_then (eval_text ev e) (\<lambda>s. ret (VBool (s = [])))
      | StringTrim \<Rightarrow> and_then (eval_text ev e) (\<lambda>s. ret (VString (trim s)))
      | StringToLower \<Rightarrow> and_then (eval_text ev e) (\<lambda>s. ret (VString (text_to_lower h s)))
      | StringToUpper \<Rightarrow> and_then (eval_text ev e) (\<lambda>s. ret (VString (text_to_upper h s)))
      | CharIsDigit \<Rightarrow> eval_char ev (\<lambda>c. VBool (char_is_numeric h c)) e
      | CharIsAlpha \<Rightarrow> eval_char ev (\<lambda>c. VBool (char_is_alphabetic h c)) e
      | CharIsWhitespace \<Rightarrow> eval_char ev (\<lambda>c. VBool (utf8_encode c \<in> set white_space)) e
      | CharToString \<Rightarrow> eval_char ev (\<lambda>c. VString (utf8_encode c)) e
      | NumToString _ \<Rightarrow> and_then (ev e) (\<lambda>v. ret (VString (display_value h v)))
      | NumParseI64 \<Rightarrow> and_then (eval_text ev e) (\<lambda>s. ret (wrap_result (\<lambda>n. VI64 (word_of_int n)) VString
          (ok_or ''invalid i64'' (parse_i64 s))))
      | NumParseU64 \<Rightarrow> and_then (eval_text ev e) (\<lambda>s. ret (wrap_result (\<lambda>n. VU64 (of_nat n)) VString
          (ok_or ''invalid u64'' (parse_u64 s))))
      | NumParseF64 \<Rightarrow> and_then (eval_text ev e) (\<lambda>s. ret (wrap_result VF64 VString
          (ok_or ''invalid f64'' (float_parse h s))))
      | JsonParse \<Rightarrow> and_then (eval_text ev e) (\<lambda>s. ret (wrap_result (\<lambda>_. json_host_value s) json_error_value (parse_json s)))
      | JsonStringify \<Rightarrow> and_then (ev e) (\<lambda>v. and_then (lift (json_raw v)) (\<lambda>raw. ret (VString raw)))
      | OptionIsSome _ \<Rightarrow> eval_variant_test ev ''Some'' e
      | OptionIsNone _ \<Rightarrow> eval_variant_test ev ''None'' e
      | ResultIsOk _ _ \<Rightarrow> eval_variant_test ev ''Ok'' e
      | ResultIsErr _ _ \<Rightarrow> eval_variant_test ev ''Err'' e
      | MathUnary f _ \<Rightarrow> and_then (ev e) (\<lambda>v. lift (math_unary h f v))
      | EnvGet \<Rightarrow> capability ''environment''
      | TimeSleep \<Rightarrow> capability ''clock''
      | TimeSleepMillis \<Rightarrow> capability ''clock''
      | _ \<Rightarrow> (if op \<in> set filesystem_intrinsics then capability ''filesystem''
          else if op \<in> set network_intrinsics then capability ''network''
          else if op \<in> set process_intrinsics then capability ''process''
          else unsupported_intrinsic cx (EIntrinsic1 op e)))"

text \<open>\<open>str::ends_with\<close>, and \<open>str::split\<close> on a text: on the empty one, before and after every character.\<close>

definition ends_with :: "string \<Rightarrow> string \<Rightarrow> bool" where
  "ends_with p s \<longleftrightarrow> starts_with (rev p) (rev s)"

fun split_at_text :: "nat \<Rightarrow> string \<Rightarrow> string \<Rightarrow> string \<Rightarrow> string list" where
  "split_at_text skip sep part [] = [rev part]"
| "split_at_text (Suc skip) sep part (c # s) = split_at_text skip sep part s"
| "split_at_text 0 sep part (c # s) =
     (if starts_with sep (c # s) then rev part # split_at_text (length sep - 1) sep [] s
      else split_at_text 0 sep (c # part) s)"

definition split_text :: "string \<Rightarrow> string \<Rightarrow> string list" where
  "split_text sep s = (if sep = [] then [] # chars_of s @ [[]] else split_at_text 0 sep [] s)"

text \<open>\<open>OptionUnwrapOr\<close> and \<open>ResultUnwrapOr\<close>: the payload of the variant, else the default.\<close>

definition eval_unwrap_or ::
  "'f evaluator \<Rightarrow> string \<Rightarrow> value_expr \<Rightarrow> value_expr \<Rightarrow> ('f, 'f rt_value) run" where
  "eval_unwrap_or ev name carrier fallback = and_then (ev carrier) (\<lambda>v. case v of
       VEnum _ variant (Some payload) \<Rightarrow> (if variant = name then ret payload else ev fallback)
     | _ \<Rightarrow> ev fallback)"

definition eval_texts ::
  "'f evaluator \<Rightarrow> (string \<Rightarrow> string \<Rightarrow> 'f rt_value) \<Rightarrow> value_expr \<Rightarrow> value_expr \<Rightarrow> ('f, 'f rt_value) run" where
  "eval_texts ev f l r = and_then (eval_text ev l) (\<lambda>s. and_then (eval_text ev r) (\<lambda>t. ret (f s t)))"

definition eval_num_binary ::
  "'f session \<Rightarrow> num_binary_function \<Rightarrow> binary_op \<Rightarrow> 'f rt_value \<Rightarrow> 'f rt_value \<Rightarrow> ('f, 'f rt_value) run" where
  "eval_num_binary cx f op x y = (case f of
       NumChecked \<Rightarrow> ret (option_value (case numeric_operation (ses_platform cx) x op y of
         Inr v \<Rightarrow> Some v | Inl _ \<Rightarrow> None))
     | NumWrapping \<Rightarrow> lift (wrapping_numeric_operation (ses_platform cx) x op y))"

definition eval_intrinsic2 ::
  "'f session \<Rightarrow> 'f evaluator \<Rightarrow> intrinsic2 \<Rightarrow> value_expr \<Rightarrow> value_expr \<Rightarrow> ('f, 'f rt_value) run" where
  "eval_intrinsic2 cx ev op l r = (case op of
       StringConcat \<Rightarrow> eval_texts ev (\<lambda>s t. VString (s @ t)) l r
     | StringContains \<Rightarrow> eval_texts ev (\<lambda>s t. VBool (contains_text t s)) l r
     | StringStartsWith \<Rightarrow> eval_texts ev (\<lambda>s t. VBool (starts_with t s)) l r
     | StringEndsWith \<Rightarrow> eval_texts ev (\<lambda>s t. VBool (ends_with t s)) l r
     | StringSplit \<Rightarrow> eval_texts ev (\<lambda>s t. VArray (map VString (split_text t s))) l r
     | OptionUnwrapOr _ \<Rightarrow> eval_unwrap_or ev ''Some'' l r
     | ResultUnwrapOr _ _ \<Rightarrow> eval_unwrap_or ev ''Ok'' l r
     | MathBinary f _ \<Rightarrow> and_then (ev l) (\<lambda>x. and_then (ev r) (\<lambda>y. lift (math_binary (ses_platform cx) f x y)))
     | NumBinary f bop _ \<Rightarrow> and_then (ev l) (\<lambda>x. and_then (ev r) (\<lambda>y. eval_num_binary cx f bop x y))
     | FsWriteString \<Rightarrow> capability ''filesystem''
     | FsWriteBytes \<Rightarrow> capability ''filesystem''
     | FileWriteString \<Rightarrow> capability ''filesystem''
     | NetConnect \<Rightarrow> capability ''network''
     | NetListen \<Rightarrow> capability ''network''
     | NetUdpBind \<Rightarrow> capability ''network''
     | TcpStreamWriteString \<Rightarrow> capability ''network''
     | UdpSocketRecvFromString \<Rightarrow> capability ''network''
     | EnvSet \<Rightarrow> capability ''environment''
     | _ \<Rightarrow> unsupported_intrinsic cx (EIntrinsic2 op l r))"

definition eval_string_compare ::
  "'f evaluator \<Rightarrow> value_expr \<Rightarrow> binary_op \<Rightarrow> value_expr \<Rightarrow> ('f, 'f rt_value) run" where
  "eval_string_compare ev l op r =
     and_then (eval_text ev l) (\<lambda>s. and_then (eval_text ev r) (\<lambda>t.
       case op of
         OpEqual \<Rightarrow> ret (VBool (s = t))
       | OpNotEqual \<Rightarrow> ret (VBool (s \<noteq> t))
       | _ \<Rightarrow> raise (runtime_failure ''invalid string comparison operator'')))"

subsection \<open>Arrays\<close>

definition out_of_bounds :: runtime_error where
  "out_of_bounds = runtime_failure ''array index out of bounds''"

definition element_at :: "'f rt_value list \<Rightarrow> nat \<Rightarrow> 'f rt_value option" where
  "element_at vs i = (if i < length vs then Some (vs ! i) else None)"

definition eval_index :: "'f evaluator \<Rightarrow> value_expr \<Rightarrow> ('f, nat) run" where
  "eval_index ev e = and_then (ev e) (\<lambda>v. lift (as_index v))"

definition eval_array :: "'f evaluator \<Rightarrow> value_expr \<Rightarrow> ('f, 'f rt_value list) run" where
  "eval_array ev e = and_then (ev e) (\<lambda>v. lift (expect_array ''expected array'' v))"

definition array_variable :: "string \<Rightarrow> ('f, 'f rt_value list) run" where
  "array_variable name = and_then (get_variable name) (\<lambda>v. lift (expect_array ''expected array'' v))"

definition eval_array_index :: "'f evaluator \<Rightarrow> value_expr \<Rightarrow> value_expr \<Rightarrow> ('f, 'f rt_value) run" where
  "eval_array_index ev array index =
     and_then (eval_array ev array) (\<lambda>vs. and_then (eval_index ev index) (\<lambda>i.
       lift (ok_or out_of_bounds (element_at vs i))))"

definition eval_array_get :: "'f evaluator \<Rightarrow> value_expr \<Rightarrow> value_expr \<Rightarrow> ('f, 'f rt_value) run" where
  "eval_array_get ev array index =
     and_then (eval_array ev array) (\<lambda>vs. and_then (eval_index ev index) (\<lambda>i.
       ret (option_value (element_at vs i))))"

definition eval_array_push :: "'f evaluator \<Rightarrow> string \<Rightarrow> value_expr \<Rightarrow> ('f, 'f rt_value) run" where
  "eval_array_push ev array e =
     and_then (ev e) (\<lambda>v. and_then (array_variable array) (\<lambda>vs. ret (VArray (vs @ [v]))))"

definition eval_array_pop :: "string \<Rightarrow> ('f, 'f rt_value) run" where
  "eval_array_pop array =
     and_then (array_variable array) (\<lambda>vs.
     and_then (insert_variable array (VArray (butlast vs))) (\<lambda>_.
       ret (option_value (if vs = [] then None else Some (last vs)))))"

definition eval_array_set ::
  "'f session \<Rightarrow> 'f evaluator \<Rightarrow> string \<Rightarrow> value_expr \<Rightarrow> value_expr \<Rightarrow> ('f, 'f rt_value) run" where
  "eval_array_set cx ev array index e =
     and_then (eval_index ev index) (\<lambda>i. and_then (ev e) (\<lambda>v. and_then (array_variable array) (\<lambda>vs.
       and_then (lift (ok_or out_of_bounds (element_at vs i))) (\<lambda>slot.
       and_then (lift (coerce_like (ses_platform cx) v slot)) (\<lambda>w.
         ret (VArray (vs[i := w])))))))"

definition eval_array_insert ::
  "'f evaluator \<Rightarrow> string \<Rightarrow> value_expr \<Rightarrow> value_expr \<Rightarrow> ('f, 'f rt_value) run" where
  "eval_array_insert ev array index e =
     and_then (eval_index ev index) (\<lambda>i. and_then (ev e) (\<lambda>v. and_then (array_variable array) (\<lambda>vs.
       if length vs < i then raise out_of_bounds
       else ret (VArray (take i vs @ [v] @ drop i vs)))))"

definition eval_array_remove :: "'f evaluator \<Rightarrow> string \<Rightarrow> value_expr \<Rightarrow> ('f, 'f rt_value) run" where
  "eval_array_remove ev array index =
     and_then (eval_index ev index) (\<lambda>i. and_then (array_variable array) (\<lambda>vs.
     and_then (insert_variable array (VArray (if i < length vs then take i vs @ drop (i + 1) vs else vs))) (\<lambda>_.
       ret (option_value (element_at vs i)))))"

definition eval_array_clear :: "string \<Rightarrow> ('f, 'f rt_value) run" where
  "eval_array_clear array = and_then (array_variable array) (\<lambda>vs. ret (VArray []))"

subsection \<open>Structs and enums\<close>

definition eval_struct_literal ::
  "'f evaluator \<Rightarrow> string \<Rightarrow> (string \<times> value_expr) list \<Rightarrow> ('f, 'f rt_value) run" where
  "eval_struct_literal ev type_name entries =
     and_then (run_map (\<lambda>(name, e). and_then (ev e) (\<lambda>v. ret (name, v))) entries) (\<lambda>fs.
       ret (VStruct type_name (fields_of fs)))"

definition field_of :: "string \<Rightarrow> string \<Rightarrow> 'f rt_value \<Rightarrow> runtime_error + 'f rt_value" where
  "field_of message field v = (case v of
       VStruct _ fs \<Rightarrow> ok_or (unknown_field field) (bt_get fs field)
     | _ \<Rightarrow> Err (runtime_failure message))"

definition payload_of :: "string \<Rightarrow> string \<Rightarrow> 'f rt_value \<Rightarrow> runtime_error + 'f rt_value" where
  "payload_of message variant v = (case v of
       VEnum _ actual payload \<Rightarrow>
         (if actual \<noteq> variant then Err (runtime_failure ''enum variant mismatch'')
          else ok_or (runtime_failure ''enum variant does not carry a payload'') payload)
     | _ \<Rightarrow> Err (runtime_failure message))"

definition eval_payload_field ::
  "'f evaluator \<Rightarrow> value_expr \<Rightarrow> string \<Rightarrow> string \<Rightarrow> ('f, 'f rt_value) run" where
  "eval_payload_field ev e variant field =
     and_then (ev e) (\<lambda>v.
     and_then (lift (payload_of ''enum payload field source is not an enum'' variant v)) (\<lambda>payload.
       lift (field_of ''enum payload field source is not a struct'' field payload)))"

definition eval_enum_variant ::
  "'f evaluator \<Rightarrow> string \<Rightarrow> string \<Rightarrow> value_expr option \<Rightarrow> ('f, 'f rt_value) run" where
  "eval_enum_variant ev enum_name variant payload = (case payload of
       None \<Rightarrow> ret (VEnum enum_name variant None)
     | Some e \<Rightarrow> and_then (ev e) (\<lambda>v. ret (VEnum enum_name variant (Some v))))"

text \<open>The binding of the payload by an arm that has one.\<close>

definition bind_payload :: "string option \<Rightarrow> 'f rt_value option \<Rightarrow> ('f, unit) run" where
  "bind_payload binding payload = (case (binding, payload) of
       (Some name, Some v) \<Rightarrow> insert_variable name v
     | _ \<Rightarrow> ret ())"

definition eval_match :: "'f evaluator \<Rightarrow> value_expr \<Rightarrow> match_value_arm list \<Rightarrow> ('f, 'f rt_value) run" where
  "eval_match ev e arms = and_then (ev e) (\<lambda>v. case v of
       VEnum _ variant payload \<Rightarrow>
         (case find (\<lambda>arm. arm_variant arm = variant) arms of
            None \<Rightarrow> raise (runtime_failure ''no matching enum arm'')
          | Some arm \<Rightarrow> and_then (bind_payload (arm_binding arm) payload) (\<lambda>_. ev (arm_value arm)))
     | _ \<Rightarrow> raise (runtime_failure ''match value is not an enum''))"

definition eval_panic :: "'f session \<Rightarrow> 'f evaluator \<Rightarrow> value_expr \<Rightarrow> ('f, 'a) run" where
  "eval_panic cx ev message = and_then (ev message) (\<lambda>v.
     raise (runtime_failure (''panic: '' @ display_value (ses_platform cx) v)))"

subsection \<open>The walk\<close>

definition eval_arms ::
  "'f session \<Rightarrow> 'f evaluator \<Rightarrow> (statement list \<Rightarrow> ('f, 'f signal) run) \<Rightarrow> 'f evaluator" where
  "eval_arms cx ev blk e =
     (let h = ses_platform cx in
      case e of
        EIntrinsic0 op \<Rightarrow> eval_intrinsic0 cx op
      | EIntrinsic1 op x \<Rightarrow> eval_intrinsic1 cx ev op x
      | EIntrinsic2 op l r \<Rightarrow> eval_intrinsic2 cx ev op l r
      | EStringLiteral s \<Rightarrow> ret (VString s)
      | EIntLiteral w \<Rightarrow> ret (VI64 w)
      | EFloatLiteral s \<Rightarrow> lift (map_ok VF64 (ok_or (runtime_failure ''invalid floating-point literal'') (float_parse h s)))
      | ECharLiteral c \<Rightarrow> ret (VChar c)
      | EBoolLiteral b \<Rightarrow> ret (VBool b)
      | EVoidLiteral \<Rightarrow> ret VVoid
      | EVariable name \<Rightarrow> get_variable name
      | EFunctionRef name \<Rightarrow> ret (VString name)
      | EBinary l op r _ \<Rightarrow> eval_binary cx ev l op r
      | EUnary op x \<Rightarrow> and_then (ev x) (\<lambda>v. lift (unary_operation h op v))
      | EStringCompare l op r \<Rightarrow> eval_string_compare ev l op r
      | ECast x t \<Rightarrow> and_then (ev x) (\<lambda>v. lift (coerce h v t))
      | ECall name args \<Rightarrow> call_function cx ev blk name args
      | EMutBorrow path \<Rightarrow> get_path path
      | EJsonStructured op args \<Rightarrow> eval_json_structured ev op args
      | EJsonRpc op args \<Rightarrow> eval_jsonrpc ev op args
      | ECron op args \<Rightarrow> eval_cron ev op args
      | ECollectionsStringMapSet _ _ _ \<Rightarrow> unsupported_intrinsic cx e
      | EUdpSocketSendToString _ _ _ _ \<Rightarrow> capability ''network''
      | EArrayNew _ \<Rightarrow> ret (VArray [])
      | EArrayLiteral elements _ \<Rightarrow> and_then (run_map ev elements) (\<lambda>vs. ret (VArray vs))
      | EArrayIndex array index _ \<Rightarrow> eval_array_index ev array index
      | EArrayLen array \<Rightarrow> and_then (eval_array ev array) (\<lambda>vs. ret (VU64 (of_nat (length vs))))
      | EArrayIter array _ \<Rightarrow> ev array
      | EArrayGet array index _ \<Rightarrow> eval_array_get ev array index
      | EArrayPop array _ \<Rightarrow> eval_array_pop array
      | EArrayRemove array index _ \<Rightarrow> eval_array_remove ev array index
      | EArrayPush array x _ \<Rightarrow> eval_array_push ev array x
      | EArraySet array index x _ _ \<Rightarrow> eval_array_set cx ev array index x
      | EArrayInsert array index x _ \<Rightarrow> eval_array_insert ev array index x
      | EArrayClear array _ \<Rightarrow> eval_array_clear array
      | EStructLiteral type_name _ entries \<Rightarrow> eval_struct_literal ev type_name entries
      | EFieldAccess base field \<Rightarrow> and_then (get_variable base) (\<lambda>v.
          lift (field_of ''field base is not a struct'' field v))
      | EEnumPayloadFieldAccess x variant field \<Rightarrow> eval_payload_field ev x variant field
      | EEnumVariant enum_name _ variant payload \<Rightarrow> eval_enum_variant ev enum_name variant payload
      | EEnumPayload x variant \<Rightarrow> and_then (ev x) (\<lambda>v. lift (payload_of ''enum payload source is not an enum'' variant v))
      | EMatch x arms \<Rightarrow> eval_match ev x arms
      | EIf condition then_branch else_branch \<Rightarrow>
          and_then (eval_bool ev condition) (\<lambda>b. if b then ev then_branch else ev else_branch)
      | EPanic message _ \<Rightarrow> eval_panic cx ev message)"

section \<open>Statements\<close>

definition print_value ::
  "'f session \<Rightarrow> 'f evaluator \<Rightarrow> bool \<Rightarrow> bool \<Rightarrow> value_expr \<Rightarrow> ('f, unit) run" where
  "print_value cx ev ends_line to_stderr e = and_then (ev e) (\<lambda>v.
     if to_stderr then write_stderr cx v ends_line else write_stdout cx v ends_line)"

text \<open>\<open>run_deferred\<close>, on the deferred calls in the order in which it visits them.\<close>

definition run_deferred_call :: "'f session \<Rightarrow> 'f evaluator \<Rightarrow> deferred_call \<Rightarrow> ('f, unit) run" where
  "run_deferred_call cx ev c = (case c of
       DeferredExpr e \<Rightarrow> and_then (ev e) (\<lambda>_. ret ())
     | DeferredPrintln e \<Rightarrow> print_value cx ev True False e
     | DeferredPrint e \<Rightarrow> print_value cx ev False False e
     | DeferredEprintln e \<Rightarrow> print_value cx ev True True e
     | DeferredEprint e \<Rightarrow> print_value cx ev False True e)"

fun run_deferred_calls :: "'f session \<Rightarrow> 'f evaluator \<Rightarrow> deferred_call list \<Rightarrow> ('f, unit) run" where
  "run_deferred_calls cx ev [] = ret ()"
| "run_deferred_calls cx ev (c # cs) =
     and_then (tick cx) (\<lambda>_. and_then (run_deferred_call cx ev c) (\<lambda>_. run_deferred_calls cx ev cs))"

definition run_deferred :: "'f session \<Rightarrow> 'f evaluator \<Rightarrow> deferred_call list \<Rightarrow> ('f, unit) run" where
  "run_deferred cx ev deferred = run_deferred_calls cx ev (rev deferred)"

subsection \<open>Loops\<close>

text \<open>What a loop does with the signal of its body: leave with a signal, or go on.\<close>

definition loop_exit :: "'f signal \<Rightarrow> 'f signal option" where
  "loop_exit s = (case s of
       SigNext \<Rightarrow> None
     | SigContinue \<Rightarrow> None
     | SigBreak \<Rightarrow> Some SigNext
     | SigReturn v \<Rightarrow> Some (SigReturn v))"

definition iterate_body :: "('f, 'f signal) run \<Rightarrow> ('f, 'f signal) run \<Rightarrow> ('f, 'f signal) run" where
  "iterate_body body again = and_then body (\<lambda>s. case loop_exit s of Some exit \<Rightarrow> ret exit | None \<Rightarrow> again)"

primrec infinite_loop :: "nat \<Rightarrow> 'f session \<Rightarrow> ('f, 'f signal) run \<Rightarrow> ('f, 'f signal) run" where
  "infinite_loop 0 cx body = out_of_fuel"
| "infinite_loop (Suc n) cx body = and_then (tick cx) (\<lambda>_. iterate_body body (infinite_loop n cx body))"

text \<open>\<open>while\<close>, and the loop with an update: the update of a \<open>while\<close> does nothing.\<close>

primrec while_loop ::
  "nat \<Rightarrow> 'f session \<Rightarrow> ('f, bool) run \<Rightarrow> ('f, unit) run \<Rightarrow> ('f, 'f signal) run \<Rightarrow> ('f, 'f signal) run" where
  "while_loop 0 cx condition next_step body = out_of_fuel"
| "while_loop (Suc n) cx condition next_step body = and_then condition (\<lambda>b.
     if b then and_then (tick cx) (\<lambda>_.
       iterate_body body (and_then next_step (\<lambda>_. while_loop n cx condition next_step body)))
     else ret SigNext)"

fun iterate_loop ::
  "'f session \<Rightarrow> string \<Rightarrow> ('f, 'f signal) run \<Rightarrow> 'f rt_value list \<Rightarrow> ('f, 'f signal) run" where
  "iterate_loop cx binding body [] = ret SigNext"
| "iterate_loop cx binding body (v # vs) = and_then (tick cx) (\<lambda>_.
     and_then (insert_variable binding v) (\<lambda>_. iterate_body body (iterate_loop cx binding body vs)))"

definition exec_loop ::
  "nat \<Rightarrow> 'f session \<Rightarrow> 'f evaluator \<Rightarrow> (statement list \<Rightarrow> ('f, 'f signal) run) \<Rightarrow> loop_kind \<Rightarrow> statement list
    \<Rightarrow> ('f, 'f signal) run" where
  "exec_loop n cx ev blk loop body =
     (let h = ses_platform cx in
      case loop of
        LoopInfinite \<Rightarrow> infinite_loop n cx (blk body)
      | LoopWhile condition \<Rightarrow> while_loop n cx (eval_bool ev condition) (ret ()) (blk body)
      | LoopCStyle binding ty initializer condition step_expr \<Rightarrow>
          and_then (ev initializer) (\<lambda>v. and_then (lift (coerce h v ty)) (\<lambda>v.
          and_then (insert_variable binding v) (\<lambda>_.
            while_loop n cx (eval_bool ev condition)
              (and_then (ev step_expr) (\<lambda>v. and_then (lift (coerce h v ty)) (\<lambda>v. set_variable cx binding v)))
              (blk body))))
      | LoopIterate binding _ iterable \<Rightarrow>
          and_then (ev iterable) (\<lambda>v.
          and_then (lift (expect_array ''loop iterable is not an array'' v)) (\<lambda>vs.
            iterate_loop cx binding (blk body) vs)))"

subsection \<open>The statements\<close>

definition exec_match ::
  "'f evaluator \<Rightarrow> (statement list \<Rightarrow> ('f, 'f signal) run) \<Rightarrow> value_expr \<Rightarrow> match_statement_arm list
    \<Rightarrow> ('f, 'f signal) run" where
  "exec_match ev blk e arms = and_then (ev e) (\<lambda>v. case v of
       VEnum _ variant payload \<Rightarrow>
         (case find (\<lambda>arm. stmt_arm_variant arm = variant) arms of
            None \<Rightarrow> raise (runtime_failure ''no matching enum arm'')
          | Some arm \<Rightarrow> and_then (bind_payload (stmt_arm_binding arm) payload) (\<lambda>_. blk (stmt_arm_body arm)))
     | _ \<Rightarrow> raise (runtime_failure ''match value is not an enum''))"

definition exec_let_else ::
  "'f evaluator \<Rightarrow> (statement list \<Rightarrow> ('f, 'f signal) run) \<Rightarrow> string \<Rightarrow> value_expr \<Rightarrow> string \<Rightarrow> statement list
    \<Rightarrow> ('f, 'f signal) run" where
  "exec_let_else ev blk binding e variant else_body = and_then (ev e) (\<lambda>v. case v of
       VEnum _ actual payload \<Rightarrow>
         (if actual = variant then
            and_then (lift (ok_or (runtime_failure ''let-else matched variant has no payload'') payload)) (\<lambda>w.
            and_then (insert_variable binding w) (\<lambda>_. ret SigNext))
          else blk else_body)
     | _ \<Rightarrow> raise (runtime_failure ''let-else value is not an enum''))"

definition exec_if_let ::
  "'f evaluator \<Rightarrow> (statement list \<Rightarrow> ('f, 'f signal) run) \<Rightarrow> string option \<Rightarrow> value_expr \<Rightarrow> string
    \<Rightarrow> statement list \<Rightarrow> statement list option \<Rightarrow> ('f, 'f signal) run" where
  "exec_if_let ev blk binding e variant body else_body = and_then (ev e) (\<lambda>v.
     if has_variant variant v then
       and_then (bind_payload binding (case v of VEnum _ _ payload \<Rightarrow> payload | _ \<Rightarrow> None)) (\<lambda>_. blk body)
     else case else_body of Some b \<Rightarrow> blk b | None \<Rightarrow> ret SigNext)"

text \<open>The early exit of \<open>?\<close>: the actions run, then the carrier is returned.\<close>

definition exec_question_let ::
  "'f session \<Rightarrow> 'f evaluator \<Rightarrow> question_carrier \<Rightarrow> string \<Rightarrow> value_type \<Rightarrow> value_expr \<Rightarrow> value_expr list
    \<Rightarrow> ('f, 'f signal) run" where
  "exec_question_let cx ev carrier name ty e early_exit_actions =
     (let good = (case carrier of CarrierResult \<Rightarrow> ''Ok'' | CarrierOption \<Rightarrow> ''Some'');
          early = (case carrier of CarrierResult \<Rightarrow> ''Err'' | CarrierOption \<Rightarrow> ''None'')
      in and_then (ev e) (\<lambda>v. case v of
           VEnum _ variant payload \<Rightarrow>
             (if variant = early then and_then (run_map ev early_exit_actions) (\<lambda>_. ret (SigReturn v))
              else if variant \<noteq> good then raise (runtime_failure ''question carrier variant is invalid'')
              else and_then (lift (ok_or (runtime_failure ''question success has no payload'') payload)) (\<lambda>w.
                and_then (lift (coerce (ses_platform cx) w ty)) (\<lambda>w.
                and_then (insert_variable name w) (\<lambda>_. ret SigNext))))
         | _ \<Rightarrow> raise (runtime_failure ''question operand is not an Option or Result'')))"

definition exec_index_assign ::
  "'f session \<Rightarrow> 'f evaluator \<Rightarrow> string \<Rightarrow> value_expr list \<Rightarrow> value_expr \<Rightarrow> ('f, 'f signal) run" where
  "exec_index_assign cx ev root indices e =
     and_then (run_map (eval_index ev) indices) (\<lambda>resolved. and_then (ev e) (\<lambda>v.
     and_then (get_variable root) (\<lambda>base.
     and_then (lift (set_array_path (ses_platform cx) base resolved v)) (\<lambda>base.
     and_then (insert_variable root base) (\<lambda>_. ret SigNext)))))"

definition control_flow_unsupported :: "('f, 'f signal) run" where
  "control_flow_unsupported = raise (runtime_failure
     ''this control-flow form is not implemented by the browser interpreter yet'')"

definition exec_statement ::
  "nat \<Rightarrow> 'f session \<Rightarrow> 'f evaluator \<Rightarrow> (statement list \<Rightarrow> ('f, 'f signal) run) \<Rightarrow> statement
    \<Rightarrow> ('f, 'f signal) run" where
  "exec_statement n cx ev blk s = (case s of
       SLet name ty e \<Rightarrow> and_then (ev e) (\<lambda>v. and_then (lift (coerce (ses_platform cx) v ty)) (\<lambda>v.
         and_then (insert_variable name v) (\<lambda>_. ret SigNext)))
     | SAssign name e \<Rightarrow> and_then (ev e) (\<lambda>v. and_then (set_variable cx name v) (\<lambda>_. ret SigNext))
     | SAssignField base field _ e \<Rightarrow> and_then (ev e) (\<lambda>v.
         and_then (set_path cx [base, field] v) (\<lambda>_. ret SigNext))
     | SArrayIndexAssign root indices _ e _ \<Rightarrow> exec_index_assign cx ev root indices e
     | SPrintln e \<Rightarrow> and_then (print_value cx ev True False e) (\<lambda>_. ret SigNext)
     | SPrint e \<Rightarrow> and_then (print_value cx ev False False e) (\<lambda>_. ret SigNext)
     | SEprintln e \<Rightarrow> and_then (print_value cx ev True True e) (\<lambda>_. ret SigNext)
     | SEprint e \<Rightarrow> and_then (print_value cx ev False True e) (\<lambda>_. ret SigNext)
     | SExpr e \<Rightarrow> and_then (ev e) (\<lambda>_. ret SigNext)
     | SReturn result \<Rightarrow> (case result of
         None \<Rightarrow> ret (SigReturn VVoid)
       | Some e \<Rightarrow> and_then (ev e) (\<lambda>v. ret (SigReturn v)))
     | SIf condition body else_body \<Rightarrow> and_then (eval_bool ev condition) (\<lambda>b.
         if b then blk body else blk else_body)
     | SLoop loop body \<Rightarrow> exec_loop n cx ev blk loop body
     | SBreak \<Rightarrow> ret SigBreak
     | SContinue \<Rightarrow> ret SigContinue
     | SMatch e _ _ arms \<Rightarrow> exec_match ev blk e arms
     | SLetElse binding _ e _ _ variant else_body \<Rightarrow> exec_let_else ev blk binding e variant else_body
     | SIfLet binding _ e _ _ variant body else_body \<Rightarrow> exec_if_let ev blk binding e variant body else_body
     | SDefer _ \<Rightarrow> panic
     | SPanic e \<Rightarrow> eval_panic cx ev e
     | SQuestionLet carrier name ty _ _ e actions \<Rightarrow> exec_question_let cx ev carrier name ty e actions
     | SQuestionReturn _ _ _ _ e _ \<Rightarrow> and_then (ev e) (\<lambda>v. ret (SigReturn v))
     | STaskSelect _ \<Rightarrow> capability ''task select''
     | SLetIf _ _ _ _ _ \<Rightarrow> control_flow_unsupported
     | SLetMatch _ _ _ _ _ _ \<Rightarrow> control_flow_unsupported)"

text \<open>The loop of \<open>exec_block\<close> over the statements, with the calls deferred so far.\<close>

fun block_loop ::
  "nat \<Rightarrow> 'f session \<Rightarrow> 'f evaluator \<Rightarrow> (statement list \<Rightarrow> ('f, 'f signal) run) \<Rightarrow> deferred_call list
    \<Rightarrow> statement list \<Rightarrow> ('f, 'f signal) run" where
  "block_loop n cx ev blk deferred [] = and_then (run_deferred cx ev deferred) (\<lambda>_. ret SigNext)"
| "block_loop n cx ev blk deferred (s # rest) = and_then (tick cx) (\<lambda>_.
     case s of
       SDefer c \<Rightarrow> block_loop n cx ev blk (deferred @ [c]) rest
     | _ \<Rightarrow> and_then (exec_statement n cx ev blk s) (\<lambda>signal.
         if is_next signal then block_loop n cx ev blk deferred rest
         else and_then (run_deferred cx ev deferred) (\<lambda>_. ret signal)))"

section \<open>Tying the knot\<close>

fun eval_expr :: "nat \<Rightarrow> 'f session \<Rightarrow> value_expr \<Rightarrow> ('f, 'f rt_value) run"
  and exec_block :: "nat \<Rightarrow> 'f session \<Rightarrow> statement list \<Rightarrow> ('f, 'f signal) run" where
  "eval_expr 0 cx e = out_of_fuel"
| "eval_expr (Suc n) cx e = and_then (tick cx) (\<lambda>_. eval_arms cx (eval_expr n cx) (exec_block n cx) e)"
| "exec_block 0 cx body = out_of_fuel"
| "exec_block (Suc n) cx body = block_loop n cx (eval_expr n cx) (exec_block n cx) [] body"

text \<open>The constants in order, then \<open>main\<close>, which must return nothing.\<close>

fun define_constants :: "nat \<Rightarrow> 'f session \<Rightarrow> const_decl list \<Rightarrow> ('f, unit) run" where
  "define_constants n cx [] = ret ()"
| "define_constants n cx (c # cs) =
     and_then (eval_expr n cx (const_initializer c)) (\<lambda>v.
     and_then (lift (coerce (ses_platform cx) v (const_type c))) (\<lambda>v.
     and_then (update (\<lambda>m. m\<lparr>mc_globals := (mc_globals m)(const_name c \<mapsto> v)\<rparr>)) (\<lambda>_.
       define_constants n cx cs)))"

definition run_main_with :: "nat \<Rightarrow> 'f session \<Rightarrow> ('f, unit) run" where
  "run_main_with n cx =
     and_then (define_constants n cx (prog_consts (ses_program cx))) (\<lambda>_.
     and_then (call_function cx (eval_expr n cx) (exec_block n cx) ''main'' []) (\<lambda>v.
       case v of VVoid \<Rightarrow> ret () | _ \<Rightarrow> raise (runtime_failure ''`main` returned a non-void value'')))"

definition run_main :: "'f session \<Rightarrow> ('f, unit) run" where
  "run_main cx = run_main_with (unat (max_steps (ses_limits cx)) + 1) cx"

end
