(* ===== verification/Interp_Contract.thy ===== *)
theory Interp_Contract
  imports Interp_Eval
begin

text \<open>
  What every method of the interpreter keeps, proved once for any contract that its few accesses of the
  machine keep.

  A contract is a precondition on machines, a relation between the machines before and after a success,
  another one for an interruption, and whether running out of fuel is allowed. The locale asks for it
  to be kept by counting a step, by writing output below the limit, by setting a variable of the current
  frame, and by a call that pushes and pops a frame; it concludes that the arms of both walks keep it
  when the walks do. \<open>Interp_Limits\<close> and \<open>Interp_Termination\<close> interpret it.
\<close>

definition keeps ::
  "('f machine \<Rightarrow> bool) \<Rightarrow> ('f machine \<Rightarrow> 'f machine \<Rightarrow> bool) \<Rightarrow> ('f machine \<Rightarrow> 'f machine \<Rightarrow> bool) \<Rightarrow> bool
    \<Rightarrow> ('f, 'a) run \<Rightarrow> bool" where
  "keeps pre good bad diverges c \<longleftrightarrow> (\<forall>m. pre m \<longrightarrow> (case c m of
       None \<Rightarrow> diverges
     | Some (Inl _, m') \<Rightarrow> bad m m'
     | Some (Inr _, m') \<Rightarrow> good m m'))"

lemma keepsI:
  assumes "\<And>m. pre m \<Longrightarrow> c m = None \<Longrightarrow> diverges"
    and "\<And>m e m'. pre m \<Longrightarrow> c m = Some (Inl e, m') \<Longrightarrow> bad m m'"
    and "\<And>m x m'. pre m \<Longrightarrow> c m = Some (Inr x, m') \<Longrightarrow> good m m'"
  shows "keeps pre good bad diverges c"
  using assms by (auto simp: keeps_def split: option.splits sum.splits)

lemma keepsE:
  assumes "keeps pre good bad diverges c" "pre m"
  obtains "c m = None" "diverges"
  | e m' where "c m = Some (Inl e, m')" "bad m m'"
  | x m' where "c m = Some (Inr x, m')" "good m m'"
proof -
  have *: "case c m of None \<Rightarrow> diverges | Some (Inl _, m') \<Rightarrow> bad m m' | Some (Inr _, m') \<Rightarrow> good m m'"
    using assms by (simp add: keeps_def)
  show ?thesis
  proof (cases "c m")
    case (Some p)
    obtain r m' where "p = (r, m')" by fastforce
    with * Some that show ?thesis by (cases r) auto
  qed (use * that in auto)
qed

locale run_contract =
  fixes cx :: "'f session"
    and pre :: "'f machine \<Rightarrow> bool"
    and good bad :: "'f machine \<Rightarrow> 'f machine \<Rightarrow> bool"
    and diverges :: bool
  assumes good_refl: "good m m"
    and good_trans: "good m1 m2 \<Longrightarrow> good m2 m3 \<Longrightarrow> good m1 m3"
    and good_bad: "good m1 m2 \<Longrightarrow> bad m2 m3 \<Longrightarrow> bad m1 m3"
    and bad_refl: "bad m m"
    and good_pre: "pre m \<Longrightarrow> good m m' \<Longrightarrow> pre m'"
    and good_depth: "good m m' \<Longrightarrow> length (mc_frames m') = length (mc_frames m)"
    and tick_good: "pre m \<Longrightarrow> saturating_inc (mc_steps m) \<le> max_steps (ses_limits cx)
      \<Longrightarrow> good m (m\<lparr>mc_steps := saturating_inc (mc_steps m)\<rparr>)"
    and tick_bad: "pre m \<Longrightarrow> bad m (m\<lparr>mc_steps := saturating_inc (mc_steps m)\<rparr>)"
    and stdout_good: "pre m
      \<Longrightarrow> saturating_add_u64 (output_bytes m) (length s) \<le> unat (max_output_bytes (ses_limits cx))
      \<Longrightarrow> good m (m\<lparr>mc_stdout := mc_stdout m @ s\<rparr>)"
    and stderr_good: "pre m
      \<Longrightarrow> saturating_add_u64 (output_bytes m) (length s) \<le> unat (max_output_bytes (ses_limits cx))
      \<Longrightarrow> good m (m\<lparr>mc_stderr := mc_stderr m @ s\<rparr>)"
    and frame_good: "pre m \<Longrightarrow> mc_frames m \<noteq> []
      \<Longrightarrow> good m (m\<lparr>mc_frames := butlast (mc_frames m) @ [f]\<rparr>)"
    and push_pre: "pre m \<Longrightarrow> length (mc_frames m) < unat (max_call_depth (ses_limits cx))
      \<Longrightarrow> pre (m\<lparr>mc_frames := mc_frames m @ [f]\<rparr>)"
    and pop_good: "pre m \<Longrightarrow> length (mc_frames m) < unat (max_call_depth (ses_limits cx))
      \<Longrightarrow> good (m\<lparr>mc_frames := mc_frames m @ [f]\<rparr>) m'
      \<Longrightarrow> good m (m'\<lparr>mc_frames := butlast (mc_frames m')\<rparr>)"
    and push_bad: "pre m \<Longrightarrow> length (mc_frames m) < unat (max_call_depth (ses_limits cx))
      \<Longrightarrow> bad (m\<lparr>mc_frames := mc_frames m @ [f]\<rparr>) m' \<Longrightarrow> bad m m'"
begin

abbreviation ok :: "('f, 'a) run \<Rightarrow> bool" where
  "ok c \<equiv> keeps pre good bad diverges c"

lemma ok_ret [intro!, simp]: "ok (ret x)"
  by (simp add: keeps_def ret_def good_refl)

lemma ok_raise [intro!, simp]: "ok (raise e)"
  by (simp add: keeps_def raise_def bad_refl)

lemma ok_panic [intro!, simp]: "ok panic"
  by (simp add: keeps_def panic_def bad_refl)

lemma ok_lift [intro!, simp]: "ok (lift r)"
  by (cases r) simp_all

lemma ok_inspect [intro!, simp]: "ok (inspect f)"
  by (simp add: keeps_def inspect_def good_refl)

lemma ok_and_then [intro!]:
  assumes c: "ok c" and k: "\<And>x. ok (k x)"
  shows "ok (and_then c k)"
  unfolding keeps_def
proof (intro allI impI)
  fix m assume "pre m"
  with c show "case and_then c k m of None \<Rightarrow> diverges | Some (Inl _, m') \<Rightarrow> bad m m' | Some (Inr _, m') \<Rightarrow> good m m'"
  proof (cases rule: keepsE)
    case (3 x m')
    with k [of x] \<open>pre m\<close> have "pre m'" by (blast intro: good_pre)
    with k [of x] show ?thesis
      by (cases rule: keepsE) (use 3 good_trans good_bad in \<open>auto simp: and_then_def\<close>)
  qed (auto simp: and_then_def)
qed

lemma ok_if [intro!]: "ok c \<Longrightarrow> ok d \<Longrightarrow> ok (if b then c else d)"
  by simp

lemma ok_case_option [intro!]: "ok c \<Longrightarrow> (\<And>x. ok (k x)) \<Longrightarrow> ok (case r of None \<Rightarrow> c | Some x \<Rightarrow> k x)"
  by (simp split: option.split)

lemma ok_case_prod [intro!]: "(\<And>x y. ok (k x y)) \<Longrightarrow> ok (case p of (x, y) \<Rightarrow> k x y)"
  by (simp split: prod.split)

lemma ok_let [intro!]: "ok (k x) \<Longrightarrow> ok (let y = x in k y)"
  by simp

lemma ok_run_map [intro!]: "(\<And>x. x \<in> set xs \<Longrightarrow> ok (f x)) \<Longrightarrow> ok (run_map f xs)"
  by (induction xs) auto

text \<open>Steps, output and variables.\<close>

lemma ok_tick [intro!, simp]: "ok (tick cx)"
  by (auto simp: keeps_def tick_def and_then_def update_def inspect_def raise_def ret_def
      tick_good tick_bad not_less)

lemma ok_write_output [intro!, simp]: "ok (write_output cx v ends_line to_stderr)"
proof -
  let ?written = "display_value (ses_platform cx) v @ (if ends_line then [CHR 0x0A] else [])"
  have "length ?written = length (display_value (ses_platform cx) v) + (if ends_line then 1 else 0)"
    by simp
  then show ?thesis
    using stdout_good [of _ ?written] stderr_good [of _ ?written]
    by (auto simp: keeps_def write_output_def Let_def and_then_def update_def inspect_def raise_def bad_refl)
qed

lemma ok_write [intro!, simp]: "ok (write_stdout cx v b)" "ok (write_stderr cx v b)"
  by (simp_all add: write_stdout_def write_stderr_def)

lemma ok_current_frame [intro!, simp]: "ok current_frame"
  unfolding current_frame_def by auto

lemma ok_insert_variable [intro!, simp]: "ok (insert_variable name v)"
  by (auto simp: keeps_def insert_variable_def current_frame_def and_then_def update_def inspect_def raise_def
      ret_def bad_refl frame_good)

lemma ok_get_variable [intro!, simp]: "ok (get_variable name)"
  unfolding get_variable_def by auto

lemma ok_set_variable [intro!, simp]: "ok (set_variable cx name v)"
  unfolding set_variable_def by auto

lemma ok_get_path [intro!, simp]: "ok (get_path path)"
  unfolding get_path_def by (cases path) auto

lemma ok_set_path [intro!, simp]: "ok (set_path cx [base, field] v)"
  unfolding set_path_def by auto

text \<open>Runs on machines with a known number of frames.\<close>

abbreviation ok_at :: "nat \<Rightarrow> ('f, 'a) run \<Rightarrow> bool" where
  "ok_at d c \<equiv> keeps (\<lambda>m. pre m \<and> length (mc_frames m) = d) good bad diverges c"

lemma ok_at_ok: "ok c \<Longrightarrow> ok_at d c"
  by (simp add: keeps_def)

lemma ok_at_and_then:
  assumes c: "ok_at d c" and k: "\<And>x. ok_at d (k x)"
  shows "ok_at d (and_then c k)"
  unfolding keeps_def
proof (intro allI impI)
  fix m assume m: "pre m \<and> length (mc_frames m) = d"
  from c this
  show "case and_then c k m of None \<Rightarrow> diverges | Some (Inl _, m') \<Rightarrow> bad m m' | Some (Inr _, m') \<Rightarrow> good m m'"
  proof (cases rule: keepsE)
    case (3 x m')
    with m have "pre m' \<and> length (mc_frames m') = d" by (auto intro: good_pre dest: good_depth)
    with k [of x] show ?thesis
      by (cases rule: keepsE) (use 3 good_trans good_bad in \<open>auto simp: and_then_def\<close>)
  qed (auto simp: and_then_def)
qed

lemma ok_at_if:
  "(b \<Longrightarrow> ok_at d c) \<Longrightarrow> (\<not> b \<Longrightarrow> ok_at d e) \<Longrightarrow> ok_at d (if b then c else e)"
  by simp

lemma ok_at_case_option:
  "ok_at d c \<Longrightarrow> (\<And>x. ok_at d (k x)) \<Longrightarrow> ok_at d (case r of None \<Rightarrow> c | Some x \<Rightarrow> k x)"
  by (simp split: option.split)

lemma ok_inspect_depth:
  "(\<And>d. ok_at d (k d)) \<Longrightarrow> ok (and_then (inspect (\<lambda>m. length (mc_frames m))) k)"
  by (simp add: keeps_def and_then_def inspect_def)

lemma ok_at_inspect_depth:
  "ok_at d (k d) \<Longrightarrow> ok_at d (and_then (inspect (\<lambda>m. length (mc_frames m))) k)"
  by (simp add: keeps_def and_then_def inspect_def)

lemma ok_at_write_back: "0 < d \<Longrightarrow> ok_at d (write_back cx final_frame (d - 1) writebacks)"
proof (induction writebacks)
  case Nil
  then show ?case by (simp add: ok_at_ok)
next
  case (Cons w ws)
  have set_at: "ok_at d (set_path_at cx (d - 1) path v)" for path v
  proof (rule keepsI)
    fix m x m'
    assume m: "pre m \<and> length (mc_frames m) = d" and s: "set_path_at cx (d - 1) path v m = Some (Inr x, m')"
    then obtain f where "m' = m\<lparr>mc_frames := (mc_frames m)[d - 1 := f]\<rparr>"
      using Cons.prems
      by (auto simp: set_path_at_def and_then_def inspect_def update_def lift_def raise_def ret_def
          split: if_splits sum.splits)
    moreover have "(mc_frames m)[d - 1 := f] = butlast (mc_frames m) @ [f]"
      using m Cons.prems by (metis One_nat_def list_update_length append_butlast_last_id length_0_conv
          length_butlast neq0_conv)
    ultimately show "good m m'"
      using m Cons.prems frame_good [of m f] by (metis length_greater_0_conv)
  next
    fix m e m'
    assume "set_path_at cx (d - 1) path v m = Some (Inl e, m')"
    then show "bad m m'"
      by (auto simp: set_path_at_def and_then_def inspect_def update_def lift_def raise_def ret_def panic_def
          bad_refl split: if_splits sum.splits)
  next
    fix m
    assume "set_path_at cx (d - 1) path v m = None"
    then show diverges
      by (auto simp: set_path_at_def and_then_def inspect_def update_def lift_def raise_def ret_def panic_def
          split: if_splits sum.splits)
  qed
  show ?case
    using Cons by (cases w) (auto simp del: One_nat_def intro!: ok_at_and_then set_at intro: ok_at_ok)
qed

lemma ok_at_framed:
  assumes d: "d < unat (max_call_depth (ses_limits cx))" and body: "ok body"
    and rest: "\<And>s final_frame. ok_at d (k s final_frame)"
  shows "ok_at d (and_then (push_frame f) (\<lambda>_. and_then body (\<lambda>s. and_then pop_frame (\<lambda>final_frame. k s final_frame))))"
    (is "ok_at d ?run")
  unfolding keeps_def
proof (intro allI impI)
  fix m assume m: "pre m \<and> length (mc_frames m) = d"
  let ?pushed = "m\<lparr>mc_frames := mc_frames m @ [f]\<rparr>"
  have run: "?run m = and_then body (\<lambda>s. and_then pop_frame (k s)) ?pushed"
    by (simp add: and_then_def push_frame_def update_def)
  have "pre ?pushed" using m d by (intro push_pre) auto
  with body
  show "case ?run m of None \<Rightarrow> diverges | Some (Inl _, m') \<Rightarrow> bad m m' | Some (Inr _, m') \<Rightarrow> good m m'"
  proof (cases rule: keepsE)
    case (2 e m')
    then have "bad m m'" using m d by (intro push_bad [of m f m']) auto
    with 2 show ?thesis unfolding run by (simp add: and_then_def)
  next
    case (3 s m')
    let ?popped = "m'\<lparr>mc_frames := butlast (mc_frames m')\<rparr>"
    have len: "length (mc_frames m') = Suc d" using good_depth [OF 3(2)] m by simp
    have good: "good m ?popped" using m d 3 by (intro pop_good [of m f m']) auto
    have "pre ?popped \<and> length (mc_frames ?popped) = d" using good_pre [OF _ good] m len by simp
    moreover have "?run m = k s (last (mc_frames m')) ?popped"
      unfolding run using len 3 by (auto simp: and_then_def pop_frame_def inspect_def update_def ret_def)
    ultimately show ?thesis
      using rest [of s "last (mc_frames m')"] good
      by (elim keepsE) (auto intro: good_trans good_bad)
  qed (unfold run, simp add: and_then_def)
qed

end

end
