(* ===== verification/Interp_Arms.thy ===== *)
theory Interp_Arms
  imports Interp_Contract
begin

text \<open>
  The arms of both walks keep every contract of \<open>Interp_Contract\<close> when the walks they call keep it.
\<close>

context run_contract begin

text \<open>Calls.\<close>

lemma ok_bind_parameters [intro!]:
  assumes "\<And>e. ok (ev e)"
  shows "ok (bind_parameters cx ev args frame writebacks)"
  using assms
proof (induction args arbitrary: frame writebacks)
  case (Cons a args)
  have "ok (eval_argument ev e)" for e
    unfolding eval_argument_def by (cases e) (auto intro: Cons.prems)
  with Cons show ?case by (cases a) auto
qed simp

lemma ok_call_body:
  assumes ev: "\<And>e. ok (ev e)" and blk: "\<And>b. ok (blk b)" and d: "d < unat (max_call_depth (ses_limits cx))"
  shows "ok_at d (call_body cx ev blk callee args)"
  unfolding call_body_def
proof (intro ok_at_inspect_depth ok_at_and_then)
  show "ok_at d (bind_parameters cx ev (zip (fun_params callee) args) Map.empty [])"
    by (intro ok_at_ok ok_bind_parameters ev)
next
  have rest: "ok_at d (and_then (if d = 0 then ret () else write_back cx final_frame (d - 1) writebacks)
      (\<lambda>_. and_then (lift (call_result signal)) (\<lambda>v. lift (coerce (ses_platform cx) v (fun_return_type callee)))))"
    for final_frame writebacks signal
    by (intro ok_at_and_then ok_at_if ok_at_write_back ok_at_ok [OF ok_ret] ok_at_ok [OF ok_lift]) simp
  fix bound :: "'f frame \<times> (string \<times> string list) list"
  obtain frame writebacks where bound: "bound = (frame, writebacks)" by fastforce
  show "ok_at d (case bound of (frame, writebacks) \<Rightarrow>
     and_then (push_frame frame) (\<lambda>_. and_then (blk (fun_body callee)) (\<lambda>signal. and_then pop_frame (\<lambda>final_frame.
       and_then (if d = 0 then ret () else write_back cx final_frame (d - 1) writebacks) (\<lambda>_.
         and_then (lift (call_result signal)) (\<lambda>v. lift (coerce (ses_platform cx) v (fun_return_type callee))))))))"
    unfolding bound prod.case by (rule ok_at_framed [OF d blk rest])
qed

lemma ok_call_declared [intro!]:
  assumes "\<And>e. ok (ev e)" "\<And>b. ok (blk b)"
  shows "ok (call_declared cx ev blk name args)"
  unfolding call_declared_def
  by (intro ok_inspect_depth ok_at_if ok_at_case_option ok_at_ok [OF ok_raise] ok_call_body assms) simp

lemma ok_call_function [intro!]:
  assumes "\<And>e. ok (ev e)" "\<And>b. ok (blk b)"
  shows "ok (call_function cx ev blk name args)"
  unfolding call_function_def by (auto intro!: assms split: option.split builtin.split list.split)

text \<open>The evaluators of one operand.\<close>

lemma ok_operands:
  assumes "\<And>e. ok (ev e)"
  shows "ok (eval_arg ev args i)" "ok (eval_text ev e)" "ok (eval_text_arg ev args i)" "ok (eval_bool ev e)"
    "ok (eval_index ev e)" "ok (eval_array ev e)" "ok (print_value cx ev ends_line to_stderr e)"
  using assms
  by (auto simp: eval_arg_def eval_text_def eval_text_arg_def eval_bool_def eval_index_def eval_array_def
      print_value_def)

lemma ok_array_variable [intro!, simp]: "ok (array_variable name)"
  unfolding array_variable_def by auto

lemma ok_bind_payload [intro!, simp]: "ok (bind_payload binding payload)"
  unfolding bind_payload_def by (cases binding; cases payload) auto

lemma ok_capability [intro!, simp]: "ok (capability name)" "ok (unsupported_intrinsic cx e)"
  by (simp_all add: capability_def unsupported_intrinsic_def)

lemma ok_rpc_result [intro!, simp]: "ok (rpc_result f r)"
  by (simp add: rpc_result_def)

lemma ok_helpers:
  assumes "\<And>e. ok (ev e)"
  shows "ok (eval_json_structured ev jop args)" "ok (eval_jsonrpc ev rop args)" "ok (eval_cron ev cop args)"
    "ok (eval_binary cx ev l op r)"
proof -
  show "ok (eval_json_structured ev jop args)"
    unfolding eval_json_structured_def by (cases jop) (auto intro!: ok_operands assms)
  show "ok (eval_jsonrpc ev rop args)"
    unfolding eval_jsonrpc_def by (cases rop) (auto intro!: ok_operands assms)
  show "ok (eval_cron ev cop args)"
    unfolding eval_cron_def by (cases cop) (auto intro!: ok_operands assms)
  show "ok (eval_binary cx ev l op r)"
    unfolding eval_binary_def Let_def by (auto intro!: ok_operands assms)
qed

lemma ok_intrinsics:
  assumes "\<And>e. ok (ev e)"
  shows "ok (eval_intrinsic0 cx op0)" "ok (eval_intrinsic1 cx ev op1 x)" "ok (eval_intrinsic2 cx ev op2 x y)"
proof -
  have parts: "ok (eval_char ev f x)" "ok (eval_variant_test ev name x)" "ok (eval_unwrap_or ev name x y)"
    "ok (eval_texts ev g x y)" "ok (eval_num_binary cx f2 bop v w)" for f name g f2 bop v w
    unfolding eval_char_def eval_variant_test_def eval_unwrap_or_def eval_texts_def eval_num_binary_def
    by (auto intro!: ok_operands assms split: rt_value.split num_binary_function.split)
  show "ok (eval_intrinsic0 cx op0)"
    unfolding eval_intrinsic0_def by (cases op0) auto
  show "ok (eval_intrinsic1 cx ev op1 x)"
    unfolding eval_intrinsic1_def Let_def by (cases op1) (auto intro!: ok_operands parts assms)
  show "ok (eval_intrinsic2 cx ev op2 x y)"
    unfolding eval_intrinsic2_def by (cases op2) (auto intro!: ok_operands parts assms)
qed

lemma ok_compound:
  assumes "\<And>e. ok (ev e)"
  shows "ok (eval_string_compare ev l op r)" "ok (eval_array_index ev l r)" "ok (eval_array_get ev l r)"
    "ok (eval_array_push ev name l)" "ok (eval_array_pop name)" "ok (eval_array_set cx ev name l r)"
    "ok (eval_array_insert ev name l r)" "ok (eval_array_remove ev name l)" "ok (eval_array_clear name)"
    "ok (eval_struct_literal ev name entries)" "ok (eval_payload_field ev l name field)"
    "ok (eval_enum_variant ev enum_name name payload)" "ok (eval_match ev l arms)" "ok (eval_panic cx ev l)"
  unfolding eval_string_compare_def eval_array_index_def eval_array_get_def eval_array_push_def
    eval_array_pop_def eval_array_set_def eval_array_insert_def eval_array_remove_def eval_array_clear_def
    eval_struct_literal_def eval_payload_field_def eval_enum_variant_def eval_match_def eval_panic_def
  by (auto intro!: ok_operands assms split: binary_op.split rt_value.split)

lemma ok_eval_arms:
  assumes "\<And>e. ok (ev e)" "\<And>b. ok (blk b)"
  shows "ok (eval_arms cx ev blk e)"
  unfolding eval_arms_def Let_def
  by (cases e) (auto intro!: ok_operands ok_helpers ok_intrinsics ok_compound assms)

text \<open>Loops keep the contract when their parts do, and when running out of fuel is allowed.\<close>

lemma ok_iterate_body [intro!]: "ok body \<Longrightarrow> ok again \<Longrightarrow> ok (iterate_body body again)"
  unfolding iterate_body_def by (auto split: option.split)

lemma ok_iterate_loop: "ok body \<Longrightarrow> ok (iterate_loop cx binding body vs)"
  by (induction vs) auto

lemma ok_exec_loop:
  assumes ev: "\<And>e. ok (ev e)" and blk: "\<And>b. ok (blk b)"
    and infinite: "\<And>b. ok b \<Longrightarrow> ok (infinite_loop n cx b)"
    and while: "\<And>c a b. ok c \<Longrightarrow> ok a \<Longrightarrow> ok b \<Longrightarrow> ok (while_loop n cx c a b)"
  shows "ok (exec_loop n cx ev blk loop body)"
  unfolding exec_loop_def Let_def
  by (cases loop) (auto intro!: ok_operands ev blk infinite while ok_iterate_loop)

lemma ok_run_deferred:
  assumes "\<And>e. ok (ev e)"
  shows "ok (run_deferred cx ev deferred)"
proof -
  have "ok (run_deferred_call cx ev c)" for c
    unfolding run_deferred_call_def by (cases c) (auto intro!: ok_operands assms)
  then have "ok (run_deferred_calls cx ev cs)" for cs
    by (induction cs) auto
  then show ?thesis by (simp add: run_deferred_def)
qed

lemma ok_exec_statement:
  assumes ev: "\<And>e. ok (ev e)" and blk: "\<And>b. ok (blk b)"
    and loop: "\<And>l b. ok (exec_loop n cx ev blk l b)"
  shows "ok (exec_statement n cx ev blk s)"
proof -
  have parts: "ok (exec_match ev blk e arms)" "ok (exec_let_else ev blk name e variant body)"
    "ok (exec_if_let ev blk binding e variant body else_body)"
    "ok (exec_question_let cx ev carrier name ty e actions)"
    "ok (exec_index_assign cx ev name indices e)" "ok control_flow_unsupported"
    for e arms name variant body binding else_body carrier ty actions indices
    unfolding exec_match_def exec_let_else_def exec_if_let_def exec_question_let_def exec_index_assign_def
      control_flow_unsupported_def Let_def
    by (auto intro!: ok_operands ev blk split: rt_value.split option.split)
  show ?thesis
    unfolding exec_statement_def
    by (cases s) (auto intro!: ok_operands parts ev blk loop ok_compound)
qed

lemma ok_block_loop:
  assumes ev: "\<And>e. ok (ev e)" and blk: "\<And>b. ok (blk b)"
    and loop: "\<And>l b. ok (exec_loop n cx ev blk l b)"
  shows "ok (block_loop n cx ev blk deferred body)"
proof (induction body arbitrary: deferred)
  case Nil
  show ?case by (auto intro!: ok_run_deferred ev)
next
  case (Cons s body)
  have "ok (case s of SDefer c \<Rightarrow> block_loop n cx ev blk (deferred @ [c]) body
     | _ \<Rightarrow> and_then (exec_statement n cx ev blk s) (\<lambda>signal.
         if is_next signal then block_loop n cx ev blk deferred body
         else and_then (run_deferred cx ev deferred) (\<lambda>_. ret signal)))"
    by (cases s) (auto intro!: ok_exec_statement ok_run_deferred ev blk loop Cons.IH)
  then show ?case by auto
qed

end

section \<open>Contracts that allow running out of fuel\<close>

locale safety_contract = run_contract cx pre good bad True
  for cx :: "'f session" and pre good bad
begin

lemma ok_out_of_fuel [intro!, simp]: "ok out_of_fuel"
  by (simp add: keeps_def out_of_fuel_def)

lemma ok_loops:
  "ok body \<Longrightarrow> ok (infinite_loop n cx body)"
  "ok condition \<Longrightarrow> ok next_step \<Longrightarrow> ok body \<Longrightarrow> ok (while_loop n cx condition next_step body)"
  by (induction n) auto

theorem ok_walks: "ok (eval_expr n cx e)" "ok (exec_block n cx body)"
proof (induction n arbitrary: e body)
  case (Suc n)
  { case 1 show ?case using Suc by (auto intro!: ok_eval_arms) }
  { case 2 show ?case using Suc by (auto intro!: ok_block_loop ok_exec_loop ok_loops) }
qed auto

end

section \<open>Contracts of whole programs\<close>

locale program_contract = run_contract cx pre good bad diverges
  for cx :: "'f session" and pre good bad diverges +
  assumes global_good: "good m (m\<lparr>mc_globals := g\<rparr>)"
begin

lemma ok_run_main_with:
  assumes "\<And>e. ok (eval_expr n cx e)" "\<And>b. ok (exec_block n cx b)"
  shows "ok (run_main_with n cx)"
proof -
  have "ok (update (\<lambda>m. m\<lparr>mc_globals := (mc_globals m)(name \<mapsto> v)\<rparr>))" for name v
    by (simp add: keeps_def update_def global_good)
  then have "ok (define_constants n cx cs)" for cs
    by (induction cs) (auto intro: assms)
  then show ?thesis
    unfolding run_main_with_def by (auto intro!: assms split: rt_value.split)
qed

end

end
