(* ===== verification/Interp_Limits.thy ===== *)
theory Interp_Limits
  imports Interp_Arms
begin

text \<open>
  Two contracts that every run keeps, whatever the fuel: the limits of the sandbox, and the separation of
  the frames of the call stack.
\<close>

section \<open>The limits of the sandbox\<close>

text \<open>A machine that still runs has not counted more steps than allowed. One that was stopped may have
  counted the step that stopped it.\<close>

definition output_within :: "'f session \<Rightarrow> 'f machine \<Rightarrow> bool" where
  "output_within cx m \<longleftrightarrow> min (output_bytes m) 18446744073709551615 \<le> unat (max_output_bytes (ses_limits cx))
     \<and> length (mc_frames m) \<le> unat (max_call_depth (ses_limits cx))"

definition within_limits :: "'f session \<Rightarrow> 'f machine \<Rightarrow> bool" where
  "within_limits cx m \<longleftrightarrow> unat (mc_steps m) \<le> unat (max_steps (ses_limits cx)) \<and> output_within cx m"

definition stopped_within :: "'f session \<Rightarrow> 'f machine \<Rightarrow> bool" where
  "stopped_within cx m \<longleftrightarrow> unat (mc_steps m) \<le> unat (max_steps (ses_limits cx)) + 1 \<and> output_within cx m"

definition limits_good :: "'f session \<Rightarrow> 'f machine \<Rightarrow> 'f machine \<Rightarrow> bool" where
  "limits_good cx m m' \<longleftrightarrow> (within_limits cx m \<longrightarrow> within_limits cx m')
     \<and> length (mc_frames m') = length (mc_frames m)"

definition limits_bad :: "'f session \<Rightarrow> 'f machine \<Rightarrow> 'f machine \<Rightarrow> bool" where
  "limits_bad cx m m' \<longleftrightarrow> (within_limits cx m \<longrightarrow> stopped_within cx m')"

lemmas limits_unfold = limits_good_def limits_bad_def within_limits_def stopped_within_def output_within_def

lemma unat_saturating_inc: "unat (saturating_inc w) = (if w = - 1 then unat w else unat w + 1)"
proof (cases "w = - 1")
  case False
  then have "w + 1 \<noteq> 0" by (metis add.commute eq_neg_iff_add_eq_0)
  then have "unat (w + 1) = unat w + 1" by (metis add.commute unatSuc Suc_eq_plus1)
  with False show ?thesis by (simp add: saturating_inc_def)
qed (simp add: saturating_inc_def)

interpretation limits: safety_contract cx "within_limits cx" "limits_good cx" "limits_bad cx" for cx
proof unfold_locales
  fix m :: "'a machine"
  assume "within_limits cx m"
  then show "limits_bad cx m (m\<lparr>mc_steps := saturating_inc (mc_steps m)\<rparr>)"
    by (auto simp: limits_unfold output_bytes_def unat_saturating_inc)
next
  fix m m' :: "'a machine" and f
  assume "limits_good cx (m\<lparr>mc_frames := mc_frames m @ [f]\<rparr>) m'" "within_limits cx m"
    "length (mc_frames m) < unat (max_call_depth (ses_limits cx))"
  then show "limits_good cx m (m'\<lparr>mc_frames := butlast (mc_frames m')\<rparr>)"
    by (auto simp: limits_unfold output_bytes_def)
qed (auto simp: limits_unfold output_bytes_def saturating_add_u64_def word_le_nat_alt add.assoc)

interpretation limits_program:
  program_contract cx "within_limits cx" "limits_good cx" "limits_bad cx" True for cx
  by unfold_locales (auto simp: limits_unfold output_bytes_def)

lemma new_machine_within [simp]: "within_limits cx (new_machine cx)"
  by (simp add: within_limits_def output_within_def new_machine_def output_bytes_def)

lemma new_machine_stays:
  "limits_good cx (new_machine cx) m \<Longrightarrow> within_limits cx m"
  "limits_bad cx (new_machine cx) m \<Longrightarrow> stopped_within cx m"
  by (simp_all add: limits_good_def limits_bad_def)

lemma run_main_limits: "limits.ok cx (run_main_with n cx)"
  by (intro limits_program.ok_run_main_with limits.ok_walks)

section \<open>The frames of the call stack\<close>

text \<open>A walk that succeeds leaves the depth of the stack, every frame below the current one and the
  constants as they were; one that is interrupted leaves the frames below the current one and the constants.\<close>

definition same_callers :: "'f machine \<Rightarrow> 'f machine \<Rightarrow> bool" where
  "same_callers m m' \<longleftrightarrow> length (mc_frames m') = length (mc_frames m)
     \<and> butlast (mc_frames m') = butlast (mc_frames m) \<and> mc_globals m' = mc_globals m"

definition callers_kept :: "'f machine \<Rightarrow> 'f machine \<Rightarrow> bool" where
  "callers_kept m m' \<longleftrightarrow> take (length (mc_frames m) - 1) (mc_frames m') = butlast (mc_frames m)
     \<and> mc_globals m' = mc_globals m"

lemma callers_kept_trans:
  assumes "same_callers m1 m2" "callers_kept m2 m3"
  shows "callers_kept m1 m3"
  using assms by (auto simp: same_callers_def callers_kept_def)

interpretation stack: safety_contract cx "\<lambda>m. True" same_callers callers_kept for cx
proof unfold_locales
  fix m m' :: "'a machine" and f
  assume bad: "callers_kept (m\<lparr>mc_frames := mc_frames m @ [f]\<rparr>) m'"
  then have kept: "take (length (mc_frames m)) (mc_frames m') = mc_frames m" "mc_globals m' = mc_globals m"
    by (simp_all add: callers_kept_def)
  then have "take (length (mc_frames m) - 1) (mc_frames m') = take (length (mc_frames m) - 1) (mc_frames m)"
    by (metis diff_le_self min.absorb1 take_take)
  with kept(2) show "callers_kept m m'"
    by (simp add: callers_kept_def butlast_conv_take)
next
  fix m m' :: "'a machine" and f
  assume "same_callers (m\<lparr>mc_frames := mc_frames m @ [f]\<rparr>) m'"
  then show "same_callers m (m'\<lparr>mc_frames := butlast (mc_frames m')\<rparr>)"
    by (simp add: same_callers_def)
qed (auto simp: same_callers_def callers_kept_def butlast_conv_take intro: callers_kept_trans)

lemma stack_walks:
  "case exec_block n cx body m of None \<Rightarrow> True | Some (Inl _, m') \<Rightarrow> callers_kept m m' | Some (Inr _, m') \<Rightarrow> same_callers m m'"
  "case eval_expr n cx e m of None \<Rightarrow> True | Some (Inl _, m') \<Rightarrow> callers_kept m m' | Some (Inr _, m') \<Rightarrow> same_callers m m'"
  using stack.ok_walks [where cx = cx and n = n] by (simp_all add: keeps_def)

section \<open>What every run keeps\<close>

text \<open>C12. Whatever the program does, the interpreter counts at most one step more than \<open>max_steps\<close>, never
  holds more output than \<open>max_output_bytes\<close> and never more frames than \<open>max_call_depth\<close>, also when it stops
  with an error.\<close>

theorem run_stays_within_limits:
  "case run_main_with n cx (new_machine cx) of
     None \<Rightarrow> True
   | Some (r, m) \<Rightarrow>
       unat (mc_steps m) \<le> unat (max_steps (ses_limits cx)) + 1
       \<and> min (output_bytes m) 18446744073709551615 \<le> unat (max_output_bytes (ses_limits cx))
       \<and> length (mc_frames m) \<le> unat (max_call_depth (ses_limits cx))"
  using run_main_limits [where cx = cx and n = n] new_machine_within [where cx = cx]
  by (cases rule: keepsE)
    (auto dest!: new_machine_stays simp: within_limits_def stopped_within_def output_within_def)

text \<open>C16. Calls are isolated: executing a block leaves the constants and every frame below the current one
  as they were, at the same depth when it succeeds, and so does evaluating an expression; only the frame of
  the running function changes.\<close>

theorem walks_keep_callers:
  "(case exec_block n cx body m of
      None \<Rightarrow> True
    | Some (Inr _, m') \<Rightarrow> length (mc_frames m') = length (mc_frames m)
        \<and> butlast (mc_frames m') = butlast (mc_frames m) \<and> mc_globals m' = mc_globals m
    | Some (Inl _, m') \<Rightarrow> take (length (mc_frames m) - 1) (mc_frames m') = butlast (mc_frames m)
        \<and> mc_globals m' = mc_globals m)
   \<and> (case eval_expr n cx e m of
      None \<Rightarrow> True
    | Some (Inr _, m') \<Rightarrow> length (mc_frames m') = length (mc_frames m)
        \<and> butlast (mc_frames m') = butlast (mc_frames m) \<and> mc_globals m' = mc_globals m
    | Some (Inl _, m') \<Rightarrow> take (length (mc_frames m) - 1) (mc_frames m') = butlast (mc_frames m)
        \<and> mc_globals m' = mc_globals m)"
  by (intro conjI stack_walks [unfolded same_callers_def callers_kept_def])

end
