(* ===== verification/Interp_Termination.thy ===== *)
theory Interp_Termination
  imports Interp_Limits
begin

text \<open>
  The fuel of the model is never exhausted: every nested call and every iteration first counts a step, and
  the number of steps that remain below \<open>max_steps\<close> decreases with it. A walk with more fuel than steps
  remain returns.
\<close>

definition steps_left :: "'f session \<Rightarrow> 'f machine \<Rightarrow> nat" where
  "steps_left cx m = unat (max_steps (ses_limits cx)) - unat (mc_steps m)"

definition fewer_remain :: "'f session \<Rightarrow> 'f machine \<Rightarrow> 'f machine \<Rightarrow> bool" where
  "fewer_remain cx m m' \<longleftrightarrow> steps_left cx m' \<le> steps_left cx m \<and> length (mc_frames m') = length (mc_frames m)"

interpretation steps: program_contract cx "\<lambda>m. steps_left cx m \<le> budget" "fewer_remain cx" "\<lambda>m m'. True" False
  for cx budget
  by unfold_locales (auto simp: fewer_remain_def steps_left_def unat_saturating_inc)

abbreviation ends_within :: "'f session \<Rightarrow> nat \<Rightarrow> ('f, 'a) run \<Rightarrow> bool" where
  "ends_within cx budget c \<equiv> keeps (\<lambda>m. steps_left cx m \<le> budget) (fewer_remain cx) (\<lambda>m m'. True) False c"

lemma ends_within_mono: "ends_within cx budget c \<Longrightarrow> b \<le> budget \<Longrightarrow> ends_within cx b c"
  by (simp add: keeps_def)

text \<open>A step that succeeds leaves one less, unless the limit is the largest \<open>u64\<close>, where counting saturates.\<close>

definition bounded :: "'f session \<Rightarrow> bool" where
  "bounded cx \<longleftrightarrow> max_steps (ses_limits cx) \<noteq> - 1"

lemma tick_remaining:
  assumes run: "tick cx m = Some (Inr x, m')" and max: "bounded cx"
  shows "steps_left cx m = Suc (steps_left cx m') \<and> mc_frames m' = mc_frames m"
proof -
  let ?w = "mc_steps m" and ?max = "max_steps (ses_limits cx)"
  have m': "m' = m\<lparr>mc_steps := saturating_inc ?w\<rparr>" and le: "saturating_inc ?w \<le> ?max"
    using run by (auto simp: tick_def and_then_def update_def inspect_def raise_def ret_def split: if_splits)
  have "?w \<noteq> - 1"
  proof
    assume "?w = - 1"
    with le have "- 1 \<le> ?max" by (simp add: saturating_inc_def)
    with max show False by (simp add: bounded_def word_order.extremum_unique)
  qed
  then have "unat (saturating_inc ?w) = unat ?w + 1" by (simp add: unat_saturating_inc)
  with m' le show ?thesis by (simp add: steps_left_def word_le_nat_alt)
qed

lemma ends_tick:
  assumes max: "bounded cx"
    and rest: "\<And>b. budget = Suc b \<Longrightarrow> ends_within cx b k"
  shows "ends_within cx budget (and_then (tick cx) (\<lambda>_. k))"
  unfolding keeps_def
proof (intro allI impI)
  fix m assume m: "steps_left cx m \<le> budget"
  from steps.ok_tick this
  show "case and_then (tick cx) (\<lambda>_. k) m of None \<Rightarrow> False | Some (Inl _, m') \<Rightarrow> True
    | Some (Inr _, m') \<Rightarrow> fewer_remain cx m m'"
  proof (cases rule: keepsE)
    case (3 x m')
    with tick_remaining [OF 3(1) max] m obtain b where b: "budget = Suc b" "steps_left cx m' \<le> b"
      by (cases budget) auto
    from rest [OF b(1)] b(2) show ?thesis
      by (cases rule: keepsE) (use 3 in \<open>auto simp: and_then_def fewer_remain_def\<close>)
  qed (auto simp: and_then_def)
qed

section \<open>Loops\<close>

lemma ends_infinite_loop:
  assumes max: "bounded cx"
  shows "ends_within cx budget body \<Longrightarrow> budget < n \<Longrightarrow> ends_within cx budget (infinite_loop n cx body)"
proof (induction n arbitrary: budget)
  case (Suc n)
  have le: "budget = Suc b \<Longrightarrow> b \<le> budget" for b by simp
  have "ends_within cx b (iterate_body body (infinite_loop n cx body))" if "budget = Suc b" for b
    using that by (intro steps.ok_iterate_body Suc.IH ends_within_mono [OF Suc.prems(1) le]) (use Suc.prems(2) in simp_all)
  then show ?case by (simp add: ends_tick [OF max])
qed simp

lemma ends_while_loop:
  assumes max: "bounded cx"
  shows "ends_within cx budget c \<Longrightarrow> ends_within cx budget a \<Longrightarrow> ends_within cx budget body \<Longrightarrow> budget < n
    \<Longrightarrow> ends_within cx budget (while_loop n cx c a body)"
proof (induction n arbitrary: budget)
  case (Suc n)
  have le: "budget = Suc b \<Longrightarrow> b \<le> budget" for b by simp
  have "ends_within cx b (iterate_body body (and_then a (\<lambda>_. while_loop n cx c a body)))" if "budget = Suc b" for b
    using that
    by (intro steps.ok_iterate_body steps.ok_and_then Suc.IH ends_within_mono [OF Suc.prems(1) le]
        ends_within_mono [OF Suc.prems(2) le] ends_within_mono [OF Suc.prems(3) le]) (use Suc.prems(4) in simp_all)
  then have "ends_within cx budget (and_then (tick cx) (\<lambda>_.
      iterate_body body (and_then a (\<lambda>_. while_loop n cx c a body))))"
    by (rule ends_tick [OF max])
  then show ?case using Suc.prems by auto
qed simp

lemma ends_run_deferred:
  assumes max: "bounded cx" and ev: "\<And>b c. b < n \<Longrightarrow> ends_within cx b (ev c)" and le: "budget \<le> n"
  shows "ends_within cx budget (run_deferred cx ev deferred)"
proof -
  have call: "ends_within cx b (run_deferred_call cx ev c)" if "b < n" for b c
    unfolding run_deferred_call_def using ev that
    by (cases c) (auto intro!: steps.ok_operands)
  have "ends_within cx b (run_deferred_calls cx ev cs)" if "b \<le> n" for b cs
    using that
  proof (induction cs arbitrary: b)
    case (Cons c cs)
    show ?case
      unfolding run_deferred_calls.simps
      by (rule ends_tick [OF max]) (use Cons call in auto)
  qed simp
  with le show ?thesis by (simp add: run_deferred_def)
qed

section \<open>The walks\<close>

lemma ends_block_loop:
  assumes max: "bounded cx" and ev: "\<And>b e. b < n \<Longrightarrow> ends_within cx b (ev e)"
    and blk: "\<And>b body. b < n \<Longrightarrow> ends_within cx b (blk body)" and le: "budget \<le> n"
  shows "ends_within cx budget (block_loop n cx ev blk deferred body)"
  using le
proof (induction body arbitrary: budget deferred)
  case Nil
  show ?case
    by (auto intro!: ends_run_deferred [OF max, where n = n] ev Nil)
next
  case (Cons s body)
  show ?case
    unfolding block_loop.simps
  proof (rule ends_tick [OF max])
    fix b assume "budget = Suc b"
    with Cons.prems have b: "b < n" "b \<le> n" by auto
    have loop: "ends_within cx b (exec_loop n cx ev blk l body)" for l body
      by (intro steps.ok_exec_loop ends_infinite_loop [OF max] ends_while_loop [OF max] ev blk b)
    have st: "ends_within cx b (exec_statement n cx ev blk s)" for s
      by (intro steps.ok_exec_statement ev blk loop b)
    have rest: "ends_within cx b (and_then (exec_statement n cx ev blk s) (\<lambda>signal.
        if is_next signal then block_loop n cx ev blk deferred body
        else and_then (run_deferred cx ev deferred) (\<lambda>_. ret signal)))" for s
      by (intro steps.ok_and_then steps.ok_if st Cons.IH b steps.ok_ret ends_run_deferred [OF max, where n = n] ev)
    show "ends_within cx b (case s of SDefer c \<Rightarrow> block_loop n cx ev blk (deferred @ [c]) body
     | _ \<Rightarrow> and_then (exec_statement n cx ev blk s) (\<lambda>signal.
         if is_next signal then block_loop n cx ev blk deferred body
         else and_then (run_deferred cx ev deferred) (\<lambda>_. ret signal)))"
      by (cases s) (simp_all only: statement.case rest Cons.IH b)
  qed
qed

lemma walks_end:
  assumes max: "bounded cx"
  shows "budget < n \<Longrightarrow> ends_within cx budget (eval_expr n cx e)"
    "budget < n \<Longrightarrow> ends_within cx budget (exec_block n cx body)"
proof (induction n arbitrary: budget e body)
  case (Suc n)
  { case 1
    have "ends_within cx b (eval_arms cx (eval_expr n cx) (exec_block n cx) e)" if "budget = Suc b" for b
      using 1 that by (intro steps.ok_eval_arms Suc) auto
    then show ?case by (simp add: ends_tick [OF max]) }
  { case 2
    then show ?case by (auto intro!: ends_block_loop [OF max] Suc) }
qed simp_all

end
