(* ===== verification/Interp_Modes.thy ===== *)
theory Interp_Modes
  imports Interp_Arms Mir_Modes
begin

text \<open>
  Two programs that differ only in mutation modes run alike in the interpreter, and more fuel does not
  change a run that ends.

  Both are instances of one simulation. A run \<open>approximates\<close> another one when, wherever it ends, the other
  ends in the same machine with the same result. For programs with different modes the texts of the
  errors may differ: the error of an unsupported operation prints the expression, with its modes.
\<close>

section \<open>Approximation of runs\<close>

definition same_stop :: "bool \<Rightarrow> interruption \<Rightarrow> interruption \<Rightarrow> bool" where
  "same_stop up e e' \<longleftrightarrow> (if up then
       (case e of Failure a \<Rightarrow> (case e' of Failure b \<Rightarrow> rt_code a = rt_code b | Panicked \<Rightarrow> False)
        | Panicked \<Rightarrow> e' = Panicked)
     else e = e')"

definition approximates :: "bool \<Rightarrow> ('f, 'a) run \<Rightarrow> ('f, 'a) run \<Rightarrow> bool" where
  "approximates up c d \<longleftrightarrow> (\<forall>m. case c m of
       None \<Rightarrow> True
     | Some (Inl e, m') \<Rightarrow> (\<exists>e'. d m = Some (Inl e', m') \<and> same_stop up e e')
     | Some (Inr x, m') \<Rightarrow> d m = Some (Inr x, m'))"

lemma same_stop_refl [simp]: "same_stop up e e"
  by (simp add: same_stop_def split: interruption.split)

lemma approximates_refl [simp]: "approximates up c c"
  by (auto simp: approximates_def split: option.split sum.split)

lemma approximates_out_of_fuel [simp]: "approximates up out_of_fuel d"
  by (simp add: approximates_def out_of_fuel_def)

lemma approximates_and_then:
  assumes c: "approximates up c d" and k: "\<And>x. approximates up (k x) (l x)"
  shows "approximates up (and_then c k) (and_then d l)"
  unfolding approximates_def
proof
  fix m
  have cm: "case c m of None \<Rightarrow> True
     | Some (Inl e, m') \<Rightarrow> (\<exists>e'. d m = Some (Inl e', m') \<and> same_stop up e e')
     | Some (Inr x, m') \<Rightarrow> d m = Some (Inr x, m')"
    using c by (simp add: approximates_def)
  show "case and_then c k m of None \<Rightarrow> True
     | Some (Inl e, m') \<Rightarrow> (\<exists>e'. and_then d l m = Some (Inl e', m') \<and> same_stop up e e')
     | Some (Inr x, m') \<Rightarrow> and_then d l m = Some (Inr x, m')"
  proof (cases "c m")
    case (Some p)
    obtain r m' where p: "p = (r, m')" by fastforce
    show ?thesis
    proof (cases r)
      case (Inl e)
      with cm Some p obtain e' where "d m = Some (Inl e', m')" "same_stop up e e'" by auto
      with Some p Inl show ?thesis by (simp add: and_then_def)
    next
      case (Inr x)
      with cm Some p have d: "d m = Some (Inr x, m')" by simp
      have kl: "case k x m' of None \<Rightarrow> True
         | Some (Inl e, m'') \<Rightarrow> (\<exists>e'. l x m' = Some (Inl e', m'') \<and> same_stop up e e')
         | Some (Inr y, m'') \<Rightarrow> l x m' = Some (Inr y, m'')"
        using k [of x] by (simp add: approximates_def)
      have eqs: "and_then c k m = k x m'" "and_then d l m = l x m'"
        using Some p Inr d by (simp_all add: and_then_def)
      show ?thesis unfolding eqs by (rule kl)
    qed
  qed (simp add: and_then_def)
qed

lemma approximates_then:
  "(\<And>x. approximates up (k x) (l x)) \<Longrightarrow> approximates up (and_then c k) (and_then c l)"
  by (rule approximates_and_then) simp_all

lemma approximates_if:
  "approximates up c d \<Longrightarrow> approximates up c' d' \<Longrightarrow> approximates up (if b then c else c') (if b then d else d')"
  by simp

lemma approximates_run_map:
  "(\<And>x. x \<in> set xs \<Longrightarrow> approximates up (f x) (g (h x))) \<Longrightarrow> approximates up (run_map f xs) (run_map g (map h xs))"
proof (induction xs)
  case (Cons x xs)
  then show ?case
    unfolding run_map.simps list.map by (intro approximates_and_then approximates_refl) simp_all
qed simp

lemma approximates_unsupported:
  "(\<not> up \<Longrightarrow> e = e') \<Longrightarrow> ses_platform cx' = ses_platform cx
    \<Longrightarrow> approximates up (unsupported_intrinsic cx e) (unsupported_intrinsic cx' e')"
  by (cases up) (simp_all add: approximates_def unsupported_intrinsic_def raise_def same_stop_def runtime_failure_def)

section \<open>Resetting the modes, or not\<close>

definition rewrite_expr :: "bool \<Rightarrow> value_expr \<Rightarrow> value_expr" where
  "rewrite_expr tr = (if tr then reset_expr_mutation_modes else (\<lambda>e. e))"

definition rewrite_arm :: "bool \<Rightarrow> match_value_arm \<Rightarrow> match_value_arm" where
  "rewrite_arm tr = (if tr then reset_arm_mutation_modes else (\<lambda>a. a))"

definition rewrite_mode :: "bool \<Rightarrow> array_mutation_mode \<Rightarrow> array_mutation_mode" where
  "rewrite_mode tr mode = (if tr then CheckedCow else mode)"

definition rewrite_statement :: "bool \<Rightarrow> statement \<Rightarrow> statement" where
  "rewrite_statement tr = (if tr then reset_statement else (\<lambda>s. s))"

definition rewrite_match_arm :: "bool \<Rightarrow> match_statement_arm \<Rightarrow> match_statement_arm" where
  "rewrite_match_arm tr = (if tr then reset_match_statement_arm else (\<lambda>a. a))"

definition rewrite_loop_kind :: "bool \<Rightarrow> loop_kind \<Rightarrow> loop_kind" where
  "rewrite_loop_kind tr = (if tr then reset_loop_kind else (\<lambda>l. l))"

definition rewrite_select_arm :: "bool \<Rightarrow> task_select_arm \<Rightarrow> task_select_arm" where
  "rewrite_select_arm tr = (if tr then reset_task_select_arm else (\<lambda>a. a))"

definition rewrite_deferred :: "bool \<Rightarrow> deferred_call \<Rightarrow> deferred_call" where
  "rewrite_deferred tr = (if tr then reset_deferred_call else (\<lambda>c. c))"

lemma map_prod_ident: "map_prod id (\<lambda>x. x) = (\<lambda>p. p)"
  by (simp add: fun_eq_iff)

lemmas rewrite_unfold = rewrite_expr_def rewrite_arm_def rewrite_mode_def rewrite_statement_def
  rewrite_match_arm_def rewrite_loop_kind_def rewrite_select_arm_def rewrite_deferred_def map_prod_ident

lemma rewrite_expr_simps [simp]:
  "rewrite_expr tr (EIntrinsic0 o0) = EIntrinsic0 o0"
  "rewrite_expr tr (EIntrinsic1 o1 x) = EIntrinsic1 o1 (rewrite_expr tr x)"
  "rewrite_expr tr (EIntrinsic2 o2 l r) = EIntrinsic2 o2 (rewrite_expr tr l) (rewrite_expr tr r)"
  "rewrite_expr tr (EStringLiteral s) = EStringLiteral s"
  "rewrite_expr tr (EIntLiteral i) = EIntLiteral i"
  "rewrite_expr tr (EFloatLiteral s) = EFloatLiteral s"
  "rewrite_expr tr (ECharLiteral c) = ECharLiteral c"
  "rewrite_expr tr (EBoolLiteral b) = EBoolLiteral b"
  "rewrite_expr tr EVoidLiteral = EVoidLiteral"
  "rewrite_expr tr (EVariable n) = EVariable n"
  "rewrite_expr tr (EFunctionRef n) = EFunctionRef n"
  "rewrite_expr tr (EBinary l op r t) = EBinary (rewrite_expr tr l) op (rewrite_expr tr r) t"
  "rewrite_expr tr (EUnary uop x) = EUnary uop (rewrite_expr tr x)"
  "rewrite_expr tr (EStringCompare l op r) = EStringCompare (rewrite_expr tr l) op (rewrite_expr tr r)"
  "rewrite_expr tr (ECast x t) = ECast (rewrite_expr tr x) t"
  "rewrite_expr tr (ECall n args) = ECall n (map (rewrite_expr tr) args)"
  "rewrite_expr tr (EMutBorrow p) = EMutBorrow p"
  "rewrite_expr tr (EJsonStructured jop args) = EJsonStructured jop (map (rewrite_expr tr) args)"
  "rewrite_expr tr (EJsonRpc rop args) = EJsonRpc rop (map (rewrite_expr tr) args)"
  "rewrite_expr tr (ECron cop args) = ECron cop (map (rewrite_expr tr) args)"
  "rewrite_expr tr (ECollectionsStringMapSet m k v)
     = ECollectionsStringMapSet (rewrite_expr tr m) (rewrite_expr tr k) (rewrite_expr tr v)"
  "rewrite_expr tr (EUdpSocketSendToString m k v w)
     = EUdpSocketSendToString (rewrite_expr tr m) (rewrite_expr tr k) (rewrite_expr tr v) (rewrite_expr tr w)"
  by (cases tr; simp add: rewrite_unfold)+

lemma rewrite_expr_array_simps [simp]:
  "rewrite_expr tr (EArrayNew t) = EArrayNew t"
  "rewrite_expr tr (EArrayLiteral es t) = EArrayLiteral (map (rewrite_expr tr) es) t"
  "rewrite_expr tr (EArrayIndex a i t) = EArrayIndex (rewrite_expr tr a) (rewrite_expr tr i) t"
  "rewrite_expr tr (EArrayLen a) = EArrayLen (rewrite_expr tr a)"
  "rewrite_expr tr (EArrayIter a t) = EArrayIter (rewrite_expr tr a) t"
  "rewrite_expr tr (EArrayGet a i t) = EArrayGet (rewrite_expr tr a) (rewrite_expr tr i) t"
  "rewrite_expr tr (EArrayPop n t) = EArrayPop n t"
  "rewrite_expr tr (EArrayRemove n i t) = EArrayRemove n (rewrite_expr tr i) t"
  "rewrite_expr tr (EArrayPush n v t) = EArrayPush n (rewrite_expr tr v) t"
  "rewrite_expr tr (EArraySet n i v t mode)
     = EArraySet n (rewrite_expr tr i) (rewrite_expr tr v) t (rewrite_mode tr mode)"
  "rewrite_expr tr (EArrayInsert n i v t) = EArrayInsert n (rewrite_expr tr i) (rewrite_expr tr v) t"
  "rewrite_expr tr (EArrayClear n t) = EArrayClear n t"
  "rewrite_expr tr (EStructLiteral n targs fs) = EStructLiteral n targs (map (map_prod id (rewrite_expr tr)) fs)"
  "rewrite_expr tr (EFieldAccess n f) = EFieldAccess n f"
  "rewrite_expr tr (EEnumPayloadFieldAccess x n f) = EEnumPayloadFieldAccess (rewrite_expr tr x) n f"
  "rewrite_expr tr (EEnumVariant n targs f payload) = EEnumVariant n targs f (map_option (rewrite_expr tr) payload)"
  "rewrite_expr tr (EEnumPayload x n) = EEnumPayload (rewrite_expr tr x) n"
  "rewrite_expr tr (EMatch x arms) = EMatch (rewrite_expr tr x) (map (rewrite_arm tr) arms)"
  "rewrite_expr tr (EIf x l r) = EIf (rewrite_expr tr x) (rewrite_expr tr l) (rewrite_expr tr r)"
  "rewrite_expr tr (EPanic x t) = EPanic (rewrite_expr tr x) t"
  by (cases tr; simp add: rewrite_unfold option.map_ident)+

lemma rewrite_arm_simps [simp]:
  "arm_variant (rewrite_arm tr arm) = arm_variant arm"
  "arm_binding (rewrite_arm tr arm) = arm_binding arm"
  "arm_value (rewrite_arm tr arm) = rewrite_expr tr (arm_value arm)"
  by (cases arm; cases tr; simp add: rewrite_unfold)+

lemma rewrite_match_arm_simps [simp]:
  "stmt_arm_variant (rewrite_match_arm tr arm) = stmt_arm_variant arm"
  "stmt_arm_binding (rewrite_match_arm tr arm) = stmt_arm_binding arm"
  "stmt_arm_body (rewrite_match_arm tr arm) = map (rewrite_statement tr) (stmt_arm_body arm)"
  by (cases arm; cases tr; simp add: rewrite_unfold)+

lemma rewrite_is_borrow: "rewrite_expr tr e = EMutBorrow p \<longleftrightarrow> e = EMutBorrow p"
  by (cases e) simp_all

lemma rewrite_expr_False [simp]: "rewrite_expr False e = e" "rewrite_expr False = (\<lambda>e. e)"
  by (simp_all add: rewrite_expr_def)

lemma rewrite_loop_simps [simp]:
  "rewrite_loop_kind tr LoopInfinite = LoopInfinite"
  "rewrite_loop_kind tr (LoopWhile c) = LoopWhile (rewrite_expr tr c)"
  "rewrite_loop_kind tr (LoopCStyle n t i c s) = LoopCStyle n t (rewrite_expr tr i) (rewrite_expr tr c) (rewrite_expr tr s)"
  "rewrite_loop_kind tr (LoopIterate n t x) = LoopIterate n t (rewrite_expr tr x)"
  by (cases tr; simp add: rewrite_unfold reset_loop_kind_def)+

lemma rewrite_deferred_simps [simp]:
  "rewrite_deferred tr (DeferredExpr e) = DeferredExpr (rewrite_expr tr e)"
  "rewrite_deferred tr (DeferredEprintln e) = DeferredEprintln (rewrite_expr tr e)"
  "rewrite_deferred tr (DeferredEprint e) = DeferredEprint (rewrite_expr tr e)"
  "rewrite_deferred tr (DeferredPrintln e) = DeferredPrintln (rewrite_expr tr e)"
  "rewrite_deferred tr (DeferredPrint e) = DeferredPrint (rewrite_expr tr e)"
  by (cases tr; simp add: rewrite_unfold reset_deferred_call_def)+

lemma rewrite_statement_simps [simp]:
  "rewrite_statement tr (SLet n t e) = SLet n t (rewrite_expr tr e)"
  "rewrite_statement tr (SLetIf n t e b b') = SLetIf n t (rewrite_expr tr e) (map (rewrite_statement tr) b) (map (rewrite_statement tr) b')"
  "rewrite_statement tr (SLetMatch n t e n' ts arms) = SLetMatch n t (rewrite_expr tr e) n' ts (map (rewrite_match_arm tr) arms)"
  "rewrite_statement tr (SQuestionLet c n t t1 t2 e es) = SQuestionLet c n t t1 t2 (rewrite_expr tr e) (map (rewrite_expr tr) es)"
  "rewrite_statement tr (SQuestionReturn c t t1 t2 e es) = SQuestionReturn c t t1 t2 (rewrite_expr tr e) (map (rewrite_expr tr) es)"
  "rewrite_statement tr (SLetElse n t e n1 ts n2 b) = SLetElse n t (rewrite_expr tr e) n1 ts n2 (map (rewrite_statement tr) b)"
  "rewrite_statement tr (SIfLet no to e n1 ts n2 b bo)
     = SIfLet no to (rewrite_expr tr e) n1 ts n2 (map (rewrite_statement tr) b) (map_option (map (rewrite_statement tr)) bo)"
  "rewrite_statement tr (SIf e b b') = SIf (rewrite_expr tr e) (map (rewrite_statement tr) b) (map (rewrite_statement tr) b')"
  "rewrite_statement tr (SAssign n e) = SAssign n (rewrite_expr tr e)"
  "rewrite_statement tr (SAssignField n f t e) = SAssignField n f t (rewrite_expr tr e)"
  "rewrite_statement tr (SArrayIndexAssign n es ts e mode) = SArrayIndexAssign n es ts e (rewrite_mode tr mode)"
  "rewrite_statement tr (SEprintln e) = SEprintln (rewrite_expr tr e)"
  "rewrite_statement tr (SEprint e) = SEprint (rewrite_expr tr e)"
  "rewrite_statement tr (SPrintln e) = SPrintln (rewrite_expr tr e)"
  "rewrite_statement tr (SPrint e) = SPrint (rewrite_expr tr e)"
  "rewrite_statement tr (SPanic e) = SPanic (rewrite_expr tr e)"
  "rewrite_statement tr (SReturn eo) = SReturn (map_option (rewrite_expr tr) eo)"
  "rewrite_statement tr (SExpr e) = SExpr (rewrite_expr tr e)"
  "rewrite_statement tr (SMatch e n1 ts arms) = SMatch (rewrite_expr tr e) n1 ts (map (rewrite_match_arm tr) arms)"
  "rewrite_statement tr (SLoop l b) = SLoop (rewrite_loop_kind tr l) (map (rewrite_statement tr) b)"
  "rewrite_statement tr SBreak = SBreak"
  "rewrite_statement tr SContinue = SContinue"
  "rewrite_statement tr (SDefer dc) = SDefer (rewrite_deferred tr dc)"
  "rewrite_statement tr (STaskSelect sarms) = STaskSelect (map (rewrite_select_arm tr) sarms)"
  by (cases tr; simp add: rewrite_unfold option.map_ident)+

text \<open>The session with the reset program.\<close>

definition rewrite_session :: "bool \<Rightarrow> 'f session \<Rightarrow> 'f session" where
  "rewrite_session up cx = (if up then cx\<lparr>ses_program := reset_mutation_modes (ses_program cx)\<rparr> else cx)"

lemma rewrite_session_simps [simp]:
  "ses_limits (rewrite_session up cx) = ses_limits cx"
  "ses_platform (rewrite_session up cx) = ses_platform cx"
  "prog_consts (ses_program (rewrite_session up cx)) = prog_consts (ses_program cx)"
  by (simp_all add: rewrite_session_def reset_mutation_modes_def)

lemma set_variable_rewrite [simp]: "set_variable (rewrite_session up cx) = set_variable cx"
  by (intro ext) (simp only: set_variable_def rewrite_session_simps)

lemma rewrite_session_runs [simp]:
  "tick (rewrite_session up cx) = tick cx"
  "write_stdout (rewrite_session up cx) = write_stdout cx"
  "write_stderr (rewrite_session up cx) = write_stderr cx"
  "set_path (rewrite_session up cx) = set_path cx"
  "eval_num_binary (rewrite_session up cx) = eval_num_binary cx"
  by (simp_all add: fun_eq_iff tick_def write_stdout_def write_stderr_def write_output_def
      set_path_def eval_num_binary_def split: num_binary_function.split list.split)

lemma set_path_at_rewrite [simp]: "set_path_at (rewrite_session up cx) = set_path_at cx"
  by (intro ext) (simp only: set_path_at_def rewrite_session_simps)

lemma write_back_rewrite [simp]: "write_back (rewrite_session up cx) f i ws = write_back cx f i ws"
  by (induction ws) auto

section \<open>The arms\<close>

definition evs_related :: "bool \<Rightarrow> 'f evaluator \<Rightarrow> 'f evaluator \<Rightarrow> bool" where
  "evs_related up ev ev' \<longleftrightarrow> (\<forall>tr e. (tr \<longrightarrow> up) \<longrightarrow> approximates up (ev e) (ev' (rewrite_expr tr e)))"

definition blks_related ::
  "bool \<Rightarrow> (statement list \<Rightarrow> ('f, 'f signal) run) \<Rightarrow> (statement list \<Rightarrow> ('f, 'f signal) run) \<Rightarrow> bool" where
  "blks_related up blk blk' \<longleftrightarrow>
     (\<forall>tr b. (tr \<longrightarrow> up) \<longrightarrow> approximates up (blk b) (blk' (map (rewrite_statement tr) b)))"

lemma evs_relatedD: "evs_related up ev ev' \<Longrightarrow> tr \<longrightarrow> up \<Longrightarrow> approximates up (ev e) (ev' (rewrite_expr tr e))"
  by (simp add: evs_related_def)

lemma evs_related_same: "evs_related up ev ev' \<Longrightarrow> approximates up (ev e) (ev' e)"
  using evs_relatedD [of up ev ev' False] by simp

lemma blks_relatedD:
  "blks_related up blk blk' \<Longrightarrow> tr \<longrightarrow> up \<Longrightarrow> approximates up (blk b) (blk' (map (rewrite_statement tr) b))"
  by (simp add: blks_related_def)

lemmas approx_intros = approximates_and_then approximates_then approximates_if

lemma approx_operands:
  assumes "evs_related up ev ev'" "tr \<longrightarrow> up"
  shows "approximates up (eval_text ev e) (eval_text ev' (rewrite_expr tr e))"
    "approximates up (eval_bool ev e) (eval_bool ev' (rewrite_expr tr e))"
    "approximates up (eval_index ev e) (eval_index ev' (rewrite_expr tr e))"
    "approximates up (eval_array ev e) (eval_array ev' (rewrite_expr tr e))"
    "approximates up (eval_arg ev args i) (eval_arg ev' (map (rewrite_expr tr) args) i)"
    "approximates up (print_value cx ev el te e) (print_value (rewrite_session up' cx) ev' el te (rewrite_expr tr e))"
  using assms
  by (auto simp: eval_text_def eval_bool_def eval_index_def eval_array_def eval_arg_def print_value_def
      intro!: approximates_and_then evs_relatedD)

lemma approx_text_arg:
  assumes "evs_related up ev ev'" "tr \<longrightarrow> up"
  shows "approximates up (eval_text_arg ev args i) (eval_text_arg ev' (map (rewrite_expr tr) args) i)"
  using assms by (auto simp: eval_text_arg_def intro!: approximates_and_then approx_operands)

lemma approx_eval_argument:
  assumes "evs_related up ev ev'" "tr \<longrightarrow> up"
  shows "approximates up (eval_argument ev e) (eval_argument ev' (rewrite_expr tr e))"
proof (cases "\<exists>p. e = EMutBorrow p")
  case True
  then show ?thesis by (auto simp: eval_argument_def)
next
  case False
  have plain: "eval_argument g x = and_then (g x) (\<lambda>v. ret (v, None))" if "\<forall>p. x \<noteq> EMutBorrow p"
    for g :: "'a evaluator" and x
    using that by (simp add: eval_argument_def split: value_expr.split)
  from False have "\<forall>p. rewrite_expr tr e \<noteq> EMutBorrow p" by (simp add: rewrite_is_borrow)
  with False assms show ?thesis
    by (simp add: plain approximates_and_then evs_relatedD)
qed

lemma approx_bind_parameters:
  assumes "evs_related up ev ev'" "tr \<longrightarrow> up"
  shows "approximates up (bind_parameters cx ev (zip ps args) frame ws)
    (bind_parameters (rewrite_session up' cx) ev' (zip ps (map (rewrite_expr tr) args)) frame ws)"
proof (induction ps arbitrary: args frame ws)
  case (Cons p ps)
  show ?case
  proof (cases args)
    case (Cons a as)
    then show ?thesis
      by (auto intro!: approximates_and_then approximates_then approx_eval_argument [OF assms] Cons.IH
          split: prod.split)
  qed simp
qed simp

lemma rewrite_find_function:
  "find (\<lambda>f. fun_name f = name) (prog_functions (ses_program (rewrite_session up cx)))
     = map_option (\<lambda>f. f\<lparr>fun_body := map (rewrite_statement up) (fun_body f)\<rparr>)
         (find (\<lambda>f. fun_name f = name) (prog_functions (ses_program cx)))"
proof (cases up)
  case True
  have "find (\<lambda>f. fun_name f = name) (map (\<lambda>f. f\<lparr>fun_body := reset_body_mutation_modes (fun_body f)\<rparr>) fs)
      = map_option (\<lambda>f. f\<lparr>fun_body := map reset_statement (fun_body f)\<rparr>) (find (\<lambda>f. fun_name f = name) fs)" for fs
    by (induction fs) (auto simp: reset_body_mutation_modes_def)
  with True show ?thesis
    by (simp add: rewrite_session_def reset_mutation_modes_def rewrite_statement_def)
qed (simp add: rewrite_session_def rewrite_statement_def option.map_ident)

lemma approx_call_body:
  assumes "evs_related up ev ev'" "tr \<longrightarrow> up" "blks_related up blk blk'"
  shows "approximates up (call_body cx ev blk callee args)
    (call_body (rewrite_session up cx) ev' blk' (callee\<lparr>fun_body := map (rewrite_statement up) (fun_body callee)\<rparr>)
      (map (rewrite_expr tr) args))"
  unfolding call_body_def
  by (auto intro!: approximates_and_then approximates_then approx_bind_parameters [OF assms(1,2)]
      blks_relatedD [OF assms(3)])

lemma approx_call:
  assumes "evs_related up ev ev'" "tr \<longrightarrow> up" "blks_related up blk blk'"
  shows "approximates up (call_function cx ev blk name args)
    (call_function (rewrite_session up cx) ev' blk' name (map (rewrite_expr tr) args))"
proof -
  have "approximates up (call_declared cx ev blk name args)
      (call_declared (rewrite_session up cx) ev' blk' name (map (rewrite_expr tr) args))"
    unfolding call_declared_def rewrite_find_function
    by (intro approximates_then)
      (auto intro: approx_call_body [OF assms] split: option.split)
  moreover have "approximates up (case args of [] \<Rightarrow> raise e | x # _ \<Rightarrow> ev x)
      (case map (rewrite_expr tr) args of [] \<Rightarrow> raise e | x # _ \<Rightarrow> ev' x)" for e
    by (cases args) (auto intro: evs_relatedD [OF assms(1,2)])
  ultimately show ?thesis
    unfolding call_function_def
    by (auto intro!: approximates_then split: option.split builtin.split)
qed

lemma approx_helpers:
  assumes "evs_related up ev ev'" "tr \<longrightarrow> up"
  shows "approximates up (eval_json_structured ev jop args) (eval_json_structured ev' jop (map (rewrite_expr tr) args))"
    "approximates up (eval_jsonrpc ev rop args) (eval_jsonrpc ev' rop (map (rewrite_expr tr) args))"
    "approximates up (eval_cron ev cop args) (eval_cron ev' cop (map (rewrite_expr tr) args))"
    "approximates up (eval_binary cx ev l op r)
      (eval_binary (rewrite_session up cx) ev' (rewrite_expr tr l) op (rewrite_expr tr r))"
proof -
  note intros = approximates_and_then approximates_then approx_operands [OF assms] approx_text_arg [OF assms]
  show "approximates up (eval_json_structured ev jop args) (eval_json_structured ev' jop (map (rewrite_expr tr) args))"
    unfolding eval_json_structured_def by (cases jop) (auto intro!: intros)
  show "approximates up (eval_jsonrpc ev rop args) (eval_jsonrpc ev' rop (map (rewrite_expr tr) args))"
    unfolding eval_jsonrpc_def by (cases rop) (auto intro!: intros)
  show "approximates up (eval_cron ev cop args) (eval_cron ev' cop (map (rewrite_expr tr) args))"
    unfolding eval_cron_def by (cases cop) (auto intro!: intros)
  show "approximates up (eval_binary cx ev l op r)
      (eval_binary (rewrite_session up cx) ev' (rewrite_expr tr l) op (rewrite_expr tr r))"
    unfolding eval_binary_def rewrite_session_simps
    by (auto intro!: intros evs_relatedD [OF assms])
qed

lemma approx_intrinsic1:
  assumes "evs_related up ev ev'" "tr \<longrightarrow> up"
  shows "approximates up (eval_intrinsic1 cx ev op x)
    (eval_intrinsic1 (rewrite_session up cx) ev' op (rewrite_expr tr x))"
proof -
  have unsupported_intrinsic: "approximates up (unsupported_intrinsic cx (EIntrinsic1 op x))
      (unsupported_intrinsic (rewrite_session up cx) (EIntrinsic1 op (rewrite_expr tr x)))" for op
    using assms(2) by (intro approximates_unsupported) auto
  have parts: "approximates up (eval_char ev f x) (eval_char ev' f (rewrite_expr tr x))"
    "approximates up (eval_variant_test ev name x) (eval_variant_test ev' name (rewrite_expr tr x))" for f name
    unfolding eval_char_def eval_variant_test_def
    by (auto intro!: approximates_and_then evs_relatedD [OF assms])
  show ?thesis
    unfolding eval_intrinsic1_def Let_def rewrite_session_simps
    by (cases op) (auto intro!: approximates_and_then approx_operands [OF assms] evs_relatedD [OF assms] parts
        unsupported_intrinsic)
qed

lemma approx_intrinsic2:
  assumes "evs_related up ev ev'" "tr \<longrightarrow> up"
  shows "approximates up (eval_intrinsic2 cx ev op x y)
    (eval_intrinsic2 (rewrite_session up cx) ev' op (rewrite_expr tr x) (rewrite_expr tr y))"
proof -
  have unsupported_intrinsic: "approximates up (unsupported_intrinsic cx (EIntrinsic2 op x y))
      (unsupported_intrinsic (rewrite_session up cx) (EIntrinsic2 op (rewrite_expr tr x) (rewrite_expr tr y)))" for op
    using assms(2) by (intro approximates_unsupported) auto
  have parts: "approximates up (eval_texts ev f x y) (eval_texts ev' f (rewrite_expr tr x) (rewrite_expr tr y))"
    "approximates up (eval_unwrap_or ev name x y) (eval_unwrap_or ev' name (rewrite_expr tr x) (rewrite_expr tr y))"
    for f name
    unfolding eval_texts_def eval_unwrap_or_def
    by (auto intro!: approximates_and_then evs_relatedD [OF assms] approx_operands [OF assms]
        split: rt_value.split option.split)
  show ?thesis
    unfolding eval_intrinsic2_def rewrite_session_simps
    by (cases op) (auto intro!: approximates_and_then evs_relatedD [OF assms] parts unsupported_intrinsic)
qed

lemma rewrite_find_arm:
  "find (\<lambda>arm. arm_variant arm = v) (map (rewrite_arm tr) arms)
     = map_option (rewrite_arm tr) (find (\<lambda>arm. arm_variant arm = v) arms)"
  "find (\<lambda>arm. stmt_arm_variant arm = v) (map (rewrite_match_arm tr) sarms)
     = map_option (rewrite_match_arm tr) (find (\<lambda>arm. stmt_arm_variant arm = v) sarms)"
  by (induction arms, auto) (induction sarms, auto)

lemma approx_compound:
  assumes "evs_related up ev ev'" "tr \<longrightarrow> up"
  defines "rw \<equiv> rewrite_expr tr"
  shows "approximates up (eval_string_compare ev l op r) (eval_string_compare ev' (rw l) op (rw r))"
    "approximates up (eval_array_index ev l r) (eval_array_index ev' (rw l) (rw r))"
    "approximates up (eval_array_get ev l r) (eval_array_get ev' (rw l) (rw r))"
    "approximates up (eval_array_push ev name l) (eval_array_push ev' name (rw l))"
    "approximates up (eval_array_set cx ev name l r) (eval_array_set (rewrite_session up cx) ev' name (rw l) (rw r))"
    "approximates up (eval_array_insert ev name l r) (eval_array_insert ev' name (rw l) (rw r))"
    "approximates up (eval_array_remove ev name l) (eval_array_remove ev' name (rw l))"
    "approximates up (eval_payload_field ev l name field) (eval_payload_field ev' (rw l) name field)"
    "approximates up (eval_panic cx ev l) (eval_panic (rewrite_session up cx) ev' (rw l))"
    "approximates up (eval_enum_variant ev enum_name name payload)
      (eval_enum_variant ev' enum_name name (map_option rw payload))"
    "approximates up (eval_match ev l arms) (eval_match ev' (rw l) (map (rewrite_arm tr) arms))"
  unfolding eval_string_compare_def eval_array_index_def eval_array_get_def eval_array_push_def
    eval_array_set_def eval_array_insert_def eval_array_remove_def eval_payload_field_def eval_panic_def
    eval_enum_variant_def eval_match_def rw_def rewrite_session_simps rewrite_find_arm
  by (auto intro!: approximates_and_then approximates_then approx_operands [OF assms(1,2)] evs_relatedD [OF assms(1,2)]
      split: rt_value.split option.split)

lemma approx_struct_literal:
  assumes "evs_related up ev ev'" "tr \<longrightarrow> up"
  shows "approximates up (eval_struct_literal ev name entries)
    (eval_struct_literal ev' name (map (map_prod id (rewrite_expr tr)) entries))"
  unfolding eval_struct_literal_def
  by (intro approximates_and_then approximates_run_map)
    (auto intro!: approximates_and_then evs_relatedD [OF assms])

lemma approx_eval_arms:
  assumes "evs_related up ev ev'" "tr \<longrightarrow> up" "blks_related up blk blk'"
  shows "approximates up (eval_arms cx ev blk e) (eval_arms (rewrite_session up cx) ev' blk' (rewrite_expr tr e))"
proof -
  note intros = approximates_and_then approx_operands [OF assms(1,2)] approx_call [OF assms]
    approx_helpers [OF assms(1,2)] approx_intrinsic1 [OF assms(1,2)] approx_intrinsic2 [OF assms(1,2)]
    approx_compound [OF assms(1,2)] approx_struct_literal [OF assms(1,2)] evs_relatedD [OF assms(1,2)]
    approximates_run_map
  have map_set: "approximates up (unsupported_intrinsic cx (ECollectionsStringMapSet m k v))
      (unsupported_intrinsic (rewrite_session up cx)
        (ECollectionsStringMapSet (rewrite_expr tr m) (rewrite_expr tr k) (rewrite_expr tr v)))" for m k v
    using assms(2) by (intro approximates_unsupported) auto
  have zero: "eval_intrinsic0 (rewrite_session up cx) = eval_intrinsic0 cx"
    by (intro ext) (simp add: eval_intrinsic0_def unsupported_intrinsic_def split: intrinsic0.split)
  show ?thesis
    unfolding eval_arms_def Let_def rewrite_session_simps
    by (cases e) (auto simp: zero intro!: intros map_set)
qed

section \<open>The statements\<close>

lemma approx_iterate_body:
  "approximates up body body' \<Longrightarrow> approximates up again again'
    \<Longrightarrow> approximates up (iterate_body body again) (iterate_body body' again')"
  unfolding iterate_body_def by (auto intro!: approximates_and_then split: option.split)

lemma approx_iterate_loop:
  "approximates up body body'
    \<Longrightarrow> approximates up (iterate_loop cx name body vs) (iterate_loop (rewrite_session up' cx) name body' vs)"
  by (induction vs) (auto intro!: approximates_then approx_iterate_body)

lemma approx_loops:
  "approximates up body body' \<Longrightarrow> n \<le> n'
    \<Longrightarrow> approximates up (infinite_loop n cx body) (infinite_loop n' (rewrite_session up' cx) body')"
  "approximates up c c' \<Longrightarrow> approximates up a a' \<Longrightarrow> approximates up body body' \<Longrightarrow> n \<le> n'
    \<Longrightarrow> approximates up (while_loop n cx c a body) (while_loop n' (rewrite_session up' cx) c' a' body')"
proof (induction n arbitrary: n')
  case (Suc n)
  { case 1 then show ?case using Suc.IH(1)
      by (cases n') (auto intro!: approximates_then approx_iterate_body) }
  { case 2 then show ?case using Suc.IH(2)
      by (cases n') (auto intro!: approximates_and_then approximates_then approx_iterate_body) }
qed simp_all

lemma approx_exec_loop:
  assumes "evs_related up ev ev'" "tr \<longrightarrow> up" "blks_related up blk blk'" "n \<le> n'"
  shows "approximates up (exec_loop n cx ev blk l body)
    (exec_loop n' (rewrite_session up cx) ev' blk' (rewrite_loop_kind tr l) (map (rewrite_statement tr) body))"
  unfolding exec_loop_def Let_def rewrite_session_simps
  by (cases l)
    (auto intro!: approximates_and_then approximates_then approx_operands [OF assms(1,2)]
      evs_relatedD [OF assms(1,2)] blks_relatedD [OF assms(3,2)] approx_loops approx_iterate_loop assms(4))

lemma approx_run_deferred:
  assumes "evs_related up ev ev'" "tr \<longrightarrow> up"
  shows "approximates up (run_deferred cx ev deferred)
    (run_deferred (rewrite_session up cx) ev' (map (rewrite_deferred tr) deferred))"
proof -
  have call: "approximates up (run_deferred_call cx ev c)
      (run_deferred_call (rewrite_session up cx) ev' (rewrite_deferred tr c))" for c
    unfolding run_deferred_call_def
    by (cases c) (auto intro!: approximates_and_then approx_operands [OF assms] evs_relatedD [OF assms])
  have "approximates up (run_deferred_calls cx ev cs)
      (run_deferred_calls (rewrite_session up cx) ev' (map (rewrite_deferred tr) cs))" for cs
    by (induction cs) (auto intro!: approximates_then approximates_and_then call)
  then show ?thesis by (simp add: run_deferred_def rev_map)
qed

lemma approx_statement_parts:
  assumes "evs_related up ev ev'" "tr \<longrightarrow> up" "blks_related up blk blk'"
  defines "rw \<equiv> rewrite_expr tr" and "rb \<equiv> map (rewrite_statement tr)"
  shows "approximates up (exec_match ev blk e arms) (exec_match ev' blk' (rw e) (map (rewrite_match_arm tr) arms))"
    "approximates up (exec_let_else ev blk name e variant body) (exec_let_else ev' blk' name (rw e) variant (rb body))"
    "approximates up (exec_if_let ev blk binding e variant body else_body)
      (exec_if_let ev' blk' binding (rw e) variant (rb body) (map_option rb else_body))"
    "approximates up (exec_question_let cx ev carrier name ty e actions)
      (exec_question_let (rewrite_session up cx) ev' carrier name ty (rw e) (map rw actions))"
    "approximates up (exec_index_assign cx ev name indices e)
      (exec_index_assign (rewrite_session up cx) ev' name indices e)"
proof -
  note intros = approximates_and_then approximates_then evs_relatedD [OF assms(1,2)] blks_relatedD [OF assms(3,2)]
    approximates_run_map
  show "approximates up (exec_match ev blk e arms) (exec_match ev' blk' (rw e) (map (rewrite_match_arm tr) arms))"
    unfolding exec_match_def rw_def rewrite_find_arm
    by (auto intro!: intros split: rt_value.split option.split)
  show "approximates up (exec_let_else ev blk name e variant body) (exec_let_else ev' blk' name (rw e) variant (rb body))"
    unfolding exec_let_else_def rw_def rb_def by (auto intro!: intros split: rt_value.split)
  show "approximates up (exec_if_let ev blk binding e variant body else_body)
      (exec_if_let ev' blk' binding (rw e) variant (rb body) (map_option rb else_body))"
    unfolding exec_if_let_def rw_def rb_def by (auto intro!: intros split: option.split)
  show "approximates up (exec_question_let cx ev carrier name ty e actions)
      (exec_question_let (rewrite_session up cx) ev' carrier name ty (rw e) (map rw actions))"
    unfolding exec_question_let_def rw_def Let_def rewrite_session_simps
    by (auto intro!: intros split: rt_value.split)
  have index: "approximates up (eval_index ev i) (eval_index ev' i)" for i
    unfolding eval_index_def by (auto intro!: approximates_and_then evs_related_same [OF assms(1)])
  have "approximates up (run_map (eval_index ev) indices) (run_map (eval_index ev') indices)"
    using approximates_run_map [of indices up "eval_index ev" "eval_index ev'" "\<lambda>i. i"] index by simp
  then show "approximates up (exec_index_assign cx ev name indices e)
      (exec_index_assign (rewrite_session up cx) ev' name indices e)"
    unfolding exec_index_assign_def rewrite_session_simps
    by (auto intro!: approximates_and_then evs_related_same [OF assms(1)])
qed

lemma approx_exec_statement:
  assumes "evs_related up ev ev'" "tr \<longrightarrow> up" "blks_related up blk blk'" "n \<le> n'"
  shows "approximates up (exec_statement n cx ev blk s)
    (exec_statement n' (rewrite_session up cx) ev' blk' (rewrite_statement tr s))"
proof -
  note intros = approximates_and_then approximates_if approx_operands [OF assms(1,2)] evs_relatedD [OF assms(1,2)]
    blks_relatedD [OF assms(3,2)] approx_statement_parts [OF assms(1-3)] approx_exec_loop [OF assms]
    approx_compound(9) [OF assms(1,2)]
  show ?thesis
    unfolding exec_statement_def rewrite_session_simps
    by (cases s) (auto intro!: intros split: option.split)
qed

lemma approx_block_loop:
  assumes "evs_related up ev ev'" "tr \<longrightarrow> up" "blks_related up blk blk'" "n \<le> n'"
  shows "approximates up (block_loop n cx ev blk deferred body)
    (block_loop n' (rewrite_session up cx) ev' blk' (map (rewrite_deferred tr) deferred) (map (rewrite_statement tr) body))"
proof (induction body arbitrary: deferred)
  case Nil
  show ?case by (auto intro!: approximates_and_then approx_run_deferred assms)
next
  case (Cons s body)
  show ?case
  proof (cases "\<exists>c. s = SDefer c")
    case True
    then obtain c where s: "s = SDefer c" by blast
    from Cons.IH [of "deferred @ [c]"] show ?thesis
      by (auto simp: s intro!: approximates_then)
  next
    case False
    have plain: "block_loop k x g b d (t # rest) = and_then (tick x) (\<lambda>_. and_then (exec_statement k x g b t) (\<lambda>signal.
         if is_next signal then block_loop k x g b d rest
         else and_then (run_deferred x g d) (\<lambda>_. ret signal)))" if "\<forall>c. t \<noteq> SDefer c"
      for k b d t rest and x :: "'a session" and g
      using that by (auto split: statement.split)
    have s: "\<forall>c. s \<noteq> SDefer c" "\<forall>c. rewrite_statement tr s \<noteq> SDefer c"
      using False by (cases s; auto)+
    show ?thesis
      unfolding list.map plain [OF s(1)] plain [OF s(2)] rewrite_session_runs(1)
      by (intro approximates_then approximates_and_then approximates_if approx_exec_statement approx_run_deferred
          Cons.IH assms approximates_refl)
  qed
qed

section \<open>The walks\<close>

lemma walks_related:
  "n \<le> n' \<Longrightarrow> evs_related up (eval_expr n cx) (eval_expr n' (rewrite_session up cx))"
  "n \<le> n' \<Longrightarrow> blks_related up (exec_block n cx) (exec_block n' (rewrite_session up cx))"
proof (induction n arbitrary: n')
  case (Suc n)
  { case 1
    then obtain k where "n' = Suc k" "n \<le> k" by (cases n') auto
    then show ?case
      using Suc by (auto simp: evs_related_def intro!: approximates_then approx_eval_arms) }
  { case 2
    then obtain k where "n' = Suc k" "n \<le> k" by (cases n') auto
    then show ?case
      using Suc approx_block_loop [of up "eval_expr n cx" "eval_expr k (rewrite_session up cx)" _
          "exec_block n cx" "exec_block k (rewrite_session up cx)" n k cx "[]"]
      by (auto simp: blks_related_def) }
qed (simp_all add: evs_related_def blks_related_def)

lemma approx_run_main_with:
  assumes "n \<le> n'"
  shows "approximates up (run_main_with n cx) (run_main_with n' (rewrite_session up cx))"
proof -
  note related = walks_related [OF assms, of up cx]
  have "approximates up (define_constants n cx cs) (define_constants n' (rewrite_session up cx) cs)" for cs
    by (induction cs) (auto intro!: approximates_and_then approximates_then evs_related_same [OF related(1)])
  then show ?thesis
    unfolding run_main_with_def rewrite_session_simps
    using approx_call [OF related(1) _ related(2), where tr = False and name = "''main''" and args = "[]"]
    by (auto intro!: approximates_and_then)
qed

end
