(* ===== verification/Interp_Program.thy ===== *)
theory Interp_Program
  imports Interp_Termination Interp_Modes Mir_Optimize
begin

text \<open>
  Whole programs: the fuel of \<open>run_main\<close> is enough and its amount does not matter, and the release pass
  of \<open>crates/nomo_mir\<close> does not change what a program does in the interpreter.
\<close>

lemma run_main_with_ends:
  assumes "bounded cx" "unat (max_steps (ses_limits cx)) < n"
  shows "run_main_with n cx (new_machine cx) \<noteq> None"
proof -
  let ?budget = "unat (max_steps (ses_limits cx))"
  have "ends_within cx ?budget (run_main_with n cx)"
    using assms by (intro steps.ok_run_main_with walks_end)
  moreover have "steps_left cx (new_machine cx) \<le> ?budget"
    by (simp add: steps_left_def)
  ultimately show ?thesis
    by (cases rule: keepsE) auto
qed

lemma more_fuel:
  assumes "run_main_with n cx m = Some p" "n \<le> n'"
  shows "run_main_with n' cx m = Some p"
proof -
  have "approximates False (run_main_with n cx) (run_main_with n' cx)"
    using approx_run_main_with [OF assms(2), of False cx] by (simp add: rewrite_session_def)
  with assms(1) show ?thesis
    by (cases p; cases "fst p") (auto simp: approximates_def same_stop_def dest: spec [of _ m])
qed

text \<open>A result without the text of its error.\<close>

definition result_code :: "interruption + unit \<Rightarrow> string option option" where
  "result_code r = (case r of
       Inl (Failure e) \<Rightarrow> Some (Some (rt_code e))
     | Inl Panicked \<Rightarrow> Some None
     | Inr _ \<Rightarrow> None)"

lemma result_code_iff:
  "result_code r' = result_code r \<longleftrightarrow> (case r of
     Inr _ \<Rightarrow> r' = r
   | Inl Panicked \<Rightarrow> r' = Inl Panicked
   | Inl (Failure e) \<Rightarrow> (\<exists>e'. r' = Inl (Failure e') \<and> rt_code e' = rt_code e))"
  by (auto simp: result_code_def split: sum.splits interruption.splits)

lemma same_stop_code: "same_stop True e e' \<Longrightarrow> result_code (Inl e') = result_code (Inl e)"
  by (cases e; cases e') (simp_all add: same_stop_def result_code_def)

lemma reset_runs_alike:
  assumes "run_main cx m = Some (r, m')"
  shows "\<exists>r'. run_main (cx\<lparr>ses_program := reset_mutation_modes (ses_program cx)\<rparr>) m = Some (r', m')
    \<and> result_code r' = result_code r"
proof -
  have "approximates True (run_main cx) (run_main (rewrite_session True cx))"
    unfolding run_main_def rewrite_session_simps by (rule approx_run_main_with) simp
  with assms show ?thesis
    by (cases r)
      (auto simp: approximates_def rewrite_session_def dest!: spec [of _ m] same_stop_code)
qed

text \<open>C10. Every program terminates in the interpreter when \<open>max_steps\<close> is below the largest \<open>u64\<close>: with more
  fuel than \<open>max_steps\<close> the run ends, and it ends in the same way whatever the fuel is.\<close>

theorem run_main_returns:
  assumes "max_steps (ses_limits cx) \<noteq> - 1"
  shows "\<exists>r m. run_main cx (new_machine cx) = Some (r, m)
    \<and> (\<forall>n. run_main_with (unat (max_steps (ses_limits cx)) + 1 + n) cx (new_machine cx) = Some (r, m))"
proof -
  have "run_main cx (new_machine cx) \<noteq> None"
    unfolding run_main_def by (rule run_main_with_ends) (use assms in \<open>simp_all add: bounded_def\<close>)
  then obtain p where "run_main cx (new_machine cx) = Some p" by blast
  moreover from this have "run_main_with (unat (max_steps (ses_limits cx)) + 1 + n) cx (new_machine cx) = Some p" for n
    unfolding run_main_def by (rule more_fuel) simp
  ultimately show ?thesis by (cases p) auto
qed

text \<open>C3. The release pass keeps what the program does: the optimized program ends after the same number of
  steps with the same output, constants and frames, and either both succeed, or both panic, or both
  stop with the same error code (the text of an error can print the modes of an expression).\<close>

theorem optimized_program_runs_alike:
  assumes "max_steps (ses_limits cx) \<noteq> - 1"
  shows "\<exists>p' report r r' m.
    optimize_release_program (ses_program cx) = Some (p', report)
    \<and> run_main cx (new_machine cx) = Some (r, m)
    \<and> run_main (cx\<lparr>ses_program := p'\<rparr>) (new_machine cx) = Some (r', m)
    \<and> (case r of
         Inr _ \<Rightarrow> r' = r
       | Inl Panicked \<Rightarrow> r' = Inl Panicked
       | Inl (Failure e) \<Rightarrow> (\<exists>e'. r' = Inl (Failure e') \<and> rt_code e' = rt_code e))"
proof -
  obtain p' report where p': "optimize_release_program (ses_program cx) = Some (p', report)"
      "reset_mutation_modes p' = reset_mutation_modes (ses_program cx)"
    using optimize_release_program_total [of "ses_program cx"] by blast
  have ends: "run_main c (new_machine c) \<noteq> None" if "ses_limits c = ses_limits cx" for c :: "'a session"
    unfolding run_main_def by (rule run_main_with_ends) (use assms that in \<open>simp_all add: bounded_def\<close>)
  let ?cx = "cx\<lparr>ses_program := p'\<rparr>"
  have fresh: "new_machine ?cx = new_machine cx" by (simp add: new_machine_def)
  obtain r m where r: "run_main cx (new_machine cx) = Some (r, m)"
    using ends [of cx] by fastforce
  obtain r' m' where r': "run_main ?cx (new_machine cx) = Some (r', m')"
    using ends [of ?cx] fresh by fastforce
  have "m' = m \<and> result_code r' = result_code r"
    using reset_runs_alike [OF r] reset_runs_alike [OF r'] p'(2) by auto
  with p'(1) r r' show ?thesis
    unfolding result_code_iff by blast
qed

end
