(* ===== verification/Interp_Numbers.thy ===== *)
theory Interp_Numbers
  imports Interp_Calls
begin

text \<open>
  Coercions and arithmetic of the interpreter against the integers: a coercion of an integer to an integer
  type succeeds exactly when the number is in the range of the type and keeps the number, and an operation on
  mixed widths either is exact in the wider type or fails.
\<close>

section \<open>The integer of a value\<close>

definition integer_of :: "'f rt_value \<Rightarrow> int option" where
  "integer_of v = (case v of
       VI64 w \<Rightarrow> Some (sint w)
     | VI32 w \<Rightarrow> Some (sint w)
     | VU32 w \<Rightarrow> Some (uint w)
     | VU64 w \<Rightarrow> Some (uint w)
     | _ \<Rightarrow> None)"

definition type_bounds :: "value_type \<Rightarrow> (int \<times> int) option" where
  "type_bounds t = (case t of
       TyInt \<Rightarrow> Some (- (2 ^ 63), 2 ^ 63)
     | TyI32 \<Rightarrow> Some (- (2 ^ 31), 2 ^ 31)
     | TyU32 \<Rightarrow> Some (0, 2 ^ 32)
     | TyU64 \<Rightarrow> Some (0, 2 ^ 64)
     | _ \<Rightarrow> None)"

text \<open>The values of a type, as far as the interpreter looks at them.\<close>

definition has_type :: "'f rt_value \<Rightarrow> value_type \<Rightarrow> bool" where
  "has_type v t = (case v of
       VString _ \<Rightarrow> t = TyString
     | VI64 _ \<Rightarrow> t = TyInt
     | VI32 _ \<Rightarrow> t = TyI32
     | VU32 _ \<Rightarrow> t = TyU32
     | VU64 _ \<Rightarrow> t = TyU64
     | VF64 _ \<Rightarrow> t = TyFloat
     | VChar _ \<Rightarrow> t = TyChar
     | VBool _ \<Rightarrow> t = TyBool
     | VArray _ \<Rightarrow> (\<exists>e. t = TyArray e)
     | VStruct _ _ \<Rightarrow> (\<exists>name args. t = TyStruct name args)
     | VEnum _ _ _ \<Rightarrow> (\<exists>name args. t = TyEnum name args)
     | VVoid \<Rightarrow> t = TyVoid \<or> t = TyNever)"

text \<open>The pairs of a value and a type on which the coercion is defined; to \<open>f64\<close> it is the conversion of the
  platform, which rounds.\<close>

definition coercible :: "'f rt_value \<Rightarrow> value_type \<Rightarrow> bool" where
  "coercible v t = (case integer_of v of
       None \<Rightarrow> has_type v t
     | Some n \<Rightarrow> t = TyFloat \<or> (case type_bounds t of None \<Rightarrow> False | Some (lo, hi) \<Rightarrow> lo \<le> n \<and> n < hi))"

lemma sint_word_of_int:
  "- (2 ^ (LENGTH('w::len) - 1)) \<le> n \<Longrightarrow> n < 2 ^ (LENGTH('w) - 1) \<Longrightarrow> sint (word_of_int n :: 'w word) = n"
  by (simp add: signed_take_bit_int_eq_self sint_sbintrunc')

lemma uint_word_of_int_small: "0 \<le> n \<Longrightarrow> n < 2 ^ LENGTH('w::len) \<Longrightarrow> uint (word_of_int n :: 'w word) = n"
  by (simp add: take_bit_int_eq_self uint_word_of_int_eq)

lemma sint_bounds:
  "- (2 ^ (LENGTH('w::len) - 1)) \<le> sint (w :: 'w word) \<and> sint w < 2 ^ (LENGTH('w) - 1)"
  using sint_ge [of w] sint_lt [of w] by simp

text \<open>The conversions of the four integer types.\<close>

lemma to_integer_facts:
  "case (to_i64 n :: runtime_error + 'f rt_value) of Inl _ \<Rightarrow> \<not> (- (2 ^ 63) \<le> n \<and> n < 2 ^ 63) | Inr w \<Rightarrow> - (2 ^ 63) \<le> n \<and> n < 2 ^ 63 \<and> has_type w TyInt \<and> integer_of w = Some n"
  "case (to_i32 n :: runtime_error + 'f rt_value) of Inl _ \<Rightarrow> \<not> (- (2 ^ 31) \<le> n \<and> n < 2 ^ 31) | Inr w \<Rightarrow> - (2 ^ 31) \<le> n \<and> n < 2 ^ 31 \<and> has_type w TyI32 \<and> integer_of w = Some n"
  "case (to_u32 n :: runtime_error + 'f rt_value) of Inl _ \<Rightarrow> \<not> (0 \<le> n \<and> n < 2 ^ 32) | Inr w \<Rightarrow> 0 \<le> n \<and> n < 2 ^ 32 \<and> has_type w TyU32 \<and> integer_of w = Some n"
  "case (to_u64 n :: runtime_error + 'f rt_value) of Inl _ \<Rightarrow> \<not> (0 \<le> n \<and> n < 2 ^ 64) | Inr w \<Rightarrow> 0 \<le> n \<and> n < 2 ^ 64 \<and> has_type w TyU64 \<and> integer_of w = Some n"
  using sint_word_of_int [where 'w = 64, of n] sint_word_of_int [where 'w = 32, of n]
    uint_word_of_int_small [where 'w = 32, of n] uint_word_of_int_small [where 'w = 64, of n]
  by (simp_all add: to_i64_def to_i32_def to_u32_def to_u64_def has_type_def integer_of_def)

definition coerced :: "'f platform \<Rightarrow> 'f rt_value \<Rightarrow> value_type \<Rightarrow> 'f rt_value \<Rightarrow> bool" where
  "coerced h v t w \<longleftrightarrow> has_type w t \<and> (case integer_of v of
       None \<Rightarrow> w = v
     | Some n \<Rightarrow> if t = TyFloat then w = VF64 (float_of_int h n) else integer_of w = Some n)"

lemma coerce_integer_sound:
  fixes v :: "'f rt_value"
  assumes "integer_of v = Some n"
  shows "case coerce_integer h v n t of
      Inl _ \<Rightarrow> \<not> coercible v t
    | Inr w \<Rightarrow> coercible v t \<and> coerced h v t w"
proof (cases t)
  case TyInt
  then show ?thesis using to_integer_facts(1) [of n, where 'f = 'f]
    by (cases "to_i64 n :: runtime_error + 'f rt_value")
      (simp_all add: coerce_integer_def coercible_def coerced_def assms type_bounds_def)
next
  case TyI32
  then show ?thesis using to_integer_facts(2) [of n, where 'f = 'f]
    by (cases "to_i32 n :: runtime_error + 'f rt_value")
      (simp_all add: coerce_integer_def coercible_def coerced_def assms type_bounds_def)
next
  case TyU32
  then show ?thesis using to_integer_facts(3) [of n, where 'f = 'f]
    by (cases "to_u32 n :: runtime_error + 'f rt_value")
      (simp_all add: coerce_integer_def coercible_def coerced_def assms type_bounds_def)
next
  case TyU64
  then show ?thesis using to_integer_facts(4) [of n, where 'f = 'f]
    by (cases "to_u64 n :: runtime_error + 'f rt_value")
      (simp_all add: coerce_integer_def coercible_def coerced_def assms type_bounds_def)
qed (simp_all add: coerce_integer_def coercible_def coerced_def assms type_bounds_def has_type_def)

lemma coerce_decides:
  "case coerce h v t of
     Inl _ \<Rightarrow> \<not> coercible v t
   | Inr w \<Rightarrow> coercible v t \<and> coerced h v t w"
proof (cases "integer_of v")
  case (Some n)
  then have "coerce h v t = coerce_integer h v n t"
    by (cases v) (auto simp: integer_of_def coerce_def)
  with coerce_integer_sound [OF Some] show ?thesis by simp
next
  case None
  then show ?thesis
    by (cases v; cases t)
      (auto simp: integer_of_def coerce_def coercible_def coerced_def has_type_def)
qed

section \<open>Arithmetic\<close>

definition fits :: "value_type \<Rightarrow> int \<Rightarrow> bool" where
  "fits t n = (case type_bounds t of None \<Rightarrow> False | Some (lo, hi) \<Rightarrow> lo \<le> n \<and> n < hi)"

text \<open>The type in which \<open>numeric_pair\<close> meets two integers.\<close>

definition common_type :: "'f rt_value \<Rightarrow> 'f rt_value \<Rightarrow> value_type" where
  "common_type l r =
     (if is_u64 l \<or> is_u64 r then TyU64
      else if is_u32 l \<or> is_u32 r then TyU32
      else if is_i32 l \<or> is_i32 r then TyI32
      else TyInt)"

text \<open>The exact value of an arithmetic operation, and when the code returns it: operands and result fit,
  where the remainder asks that the quotient fits.\<close>

definition arith_value :: "binary_op \<Rightarrow> int \<Rightarrow> int \<Rightarrow> int option" where
  "arith_value op x y = (case op of
       OpAdd \<Rightarrow> Some (x + y)
     | OpSubtract \<Rightarrow> Some (x - y)
     | OpMultiply \<Rightarrow> Some (x * y)
     | OpDivide \<Rightarrow> Some (x sdiv y)
     | OpRemainder \<Rightarrow> Some (x smod y)
     | _ \<Rightarrow> None)"

definition arith_defined :: "value_type \<Rightarrow> binary_op \<Rightarrow> int \<Rightarrow> int \<Rightarrow> bool" where
  "arith_defined t op x y \<longleftrightarrow> fits t x \<and> fits t y \<and> (case op of
       OpAdd \<Rightarrow> fits t (x + y)
     | OpSubtract \<Rightarrow> fits t (x - y)
     | OpMultiply \<Rightarrow> fits t (x * y)
     | OpDivide \<Rightarrow> y \<noteq> 0 \<and> fits t (x sdiv y)
     | OpRemainder \<Rightarrow> y \<noteq> 0 \<and> fits t (x sdiv y)
     | _ \<Rightarrow> False)"

lemma coercible_integer: "integer_of v = Some n \<Longrightarrow> t \<noteq> TyFloat \<Longrightarrow> coercible v t \<longleftrightarrow> fits t n"
  by (simp add: coercible_def fits_def)

lemma coerce_pair_integers:
  assumes "integer_of l = Some x" "integer_of r = Some y" "t \<noteq> TyFloat"
  shows "case coerce_pair h l r t of
      Inl _ \<Rightarrow> \<not> (fits t x \<and> fits t y)
    | Inr (l', r') \<Rightarrow> fits t x \<and> fits t y \<and> has_type l' t \<and> has_type r' t
        \<and> integer_of l' = Some x \<and> integer_of r' = Some y"
  using coerce_decides [where h = h and v = l and t = t] coerce_decides [where h = h and v = r and t = t] assms
  by (cases "coerce h l t"; cases "coerce h r t")
    (auto simp: coerce_pair_def coerced_def coercible_integer)

lemma numeric_pair_integers:
  assumes l: "integer_of l = Some x" and r: "integer_of r = Some y"
  shows "case numeric_pair h l r of
      Inl _ \<Rightarrow> \<not> (fits (common_type l r) x \<and> fits (common_type l r) y)
    | Inr (l', r') \<Rightarrow> fits (common_type l r) x \<and> fits (common_type l r) y
        \<and> has_type l' (common_type l r) \<and> has_type r' (common_type l r)
        \<and> integer_of l' = Some x \<and> integer_of r' = Some y"
proof -
  have not_f64: "\<not> is_f64 l" "\<not> is_f64 r"
    using assms by (auto simp: integer_of_def is_f64_def split: rt_value.splits)
  show ?thesis
  proof (cases "common_type l r = TyInt")
    case True
    then have "is_i64 l" "is_i64 r"
      using assms by (auto simp: common_type_def is_u64_def is_u32_def is_i32_def is_i64_def integer_of_def
          split: rt_value.splits if_splits)
    moreover have "fits TyInt x \<and> has_type l TyInt" "fits TyInt y \<and> has_type r TyInt"
      using calculation l r sint_bounds [where 'w = 64]
      by (auto simp: is_i64_def has_type_def integer_of_def fits_def type_bounds_def split: rt_value.splits)
    ultimately show ?thesis
      using not_f64 True l r
      by (auto simp: numeric_pair_def common_type_def split: if_splits)
  next
    case False
    then have "numeric_pair h l r = coerce_pair h l r (common_type l r)" "common_type l r \<noteq> TyFloat"
      using not_f64 by (auto simp: numeric_pair_def common_type_def split: if_splits)
    with coerce_pair_integers [OF l r, where t = "common_type l r" and h = h] show ?thesis by simp
  qed
qed

lemma represent_Some: "represent t v = Some w \<Longrightarrow> int_value t w = v"
  by (auto simp: represent_def Let_def split: if_splits)

lemma represent_bounds:
  "represent Signed v = (None :: 'w::len word option)
     \<longleftrightarrow> \<not> (- (2 ^ (LENGTH('w) - 1)) \<le> v \<and> v < 2 ^ (LENGTH('w) - 1))"
  "represent Unsigned v = (None :: 'w::len word option) \<longleftrightarrow> \<not> (0 \<le> v \<and> v < 2 ^ LENGTH('w))"
proof -
  show "represent Signed v = (None :: 'w::len word option)
     \<longleftrightarrow> \<not> (- (2 ^ (LENGTH('w) - 1)) \<le> v \<and> v < 2 ^ (LENGTH('w) - 1))"
    using sint_word_of_int [where 'w = 'w, of v] sint_bounds [where 'w = 'w, of "word_of_int v"]
    by (auto simp: represent_def Let_def int_value_def simp del: sint_bounds)
  show "represent Unsigned v = (None :: 'w::len word option) \<longleftrightarrow> \<not> (0 \<le> v \<and> v < 2 ^ LENGTH('w))"
    using uint_word_of_int_small [where 'w = 'w, of v] uint_lt2p [of "word_of_int v :: 'w word"]
      uint_ge_0 [of "word_of_int v :: 'w word"]
    unfolding represent_def Let_def int_value_def by (metis integer_impl.case(2) option.distinct(1))
qed

lemma fits_smod:
  assumes "fits ty x" "fits ty y" "y \<noteq> 0"
  shows "fits ty (x smod y)"
proof -
  obtain lo hi where b: "type_bounds ty = Some (lo, hi)" "lo \<le> x" "lo \<le> y" "y < hi"
    using assms by (auto simp: fits_def split: option.splits)
  then have "lo = 0 \<or> lo = - hi" "0 < hi"
    by (cases ty; auto simp: type_bounds_def)+
  moreover have "- \<bar>y\<bar> + 1 \<le> x smod y" "x smod y \<le> \<bar>y\<bar> - 1"
    using smod_int_range [OF assms(3), of x] by auto
  moreover have "0 \<le> x smod y" if "lo = 0"
    using smod_int_compares(2) [of x y] b that assms(3) by simp
  ultimately have "lo \<le> x smod y" "x smod y < hi" using b by auto
  with b show ?thesis by (simp add: fits_def)
qed

lemma ok_or_represent:
  assumes "represent t n = (None :: 'w::len word option) \<longleftrightarrow> \<not> fits ty n"
  shows "case ok_or e (represent t n :: 'w word option) of
      Inl _ \<Rightarrow> \<not> fits ty n
    | Inr w \<Rightarrow> fits ty n \<and> int_value t w = n"
  using assms represent_Some [of t n] by (cases "represent t n :: 'w word option") auto

text \<open>The checked operations at one width: the exact value when the type can represent it.\<close>

lemma integer_operation_exact:
  assumes z: "arith_value op (int_value t l) (int_value t r) = Some z"
    and fit: "\<And>n. represent t n = (None :: 'w::len word option) \<longleftrightarrow> \<not> fits ty n"
    and l: "fits ty (int_value t (l :: 'w word))" and r: "fits ty (int_value t (r :: 'w word))"
  shows "case integer_operation t l op r of
      Inl _ \<Rightarrow> \<not> arith_defined ty op (int_value t l) (int_value t r)
    | Inr w \<Rightarrow> arith_defined ty op (int_value t l) (int_value t r) \<and> int_value t w = z"
proof -
  have "word_of_int (int_value t r) = r"
    by (cases t) (simp_all add: int_value_def)
  moreover have "int_value t (0 :: 'w word) = 0"
    by (cases t) (simp_all add: int_value_def)
  ultimately have zero: "r = 0 \<longleftrightarrow> int_value t r = 0"
    by (metis of_int_0)
  show ?thesis
  proof (cases op)
    case OpDivide
    with z ok_or_represent [where n = "int_value t l sdiv int_value t r", OF fit] l r show ?thesis
      by (cases "r = 0") (auto simp: integer_operation_def arith_defined_def arith_value_def checked_div_def zero Let_def
        split: sum.splits)
  next
    case OpRemainder
    show ?thesis
    proof (cases "checked_div t l r")
      case None
      then have "int_value t r = 0 \<or> \<not> fits ty (int_value t l sdiv int_value t r)"
        using fit by (auto simp: checked_div_def zero split: if_splits)
      with OpRemainder None show ?thesis
        by (auto simp: integer_operation_def arith_defined_def checked_rem_def Let_def)
    next
      case (Some q)
      then have nz: "int_value t r \<noteq> 0"
          and "represent t (int_value t l sdiv int_value t r) \<noteq> (None :: 'w word option)"
        by (auto simp: checked_div_def zero split: if_splits)
      with fit [of "int_value t l sdiv int_value t r"] have q: "fits ty (int_value t l sdiv int_value t r)" by simp
      have "fits ty (int_value t l smod int_value t r)"
        by (rule fits_smod [OF l r nz])
      then obtain w where w: "represent t (int_value t l smod int_value t r) = Some (w :: 'w word)"
        using fit by (metis not_None_eq)
      then have "w = word_of_int (int_value t l smod int_value t r)" "int_value t w = int_value t l smod int_value t r"
        by (auto simp: represent_def Let_def represent_Some [OF w] split: if_splits)
      with OpRemainder Some z nz q l r show ?thesis
        by (auto simp: integer_operation_def arith_defined_def arith_value_def checked_rem_def Let_def)
    qed
  next
    case OpAdd
    with z ok_or_represent [where n = "int_value t l + int_value t r", OF fit] l r show ?thesis
      by (auto simp: integer_operation_def arith_defined_def arith_value_def Let_def split: sum.splits)
  next
    case OpSubtract
    with z ok_or_represent [where n = "int_value t l - int_value t r", OF fit] l r show ?thesis
      by (auto simp: integer_operation_def arith_defined_def arith_value_def Let_def split: sum.splits)
  next
    case OpMultiply
    with z ok_or_represent [where n = "int_value t l * int_value t r", OF fit] l r show ?thesis
      by (auto simp: integer_operation_def arith_defined_def arith_value_def Let_def split: sum.splits)
  qed (use z in \<open>simp_all add: arith_value_def\<close>)
qed

lemma represent_fits:
  "represent Signed n = (None :: 64 word option) \<longleftrightarrow> \<not> fits TyInt n"
  "represent Signed n = (None :: 32 word option) \<longleftrightarrow> \<not> fits TyI32 n"
  "represent Unsigned n = (None :: 32 word option) \<longleftrightarrow> \<not> fits TyU32 n"
  "represent Unsigned n = (None :: 64 word option) \<longleftrightarrow> \<not> fits TyU64 n"
  by (simp_all add: represent_bounds fits_def type_bounds_def)

text \<open>An operation on two values of one integer type.\<close>

lemma same_type_operation_exact:
  assumes "has_type l t" "has_type r t" "integer_of l = Some x" "integer_of r = Some y"
    "arith_value op x y = Some z" "numeric_pair h a b = Ok (l, r)" "fits t x" "fits t y"
  shows "case numeric_operation h a op b of
      Inl _ \<Rightarrow> \<not> arith_defined t op x y
    | Inr v \<Rightarrow> arith_defined t op x y \<and> has_type v t \<and> integer_of v = Some z"
proof (cases l)
  case (VI64 u)
  with assms obtain w where r: "r = VI64 w" "t = TyInt" "x = int_value Signed u" "y = int_value Signed w"
    by (cases r) (auto simp: has_type_def integer_of_def int_value_def)
  with assms VI64 integer_operation_exact [of op Signed u w z TyInt, OF _ represent_fits(1)] show ?thesis
    by (cases "integer_operation Signed u op w")
      (auto simp: numeric_operation_def has_type_def integer_of_def int_value_def)
next
  case (VI32 u)
  with assms obtain w where r: "r = VI32 w" "t = TyI32" "x = int_value Signed u" "y = int_value Signed w"
    by (cases r) (auto simp: has_type_def integer_of_def int_value_def)
  with assms VI32 integer_operation_exact [of op Signed u w z TyI32, OF _ represent_fits(2)] show ?thesis
    by (cases "integer_operation Signed u op w")
      (auto simp: numeric_operation_def has_type_def integer_of_def int_value_def)
next
  case (VU32 u)
  with assms obtain w where r: "r = VU32 w" "t = TyU32" "x = int_value Unsigned u" "y = int_value Unsigned w"
    by (cases r) (auto simp: has_type_def integer_of_def int_value_def)
  with assms VU32 integer_operation_exact [of op Unsigned u w z TyU32, OF _ represent_fits(3)] show ?thesis
    by (cases "integer_operation Unsigned u op w")
      (auto simp: numeric_operation_def has_type_def integer_of_def int_value_def)
next
  case (VU64 u)
  with assms obtain w where r: "r = VU64 w" "t = TyU64" "x = int_value Unsigned u" "y = int_value Unsigned w"
    by (cases r) (auto simp: has_type_def integer_of_def int_value_def)
  with assms VU64 integer_operation_exact [of op Unsigned u w z TyU64, OF _ represent_fits(4)] show ?thesis
    by (cases "integer_operation Unsigned u op w")
      (auto simp: numeric_operation_def has_type_def integer_of_def int_value_def)
qed (use assms in \<open>simp_all add: integer_of_def\<close>)

lemma numeric_operation_integers:
  assumes "integer_of l = Some x" "integer_of r = Some y" "arith_value op x y = Some z"
  shows "case numeric_operation h l op r of
      Inl _ \<Rightarrow> \<not> arith_defined (common_type l r) op x y
    | Inr v \<Rightarrow> arith_defined (common_type l r) op x y \<and> has_type v (common_type l r) \<and> integer_of v = Some z"
proof (cases "numeric_pair h l r")
  case (Inl e)
  with numeric_pair_integers [OF assms(1,2), where h = h] show ?thesis
    by (auto simp: numeric_operation_def arith_defined_def)
next
  case (Inr p)
  obtain l' r' where p: "p = (l', r')" by fastforce
  with numeric_pair_integers [OF assms(1,2), where h = h] Inr
    same_type_operation_exact [where l = l' and r = r' and a = l and b = r and t = "common_type l r" and h = h,
      OF _ _ _ _ assms(3)]
  show ?thesis by simp
qed

section \<open>What the two functions promise\<close>

lemma coerce_integers:
  assumes "integer_of v = Some n"
  shows "case type_bounds t of
      None \<Rightarrow> t = TyFloat \<or> (\<exists>e. coerce h v t = Inl e)
    | Some (lo, hi) \<Rightarrow> (case coerce h v t of
          Inl _ \<Rightarrow> n < lo \<or> hi \<le> n
        | Inr w \<Rightarrow> lo \<le> n \<and> n < hi \<and> has_type w t \<and> integer_of w = Some n)"
  using coerce_decides [where h = h and v = v and t = t] assms
  by (cases "coerce h v t")
    (auto simp: coercible_def coerced_def type_bounds_def split: option.split value_type.splits)

text \<open>C23. An integer is coerced to an integer type exactly when it is in the range of the type, and the result
  is a value of that type and the same number: nothing wraps, nothing is cut off, nothing in range is
  refused. To a type that has no numbers it is not coerced. (What becomes of it as an \<open>f64\<close> is up to the
  platform.)\<close>

theorem coerce_keeps_integer:
  "case integer_of v of
     None \<Rightarrow> True
   | Some n \<Rightarrow> (case type_bounds t of
       None \<Rightarrow> t = TyFloat \<or> (\<exists>e. coerce h v t = Inl e)
     | Some (lo, hi) \<Rightarrow> (case coerce h v t of
           Inl _ \<Rightarrow> n < lo \<or> hi \<le> n
         | Inr w \<Rightarrow> lo \<le> n \<and> n < hi \<and> has_type w t \<and> integer_of w = Some n))"
  using coerce_integers [where v = v and h = h and t = t] by (simp split: option.split)

text \<open>C20. Arithmetic never wraps: on any two integers, of any widths, an addition, subtraction,
  multiplication, division or remainder returns the exact value in the common type, or it fails, and it
  fails only when an operand or the exact result does not fit that type or the divisor is zero (the
  remainder asks the quotient to fit).\<close>

theorem numeric_operation_exact:
  "case (integer_of l, integer_of r) of
     (Some x, Some y) \<Rightarrow>
       (case arith_value op x y of
          None \<Rightarrow> True
        | Some z \<Rightarrow>
            (case numeric_operation h l op r of
               Inl _ \<Rightarrow> \<not> arith_defined (common_type l r) op x y
             | Inr v \<Rightarrow> arith_defined (common_type l r) op x y
                 \<and> has_type v (common_type l r) \<and> integer_of v = Some z))
   | _ \<Rightarrow> True"
  using numeric_operation_integers [where l = l and r = r and op = op and h = h]
  by (auto split: option.split)

end
