(* ===== verification/Interp_Example.thy ===== *)
theory Interp_Example
  imports Interp_Program Interp_Numbers
begin

text \<open>
  A concrete session, with integers in the place of \<open>f64\<close>, on which the theorems about whole programs are
  applied. Its program counts in a loop, appends to an array through a borrowed parameter, defers a call
  and prints.
\<close>

definition example_platform :: "int platform" where
  "example_platform = \<lparr>float_parse = (\<lambda>_. None), float_text = (\<lambda>_. ''0''), float_of_int = id, float_neg = uminus,
     float_unary = (\<lambda>_ x. x), float_binary = (\<lambda>_ x y. max x y), float_arith = (\<lambda>_ x y. x + y), float_eq = (=),
     float_less = (<), float_less_eq = (\<le>), char_is_numeric = (\<lambda>c. 48 \<le> c \<and> c \<le> 57),
     char_is_alphabetic = (\<lambda>c. 97 \<le> c \<and> c \<le> 122), text_to_lower = id, text_to_upper = id,
     debug_expr = (\<lambda>_. ''expression'')\<rparr>"

definition example_push :: function_decl where
  "example_push = \<lparr>fun_package = ''app'', fun_name = ''push'', fun_is_suspend = False,
     fun_params = [\<lparr>param_name = ''xs'', param_mutable = True, param_type = TyArray TyInt\<rparr>,
       \<lparr>param_name = ''x'', param_mutable = False, param_type = TyInt\<rparr>],
     fun_return_type = TyVoid,
     fun_body = [SAssign ''xs'' (EArrayPush ''xs'' (EVariable ''x'') TyInt),
       SArrayIndexAssign ''xs'' [EIntLiteral 0] [TyInt] (EIntLiteral 9) CheckedUnique]\<rparr>"

definition example_main :: function_decl where
  "example_main = \<lparr>fun_package = ''app'', fun_name = ''main'', fun_is_suspend = False, fun_params = [],
     fun_return_type = TyVoid,
     fun_body = [SDefer (DeferredPrintln (EStringLiteral ''end'')),
       SLet ''xs'' (TyArray TyInt) (EArrayNew TyInt),
       SLoop (LoopCStyle ''i'' TyInt (EIntLiteral 0)
           (EBinary (EVariable ''i'') OpLess (EVariable ''n'') TyInt)
           (EBinary (EVariable ''i'') OpAdd (EIntLiteral 1) TyInt))
         [SExpr (ECall ''push'' [EMutBorrow [''xs''], EVariable ''i''])],
       SPrintln (EVariable ''xs'')]\<rparr>"

definition example_program :: program where
  "example_program = \<lparr>prog_package = ''app'', prog_imports = [], prog_extern_functions = [], prog_structs = [],
     prog_enums = [],
     prog_consts = [\<lparr>const_name = ''n'', const_type = TyInt, const_initializer = EIntLiteral 2\<rparr>],
     prog_functions = [example_main, example_push]\<rparr>"

definition example_session :: "int session" where
  "example_session = \<lparr>ses_program = example_program, ses_limits = default_limits\<lparr>max_steps := 100\<rparr>,
     ses_platform = example_platform\<rparr>"

lemma example_max_steps: "max_steps (ses_limits example_session) = 100"
  by (simp add: example_session_def)

lemma run_main_returns_witness:
  "\<exists>r m. run_main example_session (new_machine example_session) = Some (r, m)
    \<and> (\<forall>n. run_main_with (101 + n) example_session (new_machine example_session) = Some (r, m))"
  using run_main_returns [of example_session] by (simp add: example_max_steps)

lemma optimized_program_runs_alike_witness:
  "\<exists>p' report r r' m. optimize_release_program example_program = Some (p', report)
    \<and> run_main example_session (new_machine example_session) = Some (r, m)
    \<and> run_main (example_session\<lparr>ses_program := p'\<rparr>) (new_machine example_session) = Some (r', m)
    \<and> (case r of Inr _ \<Rightarrow> r' = r | Inl Panicked \<Rightarrow> r' = Inl Panicked
       | Inl (Failure e) \<Rightarrow> (\<exists>e'. r' = Inl (Failure e') \<and> rt_code e' = rt_code e))"
proof -
  have "ses_program example_session = example_program" by (simp add: example_session_def)
  then show ?thesis
    using optimized_program_runs_alike [of example_session] by (simp add: example_max_steps)
qed

text \<open>The interpreter's test for white space is the Unicode property, not the ASCII one that the standard
  library documents: it accepts the no-break space U+00A0.\<close>

lemma no_break_space_is_whitespace:
  "eval_intrinsic1 cx (\<lambda>_. ret (VChar 160)) CharIsWhitespace e = ret (VBool True)"
  by (simp add: eval_intrinsic1_def eval_char_def utf8_encode_def white_space_def bytes_of_def)

end
