(* ===== verification/Spec2Isabelle.thy ===== *)
theory Spec2Isabelle
  imports Front_End Format_Roundtrip Format_Comments Digraph Mir_Optimize Json_Rpc_Messages Cron_Search Cron_Fields Version_Solver Transparency_Example Interp_Example
begin

text \<open>
  A verification library for the Nomo toolchain, a compiler and its tools written in Rust.

  \<^bold>\<open>The program.\<close> A Nomo package goes through the front end (\<open>crates/nomo_syntax\<close>), the type checker and
  lowering (\<open>crates/nomo_compiler\<close>) into a typed intermediate representation (\<open>crates/nomo_ir\<close>). The release
  pass (\<open>crates/nomo_mir\<close>) rewrites that representation: it finds array stores whose buffer has no second
  owner and marks them, so that the generated C code (\<open>crates/nomo_codegen_c\<close>) need not copy. In the browser
  the representation is not compiled but interpreted (\<open>crates/nomo_wasm/src/interpreter.rs\<close>), with the JSON,
  JSON-RPC and cron helpers of the same crate in the place of host capabilities. Around the compiler, the
  resolver picks package versions (\<open>crates/nomo_manifest/src/version.rs\<close>, \<open>crates/nomo_resolver/src/solver.rs\<close>),
  orders packages with the graph library (\<open>libs/graph\<close>) and verifies what it downloads against publisher keys
  and a transparency log (\<open>crates/nomo_supply_chain\<close>).

  \<^bold>\<open>How it is modelled.\<close> Definitions follow the source item by item and keep its names; a method becomes a
  function that takes the state and returns the new one. A \<open>Result<T, E>\<close> is a sum with \<open>Err\<close> and \<open>Ok\<close>, a
  \<open>?\<close> is \<open>try_bind\<close>, an early return a branch. A \<open>&str\<close> is the list of its UTF-8 bytes, \<open>usize\<close> has 64 bits,
  a fixed width integer is a word where its overflow matters and a number with the bounds written out where
  the code bounds it itself. \<open>BTreeMap\<close> and \<open>BTreeSet\<close> are strictly sorted lists with the operations of
  \<open>Ordered_Map\<close>, a \<open>HashMap\<close> is a map. A panic is a value: \<open>None\<close> of an option where the code cannot recover,
  and then a property shows that it is not reached, or \<open>Panicked\<close> in the interpreter. Code outside the
  repository is a parameter: the record \<open>crates\<close> holds SHA-256, the Ed25519 check, the version parser and the
  clock; \<open>semver\<close> the operations of the semver crate; \<open>platform\<close> the \<open>f64\<close> operations, the Unicode tables
  and the derived \<open>Debug\<close> text of expressions.

  \<^bold>\<open>Shared theories.\<close> \<open>Prelude\<close> has the results, the loops over fallible steps and the lemmas on lists and
  words that all components use, \<open>Ordered_Map\<close> the locale of ordered maps with its interpretations on the association
  lists of \<open>BTreeMap\<close>, \<open>Rust_Text\<close> the operations of the standard library on text.

  \<^bold>\<open>Front end.\<close> All of \<open>crates/nomo_syntax\<close>, from the text of a source file to the tree.
  \<^item> \<open>Diagnostics\<close>: spans and messages. \<open>Lexer\<close>: \<open>lexer.rs\<close>, a loop over lines and characters. \<open>Syntax\<close>: the
    records and enums of \<open>ast.rs\<close>. \<open>Parser\<close>, \<open>Parser_Expr\<close>, \<open>Parser_Stmt\<close>, \<open>Parser_Decl\<close>: the four files of the
    parser. A method is a \<open>parse\<close>, a function of the parser's state to an error or a result with the next state.
  \<^item> \<open>Lexer_Places\<close>: where tokens are and their whole spelling, literals with their escapes included. \<open>Parser_Moves\<close>, \<open>Parser_Total\<close>: the contract \<open>advances\<close> of a method (it
    returns, goes forward, consumes, and its error is at a token), a rule for every combinator, and every
    method by these rules. \<open>Front_End\<close>: the front end returns (C5), what it reports is in the source
    (C6), and so are its tokens (C7).

  \<^bold>\<open>Formatter.\<close> All of \<open>crates/nomo_fmt\<close>, which prints the tree again with the comments of the source.
  \<^item> \<open>Format_Text\<close>: \<open>expr.rs\<close>, the text of types and expressions. \<open>Format_Layout\<close>: \<open>trivia.rs\<close> and \<open>layout.rs\<close>, the
    comments and the order of items. \<open>Format_Source\<close>: \<open>validate.rs\<close> and \<open>lib.rs\<close>; a method is an \<open>emit\<close>, a function of
    the formatter's state that ends in None where the code panics.
  \<^item> \<open>Lexer_Spelling\<close>: the lexer on texts that are put together (\<open>spells\<close>). \<open>Parser_Reads\<close>: the parser on lists of
    tokens that are put together (\<open>parses\<close>). \<open>Format_Tokens\<close>, \<open>Format_Levels\<close>: the tokens of an expression and how the
    levels of precedence read them. \<open>Format_Roundtrip\<close>: what is printed for a writable expression with calm
    tokens is read back as the same expression (C8); \<open>calm_needed\<close> shows where it is not.
  \<^item> \<open>Format_Grammar\<close>: a grammar of where the comments of a source are (\<open>laid_out\<close>), and that the scanner finds what
    it says. \<open>Format_Comments\<close>: no method takes back what is written (\<open>keeps_written\<close>), and the comments are written in order
    (C9). \<open>Parser_Evaluation\<close>: equations to evaluate the parser on an example.

  \<^bold>\<open>Intermediate representation and release pass.\<close>
  \<^item> \<open>Ir\<close>: the data of \<open>crates/nomo_ir/src/lib.rs\<close>, with sizes that make the walks over it terminate.
  \<^item> \<open>Mir_Modes\<close>: the walks that number, reset and mark statements (\<open>reset_mutation_modes\<close>, \<open>annotate_body\<close>).
  \<^item> \<open>Mir_Effects\<close>: the bindings in question and the operations of a statement on their buffers.
  \<^item> \<open>Mir_Builder\<close>, \<open>Mir_Graph\<close>: \<open>CfgBuilder\<close> and what it guarantees: identifiers in range, every operation
    of every statement in the block of that statement, panic edges (C28).
  \<^item> \<open>Mir_Dataflow\<close>: transfer, join and the worklist, a partial function of which termination is proved by the
    height of the state maps; the result is a post-fixed point above the entry state.
  \<^item> \<open>Mir_Ownership\<close>: the specification, a machine with reference counted buffers on which the operations of a
    graph run, and the simulation of that machine by the analysis.
  \<^item> \<open>Mir_Optimize\<close>: the driver and the properties of the whole pass: a marked store writes to a buffer with
    one reference (C1), eliding the proven detaches keeps all executions (C2), the pass returns and changes only
    modes (C11), it is idempotent (C32) and bounds checks stay in front of detaches (C24).

  \<^bold>\<open>Interpreter.\<close> All of \<open>crates/nomo_wasm/src/interpreter.rs\<close>. The struct \<open>Interpreter\<close> is split into the
  \<open>session\<close>, which does not change (program, limits, platform), and the \<open>machine\<close> (steps, output, constants,
  frames). A method is a \<open>run\<close>, a function from machines to an interruption or a value with the next machine.
  \<^item> \<open>Interp_Value\<close>: \<open>Value\<close>, limits, errors, coercion, comparison and arithmetic. \<open>Interp_Host\<close>: the values of
    options, results, JSON, JSON-RPC and cron. \<open>Interp_Machine\<close>: steps, output, variables, paths and frames.
    \<open>Interp_Calls\<close>: the methods that call back into evaluation. \<open>Interp_Eval\<close>: \<open>eval_expr\<close>, \<open>exec_block\<close>,
    \<open>exec_statement\<close>, \<open>exec_loop\<close>, \<open>run_deferred\<close>, \<open>run_main\<close>.
  \<^item> \<open>Interp_Contract\<close>, \<open>Interp_Arms\<close>: the locales \<open>run_contract\<close>, \<open>safety_contract\<close> and \<open>program_contract\<close>. A
    contract relates the machines before and after a run; when the few operations that touch the machine keep
    it, every arm of the walks does, and so do whole programs.
  \<^item> \<open>Interp_Limits\<close> interprets them for the limits of the sandbox (C12) and for the isolation of frames (C16),
    \<open>Interp_Termination\<close> for the steps that are left: every call and every iteration counts one.
  \<^item> \<open>Interp_Modes\<close>: a simulation between runs with less and more fuel and between programs that differ in
    mutation modes. \<open>Interp_Program\<close> concludes that every program ends (C10) and that the release pass keeps
    what it does (C3). \<open>Interp_Numbers\<close>: coercion and arithmetic against the integers (C20, C23).
    \<open>Interp_Example\<close>: a session on which C3 and C10 are applied.

  \<^bold>\<open>JSON, JSON-RPC and cron.\<close>
  \<^item> \<open>Json\<close>: parser and constructors of \<open>json.rs\<close>. \<open>Json_Bounds\<close> (limits and fuel, C39), \<open>Json_Text\<close> (literals,
    numbers), \<open>Json_Lexing\<close> and \<open>Json_Grammar\<close> (equivalence with the grammar of RFC 8259, an inductive predicate,
    C4), \<open>Json_Construct\<close> (constructors against the grammar, C30, C40).
  \<^item> \<open>Json_Rpc\<close>: \<open>jsonrpc.rs\<close>. \<open>Json_Rpc_Decoder\<close> (framing against line splitting, chunks, round trip, C17, C33 to
    C35), \<open>Json_Rpc_Messages\<close> (built messages are valid, C31, C36).
  \<^item> \<open>Cron\<close>: \<open>cron.rs\<close>. \<open>Cron_Calendar\<close> (the date formula against the calendar counted day by day, C37),
    \<open>Cron_Search\<close> (the bounded search misses nothing, C19), \<open>Cron_Fields\<close> (the language of expressions, C29).

  \<^bold>\<open>Packages and supply chain.\<close>
  \<^item> \<open>Digraph\<close>: \<open>libs/graph/src/lib.rs\<close>, with a topological sort that ends in an order or a real cycle (C18).
  \<^item> \<open>Version_Solver\<close>: constraints and selection (C21, C22).
  \<^item> \<open>Transparency\<close>, \<open>Transparency_Bundle\<close>: \<open>crates/nomo_supply_chain/src/lib.rs\<close>. \<open>Transparency_Encoding\<close> (signed bytes
    are injective, C38), \<open>Transparency_Merkle\<close> (inclusion proofs are sound up to an exhibited collision, and
    complete, C15, C27), \<open>Transparency_Chain\<close> (links between heads and between keys, C25, C26),
    \<open>Transparency_Verify\<close> (what a verified bundle proves, C13, C14), \<open>Transparency_Example\<close> (a concrete log).

  \<^bold>\<open>Fuel.\<close> The JSON parser takes \<open>2 * length + 1\<close>, since every nested call consumes a byte or is followed by
  one that does; C39 shows that it never runs out. The interpreter takes \<open>max_steps + 1\<close>: every nested call of
  a walk counts a step first, so that a walk with more fuel than steps left stops with the fuel error before
  the fuel of the model is used up; C10 shows that the result exists and does not depend on the amount. C10 and
  C3 ask for \<open>max_steps\<close> below the largest \<open>u64\<close>, where the counter saturates and the limit never fires. The
  depth first search of the graph takes the number of nodes. A loop of the parser takes the number of tokens,
  as each of its iterations consumes one; nested types take one unit for a token, expressions three (each of
  the three methods that call each other takes one before a token is consumed) and statements one.
  C5 shows that this is enough. The worklist of the release pass has no fuel.

  \<^bold>\<open>Findings.\<close> The comment of \<open>select_highest_version\<close> says that duplicate versions are rejected, but they
  are merged (\<open>duplicate_candidates_merge\<close>); C21 is about candidates without duplicates. A bundle may leave out the revocation of a publisher key and still verifies, since
  nothing shows that its key events are complete: C13 states what holds. The character tests of the
  interpreter are the Unicode ones where the documentation and the C runtime have ASCII ones
  (\<open>no_break_space_is_whitespace\<close>). A step limit of the largest \<open>u64\<close> does not limit.
  In the parser, the lookahead for type arguments of a call scans past the expression, the update of a C-style
  loop takes the body for a struct literal, an unbalanced \<open>>>\<close> closes type arguments that come later, and an
  operator \<open>==\<close> at the end of a line does not continue it. The formatter prints \<open>-(-x)\<close> as \<open>--x\<close> and drops needed
  parentheses of a cast before \<open><\<close> and of a name before a \<open><\<close> that a later \<open>> (\<close> follows (\<open>calm_needed\<close>;
  C8 excludes the three). It loses the second comment of a line (\<open>second_comment_lost\<close>) and the
  rest of a comment whose inner comment goes over lines (\<open>inner_comment_cut\<close>), it drops \<open>#[repr(C)]\<close> and the comments on the lines
  of closing braces, and it panics on an \<open>extern\<close> function type as the result of a function or the type of a constant.

  \<^bold>\<open>Not modelled.\<close>
  \<^item> The documentation generator and the editor bridge, which work on the syntax tree.
  \<^item> The type checker and lowering, the largest part of the repository; the properties of the release pass and
    of the interpreter hold for every program of the intermediate representation, well typed or not.
  \<^item> The C code generator: its result is C text, most of it fixed text of the runtime, and C has no semantics
    in the repository. C1 and C2 state what it may rely on.
  \<^item> The command line driver, the resolver's index and transport, the deserialisation of manifests and of the
    lock file, and the entry points of the WebAssembly module: files, processes, network, and serde.
  \<^item> Names of targets, report of a test run, rendering of diagnostics, and the embedded standard library.
\<close>

end
